(* ===== verification/Prelude.thy ===== *)
theory Prelude
  imports Main "HOL-Library.Char_ord" "HOL-Library.List_Lexorder" "HOL-Library.Product_Lexorder"
    "HOL-Library.Sublist" "HOL-Library.Multiset" "HOL-Library.AList" "HOL-Library.Word"
begin

text \<open>
  Shared vocabulary of the development: the Go types the program uses (byte strings, instants,
  durations, sized integers), the library functions of Go's \<^verbatim>\<open>strings\<close> and
  \<^verbatim>\<open>sort\<close> packages that several components call, and the interface under which every
  \<^verbatim>\<open>sort.Slice\<close> call of the program is reasoned about.

  A Go string is a sequence of bytes, so it is a \<^typ>\<open>char list\<close>: \<^const>\<open>length\<close> is Go's
  \<^verbatim>\<open>len\<close> and the order of \<^verbatim>\<open>HOL-Library.List_Lexorder\<close> is Go's bytewise comparison.
  An instant (\<^verbatim>\<open>time.Time\<close>) is the number of nanoseconds since Go's zero time, so that
  \<^verbatim>\<open>IsZero\<close> is \<open>t = 0\<close>; monotonic clock readings are not part of it.  A duration is a
  number of nanoseconds; the difference of two instants saturates at the 64-bit range as
  \<^verbatim>\<open>time.Time.Sub\<close> does.
\<close>

named_theorems go_string \<open>facts about the model of Go's string functions\<close>
named_theorems go_time \<open>facts about instants and durations\<close>

section \<open>Sized integers, instants and durations\<close>

type_synonym gotime = int
type_synonym duration = int
type_synonym u64 = "64 word"

abbreviation int64_max :: int where "int64_max \<equiv> 9223372036854775807"
abbreviation int64_min :: int where "int64_min \<equiv> - 9223372036854775808"

definition time_sub :: "gotime \<Rightarrow> gotime \<Rightarrow> duration" where
  "time_sub t u = max int64_min (min int64_max (t - u))"

lemma time_sub_exact [go_time]:
  "int64_min \<le> t - u \<Longrightarrow> t - u \<le> int64_max \<Longrightarrow> time_sub t u = t - u"
  by (simp add: time_sub_def)

lemma time_sub_self [simp]: "time_sub t t = 0"
  by (simp add: time_sub_def)

lemma time_sub_bounds [go_time]: "int64_min \<le> time_sub t u \<and> time_sub t u \<le> int64_max"
  by (simp add: time_sub_def)

lemma time_sub_nonneg_iff [simp]: "0 \<le> time_sub t u \<longleftrightarrow> u \<le> t"
  by (auto simp: time_sub_def)

lemma time_sub_le_iff [go_time]:
  "int64_min \<le> d \<Longrightarrow> d < int64_max \<Longrightarrow> time_sub t u \<le> d \<longleftrightarrow> t - u \<le> d"
  by (auto simp: time_sub_def)

lemma time_sub_mono [go_time]: "t \<le> t' \<Longrightarrow> time_sub t u \<le> time_sub t' u"
  by (auto simp: time_sub_def)

text \<open>The product of two durations, in 64-bit arithmetic.\<close>

definition dur_mul :: "duration \<Rightarrow> duration \<Rightarrow> duration" where
  "dur_mul a b = (a * b + 2 ^ 63) mod 2 ^ 64 - 2 ^ 63"

lemma dur_mul_exact [go_time]: "int64_min \<le> a * b \<Longrightarrow> a * b \<le> int64_max \<Longrightarrow> dur_mul a b = a * b"
  by (simp add: dur_mul_def)

text \<open>One second in nanoseconds, for the program's constants.\<close>

abbreviation second :: duration where "second \<equiv> 1000000000"
abbreviation millisecond :: duration where "millisecond \<equiv> 1000000"

section \<open>Byte strings\<close>

definition byte :: "char \<Rightarrow> nat" where
  "byte c = of_char c"

lemma byte_less_256 [simp]: "byte c < 256"
  unfolding byte_def by (metis mod_less_divisor of_char_mod_256 zero_less_numeral)

definition has_prefix :: "string \<Rightarrow> string \<Rightarrow> bool" where
  "has_prefix s p \<longleftrightarrow> prefix p s"

definition has_suffix :: "string \<Rightarrow> string \<Rightarrow> bool" where
  "has_suffix s p \<longleftrightarrow> suffix p s"

definition trim_prefix :: "string \<Rightarrow> string \<Rightarrow> string" where
  "trim_prefix s p = (if has_prefix s p then drop (length p) s else s)"

definition trim_suffix :: "string \<Rightarrow> string \<Rightarrow> string" where
  "trim_suffix s p = (if has_suffix s p then take (length s - length p) s else s)"

text \<open>\<^verbatim>\<open>strings.Contains\<close> and \<^verbatim>\<open>strings.Index\<close> for a non-empty needle.\<close>

fun index_of :: "string \<Rightarrow> string \<Rightarrow> nat option" where
  "index_of [] p = (if p = [] then Some 0 else None)"
| "index_of (c # s) p = (if has_prefix (c # s) p then Some 0 else map_option Suc (index_of s p))"

definition contains :: "string \<Rightarrow> string \<Rightarrow> bool" where
  "contains s p \<longleftrightarrow> index_of s p \<noteq> None"

text \<open>\<^verbatim>\<open>strings.Split\<close> with a one-byte separator: always at least one field.\<close>

fun split_char :: "char \<Rightarrow> string \<Rightarrow> string list" where
  "split_char c [] = [[]]"
| "split_char c (x # s) =
     (if x = c then [] # split_char c s
      else case split_char c s of [] \<Rightarrow> [[x]] | w # ws \<Rightarrow> (x # w) # ws)"

fun join_str :: "string \<Rightarrow> string list \<Rightarrow> string" where
  "join_str sep [] = []"
| "join_str sep [w] = w"
| "join_str sep (w # v # ws) = w @ sep @ join_str sep (v # ws)"

lemma split_char_not_Nil [simp]: "split_char c s \<noteq> []"
  by (induction s) (auto split: list.splits)

lemma join_split [go_string]: "join_str [c] (split_char c s) = s"
proof (induction s)
  case (Cons x s)
  obtain w ws where w: "split_char c s = w # ws"
    by (cases "split_char c s") auto
  with Cons show ?case by (cases ws) auto
qed simp

lemma split_char_no_sep [go_string]: "w \<in> set (split_char c s) \<Longrightarrow> c \<notin> set w"
  by (induction s arbitrary: w) (auto split: list.splits if_splits)

lemma split_char_word [go_string]: "c \<notin> set w \<Longrightarrow> split_char c w = [w]"
  by (induction w) auto

lemma split_char_append [go_string]: "c \<notin> set w \<Longrightarrow> split_char c (w @ c # s) = w # split_char c s"
  by (induction w) auto

lemma split_join [go_string]:
  "\<forall>w \<in> set ws. c \<notin> set w \<Longrightarrow> ws \<noteq> [] \<Longrightarrow> split_char c (join_str [c] ws) = ws"
  by (induction "[c]" ws rule: join_str.induct) (auto simp: split_char_word split_char_append)

text \<open>\<^verbatim>\<open>strings.ReplaceAll\<close> for a non-empty old string (the code never passes an empty one).\<close>

function replace_all :: "string \<Rightarrow> string \<Rightarrow> string \<Rightarrow> string" where
  "replace_all old new [] = []"
| "replace_all old new (c # s) =
     (if old \<noteq> [] \<and> has_prefix (c # s) old
      then new @ replace_all old new (drop (length old) (c # s))
      else c # replace_all old new s)"
  by pat_completeness auto
termination
  by (relation "measure (\<lambda>(old, new, s). length s)") auto

lemma replace_all_absent [go_string]: "\<not> contains s old \<Longrightarrow> replace_all old new s = s"
  by (induction s) (auto simp: contains_def split: if_splits)

text \<open>Decimal digits of a natural number, as \<^verbatim>\<open>strconv\<close> and \<^verbatim>\<open>fmt\<close> print them.\<close>

definition digit_char :: "nat \<Rightarrow> char" where
  "digit_char d = char_of (48 + d mod 10)"

fun nat_str :: "nat \<Rightarrow> string" where
  "nat_str n = (if n < 10 then [digit_char n] else nat_str (n div 10) @ [digit_char n])"

declare nat_str.simps [simp del]

definition int_str :: "int \<Rightarrow> string" where
  "int_str i = (if i < 0 then CHR ''-'' # nat_str (nat (- i)) else nat_str (nat i))"

lemma nat_str_nonempty [simp]: "nat_str n \<noteq> []"
  by (subst nat_str.simps) simp

section \<open>White space\<close>

text \<open>
  The byte sequences of the code points \<^verbatim>\<open>unicode.IsSpace\<close> accepts: six ASCII characters,
  U+0085, U+00A0, U+1680, U+2000--U+200A, U+2028, U+2029, U+202F, U+205F and U+3000.
\<close>

definition bytes :: "nat list \<Rightarrow> string" where
  "bytes ns = map char_of ns"

definition space_encodings :: "string list" where
  "space_encodings =
     map bytes ([[0x20], [0x09], [0x0A], [0x0B], [0x0C], [0x0D], [0xC2, 0x85], [0xC2, 0xA0],
       [0xE1, 0x9A, 0x80]] @ map (\<lambda>b. [0xE2, 0x80, b]) [0x80..<0x8B] @
       [[0xE2, 0x80, 0xA8], [0xE2, 0x80, 0xA9], [0xE2, 0x80, 0xAF], [0xE2, 0x81, 0x9F],
        [0xE3, 0x80, 0x80]])"

lemma space_encodings_bytes:
  "space_encodings =
     map bytes ([[0x20], [0x09], [0x0A], [0x0B], [0x0C], [0x0D], [0xC2, 0x85], [0xC2, 0xA0],
       [0xE1, 0x9A, 0x80], [0xE2, 0x80, 0x80], [0xE2, 0x80, 0x81], [0xE2, 0x80, 0x82],
       [0xE2, 0x80, 0x83], [0xE2, 0x80, 0x84], [0xE2, 0x80, 0x85], [0xE2, 0x80, 0x86],
       [0xE2, 0x80, 0x87], [0xE2, 0x80, 0x88], [0xE2, 0x80, 0x89], [0xE2, 0x80, 0x8A],
       [0xE2, 0x80, 0xA8], [0xE2, 0x80, 0xA9], [0xE2, 0x80, 0xAF], [0xE2, 0x81, 0x9F],
       [0xE3, 0x80, 0x80]])"
  by (simp add: space_encodings_def upt_conv_Cons)

text \<open>The same as characters, for evaluation.\<close>

lemma space_encodings_code [code]:
  "space_encodings =
     [[CHR 0x20], [CHR 0x09], [CHR 0x0A], [CHR 0x0B], [CHR 0x0C], [CHR 0x0D], [CHR 0xC2, CHR 0x85],
      [CHR 0xC2, CHR 0xA0], [CHR 0xE1, CHR 0x9A, CHR 0x80], [CHR 0xE2, CHR 0x80, CHR 0x80],
      [CHR 0xE2, CHR 0x80, CHR 0x81], [CHR 0xE2, CHR 0x80, CHR 0x82], [CHR 0xE2, CHR 0x80, CHR 0x83],
      [CHR 0xE2, CHR 0x80, CHR 0x84], [CHR 0xE2, CHR 0x80, CHR 0x85], [CHR 0xE2, CHR 0x80, CHR 0x86],
      [CHR 0xE2, CHR 0x80, CHR 0x87], [CHR 0xE2, CHR 0x80, CHR 0x88], [CHR 0xE2, CHR 0x80, CHR 0x89],
      [CHR 0xE2, CHR 0x80, CHR 0x8A], [CHR 0xE2, CHR 0x80, CHR 0xA8], [CHR 0xE2, CHR 0x80, CHR 0xA9],
      [CHR 0xE2, CHR 0x80, CHR 0xAF], [CHR 0xE2, CHR 0x81, CHR 0x9F], [CHR 0xE3, CHR 0x80, CHR 0x80]]"
  unfolding space_encodings_bytes bytes_def by (simp add: char_of_def bit_0)

lemma space_encodings_nonempty: "w \<in> set space_encodings \<Longrightarrow> w \<noteq> []"
  by (auto simp: space_encodings_def bytes_def)

fun leading_space :: "string \<Rightarrow> nat" where
  "leading_space s = (case List.find (\<lambda>w. has_prefix s w) space_encodings of
     None \<Rightarrow> 0 | Some w \<Rightarrow> length w)"

fun trailing_space :: "string \<Rightarrow> nat" where
  "trailing_space s = (case List.find (\<lambda>w. has_suffix s w) space_encodings of
     None \<Rightarrow> 0 | Some w \<Rightarrow> length w)"

declare leading_space.simps [simp del] trailing_space.simps [simp del]

function trim_left :: "string \<Rightarrow> string" where
  "trim_left s = (let n = leading_space s in if n = 0 \<or> s = [] then s else trim_left (drop n s))"
  by pat_completeness auto
termination
  by (relation "measure length") auto

function trim_right :: "string \<Rightarrow> string" where
  "trim_right s = (let n = trailing_space s in
     if n = 0 \<or> s = [] then s else trim_right (take (length s - n) s))"
  by pat_completeness auto
termination
  by (relation "measure length") (auto simp: Let_def)

declare trim_left.simps [simp del] trim_right.simps [simp del]

text \<open>\<^verbatim>\<open>strings.TrimSpace\<close>\<close>

definition trim_space :: "string \<Rightarrow> string" where
  "trim_space s = trim_right (trim_left s)"

lemma length_trim_left: "length (trim_left s) \<le> length s"
proof (induction s rule: trim_left.induct)
  case (1 s)
  show ?case
  proof (cases "leading_space s = 0 \<or> s = []")
    case False
    with 1 [OF refl] have "length (trim_left (drop (leading_space s) s)) \<le> length s" by simp
    with False show ?thesis by (simp add: trim_left.simps [of s] Let_def)
  qed (auto simp: trim_left.simps [of s] Let_def)
qed

lemma trim_right_prefix: "prefix (trim_right s) s"
proof (induction s rule: trim_right.induct)
  case (1 s)
  show ?case
  proof (cases "trailing_space s = 0 \<or> s = []")
    case False
    with 1 [OF refl] have "prefix (trim_right (take (length s - trailing_space s) s)) s"
      by (meson prefix_order.trans take_is_prefix)
    with False show ?thesis by (simp add: trim_right.simps [of s] Let_def)
  qed (auto simp: trim_right.simps [of s] Let_def)
qed

lemma length_trim_space [go_string]: "length (trim_space s) \<le> length s"
  unfolding trim_space_def
  by (meson length_trim_left order_trans prefix_length_le trim_right_prefix)

lemma trim_space_Nil [simp]: "trim_space [] = []"
  using length_trim_space [of "[]"] by simp

section \<open>First occurrences\<close>

text \<open>
  The program's \<^verbatim>\<open>seen\<close>-map loops keep the first occurrence of each key and drop later
  ones, in order.
\<close>

fun keep_first :: "('a \<Rightarrow> 'k) \<Rightarrow> 'k set \<Rightarrow> 'a list \<Rightarrow> 'a list" where
  "keep_first key seen [] = []"
| "keep_first key seen (x # xs) =
     (if key x \<in> seen then keep_first key seen xs
      else x # keep_first key (insert (key x) seen) xs)"

lemma keep_first_keys:
  "key ` set (keep_first key seen xs) = key ` set xs - seen"
  by (induction xs arbitrary: seen) auto

lemma keep_first_subset: "set (keep_first key seen xs) \<subseteq> set xs"
  by (induction xs arbitrary: seen) (auto split: if_splits)

lemma keep_first_distinct: "distinct (map key (keep_first key seen xs))"
proof (induction xs arbitrary: seen)
  case (Cons x xs)
  have "key x \<notin> key ` set (keep_first key (insert (key x) seen) xs)"
    by (simp add: keep_first_keys)
  with Cons show ?case by (simp add: image_iff)
qed simp

lemma keep_first_id:
  "distinct (map key xs) \<Longrightarrow> key ` set xs \<inter> seen = {} \<Longrightarrow> keep_first key seen xs = xs"
proof (induction xs arbitrary: seen)
  case (Cons x xs)
  then have "key ` set xs \<inter> insert (key x) seen = {}" by auto
  with Cons show ?case by auto
qed simp

lemma keep_first_find:
  "k \<notin> seen \<Longrightarrow> List.find (\<lambda>y. key y = k) (keep_first key seen xs) = List.find (\<lambda>y. key y = k) xs"
  by (induction xs arbitrary: seen) auto

lemma length_keep_first: "length (keep_first key seen xs) \<le> length xs"
  by (induction xs arbitrary: seen) (auto intro: le_SucI)

section \<open>Sorting with a comparison function\<close>

text \<open>
  \<^verbatim>\<open>sort.Slice\<close> takes a comparison function and leaves the order of ties unspecified.
  \<open>sort_slice\<close> is insertion by that comparison; the interface \<open>keyed_less\<close> states what makes
  the choice of algorithm immaterial: the comparison is the strict order of a key, and on
  lists with pairwise different keys there is only one sorted arrangement.
\<close>

fun insert_by :: "('a \<Rightarrow> 'a \<Rightarrow> bool) \<Rightarrow> 'a \<Rightarrow> 'a list \<Rightarrow> 'a list" where
  "insert_by lt x [] = [x]"
| "insert_by lt x (y # ys) = (if lt y x then y # insert_by lt x ys else x # y # ys)"

fun sort_slice :: "('a \<Rightarrow> 'a \<Rightarrow> bool) \<Rightarrow> 'a list \<Rightarrow> 'a list" where
  "sort_slice lt [] = []"
| "sort_slice lt (x # xs) = insert_by lt x (sort_slice lt xs)"

lemma mset_insert_by [simp]: "mset (insert_by lt x xs) = add_mset x (mset xs)"
  by (induction xs) auto

lemma mset_sort_slice [simp]: "mset (sort_slice lt xs) = mset xs"
  by (induction xs) auto

lemma set_sort_slice [simp]: "set (sort_slice lt xs) = set xs"
  by (metis mset_sort_slice set_mset_mset)

lemma length_sort_slice [simp]: "length (sort_slice lt xs) = length xs"
  by (metis mset_sort_slice size_mset)

locale keyed_less =
  fixes lt :: "'a \<Rightarrow> 'a \<Rightarrow> bool"
    and key :: "'a \<Rightarrow> 'k :: linorder"
  assumes lt_key: "lt x y \<longleftrightarrow> key x < key y"
begin

lemma insert_by_insort: "insert_by lt x xs = insort_key key x xs"
  by (induction xs) (auto simp: lt_key)

lemma sort_slice_sort_key: "sort_slice lt xs = sort_key key xs"
  by (induction xs) (auto simp: insert_by_insort)

lemma sorted_sort_slice: "sorted (map key (sort_slice lt xs))"
  by (simp add: sort_slice_sort_key)

lemma sort_slice_id: "sorted (map key xs) \<Longrightarrow> sort_slice lt xs = xs"
  by (simp add: sort_slice_sort_key sort_key_id_if_sorted)

lemma sort_slice_unique:
  assumes "mset ys = mset xs" and "sorted (map key ys)" and "distinct (map key xs)"
  shows "ys = sort_slice lt xs"
proof -
  from assms(1) have set: "set ys = set xs" by (metis set_mset_mset)
  from assms(1) have "mset (map key ys) = mset (map key xs)" by simp
  then have d: "distinct (map key ys)" using assms(3) by (metis mset_eq_imp_distinct_iff)
  have inj: "inj_on key (set xs)" using assms(3) by (simp add: distinct_map)
  have "map key ys = map key (sort_slice lt xs)"
  proof (rule sorted_distinct_set_unique)
    show "distinct (map key (sort_slice lt xs))"
      using assms(3) by (metis mset_eq_imp_distinct_iff mset_map mset_sort_slice)
  qed (use assms(2) d sorted_sort_slice set in auto)
  with inj set show ?thesis by (metis inj_on_map_eq_map set_sort_slice Un_absorb)
qed

lemma sort_slice_perm:
  assumes "mset ys = mset xs" and "distinct (map key xs)"
  shows "sort_slice lt ys = sort_slice lt xs"
  by (rule sort_slice_unique) (use assms sorted_sort_slice in auto)

end

text \<open>\<^verbatim>\<open>sort.Strings\<close>: bytewise order, equal strings are indistinguishable.\<close>

definition string_less :: "string \<Rightarrow> string \<Rightarrow> bool" where
  "string_less s t \<longleftrightarrow> s < t"

interpretation string_sort: keyed_less string_less "\<lambda>s. s"
  by unfold_locales (simp add: string_less_def)

definition sort_strings :: "string list \<Rightarrow> string list" where
  "sort_strings xs = sort_slice string_less xs"

lemma sort_strings_sort: "sort_strings xs = sort xs"
  using string_sort.sort_slice_sort_key [of xs] by (simp add: sort_strings_def)

section \<open>Association lists as Go maps\<close>

text \<open>
  A Go map the code iterates over is an association list with distinct keys; the list order is
  the (unspecified) iteration order.  Deleting the entries that satisfy a predicate is the one
  loop shape the program uses on them.
\<close>

definition delete_where :: "('k \<Rightarrow> 'v \<Rightarrow> bool) \<Rightarrow> ('k \<times> 'v) list \<Rightarrow> ('k \<times> 'v) list" where
  "delete_where P m = filter (\<lambda>(k, v). \<not> P k v) m"

lemma map_of_delete_where:
  "distinct (map fst m) \<Longrightarrow>
   map_of (delete_where P m) k = (case map_of m k of None \<Rightarrow> None | Some v \<Rightarrow> if P k v then None else Some v)"
proof (induction m)
  case (Cons a m)
  obtain j w where a: "a = (j, w)" by (cases a)
  have "j \<notin> fst ` set m" using Cons.prems a by simp
  then have "map_of m j = None" by (simp add: map_of_eq_None_iff)
  with Cons a show ?case by (auto simp: delete_where_def split: option.splits)
qed (simp add: delete_where_def)

lemma distinct_delete_where: "distinct (map fst m) \<Longrightarrow> distinct (map fst (delete_where P m))"
  unfolding delete_where_def by (induction m) (auto simp: image_iff)

lemma set_delete_where [simp]: "set (delete_where P m) = {(k, v) \<in> set m. \<not> P k v}"
  by (auto simp: delete_where_def)

end
