(* ===== verification/Utf8.thy ===== *)
theory Utf8
  imports Prelude
begin

text \<open>
  UTF-8 as Go's \<^verbatim>\<open>unicode/utf8\<close> and \<^verbatim>\<open>strings.ToValidUTF8\<close> see it, and the two truncation
  helpers of the program: \<^verbatim>\<open>limitText\<close> of \<^verbatim>\<open>internal/adapters/codex/translate.go\<close> and
  \<^verbatim>\<open>truncateUTF8\<close> of \<^verbatim>\<open>internal/security/event.go\<close>, which cut a byte string to a limit
  without splitting a character.
\<close>

section \<open>Decoding one character\<close>

definition cont :: "char \<Rightarrow> bool" where
  "cont c \<longleftrightarrow> 0x80 \<le> byte c \<and> byte c \<le> 0xBF"

text \<open>The size of the character a string starts with; 0 when the first byte starts none.\<close>

definition rune_size :: "nat \<Rightarrow> nat" where
  "rune_size x =
     (if x < 0x80 then 1
      else if 0xC2 \<le> x \<and> x \<le> 0xDF then 2
      else if 0xE0 \<le> x \<and> x \<le> 0xEF then 3
      else if 0xF0 \<le> x \<and> x \<le> 0xF4 then 4
      else 0)"

text \<open>The range of the second byte, narrower after E0, ED, F0 and F4.\<close>

definition second_ok :: "nat \<Rightarrow> nat \<Rightarrow> bool" where
  "second_ok x y \<longleftrightarrow>
     (if x = 0xE0 then 0xA0 else if x = 0xF0 then 0x90 else 0x80) \<le> y \<and>
     y \<le> (if x = 0xED then 0x9F else if x = 0xF4 then 0x8F else 0xBF)"

fun rune_len :: "string \<Rightarrow> nat" where
  "rune_len [] = 0"
| "rune_len (a # s) =
     (let n = rune_size (byte a) in
      if n \<le> 1 then n
      else if length s < n - 1 then 0
      else if second_ok (byte a) (byte (hd s)) \<and> list_all cont (take (n - 2) (tl s)) then n
      else 0)"

declare rune_len.simps(2) [simp del]

lemma rune_size_le4: "rune_size x \<le> 4"
  by (simp add: rune_size_def)

lemma rune_len_le4: "rune_len s \<le> 4"
  by (cases s) (use rune_size_le4 in \<open>auto simp: rune_len.simps(2) Let_def\<close>)

lemma rune_len_le_length: "rune_len s \<le> length s"
  by (cases s) (auto simp: rune_len.simps(2) Let_def)

text \<open>A character is read from its own bytes only.\<close>

lemma rune_len_append:
  assumes "0 < rune_len s"
  shows "rune_len (s @ t) = rune_len s"
proof (cases s)
  case (Cons a u)
  let ?n = "rune_size (byte a)"
  show ?thesis
  proof (cases "?n \<le> 1")
    case False
    with assms Cons have "?n - 1 \<le> length u" by (auto simp: rune_len.simps(2) Let_def split: if_splits)
    moreover with False have "hd (u @ t) = hd u" and "u \<noteq> []" by (cases u; auto)+
    ultimately show ?thesis using Cons by (auto simp: rune_len.simps(2) Let_def)
  qed (use Cons in \<open>simp add: rune_len.simps(2) Let_def\<close>)
qed (use assms in simp)

lemma rune_len_take:
  assumes "0 < rune_len s" and "rune_len s \<le> n"
  shows "rune_len (take n s) = rune_len s"
proof (cases s)
  case (Cons a u)
  let ?n = "rune_size (byte a)"
  obtain m where m: "n = Suc m" using assms by (cases n) auto
  show ?thesis
  proof (cases "?n \<le> 1")
    case False
    with assms Cons have l: "?n - 1 \<le> length u" "?n - 1 \<le> m"
      using m by (auto simp: rune_len.simps(2) Let_def split: if_splits)
    with False have "hd (take m u) = hd u" by (cases u; cases m; auto)
    moreover from l False have "take (?n - 2) (tl (take m u)) = take (?n - 2) (tl u)"
      by (cases u; cases m) (auto simp: min_def)
    ultimately show ?thesis using Cons l m by (auto simp: rune_len.simps(2) Let_def min_def)
  qed (use Cons m in \<open>simp add: rune_len.simps(2) Let_def\<close>)
qed (use assms in simp)

section \<open>Valid strings\<close>

function utf8_valid :: "string \<Rightarrow> bool" where
  "utf8_valid s =
     (if s = [] then True
      else if rune_len s = 0 then False
      else utf8_valid (drop (rune_len s) s))"
  by pat_completeness auto
termination
  by (relation "measure length") auto

text \<open>\<^verbatim>\<open>strings.ToValidUTF8(s, "")\<close>: bytes that start no character are dropped.\<close>

function to_valid :: "string \<Rightarrow> string" where
  "to_valid s =
     (if s = [] then []
      else if rune_len s = 0 then to_valid (tl s)
      else take (rune_len s) s @ to_valid (drop (rune_len s) s))"
  by pat_completeness auto
termination
  by (relation "measure length") auto

declare utf8_valid.simps [simp del] to_valid.simps [simp del]

lemma utf8_valid_Nil [simp]: "utf8_valid []"
  by (simp add: utf8_valid.simps)

lemma to_valid_Nil [simp]: "to_valid [] = []"
  by (simp add: to_valid.simps)

lemma utf8_valid_ascii [simp]: "byte c < 128 \<Longrightarrow> utf8_valid (c # s) = utf8_valid s"
  by (subst utf8_valid.simps) (simp add: rune_len.simps(2) rune_size_def)

lemma utf8_valid_step:
  "0 < rune_len s \<Longrightarrow> utf8_valid s \<longleftrightarrow> utf8_valid (drop (rune_len s) s)"
  by (subst utf8_valid.simps) auto

lemma utf8_valid_rune_append:
  assumes "0 < rune_len w" and "rune_len w = length w"
  shows "utf8_valid (w @ s) \<longleftrightarrow> utf8_valid s"
proof -
  have "rune_len (w @ s) = length w" using assms rune_len_append by simp
  with assms show ?thesis by (subst utf8_valid_step) auto
qed

lemma rune_len_take_self: "0 < rune_len s \<Longrightarrow> rune_len (take (rune_len s) s) = rune_len s"
  by (simp add: rune_len_take)

lemma utf8_valid_to_valid [simp]: "utf8_valid (to_valid s)"
proof (induction s rule: to_valid.induct)
  case (1 s)
  consider "s = []" | "s \<noteq> []" "rune_len s = 0" | "s \<noteq> []" "0 < rune_len s" by blast
  then show ?case
  proof cases
    case 3
    let ?w = "take (rune_len s) s"
    have "rune_len ?w = length ?w" "0 < rune_len ?w"
      using 3 rune_len_le_length [of s] by (simp_all add: rune_len_take_self)
    with 1(2) 3 show ?thesis
      by (simp add: to_valid.simps [of s] utf8_valid_rune_append)
  qed (use 1 in \<open>simp_all add: to_valid.simps [of s]\<close>)
qed

lemma to_valid_id: "utf8_valid s \<Longrightarrow> to_valid s = s"
proof (induction s rule: to_valid.induct)
  case (1 s)
  show ?case
  proof (cases "s = []")
    case False
    with 1(3) have r: "rune_len s \<noteq> 0" "utf8_valid (drop (rune_len s) s)"
      using utf8_valid.simps [of s] by (auto split: if_splits)
    with 1(2) False have "to_valid (drop (rune_len s) s) = drop (rune_len s) s" by simp
    with r False show ?thesis by (subst to_valid.simps) simp
  qed simp
qed

lemma length_to_valid: "length (to_valid s) \<le> length s"
proof (induction s rule: to_valid.induct)
  case (1 s)
  show ?case
  proof (cases "s = [] \<or> rune_len s = 0")
    case True
    with 1(1) show ?thesis
      by (cases "s = []") (auto simp: to_valid.simps [of s] intro: order_trans)
  next
    case False
    with 1(2) rune_len_le_length [of s] show ?thesis by (simp add: to_valid.simps [of s])
  qed
qed

section \<open>Cutting without splitting a character\<close>

text \<open>
  \<^verbatim>\<open>for !utf8.ValidString(value) { value = value[:len(value)-1] }\<close>: the loop stops at the
  empty string at the latest.
\<close>

function drop_invalid_tail :: "string \<Rightarrow> string" where
  "drop_invalid_tail s = (if utf8_valid s then s else drop_invalid_tail (butlast s))"
  by pat_completeness auto
termination
proof (relation "measure length")
  fix s :: string
  assume "\<not> utf8_valid s"
  then have "s \<noteq> []" by auto
  then show "(butlast s, s) \<in> measure length" by (cases s) auto
qed simp

declare drop_invalid_tail.simps [simp del]

definition limit_text :: "string \<Rightarrow> nat \<Rightarrow> string" where
  "limit_text value0 size0 =
     (let value = to_valid value0
      in if length value \<le> size0 then value else drop_invalid_tail (take size0 value))"

text \<open>The limit is a Go int: a limit of zero or less means \<^emph>\<open>no\<close> limit here.\<close>

definition truncate_utf8 :: "string \<Rightarrow> int \<Rightarrow> string" where
  "truncate_utf8 value limit =
     (if limit \<le> 0 \<or> int (length value) \<le> limit then value
      else trim_space (drop_invalid_tail (take (nat limit) value)))"

lemma drop_invalid_tail_valid [simp]: "utf8_valid (drop_invalid_tail s)"
proof (induction s rule: drop_invalid_tail.induct)
  case (1 s)
  then show ?case by (subst drop_invalid_tail.simps) simp
qed

lemma drop_invalid_tail_prefix: "prefix (drop_invalid_tail s) s"
proof (induction s rule: drop_invalid_tail.induct)
  case (1 s)
  show ?case
  proof (cases "utf8_valid s")
    case False
    with 1 have "prefix (drop_invalid_tail (butlast s)) s"
      by (meson prefix_order.trans prefixeq_butlast)
    with False show ?thesis by (subst drop_invalid_tail.simps) simp
  qed (subst drop_invalid_tail.simps, simp)
qed

text \<open>Nothing longer than the result would do: the result is the longest valid prefix.\<close>

lemma drop_invalid_tail_longest:
  "prefix p s \<Longrightarrow> utf8_valid p \<Longrightarrow> length p \<le> length (drop_invalid_tail s)"
proof (induction s rule: drop_invalid_tail.induct)
  case (1 s)
  show ?case
  proof (cases "utf8_valid s")
    case True
    with 1(2) show ?thesis by (subst drop_invalid_tail.simps) (simp add: prefix_length_le)
  next
    case False
    with 1(2,3) have "p \<noteq> s" by auto
    with 1(2) have "prefix p (butlast s)"
      by (metis prefix_order.le_neq_trans prefix_snoc snoc_eq_iff_butlast strict_prefix_simps(1)
          append_butlast_last_id)
    with 1 False have "length p \<le> length (drop_invalid_tail (butlast s))" by simp
    with False show ?thesis by (subst drop_invalid_tail.simps) simp
  qed
qed

lemma limit_text_prefix: "prefix (limit_text v n) (to_valid v)"
  unfolding limit_text_def Let_def
  by (auto intro: prefix_order.trans [OF drop_invalid_tail_prefix] take_is_prefix)

lemma limit_text_valid [simp]: "utf8_valid (limit_text v n)"
  by (simp add: limit_text_def Let_def)

lemma limit_text_length: "length (limit_text v n) \<le> n"
  unfolding limit_text_def Let_def
  using prefix_length_le [OF drop_invalid_tail_prefix [of "take n (to_valid v)"]] by auto

text \<open>
  In a valid string some character boundary lies within three bytes below any cut point, so
  truncation never loses more than three bytes of the limit.
\<close>

lemma boundary_near:
  "utf8_valid s \<Longrightarrow> n \<le> length s \<Longrightarrow>
   \<exists>m. m \<le> n \<and> n < m + 4 \<and> utf8_valid (take m s)"
proof (induction s arbitrary: n rule: utf8_valid.induct)
  case (1 s)
  show ?case
  proof (cases "s = [] \<or> n < rune_len s")
    case True
    then show ?thesis
      using "1.prems" rune_len_le4 [of s] by (intro exI [of _ 0]) auto
  next
    case False
    let ?k = "rune_len s"
    from "1.prems"(1) False have k: "0 < ?k" and v: "utf8_valid (drop ?k s)"
      using utf8_valid.simps [of s] by (auto split: if_splits)
    obtain m where m: "m \<le> n - ?k" "n - ?k < m + 4" "utf8_valid (take m (drop ?k s))"
      using "1.IH" [of "n - ?k"] False k v "1.prems"(2) by (auto simp: diff_le_mono)
    have "take (?k + m) s = take ?k s @ take m (drop ?k s)" by (rule take_add)
    moreover have "utf8_valid (take ?k s @ take m (drop ?k s))"
      using k m(3) rune_len_le_length [of s]
      by (subst utf8_valid_rune_append) (simp_all add: rune_len_take_self)
    ultimately show ?thesis
      using m False by (intro exI [of _ "?k + m"]) auto
  qed
qed

section \<open>Cutting a valid string\<close>

lemma cont_iff: "cont c \<longleftrightarrow> 128 \<le> byte c \<and> byte c \<le> 191"
  by (simp add: cont_def)

lemma rune_len_cont: "0 < i \<Longrightarrow> i < rune_len s \<Longrightarrow> cont (s ! i)"
proof (cases s)
  case (Cons a t)
  assume i: "0 < i" "i < rune_len s"
  let ?n = "rune_size (byte a)"
  from i Cons have n: "rune_len s = ?n" "1 < ?n" "second_ok (byte a) (byte (hd t))"
    "list_all cont (take (?n - 2) (tl t))" "?n - 1 \<le> length t"
    by (auto simp: rune_len.simps(2) Let_def split: if_splits)
  obtain b u where t: "t = b # u" using n(2,5) by (cases t) auto
  show ?thesis
  proof (cases "i = 1")
    case True
    with n(3) t Cons show ?thesis by (auto simp: second_ok_def cont_iff split: if_splits)
  next
    case False
    with i obtain j where j: "i = Suc (Suc j)" by (cases i; cases "i - 1") auto
    then have "j < length (take (?n - 2) u)" using i n(1,5) t by auto
    then have "cont (u ! j)" using n(4) t by (auto simp: list_all_length)
    with j t Cons show ?thesis by simp
  qed
qed simp

text \<open>A byte that continues no character starts one, so a valid string can be cut before it.\<close>

lemma utf8_valid_cut:
  "utf8_valid (a @ c # b) \<Longrightarrow> \<not> cont c \<Longrightarrow> utf8_valid a \<and> utf8_valid (c # b)"
proof (induction a rule: length_induct)
  case (1 a)
  let ?s = "a @ c # b" and ?n = "rune_len (a @ c # b)"
  show ?case
  proof (cases "a = []")
    case False
    have v: "0 < ?n" "utf8_valid (drop ?n ?s)"
      using 1(2) utf8_valid.simps [of ?s] by (auto split: if_splits)
    have "?n \<le> length a"
    proof (rule ccontr)
      assume "\<not> ?n \<le> length a"
      with False have "cont (?s ! length a)" by (intro rune_len_cont) auto
      with 1(3) show False by simp
    qed
    then have d: "drop ?n ?s = drop ?n a @ c # b" by simp
    have "utf8_valid (drop ?n a @ c # b)" using v(2) by (simp only: d)
    then have IH: "utf8_valid (drop ?n a)" "utf8_valid (c # b)"
      using 1(1) [rule_format, of "drop ?n a"] v(1) False 1(3) by simp_all
    have "rune_len (take (length a) ?s) = ?n" using v(1) \<open>?n \<le> length a\<close> by (rule rune_len_take)
    then have "rune_len a = ?n" by simp
    with IH(1) v(1) False have "utf8_valid a" by (subst utf8_valid.simps) simp
    with IH(2) show ?thesis by simp
  qed (use 1 in simp)
qed

lemma utf8_valid_head: "utf8_valid (c # s) \<Longrightarrow> \<not> cont c"
proof -
  assume "utf8_valid (c # s)"
  then have "rune_size (byte c) \<noteq> 0"
    by (subst (asm) utf8_valid.simps) (simp add: rune_len.simps(2) Let_def split: if_splits)
  then show ?thesis by (auto simp: cont_iff rune_size_def)
qed

lemma utf8_valid_prefix: "utf8_valid (a @ b) \<Longrightarrow> utf8_valid b \<Longrightarrow> utf8_valid a"
proof (cases b)
  case (Cons c t)
  assume "utf8_valid (a @ b)" "utf8_valid b"
  with Cons utf8_valid_cut [of a c t] utf8_valid_head [of c t] show ?thesis by blast
qed simp

lemma utf8_valid_append: "utf8_valid s \<Longrightarrow> utf8_valid t \<Longrightarrow> utf8_valid (s @ t)"
proof (induction s rule: utf8_valid.induct)
  case (1 s)
  show ?case
  proof (cases "s = []")
    case False
    then have v: "utf8_valid (drop (rune_len s) s)" "0 < rune_len s"
      using 1(2) utf8_valid.simps [of s] by (auto split: if_splits)
    with 1 False have "utf8_valid (drop (rune_len s) s @ t)" by simp
    moreover have "drop (rune_len s) (s @ t) = drop (rune_len s) s @ t"
      using rune_len_le_length [of s] by simp
    ultimately show ?thesis
      using v(2) rune_len_append [of s t] False by (subst utf8_valid.simps) simp
  qed (use 1 in simp)
qed

section \<open>White space and validity\<close>

lemma space_rune:
  "w \<in> set space_encodings \<Longrightarrow> rune_len w = length w \<and> \<not> cont (hd w) \<and> utf8_valid w"
proof -
  have "list_all (\<lambda>w. rune_len w = length w \<and> \<not> cont (hd w)) space_encodings"
    unfolding space_encodings_code
    by (simp add: bytes_def rune_len.simps(2) rune_size_def second_ok_def cont_iff byte_def)
  moreover assume "w \<in> set space_encodings"
  ultimately have "rune_len w = length w" "\<not> cont (hd w)" "w \<noteq> []"
    using space_encodings_nonempty by (auto simp: list_all_iff)
  then show ?thesis by (subst utf8_valid.simps) simp
qed

lemma find_SomeD: "List.find P xs = Some x \<Longrightarrow> x \<in> set xs \<and> P x"
  by (induction xs) (auto split: if_splits)

lemma trim_left_valid [simp]: "utf8_valid s \<Longrightarrow> utf8_valid (trim_left s)"
proof (induction s rule: trim_left.induct)
  case (1 s)
  show ?case
  proof (cases "leading_space s = 0 \<or> s = []")
    case False
    then obtain w where w: "w \<in> set space_encodings" "has_prefix s w" "leading_space s = length w"
      by (auto simp: leading_space.simps dest: find_SomeD split: option.splits)
    then obtain t where t: "s = w @ t" by (auto simp: has_prefix_def prefix_def)
    have "rune_len s = length w" using space_rune [OF w(1)] rune_len_append [of w t] t
        space_encodings_nonempty [OF w(1)] by simp
    then have "utf8_valid t" using 1(2) t False utf8_valid.simps [of s] by (auto split: if_splits)
    moreover have "trim_left s = trim_left t" using w(3) t False
      by (subst trim_left.simps) (simp add: Let_def)
    ultimately show ?thesis using 1(1) [OF refl False] w(3) t by simp
  qed (use 1 in \<open>auto simp: trim_left.simps [of s] Let_def\<close>)
qed

lemma trim_right_valid [simp]: "utf8_valid s \<Longrightarrow> utf8_valid (trim_right s)"
proof (induction s rule: trim_right.induct)
  case (1 s)
  show ?case
  proof (cases "trailing_space s = 0 \<or> s = []")
    case False
    then obtain w where w: "w \<in> set space_encodings" "has_suffix s w" "trailing_space s = length w"
      by (auto simp: trailing_space.simps dest: find_SomeD split: option.splits)
    then obtain t where t: "s = t @ w" by (auto simp: has_suffix_def suffix_def)
    have "utf8_valid t" using 1(2) t space_rune [OF w(1)] utf8_valid_prefix by blast
    moreover have "trim_right s = trim_right t" using w(3) t False
      by (subst trim_right.simps) (simp add: Let_def)
    ultimately show ?thesis using 1(1) [OF refl False] w(3) t by simp
  qed (use 1 in \<open>auto simp: trim_right.simps [of s] Let_def\<close>)
qed

lemma trim_space_valid [simp]: "utf8_valid s \<Longrightarrow> utf8_valid (trim_space s)"
  by (simp add: trim_space_def)

lemma truncate_utf8_valid: "utf8_valid s \<Longrightarrow> utf8_valid (truncate_utf8 s n)"
  by (simp add: truncate_utf8_def)

lemma truncate_utf8_length: "0 < n \<Longrightarrow> int (length (truncate_utf8 s n)) \<le> n"
  using prefix_length_le [OF drop_invalid_tail_prefix [of "take (nat n) s"]]
    length_trim_space [of "drop_invalid_tail (take (nat n) s)"]
  by (auto simp: truncate_utf8_def)

end
