(* ===== verification/Metadata.thy ===== *)
theory Metadata
  imports Utf8
begin

text \<open>
  The free-form \<^verbatim>\<open>metadata\<close> of an event (\<^verbatim>\<open>map[string]interface{}\<close> in
  \<^verbatim>\<open>protocol/go/event.go\<close>): the values an \<^verbatim>\<open>interface{}\<close> can hold, their JSON text as
  \<^verbatim>\<open>encoding/json\<close> writes it, and the bounds \<^verbatim>\<open>validateMetadata\<close> checks on the value read
  back from that text.
\<close>

section \<open>Values\<close>

text \<open>
  A finite float is given by its sign and the shortest decimal \<open>digits * 10 ^ exponent\<close> that
  reads back to it (digits without trailing zeros), which is also what JSON shows of it.
  \<open>MInt\<close> is Go's \<^verbatim>\<open>int\<close>, \<open>MSized\<close> any of its other integer types, \<open>MStrings\<close> a
  \<^verbatim>\<open>[]string\<close> and \<open>MList\<close> a \<^verbatim>\<open>[]interface{}\<close>; nil and empty slices are identified.
  \<open>MOpaque\<close> is a value JSON cannot express (a function, a channel).
\<close>

datatype gofloat = FNaN | FInf bool | FNum bool nat int

datatype mvalue =
    MNull
  | MBool bool
  | MInt int
  | MSized int
  | MFloat32 gofloat
  | MFloat64 gofloat
  | MString string
  | MStrings "string list"
  | MList "mvalue list"
  | MMap "(string \<times> mvalue) list"
  | MOpaque

type_synonym metadata = "(string \<times> mvalue) list"

text \<open>\<^verbatim>\<open>typed == math.Trunc(typed)\<close>: no fractional part.\<close>

definition float_integral :: "gofloat \<Rightarrow> bool" where
  "float_integral f = (case f of
     FNaN \<Rightarrow> False
   | FInf _ \<Rightarrow> False
   | FNum _ d x \<Rightarrow> 0 \<le> x \<or> 10 ^ nat (- x) dvd d)"

section \<open>JSON text\<close>

text \<open>One byte, or one character, of a JSON string with HTML escaping on.\<close>

definition json_byte :: "char \<Rightarrow> string" where
  "json_byte c =
     (if c = CHR 0x22 \<or> c = CHR 0x5C then [CHR 0x5C, c]
      else if c = CHR 0x08 then [CHR 0x5C, CHR ''b'']
      else if c = CHR 0x0C then [CHR 0x5C, CHR ''f'']
      else if c = CHR 0x0A then [CHR 0x5C, CHR ''n'']
      else if c = CHR 0x0D then [CHR 0x5C, CHR ''r'']
      else if c = CHR 0x09 then [CHR 0x5C, CHR ''t'']
      else if byte c < 0x20 \<or> c = CHR ''<'' \<or> c = CHR ''>'' \<or> c = CHR ''&''
      then [CHR 0x5C] @ ''u00'' @
        [''0123456789abcdef'' ! (byte c div 16), ''0123456789abcdef'' ! (byte c mod 16)]
      else [c])"

definition json_rune :: "string \<Rightarrow> string" where
  "json_rune w =
     (if w = bytes [0xE2, 0x80, 0xA8] then [CHR 0x5C] @ ''u2028''
      else if w = bytes [0xE2, 0x80, 0xA9] then [CHR 0x5C] @ ''u2029''
      else if length w = 1 then json_byte (hd w)
      else w)"

function json_chars :: "string \<Rightarrow> string" where
  "json_chars s =
     (if s = [] then []
      else if rune_len s = 0 then [CHR 0x5C] @ ''ufffd'' @ json_chars (tl s)
      else json_rune (take (rune_len s) s) @ json_chars (drop (rune_len s) s))"
  by pat_completeness auto
termination
  by (relation "measure length") auto

declare json_chars.simps [simp del]

definition json_string :: "string \<Rightarrow> string" where
  "json_string s = [CHR 0x22] @ json_chars s @ [CHR 0x22]"

text \<open>
  Floats: positional notation for magnitudes from 1e-6 up to 1e21, exponent notation outside
  that range.
\<close>

definition json_float :: "bool \<Rightarrow> nat \<Rightarrow> int \<Rightarrow> string" where
  "json_float neg d x =
     (let ds = nat_str d; n = int (length ds); e = n + x - 1;
          body =
            (if d \<noteq> 0 \<and> (e < - 6 \<or> 21 \<le> e)
             then [hd ds] @ (if tl ds = [] then [] else CHR ''.'' # tl ds) @ ''e'' @
               (if e < 0 then ''-'' else ''+'') @ nat_str (nat \<bar>e\<bar>)
             else if 0 \<le> x then ds @ replicate (nat x) CHR ''0''
             else if - x < n then take (nat (n + x)) ds @ ''.'' @ drop (nat (n + x)) ds
             else ''0.'' @ replicate (nat (- x - n)) CHR ''0'' @ ds)
      in (if neg then CHR ''-'' # body else body))"

definition join_opt :: "string option list \<Rightarrow> string option" where
  "join_opt ws =
     (if None \<in> set ws then None else Some (join_str '','' (map the ws)))"

definition bracket :: "string \<Rightarrow> string \<Rightarrow> string option \<Rightarrow> string option" where
  "bracket l r w = map_option (\<lambda>b. l @ b @ r) w"

text \<open>Objects are written with their keys in bytewise order.\<close>

definition entry_less :: "string \<times> 'a \<Rightarrow> string \<times> 'a \<Rightarrow> bool" where
  "entry_less a b \<longleftrightarrow> fst a < fst b"

interpretation entry_sort: keyed_less entry_less fst
  by unfold_locales (simp add: entry_less_def)

primrec json_encode :: "mvalue \<Rightarrow> string option" where
  "json_encode MNull = Some ''null''"
| "json_encode (MBool b) = Some (if b then ''true'' else ''false'')"
| "json_encode (MInt i) = Some (int_str i)"
| "json_encode (MSized i) = Some (int_str i)"
| "json_encode (MFloat32 f) =
     (case f of FNum s d x \<Rightarrow> Some (json_float s d x) | _ \<Rightarrow> None)"
| "json_encode (MFloat64 f) =
     (case f of FNum s d x \<Rightarrow> Some (json_float s d x) | _ \<Rightarrow> None)"
| "json_encode (MString s) = Some (json_string s)"
| "json_encode (MStrings ss) = bracket ''['' '']'' (Some (join_str '','' (map json_string ss)))"
| "json_encode (MList vs) = bracket ''['' '']'' (join_opt (map json_encode vs))"
| "json_encode (MMap kvs) =
     bracket ''{'' ''}'' (join_opt (map (\<lambda>(k, w). map_option (\<lambda>t. json_string k @ '':'' @ t) w)
       (sort_slice entry_less (map (map_prod id json_encode) kvs))))"
| "json_encode MOpaque = None"

section \<open>The value read back\<close>

text \<open>
  \<^verbatim>\<open>validateMetadataValue\<close> looks at arrays, objects and keys only, so the decoded value is
  kept as a tree without its scalars.  Reading a key back replaces every byte that starts no
  character by U+FFFD; of two keys that become equal the later one in the text stays.
\<close>

datatype jtree = JLeaf | JArr "jtree list" | JObj "(string \<times> jtree) list"

function json_repaired :: "string \<Rightarrow> string" where
  "json_repaired s =
     (if s = [] then []
      else if rune_len s = 0 then bytes [0xEF, 0xBF, 0xBD] @ json_repaired (tl s)
      else take (rune_len s) s @ json_repaired (drop (rune_len s) s))"
  by pat_completeness auto
termination
  by (relation "measure length") auto

declare json_repaired.simps [simp del]

primrec json_tree :: "mvalue \<Rightarrow> jtree" where
  "json_tree MNull = JLeaf"
| "json_tree (MBool b) = JLeaf"
| "json_tree (MInt i) = JLeaf"
| "json_tree (MSized i) = JLeaf"
| "json_tree (MFloat32 f) = JLeaf"
| "json_tree (MFloat64 f) = JLeaf"
| "json_tree (MString s) = JLeaf"
| "json_tree (MStrings ss) = JArr (map (\<lambda>_. JLeaf) ss)"
| "json_tree (MList vs) = JArr (map json_tree vs)"
| "json_tree (MMap kvs) =
     JObj (foldl (\<lambda>m (k, t). AList.update (json_repaired k) t m) []
       (sort_slice entry_less (map (map_prod id json_tree) kvs)))"
| "json_tree MOpaque = JLeaf"

text \<open>The decoder refuses texts nested deeper than 10000 levels.\<close>

fun tree_depth :: "jtree \<Rightarrow> nat" where
  "tree_depth JLeaf = 0"
| "tree_depth (JArr ts) = Suc (Max (insert 0 (set (map tree_depth ts))))"
| "tree_depth (JObj kts) = Suc (Max (insert 0 (set (map (\<lambda>(k, t). tree_depth t) kts))))"

definition max_nesting :: nat where
  "max_nesting = 10000"

end
