(* ===== verification/Protocol.thy ===== *)
theory Protocol
  imports Metadata
begin

text \<open>
  \<^verbatim>\<open>protocol/go/event.go\<close>: the normalized event and its validation.  The string-typed
  enumerations are datatypes with one constructor per constant of the source and one for any
  other string; an \<^verbatim>\<open>error\<close> result is an option, with \<^const>\<open>None\<close> for nil.
\<close>

named_theorems event_type_defs \<open>classifications of event types used by several components\<close>

section \<open>Enumerations\<close>

datatype confidence =
    Conf_exact | Conf_correlated | Conf_observed | Conf_inferred | Conf_other string

datatype source_type =
    Source_native_hook | Source_structured_stream | Source_editor | Source_filesystem
  | Source_git | Source_wrapper | Source_synthetic | Source_other string

datatype event_type =
    Session_started | Session_stopped | Agent_started | Agent_stopped | Tool_started
  | Tool_completed | File_focused | File_read | File_created | File_modified | File_patched
  | File_renamed | File_moved | File_deleted | Directory_created | Directory_renamed
  | Directory_deleted | Command_started | Command_completed | Access_interval_opened
  | Access_interval_closed | Diff_calculated | Project_rescanned | Adapter_connected
  | Adapter_disconnected | Adapter_warning | Event_dropped_or_coalesced | Event_other string

fun event_type_str :: "event_type \<Rightarrow> string" where
  "event_type_str Session_started = ''session_started''"
| "event_type_str Session_stopped = ''session_stopped''"
| "event_type_str Agent_started = ''agent_started''"
| "event_type_str Agent_stopped = ''agent_stopped''"
| "event_type_str Tool_started = ''tool_started''"
| "event_type_str Tool_completed = ''tool_completed''"
| "event_type_str File_focused = ''file_focused''"
| "event_type_str File_read = ''file_read''"
| "event_type_str File_created = ''file_created''"
| "event_type_str File_modified = ''file_modified''"
| "event_type_str File_patched = ''file_patched''"
| "event_type_str File_renamed = ''file_renamed''"
| "event_type_str File_moved = ''file_moved''"
| "event_type_str File_deleted = ''file_deleted''"
| "event_type_str Directory_created = ''directory_created''"
| "event_type_str Directory_renamed = ''directory_renamed''"
| "event_type_str Directory_deleted = ''directory_deleted''"
| "event_type_str Command_started = ''command_started''"
| "event_type_str Command_completed = ''command_completed''"
| "event_type_str Access_interval_opened = ''access_interval_opened''"
| "event_type_str Access_interval_closed = ''access_interval_closed''"
| "event_type_str Diff_calculated = ''diff_calculated''"
| "event_type_str Project_rescanned = ''project_rescanned''"
| "event_type_str Adapter_connected = ''adapter_connected''"
| "event_type_str Adapter_disconnected = ''adapter_disconnected''"
| "event_type_str Adapter_warning = ''adapter_warning''"
| "event_type_str Event_dropped_or_coalesced = ''event_dropped_or_coalesced''"
| "event_type_str (Event_other s) = s"

text \<open>The validity tables at the end of the file: every named constant, nothing else.\<close>

fun valid_event_type :: "event_type \<Rightarrow> bool" where
  "valid_event_type (Event_other _) = False"
| "valid_event_type _ = True"

fun valid_source :: "source_type \<Rightarrow> bool" where
  "valid_source (Source_other _) = False"
| "valid_source _ = True"

fun valid_confidence :: "confidence \<Rightarrow> bool" where
  "valid_confidence (Conf_other _) = False"
| "valid_confidence _ = True"

section \<open>The event\<close>

record event =
  schema_version :: string
  event_id :: string
  session_id :: string
  project_id :: string
  agent_id :: string
  agent_type :: string
  adapter_id :: string
  adapter_version :: string
  source_type :: source_type
  source_confidence :: confidence
  event_type :: event_type
  ev_operation :: string
  ev_status :: string
  timestamp :: gotime
  monotonic_timestamp :: int
  correlation_id :: string
  parent_event_id :: string
  process_id :: int
  thread_id :: string
  turn_id :: string
  tool_name :: string
  ev_command :: string
  project_root :: string
  ev_path :: string
  previous_path :: string
  ev_node_id :: string
  is_directory :: "bool option"
  is_binary :: "bool option"
  duration_ms :: "int option"
  lines_added :: "int option"
  lines_deleted :: "int option"
  bytes_before :: "int option"
  bytes_after :: "int option"
  content_hash_before :: string
  content_hash_after :: string
  phase_id :: string
  slice_id :: string
  action_label :: string
  ev_metadata :: metadata

text \<open>Go's zero value \<^verbatim>\<open>protocol.Event{}\<close>; the zero of a string-typed enumeration is the
  empty string.\<close>

definition zero_event :: event where
  "zero_event = \<lparr>schema_version = [], event_id = [], session_id = [], project_id = [],
     agent_id = [], agent_type = [], adapter_id = [], adapter_version = [],
     source_type = Source_other [], source_confidence = Conf_other [],
     event_type = Event_other [], ev_operation = [], ev_status = [], timestamp = 0,
     monotonic_timestamp = 0, correlation_id = [], parent_event_id = [], process_id = 0,
     thread_id = [], turn_id = [], tool_name = [], ev_command = [], project_root = [],
     ev_path = [], previous_path = [], ev_node_id = [], is_directory = None, is_binary = None,
     duration_ms = None, lines_added = None, lines_deleted = None, bytes_before = None,
     bytes_after = None, content_hash_before = [], content_hash_after = [], phase_id = [],
     slice_id = [], action_label = [], ev_metadata = []\<rparr>"

definition schema_version_const :: string where
  "schema_version_const = ''1.0''"

definition max_metadata_bytes :: nat where "max_metadata_bytes = 65536"
definition max_metadata_depth :: nat where "max_metadata_depth = 8"
definition max_metadata_entries :: nat where "max_metadata_entries = 1024"

section \<open>Validation\<close>

datatype verror =
    Unsupported string
  | Required string
  | Negative string
  | Not_utf8 string
  | Has_nul string
  | Too_long string nat
  | Metadata_not_json
  | Metadata_too_big
  | Metadata_too_deep
  | Metadata_too_many

definition validate_string :: "string \<Rightarrow> string \<Rightarrow> nat \<Rightarrow> verror option" where
  "validate_string name value limit =
     (if \<not> utf8_valid value then Some (Not_utf8 name)
      else if CHR 0x00 \<in> set value then Some (Has_nul name)
      else if limit < length value then Some (Too_long name limit)
      else None)"

text \<open>
  The recursion of \<^verbatim>\<open>validateMetadataValue\<close>, with the shared counter \<^verbatim>\<open>*entries\<close> passed
  along: \<^const>\<open>Inl\<close> is the error, \<^const>\<open>Inr\<close> the counter afterwards.
\<close>

fun validate_value :: "nat \<Rightarrow> jtree \<Rightarrow> nat \<Rightarrow> verror + nat"
  and validate_members :: "nat \<Rightarrow> (string \<times> jtree) list \<Rightarrow> nat \<Rightarrow> verror + nat"
  and validate_items :: "nat \<Rightarrow> jtree list \<Rightarrow> nat \<Rightarrow> verror + nat"
where
  "validate_value depth v n =
     (if max_metadata_depth < depth then Inl Metadata_too_deep
      else case v of
        JObj kts \<Rightarrow> validate_members depth kts n
      | JArr ts \<Rightarrow> validate_items depth ts n
      | JLeaf \<Rightarrow> Inr n)"
| "validate_members depth [] n = Inr n"
| "validate_members depth ((k, t) # kts) n =
     (if max_metadata_entries < n + 1 then Inl Metadata_too_many
      else case validate_string ''metadata key'' k 128 of
        Some e \<Rightarrow> Inl e
      | None \<Rightarrow> (case validate_value (depth + 1) t (n + 1) of
          Inl e \<Rightarrow> Inl e
        | Inr m \<Rightarrow> validate_members depth kts m))"
| "validate_items depth [] n = Inr n"
| "validate_items depth (t # ts) n =
     (if max_metadata_entries < n + 1 then Inl Metadata_too_many
      else case validate_value (depth + 1) t (n + 1) of
        Inl e \<Rightarrow> Inl e
      | Inr m \<Rightarrow> validate_items depth ts m)"

declare validate_value.simps [simp del]

definition validate_metadata :: "metadata \<Rightarrow> verror option" where
  "validate_metadata md =
     (if md = [] then None
      else case json_encode (MMap md) of
        None \<Rightarrow> Some Metadata_not_json
      | Some payload \<Rightarrow>
          if max_metadata_bytes < length payload then Some Metadata_too_big
          else let t = json_tree (MMap md) in
            if max_nesting < tree_depth t then Some Metadata_not_json
            else (case validate_value 0 t 0 of Inl e \<Rightarrow> Some e | Inr _ \<Rightarrow> None))"

fun first_error :: "verror option list \<Rightarrow> verror option" where
  "first_error [] = None"
| "first_error (Some e # _) = Some e"
| "first_error (None # es) = first_error es"

definition string_fields :: "event \<Rightarrow> (string \<times> string \<times> nat) list" where
  "string_fields e =
    [(''event_id'', event_id e, 128), (''session_id'', session_id e, 128),
     (''project_id'', project_id e, 128), (''agent_id'', agent_id e, 128),
     (''agent_type'', agent_type e, 64), (''adapter_id'', adapter_id e, 128),
     (''adapter_version'', adapter_version e, 64), (''operation'', ev_operation e, 64),
     (''status'', ev_status e, 64), (''correlation_id'', correlation_id e, 128),
     (''parent_event_id'', parent_event_id e, 128), (''thread_id'', thread_id e, 128),
     (''turn_id'', turn_id e, 128), (''tool_name'', tool_name e, 256),
     (''command'', ev_command e, 4096), (''project_root'', project_root e, 4096),
     (''path'', ev_path e, 4096), (''previous_path'', previous_path e, 4096),
     (''node_id'', ev_node_id e, 128), (''content_hash_before'', content_hash_before e, 256),
     (''content_hash_after'', content_hash_after e, 256), (''phase_id'', phase_id e, 64),
     (''slice_id'', slice_id e, 64), (''action_label'', action_label e, 256)]"

text \<open>The source ranges over a Go map here; which of several offending fields is named is open.\<close>

definition number_fields :: "event \<Rightarrow> (string \<times> int option) list" where
  "number_fields e =
    [(''duration_ms'', duration_ms e), (''lines_added'', lines_added e),
     (''lines_deleted'', lines_deleted e), (''bytes_before'', bytes_before e),
     (''bytes_after'', bytes_after e)]"

definition validate_number :: "string \<times> int option \<Rightarrow> verror option" where
  "validate_number nv = (case snd nv of
     Some v \<Rightarrow> if v < 0 then Some (Negative (fst nv)) else None
   | None \<Rightarrow> None)"

definition validate :: "event \<Rightarrow> verror option" where
  "validate e =
     (if schema_version e \<noteq> schema_version_const then Some (Unsupported ''schema_version'')
      else if event_id e = [] then Some (Required ''event_id'')
      else if \<not> valid_event_type (event_type e) then Some (Unsupported ''event_type'')
      else if \<not> valid_source (source_type e) then Some (Unsupported ''source_type'')
      else if \<not> valid_confidence (source_confidence e)
      then Some (Unsupported ''source_confidence'')
      else if timestamp e = 0 then Some (Required ''timestamp'')
      else if monotonic_timestamp e < 0 then Some (Negative ''monotonic_timestamp'')
      else if process_id e < 0 then Some (Negative ''process_id'')
      else first_error (map (\<lambda>(name, value, limit). validate_string name value limit) (string_fields e)
             @ map validate_number (number_fields e) @ [validate_metadata (ev_metadata e)]))"

section \<open>What validation guarantees\<close>

lemma first_error_None: "first_error es = None \<longleftrightarrow> set es \<subseteq> {None}"
  by (induction es rule: first_error.induct) auto

lemma validate_string_None:
  "validate_string name v limit = None \<longleftrightarrow>
   utf8_valid v \<and> CHR 0x00 \<notin> set v \<and> length v \<le> limit"
  by (auto simp: validate_string_def)

lemma validate_number_None: "validate_number nv = None \<longleftrightarrow> (\<forall>v. snd nv = Some v \<longrightarrow> 0 \<le> v)"
  by (auto simp: validate_number_def split: option.splits)

text \<open>
  The declarative bounds on a decoded metadata tree: how deep a value lies, how many object
  members and array elements there are, and which keys occur.
\<close>

fun tree_height :: "jtree \<Rightarrow> nat" and members_height :: "(string \<times> jtree) list \<Rightarrow> nat"
  and items_height :: "jtree list \<Rightarrow> nat" where
  "tree_height JLeaf = 0"
| "tree_height (JArr ts) = items_height ts"
| "tree_height (JObj kts) = members_height kts"
| "members_height [] = 0"
| "members_height ((k, t) # kts) = max (Suc (tree_height t)) (members_height kts)"
| "items_height [] = 0"
| "items_height (t # ts) = max (Suc (tree_height t)) (items_height ts)"

fun tree_entries :: "jtree \<Rightarrow> nat" and members_entries :: "(string \<times> jtree) list \<Rightarrow> nat"
  and items_entries :: "jtree list \<Rightarrow> nat" where
  "tree_entries JLeaf = 0"
| "tree_entries (JArr ts) = items_entries ts"
| "tree_entries (JObj kts) = members_entries kts"
| "members_entries [] = 0"
| "members_entries ((k, t) # kts) = Suc (tree_entries t + members_entries kts)"
| "items_entries [] = 0"
| "items_entries (t # ts) = Suc (tree_entries t + items_entries ts)"

fun tree_keys :: "jtree \<Rightarrow> string set" and members_keys :: "(string \<times> jtree) list \<Rightarrow> string set"
  and items_keys :: "jtree list \<Rightarrow> string set" where
  "tree_keys JLeaf = {}"
| "tree_keys (JArr ts) = items_keys ts"
| "tree_keys (JObj kts) = members_keys kts"
| "members_keys [] = {}"
| "members_keys ((k, t) # kts) = insert k (tree_keys t \<union> members_keys kts)"
| "items_keys [] = {}"
| "items_keys (t # ts) = tree_keys t \<union> items_keys ts"

definition keys_ok :: "string set \<Rightarrow> bool" where
  "keys_ok ks \<longleftrightarrow> (\<forall>k \<in> ks. validate_string ''metadata key'' k 128 = None)"

lemma keys_ok_simps [simp]:
  "keys_ok {}" "keys_ok (insert k ks) \<longleftrightarrow> validate_string ''metadata key'' k 128 = None \<and> keys_ok ks"
  "keys_ok (ks \<union> ls) \<longleftrightarrow> keys_ok ks \<and> keys_ok ls"
  by (auto simp: keys_ok_def)

lemma validate_tree_spec:
  "n \<le> max_metadata_entries \<Longrightarrow> validate_value d t n = Inr m \<longleftrightarrow>
     d + tree_height t \<le> max_metadata_depth \<and> n + tree_entries t \<le> max_metadata_entries \<and>
     keys_ok (tree_keys t) \<and> m = n + tree_entries t"
  "n \<le> max_metadata_entries \<Longrightarrow> d \<le> max_metadata_depth \<Longrightarrow> validate_members d kts n = Inr m \<longleftrightarrow>
     d + members_height kts \<le> max_metadata_depth \<and>
     n + members_entries kts \<le> max_metadata_entries \<and>
     keys_ok (members_keys kts) \<and> m = n + members_entries kts"
  "n \<le> max_metadata_entries \<Longrightarrow> d \<le> max_metadata_depth \<Longrightarrow> validate_items d ts n = Inr m \<longleftrightarrow>
     d + items_height ts \<le> max_metadata_depth \<and>
     n + items_entries ts \<le> max_metadata_entries \<and>
     keys_ok (items_keys ts) \<and> m = n + items_entries ts"
proof (induction d t n and d kts n and d ts n arbitrary: m and m and m
    rule: validate_value_validate_members_validate_items.induct)
  case (1 depth v n)
  then show ?case by (cases v) (auto simp: validate_value.simps [of depth])
next
  case (3 depth k t kts n)
  show ?case
  proof (cases "max_metadata_entries < n + 1 \<or> validate_string ''metadata key'' k 128 \<noteq> None")
    case False
    then have IH: "validate_value (depth + 1) t (n + 1) = Inr l \<longleftrightarrow>
        depth + 1 + tree_height t \<le> max_metadata_depth \<and>
        n + 1 + tree_entries t \<le> max_metadata_entries \<and>
        keys_ok (tree_keys t) \<and> l = n + 1 + tree_entries t" for l
      using "3.IH"(1) by simp
    show ?thesis
    proof (cases "validate_value (depth + 1) t (n + 1)")
      case (Inl e)
      with IH [of "n + 1 + tree_entries t"] False show ?thesis by auto
    next
      case (Inr l)
      with IH [of l] have l: "l = n + 1 + tree_entries t" "l \<le> max_metadata_entries"
        "depth + 1 + tree_height t \<le> max_metadata_depth" "keys_ok (tree_keys t)" by auto
      have "validate_members depth kts l = Inr m \<longleftrightarrow>
          depth + members_height kts \<le> max_metadata_depth \<and>
          l + members_entries kts \<le> max_metadata_entries \<and>
          keys_ok (members_keys kts) \<and> m = l + members_entries kts"
        by (rule "3.IH"(2)) (use False Inr l(2) "3.prems"(2) in auto)
      with False Inr l show ?thesis by auto
    qed
  qed auto
next
  case (5 depth t ts n)
  show ?case
  proof (cases "max_metadata_entries < n + 1")
    case False
    then have IH: "validate_value (depth + 1) t (n + 1) = Inr l \<longleftrightarrow>
        depth + 1 + tree_height t \<le> max_metadata_depth \<and>
        n + 1 + tree_entries t \<le> max_metadata_entries \<and>
        keys_ok (tree_keys t) \<and> l = n + 1 + tree_entries t" for l
      using "5.IH"(1) by simp
    show ?thesis
    proof (cases "validate_value (depth + 1) t (n + 1)")
      case (Inl e)
      with IH [of "n + 1 + tree_entries t"] False show ?thesis by auto
    next
      case (Inr l)
      with IH [of l] have l: "l = n + 1 + tree_entries t" "l \<le> max_metadata_entries"
        "depth + 1 + tree_height t \<le> max_metadata_depth" "keys_ok (tree_keys t)" by auto
      have "validate_items depth ts l = Inr m \<longleftrightarrow>
          depth + items_height ts \<le> max_metadata_depth \<and>
          l + items_entries ts \<le> max_metadata_entries \<and>
          keys_ok (items_keys ts) \<and> m = l + items_entries ts"
        by (rule "5.IH"(2)) (use False Inr l(2) "5.prems"(2) in auto)
      with False Inr l show ?thesis by auto
    qed
  qed auto
qed auto

lemma validate_metadata_None:
  "validate_metadata md = None \<longleftrightarrow> md = [] \<or>
     (\<exists>payload. json_encode (MMap md) = Some payload \<and> length payload \<le> max_metadata_bytes) \<and>
     tree_depth (json_tree (MMap md)) \<le> max_nesting \<and>
     tree_height (json_tree (MMap md)) \<le> max_metadata_depth \<and>
     tree_entries (json_tree (MMap md)) \<le> max_metadata_entries \<and>
     keys_ok (tree_keys (json_tree (MMap md)))"
proof (cases "md = []")
  case False
  have v: "(case validate_value 0 t 0 of Inl e \<Rightarrow> Some e | Inr _ \<Rightarrow> None) = None \<longleftrightarrow>
      tree_height t \<le> max_metadata_depth \<and> tree_entries t \<le> max_metadata_entries \<and> keys_ok (tree_keys t)"
    for t
  proof (cases "validate_value 0 t 0")
    case (Inl e)
    with validate_tree_spec(1) [of 0 0 t "tree_entries t"] show ?thesis by simp
  next
    case (Inr m)
    with validate_tree_spec(1) [of 0 0 t m] show ?thesis by simp
  qed
  show ?thesis
    by (cases "json_encode (MMap md)") (use False v in \<open>auto simp: validate_metadata_def Let_def simp del: json_tree.simps json_encode.simps\<close>)
qed (simp add: validate_metadata_def)

lemma validate_None:
  "validate e = None \<longleftrightarrow> schema_version e = schema_version_const \<and> event_id e \<noteq> [] \<and>
     valid_event_type (event_type e) \<and> valid_source (source_type e) \<and>
     valid_confidence (source_confidence e) \<and> timestamp e \<noteq> 0 \<and> 0 \<le> monotonic_timestamp e \<and>
     0 \<le> process_id e \<and>
     (\<forall>(name, v, limit) \<in> set (string_fields e). utf8_valid v \<and> CHR 0x00 \<notin> set v \<and> length v \<le> limit) \<and>
     (\<forall>(name, v) \<in> set (number_fields e). \<forall>x. v = Some x \<longrightarrow> 0 \<le> x) \<and>
     validate_metadata (ev_metadata e) = None"
proof -
  let ?f = "\<lambda>(name, value, limit). validate_string name value limit"
  have s: "(\<forall>x \<in> set (map ?f (string_fields e)). x = None) \<longleftrightarrow>
      (\<forall>(name, v, limit) \<in> set (string_fields e). utf8_valid v \<and> CHR 0x00 \<notin> set v \<and> length v \<le> limit)"
    unfolding set_map ball_simps by (intro ball_cong refl) (auto simp: validate_string_None)
  have n: "(\<forall>x \<in> set (map validate_number (number_fields e)). x = None) \<longleftrightarrow>
      (\<forall>(name, v) \<in> set (number_fields e). \<forall>x. v = Some x \<longrightarrow> 0 \<le> x)"
    unfolding set_map ball_simps by (intro ball_cong refl) (auto simp: validate_number_None)
  have f: "first_error (map ?f (string_fields e) @ map validate_number (number_fields e) @
      [validate_metadata (ev_metadata e)]) = None \<longleftrightarrow>
      (\<forall>x \<in> set (map ?f (string_fields e)). x = None) \<and>
      (\<forall>x \<in> set (map validate_number (number_fields e)). x = None) \<and> validate_metadata (ev_metadata e) = None"
    unfolding first_error_None by auto
  show ?thesis unfolding validate_def
    by (auto simp: f s n simp del: set_map split: if_splits)
qed

text \<open>The facts about a valid event the other components use.\<close>

lemma validate_NoneD:
  assumes "validate e = None"
  shows "event_id e \<noteq> []" "valid_event_type (event_type e)" "valid_source (source_type e)"
    "valid_confidence (source_confidence e)" "timestamp e \<noteq> 0" "0 \<le> monotonic_timestamp e"
    "0 \<le> process_id e"
    "\<And>name v limit. (name, v, limit) \<in> set (string_fields e) \<Longrightarrow>
       utf8_valid v \<and> CHR 0x00 \<notin> set v \<and> length v \<le> limit"
    "\<And>name v. (name, Some v) \<in> set (number_fields e) \<Longrightarrow> 0 \<le> v"
    "validate_metadata (ev_metadata e) = None"
proof -
  note all = assms [unfolded validate_None]
  show "event_id e \<noteq> []" "valid_event_type (event_type e)" "valid_source (source_type e)"
    "valid_confidence (source_confidence e)" "timestamp e \<noteq> 0" "0 \<le> monotonic_timestamp e"
    "0 \<le> process_id e" "validate_metadata (ev_metadata e) = None"
    using all by simp_all
  show "utf8_valid v \<and> CHR 0x00 \<notin> set v \<and> length v \<le> limit"
    if "(name, v, limit) \<in> set (string_fields e)" for name v limit
    using all that by blast
  show "0 \<le> v" if "(name, Some v) \<in> set (number_fields e)" for name v
    using all that by blast
qed

lemma valid_event_types_finite:
  "valid_event_type t \<Longrightarrow> valid_event_type u \<Longrightarrow> event_type_str t = event_type_str u \<Longrightarrow> t = u"
  by (cases t; cases u) simp_all

end
