(* ===== verification/Session.thy ===== *)
theory Session
  imports Protocol
begin

text \<open>
  \<^verbatim>\<open>internal/session/engine.go\<close>: the session engine that turns activity events into the
  active focus and the list of access intervals of a session.  The engine's mutex makes every
  method atomic, so each method is one function on the engine's state; a \<^verbatim>\<open>*State\<close> in the
  map is updated in place, which is a function update here, and \<^verbatim>\<open>clone\<close> returns the value.
\<close>

named_theorems session_defs \<open>definitions unfolded together in the engine's proofs\<close>

section \<open>State\<close>

type_synonym work_status = string
type_synonym work_source = string

record interval =
  iv_sequence :: int
  iv_node_id :: string
  iv_path :: string
  iv_started_at :: gotime
  iv_ended_at :: "gotime option"
  iv_duration :: duration
  iv_operations :: "string list"
  iv_source :: source_type
  iv_confidence :: confidence
  iv_agent_id :: string
  iv_lines_added :: "int option"
  iv_lines_deleted :: "int option"
  iv_work_status :: work_status
  iv_work_source :: work_source
  iv_work_confidence :: confidence

record state =
  st_session_id :: string
  st_started_at :: gotime
  st_stopped_at :: "gotime option"
  st_paused :: bool
  st_active_path :: string
  st_active_node_id :: string
  st_previous_path :: string
  st_previous_node_id :: string
  st_secondary_paths :: "string list"
  st_active_operation :: string
  st_active_source :: source_type
  st_active_confidence :: confidence
  st_active_timestamp :: gotime
  st_intervals :: "interval list"
  st_current_priority :: int
  st_current_timestamp :: gotime

record engine =
  idle_timeout :: duration
  sessions :: "string \<rightharpoonup> state"

datatype engine_error =
    Session_id_required | Session_not_started | Unknown_session | Unknown_interval

type_synonym engine_result = "engine \<times> (engine_error + state)"

definition zero_state :: state where
  "zero_state = \<lparr>st_session_id = [], st_started_at = 0, st_stopped_at = None, st_paused = False,
     st_active_path = [], st_active_node_id = [], st_previous_path = [],
     st_previous_node_id = [], st_secondary_paths = [], st_active_operation = [],
     st_active_source = Source_other [], st_active_confidence = Conf_other [],
     st_active_timestamp = 0, st_intervals = [], st_current_priority = 0,
     st_current_timestamp = 0\<rparr>"

definition default_idle_timeout :: duration where
  "default_idle_timeout = 2 * 60 * second"

definition new_engine :: "duration \<Rightarrow> engine" where
  "new_engine idle =
     \<lparr>idle_timeout = (if idle \<le> 0 then default_idle_timeout else idle), sessions = Map.empty\<rparr>"

section \<open>Helpers\<close>

definition focus_priority :: "event \<Rightarrow> int option" where
  "focus_priority e =
     (let conf = (case source_confidence e of
          Conf_inferred \<Rightarrow> 0 | Conf_observed \<Rightarrow> 10 | Conf_correlated \<Rightarrow> 20 | Conf_exact \<Rightarrow> 30
        | Conf_other _ \<Rightarrow> 0)
      in case event_type e of
          File_created \<Rightarrow> Some (conf + 9)
        | File_patched \<Rightarrow> Some (conf + 8)
        | File_modified \<Rightarrow> Some (conf + 8)
        | File_renamed \<Rightarrow> Some (conf + 7)
        | File_moved \<Rightarrow> Some (conf + 7)
        | File_deleted \<Rightarrow> Some (conf + 6)
        | File_focused \<Rightarrow> Some (conf + 5)
        | File_read \<Rightarrow> Some (conf + 3)
        | _ \<Rightarrow> None)"

definition append_unique :: "string list \<Rightarrow> string \<Rightarrow> string list" where
  "append_unique vs v = (if v = [] then vs else if v \<in> set vs then vs else vs @ [v])"

definition compact_paths :: "string list \<Rightarrow> string list" where
  "compact_paths ps = keep_first (\<lambda>p. p) {} (filter (\<lambda>p. p \<noteq> []) ps)"

definition secondary_paths :: "metadata \<Rightarrow> string list" where
  "secondary_paths md =
     (case map_of md ''secondary_paths'' of
        None \<Rightarrow> []
      | Some v \<Rightarrow> sort_strings (compact_paths (case v of
            MStrings ss \<Rightarrow> ss
          | MList vs \<Rightarrow> concat (map (\<lambda>w. case w of MString p \<Rightarrow> if p \<noteq> [] then [p] else [] | _ \<Rightarrow> []) vs)
          | _ \<Rightarrow> [])))"

definition merge_delta :: "interval \<Rightarrow> event \<Rightarrow> interval" where
  "merge_delta iv e =
     iv\<lparr>iv_lines_added := (if lines_added e \<noteq> None then lines_added e else iv_lines_added iv),
        iv_lines_deleted := (if lines_deleted e \<noteq> None then lines_deleted e else iv_lines_deleted iv)\<rparr>"

definition current :: "state \<Rightarrow> interval option" where
  "current s = (if st_intervals s = [] then None else Some (last (st_intervals s)))"

text \<open>Writing through the pointer \<^verbatim>\<open>current(s)\<close>.\<close>

definition set_current :: "interval \<Rightarrow> state \<Rightarrow> state" where
  "set_current iv s = s\<lparr>st_intervals := butlast (st_intervals s) @ [iv]\<rparr>"

definition close_current :: "duration \<Rightarrow> state \<Rightarrow> gotime \<Rightarrow> state" where
  "close_current idle s at =
     (case current s of
        None \<Rightarrow> s
      | Some c \<Rightarrow>
          if iv_ended_at c \<noteq> None then s
          else
            let limit = iv_started_at c + idle;
                at1 = (if limit < at then limit else at);
                at2 = (if at1 < iv_started_at c then iv_started_at c else at1)
            in set_current (c\<lparr>iv_ended_at := Some at2,
                 iv_duration := time_sub at2 (iv_started_at c)\<rparr>) s)"

text \<open>The literal \<^verbatim>\<open>AccessInterval{...}\<close> both branches of \<^verbatim>\<open>Apply\<close> append.\<close>

definition open_interval :: "state \<Rightarrow> event \<Rightarrow> interval" where
  "open_interval s e =
     \<lparr>iv_sequence = int (length (st_intervals s)) + 1, iv_node_id = ev_node_id e,
      iv_path = ev_path e, iv_started_at = timestamp e, iv_ended_at = None, iv_duration = 0,
      iv_operations = append_unique [] (ev_operation e), iv_source = source_type e,
      iv_confidence = source_confidence e, iv_agent_id = agent_id e,
      iv_lines_added = lines_added e, iv_lines_deleted = lines_deleted e,
      iv_work_status = [], iv_work_source = [], iv_work_confidence = Conf_other []\<rparr>"

text \<open>The assignments every accepted focus event makes.\<close>

definition set_active :: "state \<Rightarrow> event \<Rightarrow> int \<Rightarrow> state" where
  "set_active s e priority =
     s\<lparr>st_current_priority := priority, st_current_timestamp := timestamp e,
       st_active_operation := ev_operation e, st_active_source := source_type e,
       st_active_confidence := source_confidence e, st_active_timestamp := timestamp e,
       st_secondary_paths := secondary_paths (ev_metadata e)\<rparr>"

section \<open>Operations\<close>

definition follow_rename :: "state \<Rightarrow> event \<Rightarrow> state" where
  "follow_rename s e =
     (if (event_type e = File_renamed \<or> event_type e = File_moved) \<and>
         st_active_path s = previous_path e \<and> ev_path e \<noteq> []
      then let s1 = s\<lparr>st_active_path := ev_path e\<rparr>
        in case current s1 of None \<Rightarrow> s1 | Some c \<Rightarrow> set_current (c\<lparr>iv_path := ev_path e\<rparr>) s1
      else s)"

definition continue_focus :: "state \<Rightarrow> event \<Rightarrow> int \<Rightarrow> state" where
  "continue_focus s e priority =
     (case current s of
        Some c \<Rightarrow>
          if iv_ended_at c = None then
            set_active (set_current (merge_delta
              (c\<lparr>iv_operations := append_unique (iv_operations c) (ev_operation e)\<rparr>) e) s) e priority
          else let s1 = set_active s e priority
            in s1\<lparr>st_intervals := st_intervals s1 @ [open_interval s1 e]\<rparr>
      | None \<Rightarrow> let s1 = set_active s e priority
            in s1\<lparr>st_intervals := st_intervals s1 @ [open_interval s1 e]\<rparr>)"

definition switch_focus :: "duration \<Rightarrow> state \<Rightarrow> event \<Rightarrow> int \<Rightarrow> state" where
  "switch_focus idle s e priority =
     (let s1 = close_current idle s (timestamp e);
          s2 = s1\<lparr>st_previous_path := st_active_path s1, st_previous_node_id := st_active_node_id s1,
                  st_active_path := ev_path e, st_active_node_id := ev_node_id e\<rparr>;
          s3 = set_active s2 e priority
      in s3\<lparr>st_intervals := st_intervals s3 @ [open_interval s3 e]\<rparr>)"

definition apply_session :: "duration \<Rightarrow> state \<Rightarrow> event \<Rightarrow> state" where
  "apply_session idle s e =
     (if timestamp e < st_current_timestamp s then s
      else if event_type e = Session_stopped
      then (close_current idle s (timestamp e))\<lparr>st_stopped_at := Some (timestamp e)\<rparr>
      else if st_stopped_at s \<noteq> None \<or> st_paused s then s
      else let s1 = follow_rename s e in
        case focus_priority e of
          None \<Rightarrow> s1
        | Some priority \<Rightarrow>
            if ev_path e = [] then s1
            else if timestamp e = st_current_timestamp s1 \<and> priority < st_current_priority s1 then s1
            else if st_active_path s1 = ev_path e then continue_focus s1 e priority
            else switch_focus idle s1 e priority)"

definition start_session :: "event \<Rightarrow> state" where
  "start_session e =
     zero_state\<lparr>st_session_id := session_id e, st_started_at := timestamp e,
                st_current_timestamp := timestamp e\<rparr>"

definition put_session :: "engine \<Rightarrow> string \<Rightarrow> state \<Rightarrow> engine_result" where
  "put_session E i s = (E\<lparr>sessions := (sessions E)(i \<mapsto> s)\<rparr>, Inr s)"

definition engine_apply :: "engine \<Rightarrow> event \<Rightarrow> engine_result" where
  "engine_apply E e =
     (if session_id e = [] then (E, Inl Session_id_required)
      else case sessions E (session_id e) of
        None \<Rightarrow>
          if event_type e = Session_started
          then put_session E (session_id e) (start_session e)
          else (E, Inl Session_not_started)
      | Some s \<Rightarrow>
          if event_type e = Session_started then (E, Inr s)
          else put_session E (session_id e) (apply_session (idle_timeout E) s e))"

definition engine_pause :: "engine \<Rightarrow> string \<Rightarrow> gotime \<Rightarrow> engine_result" where
  "engine_pause E i at =
     (case sessions E i of
        None \<Rightarrow> (E, Inl Unknown_session)
      | Some s \<Rightarrow> put_session E i ((close_current (idle_timeout E) s at)\<lparr>st_paused := True\<rparr>))"

definition engine_resume :: "engine \<Rightarrow> string \<Rightarrow> engine_result" where
  "engine_resume E i =
     (case sessions E i of
        None \<Rightarrow> (E, Inl Unknown_session)
      | Some s \<Rightarrow> put_session E i (s\<lparr>st_paused := False\<rparr>))"

definition engine_advance :: "engine \<Rightarrow> string \<Rightarrow> gotime \<Rightarrow> engine_result" where
  "engine_advance E i now =
     (case sessions E i of
        None \<Rightarrow> (E, Inl Unknown_session)
      | Some s \<Rightarrow> put_session E i
          (case current s of
             None \<Rightarrow> s
           | Some c \<Rightarrow>
               if iv_ended_at c = None \<and> idle_timeout E \<le> time_sub now (iv_started_at c)
               then close_current (idle_timeout E) s (iv_started_at c + idle_timeout E)
               else s))"

definition set_work :: "int option \<Rightarrow> int option \<Rightarrow> work_status \<Rightarrow> work_source \<Rightarrow> confidence \<Rightarrow>
    interval \<Rightarrow> interval" where
  "set_work added deleted status source conf iv =
     iv\<lparr>iv_lines_added := added, iv_lines_deleted := deleted, iv_work_status := status,
        iv_work_source := source, iv_work_confidence := conf\<rparr>"

text \<open>The loop over \<^verbatim>\<open>s.Intervals\<close> in \<^verbatim>\<open>SetWorkResult\<close>: the first match is updated.\<close>

fun update_sequence :: "int \<Rightarrow> (interval \<Rightarrow> interval) \<Rightarrow> interval list \<Rightarrow> interval list option" where
  "update_sequence n f [] = None"
| "update_sequence n f (iv # ivs) =
     (if iv_sequence iv \<noteq> n then map_option ((#) iv) (update_sequence n f ivs)
      else Some (f iv # ivs))"

definition engine_set_work_result :: "engine \<Rightarrow> string \<Rightarrow> int \<Rightarrow> int option \<Rightarrow> int option \<Rightarrow>
    work_status \<Rightarrow> work_source \<Rightarrow> confidence \<Rightarrow> engine_result" where
  "engine_set_work_result E i sequence added deleted status source conf =
     (case sessions E i of
        None \<Rightarrow> (E, Inl Unknown_session)
      | Some s \<Rightarrow>
          (case update_sequence sequence (set_work added deleted status source conf) (st_intervals s) of
             None \<Rightarrow> (E, Inl Unknown_interval)
           | Some ivs \<Rightarrow> put_session E i (s\<lparr>st_intervals := ivs\<rparr>)))"

definition engine_state :: "engine \<Rightarrow> string \<Rightarrow> engine_error + state" where
  "engine_state E i = (case sessions E i of None \<Rightarrow> Inl Unknown_session | Some s \<Rightarrow> Inr s)"

end
