(* ===== verification/Session_Inv.thy ===== *)
theory Session_Inv
  imports Session
begin

text \<open>
  Well-formedness of session states and its preservation by every method of the engine; the
  reachable engines; the extra facts about live runs, in which only \<^verbatim>\<open>Apply\<close> and
  \<^verbatim>\<open>SetWorkResult\<close> are called.
\<close>

section \<open>Well-formed intervals\<close>

definition closed :: "interval \<Rightarrow> bool" where
  "closed iv \<longleftrightarrow> iv_ended_at iv \<noteq> None"

definition wf_interval :: "duration \<Rightarrow> interval \<Rightarrow> bool" where
  "wf_interval idle iv \<longleftrightarrow> iv_path iv \<noteq> [] \<and>
     (case iv_ended_at iv of
        None \<Rightarrow> iv_duration iv = 0
      | Some t \<Rightarrow> iv_started_at iv \<le> t \<and> t \<le> iv_started_at iv + idle \<and>
                 iv_duration iv = t - iv_started_at iv)"

definition wf_intervals :: "duration \<Rightarrow> interval list \<Rightarrow> bool" where
  "wf_intervals idle ivs \<longleftrightarrow>
     map iv_sequence ivs = map int [1..<Suc (length ivs)] \<and>
     list_all (wf_interval idle) ivs \<and>
     list_all closed (butlast ivs) \<and>
     sorted (map iv_started_at ivs)"

definition wf_state :: "duration \<Rightarrow> state \<Rightarrow> bool" where
  "wf_state idle s \<longleftrightarrow>
     wf_intervals idle (st_intervals s) \<and>
     (\<forall>iv \<in> set (st_intervals s). iv_started_at iv \<le> st_current_timestamp s) \<and>
     st_active_path s = (case current s of None \<Rightarrow> [] | Some c \<Rightarrow> iv_path c) \<and>
     (st_stopped_at s \<noteq> None \<or> st_paused s \<longrightarrow> list_all closed (st_intervals s)) \<and>
     0 \<le> st_current_priority s"

lemma wf_intervals_Nil [simp]: "wf_intervals idle []"
  by (simp add: wf_intervals_def)

lemma wf_intervals_snoc:
  "wf_intervals idle (ivs @ [iv]) \<longleftrightarrow>
     wf_intervals idle ivs \<and> list_all closed ivs \<and> wf_interval idle iv \<and>
     iv_sequence iv = int (length ivs) + 1 \<and>
     (\<forall>x \<in> set ivs. iv_started_at x \<le> iv_started_at iv)"
proof -
  have "list_all closed ivs \<Longrightarrow> list_all closed (butlast ivs)"
    by (auto simp: list_all_iff dest: in_set_butlastD)
  then show ?thesis
    by (auto simp: wf_intervals_def sorted_append)
qed

lemma current_snoc [simp]: "st_intervals s = ivs @ [c] \<Longrightarrow> current s = Some c"
  by (simp add: current_def)

lemma current_Nil [simp]: "st_intervals s = [] \<Longrightarrow> current s = None"
  by (simp add: current_def)

lemma current_NoneD: "current s = None \<Longrightarrow> st_intervals s = []"
  by (simp add: current_def split: if_splits)

lemma current_SomeD: "current s = Some c \<Longrightarrow> \<exists>ivs. st_intervals s = ivs @ [c]"
  by (metis append_butlast_last_id current_def option.distinct(1) option.inject)

text \<open>The cases of every proof about a session: no interval yet, or a last one.\<close>

lemma interval_cases:
  obtains (none) "st_intervals s = []" "current s = None"
  | (some) ivs c where "st_intervals s = ivs @ [c]" "current s = Some c"
  by (metis current_Nil current_snoc rev_exhaust)

text \<open>Fields a helper does not write.\<close>

lemma set_current_simps [simp]:
  "st_intervals (set_current iv s) = butlast (st_intervals s) @ [iv]"
  "st_current_timestamp (set_current iv s) = st_current_timestamp s"
  "st_current_priority (set_current iv s) = st_current_priority s"
  "st_active_path (set_current iv s) = st_active_path s"
  "st_stopped_at (set_current iv s) = st_stopped_at s"
  "st_paused (set_current iv s) = st_paused s"
  "st_session_id (set_current iv s) = st_session_id s"
  by (simp_all add: set_current_def)

lemma set_active_simps [simp]:
  "st_intervals (set_active s e p) = st_intervals s"
  "st_current_timestamp (set_active s e p) = timestamp e"
  "st_current_priority (set_active s e p) = p"
  "st_active_path (set_active s e p) = st_active_path s"
  "st_stopped_at (set_active s e p) = st_stopped_at s"
  "st_paused (set_active s e p) = st_paused s"
  "st_session_id (set_active s e p) = st_session_id s"
  by (simp_all add: set_active_def)

lemma close_current_simps [simp]:
  "st_current_timestamp (close_current idle s at) = st_current_timestamp s"
  "st_current_priority (close_current idle s at) = st_current_priority s"
  "st_active_path (close_current idle s at) = st_active_path s"
  "st_active_node_id (close_current idle s at) = st_active_node_id s"
  "st_stopped_at (close_current idle s at) = st_stopped_at s"
  "st_paused (close_current idle s at) = st_paused s"
  "st_session_id (close_current idle s at) = st_session_id s"
  by (auto simp: close_current_def Let_def set_current_def split: option.splits)

definition clip :: "gotime \<Rightarrow> duration \<Rightarrow> gotime \<Rightarrow> gotime" where
  "clip start idle at = max start (min at (start + idle))"

lemma clip_bounds: "0 \<le> idle \<Longrightarrow> start \<le> clip start idle at \<and> clip start idle at \<le> start + idle"
  by (auto simp: clip_def)

text \<open>Closing in closed form: the end is the given instant clipped to the idle window.\<close>

lemma close_current_open:
  assumes "st_intervals s = ivs @ [c]" and "iv_ended_at c = None" and "0 \<le> idle"
  shows "st_intervals (close_current idle s at) =
    ivs @ [c\<lparr>iv_ended_at := Some (clip (iv_started_at c) idle at),
             iv_duration := time_sub (clip (iv_started_at c) idle at) (iv_started_at c)\<rparr>]"
proof -
  have "(if (if iv_started_at c + idle < at then iv_started_at c + idle else at) < iv_started_at c
         then iv_started_at c
         else if iv_started_at c + idle < at then iv_started_at c + idle else at) =
        clip (iv_started_at c) idle at"
    using assms(3) by (auto simp: clip_def)
  with assms show ?thesis by (simp add: close_current_def Let_def)
qed

lemma close_current_closed:
  "st_intervals s = ivs @ [c] \<Longrightarrow> closed c \<Longrightarrow> close_current idle s at = s"
  by (simp add: close_current_def closed_def)

lemma close_current_none: "st_intervals s = [] \<Longrightarrow> close_current idle s at = s"
  by (simp add: close_current_def)

lemma time_sub_clip:
  "0 \<le> idle \<Longrightarrow> idle \<le> int64_max \<Longrightarrow>
   time_sub (clip start idle at) start = clip start idle at - start"
  using clip_bounds [of idle start at] by (intro time_sub_exact) auto

lemma close_current_wf:
  assumes wf: "wf_intervals idle (st_intervals s)" and idle: "0 \<le> idle" "idle \<le> int64_max"
  shows "wf_intervals idle (st_intervals (close_current idle s at))" (is ?wf)
    and "list_all closed (st_intervals (close_current idle s at))" (is ?cl)
    and "map iv_started_at (st_intervals (close_current idle s at)) =
         map iv_started_at (st_intervals s)" (is ?st)
    and "map iv_path (st_intervals (close_current idle s at)) = map iv_path (st_intervals s)" (is ?pa)
proof -
  have "?wf \<and> ?cl \<and> ?st \<and> ?pa"
  proof (cases rule: interval_cases [of s])
    case (some ivs c)
    show ?thesis
    proof (cases "closed c")
      case True
      with some wf show ?thesis by (simp add: close_current_closed wf_intervals_snoc)
    next
      case False
      then have "iv_ended_at c = None" by (simp add: closed_def)
      with some wf idle show ?thesis
        using clip_bounds [OF idle(1), of "iv_started_at c" at]
        by (simp add: close_current_open wf_intervals_snoc wf_interval_def time_sub_clip closed_def)
    qed
  qed (simp add: close_current_none)
  then show ?wf ?cl ?st ?pa by blast+
qed

lemma current_map_cong:
  "map f (st_intervals s) = map f (st_intervals t) \<Longrightarrow> map_option f (current s) = map_option f (current t)"
  by (cases "st_intervals s = []"; cases "st_intervals t = []")
    (auto simp: current_def dest: arg_cong [of _ _ last] simp: last_map)

lemma wf_state_active_path:
  "st_active_path s = (case current s of None \<Rightarrow> [] | Some c \<Rightarrow> iv_path c) \<longleftrightarrow>
   Some (st_active_path s) = (case map_option iv_path (current s) of None \<Rightarrow> Some [] | Some p \<Rightarrow> Some p)"
  by (auto split: option.splits)

section \<open>Every operation keeps states well-formed\<close>

lemma focus_priority_nonneg: "focus_priority e = Some p \<Longrightarrow> 0 < p"
  by (auto simp: focus_priority_def Let_def split: event_type.splits confidence.splits)

lemma follow_rename_simps [simp]:
  "st_current_timestamp (follow_rename s e) = st_current_timestamp s"
  "st_current_priority (follow_rename s e) = st_current_priority s"
  "st_stopped_at (follow_rename s e) = st_stopped_at s"
  "st_paused (follow_rename s e) = st_paused s"
  "st_session_id (follow_rename s e) = st_session_id s"
  "st_active_node_id (follow_rename s e) = st_active_node_id s"
  by (auto simp: follow_rename_def Let_def set_current_def split: option.splits)

text \<open>
  A rename never disturbs the intervals; it may set the active path before the first interval
  exists, which the same call then opens.
\<close>

lemma follow_rename_wf:
  assumes "wf_intervals idle (st_intervals s)"
  shows "wf_intervals idle (st_intervals (follow_rename s e))"
    and "map iv_started_at (st_intervals (follow_rename s e)) = map iv_started_at (st_intervals s)"
    and "map iv_ended_at (st_intervals (follow_rename s e)) = map iv_ended_at (st_intervals s)"
    and "length (st_intervals (follow_rename s e)) = length (st_intervals s)"
proof -
  have "wf_intervals idle (st_intervals (follow_rename s e)) \<and>
    map iv_started_at (st_intervals (follow_rename s e)) = map iv_started_at (st_intervals s) \<and>
    map iv_ended_at (st_intervals (follow_rename s e)) = map iv_ended_at (st_intervals s) \<and>
    length (st_intervals (follow_rename s e)) = length (st_intervals s)"
  proof (cases rule: interval_cases [of s])
    case none
    then show ?thesis by (auto simp: follow_rename_def Let_def current_def)
  next
    case (some ivs c)
    then show ?thesis using assms
      by (auto simp: follow_rename_def Let_def current_def wf_intervals_snoc wf_interval_def
          split: option.splits)
  qed
  then show "wf_intervals idle (st_intervals (follow_rename s e))"
    "map iv_started_at (st_intervals (follow_rename s e)) = map iv_started_at (st_intervals s)"
    "map iv_ended_at (st_intervals (follow_rename s e)) = map iv_ended_at (st_intervals s)"
    "length (st_intervals (follow_rename s e)) = length (st_intervals s)" by auto
qed

lemma wf_state_append:
  assumes "wf_intervals idle (st_intervals s)" and "list_all closed (st_intervals s)"
    and "\<forall>iv \<in> set (st_intervals s). iv_started_at iv \<le> timestamp e"
    and "ev_path e \<noteq> []" and "st_active_path s = ev_path e" and "st_stopped_at s = None"
    and "\<not> st_paused s" and "st_current_timestamp s = timestamp e" and "0 \<le> st_current_priority s"
  shows "wf_state idle (s\<lparr>st_intervals := st_intervals s @ [open_interval s e]\<rparr>)"
  using assms
  by (auto simp: wf_state_def wf_intervals_snoc wf_interval_def open_interval_def current_def)

lemma started_map:
  assumes "map iv_started_at ivs = map iv_started_at jvs"
  shows "(\<forall>x \<in> set ivs. iv_started_at x \<le> t) = (\<forall>x \<in> set jvs. iv_started_at x \<le> t)"
proof -
  have "(\<forall>x \<in> set ivs. iv_started_at x \<le> t) \<longleftrightarrow> (\<forall>y \<in> set (map iv_started_at ivs). y \<le> t)" for ivs
    by simp
  with assms show ?thesis by metis
qed

lemma switch_focus_wf:
  assumes wf: "wf_intervals idle (st_intervals s)" and idle: "0 \<le> idle" "idle \<le> int64_max"
    and ts: "\<forall>iv \<in> set (st_intervals s). iv_started_at iv \<le> timestamp e"
    and "ev_path e \<noteq> []" "st_stopped_at s = None" "\<not> st_paused s" "0 \<le> p"
  shows "wf_state idle (switch_focus idle s e p)"
proof -
  note cl = close_current_wf [OF wf idle, of "timestamp e"]
  have "\<forall>iv \<in> set (st_intervals (close_current idle s (timestamp e))). iv_started_at iv \<le> timestamp e"
    using ts started_map [OF cl(3)] by blast
  then show ?thesis
    unfolding switch_focus_def Let_def
    by (intro wf_state_append) (use cl assms in auto)
qed

lemma continue_focus_wf:
  assumes wf: "wf_intervals idle (st_intervals s)"
    and cl: "list_all closed (butlast (st_intervals s))"
    and ts: "\<forall>iv \<in> set (st_intervals s). iv_started_at iv \<le> timestamp e"
    and ap: "st_active_path s = ev_path e"
    and cp: "\<And>c. current s = Some c \<Longrightarrow> iv_path c = ev_path e"
    and "ev_path e \<noteq> []" "st_stopped_at s = None" "\<not> st_paused s" "0 \<le> p"
  shows "wf_state idle (continue_focus s e p)"
proof (cases rule: interval_cases [of s])
  case none
  then have eq: "continue_focus s e p = (let s1 = set_active s e p in
      s1\<lparr>st_intervals := st_intervals s1 @ [open_interval s1 e]\<rparr>)"
    by (simp add: continue_focus_def)
  show ?thesis unfolding eq Let_def by (rule wf_state_append) (use none assms in simp_all)
next
  case (some ivs c)
  show ?thesis
  proof (cases "closed c")
    case True
    with some wf have "list_all closed (st_intervals s)" by (simp add: wf_intervals_snoc)
    moreover from some True have eq: "continue_focus s e p = (let s1 = set_active s e p in
        s1\<lparr>st_intervals := st_intervals s1 @ [open_interval s1 e]\<rparr>)"
      by (auto simp: continue_focus_def closed_def)
    ultimately show ?thesis unfolding eq Let_def
      by (intro wf_state_append) (use ts ap assms(6-9) wf in simp_all)
  next
    case False
    with some wf ts cp [OF some(2)] assms(6-9) show ?thesis
      by (auto simp: continue_focus_def closed_def wf_state_def wf_intervals_snoc wf_interval_def
          merge_delta_def current_def ap)
  qed
qed

lemma wf_state_ts_le:
  "wf_state idle s \<Longrightarrow> st_current_timestamp s \<le> t \<Longrightarrow> \<forall>iv \<in> set (st_intervals s). iv_started_at iv \<le> t"
  by (auto simp: wf_state_def)

text \<open>The state after a rename, when some focus event follows in the same call or not.\<close>

lemma follow_rename_active:
  assumes "wf_state idle s"
  shows "current (follow_rename s e) = None \<and> (follow_rename s e = s \<or> st_active_path (follow_rename s e) = ev_path e \<and> ev_path e \<noteq> [] \<and> (event_type e = File_renamed \<or> event_type e = File_moved))
    \<or> (\<exists>c. current (follow_rename s e) = Some c \<and> iv_path c = st_active_path (follow_rename s e))"
proof (cases rule: interval_cases [of s])
  case none
  then show ?thesis by (auto simp: follow_rename_def Let_def current_def)
next
  case (some ivs c)
  then show ?thesis using assms
    by (auto simp: follow_rename_def Let_def current_def wf_state_def split: option.splits)
qed

lemma follow_rename_only_path:
  assumes "wf_state idle s" and "st_stopped_at s = None" "\<not> st_paused s"
    and "focus_priority e = None \<or> ev_path e = [] \<or>
         timestamp e = st_current_timestamp s \<and> the (focus_priority e) < st_current_priority s"
    and "current s = None \<Longrightarrow> st_current_priority s = 0"
  shows "wf_state idle (follow_rename s e)"
proof (cases rule: interval_cases [of s])
  case none
  have "follow_rename s e = s"
  proof (rule ccontr)
    assume "follow_rename s e \<noteq> s"
    then have r: "event_type e = File_renamed \<or> event_type e = File_moved" "ev_path e \<noteq> []"
      by (auto simp: follow_rename_def split: if_splits)
    then obtain p where "focus_priority e = Some p"
      by (auto simp: focus_priority_def Let_def)
    with r assms(4,5) none focus_priority_nonneg [of e p] show False by auto
  qed
  with assms(1) show ?thesis by simp
next
  case (some ivs c)
  note fr = follow_rename_wf [of idle s e]
  have wf: "wf_intervals idle (st_intervals s)" using assms(1) by (simp add: wf_state_def)
  have "\<exists>c. current (follow_rename s e) = Some c \<and> iv_path c = st_active_path (follow_rename s e)"
    using some assms(1)
    by (auto simp: follow_rename_def Let_def current_def wf_state_def split: option.splits)
  then show ?thesis
    using assms(1-3) fr(1) [OF wf] started_map [OF fr(2) [OF wf]] by (auto simp: wf_state_def)
qed

text \<open>
  Before its first interval a session has accepted no focus event, so its priority is 0.  This
  part of the invariant is what makes a rename at the very start safe.
\<close>

definition wf_start :: "state \<Rightarrow> bool" where
  "wf_start s \<longleftrightarrow> (st_intervals s = [] \<longrightarrow> st_current_priority s = 0)"

definition ok_state :: "duration \<Rightarrow> state \<Rightarrow> bool" where
  "ok_state idle s \<longleftrightarrow> wf_state idle s \<and> wf_start s"

lemma append_nonempty_start: "st_intervals s \<noteq> [] \<Longrightarrow> wf_start s"
  by (simp add: wf_start_def)

lemma continue_focus_nonempty: "st_intervals (continue_focus s e p) \<noteq> []"
  by (auto simp: continue_focus_def Let_def split: option.splits)

lemma switch_focus_nonempty: "st_intervals (switch_focus idle s e p) \<noteq> []"
  by (simp add: switch_focus_def Let_def)

lemma close_current_ok:
  assumes "ok_state idle s" and "0 \<le> idle" "idle \<le> int64_max"
  shows "ok_state idle ((close_current idle s at)\<lparr>st_stopped_at := x\<rparr>)"
    and "ok_state idle ((close_current idle s at)\<lparr>st_paused := b\<rparr>)"
    and "ok_state idle (close_current idle s at)"
proof -
  have wf: "wf_intervals idle (st_intervals s)" using assms(1) by (simp add: ok_state_def wf_state_def)
  note cl = close_current_wf [OF wf assms(2,3), of at]
  have len: "st_intervals (close_current idle s at) = [] \<longleftrightarrow> st_intervals s = []"
    using cl(3) by (metis map_is_Nil_conv)
  have "current (close_current idle s at) = None \<and> current s = None \<or>
    (\<exists>c d. current (close_current idle s at) = Some c \<and> current s = Some d \<and> iv_path c = iv_path d)"
    using current_map_cong [OF cl(4)] len by (cases "current s") (auto simp: map_option_case split: option.splits)
  with assms(1) cl len started_map [OF cl(3)]
  show "ok_state idle ((close_current idle s at)\<lparr>st_stopped_at := x\<rparr>)"
    "ok_state idle ((close_current idle s at)\<lparr>st_paused := b\<rparr>)"
    "ok_state idle (close_current idle s at)"
    by (auto simp: ok_state_def wf_state_def wf_start_def current_def split: if_splits)
qed

lemma apply_session_ok:
  assumes ok: "ok_state idle s" and idle: "0 \<le> idle" "idle \<le> int64_max"
  shows "ok_state idle (apply_session idle s e)"
proof -
  consider (late) "timestamp e < st_current_timestamp s"
    | (stop) "\<not> timestamp e < st_current_timestamp s" "event_type e = Session_stopped"
    | (held) "\<not> timestamp e < st_current_timestamp s" "event_type e \<noteq> Session_stopped"
        "st_stopped_at s \<noteq> None \<or> st_paused s"
    | (live) "st_current_timestamp s \<le> timestamp e" "event_type e \<noteq> Session_stopped"
        "st_stopped_at s = None" "\<not> st_paused s"
    by fastforce
  then show ?thesis
  proof cases
    case live
    let ?r = "follow_rename s e"
    have wfs: "wf_state idle s" and wf: "wf_intervals idle (st_intervals s)"
      using ok by (simp_all add: ok_state_def wf_state_def)
    note fr = follow_rename_wf [OF wf, of e]
    have ts: "\<forall>iv \<in> set (st_intervals ?r). iv_started_at iv \<le> timestamp e"
      using wf_state_ts_le [OF wfs live(1)] started_map [OF fr(2)] by blast
    have start: "current s = None \<Longrightarrow> st_current_priority s = 0"
      using ok by (auto simp: ok_state_def wf_start_def dest: current_NoneD)
    let ?skip = "focus_priority e = None \<or> ev_path e = [] \<or>
         timestamp e = st_current_timestamp s \<and> the (focus_priority e) < st_current_priority s"
    show ?thesis
    proof (cases ?skip)
      case True
      then have eq: "apply_session idle s e = ?r"
        using live by (auto simp: apply_session_def Let_def split: option.splits)
      have "wf_start ?r"
        using ok fr(4) by (auto simp: ok_state_def wf_start_def)
      with eq follow_rename_only_path [OF wfs live(3,4) True start] show ?thesis
        by (simp add: ok_state_def)
    next
      case False
      then obtain p where p: "focus_priority e = Some p" "ev_path e \<noteq> []" by auto
      have eq: "apply_session idle s e =
          (if st_active_path ?r = ev_path e then continue_focus ?r e p else switch_focus idle ?r e p)"
        using live p False by (auto simp: apply_session_def Let_def)
      have nn: "0 \<le> p" using focus_priority_nonneg [OF p(1)] by simp
      have bl: "list_all closed (butlast (st_intervals ?r))" using fr(1) by (simp add: wf_intervals_def)
      have cp: "iv_path c = st_active_path ?r" if "current ?r = Some c" for c
        using follow_rename_active [OF wfs, of e] that by auto
      have "wf_state idle (apply_session idle s e)"
        unfolding eq using fr(1) bl ts cp p nn live idle
        by (auto intro!: continue_focus_wf switch_focus_wf)
      moreover have "wf_start (apply_session idle s e)"
        unfolding eq by (auto intro!: append_nonempty_start continue_focus_nonempty switch_focus_nonempty)
      ultimately show ?thesis by (simp add: ok_state_def)
    qed
  qed (use ok close_current_ok [OF ok idle] in \<open>simp_all add: apply_session_def\<close>)
qed

lemma update_sequence_spec:
  "update_sequence n f ivs = Some jvs \<Longrightarrow>
   \<exists>k < length ivs. iv_sequence (ivs ! k) = n \<and> jvs = ivs[k := f (ivs ! k)]"
proof (induction ivs arbitrary: jvs)
  case (Cons iv ivs)
  show ?case
  proof (cases "iv_sequence iv = n")
    case True
    with Cons.prems show ?thesis by (intro exI [of _ 0]) auto
  next
    case False
    with Cons.prems obtain kvs where kvs: "update_sequence n f ivs = Some kvs" "jvs = iv # kvs"
      by auto
    from Cons.IH [OF kvs(1)] obtain k where "k < length ivs" "iv_sequence (ivs ! k) = n"
      "kvs = ivs[k := f (ivs ! k)]" by blast
    with kvs(2) show ?thesis by (intro exI [of _ "Suc k"]) simp
  qed
qed simp

lemma update_sequence_None:
  "update_sequence n f ivs = None \<longleftrightarrow> n \<notin> iv_sequence ` set ivs"
  by (induction ivs) auto

lemma map_list_update_id: "k < length xs \<Longrightarrow> g (f (xs ! k)) = g (xs ! k) \<Longrightarrow> map g (xs[k := f (xs ! k)]) = map g xs"
  by (metis list_update_id map_update nth_map length_map)

lemma set_work_simps [simp]:
  "iv_sequence (set_work a d st so c iv) = iv_sequence iv"
  "iv_path (set_work a d st so c iv) = iv_path iv"
  "iv_started_at (set_work a d st so c iv) = iv_started_at iv"
  "iv_ended_at (set_work a d st so c iv) = iv_ended_at iv"
  "iv_duration (set_work a d st so c iv) = iv_duration iv"
  "closed (set_work a d st so c iv) = closed iv"
  "wf_interval idle (set_work a d st so c iv) = wf_interval idle iv"
  by (simp_all add: set_work_def closed_def wf_interval_def split: option.splits)

text \<open>
  Everything the invariant reads is one projection of the interval list, so an update that
  keeps the projection keeps the invariant.
\<close>

definition shape :: "interval \<Rightarrow> int \<times> string \<times> gotime \<times> gotime option \<times> duration" where
  "shape iv = (iv_sequence iv, iv_path iv, iv_started_at iv, iv_ended_at iv, iv_duration iv)"

lemma ok_state_shape:
  assumes "map shape jvs = map shape (st_intervals s)" and "ok_state idle s"
  shows "ok_state idle (s\<lparr>st_intervals := jvs\<rparr>)"
proof -
  have proj: "map g jvs = map g (st_intervals s)" if "\<And>iv. g iv = h (shape iv)" for g :: "interval \<Rightarrow> 'b" and h
  proof -
    have "map g ivs = map h (map shape ivs)" for ivs using that by simp
    with assms(1) show ?thesis by metis
  qed
  have seq: "map iv_sequence jvs = map iv_sequence (st_intervals s)"
    by (rule proj [of _ fst]) (simp add: shape_def)
  have sta: "map iv_started_at jvs = map iv_started_at (st_intervals s)"
    by (rule proj [of _ "\<lambda>(_, _, t, _). t"]) (simp add: shape_def)
  have pat: "map iv_path jvs = map iv_path (st_intervals s)"
    by (rule proj [of _ "\<lambda>(_, p, _). p"]) (simp add: shape_def)
  have clo: "map closed jvs = map closed (st_intervals s)"
    by (rule proj [of _ "\<lambda>(_, _, _, e, _). e \<noteq> None"]) (simp add: shape_def closed_def)
  have wfi: "map (wf_interval idle) jvs = map (wf_interval idle) (st_intervals s)"
    by (rule proj [of _ "\<lambda>(_, p, t, e, d). p \<noteq> [] \<and> (case e of None \<Rightarrow> d = 0 | Some u \<Rightarrow> t \<le> u \<and> u \<le> t + idle \<and> d = u - t)"])
      (simp add: shape_def wf_interval_def)
  have len: "length jvs = length (st_intervals s)" using seq by (metis length_map)
  have la: "list_all P xs \<longleftrightarrow> (\<forall>b \<in> set (map P xs). b)" for P :: "interval \<Rightarrow> bool" and xs
    by (auto simp: list_all_iff)
  have "list_all closed (butlast jvs) = list_all closed (butlast (st_intervals s))"
    unfolding la map_butlast clo by simp
  moreover have "list_all closed jvs = list_all closed (st_intervals s)" unfolding la clo by simp
  moreover have "list_all (wf_interval idle) jvs = list_all (wf_interval idle) (st_intervals s)"
    unfolding la wfi by simp
  moreover have "map_option iv_path (current (s\<lparr>st_intervals := jvs\<rparr>)) = map_option iv_path (current s)"
    by (rule current_map_cong) (simp add: pat)
  moreover have "jvs = [] \<longleftrightarrow> st_intervals s = []" using len by auto
  ultimately show ?thesis
    using assms(2) seq sta len started_map [OF sta]
    unfolding ok_state_def wf_state_def wf_start_def wf_intervals_def wf_state_active_path by simp
qed

lemma update_sequence_shape:
  assumes "update_sequence n (set_work a d st so c) ivs = Some jvs"
  shows "map shape jvs = map shape ivs"
proof -
  from update_sequence_spec [OF assms] obtain k where "k < length ivs"
    "jvs = ivs[k := set_work a d st so c (ivs ! k)]" by blast
  then show ?thesis
    by (simp add: map_list_update_id [where f = "set_work a d st so c"] shape_def)
qed

section \<open>Reachable engines\<close>

definition wf_engine :: "engine \<Rightarrow> bool" where
  "wf_engine E \<longleftrightarrow> 0 < idle_timeout E \<and> idle_timeout E \<le> int64_max \<and>
     (\<forall>i s. sessions E i = Some s \<longrightarrow> st_session_id s = i \<and> ok_state (idle_timeout E) s)"

datatype engine_op =
    Op_apply event
  | Op_pause string gotime
  | Op_resume string
  | Op_advance string gotime
  | Op_set_work string int "int option" "int option" work_status work_source confidence

fun run_op :: "engine \<Rightarrow> engine_op \<Rightarrow> engine_result" where
  "run_op E (Op_apply e) = engine_apply E e"
| "run_op E (Op_pause i at) = engine_pause E i at"
| "run_op E (Op_resume i) = engine_resume E i"
| "run_op E (Op_advance i now) = engine_advance E i now"
| "run_op E (Op_set_work i n a d st so c) = engine_set_work_result E i n a d st so c"

text \<open>Callers interleave the methods freely; the mutex orders them into a sequence.\<close>

inductive engine_step :: "engine \<Rightarrow> engine_op \<Rightarrow> engine \<Rightarrow> bool" where
  ok: "run_op E op = (E', Inr s) \<Longrightarrow> engine_step E op E'"
| err: "run_op E op = (E', Inl x) \<Longrightarrow> engine_step E op E'"

inductive_simps engine_step_iff: "engine_step E op E'"

inductive engine_reachable :: "duration \<Rightarrow> engine \<Rightarrow> bool" for idle where
  init: "engine_reachable idle (new_engine idle)"
| step: "engine_reachable idle E \<Longrightarrow> engine_step E op E' \<Longrightarrow> engine_reachable idle E'"

lemma engine_step_fst: "engine_step E op E' \<longleftrightarrow> E' = fst (run_op E op)"
  by (cases "run_op E op"; cases "snd (run_op E op)") (auto simp: engine_step_iff)

lemma put_session_simps [simp]:
  "fst (put_session E i s) = E\<lparr>sessions := (sessions E)(i \<mapsto> s)\<rparr>"
  "snd (put_session E i s) = Inr s"
  by (simp_all add: put_session_def)

lemma wf_engine_put:
  "wf_engine E \<Longrightarrow> st_session_id s = i \<Longrightarrow> ok_state (idle_timeout E) s \<Longrightarrow>
   wf_engine (E\<lparr>sessions := (sessions E)(i \<mapsto> s)\<rparr>)"
  by (simp add: wf_engine_def)

lemma ok_state_fresh: "ok_state idle (start_session e)"
  by (simp add: ok_state_def wf_state_def wf_start_def start_session_def zero_state_def)

lemma start_session_id [simp]: "st_session_id (start_session e) = session_id e"
  by (simp add: start_session_def)

lemma continue_focus_session_id [simp]: "st_session_id (continue_focus s e p) = st_session_id s"
  by (auto simp: continue_focus_def Let_def split: option.splits)

lemma switch_focus_session_id [simp]: "st_session_id (switch_focus idle s e p) = st_session_id s"
  by (simp add: switch_focus_def Let_def)

lemma apply_session_id [simp]: "st_session_id (apply_session idle s e) = st_session_id s"
  by (auto simp: apply_session_def Let_def split: option.splits)

lemma wf_engineD:
  "wf_engine E \<Longrightarrow> sessions E i = Some s \<Longrightarrow>
   st_session_id s = i \<and> ok_state (idle_timeout E) s \<and> 0 \<le> idle_timeout E \<and> idle_timeout E \<le> int64_max"
  by (simp add: wf_engine_def)

lemma run_op_wf:
  assumes "wf_engine E"
  shows "wf_engine (fst (run_op E op))"
proof (cases op)
  case (Op_apply e)
  then show ?thesis
    using assms apply_session_ok wf_engineD [OF assms, of "session_id e"]
    by (auto simp: engine_apply_def ok_state_fresh intro!: wf_engine_put split: option.splits)
next
  case (Op_pause i at)
  then show ?thesis
    using assms close_current_ok(2) wf_engineD [OF assms, of i]
    by (auto simp: engine_pause_def intro!: wf_engine_put split: option.splits)
next
  case (Op_resume i)
  then show ?thesis
    using assms wf_engineD [OF assms, of i]
    by (auto simp: engine_resume_def ok_state_def wf_state_def wf_start_def current_def
        intro!: wf_engine_put split: option.splits)
next
  case (Op_advance i now)
  then show ?thesis
    using assms close_current_ok(3) wf_engineD [OF assms, of i]
    by (auto simp: engine_advance_def intro!: wf_engine_put split: option.splits)
next
  case (Op_set_work i n a d st so c)
  then show ?thesis
    using assms wf_engineD [OF assms, of i]
    by (auto simp: engine_set_work_result_def intro!: wf_engine_put ok_state_shape update_sequence_shape
        split: option.splits)
qed

lemma new_engine_wf: "idle \<le> int64_max \<Longrightarrow> wf_engine (new_engine idle)"
  by (simp add: wf_engine_def new_engine_def default_idle_timeout_def)

lemma reachable_wf:
  assumes "engine_reachable idle E" and "idle \<le> int64_max"
  shows "wf_engine E"
  using assms by (induction rule: engine_reachable.induct) (auto simp: new_engine_wf engine_step_fst run_op_wf)

end
