(* ===== verification/Session_Live.thy ===== *)
theory Session_Live
  imports Session_Inv
begin

text \<open>
  Live runs of the session engine: the desktop application calls only \<^verbatim>\<open>Apply\<close> and
  \<^verbatim>\<open>SetWorkResult\<close> on it (\<^verbatim>\<open>apps/desktop/app.go\<close>), so access intervals follow one another
  without overlap.  Here are that invariant, the accounting of observed time it gives, the
  frame facts of \<^verbatim>\<open>SetWorkResult\<close>, and the properties of the engine.
\<close>

section \<open>Spans\<close>

type_synonym span = "gotime \<times> gotime option"

definition spans :: "interval list \<Rightarrow> span list" where
  "spans ivs = map (\<lambda>iv. (iv_started_at iv, iv_ended_at iv)) ivs"

text \<open>Each span is closed before the next one starts.\<close>

fun chained :: "span list \<Rightarrow> bool" where
  "chained ((t, Some u) # (t', u') # xs) \<longleftrightarrow> u \<le> t' \<and> chained ((t', u') # xs)"
| "chained ((t, None) # x # xs) \<longleftrightarrow> False"
| "chained [x] \<longleftrightarrow> True"
| "chained [] \<longleftrightarrow> True"

lemma chained_last:
  "chained (xs @ [(t, u)]) \<longleftrightarrow> chained (xs @ [(t, u')])"
proof (induction xs rule: chained.induct)
  case (3 x)
  then show ?case by (cases x; cases "snd x") auto
qed auto

lemma chained_snoc:
  "chained (xs @ [(t, Some u)]) \<Longrightarrow> u \<le> t' \<Longrightarrow> chained (xs @ [(t, Some u), (t', u')])"
proof (induction xs rule: chained.induct)
  case (3 x)
  then show ?case by (cases x; cases "snd x") auto
qed auto

text \<open>Total length of a chain of closed spans is at most the distance from end to end.\<close>

fun span_length :: "span \<Rightarrow> int" where
  "span_length (t, Some u) = u - t"
| "span_length (t, None) = 0"

fun span_end :: "span \<Rightarrow> gotime" where
  "span_end (t, Some u) = u"
| "span_end (t, None) = t"

lemma chained_total:
  "chained xs \<Longrightarrow> \<forall>(t, u) \<in> set xs. (case u of None \<Rightarrow> True | Some v \<Rightarrow> t \<le> v) \<Longrightarrow> xs \<noteq> [] \<Longrightarrow>
   sum_list (map span_length xs) \<le> span_end (last xs) - fst (hd xs)"
proof (induction xs rule: chained.induct)
  case (1 t u t' u' xs)
  then show ?case by auto
next
  case (3 x)
  then show ?case by (cases x; cases "snd x") auto
qed auto

section \<open>Live states\<close>

definition live_state :: "duration \<Rightarrow> state \<Rightarrow> bool" where
  "live_state idle s \<longleftrightarrow> ok_state idle s \<and> \<not> st_paused s \<and> chained (spans (st_intervals s)) \<and>
     (st_stopped_at s = None \<longrightarrow> (\<forall>c. current s = Some c \<longrightarrow> iv_ended_at c = None))"

lemma spans_snoc [simp]: "spans (ivs @ [iv]) = spans ivs @ [(iv_started_at iv, iv_ended_at iv)]"
  by (simp add: spans_def)

lemma live_stateD:
  "live_state idle s \<Longrightarrow> ok_state idle s \<and> chained (spans (st_intervals s))"
  by (simp add: live_state_def)

lemma follow_rename_spans: "spans (st_intervals (follow_rename s e)) = spans (st_intervals s)"
  by (cases rule: interval_cases [of s]) (auto simp: follow_rename_def Let_def current_def)

lemma live_current_rename:
  assumes "\<forall>c. current s = Some c \<longrightarrow> iv_ended_at c = None"
  shows "\<forall>c. current (follow_rename s e) = Some c \<longrightarrow> iv_ended_at c = None"
  using assms by (cases rule: interval_cases [of s]) (auto simp: follow_rename_def Let_def current_def)

lemma close_current_chained:
  assumes "chained (spans (st_intervals s))" and "0 \<le> idle"
  shows "chained (spans (st_intervals (close_current idle s at)))"
proof (cases rule: interval_cases [of s])
  case (some ivs c)
  show ?thesis
  proof (cases "closed c")
    case False
    then have "iv_ended_at c = None" by (simp add: closed_def)
    with some assms show ?thesis
      by (simp add: close_current_open chained_last [where u = "Some _" and u' = None])
  qed (use some assms in \<open>simp add: close_current_closed\<close>)
qed (use assms in \<open>simp add: close_current_none\<close>)

lemma switch_focus_chained:
  assumes live: "\<forall>c. current s = Some c \<longrightarrow> iv_ended_at c = None"
    and ch: "chained (spans (st_intervals s))" and "0 \<le> idle"
    and ts: "\<forall>iv \<in> set (st_intervals s). iv_started_at iv \<le> timestamp e"
  shows "chained (spans (st_intervals (switch_focus idle s e p)))"
proof (cases rule: interval_cases [of s])
  case none
  then show ?thesis
    by (simp add: switch_focus_def Let_def close_current_none spans_def)
next
  case (some ivs c)
  let ?u = "clip (iv_started_at c) idle (timestamp e)"
  from some live have o: "iv_ended_at c = None" by simp
  have "?u \<le> timestamp e" using some ts by (auto simp: clip_def)
  moreover have "chained (spans ivs @ [(iv_started_at c, Some ?u)])"
    using ch some chained_last [of "spans ivs" _ "Some ?u" "iv_ended_at c"] by simp
  ultimately have "chained (spans ivs @ [(iv_started_at c, Some ?u), (timestamp e, None)])"
    by (rule chained_snoc [rotated])
  then show ?thesis
    using close_current_open [OF some(1) o assms(3), of "timestamp e"]
    by (simp add: switch_focus_def Let_def spans_def open_interval_def)
qed

lemma continue_focus_spans:
  assumes "\<forall>c. current s = Some c \<longrightarrow> iv_ended_at c = None"
  shows "chained (spans (st_intervals s)) \<Longrightarrow> chained (spans (st_intervals (continue_focus s e p)))"
  using assms
  by (cases rule: interval_cases [of s]) (auto simp: continue_focus_def Let_def merge_delta_def spans_def)

lemma continue_focus_open:
  assumes "\<forall>c. current s = Some c \<longrightarrow> iv_ended_at c = None"
  shows "current (continue_focus s e p) = Some c \<Longrightarrow> iv_ended_at c = None"
  using assms
  by (cases rule: interval_cases [of s])
    (auto simp: continue_focus_def Let_def merge_delta_def open_interval_def current_def)

lemma switch_focus_open: "current (switch_focus idle s e p) = Some c \<Longrightarrow> iv_ended_at c = None"
  by (auto simp: switch_focus_def Let_def open_interval_def current_def)

lemma focus_stopped [simp]:
  "st_stopped_at (continue_focus s e p) = st_stopped_at s"
  "st_paused (continue_focus s e p) = st_paused s"
  "st_stopped_at (switch_focus idle s e p) = st_stopped_at s"
  "st_paused (switch_focus idle s e p) = st_paused s"
  by (auto simp: continue_focus_def switch_focus_def Let_def split: option.splits)

text \<open>Every \<^verbatim>\<open>Apply\<close> is one of five moves.\<close>

lemma apply_session_cases:
  obtains (same) "apply_session idle s e = s"
  | (stop) "event_type e = Session_stopped" "st_current_timestamp s \<le> timestamp e"
      "apply_session idle s e = (close_current idle s (timestamp e))\<lparr>st_stopped_at := Some (timestamp e)\<rparr>"
  | (rename) "st_stopped_at s = None" "\<not> st_paused s" "apply_session idle s e = follow_rename s e"
  | (continue) p where "st_stopped_at s = None" "\<not> st_paused s" "focus_priority e = Some p"
      "st_current_timestamp s \<le> timestamp e" "ev_path e \<noteq> []"
      "st_active_path (follow_rename s e) = ev_path e"
      "apply_session idle s e = continue_focus (follow_rename s e) e p"
  | (switch) p where "st_stopped_at s = None" "\<not> st_paused s" "focus_priority e = Some p"
      "st_current_timestamp s \<le> timestamp e" "ev_path e \<noteq> []"
      "st_active_path (follow_rename s e) \<noteq> ev_path e"
      "apply_session idle s e = switch_focus idle (follow_rename s e) e p"
proof -
  let ?r = "follow_rename s e"
  note def = apply_session_def [of idle s e, unfolded Let_def]
  show thesis
  proof (cases "timestamp e < st_current_timestamp s \<or>
      event_type e \<noteq> Session_stopped \<and> (st_stopped_at s \<noteq> None \<or> st_paused s)")
    case True
    then show thesis by (intro same) (auto simp: def)
  next
    case False
    show thesis
    proof (cases "event_type e = Session_stopped")
      case True
      with False show thesis by (intro stop) (auto simp: def)
    next
      case running: False
      with False have live: "st_stopped_at s = None" "\<not> st_paused s" "st_current_timestamp s \<le> timestamp e"
        by auto
      show thesis
      proof (cases "focus_priority e")
        case None
        with running live show thesis by (intro rename) (auto simp: def)
      next
        case (Some p)
        show thesis
        proof (cases "ev_path e = [] \<or>
            timestamp e = st_current_timestamp ?r \<and> p < st_current_priority ?r")
          case True
          with running live Some show thesis by (intro rename) (auto simp: def)
        next
          case hit: False
          show thesis
          proof (cases "st_active_path ?r = ev_path e")
            case True
            with hit running live Some show thesis by (intro continue) (auto simp: def)
          next
            case False
            with hit running live Some show thesis by (intro switch) (auto simp: def)
          qed
        qed
      qed
    qed
  qed
qed

lemma apply_session_live:
  assumes live: "live_state idle s" and idle: "0 \<le> idle" "idle \<le> int64_max"
  shows "live_state idle (apply_session idle s e)"
proof -
  have ok: "ok_state idle s" and ch: "chained (spans (st_intervals s))" and np: "\<not> st_paused s"
    using live by (simp_all add: live_state_def)
  have ok': "ok_state idle (apply_session idle s e)" by (rule apply_session_ok [OF ok idle])
  have wf: "wf_intervals idle (st_intervals s)" using ok by (simp add: ok_state_def wf_state_def)
  show ?thesis
  proof (cases rule: apply_session_cases [of idle s e])
    case stop
    have "chained (spans (st_intervals (close_current idle s (timestamp e))))"
      by (rule close_current_chained [OF ch idle(1)])
    with ok' np show ?thesis unfolding stop(3) live_state_def by simp
  next
    case rename
    with live have "\<forall>c. current (follow_rename s e) = Some c \<longrightarrow> iv_ended_at c = None"
      by (intro live_current_rename) (simp add: live_state_def)
    with ok' ch np show ?thesis unfolding rename(3) live_state_def by (simp add: follow_rename_spans)
  next
    case (continue p)
    with live have "\<forall>c. current (follow_rename s e) = Some c \<longrightarrow> iv_ended_at c = None"
      by (intro live_current_rename) (simp add: live_state_def)
    with ok' ch np continue(1) continue_focus_spans [of "follow_rename s e" e p]
      continue_focus_open [of "follow_rename s e" e p]
    show ?thesis unfolding continue(7) live_state_def by (simp add: follow_rename_spans)
  next
    case (switch p)
    with live have o: "\<forall>c. current (follow_rename s e) = Some c \<longrightarrow> iv_ended_at c = None"
      by (intro live_current_rename) (simp add: live_state_def)
    have "\<forall>iv \<in> set (st_intervals (follow_rename s e)). iv_started_at iv \<le> timestamp e"
      using wf_state_ts_le [of idle s "timestamp e"] switch(4) ok
        started_map [OF follow_rename_wf(2) [OF wf, of e]] by (simp add: ok_state_def)
    then have "chained (spans (st_intervals (switch_focus idle (follow_rename s e) e p)))"
      using switch_focus_chained [OF o, of idle e p] ch idle by (simp add: follow_rename_spans)
    with ok' np switch(1) switch_focus_open [of idle "follow_rename s e" e p]
    show ?thesis unfolding switch(7) live_state_def by simp
  qed (use live in simp)
qed

text \<open>Live runs: only the two methods the application calls.\<close>

inductive live_run :: "duration \<Rightarrow> engine \<Rightarrow> bool" for idle where
  init: "live_run idle (new_engine idle)"
| apply_step: "live_run idle E \<Longrightarrow> engine_step E (Op_apply e) E' \<Longrightarrow> live_run idle E'"
| work_step: "live_run idle E \<Longrightarrow> engine_step E (Op_set_work i n a d st so c) E' \<Longrightarrow> live_run idle E'"

lemma live_run_reachable: "live_run idle E \<Longrightarrow> engine_reachable idle E"
  by (induction rule: live_run.induct) (auto intro: engine_reachable.intros)

lemma live_state_fresh: "live_state idle (start_session e)"
  using ok_state_fresh [of idle e]
  by (simp add: live_state_def start_session_def zero_state_def spans_def)

lemma live_state_shape:
  assumes "map shape jvs = map shape (st_intervals s)" and "live_state idle s"
  shows "live_state idle (s\<lparr>st_intervals := jvs\<rparr>)"
proof -
  have "map iv_ended_at ivs = map (\<lambda>(_, _, _, e, _). e) (map shape ivs)" for ivs
    by (simp add: shape_def)
  with assms(1) have e: "map iv_ended_at jvs = map iv_ended_at (st_intervals s)" by metis
  have "spans ivs = map (\<lambda>(_, _, t, e, _). (t, e)) (map shape ivs)" for ivs
    by (simp add: shape_def spans_def)
  with assms(1) have sp: "spans jvs = spans (st_intervals s)" by metis
  have "map_option iv_ended_at (current (s\<lparr>st_intervals := jvs\<rparr>)) = map_option iv_ended_at (current s)"
    by (rule current_map_cong) (simp add: e)
  with sp assms(2) ok_state_shape [OF assms(1)] show ?thesis
    by (cases "current s"; cases "current (s\<lparr>st_intervals := jvs\<rparr>)") (auto simp: live_state_def)
qed

lemma live_run_state:
  assumes "live_run idle E" and "idle \<le> int64_max"
  shows "sessions E i = Some s \<Longrightarrow> live_state (idle_timeout E) s"
  using assms
proof (induction arbitrary: i s rule: live_run.induct)
  case init
  then show ?case by (simp add: new_engine_def)
next
  case (apply_step E e E')
  have wf: "wf_engine E" using live_run_reachable apply_step reachable_wf by blast
  have idle: "idle_timeout E' = idle_timeout E"
    using apply_step.hyps(2) by (auto simp: engine_step_fst engine_apply_def split: option.splits)
  show ?case
  proof (cases "sessions E i = Some s")
    case True
    with apply_step idle show ?thesis by simp
  next
    case False
    with apply_step.hyps(2) apply_step.prems(1) consider
      "sessions E (session_id e) = None" "s = start_session e"
      | t where "sessions E (session_id e) = Some t" "s = apply_session (idle_timeout E) t e"
      by (auto simp: engine_step_fst engine_apply_def split: option.splits if_splits)
    then show ?thesis
    proof cases
      case (2 t)
      then have "live_state (idle_timeout E) t" using apply_step by blast
      with 2 wf idle show ?thesis by (auto simp: wf_engine_def intro: apply_session_live)
    qed (simp add: live_state_fresh)
  qed
next
  case (work_step E j n a d st so c E')
  have idle: "idle_timeout E' = idle_timeout E"
    using work_step.hyps(2) by (auto simp: engine_step_fst engine_set_work_result_def split: option.splits)
  show ?case
  proof (cases "sessions E i = Some s")
    case True
    with work_step idle show ?thesis by simp
  next
    case False
    with work_step.hyps(2) work_step.prems(1) obtain t jvs where
      "sessions E j = Some t" "update_sequence n (set_work a d st so c) (st_intervals t) = Some jvs"
      "s = t\<lparr>st_intervals := jvs\<rparr>"
      by (auto simp: engine_step_fst engine_set_work_result_def split: option.splits if_splits)
    with work_step idle show ?thesis
      by (auto intro!: live_state_shape update_sequence_shape)
  qed
qed

section \<open>Concrete events for the witnesses\<close>

definition sample_event :: "string \<Rightarrow> event_type \<Rightarrow> gotime \<Rightarrow> string \<Rightarrow> event" where
  "sample_event i k t p =
     zero_event\<lparr>schema_version := ''1.0'', event_id := i, session_id := ''s'',
       source_type := Source_native_hook, source_confidence := Conf_exact, event_type := k,
       timestamp := t, ev_path := p, ev_operation := ''op''\<rparr>"

lemma sample_event_simps [simp]:
  "schema_version (sample_event i k t p) = ''1.0''" "event_id (sample_event i k t p) = i"
  "session_id (sample_event i k t p) = ''s''"
  "source_type (sample_event i k t p) = Source_native_hook"
  "source_confidence (sample_event i k t p) = Conf_exact"
  "event_type (sample_event i k t p) = k" "timestamp (sample_event i k t p) = t"
  "ev_path (sample_event i k t p) = p" "previous_path (sample_event i k t p) = []"
  "ev_operation (sample_event i k t p) = ''op''" "ev_metadata (sample_event i k t p) = []"
  "monotonic_timestamp (sample_event i k t p) = 0"
  "lines_added (sample_event i k t p) = None" "lines_deleted (sample_event i k t p) = None"
  by (simp_all add: sample_event_def zero_event_def)

definition sample_start :: event where "sample_start = sample_event ''e0'' Session_started 10 []"

text \<open>A session that started at 10, read one file at 20 and another at 50.\<close>

definition sample_state :: state where
  "sample_state = apply_session 100 (apply_session 100 (start_session sample_start)
     (sample_event ''e1'' File_read 20 ''a'')) (sample_event ''e2'' File_read 50 ''b'')"

definition sample_engine :: engine where
  "sample_engine = (new_engine 100)\<lparr>sessions := [''s'' \<mapsto> sample_state]\<rparr>"

lemmas apply_unfold =
  apply_session_def follow_rename_def switch_focus_def continue_focus_def close_current_def
  set_current_def set_active_def open_interval_def current_def focus_priority_def Let_def

lemma sample_state_eq:
  "st_intervals sample_state =
     [(open_interval (start_session sample_start) (sample_event ''e1'' File_read 20 ''a''))
        \<lparr>iv_ended_at := Some 50, iv_duration := 30\<rparr>,
      (open_interval (start_session sample_start) (sample_event ''e2'' File_read 50 ''b''))
        \<lparr>iv_sequence := 2\<rparr>]"
  "st_current_timestamp sample_state = 50" "st_stopped_at sample_state = None"
  "st_paused sample_state = False" "st_session_id sample_state = ''s''"
  "st_active_path sample_state = ''b''"
  by (simp_all add: sample_state_def apply_unfold start_session_def zero_state_def sample_start_def
      time_sub_def append_unique_def)

lemma sample_engine_run: "live_run 100 sample_engine"
proof -
  let ?E1 = "(new_engine 100)\<lparr>sessions := [''s'' \<mapsto> start_session sample_start]\<rparr>"
  let ?s2 = "apply_session 100 (start_session sample_start) (sample_event ''e1'' File_read 20 ''a'')"
  let ?E2 = "(new_engine 100)\<lparr>sessions := [''s'' \<mapsto> ?s2]\<rparr>"
  have 1: "engine_step (new_engine 100) (Op_apply sample_start) ?E1"
    by (simp add: engine_step_fst engine_apply_def sample_start_def new_engine_def)
  have 2: "engine_step ?E1 (Op_apply (sample_event ''e1'' File_read 20 ''a'')) ?E2"
    by (simp add: engine_step_fst engine_apply_def new_engine_def)
  have 3: "engine_step ?E2 (Op_apply (sample_event ''e2'' File_read 50 ''b'')) sample_engine"
    by (simp add: engine_step_fst engine_apply_def new_engine_def sample_engine_def sample_state_def)
  show ?thesis
    by (rule live_run.apply_step [OF live_run.apply_step [OF live_run.apply_step [OF live_run.init 1] 2] 3])
qed

lemma engine_sequences:
  assumes "engine_reachable idle E" and "idle \<le> int64_max" and "sessions E i = Some s"
  shows "map iv_sequence (st_intervals s) = map int [1..<Suc (length (st_intervals s))]"
  using reachable_wf [OF assms(1,2)] assms(3)
  by (auto simp: wf_engine_def ok_state_def wf_state_def wf_intervals_def simp del: upt_Suc)

definition sample_stopped :: state where
  "sample_stopped = apply_session 100 sample_state (sample_event ''e3'' Session_stopped 70 [])"

definition sample_stopped_engine :: engine where
  "sample_stopped_engine = (new_engine 100)\<lparr>sessions := [''s'' \<mapsto> sample_stopped]\<rparr>"

lemma sample_stopped_run: "live_run 100 sample_stopped_engine"
  by (rule live_run.apply_step [OF sample_engine_run, of "sample_event ''e3'' Session_stopped 70 []"])
    (simp add: engine_step_fst engine_apply_def new_engine_def sample_engine_def
      sample_stopped_engine_def sample_stopped_def)

lemma sample_stopped_at: "st_stopped_at sample_stopped = Some 70"
  by (simp add: sample_stopped_def apply_session_def sample_state_eq)

section \<open>Properties of the session engine\<close>

text \<open>C2: in every engine the methods can reach, in any order of calls, a session's access
  intervals are numbered 1, 2, 3, ...; all but the last are closed, and all are once the session
  is paused or stopped; a closed interval ends within the idle timeout of its start and its
  duration is exactly the difference; the active path is the path of the last interval.\<close>

theorem engine_sessions_well_formed:
  assumes "engine_reachable idle E" and "idle \<le> int64_max" and "sessions E i = Some s"
  shows "st_session_id s = i \<and>
    map iv_sequence (st_intervals s) = map int [1..<Suc (length (st_intervals s))] \<and>
    list_all closed (butlast (st_intervals s)) \<and>
    (st_stopped_at s \<noteq> None \<or> st_paused s \<longrightarrow> list_all closed (st_intervals s)) \<and>
    (\<forall>iv \<in> set (st_intervals s). \<forall>t. iv_ended_at iv = Some t \<longrightarrow>
       iv_started_at iv \<le> t \<and> t \<le> iv_started_at iv + idle_timeout E \<and>
       iv_duration iv = t - iv_started_at iv) \<and>
    st_active_path s = (case current s of None \<Rightarrow> [] | Some c \<Rightarrow> iv_path c)"
proof -
  from reachable_wf [OF assms(1,2)] assms(3)
  have i: "st_session_id s = i" and ok: "ok_state (idle_timeout E) s" by (auto simp: wf_engine_def)
  from ok have "list_all (wf_interval (idle_timeout E)) (st_intervals s)"
    by (simp add: ok_state_def wf_state_def wf_intervals_def)
  then have "\<forall>iv \<in> set (st_intervals s). \<forall>t. iv_ended_at iv = Some t \<longrightarrow>
       iv_started_at iv \<le> t \<and> t \<le> iv_started_at iv + idle_timeout E \<and>
       iv_duration iv = t - iv_started_at iv"
    by (auto simp: list_all_iff wf_interval_def)
  with i ok show ?thesis by (simp add: ok_state_def wf_state_def wf_intervals_def)
qed

theorem engine_sessions_well_formed_witness:
  "engine_reachable 100 sample_engine \<and> sessions sample_engine ''s'' = Some sample_state \<and>
   map iv_sequence (st_intervals sample_state) = [1, 2] \<and>
   list_all closed (butlast (st_intervals sample_state)) \<and>
   st_active_path sample_state = ''b''"
proof -
  have s: "sessions sample_engine ''s'' = Some sample_state" by (simp add: sample_engine_def)
  have r: "engine_reachable 100 sample_engine" by (rule live_run_reachable [OF sample_engine_run])
  show ?thesis
    using s r engine_sessions_well_formed [OF r _ s] by (simp add: sample_state_eq)
qed

text \<open>C1: observed time is never counted twice.  In a live run the intervals of a session do
  not overlap: each one is closed no later than the next one starts.  So the durations of a
  stopped session add up to at most the time from its first access to its last.\<close>

theorem live_time_accounting:
  assumes "live_run idle E" and "idle \<le> int64_max" and "sessions E i = Some s"
  shows "(\<forall>k. Suc k < length (st_intervals s) \<longrightarrow> (\<exists>t. iv_ended_at (st_intervals s ! k) = Some t \<and>
             t \<le> iv_started_at (st_intervals s ! Suc k))) \<and>
         (st_stopped_at s \<noteq> None \<longrightarrow> st_intervals s \<noteq> [] \<longrightarrow>
           sum_list (map iv_duration (st_intervals s)) \<le>
             the (iv_ended_at (last (st_intervals s))) - iv_started_at (hd (st_intervals s)))"
proof -
  have live: "live_state (idle_timeout E) s" by (rule live_run_state [OF assms])
  then have ch: "chained (spans (st_intervals s))" and ok: "ok_state (idle_timeout E) s"
    by (simp_all add: live_state_def)
  have step: "Suc k < length xs \<Longrightarrow> chained xs \<Longrightarrow> \<exists>t. snd (xs ! k) = Some t \<and> t \<le> fst (xs ! Suc k)" for xs k
  proof (induction xs arbitrary: k rule: chained.induct)
    case (1 t u t' u' xs)
    then show ?case by (cases k) auto
  qed auto
  have no_overlap: "\<exists>t. iv_ended_at (st_intervals s ! k) = Some t \<and> t \<le> iv_started_at (st_intervals s ! Suc k)"
    if "Suc k < length (st_intervals s)" for k
    using step [of k "spans (st_intervals s)"] ch that by (simp add: spans_def)
  have total: "sum_list (map iv_duration (st_intervals s)) \<le>
      the (iv_ended_at (last (st_intervals s))) - iv_started_at (hd (st_intervals s))"
    if st: "st_stopped_at s \<noteq> None" and ne: "st_intervals s \<noteq> []"
  proof -
  have cl: "list_all closed (st_intervals s)" and wfi: "list_all (wf_interval (idle_timeout E)) (st_intervals s)"
    using ok st by (simp_all add: ok_state_def wf_state_def wf_intervals_def)
  have dur: "map span_length (spans (st_intervals s)) = map iv_duration (st_intervals s)"
    using cl wfi by (fastforce simp: spans_def list_all_iff closed_def wf_interval_def)
  have ord: "\<forall>(t, u) \<in> set (spans (st_intervals s)). (case u of None \<Rightarrow> True | Some v \<Rightarrow> t \<le> v)"
    using wfi by (auto simp: spans_def list_all_iff wf_interval_def split: option.splits)
  have sp: "spans (st_intervals s) \<noteq> []" using ne by (simp add: spans_def)
  obtain u where "iv_ended_at (last (st_intervals s)) = Some u"
    using cl last_in_set [OF ne] by (auto simp: list_all_iff closed_def)
  then have "span_end (last (spans (st_intervals s))) = the (iv_ended_at (last (st_intervals s)))"
    using ne by (simp add: spans_def last_map)
  moreover have "fst (hd (spans (st_intervals s))) = iv_started_at (hd (st_intervals s))"
    using ne by (simp add: spans_def hd_map)
  ultimately show ?thesis using chained_total [OF ch ord sp] dur by simp
  qed
  from no_overlap total show ?thesis by blast
qed

theorem live_time_accounting_witness:
  "Suc 0 < length (st_intervals sample_state) \<and>
   (\<exists>t. iv_ended_at (st_intervals sample_state ! 0) = Some t \<and>
        t \<le> iv_started_at (st_intervals sample_state ! Suc 0))"
proof -
  have s: "sessions sample_engine ''s'' = Some sample_state" by (simp add: sample_engine_def)
  have "Suc 0 < length (st_intervals sample_state)" by (simp add: sample_state_eq)
  with live_time_accounting [OF sample_engine_run _ s] show ?thesis by simp
qed

text \<open>Late delivery never rolls the live view back.  An event older than the session's
  current instant changes nothing: the engine is the same and the caller gets the state as it
  was.\<close>

theorem late_event_ignored:
  assumes "sessions E (session_id e) = Some s" and "session_id e \<noteq> []"
    and "timestamp e < st_current_timestamp s"
  shows "engine_apply E e = (E, Inr s)"
proof -
  have "(sessions E)(session_id e \<mapsto> s) = sessions E" using assms(1) by auto
  with assms show ?thesis
    by (simp add: engine_apply_def apply_session_def put_session_def)
qed

theorem late_event_ignored_witness:
  "engine_apply sample_engine (sample_event ''late'' File_created 30 ''c'') = (sample_engine, Inr sample_state)"
  by (rule late_event_ignored) (simp_all add: sample_engine_def sample_state_eq)

text \<open>A stopped session keeps its trail.  Whatever event arrives after the stop, late,
  repeated or new, no interval is added, reopened or changed and the session stays stopped.\<close>

theorem stopped_session_frozen:
  assumes "engine_reachable idle E" and "idle \<le> int64_max"
    and "sessions E (session_id e) = Some s" and "st_stopped_at s \<noteq> None"
    and "engine_apply E e = (E', Inr s')"
  shows "st_intervals s' = st_intervals s \<and> st_stopped_at s' \<noteq> None \<and>
         st_active_path s' = st_active_path s"
proof -
  have "ok_state (idle_timeout E) s" and "st_session_id s = session_id e"
    using reachable_wf [OF assms(1,2)] assms(3) by (auto simp: wf_engine_def)
  then have "close_current (idle_timeout E) s at = s" for at
    using assms(4) by (cases rule: interval_cases [of s])
      (auto simp: close_current_none ok_state_def wf_state_def wf_intervals_def closed_def close_current_def)
  with assms(3-5) show ?thesis
    by (auto simp: engine_apply_def put_session_def apply_session_def split: if_splits)
qed

theorem stopped_session_frozen_witness:
  "\<exists>E' s'. engine_apply sample_stopped_engine (sample_event ''e4'' File_read 90 ''c'') = (E', Inr s') \<and>
     st_intervals s' = st_intervals sample_stopped \<and> st_stopped_at s' \<noteq> None"
proof -
  let ?e = "sample_event ''e4'' File_read 90 ''c''"
  have s: "sessions sample_stopped_engine (session_id ?e) = Some sample_stopped"
    by (simp add: sample_stopped_engine_def)
  then obtain E' s' where r: "engine_apply sample_stopped_engine ?e = (E', Inr s')"
    by (simp add: engine_apply_def put_session_def)
  with stopped_session_frozen [OF live_run_reachable [OF sample_stopped_run] _ s _ r]
  show ?thesis by (simp add: sample_stopped_at)
qed

end
