(* ===== verification/Session_Focus.thy ===== *)
theory Session_Focus
  imports Session_Live
begin

text \<open>
  The abstract view of a session's focus and of its trail: what \<^verbatim>\<open>Apply\<close> makes of focus
  events, stated without intervals.  A focus event replaces the view unless it is older, or as
  old and weaker; the trail is the sequence of focused paths with repetitions merged.
\<close>

section \<open>The focus view\<close>

record focus =
  fo_path :: string
  fo_operation :: string
  fo_source :: source_type
  fo_confidence :: confidence
  fo_timestamp :: gotime
  fo_priority :: int
  fo_secondary :: "string list"

definition focus_of :: "state \<Rightarrow> focus" where
  "focus_of s = \<lparr>fo_path = st_active_path s, fo_operation = st_active_operation s,
     fo_source = st_active_source s, fo_confidence = st_active_confidence s,
     fo_timestamp = st_current_timestamp s, fo_priority = st_current_priority s,
     fo_secondary = st_secondary_paths s\<rparr>"

definition event_focus :: "event \<Rightarrow> int \<Rightarrow> focus" where
  "event_focus e p = \<lparr>fo_path = ev_path e, fo_operation = ev_operation e,
     fo_source = source_type e, fo_confidence = source_confidence e,
     fo_timestamp = timestamp e, fo_priority = p,
     fo_secondary = secondary_paths (ev_metadata e)\<rparr>"

text \<open>The specification of one focus event: a comparison of (time, priority) pairs.\<close>

definition refocus :: "focus \<Rightarrow> event \<Rightarrow> int \<Rightarrow> focus" where
  "refocus f e p =
     (if (timestamp e, p) < (fo_timestamp f, fo_priority f) then f else event_focus e p)"

text \<open>Focus events other than renames and moves.\<close>

definition plain_focus :: "event \<Rightarrow> bool" where
  "plain_focus e \<longleftrightarrow> focus_priority e \<noteq> None \<and> ev_path e \<noteq> [] \<and>
     event_type e \<noteq> File_renamed \<and> event_type e \<noteq> File_moved"

definition running :: "state \<Rightarrow> bool" where
  "running s \<longleftrightarrow> st_stopped_at s = None \<and> \<not> st_paused s"

lemma plain_focus_type:
  "plain_focus e \<Longrightarrow> event_type e \<noteq> Session_stopped \<and> event_type e \<noteq> Session_started"
  by (auto simp: plain_focus_def focus_priority_def Let_def)

lemma plain_focus_rename: "plain_focus e \<Longrightarrow> follow_rename s e = s"
  by (simp add: plain_focus_def follow_rename_def)

text \<open>\<^verbatim>\<open>Apply\<close> of a plain focus event, in closed form.\<close>

lemma apply_plain:
  assumes "plain_focus e" and "running s" and p: "focus_priority e = Some p"
  shows "apply_session idle s e =
    (if (timestamp e, p) < (st_current_timestamp s, st_current_priority s) then s
     else if st_active_path s = ev_path e then continue_focus s e p else switch_focus idle s e p)"
  using assms plain_focus_type [OF assms(1)]
  by (auto simp: apply_session_def plain_focus_rename plain_focus_def running_def less_prod_def')

lemma focus_of_set_active:
  "focus_of (set_active s e p) = (event_focus e p)\<lparr>fo_path := st_active_path s\<rparr>"
  by (simp add: focus_of_def event_focus_def set_active_def)

lemma focus_of_intervals [simp]: "focus_of (s\<lparr>st_intervals := ivs\<rparr>) = focus_of s"
  by (simp add: focus_of_def)

lemma focus_of_switch: "focus_of (switch_focus idle s e p) = event_focus e p"
  by (simp add: switch_focus_def Let_def focus_of_set_active event_focus_def)

lemma focus_of_continue:
  "st_active_path s = ev_path e \<Longrightarrow> focus_of (continue_focus s e p) = event_focus e p"
  by (auto simp: continue_focus_def Let_def focus_of_set_active event_focus_def split: option.splits)

lemma apply_plain_focus:
  assumes "plain_focus e" and "running s"
  shows "focus_of (apply_session idle s e) = refocus (focus_of s) e (the (focus_priority e))"
    and "running (apply_session idle s e)"
proof -
  from assms(1) obtain p where p: "focus_priority e = Some p" by (auto simp: plain_focus_def)
  have t: "fo_timestamp (focus_of s) = st_current_timestamp s"
    "fo_priority (focus_of s) = st_current_priority s" by (simp_all add: focus_of_def)
  show "focus_of (apply_session idle s e) = refocus (focus_of s) e (the (focus_priority e))"
    unfolding apply_plain [OF assms p] p option.sel refocus_def t
    by (simp add: focus_of_continue focus_of_switch)
  show "running (apply_session idle s e)"
    unfolding apply_plain [OF assms p] using assms(2) by (simp add: running_def)
qed

section \<open>The trail\<close>

text \<open>The paths of a session's intervals, in order.\<close>

definition trail :: "state \<Rightarrow> string list" where
  "trail s = map iv_path (st_intervals s)"

lemma trail_continue:
  assumes "live_state idle s" and "running s" and "st_active_path s = ev_path e" and "ev_path e \<noteq> []"
  shows "trail (continue_focus s e p) = trail s"
proof (cases rule: interval_cases [of s])
  case none
  with assms have False by (simp add: live_state_def ok_state_def wf_state_def)
  then show ?thesis ..
next
  case (some ivs c)
  with assms(1,2) have "iv_ended_at c = None" by (simp add: live_state_def running_def)
  with some show ?thesis by (simp add: trail_def continue_focus_def merge_delta_def)
qed

lemma trail_switch:
  assumes "live_state idle s" and "0 \<le> idle" "idle \<le> int64_max"
  shows "trail (switch_focus idle s e p) = trail s @ [ev_path e]"
proof -
  have "wf_intervals idle (st_intervals s)"
    using assms(1) by (simp add: live_state_def ok_state_def wf_state_def)
  from close_current_wf(4) [OF this assms(2,3), of "timestamp e"] show ?thesis
    by (simp add: trail_def switch_focus_def Let_def open_interval_def)
qed

lemma trail_last:
  assumes "ok_state idle s"
  shows "st_active_path s = (if trail s = [] then [] else last (trail s))"
  using assms by (cases rule: interval_cases [of s]) (simp_all add: trail_def ok_state_def wf_state_def)

fun apply_all :: "duration \<Rightarrow> state \<Rightarrow> event list \<Rightarrow> state" where
  "apply_all idle s [] = s"
| "apply_all idle s (e # es) = apply_all idle (apply_session idle s e) es"

lemma remdups_adj_step:
  "remdups_adj (xs @ [y]) =
     (if xs \<noteq> [] \<and> last xs = y then remdups_adj xs else remdups_adj xs @ [y])"
proof (cases xs rule: rev_exhaust)
  case (snoc ys x)
  then show ?thesis using remdups_adj_append_two [of ys x y] by auto
qed simp

lemma last_remdups_adj: "last (remdups_adj xs) = last xs"
  by (induction xs rule: remdups_adj.induct) auto

text \<open>The visits a run of events makes, told by the view alone: each event that takes the focus is a visit of its
  path, and a stop ends the visits.\<close>

fun focus_visits :: "focus \<Rightarrow> event list \<Rightarrow> string list" where
  "focus_visits f [] = []"
| "focus_visits f (e # es) =
     (if timestamp e < fo_timestamp f then focus_visits f es
      else if event_type e = Session_stopped then []
      else case focus_priority e of
        None \<Rightarrow> focus_visits f es
      | Some p \<Rightarrow>
          if ev_path e = [] \<or> (timestamp e, p) < (fo_timestamp f, fo_priority f) then focus_visits f es
          else ev_path e # focus_visits (refocus f e p) es)"

lemma focus_visits_ordered:
  "\<forall>e \<in> set es. plain_focus e \<Longrightarrow> sorted_wrt (<) (fo_timestamp f # map timestamp es) \<Longrightarrow>
   focus_visits f es = map ev_path es"
proof (induction es arbitrary: f)
  case (Cons e es)
  then obtain p where p: "focus_priority e = Some p" "ev_path e \<noteq> []" "fo_timestamp f < timestamp e"
    by (auto simp: plain_focus_def)
  then have "refocus f e p = event_focus e p" by (simp add: refocus_def less_prod_def')
  then show ?case
    using Cons.IH [of "refocus f e p"] Cons.prems p plain_focus_type [of e] by (auto simp: event_focus_def less_prod_def')
qed simp

definition no_rename :: "event \<Rightarrow> bool" where
  "no_rename e \<longleftrightarrow> event_type e \<noteq> File_renamed \<and> event_type e \<noteq> File_moved"

lemma trail_stop:
  assumes "live_state idle s" and "0 \<le> idle" "idle \<le> int64_max"
  shows "trail (close_current idle s t) = trail s"
proof -
  have "wf_intervals idle (st_intervals s)"
    using assms(1) by (simp add: live_state_def ok_state_def wf_state_def)
  from close_current_wf(4) [OF this assms(2,3), of t] show ?thesis by (simp add: trail_def)
qed

lemma stopped_trail:
  assumes "live_state idle s" and "st_stopped_at s \<noteq> None" and "0 \<le> idle" "idle \<le> int64_max"
  shows "trail (apply_all idle s es) = trail s"
  using assms
proof (induction es arbitrary: s)
  case (Cons e es)
  let ?s = "apply_session idle s e"
  have "trail ?s = trail s" "st_stopped_at ?s \<noteq> None"
    using Cons.prems trail_stop [of idle s "timestamp e"] by (auto simp: apply_session_def trail_def)
  with Cons.IH [of ?s] Cons.prems apply_session_live [OF Cons.prems(1,3,4), of e] show ?case by simp
qed simp

lemma apply_no_focus:
  assumes "no_rename e" and "running s" and "event_type e \<noteq> Session_stopped" and "focus_priority e = None \<or> ev_path e = []"
  shows "apply_session idle s e = s"
  using assms by (auto simp: apply_session_def no_rename_def follow_rename_def running_def Let_def split: option.splits)

lemma apply_all_trail:
  assumes "live_state idle s" and "running s" and "0 \<le> idle" "idle \<le> int64_max"
    and "\<forall>e \<in> set es. no_rename e" and "trail s = remdups_adj ps"
  shows "trail (apply_all idle s es) = remdups_adj (ps @ focus_visits (focus_of s) es)"
  using assms
proof (induction es arbitrary: s ps)
  case (Cons e es)
  let ?s = "apply_session idle s e"
  note live = apply_session_live [OF Cons.prems(1,3,4)]
  have view: "fo_timestamp (focus_of s) = st_current_timestamp s" "fo_priority (focus_of s) = st_current_priority s"
    by (simp_all add: focus_of_def)
  have nr: "no_rename e" using Cons.prems(5) by simp
  have kept: ?case if "?s = s" "focus_visits (focus_of s) (e # es) = focus_visits (focus_of s) es"
    using Cons.IH [OF Cons.prems(1-4) _ Cons.prems(6)] Cons.prems(5) that by simp
  consider (late) "timestamp e < st_current_timestamp s"
    | (stop) "\<not> timestamp e < st_current_timestamp s" "event_type e = Session_stopped"
    | (other) "\<not> timestamp e < st_current_timestamp s" "event_type e \<noteq> Session_stopped" "focus_priority e = None \<or> ev_path e = []"
    | (focus) p where "\<not> timestamp e < st_current_timestamp s" "plain_focus e" "focus_priority e = Some p"
    using nr by (cases "focus_priority e"; cases "ev_path e = []"; cases "event_type e = Session_stopped") (auto simp: plain_focus_def no_rename_def)
  then show ?case
  proof cases
    case late
    then show ?thesis by (intro kept) (simp_all add: view apply_session_def)
  next
    case stop
    then have "st_stopped_at ?s \<noteq> None" "trail ?s = trail s"
      using trail_stop [OF Cons.prems(1,3,4), of "timestamp e"] by (simp_all add: apply_session_def trail_def)
    with stopped_trail [OF live _ Cons.prems(3,4)] stop Cons.prems(6) show ?thesis by (simp add: view)
  next
    case other
    with apply_no_focus [OF nr Cons.prems(2)] show ?thesis by (intro kept) (auto simp: view split: option.splits)
  next
    case focus
    have ne: "ev_path e \<noteq> []" and ty: "event_type e \<noteq> Session_stopped"
      using focus(2) plain_focus_type [of e] by (auto simp: plain_focus_def)
    show ?thesis
    proof (cases "(timestamp e, p) < (st_current_timestamp s, st_current_priority s)")
      case True
      with focus ty show ?thesis by (intro kept) (simp_all add: apply_plain [OF focus(2) Cons.prems(2) focus(3)] view)
    next
      case False
      then have eq: "?s = (if st_active_path s = ev_path e then continue_focus s e p else switch_focus idle s e p)"
        by (simp only: apply_plain [OF focus(2) Cons.prems(2) focus(3)] if_False)
      have ok: "ok_state idle s" using Cons.prems(1) by (simp add: live_state_def)
      have "trail ?s = remdups_adj (ps @ [ev_path e])"
        unfolding eq remdups_adj_step
        using trail_continue [OF Cons.prems(1,2)] trail_switch [OF Cons.prems(1,3,4)]
          trail_last [OF ok] ne Cons.prems(6) last_remdups_adj [of ps] by auto
      from Cons.IH [OF live apply_plain_focus(2) [OF focus(2) Cons.prems(2)] Cons.prems(3,4) _ this] Cons.prems(5)
      show ?thesis
        using apply_plain_focus(1) [OF focus(2) Cons.prems(2)] False focus ne ty by (auto simp: view)
    qed
  qed
qed simp

section \<open>Properties\<close>

text \<open>Two focus events of the same instant commute.  Whichever is delivered first, the
  session ends up focused on the one with the higher evidence priority, with its operation,
  source, confidence and secondary paths.\<close>

theorem focus_tie_order_independent:
  assumes "running s" and "plain_focus e1" and "plain_focus e2"
    and "timestamp e1 = timestamp e2" and "focus_priority e1 \<noteq> focus_priority e2"
  shows "focus_of (apply_session idle (apply_session idle s e1) e2) =
         focus_of (apply_session idle (apply_session idle s e2) e1)"
proof -
  let ?p1 = "the (focus_priority e1)" and ?p2 = "the (focus_priority e2)"
  have "?p1 \<noteq> ?p2" using assms(2,3,5) by (auto simp: plain_focus_def)
  then have "refocus (refocus f e1 ?p1) e2 ?p2 = refocus (refocus f e2 ?p2) e1 ?p1" for f
    using assms(4) by (auto simp: refocus_def event_focus_def less_prod_def')
  then show ?thesis using assms(1-3) by (simp add: apply_plain_focus)
qed

theorem focus_tie_order_independent_witness:
  "focus_of (apply_session 100 (apply_session 100 sample_state
     (sample_event ''e3'' File_read 60 ''r'')) (sample_event ''e4'' File_patched 60 ''w'')) =
   focus_of (apply_session 100 (apply_session 100 sample_state
     (sample_event ''e4'' File_patched 60 ''w'')) (sample_event ''e3'' File_read 60 ''r''))"
  by (rule focus_tie_order_independent)
    (simp_all add: running_def sample_state_eq plain_focus_def focus_priority_def)

text \<open>C3: without renames and moves, the trail of a session is its focus history.  Any events but renames and moves, in any order,
  applied to a fresh session leave exactly the sequence of the paths that took the focus, with immediate repetitions merged:
  one interval per visit, none lost and none split.  An event takes the focus when it is not older than the focus it finds, nor
  as old and weaker, and the session has not been stopped; focus events in increasing order of time all do.\<close>

theorem trail_is_focus_history:
  assumes "0 \<le> idle" and "idle \<le> int64_max" and "\<forall>e \<in> set es. no_rename e"
  shows "trail (apply_all idle (start_session start) es) = remdups_adj (focus_visits (focus_of (start_session start)) es) \<and>
    ((\<forall>e \<in> set es. plain_focus e) \<and> sorted_wrt (<) (timestamp start # map timestamp es) \<longrightarrow>
      trail (apply_all idle (start_session start) es) = remdups_adj (map ev_path es))"
proof -
  have "trail (start_session start) = remdups_adj []"
    by (simp add: trail_def start_session_def zero_state_def)
  moreover have "running (start_session start)"
    by (simp add: running_def start_session_def zero_state_def)
  ultimately have all: "trail (apply_all idle (start_session start) es) =
      remdups_adj (focus_visits (focus_of (start_session start)) es)"
    using apply_all_trail [OF live_state_fresh _ assms, of start "[]"] by simp
  have "fo_timestamp (focus_of (start_session start)) = timestamp start"
    by (simp add: start_session_def focus_of_def)
  with all show ?thesis by (simp add: focus_visits_ordered)
qed

text \<open>A second visit of one file, a visit that comes too late, one that is weaker than another of its instant, and one after the stop.\<close>

theorem trail_is_focus_history_witness:
  "trail (apply_all 100 (start_session sample_start)
     [sample_event ''e1'' File_read 20 ''a'', sample_event ''e2'' File_patched 30 ''a'', sample_event ''e3'' File_read 15 ''c'',
      sample_event ''e4'' File_read 40 ''b'', sample_event ''e5'' Directory_created 45 ''d'', sample_event ''e6'' File_deleted 50 ''a'',
      sample_event ''e7'' File_read 50 ''b'', sample_event ''e8'' Session_stopped 60 [], sample_event ''e9'' File_read 70 ''b'']) =
   [''a'', ''b'', ''a''] \<and>
   trail (apply_all 100 (start_session sample_start) [sample_event ''e1'' File_read 20 ''a'', sample_event ''e4'' File_read 40 ''b'']) = [''a'', ''b'']"
proof (intro conjI)
  note s = no_rename_def focus_of_def start_session_def zero_state_def sample_start_def refocus_def event_focus_def less_prod_def' focus_priority_def
  show "trail (apply_all 100 (start_session sample_start)
     [sample_event ''e1'' File_read 20 ''a'', sample_event ''e2'' File_patched 30 ''a'', sample_event ''e3'' File_read 15 ''c'',
      sample_event ''e4'' File_read 40 ''b'', sample_event ''e5'' Directory_created 45 ''d'', sample_event ''e6'' File_deleted 50 ''a'',
      sample_event ''e7'' File_read 50 ''b'', sample_event ''e8'' Session_stopped 60 [], sample_event ''e9'' File_read 70 ''b'']) =
    [''a'', ''b'', ''a'']"
    by (subst trail_is_focus_history [THEN conjunct1]) (simp_all add: s)
  show "trail (apply_all 100 (start_session sample_start) [sample_event ''e1'' File_read 20 ''a'', sample_event ''e4'' File_read 40 ''b'']) =
    [''a'', ''b'']"
    by (subst trail_is_focus_history [THEN conjunct2, THEN mp]) (simp_all add: s plain_focus_def)
qed

text \<open>C5: the result of a diff reaches exactly the access it was computed for.  In a reachable
  engine \<^verbatim>\<open>SetWorkResult\<close> with sequence number \<open>n\<close> writes the five work fields of interval
  number \<open>n\<close> and nothing else, and reports an unknown interval, changing nothing, when there
  is none.\<close>

theorem set_work_result_exact:
  assumes "engine_reachable idle E" and "idle \<le> int64_max" and "sessions E i = Some s"
  shows "engine_set_work_result E i n added deleted status source conf =
    (if 1 \<le> n \<and> n \<le> int (length (st_intervals s))
     then (let k = nat (n - 1);
               s' = s\<lparr>st_intervals := (st_intervals s)
                  [k := set_work added deleted status source conf (st_intervals s ! k)]\<rparr>
           in (E\<lparr>sessions := (sessions E)(i \<mapsto> s')\<rparr>, Inr s'))
     else (E, Inl Unknown_interval))"
proof -
  let ?ivs = "st_intervals s" and ?f = "set_work added deleted status source conf"
  have "map iv_sequence ?ivs = map int [1..<Suc (length ?ivs)]"
    by (rule engine_sequences [OF assms])
  then have seq: "iv_sequence (?ivs ! k) = int k + 1" if "k < length ?ivs" for k
  proof -
    have "map iv_sequence ?ivs ! k = map int [1..<Suc (length ?ivs)] ! k"
      by (simp only: \<open>map iv_sequence ?ivs = _\<close>)
    with that show ?thesis by (simp del: upt_Suc)
  qed
  show ?thesis
  proof (cases "update_sequence n ?f ?ivs")
    case None
    then have no: "n \<notin> iv_sequence ` set ?ivs" by (simp add: update_sequence_None)
    have "\<not> (1 \<le> n \<and> n \<le> int (length ?ivs))"
    proof
      assume n: "1 \<le> n \<and> n \<le> int (length ?ivs)"
      then have "nat (n - 1) < length ?ivs" by linarith
      then have "iv_sequence (?ivs ! nat (n - 1)) = n" "?ivs ! nat (n - 1) \<in> set ?ivs"
        using seq n by auto
      with no show False by (metis imageI)
    qed
    with None assms(3) show ?thesis by (auto simp: engine_set_work_result_def)
  next
    case (Some jvs)
    from update_sequence_spec [OF Some] obtain k where k: "k < length ?ivs"
      "iv_sequence (?ivs ! k) = n" "jvs = ?ivs[k := ?f (?ivs ! k)]" by blast
    then have "n = int k + 1" using seq by simp
    with k Some assms(3) show ?thesis
      by (simp add: engine_set_work_result_def put_session_def Let_def)
  qed
qed

theorem set_work_result_exact_witness:
  "engine_set_work_result sample_engine ''s'' 2 (Some 3) (Some 1) ''known'' ''git_numstat'' Conf_correlated =
   (let s' = sample_state\<lparr>st_intervals := (st_intervals sample_state)
       [1 := set_work (Some 3) (Some 1) ''known'' ''git_numstat'' Conf_correlated (st_intervals sample_state ! 1)]\<rparr>
    in (sample_engine\<lparr>sessions := (sessions sample_engine)(''s'' \<mapsto> s')\<rparr>, Inr s'))"
proof -
  have "sessions sample_engine ''s'' = Some sample_state" by (simp add: sample_engine_def)
  from set_work_result_exact [OF live_run_reachable [OF sample_engine_run] _ this] show ?thesis
    by (simp add: sample_state_eq Let_def)
qed

end
