(* ===== verification/Event_Order.thy ===== *)
theory Event_Order
  imports Protocol
begin

text \<open>
  The canonical order of a session's events.  \<^verbatim>\<open>internal/store/store.go\<close> (\<^verbatim>\<open>eventLess\<close>,
  \<^verbatim>\<open>lifecycleRank\<close>) and \<^verbatim>\<open>internal/replay/replay.go\<close> (the comparison in
  \<^verbatim>\<open>canonicalEvents\<close>, \<^verbatim>\<open>replayRank\<close>) each spell it out; both are the strict order of one
  key: life-cycle rank, instant, monotonic reading (0 means none and comes last), event id.
\<close>

section \<open>The store's comparison\<close>

definition lifecycle_rank :: "event_type \<Rightarrow> int" where
  "lifecycle_rank t =
     (case t of Session_started \<Rightarrow> 0 | Session_stopped \<Rightarrow> 2 | _ \<Rightarrow> 1)"

definition event_less :: "event \<Rightarrow> event \<Rightarrow> bool" where
  "event_less l r =
     (let lr = lifecycle_rank (event_type l); rr = lifecycle_rank (event_type r) in
      if lr \<noteq> rr then lr < rr
      else if timestamp l \<noteq> timestamp r then timestamp l < timestamp r
      else if monotonic_timestamp l \<noteq> monotonic_timestamp r then
        (if monotonic_timestamp l = 0 then False
         else if monotonic_timestamp r = 0 then True
         else monotonic_timestamp l < monotonic_timestamp r)
      else event_id l < event_id r)"

section \<open>The replay's comparison\<close>

definition replay_rank :: "event_type \<Rightarrow> int" where
  "replay_rank t =
     (case t of Session_started \<Rightarrow> 0 | Session_stopped \<Rightarrow> 2 | _ \<Rightarrow> 1)"

definition replay_less :: "event \<Rightarrow> event \<Rightarrow> bool" where
  "replay_less l r =
     (let lr = replay_rank (event_type l); rr = replay_rank (event_type r) in
      if lr \<noteq> rr then lr < rr
      else if timestamp l \<noteq> timestamp r then timestamp l < timestamp r
      else if monotonic_timestamp l \<noteq> monotonic_timestamp r then
        (if monotonic_timestamp l = 0 then False
         else if monotonic_timestamp r = 0 then True
         else monotonic_timestamp l < monotonic_timestamp r)
      else event_id l < event_id r)"

section \<open>One key for both\<close>

definition event_key :: "event \<Rightarrow> int \<times> gotime \<times> nat \<times> int \<times> string" where
  "event_key e = (lifecycle_rank (event_type e), timestamp e,
     (if monotonic_timestamp e = 0 then 1 else 0), monotonic_timestamp e, event_id e)"

lemma replay_rank_eq: "replay_rank t = lifecycle_rank t"
  by (cases t) (simp_all add: replay_rank_def lifecycle_rank_def)

lemma replay_less_eq: "replay_less = event_less"
  by (intro ext) (simp add: replay_less_def event_less_def replay_rank_eq)

interpretation event_sort: keyed_less event_less event_key
  by unfold_locales (auto simp: event_less_def event_key_def Let_def less_prod_def')

interpretation replay_sort: keyed_less replay_less event_key
  by unfold_locales (simp add: replay_less_eq event_sort.lt_key)

lemma event_key_id: "event_key e = event_key f \<Longrightarrow> event_id e = event_id f"
  by (simp add: event_key_def)

lemma distinct_event_keys: "distinct (map event_id es) \<Longrightarrow> distinct (map event_key es)"
  by (auto simp: distinct_map inj_on_def dest: event_key_id)

end
