(* ===== verification/Replay.thy ===== *)
theory Replay
  imports Event_Order Session_Focus
begin

text \<open>
  \<^verbatim>\<open>internal/replay/replay.go\<close>: rebuilding a session from its persisted events, up to a
  cursor.  The loop runs the session engine of \<^verbatim>\<open>Session\<close> on the canonical event sequence.
\<close>

record snapshot =
  sn_state :: state
  sn_cursor :: int
  sn_cursor_at :: gotime
  sn_event_count :: int

datatype replay_error =
    Invalid_event verror
  | Sequence_required
  | Engine_failure engine_error
  | Start_missing

section \<open>Definitions\<close>

text \<open>
  \<^verbatim>\<open>canonicalEvents\<close>: the first event of each id, sorted.  The code collects them by ranging
  over a map; \<open>canonical_any_order\<close> below shows the order of that range is immaterial.
\<close>

definition canonical_events :: "event list \<Rightarrow> event list" where
  "canonical_events es = sort_slice replay_less (keep_first event_id {} es)"

text \<open>
  \<^verbatim>\<open>int(value)\<close> for a float without fraction: its exact value has at most 53 significant
  bits, the nearest such number to the decimal that denotes it.
\<close>

fun bit_len :: "nat \<Rightarrow> nat" where
  "bit_len n = (if n = 0 then 0 else Suc (bit_len (n div 2)))"

declare bit_len.simps [simp del]

definition round53 :: "nat \<Rightarrow> nat" where
  "round53 n =
     (let b = bit_len n - 53; q = n div 2 ^ b; r = n mod 2 ^ b in
      (if b = 0 then n
       else (if 2 ^ (b - 1) < r \<or> r = 2 ^ (b - 1) \<and> odd q then q + 1 else q) * 2 ^ b))"

definition float_int :: "gofloat \<Rightarrow> int option" where
  "float_int f = (case f of
     FNum neg d x \<Rightarrow>
       if float_integral f then
         let n = int (round53 (if 0 \<le> x then d * 10 ^ nat x else d div 10 ^ nat (- x)));
             v = (if neg then - n else n)
         in if int64_min \<le> v \<and> v \<le> int64_max then Some v else None
       else None
   | _ \<Rightarrow> None)"

definition metadata_int :: "metadata \<Rightarrow> string \<Rightarrow> int option" where
  "metadata_int md key =
     (case map_of md key of
        Some (MInt i) \<Rightarrow> Some i
      | Some (MFloat64 f) \<Rightarrow> float_int f
      | _ \<Rightarrow> None)"

definition apply_diff :: "engine \<Rightarrow> event \<Rightarrow> engine \<times> (replay_error + state)" where
  "apply_diff E e =
     (case metadata_int (ev_metadata e) ''access_sequence'' of
        None \<Rightarrow> (E, Inl Sequence_required)
      | Some n \<Rightarrow>
          if n < 1 then (E, Inl Sequence_required)
          else
            let status = (if ev_status e = [] then ''unknown'' else ev_status e);
                source = (if ev_operation e = [] then ''unknown'' else ev_operation e)
            in apsnd (map_sum Engine_failure id)
                 (engine_set_work_result E (session_id e) n (lines_added e) (lines_deleted e)
                    status source (source_confidence e)))"

definition replay_event :: "engine \<Rightarrow> event \<Rightarrow> engine \<times> (replay_error + state)" where
  "replay_event E e =
     (if event_type e = Diff_calculated then apply_diff E e
      else apsnd (map_sum Engine_failure id) (engine_apply E e))"

fun replay_steps :: "engine \<Rightarrow> state \<Rightarrow> gotime \<Rightarrow> event list \<Rightarrow>
    replay_error + engine \<times> state \<times> gotime" where
  "replay_steps E s at [] = Inr (E, s, at)"
| "replay_steps E s at (e # es) =
     (let at' = (if at < timestamp e then timestamp e else at) in
      case replay_event E e of
        (E', Inl x) \<Rightarrow> Inl x
      | (E', Inr s') \<Rightarrow> replay_steps E' s' at' es)"

definition reconstruct :: "event list \<Rightarrow> int \<Rightarrow> duration \<Rightarrow> replay_error + snapshot" where
  "reconstruct events0 cursor0 idle =
     (case first_error (map validate events0) of
        Some err \<Rightarrow> Inl (Invalid_event err)
      | None \<Rightarrow>
          let events = canonical_events events0; count = int (length events) in
          if events = [] \<or> cursor0 < 0
          then Inr \<lparr>sn_state = zero_state, sn_cursor = - 1, sn_cursor_at = 0, sn_event_count = count\<rparr>
          else
            let cursor = (if count \<le> cursor0 then count - 1 else cursor0) in
            case replay_steps (new_engine idle) zero_state 0 (take (nat cursor + 1) events) of
              Inl x \<Rightarrow> Inl x
            | Inr (E, s, at) \<Rightarrow>
                if st_session_id s = [] then Inl Start_missing
                else
                  let s' = (if st_stopped_at s = None \<and> at \<noteq> 0
                     then (case snd (engine_pause E (st_session_id s) at) of
                             Inr p \<Rightarrow> p | Inl _ \<Rightarrow> zero_state)
                     else s)
                  in Inr \<lparr>sn_state = s', sn_cursor = cursor, sn_cursor_at = at,
                          sn_event_count = count\<rparr>)"

section \<open>The canonical sequence\<close>

lemma canonical_keys: "distinct (map event_key (keep_first event_id {} es))"
  by (intro distinct_event_keys keep_first_distinct)

lemma canonical_any_order:
  "mset ys = mset (keep_first event_id {} es) \<Longrightarrow> sort_slice replay_less ys = canonical_events es"
  unfolding canonical_events_def by (rule replay_sort.sort_slice_perm) (simp_all add: canonical_keys)

lemma set_canonical: "set (canonical_events es) \<subseteq> set es"
  using keep_first_subset [of event_id "{}" es] by (simp add: canonical_events_def)

lemma keep_first_all:
  "inj_on event_id (set es) \<Longrightarrow> set (keep_first event_id {} es) = set es"
proof -
  assume inj: "inj_on event_id (set es)"
  have "event_id ` set (keep_first event_id {} es) = event_id ` set es"
    by (simp add: keep_first_keys)
  with inj keep_first_subset [of event_id "{}" es] show ?thesis
    by (metis inj_on_image_eq_iff order_refl)
qed

text \<open>Only the set of events matters, as long as an id names one event.\<close>

lemma canonical_set:
  assumes "set xs = set ys" and "inj_on event_id (set xs)"
  shows "canonical_events xs = canonical_events ys"
proof -
  let ?k = "keep_first event_id {}"
  have "set (?k xs) = set (?k ys)" using assms keep_first_all by metis
  moreover have "distinct (?k zs)" for zs
    using keep_first_distinct [of event_id "{}" zs] by (simp add: distinct_map)
  ultimately have "mset (?k xs) = mset (?k ys)"
    using set_eq_iff_mset_eq_distinct by metis
  then show ?thesis using canonical_any_order [of "?k xs" ys] by (simp add: canonical_events_def)
qed

lemma canonical_id:
  "distinct (map event_id es) \<Longrightarrow> sorted (map event_key es) \<Longrightarrow> canonical_events es = es"
  by (simp add: canonical_events_def keep_first_id replay_sort.sort_slice_id)

lemma first_error_map_None: "first_error (map validate es) = None \<longleftrightarrow> (\<forall>e \<in> set es. validate e = None)"
  by (auto simp: first_error_None)

section \<open>Engines along a replay\<close>

lemma apsnd_map_sum_Inr:
  "apsnd (map_sum f id) r = (E', Inr s) \<longleftrightarrow> r = (E', Inr s)"
  by (cases r; cases "snd r") auto

lemma replay_event_cases:
  assumes "replay_event E e = (E', Inr s)"
  obtains (work) n st so where "engine_set_work_result E (session_id e) n (lines_added e)
      (lines_deleted e) st so (source_confidence e) = (E', Inr s)"
  | (app) "engine_apply E e = (E', Inr s)"
  using assms
  by (auto simp: replay_event_def apply_diff_def Let_def apsnd_map_sum_Inr split: option.splits if_splits)

lemma replay_event_step:
  assumes "replay_event E e = (E', Inr s)" and "live_run idle E"
  shows "live_run idle E'"
  using assms(1)
proof (cases rule: replay_event_cases)
  case (work n st so)
  then have "engine_step E (Op_set_work (session_id e) n (lines_added e) (lines_deleted e) st so
      (source_confidence e)) E'" by (intro engine_step.ok) simp
  with assms(2) show ?thesis by (rule live_run.work_step)
next
  case app
  then have "engine_step E (Op_apply e) E'" by (intro engine_step.ok) simp
  with assms(2) show ?thesis by (rule live_run.apply_step)
qed

lemma replay_event_state:
  assumes "replay_event E e = (E', Inr s)" and "wf_engine E"
  shows "sessions E' (st_session_id s) = Some s"
  using assms(1)
proof (cases rule: replay_event_cases)
  case (work n st so)
  with wf_engineD [OF assms(2), of "session_id e"] show ?thesis
    by (auto simp: engine_set_work_result_def put_session_def split: option.splits)
next
  case app
  with wf_engineD [OF assms(2), of "session_id e"] show ?thesis
    by (auto simp: engine_apply_def put_session_def split: option.splits if_splits)
qed

lemma replay_steps_run:
  assumes "replay_steps E s at es = Inr (E', s', at')" and "live_run idle E" and "idle \<le> int64_max"
    and "es = [] \<Longrightarrow> sessions E (st_session_id s) = Some s"
  shows "live_run idle E' \<and> sessions E' (st_session_id s') = Some s'"
  using assms
proof (induction es arbitrary: E s at)
  case (Cons e es)
  from Cons.prems(1) obtain E1 s1 where r: "replay_event E e = (E1, Inr s1)"
    and rest: "replay_steps E1 s1 (if at < timestamp e then timestamp e else at) es = Inr (E', s', at')"
    by (auto simp: Let_def split: prod.splits sum.splits)
  have "wf_engine E" using live_run_reachable reachable_wf Cons.prems(2,3) by blast
  then have "sessions E1 (st_session_id s1) = Some s1" using r replay_event_state by blast
  with Cons.IH [OF rest replay_event_step [OF r Cons.prems(2)] Cons.prems(3)] show ?case by blast
qed simp

lemma replay_steps_at:
  "replay_steps E s at es = Inr (E', s', at') \<Longrightarrow> at \<le> at' \<and> (\<forall>e \<in> set es. timestamp e \<le> at')"
  by (induction es arbitrary: E s at) (fastforce simp: Let_def split: prod.splits sum.splits if_splits)+

lemma replay_steps_append:
  "replay_steps E s at (es @ fs) =
     (case replay_steps E s at es of Inl x \<Rightarrow> Inl x | Inr (E', s', at') \<Rightarrow> replay_steps E' s' at' fs)"
  by (induction es arbitrary: E s at) (auto simp: Let_def split: prod.splits sum.splits)

section \<open>Ends of intervals never pass the cursor's instant\<close>

definition ends_by :: "gotime \<Rightarrow> state \<Rightarrow> bool" where
  "ends_by t s \<longleftrightarrow> (\<forall>iv \<in> set (st_intervals s). iv_started_at iv \<le> t \<and> (\<forall>u. iv_ended_at iv = Some u \<longrightarrow> u \<le> t))"

lemma ends_by_mono: "ends_by t s \<Longrightarrow> t \<le> t' \<Longrightarrow> ends_by t' s"
  by (fastforce simp: ends_by_def)

lemma ends_by_spans: "ends_by t s \<longleftrightarrow> (\<forall>(a, b) \<in> set (spans (st_intervals s)). a \<le> t \<and> (\<forall>u. b = Some u \<longrightarrow> u \<le> t))"
  by (auto simp: ends_by_def spans_def)

lemma ends_by_intervals [simp]:
  "ends_by t (s\<lparr>st_stopped_at := x\<rparr>) = ends_by t s" "ends_by t (s\<lparr>st_paused := b\<rparr>) = ends_by t s"
  by (simp_all add: ends_by_def)

lemma close_current_ends:
  assumes "ends_by t s" and "0 \<le> idle" and "at \<le> t"
  shows "ends_by t (close_current idle s at)"
proof (cases rule: interval_cases [of s])
  case (some ivs c)
  show ?thesis
  proof (cases "closed c")
    case False
    then have o: "iv_ended_at c = None" by (simp add: closed_def)
    have "clip (iv_started_at c) idle at \<le> t" using assms some by (auto simp: clip_def ends_by_def)
    with assms(1) some close_current_open [OF some(1) o assms(2), of at] show ?thesis
      by (auto simp: ends_by_def)
  qed (use assms some in \<open>simp add: close_current_closed\<close>)
qed (use assms in \<open>simp add: close_current_none\<close>)

lemma follow_rename_ends: "ends_by t s \<Longrightarrow> ends_by t (follow_rename s e)"
  by (simp add: ends_by_spans follow_rename_spans)

lemma continue_focus_ends:
  "ends_by t s \<Longrightarrow> timestamp e \<le> t \<Longrightarrow> ends_by t (continue_focus s e p)"
  by (cases rule: interval_cases [of s])
    (auto simp: continue_focus_def Let_def merge_delta_def open_interval_def ends_by_def)

lemma switch_focus_ends:
  "ends_by t s \<Longrightarrow> timestamp e \<le> t \<Longrightarrow> 0 \<le> idle \<Longrightarrow> ends_by t (switch_focus idle s e p)"
  using close_current_ends [of t s idle "timestamp e"]
  by (auto simp: switch_focus_def Let_def open_interval_def ends_by_def)

lemma apply_session_ends:
  assumes "ends_by t s" and "timestamp e \<le> t" and "0 \<le> idle"
  shows "ends_by t (apply_session idle s e)"
proof (cases rule: apply_session_cases [of idle s e])
  case stop
  show ?thesis unfolding stop(3) using close_current_ends [OF assms(1,3,2)] by simp
next
  case (continue p)
  show ?thesis unfolding continue(7)
    by (rule continue_focus_ends [OF follow_rename_ends [OF assms(1)] assms(2)])
next
  case (switch p)
  show ?thesis unfolding switch(7)
    by (rule switch_focus_ends [OF follow_rename_ends [OF assms(1)] assms(2,3)])
qed (use assms follow_rename_ends in simp_all)

definition engine_ends_by :: "gotime \<Rightarrow> engine \<Rightarrow> bool" where
  "engine_ends_by t E \<longleftrightarrow> (\<forall>i s. sessions E i = Some s \<longrightarrow> ends_by t s)"

lemma ends_by_shape:
  assumes "map shape jvs = map shape (st_intervals s)"
  shows "ends_by t (s\<lparr>st_intervals := jvs\<rparr>) = ends_by t s"
proof -
  have "spans ivs = map (\<lambda>(_, _, a, b, _). (a, b)) (map shape ivs)" for ivs
    by (simp add: spans_def shape_def)
  then have "spans jvs = spans (st_intervals s)" using assms by metis
  then show ?thesis unfolding ends_by_spans by simp
qed

lemma replay_event_ends:
  assumes "replay_event E e = (E', Inr s)" and "engine_ends_by t E" and "timestamp e \<le> t"
    and "wf_engine E"
  shows "engine_ends_by t E'"
  using assms(1)
proof (cases rule: replay_event_cases)
  case (work n st so)
  then obtain r jvs where r: "sessions E (session_id e) = Some r"
    and j: "update_sequence n (set_work (lines_added e) (lines_deleted e) st so (source_confidence e))
        (st_intervals r) = Some jvs"
    and E': "E' = E\<lparr>sessions := (sessions E)(session_id e \<mapsto> r\<lparr>st_intervals := jvs\<rparr>)\<rparr>"
    by (auto simp: engine_set_work_result_def put_session_def split: option.splits)
  from assms(2) r E' show ?thesis by (simp add: engine_ends_by_def ends_by_shape [OF update_sequence_shape [OF j]])
next
  case app
  have "ends_by t (start_session e)" by (simp add: ends_by_def start_session_def zero_state_def)
  moreover have "0 \<le> idle_timeout E" using assms(4) by (simp add: wf_engine_def)
  ultimately show ?thesis using app assms(2,3)
    by (auto simp: engine_apply_def put_session_def engine_ends_by_def apply_session_ends
        split: option.splits if_splits)
qed

lemma replay_steps_ends:
  assumes "replay_steps E s at es = Inr (E', s', at')" and "engine_ends_by at E"
    and "live_run idle E" and "idle \<le> int64_max"
  shows "engine_ends_by at' E'"
  using assms
proof (induction es arbitrary: E s at)
  case (Cons e es)
  let ?at = "if at < timestamp e then timestamp e else at"
  from Cons.prems(1) obtain E1 s1 where r: "replay_event E e = (E1, Inr s1)"
    and rest: "replay_steps E1 s1 ?at es = Inr (E', s', at')"
    by (auto simp: Let_def split: prod.splits sum.splits)
  have "at \<le> ?at" by simp
  with Cons.prems(2) have "engine_ends_by ?at E" unfolding engine_ends_by_def using ends_by_mono by blast
  then have "engine_ends_by ?at E1"
    by (rule replay_event_ends [OF r _ _ reachable_wf [OF live_run_reachable [OF Cons.prems(3)] Cons.prems(4)]]) simp
  with Cons.IH [OF rest] replay_event_step [OF r Cons.prems(3)] Cons.prems(4) show ?case by blast
qed simp

end
