(* ===== verification/Replay_Props.thy ===== *)
theory Replay_Props
  imports Replay
begin

text \<open>
  What a replayed snapshot promises: it depends on the set of events only, an earlier cursor is
  not touched by later events, every cursor position of a replayable session can be shown, and
  no shown interval is open or ends after the cursor.
\<close>

section \<open>Prefixes\<close>

lemma keep_first_append:
  "keep_first key seen (xs @ ys) = keep_first key seen xs @ keep_first key (seen \<union> key ` set xs) ys"
  by (induction xs arbitrary: seen) (auto simp: insert_absorb)

lemma canonical_append:
  assumes "\<forall>e \<in> set es. \<forall>f \<in> set fs. replay_less e f"
  shows "\<exists>gs. canonical_events (es @ fs) = canonical_events es @ gs"
proof -
  let ?k = "keep_first event_id {} es" and ?l = "keep_first event_id ({} \<union> event_id ` set es) fs"
  let ?gs = "sort_slice replay_less ?l"
  have k: "keep_first event_id {} (es @ fs) = ?k @ ?l" by (simp add: keep_first_append)
  have "event_key e \<le> event_key f" if "e \<in> set ?k" "f \<in> set ?l" for e f
    using that assms keep_first_subset replay_sort.lt_key by (metis less_imp_le subsetD)
  then have "sorted (map event_key (sort_slice replay_less ?k @ ?gs))"
    using replay_sort.sorted_sort_slice by (auto simp: sorted_append)
  moreover have "distinct (map event_key (?k @ ?l))"
    using canonical_keys [of "es @ fs"] by (simp only: k)
  moreover have "mset (sort_slice replay_less ?k @ ?gs) = mset (?k @ ?l)" by simp
  ultimately have "sort_slice replay_less ?k @ ?gs = sort_slice replay_less (?k @ ?l)"
    by (intro replay_sort.sort_slice_unique) auto
  then show ?thesis unfolding canonical_events_def k by metis
qed

lemma replay_steps_prefix:
  "replay_steps E s at es = Inr r \<Longrightarrow> \<exists>r'. replay_steps E s at (take n es) = Inr r'"
proof -
  assume "replay_steps E s at es = Inr r"
  then have "replay_steps E s at (take n es @ drop n es) = Inr r" by simp
  then show ?thesis unfolding replay_steps_append by (auto split: sum.splits)
qed

lemma replay_event_id:
  assumes "replay_event E e = (E', Inr s)" and "wf_engine E"
  shows "st_session_id s = session_id e"
  using assms(1)
proof (cases rule: replay_event_cases)
  case (work n st so)
  with wf_engineD [OF assms(2), of "session_id e"] show ?thesis
    by (auto simp: engine_set_work_result_def put_session_def split: option.splits)
next
  case app
  with wf_engineD [OF assms(2), of "session_id e"] show ?thesis
    by (auto simp: engine_apply_def put_session_def split: option.splits if_splits)
qed

definition no_empty_session :: "engine \<Rightarrow> bool" where
  "no_empty_session E \<longleftrightarrow> sessions E [] = None"

lemma replay_event_no_empty:
  assumes "replay_event E e = (E', Inr s)" and "no_empty_session E"
  shows "no_empty_session E' \<and> session_id e \<noteq> []"
  using assms(1)
proof (cases rule: replay_event_cases)
  case (work n st so)
  with assms(2) show ?thesis
    by (auto simp: engine_set_work_result_def put_session_def no_empty_session_def split: option.splits)
next
  case app
  with assms(2) show ?thesis
    by (auto simp: engine_apply_def put_session_def no_empty_session_def split: option.splits if_splits)
qed

lemma replay_steps_session:
  assumes "replay_steps E s at es = Inr (E', s', at')" and "live_run idle E" and "idle \<le> int64_max"
    and "no_empty_session E" and "es \<noteq> []"
  shows "st_session_id s' \<noteq> []"
  using assms
proof (induction es arbitrary: E s at)
  case (Cons e es)
  from Cons.prems(1) obtain E1 s1 where r: "replay_event E e = (E1, Inr s1)"
    and rest: "replay_steps E1 s1 (if at < timestamp e then timestamp e else at) es = Inr (E', s', at')"
    by (auto simp: Let_def split: prod.splits sum.splits)
  note wf = reachable_wf [OF live_run_reachable [OF Cons.prems(2)] Cons.prems(3)]
  show ?case
  proof (cases es)
    case Nil
    with rest replay_event_id [OF r wf] replay_event_no_empty [OF r Cons.prems(4)] show ?thesis by simp
  next
    case (Cons f fs)
    with \<open>idle \<le> int64_max\<close> Cons.IH [OF rest replay_event_step [OF r Cons.prems(2)] Cons.prems(3)]
      replay_event_no_empty [OF r Cons.prems(4)] show ?thesis by simp
  qed
qed simp

lemma no_empty_new [simp]: "no_empty_session (new_engine idle)"
  by (simp add: no_empty_session_def new_engine_def)

text \<open>A replay succeeds exactly when the events up to the cursor do.\<close>

lemma reconstruct_steps:
  assumes "\<forall>e \<in> set es. validate e = None" and "canonical_events es \<noteq> []" and "0 \<le> c"
    and "idle \<le> int64_max"
  defines "n \<equiv> (if int (length (canonical_events es)) \<le> c then int (length (canonical_events es)) - 1 else c)"
  shows "reconstruct es c idle =
    (case replay_steps (new_engine idle) zero_state 0 (take (nat n + 1) (canonical_events es)) of
       Inl x \<Rightarrow> Inl x
     | Inr (E, s, at) \<Rightarrow> Inr \<lparr>sn_state = (if st_stopped_at s = None \<and> at \<noteq> 0
           then (close_current (idle_timeout E) s at)\<lparr>st_paused := True\<rparr> else s),
         sn_cursor = n, sn_cursor_at = at, sn_event_count = int (length (canonical_events es))\<rparr>)"
proof -
  have fe: "first_error (map validate es) = None" using assms(1) first_error_map_None by blast
  show ?thesis
  proof (cases "replay_steps (new_engine idle) zero_state 0 (take (nat n + 1) (canonical_events es))")
    case (Inl x)
    with assms(2,3) fe show ?thesis
      unfolding n_def reconstruct_def Let_def by (simp del: take_Suc)
  next
    case (Inr r)
    obtain E s at where r: "r = (E, s, at)" by (cases r) auto
    have ne: "take (nat n + 1) (canonical_events es) \<noteq> []" using assms(2) by simp
    note run = Inr [unfolded r]
    have "sessions E (st_session_id s) = Some s"
      using replay_steps_run [OF run live_run.init assms(4)] ne by blast
    moreover have "st_session_id s \<noteq> []"
      using replay_steps_session [OF run live_run.init assms(4) no_empty_new ne] .
    ultimately show ?thesis using assms(2,3) run fe
      unfolding n_def reconstruct_def Let_def by (simp add: engine_pause_def)
  qed
qed

section \<open>Snapshots\<close>

lemma pause_closed:
  assumes "ok_state idle s" and "0 \<le> idle"
  shows "list_all closed (st_intervals (close_current idle s at))"
proof (cases rule: interval_cases [of s])
  case (some ivs c)
  then have cl: "list_all closed ivs" using assms(1) by (simp add: ok_state_def wf_state_def wf_intervals_def)
  show ?thesis
  proof (cases "closed c")
    case False
    then have "iv_ended_at c = None" by (simp add: closed_def)
    with cl some assms(2) show ?thesis by (simp add: close_current_open closed_def)
  qed (use cl some in \<open>simp add: close_current_closed\<close>)
qed (simp add: close_current_none)

lemma reconstruct_Inr:
  assumes "reconstruct es c idle = Inr sn" and "0 \<le> sn_cursor sn" and "idle \<le> int64_max"
  obtains E s where "replay_steps (new_engine idle) zero_state 0
      (take (nat (sn_cursor sn) + 1) (canonical_events es)) = Inr (E, s, sn_cursor_at sn)"
    and "sn_cursor sn < int (length (canonical_events es))"
    and "sn_state sn = (if st_stopped_at s = None \<and> sn_cursor_at sn \<noteq> 0
           then (close_current (idle_timeout E) s (sn_cursor_at sn))\<lparr>st_paused := True\<rparr> else s)"
    and "\<forall>e \<in> set es. validate e = None"
proof -
  have v: "\<forall>e \<in> set es. validate e = None"
    using assms(1) first_error_map_None [of es] by (auto simp: reconstruct_def split: option.splits)
  have ne: "canonical_events es \<noteq> []" "0 \<le> c"
    using assms(1,2) by (auto simp: reconstruct_def Let_def split: option.splits if_splits)
  from assms(1) reconstruct_steps [OF v ne assms(3)] ne that v show thesis
    by (auto split: sum.splits prod.splits)
qed

lemma chained_nth:
  "chained xs \<Longrightarrow> Suc k < length xs \<Longrightarrow> \<exists>t. snd (xs ! k) = Some t \<and> t \<le> fst (xs ! Suc k)"
proof (induction xs arbitrary: k rule: chained.induct)
  case (1 t u t' u' xs)
  then show ?case by (cases k) auto
qed auto

lemma engine_ends_new: "engine_ends_by at (new_engine idle)"
  by (simp add: engine_ends_by_def new_engine_def)

lemma snapshot_count:
  "sn\<lparr>sn_event_count := n\<rparr> =
     \<lparr>sn_state = sn_state sn, sn_cursor = sn_cursor sn, sn_cursor_at = sn_cursor_at sn, sn_event_count = n\<rparr>"
  by (cases sn) simp

section \<open>Events for the witnesses\<close>

definition sample_events :: "event list" where
  "sample_events =
     [sample_start, sample_event ''e1'' File_read 20 ''a'', sample_event ''e2'' File_read 50 ''b'']"

lemma sample_events_valid: "\<forall>e \<in> set sample_events. validate e = None"
  by (simp add: sample_events_def sample_start_def sample_event_def zero_event_def validate_def
      string_fields_def number_fields_def validate_string_def validate_number_def validate_metadata_def
      schema_version_const_def byte_def)

lemma sample_events_ids: "map event_id sample_events = [''e0'', ''e1'', ''e2'']"
  by (simp add: sample_events_def sample_start_def)

lemma sample_events_canonical: "canonical_events sample_events = sample_events"
  by (rule canonical_id) (simp_all add: sample_events_ids,
      simp add: sample_events_def sample_start_def event_key_def lifecycle_rank_def)

section \<open>Properties of replay\<close>

text \<open>C4: a replay depends on what was recorded, not on how it was delivered.  Two logs with
  the same events, in any order and with any repetitions, give the same snapshot at every
  cursor.\<close>

theorem replay_delivery_independent:
  assumes "set xs = set ys" and "inj_on event_id (set xs)" and "\<forall>e \<in> set xs. validate e = None"
  shows "reconstruct xs c idle = reconstruct ys c idle"
proof -
  have "first_error (map validate xs) = None" "first_error (map validate ys) = None"
    using assms(1,3) by (simp_all add: first_error_map_None)
  then show ?thesis
    by (simp add: reconstruct_def canonical_set [OF assms(1,2)] Let_def)
qed

text \<open>An earlier moment of a replay does not change when later events are recorded.\<close>

theorem replay_past_is_stable:
  assumes "\<forall>e \<in> set es. \<forall>f \<in> set fs. replay_less e f" and "\<forall>f \<in> set fs. validate f = None"
    and "reconstruct es c idle = Inr sn" and "sn_cursor sn = c" and "0 \<le> c" and "idle \<le> int64_max"
  shows "\<exists>n. reconstruct (es @ fs) c idle = Inr (sn\<lparr>sn_event_count := n\<rparr>)"
proof -
  obtain gs where gs: "canonical_events (es @ fs) = canonical_events es @ gs"
    using canonical_append [OF assms(1)] by blast
  obtain E s where run: "replay_steps (new_engine idle) zero_state 0
        (take (nat c + 1) (canonical_events es)) = Inr (E, s, sn_cursor_at sn)"
    and c: "c < int (length (canonical_events es))"
    and st: "sn_state sn = (if st_stopped_at s = None \<and> sn_cursor_at sn \<noteq> 0
           then (close_current (idle_timeout E) s (sn_cursor_at sn))\<lparr>st_paused := True\<rparr> else s)"
    and v: "\<forall>e \<in> set es. validate e = None"
    using reconstruct_Inr [OF assms(3) _ assms(6)] assms(4,5) by blast
  have valid: "\<forall>e \<in> set (es @ fs). validate e = None" using v assms(2) by auto
  have ne: "canonical_events (es @ fs) \<noteq> []" using c assms(5) by (auto simp: gs)
  have n: "\<not> int (length (canonical_events (es @ fs))) \<le> c" using c by (simp add: gs)
  have tk: "take (nat c + 1) (canonical_events (es @ fs)) = take (nat c + 1) (canonical_events es)"
    using c assms(5) by (simp add: gs)
  have "reconstruct (es @ fs) c idle =
      Inr (sn\<lparr>sn_event_count := int (length (canonical_events (es @ fs)))\<rparr>)"
    unfolding reconstruct_steps [OF valid ne assms(5,6)]
    by (simp only: n if_False tk run) (simp add: snapshot_count assms(4) st)
  then show ?thesis by blast
qed

text \<open>If the whole record of a session can be replayed, so can each of its moments; the
  replay then shows the cursor that was asked for.\<close>

theorem replay_every_cursor:
  assumes "reconstruct es (int (length es)) idle = Inr sn" and "idle \<le> int64_max"
    and "0 \<le> c" and "c < int (length (canonical_events es))"
  shows "\<exists>sn'. reconstruct es c idle = Inr sn' \<and> sn_cursor sn' = c \<and> sn_event_count sn' = sn_event_count sn"
proof -
  have len: "length (canonical_events es) \<le> length es"
    by (simp add: canonical_events_def length_keep_first)
  have v: "\<forall>e \<in> set es. validate e = None"
    using assms(1) first_error_map_None [of es] by (auto simp: reconstruct_def split: option.splits)
  have ne: "canonical_events es \<noteq> []" using assms(3,4) by auto
  from reconstruct_steps [OF v ne _ assms(2), of "int (length es)"] assms(1) len obtain r where
    "replay_steps (new_engine idle) zero_state 0 (canonical_events es) = Inr r"
    and n: "sn_event_count sn = int (length (canonical_events es))"
    by (auto split: sum.splits prod.splits)
  from replay_steps_prefix [OF this(1)] obtain r' where
    "replay_steps (new_engine idle) zero_state 0 (take (nat c + 1) (canonical_events es)) = Inr r'" by blast
  with reconstruct_steps [OF v ne assms(3,2)] assms(4) n show ?thesis
    by (cases r') simp
qed

text \<open>What a snapshot shows lies before its cursor.  Every interval is closed, ends no
  later than the cursor's instant, has the length it claims, and no two overlap.\<close>

theorem replay_intervals_closed:
  assumes "reconstruct es c idle = Inr sn" and "idle \<le> int64_max" and "\<forall>e \<in> set es. 0 < timestamp e"
  defines "ivs \<equiv> st_intervals (sn_state sn)"
  shows "(\<forall>iv \<in> set ivs. \<exists>u. iv_ended_at iv = Some u \<and> iv_started_at iv \<le> u \<and> u \<le> sn_cursor_at sn \<and>
             iv_duration iv = u - iv_started_at iv) \<and>
         (\<forall>k. Suc k < length ivs \<longrightarrow> the (iv_ended_at (ivs ! k)) \<le> iv_started_at (ivs ! Suc k))"
proof (cases "0 \<le> sn_cursor sn")
  case False
  then have "ivs = []" using assms(1)
    by (auto simp: ivs_def reconstruct_def Let_def zero_state_def split: option.splits if_splits sum.splits prod.splits)
  then show ?thesis by simp
next
  case True
  obtain E s where run: "replay_steps (new_engine idle) zero_state 0
        (take (nat (sn_cursor sn) + 1) (canonical_events es)) = Inr (E, s, sn_cursor_at sn)"
    and c: "sn_cursor sn < int (length (canonical_events es))"
    and st: "sn_state sn = (if st_stopped_at s = None \<and> sn_cursor_at sn \<noteq> 0
           then (close_current (idle_timeout E) s (sn_cursor_at sn))\<lparr>st_paused := True\<rparr> else s)"
    using reconstruct_Inr [OF assms(1) True assms(2)] by blast
  let ?es = "take (nat (sn_cursor sn) + 1) (canonical_events es)" and ?at = "sn_cursor_at sn"
  have ne: "?es \<noteq> []" using c True by auto
  have pos: "?at \<noteq> 0"
    using replay_steps_at [OF run] ne assms(3) set_canonical [of es]
    by (metis in_mono list.set_sel(1) not_less set_take_subset)
  have lr: "live_run idle E" and ses: "sessions E (st_session_id s) = Some s"
    using replay_steps_run [OF run live_run.init assms(2)] ne by auto
  have live: "live_state (idle_timeout E) s" using live_run_state [OF lr assms(2) ses] .
  have idle: "0 \<le> idle_timeout E" "idle_timeout E \<le> int64_max"
    using reachable_wf [OF live_run_reachable [OF lr] assms(2)] by (simp_all add: wf_engine_def)
  have eb: "ends_by ?at s"
    using replay_steps_ends [OF run engine_ends_new live_run.init assms(2)] ses by (simp add: engine_ends_by_def)
  let ?s = "if st_stopped_at s = None then close_current (idle_timeout E) s ?at else s"
  have ivs: "ivs = st_intervals ?s" using st pos by (simp add: ivs_def)
  have "list_all closed (st_intervals ?s)" "list_all (wf_interval (idle_timeout E)) (st_intervals ?s)"
    using live close_current_ok(3) [OF _ idle] pause_closed [OF _ idle(1)]
    by (auto simp: live_state_def ok_state_def wf_state_def wf_intervals_def)
  moreover have "ends_by ?at ?s" using eb close_current_ends [OF eb idle(1)] by simp
  moreover have ch: "chained (spans (st_intervals ?s))"
    using live close_current_chained [OF _ idle(1)] by (simp add: live_state_def)
  ultimately show ?thesis using chained_nth [OF ch] unfolding ivs
    by (fastforce simp: list_all_iff closed_def wf_interval_def ends_by_def spans_def)
qed

section \<open>Witnesses\<close>

lemma sample_steps:
  "replay_steps (new_engine 100) zero_state 0 sample_events = Inr (sample_engine, sample_state, 50)"
  by (simp add: sample_events_def sample_start_def replay_event_def engine_apply_def put_session_def
      sample_engine_def sample_state_def new_engine_def)

lemma sample_length: "length sample_events = 3" by (simp add: sample_events_def)

lemma sample_nonempty: "sample_events \<noteq> []" by (simp add: sample_events_def)

lemmas sample_steps_of =
  reconstruct_steps [OF sample_events_valid, unfolded sample_events_canonical sample_length]

lemma sample_reconstruct:
  "\<exists>sn. reconstruct sample_events 2 100 = Inr sn \<and> sn_cursor sn = 2 \<and>
     map iv_path (st_intervals (sn_state sn)) = [''a'', ''b'']"
  "\<exists>sn. reconstruct sample_events 3 100 = Inr sn \<and> sn_event_count sn = 3"
  using sample_steps
  by (simp_all add: sample_steps_of sample_length sample_nonempty sample_state_eq close_current_def
      current_def set_current_def open_interval_def)

theorem replay_delivery_independent_witness:
  "reconstruct (rev sample_events @ sample_events) 1 100 = reconstruct sample_events 1 100"
  by (rule replay_delivery_independent)
    (use sample_events_valid in \<open>simp_all add: sample_events_def sample_start_def inj_on_def insert_commute\<close>)

theorem replay_past_is_stable_witness:
  "\<exists>sn n. reconstruct sample_events 2 100 = Inr sn \<and>
     reconstruct (sample_events @ [sample_event ''e3'' File_read 60 ''c'']) 2 100 =
       Inr (sn\<lparr>sn_event_count := n\<rparr>)"
proof -
  let ?f = "sample_event ''e3'' File_read 60 ''c''"
  obtain sn where sn: "reconstruct sample_events 2 100 = Inr sn" "sn_cursor sn = 2"
    using sample_reconstruct(1) by blast
  have "\<forall>e \<in> set sample_events. \<forall>f \<in> set [?f]. replay_less e f"
    by (simp add: sample_events_def sample_start_def replay_less_def replay_rank_def)
  moreover have "\<forall>f \<in> set [?f]. validate f = None"
    by (simp add: sample_event_def zero_event_def validate_def
      string_fields_def number_fields_def validate_string_def validate_number_def validate_metadata_def
      schema_version_const_def byte_def)
  ultimately show ?thesis using replay_past_is_stable [OF _ _ sn] sn(1) by auto
qed

theorem replay_every_cursor_witness:
  "\<exists>sn'. reconstruct sample_events 1 100 = Inr sn' \<and> sn_cursor sn' = 1"
proof -
  obtain sn where "reconstruct sample_events (int (length sample_events)) 100 = Inr sn"
    using sample_reconstruct(2) by (auto simp: sample_length)
  from replay_every_cursor [OF this, of 1] show ?thesis
    by (auto simp: sample_events_canonical sample_length)
qed

theorem replay_intervals_closed_witness:
  "\<exists>sn. reconstruct sample_events 2 100 = Inr sn \<and> length (st_intervals (sn_state sn)) = 2 \<and>
     (\<exists>u. iv_ended_at (st_intervals (sn_state sn) ! 0) = Some u) \<and>
     the (iv_ended_at (st_intervals (sn_state sn) ! 0)) \<le> iv_started_at (st_intervals (sn_state sn) ! 1)"
proof -
  obtain sn where sn: "reconstruct sample_events 2 100 = Inr sn"
    and "map iv_path (st_intervals (sn_state sn)) = [''a'', ''b'']" using sample_reconstruct(1) by (elim exE conjE)
  then have len: "length (st_intervals (sn_state sn)) = 2"
    using length_map [of iv_path "st_intervals (sn_state sn)"] by simp
  have "\<forall>e \<in> set sample_events. 0 < timestamp e" by (simp add: sample_events_def sample_start_def)
  note all = replay_intervals_closed [OF sn _ this]
  have "\<exists>u. iv_ended_at (st_intervals (sn_state sn) ! 0) = Some u"
    using all nth_mem [of 0 "st_intervals (sn_state sn)"] len by fastforce
  moreover have "the (iv_ended_at (st_intervals (sn_state sn) ! 0)) \<le> iv_started_at (st_intervals (sn_state sn) ! 1)"
    using all [THEN conjunct2, rule_format, of 0] len by simp
  ultimately show ?thesis using len sn by blast
qed

end
