(* ===== verification/Ingest_Queue.thy ===== *)
theory Ingest_Queue
  imports Protocol
begin

text \<open>
  \<^verbatim>\<open>internal/ingest/queue.go\<close>: the bounded queue between the transports and the session
  engine.  Its mutex makes \<^verbatim>\<open>Offer\<close> and \<^verbatim>\<open>Pop\<close> atomic; the counters are 64-bit and wrap.
\<close>

section \<open>The queue\<close>

record queue_stats =
  qs_accepted :: u64
  qs_dropped :: u64
  qs_coalesced :: u64

record queue =
  q_capacity :: int
  q_items :: "event list"
  q_stats :: queue_stats

definition new_queue :: "int \<Rightarrow> queue" where
  "new_queue capacity =
     \<lparr>q_capacity = (if capacity < 1 then 1 else capacity), q_items = [],
      q_stats = \<lparr>qs_accepted = 0, qs_dropped = 0, qs_coalesced = 0\<rparr>\<rparr>"

definition is_coalescible :: "event_type \<Rightarrow> bool" where
  "is_coalescible t \<longleftrightarrow> t = File_read \<or> t = File_focused"

definition high_value :: "event_type \<Rightarrow> bool" where
  "high_value t = (case t of
     File_created \<Rightarrow> True | File_modified \<Rightarrow> True | File_patched \<Rightarrow> True | File_renamed \<Rightarrow> True
   | File_moved \<Rightarrow> True | File_deleted \<Rightarrow> True | Directory_created \<Rightarrow> True
   | Directory_renamed \<Rightarrow> True | Directory_deleted \<Rightarrow> True | Session_started \<Rightarrow> True
   | Session_stopped \<Rightarrow> True | _ \<Rightarrow> False)"

text \<open>The two index loops of \<^verbatim>\<open>Offer\<close>: downward from the end, and upward from the start.\<close>

fun last_index :: "('a \<Rightarrow> bool) \<Rightarrow> 'a list \<Rightarrow> nat \<Rightarrow> nat option" where
  "last_index P xs 0 = None"
| "last_index P xs (Suc i) = (if P (xs ! i) then Some i else last_index P xs i)"

fun first_index :: "('a \<Rightarrow> bool) \<Rightarrow> 'a list \<Rightarrow> nat option" where
  "first_index P [] = None"
| "first_index P (x # xs) = (if P x then Some 0 else map_option Suc (first_index P xs))"

definition same_focus :: "event \<Rightarrow> event \<Rightarrow> bool" where
  "same_focus e queued \<longleftrightarrow>
     event_type queued = event_type e \<and> ev_path queued = ev_path e \<and> session_id queued = session_id e"

definition count_accepted :: "queue \<Rightarrow> queue" where
  "count_accepted q = q\<lparr>q_stats := (q_stats q)\<lparr>qs_accepted := qs_accepted (q_stats q) + 1\<rparr>\<rparr>"

definition count_dropped :: "queue \<Rightarrow> queue" where
  "count_dropped q = q\<lparr>q_stats := (q_stats q)\<lparr>qs_dropped := qs_dropped (q_stats q) + 1\<rparr>\<rparr>"

definition count_coalesced :: "queue \<Rightarrow> queue" where
  "count_coalesced q = q\<lparr>q_stats := (q_stats q)\<lparr>qs_coalesced := qs_coalesced (q_stats q) + 1\<rparr>\<rparr>"

definition push_back :: "queue \<Rightarrow> event \<Rightarrow> queue" where
  "push_back q e = count_accepted (q\<lparr>q_items := q_items q @ [e]\<rparr>)"

definition offer :: "queue \<Rightarrow> event \<Rightarrow> queue \<times> bool" where
  "offer q e =
     (case (if is_coalescible (event_type e) then last_index (same_focus e) (q_items q) (length (q_items q))
            else None) of
        Some i \<Rightarrow> (count_coalesced (q\<lparr>q_items := (q_items q)[i := e]\<rparr>), True)
      | None \<Rightarrow>
          if int (length (q_items q)) = q_capacity q then
            if \<not> high_value (event_type e) then (count_dropped q, False)
            else (case first_index (\<lambda>queued. \<not> high_value (event_type queued)) (q_items q) of
                None \<Rightarrow> (count_dropped q, False)
              | Some drop_at \<Rightarrow>
                  (push_back (count_dropped (q\<lparr>q_items := take drop_at (q_items q) @
                      drop (drop_at + 1) (q_items q)\<rparr>)) e, True))
          else (push_back q e, True))"

definition pop :: "queue \<Rightarrow> (event \<times> queue) option" where
  "pop q = (case q_items q of [] \<Rightarrow> None | e # es \<Rightarrow> Some (e, q\<lparr>q_items := es\<rparr>))"

definition queue_len :: "queue \<Rightarrow> int" where "queue_len q = int (length (q_items q))"

section \<open>The interface of a first-in first-out queue\<close>

text \<open>
  What the loops that empty a queue rely on.  \<open>drain\<close> is the loop of \<^verbatim>\<open>Collector.drain\<close>; its
  fuel is enough when it is at least the number of queued items.
\<close>

fun drain :: "('q \<Rightarrow> ('e \<times> 'q) option) \<Rightarrow> nat \<Rightarrow> 'q \<Rightarrow> 'e list \<times> 'q" where
  "drain get 0 q = ([], q)"
| "drain get (Suc n) q =
     (case get q of
        None \<Rightarrow> ([], q)
      | Some (e, q') \<Rightarrow> apfst ((#) e) (drain get n q'))"

locale fifo =
  fixes get :: "'q \<Rightarrow> ('e \<times> 'q) option" and items :: "'q \<Rightarrow> 'e list"
  assumes get_empty: "get q = None \<longleftrightarrow> items q = []"
    and get_first: "get q = Some (e, q') \<Longrightarrow> items q = e # items q'"
begin

lemma drain_all:
  "length (items q) \<le> n \<Longrightarrow> fst (drain get n q) = items q \<and> items (snd (drain get n q)) = []"
proof (induction n arbitrary: q)
  case (Suc n)
  show ?case
  proof (cases "get q")
    case None
    then have "items q = []" using get_empty by blast
    with None show ?thesis by simp
  next
    case (Some r)
    obtain e q' where r: "r = (e, q')" by (cases r)
    with Some have "items q = e # items q'" using get_first by simp
    with Suc Some r show ?thesis by simp
  qed
qed simp

lemma drain_fuel:
  "length (items q) \<le> n \<Longrightarrow> drain get (n + k) q = drain get n q"
proof (induction n arbitrary: q)
  case 0
  then have "get q = None" using get_empty by simp
  then show ?case by (cases k) auto
next
  case (Suc n)
  then show ?case using get_first by (fastforce split: option.splits)
qed

end

interpretation ingest_fifo: fifo pop q_items
  by unfold_locales (auto simp: pop_def split: list.splits)

section \<open>The index loops\<close>

lemma last_index_None: "n \<le> length xs \<Longrightarrow> last_index P xs n = None \<longleftrightarrow> (\<forall>i < n. \<not> P (xs ! i))"
  by (induction n) (auto simp: less_Suc_eq)

lemma last_index_Some:
  "last_index P xs n = Some i \<Longrightarrow> i < n \<and> P (xs ! i)"
  by (induction n) (auto split: if_splits)

lemma first_index_None: "first_index P xs = None \<longleftrightarrow> (\<forall>x \<in> set xs. \<not> P x)"
  by (induction xs) auto

lemma first_index_Some:
  "first_index P xs = Some i \<Longrightarrow>
   \<exists>x. xs = take i xs @ x # drop (i + 1) xs \<and> P x \<and> i < length xs \<and> (\<forall>y \<in> set (take i xs). \<not> P y)"
  by (induction xs arbitrary: i) (auto split: if_splits)

section \<open>The cases of an offer\<close>

text \<open>An offer replaces, refuses, appends, or evicts one low-value event and appends.\<close>

lemma offer_cases:
  obtains (replace) i where "is_coalescible (event_type e)" "i < length (q_items q)"
      "same_focus e (q_items q ! i)" "offer q e = (count_coalesced (q\<lparr>q_items := (q_items q)[i := e]\<rparr>), True)"
  | (refuse) "int (length (q_items q)) = q_capacity q" "offer q e = (count_dropped q, False)"
      "high_value (event_type e) \<Longrightarrow> \<forall>x \<in> set (q_items q). high_value (event_type x)"
  | (append) "int (length (q_items q)) \<noteq> q_capacity q" "offer q e = (push_back q e, True)"
      "is_coalescible (event_type e) \<Longrightarrow> \<forall>x \<in> set (q_items q). \<not> same_focus e x"
  | (evict) us x vs where "q_items q = us @ x # vs" "\<not> high_value (event_type x)"
      "high_value (event_type e)" "\<forall>u \<in> set us. high_value (event_type u)"
      "int (length (q_items q)) = q_capacity q"
      "offer q e = (push_back (count_dropped (q\<lparr>q_items := us @ vs\<rparr>)) e, True)"
proof (cases "if is_coalescible (event_type e) then last_index (same_focus e) (q_items q) (length (q_items q))
     else None")
  case (Some i)
  then have "is_coalescible (event_type e)" "i < length (q_items q)" "same_focus e (q_items q ! i)"
    by (auto split: if_splits dest: last_index_Some)
  with Some show ?thesis by (intro replace) (simp_all add: offer_def)
next
  case None
  then have un: "is_coalescible (event_type e) \<Longrightarrow> \<forall>x \<in> set (q_items q). \<not> same_focus e x"
    by (auto simp: last_index_None in_set_conv_nth split: if_splits)
  show ?thesis
  proof (cases "int (length (q_items q)) = q_capacity q")
    case False
    with None un show ?thesis by (intro append) (simp_all add: offer_def)
  next
    case full: True
    have start: "offer q e = (if \<not> high_value (event_type e) then (count_dropped q, False)
        else (case first_index (\<lambda>queued. \<not> high_value (event_type queued)) (q_items q) of
                None \<Rightarrow> (count_dropped q, False)
              | Some drop_at \<Rightarrow>
                  (push_back (count_dropped (q\<lparr>q_items := take drop_at (q_items q) @
                      drop (drop_at + 1) (q_items q)\<rparr>)) e, True)))"
      using None full by (simp only: offer_def option.case refl if_True)
    show ?thesis
    proof (cases "first_index (\<lambda>queued. \<not> high_value (event_type queued)) (q_items q)")
      case n: None
      then have "\<forall>x \<in> set (q_items q). high_value (event_type x)" by (simp add: first_index_None)
      with full n start show ?thesis by (intro refuse) auto
    next
      case (Some i)
      from first_index_Some [OF this] obtain x where
        x: "q_items q = take i (q_items q) @ x # drop (i + 1) (q_items q)" "\<not> high_value (event_type x)"
        "\<forall>y \<in> set (take i (q_items q)). high_value (event_type y)" by (auto simp del: append_take_drop_id)
      show ?thesis
      proof (cases "high_value (event_type e)")
        case True
        show ?thesis by (rule evict [OF x(1,2) True x(3) full])
            (simp only: start Some True not_True_eq_False if_False option.case)
      next
        case False
        with full start show ?thesis by (intro refuse) auto
      qed
    qed
  qed
qed

section \<open>Runs\<close>

text \<open>Producers and the consumer interleave freely; a run is the sequence of their calls.\<close>

datatype queue_op = Q_offer event | Q_pop

fun queue_step :: "queue \<times> event list \<Rightarrow> queue_op \<Rightarrow> queue \<times> event list" where
  "queue_step (q, out) (Q_offer e) = (fst (offer q e), out)"
| "queue_step (q, out) Q_pop =
     (case pop q of None \<Rightarrow> (q, out) | Some (e, q') \<Rightarrow> (q', out @ [e]))"

definition queue_run :: "int \<Rightarrow> queue_op list \<Rightarrow> queue \<times> event list" where
  "queue_run capacity ops = foldl queue_step (new_queue capacity, []) ops"

lemma queue_run_Nil [simp]: "queue_run c [] = (new_queue c, [])"
  and queue_run_snoc [simp]: "queue_run c (ops @ [op]) = queue_step (queue_run c ops) op"
  by (simp_all add: queue_run_def)

fun offers :: "queue_op list \<Rightarrow> event list" where
  "offers [] = []"
| "offers (Q_offer e # ops) = e # offers ops"
| "offers (Q_pop # ops) = offers ops"

text \<open>The offers a run answers with \<^verbatim>\<open>true\<close>.\<close>

fun accepted_from :: "queue \<Rightarrow> queue_op list \<Rightarrow> event list" where
  "accepted_from q [] = []"
| "accepted_from q (Q_offer e # ops) =
     (if snd (offer q e) then [e] else []) @ accepted_from (fst (offer q e)) ops"
| "accepted_from q (Q_pop # ops) =
     accepted_from (case pop q of None \<Rightarrow> q | Some (_, q') \<Rightarrow> q') ops"

lemma offers_append [simp]: "offers (xs @ ys) = offers xs @ offers ys"
  by (induction xs rule: offers.induct) auto

lemma accepted_from_append:
  "accepted_from q (xs @ ys) = accepted_from q xs @ accepted_from (fst (foldl queue_step (q, out) xs)) ys"
  by (induction q xs arbitrary: out rule: accepted_from.induct) (auto split: option.splits)

lemma count_simps [simp]:
  "q_items (count_accepted q) = q_items q" "q_items (count_dropped q) = q_items q"
  "q_items (count_coalesced q) = q_items q" "q_items (push_back q e) = q_items q @ [e]"
  "q_capacity (count_accepted q) = q_capacity q" "q_capacity (count_dropped q) = q_capacity q"
  "q_capacity (count_coalesced q) = q_capacity q" "q_capacity (push_back q e) = q_capacity q"
  by (simp_all add: count_accepted_def count_dropped_def count_coalesced_def push_back_def)

lemma pop_step:
  "pop q = None \<and> q_items q = [] \<or>
   (\<exists>e es. q_items q = e # es \<and> pop q = Some (e, q\<lparr>q_items := es\<rparr>))"
  by (cases "q_items q") (simp_all add: pop_def)

section \<open>Invariant of the items\<close>

definition focus_key :: "event \<Rightarrow> event_type \<times> string \<times> string" where
  "focus_key e = (event_type e, ev_path e, session_id e)"

definition focus_keys :: "event list \<Rightarrow> (event_type \<times> string \<times> string) list" where
  "focus_keys es = map focus_key (filter (\<lambda>e. is_coalescible (event_type e)) es)"

lemma same_focus_key: "same_focus e x \<longleftrightarrow> focus_key x = focus_key e"
  by (auto simp: same_focus_def focus_key_def)

lemma focus_keys_simps [simp]:
  "focus_keys [] = []" "focus_keys (xs @ ys) = focus_keys xs @ focus_keys ys"
  "focus_keys (x # ys) = (if is_coalescible (event_type x) then focus_key x # focus_keys ys else focus_keys ys)"
  by (simp_all add: focus_keys_def)

lemma focus_keys_update:
  assumes "i < length xs" and "same_focus e (xs ! i)"
  shows "focus_keys (xs[i := e]) = focus_keys xs"
proof -
  have "focus_keys xs = focus_keys (take i xs @ xs ! i # drop (Suc i) xs)"
    by (subst id_take_nth_drop [OF assms(1)]) (rule refl)
  then show ?thesis using assms(2)
    by (simp add: upd_conv_take_nth_drop [OF assms(1)] same_focus_key) (simp add: focus_key_def)
qed

definition queue_ok :: "queue \<Rightarrow> bool" where
  "queue_ok q \<longleftrightarrow> 1 \<le> q_capacity q \<and> int (length (q_items q)) \<le> q_capacity q \<and>
     distinct (focus_keys (q_items q))"

lemma focus_keys_fresh:
  "\<forall>x \<in> set xs. \<not> same_focus e x \<Longrightarrow> focus_key e \<notin> set (focus_keys xs)"
  by (auto simp: focus_keys_def same_focus_key)

lemma offer_ok:
  assumes "queue_ok q"
  shows "queue_ok (fst (offer q e))"
proof (cases rule: offer_cases [where q = q and e = e])
  case (replace i)
  with assms show ?thesis by (simp add: queue_ok_def focus_keys_update)
next
  case append
  with assms focus_keys_fresh [of "q_items q" e] show ?thesis by (auto simp: queue_ok_def)
next
  case (evict us x vs)
  then have "\<not> is_coalescible (event_type e)" by (auto simp: is_coalescible_def high_value_def)
  with evict assms show ?thesis by (auto simp: queue_ok_def split: if_splits)
qed (use assms in \<open>simp add: queue_ok_def\<close>)

lemma queue_run_ok: "queue_ok (fst (queue_run c ops))"
proof (induction ops rule: rev_induct)
  case (snoc op ops)
  obtain q out where q: "queue_run c ops = (q, out)" by (cases "queue_run c ops")
  with snoc have ok: "queue_ok q" by simp
  show ?case
  proof (cases op)
    case (Q_offer e)
    with q offer_ok [OF ok] show ?thesis by simp
  next
    case Q_pop
    with q ok pop_step [of q] show ?thesis by (auto simp: queue_ok_def split: if_splits)
  qed
qed (simp add: queue_ok_def new_queue_def)

section \<open>High-value events and counters\<close>

definition highs :: "event list \<Rightarrow> event list" where
  "highs es = filter (\<lambda>e. high_value (event_type e)) es"

lemma coalescible_low: "is_coalescible t \<Longrightarrow> \<not> high_value t"
  by (auto simp: is_coalescible_def high_value_def)

lemma highs_update:
  assumes "i < length xs" "\<not> high_value (event_type e)" "\<not> high_value (event_type (xs ! i))"
  shows "highs (xs[i := e]) = highs xs"
proof -
  have "highs xs = highs (take i xs @ xs ! i # drop (Suc i) xs)"
    by (subst id_take_nth_drop [OF assms(1)]) (rule refl)
  then show ?thesis using assms by (simp add: highs_def upd_conv_take_nth_drop)
qed

lemma offer_highs:
  "highs (q_items (fst (offer q e))) = highs (q_items q) @ highs (if snd (offer q e) then [e] else [])"
proof (cases rule: offer_cases [where q = q and e = e])
  case (replace i)
  then have "\<not> high_value (event_type e)" "\<not> high_value (event_type (q_items q ! i))"
    using coalescible_low by (auto simp: same_focus_def)
  with replace highs_update [of i "q_items q" e] show ?thesis by (simp add: highs_def)
qed (simp_all add: highs_def)

lemma offer_stats:
  "of_nat (length (q_items q)) + qs_coalesced (q_stats q) + qs_dropped (q_stats q) + 1 =
     of_nat (length (q_items (fst (offer q e)))) + qs_coalesced (q_stats (fst (offer q e)))
     + qs_dropped (q_stats (fst (offer q e)))"
  by (cases rule: offer_cases [where q = q and e = e])
    (simp_all add: count_accepted_def count_dropped_def count_coalesced_def push_back_def)

lemma queue_run_highs:
  "highs (snd (queue_run c ops) @ q_items (fst (queue_run c ops))) = highs (accepted_from (new_queue c) ops)"
proof (induction ops rule: rev_induct)
  case (snoc op ops)
  obtain q out where q: "queue_run c ops = (q, out)" by (cases "queue_run c ops")
  have acc: "accepted_from (new_queue c) (ops @ [op]) =
      accepted_from (new_queue c) ops @ accepted_from q [op]"
    using accepted_from_append [of "new_queue c" ops "[op]" "[]"] q by (simp add: queue_run_def)
  show ?case
  proof (cases op)
    case (Q_offer e)
    with snoc q acc offer_highs [of q e] show ?thesis by (simp add: highs_def)
  next
    case Q_pop
    with snoc q acc pop_step [of q] show ?thesis by (auto simp: highs_def)
  qed
qed (simp add: new_queue_def highs_def)

lemma queue_run_stats:
  defines "q c ops \<equiv> fst (queue_run c ops)"
  shows "word_of_nat (length (offers ops)) =
    word_of_nat (length (snd (queue_run c ops))) + word_of_nat (length (q_items (q c ops))) +
    qs_coalesced (q_stats (q c ops)) + qs_dropped (q_stats (q c ops))"
  unfolding q_def
proof (induction ops rule: rev_induct)
  case (snoc op ops)
  obtain q out where q: "queue_run c ops = (q, out)" by (cases "queue_run c ops")
  show ?case
  proof (cases op)
    case (Q_offer e)
    with snoc q offer_stats [of q e] show ?thesis by (simp add: algebra_simps)
  next
    case Q_pop
    with snoc q pop_step [of q] show ?thesis by (auto simp: algebra_simps)
  qed
qed (simp add: new_queue_def)

lemma offer_capacity [simp]: "q_capacity (fst (offer q e)) = q_capacity q"
  by (cases rule: offer_cases [where q = q and e = e]) simp_all

lemma queue_step_capacity: "q_capacity (fst (queue_step s op)) = q_capacity (fst s)"
  by (cases s; cases op) (auto simp: pop_def split: list.splits)

section \<open>Properties of the queue\<close>

text \<open>C6: the queue stays within its capacity, and holds at most one read or focus event per
  path and session, whatever the order of calls.\<close>

theorem queue_bounded_and_coalesced:
  "int (length (q_items (fst (queue_run c ops)))) \<le> max 1 c \<and>
   distinct (map focus_key (filter (\<lambda>e. is_coalescible (event_type e)) (q_items (fst (queue_run c ops)))))"
proof -
  have "q_capacity (fst (queue_run c ops)) = max 1 c"
    by (induction ops rule: rev_induct) (simp_all add: new_queue_def queue_step_capacity)
  with queue_run_ok [of c ops] show ?thesis by (simp add: queue_ok_def focus_keys_def)
qed

text \<open>C7: file writes and session boundaries survive overload.  The high-value events that were
  accepted are delivered, or still queued, all of them and in the order they were offered.\<close>

theorem queue_keeps_high_value_events:
  "filter (\<lambda>e. high_value (event_type e)) (snd (queue_run c ops)) @
   filter (\<lambda>e. high_value (event_type e)) (q_items (fst (queue_run c ops))) =
   filter (\<lambda>e. high_value (event_type e)) (accepted_from (new_queue c) ops)"
  using queue_run_highs [of c ops] by (simp add: highs_def)

text \<open>A high-value event is refused only when the queue is full of high-value events.\<close>

theorem queue_refuses_writes_only_when_full_of_writes:
  assumes "snd (offer q e) = False" and "high_value (event_type e)"
  shows "int (length (q_items q)) = q_capacity q \<and> filter (\<lambda>x. high_value (event_type x)) (q_items q) = q_items q"
proof (cases rule: offer_cases [where q = q and e = e])
  case refuse
  with assms(2) show ?thesis by simp
qed (use assms in simp_all)

text \<open>Every event is accounted for.  Modulo \<open>2\<^sup>6\<^sup>4\<close>, the number of offers is the number of
  events delivered, plus those still queued, plus the two loss counters.\<close>

theorem queue_accounts_for_every_offer:
  "word_of_nat (length (offers ops)) =
    word_of_nat (length (snd (queue_run c ops))) + word_of_nat (length (q_items (fst (queue_run c ops)))) +
    qs_coalesced (q_stats (fst (queue_run c ops))) + qs_dropped (q_stats (fst (queue_run c ops)))"
  by (rule queue_run_stats)

section \<open>Witnesses\<close>

definition sample_write :: "string \<Rightarrow> event" where
  "sample_write p = zero_event\<lparr>event_type := File_modified, ev_path := p\<rparr>"

theorem queue_refuses_writes_witness:
  "q_items (fst (queue_run 1 [Q_offer (sample_write ''a'')])) = [sample_write ''a''] \<and>
   int (length [sample_write ''a'']) = q_capacity (fst (queue_run 1 [Q_offer (sample_write ''a'')]))"
proof -
  let ?q = "fst (queue_run 1 [Q_offer (sample_write ''a'')])"
  have q: "?q = push_back (new_queue 1) (sample_write ''a'')"
    by (simp add: queue_run_def offer_def new_queue_def sample_write_def is_coalescible_def)
  have "snd (offer ?q (sample_write ''b'')) = False"
    unfolding q by (simp add: offer_def new_queue_def sample_write_def is_coalescible_def high_value_def)
  then show ?thesis
    using queue_refuses_writes_only_when_full_of_writes [of ?q "sample_write ''b''"] q
    by (simp add: sample_write_def high_value_def new_queue_def)
qed

end
