(* ===== verification/Ingest_Collector.thy ===== *)
theory Ingest_Collector
  imports Ingest_Queue
begin

text \<open>
  \<^verbatim>\<open>internal/ingest/collector.go\<close>: the goroutine that empties the queue into a handler, as a
  step relation.  A step is one atomic action: a locked call on the queue, a channel operation
  or a branch of the \<^verbatim>\<open>select\<close>.  \<^verbatim>\<open>Submit\<close> is two steps, since another goroutine may run
  between its \<^verbatim>\<open>Offer\<close> and its send on the one-slot channel \<^verbatim>\<open>wake\<close>.
\<close>

section \<open>State\<close>

text \<open>Where the goroutine stands: in a \<^verbatim>\<open>drain\<close>, in the \<^verbatim>\<open>select\<close>, in the last drain, returned.\<close>

datatype phase = Draining | Selecting | Final_drain | Returned

record collector =
  c_queue :: queue
  c_wake :: bool
  c_stop :: bool
  c_phase :: phase
  c_signals :: nat
  c_handled :: "event list"

text \<open>\<open>c_stop\<close>: \<^verbatim>\<open>stop\<close> is closed or the context is done, which the \<^verbatim>\<open>select\<close> treats alike.
  \<open>c_signals\<close> counts the \<^verbatim>\<open>Submit\<close> calls between their two steps, \<open>c_handled\<close> is the
  sequence of calls of the handler.  The state is that of a started collector.\<close>

definition new_collector :: "int \<Rightarrow> collector" where
  "new_collector capacity =
     \<lparr>c_queue = new_queue capacity, c_wake = False, c_stop = False, c_phase = Draining,
      c_signals = 0, c_handled = []\<rparr>"

section \<open>Steps\<close>

definition submit_offer :: "collector \<Rightarrow> event \<Rightarrow> collector" where
  "submit_offer c e = (case offer (c_queue c) e of
     (q, accepted) \<Rightarrow> c\<lparr>c_queue := q, c_signals := (if accepted then c_signals c + 1 else c_signals c)\<rparr>)"

definition submit_signal :: "collector \<Rightarrow> collector" where
  "submit_signal c = c\<lparr>c_wake := True, c_signals := c_signals c - 1\<rparr>"

definition request_stop :: "collector \<Rightarrow> collector" where
  "request_stop c = c\<lparr>c_stop := True\<rparr>"

text \<open>One round of the loop of \<^verbatim>\<open>drain\<close>: handle an event, or leave the loop for \<open>after\<close>.\<close>

definition drain_round :: "phase \<Rightarrow> collector \<Rightarrow> collector" where
  "drain_round after c = (case pop (c_queue c) of
     None \<Rightarrow> c\<lparr>c_phase := after\<rparr>
   | Some (e, q) \<Rightarrow> c\<lparr>c_queue := q, c_handled := c_handled c @ [e]\<rparr>)"

inductive loop_step :: "collector \<Rightarrow> collector \<Rightarrow> bool" where
  drain: "c_phase c = Draining \<Longrightarrow> loop_step c (drain_round Selecting c)"
| final: "c_phase c = Final_drain \<Longrightarrow> loop_step c (drain_round Returned c)"
| stop: "c_phase c = Selecting \<Longrightarrow> c_stop c \<Longrightarrow> loop_step c (c\<lparr>c_phase := Final_drain\<rparr>)"
| wake: "c_phase c = Selecting \<Longrightarrow> c_wake c \<Longrightarrow> loop_step c (c\<lparr>c_phase := Draining, c_wake := False\<rparr>)"

inductive collector_step :: "collector \<Rightarrow> collector \<Rightarrow> bool" where
  loop: "loop_step c c' \<Longrightarrow> collector_step c c'"
| timeout: "c_phase c = Selecting \<Longrightarrow> collector_step c (c\<lparr>c_phase := Draining\<rparr>)"
| offer: "collector_step c (submit_offer c e)"
| signal: "0 < c_signals c \<Longrightarrow> collector_step c (submit_signal c)"
| stop_request: "collector_step c (request_stop c)"

inductive_cases loop_stepE: "loop_step c c'"
inductive_cases collector_stepE: "collector_step c c'"

inductive collector_reachable :: "int \<Rightarrow> collector \<Rightarrow> bool" for capacity where
  init: "collector_reachable capacity (new_collector capacity)"
| step: "collector_reachable capacity c \<Longrightarrow> collector_step c c' \<Longrightarrow> collector_reachable capacity c'"

section \<open>No lost wake-up\<close>

definition wakeable :: "collector \<Rightarrow> bool" where
  "wakeable c \<longleftrightarrow> queue_ok (c_queue c) \<and>
     (c_phase c = Selecting \<and> q_items (c_queue c) \<noteq> [] \<longrightarrow> c_wake c \<or> 0 < c_signals c)"

lemma offer_refused_items: "\<not> snd (offer q e) \<Longrightarrow> q_items (fst (offer q e)) = q_items q"
  by (cases rule: offer_cases [where q = q and e = e]) simp_all

lemma pop_ok: "queue_ok q \<Longrightarrow> pop q = Some (e, q') \<Longrightarrow> queue_ok q'"
  using pop_step [of q] by (auto simp: queue_ok_def split: if_splits)

lemma drain_round_wakeable:
  assumes "wakeable c" and "c_phase c = Draining \<or> c_phase c = Final_drain"
    and "after = Selecting \<or> after = Returned"
  shows "wakeable (drain_round after c)"
proof (cases "pop (c_queue c)")
  case None
  then have "q_items (c_queue c) = []" using ingest_fifo.get_empty by blast
  with None assms show ?thesis by (simp add: wakeable_def drain_round_def)
next
  case (Some r)
  with assms pop_ok show ?thesis by (cases r) (auto simp: wakeable_def drain_round_def)
qed

lemma loop_step_wakeable: "loop_step c c' \<Longrightarrow> wakeable c \<Longrightarrow> wakeable c'"
  by (induction rule: loop_step.induct) (auto simp: drain_round_wakeable, auto simp: wakeable_def)

lemma submit_offer_wakeable: "wakeable c \<Longrightarrow> wakeable (submit_offer c e)"
  using offer_ok [of "c_queue c" e] offer_refused_items [of "c_queue c" e]
  by (cases "offer (c_queue c) e") (auto simp: wakeable_def submit_offer_def)

lemma collector_step_wakeable: "collector_step c c' \<Longrightarrow> wakeable c \<Longrightarrow> wakeable c'"
  by (induction rule: collector_step.induct)
    (auto simp: loop_step_wakeable submit_offer_wakeable, auto simp: wakeable_def submit_signal_def request_stop_def)

lemma reachable_wakeable: "collector_reachable capacity c \<Longrightarrow> wakeable c"
proof (induction rule: collector_reachable.induct)
  case init
  have "queue_ok (new_queue capacity)" using queue_run_ok [of capacity "[]"] by simp
  then show ?case by (simp add: wakeable_def new_collector_def)
qed (rule collector_step_wakeable)

section \<open>Draining\<close>

text \<open>The steps that remain when no one submits any more: the loop's own, the timer of the
  \<^verbatim>\<open>select\<close>, and the second halves of the \<^verbatim>\<open>Submit\<close> calls under way.\<close>

inductive quiet_step :: "collector \<Rightarrow> collector \<Rightarrow> bool" where
  loop: "loop_step c c' \<Longrightarrow> quiet_step c c'"
| timeout: "c_phase c = Selecting \<Longrightarrow> quiet_step c (c\<lparr>c_phase := Draining\<rparr>)"
| signal: "0 < c_signals c \<Longrightarrow> quiet_step c (submit_signal c)"

text \<open>The steps the loop has left before it returns: one for each queued event and one for
  each change of phase, a wake-up being worth one more round.\<close>

definition loop_left :: "collector \<Rightarrow> nat" where
  "loop_left c = length (q_items (c_queue c)) + (if c_wake c then 2 else 0) +
     (case c_phase c of Returned \<Rightarrow> 0 | Final_drain \<Rightarrow> 1 | Selecting \<Rightarrow> 2 | Draining \<Rightarrow> 3)"

definition told :: "collector \<Rightarrow> event list" where
  "told c = c_handled c @ q_items (c_queue c)"

text \<open>A collector that was asked to stop, and that has left nothing behind if it returned.\<close>

definition stopping :: "collector \<Rightarrow> bool" where
  "stopping c \<longleftrightarrow> c_stop c \<and> (c_phase c = Returned \<longrightarrow> q_items (c_queue c) = [])"

lemma drain_round_empty:
  "q_items (c_queue c) = [] \<Longrightarrow> drain_round after c = c\<lparr>c_phase := after\<rparr>"
  by (simp add: drain_round_def pop_def)

lemma drain_round_event:
  "q_items (c_queue c) = e # es \<Longrightarrow>
   drain_round after c = c\<lparr>c_queue := (c_queue c)\<lparr>q_items := es\<rparr>, c_handled := c_handled c @ [e]\<rparr>"
  by (simp add: drain_round_def pop_def)

lemma drain_round_told [simp]: "told (drain_round after c) = told c"
  by (cases "q_items (c_queue c)") (simp_all add: told_def drain_round_empty drain_round_event)

lemma loop_step_told: "loop_step c c' \<Longrightarrow> told c' = told c"
  by (induction rule: loop_step.induct) (simp_all, simp_all add: told_def)

lemma loop_step_stopping: "loop_step c c' \<Longrightarrow> stopping c \<Longrightarrow> stopping c'"
proof (induction rule: loop_step.induct)
  case (drain c)
  then show ?case
    by (cases "q_items (c_queue c)") (simp_all add: stopping_def drain_round_empty drain_round_event)
next
  case (final c)
  then show ?case
    by (cases "q_items (c_queue c)") (simp_all add: stopping_def drain_round_empty drain_round_event)
qed (simp_all add: stopping_def)

lemma loop_step_left: "loop_step c c' \<Longrightarrow> loop_left c' < loop_left c"
proof (induction rule: loop_step.induct)
  case (drain c)
  then show ?case
    by (cases "q_items (c_queue c)") (simp_all add: loop_left_def drain_round_empty drain_round_event)
next
  case (final c)
  then show ?case
    by (cases "q_items (c_queue c)") (simp_all add: loop_left_def drain_round_empty drain_round_event)
qed (simp_all add: loop_left_def)

lemma loop_run_left: "(loop_step ^^ n) c c' \<Longrightarrow> n + loop_left c' \<le> loop_left c"
proof (induction n arbitrary: c')
  case (Suc n)
  then obtain d where "(loop_step ^^ n) c d" "loop_step d c'" by auto
  with Suc.IH loop_step_left [of d c'] show ?case by fastforce
qed simp

lemma loop_left_le: "loop_left c \<le> length (q_items (c_queue c)) + 5"
  by (simp add: loop_left_def split: phase.split)

lemma stopping_stuck_returned:
  assumes "stopping c" and "\<And>d. \<not> loop_step c d"
  shows "c_phase c = Returned"
proof (cases "c_phase c")
  case Draining
  then show ?thesis using assms(2) loop_step.drain by blast
next
  case Selecting
  then show ?thesis using assms loop_step.stop by (auto simp: stopping_def)
next
  case Final_drain
  then show ?thesis using assms(2) loop_step.final by blast
qed

lemma quiet_step_told: "quiet_step c c' \<Longrightarrow> told c' = told c"
  by (induction rule: quiet_step.induct) (simp_all add: loop_step_told, simp_all add: told_def submit_signal_def)

lemma quiet_step_stopping: "quiet_step c c' \<Longrightarrow> stopping c \<Longrightarrow> stopping c'"
  by (induction rule: quiet_step.induct) (simp_all add: loop_step_stopping, simp_all add: stopping_def submit_signal_def)

lemma quiet_run:
  assumes "quiet_step\<^sup>*\<^sup>* c c'" and "stopping c"
  shows "stopping c' \<and> told c' = told c"
  using assms by (induction rule: rtranclp_induct) (auto simp: quiet_step_told intro: quiet_step_stopping)

lemma loop_run_quiet: "loop_step\<^sup>*\<^sup>* c c' \<Longrightarrow> quiet_step\<^sup>*\<^sup>* c c'"
  by (rule rtranclp_mono [THEN predicate2D]) (auto intro: quiet_step.loop)

lemma returned_told: "stopping c \<Longrightarrow> c_phase c = Returned \<Longrightarrow> told c = c_handled c"
  by (simp add: stopping_def told_def)

text \<open>What the users of the collector need: every maximal run of the loop of a stopping
  collector returns, with everything handled.\<close>

lemma stopped_run_handles:
  assumes "stopping c" and "loop_step\<^sup>*\<^sup>* c c'" and "\<And>d. \<not> loop_step c' d"
  shows "c_phase c' = Returned \<and> q_items (c_queue c') = [] \<and>
    c_handled c' = c_handled c @ q_items (c_queue c)"
proof -
  have run: "stopping c'" "told c' = told c" using quiet_run [OF loop_run_quiet [OF assms(2)] assms(1)] by auto
  then have "c_phase c' = Returned" using stopping_stuck_returned assms(3) by blast
  with run returned_told [of c'] show ?thesis by (auto simp: stopping_def told_def)
qed

section \<open>Properties\<close>

text \<open>No wake-up is lost.  Whenever the collector waits and an event is queued, a wake-up is
  in the channel or a \<^verbatim>\<open>Submit\<close> is about to put one there; the timer of the \<^verbatim>\<open>select\<close> is not
  needed for progress.\<close>

theorem collector_no_lost_wakeup:
  assumes "collector_reachable capacity c" and "c_phase c = Selecting" and "q_items (c_queue c) \<noteq> []"
  shows "c_wake c \<or> 0 < c_signals c"
  using reachable_wakeable [OF assms(1)] assms(2,3) by (simp add: wakeable_def)

text \<open>C8: \<^verbatim>\<open>Stop\<close> drains what is queued.  Once a stop is requested and no one submits any more,
  then in every run, timer and outstanding wake-ups included: what the handler was called on,
  followed by what is still queued, is always what was handled and queued at the start, in that
  order; the loop can take no more steps of its own than the queue is long plus five; where it
  has no step left it has returned, and once it has returned the queue is empty, so the handler
  has been called on each event that was queued, in order.  Events the queue refused or evicted
  before the stop are not among them.\<close>

theorem collector_stop_drains:
  assumes "c_stop c" and "c_phase c \<noteq> Returned" and "quiet_step\<^sup>*\<^sup>* c c'"
  shows "c_handled c' @ q_items (c_queue c') = c_handled c @ q_items (c_queue c) \<and>
    (\<forall>n d. (loop_step ^^ n) c' d \<longrightarrow> n \<le> length (q_items (c_queue c')) + 5) \<and>
    ((\<forall>d. \<not> loop_step c' d) \<longleftrightarrow> c_phase c' = Returned) \<and>
    (c_phase c' = Returned \<longrightarrow> q_items (c_queue c') = [] \<and> c_handled c' = c_handled c @ q_items (c_queue c))"
proof (intro conjI allI)
  have "stopping c" using assms(1,2) by (simp add: stopping_def)
  then have run: "stopping c'" "told c' = told c" using quiet_run [OF assms(3)] by auto
  then show "c_handled c' @ q_items (c_queue c') = c_handled c @ q_items (c_queue c)"
    by (simp add: told_def)
  show "(loop_step ^^ n) c' d \<longrightarrow> n \<le> length (q_items (c_queue c')) + 5" for n d
    using loop_run_left [of n c' d] loop_left_le [of c'] by auto
  show "(\<forall>d. \<not> loop_step c' d) \<longleftrightarrow> c_phase c' = Returned"
    using stopping_stuck_returned [OF run(1)] by (auto elim: loop_stepE)
  show "c_phase c' = Returned \<longrightarrow> q_items (c_queue c') = [] \<and> c_handled c' = c_handled c @ q_items (c_queue c)"
    using run by (auto simp: stopping_def told_def)
qed

section \<open>Witnesses\<close>

definition waiting_collector :: collector where
  "waiting_collector = submit_offer ((new_collector 4)\<lparr>c_phase := Selecting\<rparr>) (sample_write ''a'')"

lemma waiting_collector_simps:
  "c_phase waiting_collector = Selecting" "q_items (c_queue waiting_collector) = [sample_write ''a'']"
  "c_wake waiting_collector = False" "c_handled waiting_collector = []"
  by (simp_all add: waiting_collector_def submit_offer_def new_collector_def offer_def
      new_queue_def sample_write_def is_coalescible_def)

lemma waiting_collector_reachable: "collector_reachable 4 waiting_collector"
proof -
  have "loop_step (new_collector 4) (drain_round Selecting (new_collector 4))"
    by (rule loop_step.drain) (simp add: new_collector_def)
  moreover have "drain_round Selecting (new_collector 4) = (new_collector 4)\<lparr>c_phase := Selecting\<rparr>"
    by (simp add: drain_round_def new_collector_def pop_def new_queue_def)
  ultimately show ?thesis unfolding waiting_collector_def
    by (metis collector_reachable.intros collector_step.loop collector_step.offer)
qed

theorem collector_no_lost_wakeup_witness: "0 < c_signals waiting_collector"
  using collector_no_lost_wakeup [OF waiting_collector_reachable] by (simp add: waiting_collector_simps)

definition drained_collector :: collector where
  "drained_collector = (request_stop waiting_collector)\<lparr>c_queue := (c_queue waiting_collector)\<lparr>q_items := []\<rparr>,
     c_handled := [sample_write ''a''], c_phase := Returned\<rparr>"

lemma drained_collector_run: "loop_step\<^sup>*\<^sup>* (request_stop waiting_collector) drained_collector"
proof -
  let ?c = "request_stop waiting_collector"
  let ?f = "?c\<lparr>c_phase := Final_drain\<rparr>"
  let ?e = "?f\<lparr>c_queue := (c_queue waiting_collector)\<lparr>q_items := []\<rparr>, c_handled := [sample_write ''a'']\<rparr>"
  have "loop_step ?c ?f"
    by (rule loop_step.stop) (simp_all add: request_stop_def waiting_collector_simps)
  moreover have "loop_step ?f ?e"
    using loop_step.final [of ?f] drain_round_event [of ?f "sample_write ''a''" "[]" Returned]
    by (simp add: request_stop_def waiting_collector_simps)
  moreover have "loop_step ?e drained_collector"
    using loop_step.final [of ?e] drain_round_empty [of ?e Returned]
    by (simp add: request_stop_def drained_collector_def)
  ultimately show ?thesis by (meson r_into_rtranclp rtranclp.rtrancl_into_rtrancl)
qed

theorem collector_stop_drains_witness:
  "c_handled drained_collector = [sample_write ''a''] \<and> q_items (c_queue drained_collector) = [] \<and>
   (\<forall>d. \<not> loop_step drained_collector d) \<and> \<not> (loop_step ^^ 6) drained_collector drained_collector"
proof -
  have c: "c_stop (request_stop waiting_collector)" "c_phase (request_stop waiting_collector) \<noteq> Returned"
    by (simp_all add: request_stop_def waiting_collector_simps)
  have r: "c_phase drained_collector = Returned" by (simp add: drained_collector_def)
  note ran = collector_stop_drains [OF c loop_run_quiet [OF drained_collector_run]]
  have "c_handled drained_collector = [sample_write ''a'']" "q_items (c_queue drained_collector) = []"
    using ran r by (simp_all add: request_stop_def waiting_collector_simps)
  moreover have "\<not> (loop_step ^^ 6) drained_collector drained_collector"
    using ran calculation(2) by fastforce
  ultimately show ?thesis using ran r by simp
qed

end
