(* ===== verification/Ingest_Dedupe.thy ===== *)
theory Ingest_Dedupe
  imports Ingest_Queue
begin

text \<open>
  \<^verbatim>\<open>internal/ingest/dedupe.go\<close>: the memory of delivered events that keeps a repeated delivery
  from being processed twice within a window, and forgets what is older than two windows.
\<close>

record deduper =
  dd_window :: duration
  dd_seen :: "(string \<times> gotime) list"

definition new_deduper :: "duration \<Rightarrow> deduper" where
  "new_deduper window = \<lparr>dd_window = window, dd_seen = []\<rparr>"

definition dedupe_key :: "event \<Rightarrow> string" where
  "dedupe_key e =
     (if event_id e = []
      then event_type_str (event_type e) @ [CHR 0x00] @ session_id e @ [CHR 0x00] @ ev_path e @
           [CHR 0x00] @ correlation_id e
      else event_id e)"

definition duplicate :: "deduper \<Rightarrow> event \<Rightarrow> gotime \<Rightarrow> deduper \<times> bool" where
  "duplicate d e now =
     (let key = dedupe_key e;
          fresh = (d\<lparr>dd_seen := delete_where (\<lambda>_ seen. dur_mul (dd_window d) 2 < time_sub now seen)
                     (AList.update key now (dd_seen d))\<rparr>, False)
      in case map_of (dd_seen d) key of
           Some seen \<Rightarrow> if time_sub now seen \<le> dd_window d then (d, True) else fresh
         | None \<Rightarrow> fresh)"

fun dedupe_run :: "deduper \<Rightarrow> (event \<times> gotime) list \<Rightarrow> bool list" where
  "dedupe_run d [] = []"
| "dedupe_run d ((e, now) # calls) =
     (case duplicate d e now of (d', dup) \<Rightarrow> dup # dedupe_run d' calls)"

section \<open>Specification: a memory that never forgets\<close>

definition remembered :: "duration \<Rightarrow> (string \<rightharpoonup> gotime) \<Rightarrow> string \<Rightarrow> gotime \<Rightarrow> bool" where
  "remembered w m key now = (case m key of Some t \<Rightarrow> now - t \<le> w | None \<Rightarrow> False)"

fun spec_run :: "duration \<Rightarrow> (string \<rightharpoonup> gotime) \<Rightarrow> (event \<times> gotime) list \<Rightarrow> bool list" where
  "spec_run w m [] = []"
| "spec_run w m ((e, now) # calls) =
     remembered w m (dedupe_key e) now #
     spec_run w (if remembered w m (dedupe_key e) now then m else m(dedupe_key e \<mapsto> now)) calls"

text \<open>
  The bounded memory agrees with the specification's at an instant: it holds the same entry, or
  has forgotten one that is out of the window by then.
\<close>

definition agrees :: "duration \<Rightarrow> gotime \<Rightarrow> deduper \<Rightarrow> (string \<rightharpoonup> gotime) \<Rightarrow> bool" where
  "agrees w now d m \<longleftrightarrow> dd_window d = w \<and> distinct (map fst (dd_seen d)) \<and>
     (\<forall>k. map_of (dd_seen d) k = m k \<or>
          map_of (dd_seen d) k = None \<and> (\<exists>t. m k = Some t \<and> w < now - t))"

lemma agrees_later: "agrees w now d m \<Longrightarrow> now \<le> now' \<Longrightarrow> agrees w now' d m"
  unfolding agrees_def by (metis diff_right_mono less_le_trans)

lemma duplicate_agrees:
  assumes "agrees w now d m" and "0 \<le> w" and "2 * w < int64_max"
  shows "snd (duplicate d e now) = remembered w m (dedupe_key e) now \<and>
    agrees w now (fst (duplicate d e now))
      (if remembered w m (dedupe_key e) now then m else m(dedupe_key e \<mapsto> now))"
proof -
  let ?k = "dedupe_key e"
  have w: "dd_window d = w" "distinct (map fst (dd_seen d))" using assms(1) by (simp_all add: agrees_def)
  have ag: "map_of (dd_seen d) k = m k \<or> map_of (dd_seen d) k = None \<and> (\<exists>t. m k = Some t \<and> w < now - t)"
    for k using assms(1) by (simp add: agrees_def)
  have le: "time_sub now t \<le> w \<longleftrightarrow> now - t \<le> w" "dur_mul w 2 < time_sub now t \<longleftrightarrow> 2 * w < now - t" for t
    using assms(2,3) time_sub_le_iff [of w now t] time_sub_le_iff [of "2 * w" now t]
    by (auto simp: dur_mul_exact mult.commute)
  note look = ag [of ?k]
  show ?thesis
  proof (cases "remembered w m ?k now")
    case True
    with look have "map_of (dd_seen d) ?k = m ?k" by (auto simp: remembered_def)
    with True assms(1) show ?thesis
      by (auto simp: duplicate_def Let_def w le remembered_def split: option.splits)
  next
    case False
    let ?d = "d\<lparr>dd_seen := delete_where (\<lambda>_ seen. dur_mul (dd_window d) 2 < time_sub now seen)
                     (AList.update ?k now (dd_seen d))\<rparr>"
    have "\<not> now - t \<le> w" if "map_of (dd_seen d) ?k = Some t" for t
      using that False look by (simp add: remembered_def split: option.splits)
    then have r: "duplicate d e now = (?d, False)"
      by (cases "map_of (dd_seen d) ?k") (simp_all add: duplicate_def Let_def w(1) le)
    have upd: "distinct (map fst (AList.update ?k now (dd_seen d)))" using w(2) by (simp add: distinct_update)
    have "agrees w now ?d (m(?k \<mapsto> now))"
      unfolding agrees_def
    proof (intro conjI allI)
      fix k
      show "map_of (dd_seen ?d) k = (m(?k \<mapsto> now)) k \<or>
          map_of (dd_seen ?d) k = None \<and> (\<exists>t. (m(?k \<mapsto> now)) k = Some t \<and> w < now - t)"
        using assms(2) ag [of k]
        by (cases "m k"; cases "map_of (dd_seen d) k")
          (auto simp: map_of_delete_where [OF upd] update_conv' w(1) le)
    qed (simp_all add: w(1) distinct_delete_where upd)
    with False r show ?thesis by simp
  qed
qed

lemma dedupe_run_agrees:
  assumes "sorted (map snd calls)" and "\<forall>(e, now') \<in> set calls. now \<le> now'"
    and "agrees w now d m" and "0 \<le> w" and "2 * w < int64_max"
  shows "dedupe_run d calls = spec_run w m calls"
  using assms
proof (induction calls arbitrary: d m now)
  case (Cons call calls)
  obtain e t where c: "call = (e, t)" by (cases call)
  with Cons.prems have "agrees w t d m" by (auto intro: agrees_later)
  note step = duplicate_agrees [OF this Cons.prems(4,5), of e]
  obtain d' dup where r: "duplicate d e t = (d', dup)" by (cases "duplicate d e t")
  have "dedupe_run d' calls =
      spec_run w (if remembered w m (dedupe_key e) t then m else m(dedupe_key e \<mapsto> t)) calls"
    using Cons.prems c step r by (intro Cons.IH [of t]) auto
  with step r show ?case by (simp add: c)
qed simp

lemma dedupe_run_new:
  assumes "sorted (map snd calls)" and "0 \<le> w" and "2 * w < int64_max"
  shows "dedupe_run (new_deduper w) calls = spec_run w Map.empty calls"
proof (cases calls)
  case (Cons c cs)
  show ?thesis
  proof (rule dedupe_run_agrees [OF assms(1) _ _ assms(2,3)])
    show "agrees w (snd c) (new_deduper w) Map.empty" by (simp add: agrees_def new_deduper_def)
  qed (use assms(1) Cons in auto)
qed simp

section \<open>Facts about the specification\<close>

text \<open>An answer \<open>False\<close> is remembered from then on, and every remembered instant is recent.\<close>

lemma length_spec_run [simp]: "length (spec_run w m calls) = length calls"
  by (induction w m calls rule: spec_run.induct) auto

lemma spec_run_spacing_first:
  assumes "m k = Some t" and "sorted (map snd calls)" and "\<forall>(e, now) \<in> set calls. t \<le> now"
    and "j < length calls" and "\<not> spec_run w m calls ! j" and "dedupe_key (fst (calls ! j)) = k"
  shows "w < snd (calls ! j) - t"
  using assms
proof (induction w m calls arbitrary: j t rule: spec_run.induct)
  case (2 w m e now calls)
  let ?r = "remembered w m (dedupe_key e) now"
  show ?case
  proof (cases j)
    case 0
    with 2 show ?thesis by (auto simp: remembered_def)
  next
    case (Suc i)
    show ?thesis
    proof (cases "\<not> ?r \<and> dedupe_key e = k")
      case True
      have "w < snd (calls ! i) - now"
        using 2(2-7) True Suc by (intro 2(1) [of now]) auto
      with 2(4) show ?thesis using Suc by simp
    next
      case False
      with 2(2) have "(if ?r then m else m(dedupe_key e \<mapsto> now)) k = Some t" by auto
      with 2(1) [OF this, of i] 2(3-7) Suc show ?thesis by simp
    qed
  qed
qed simp

lemma spec_run_spacing:
  assumes "sorted (map snd calls)" and "i < j" and "j < length calls"
    and "\<not> spec_run w m calls ! i" and "\<not> spec_run w m calls ! j"
    and "dedupe_key (fst (calls ! i)) = dedupe_key (fst (calls ! j))"
  shows "w < snd (calls ! j) - snd (calls ! i)"
  using assms
proof (induction w m calls arbitrary: i j rule: spec_run.induct)
  case (2 w m e now calls)
  obtain j' where j: "j = Suc j'" using 2(3) by (cases j) auto
  show ?case
  proof (cases i)
    case 0
    have "w < snd (calls ! j') - now"
      by (rule spec_run_spacing_first [where m = "m(dedupe_key e \<mapsto> now)" and k = "dedupe_key e"])
        (use 2(2-7) 0 j in auto)
    with 0 j show ?thesis by simp
  next
    case (Suc i')
    with 2(1) [of i' j'] 2(2-7) j show ?thesis by simp
  qed
qed simp

lemma spec_run_reason:
  assumes "j < length calls" and "spec_run w m calls ! j"
  shows "(\<exists>t. m (dedupe_key (fst (calls ! j))) = Some t \<and> snd (calls ! j) - t \<le> w) \<or>
    (\<exists>i < j. \<not> spec_run w m calls ! i \<and> dedupe_key (fst (calls ! i)) = dedupe_key (fst (calls ! j)) \<and>
       snd (calls ! j) - snd (calls ! i) \<le> w)"
  using assms
proof (induction w m calls arbitrary: j rule: spec_run.induct)
  case (2 w m e now calls)
  show ?case
  proof (cases j)
    case 0
    with 2(3) show ?thesis by (auto simp: remembered_def split: option.splits)
  next
    case (Suc j')
    with 2(1) [of j'] 2(2,3) consider
      t where "(if remembered w m (dedupe_key e) now then m else m(dedupe_key e \<mapsto> now))
          (dedupe_key (fst (calls ! j'))) = Some t" "snd (calls ! j') - t \<le> w"
      | i where "i < j'" "\<not> spec_run w (if remembered w m (dedupe_key e) now then m else m(dedupe_key e \<mapsto> now)) calls ! i"
          "dedupe_key (fst (calls ! i)) = dedupe_key (fst (calls ! j'))" "snd (calls ! j') - snd (calls ! i) \<le> w"
      by auto
    then show ?thesis
    proof cases
      case (1 t)
      then show ?thesis using Suc by (cases "remembered w m (dedupe_key e) now") (auto split: if_splits)
    next
      case (2 i)
      then show ?thesis using Suc by (intro disjI2 exI [of _ "Suc i"]) simp
    qed
  qed
qed simp

section \<open>Keys\<close>

lemma dedupe_key_fields:
  "event_id e = [] \<Longrightarrow> dedupe_key e =
     join_str [CHR 0x00] [event_type_str (event_type e), session_id e, ev_path e, correlation_id e]"
  by (simp add: dedupe_key_def)

section \<open>Properties\<close>

text \<open>C9: forgetting is invisible.  On a clock that does not go back, the deduper with its pruned
  memory answers every delivery as one that remembers everything would.\<close>

theorem dedupe_refines_unbounded_memory:
  assumes "sorted (map snd calls)" and "0 \<le> w" and "2 * w < int64_max"
  shows "dedupe_run (new_deduper w) calls = spec_run w Map.empty calls"
  by (rule dedupe_run_new [OF assms])

text \<open>Within a window an event is processed at most once, and a delivery is suppressed only
  because one with its key was processed within the window before it.\<close>

theorem dedupe_at_most_once_per_window:
  assumes "sorted (map snd calls)" and "0 \<le> w" and "2 * w < int64_max" and "j < length calls"
  shows "(\<forall>i < j. \<not> dedupe_run (new_deduper w) calls ! i \<longrightarrow> \<not> dedupe_run (new_deduper w) calls ! j \<longrightarrow>
      dedupe_key (fst (calls ! i)) = dedupe_key (fst (calls ! j)) \<longrightarrow> w < snd (calls ! j) - snd (calls ! i)) \<and>
    (dedupe_run (new_deduper w) calls ! j \<longrightarrow>
      (\<exists>i < j. \<not> dedupe_run (new_deduper w) calls ! i \<and>
         dedupe_key (fst (calls ! i)) = dedupe_key (fst (calls ! j)) \<and>
         snd (calls ! j) - snd (calls ! i) \<le> w))"
proof -
  have r: "dedupe_run (new_deduper w) calls = spec_run w Map.empty calls"
    by (rule dedupe_run_new [OF assms(1-3)])
  show ?thesis unfolding r
    using spec_run_spacing [OF assms(1)] spec_run_reason [OF assms(4), of w Map.empty] assms(4) by auto
qed

text \<open>The fallback key is faithful.  Two events without id whose fields hold no NUL byte get
  the same key exactly when they agree in type, session, path and correlation.\<close>

theorem dedupe_key_faithful:
  assumes "event_id e = []" and "event_id f = []"
    and "\<forall>w \<in> {event_type_str (event_type e), session_id e, ev_path e, correlation_id e,
               event_type_str (event_type f), session_id f, ev_path f, correlation_id f}. CHR 0x00 \<notin> set w"
  shows "dedupe_key e = dedupe_key f \<longleftrightarrow>
    event_type_str (event_type e) = event_type_str (event_type f) \<and> session_id e = session_id f \<and>
    ev_path e = ev_path f \<and> correlation_id e = correlation_id f"
proof -
  let ?ws = "\<lambda>e. [event_type_str (event_type e), session_id e, ev_path e, correlation_id e]"
  have "split_char (CHR 0x00) (join_str [CHR 0x00] (?ws e)) = ?ws e"
    "split_char (CHR 0x00) (join_str [CHR 0x00] (?ws f)) = ?ws f"
    using assms(3) by (intro split_join; simp)+
  then have "join_str [CHR 0x00] (?ws e) = join_str [CHR 0x00] (?ws f) \<longleftrightarrow> ?ws e = ?ws f" by metis
  then show ?thesis unfolding dedupe_key_fields [OF assms(1)] dedupe_key_fields [OF assms(2)] by simp
qed

section \<open>Witnesses\<close>

definition sample_calls :: "(event \<times> gotime) list" where
  "sample_calls = [(zero_event\<lparr>event_id := ''a''\<rparr>, 0), (zero_event\<lparr>event_id := ''a''\<rparr>, 5),
     (zero_event\<lparr>event_id := ''a''\<rparr>, 20)]"

lemma sample_run: "dedupe_run (new_deduper 10) sample_calls = [False, True, False]"
  by (simp add: sample_calls_def new_deduper_def duplicate_def dedupe_key_def time_sub_def dur_mul_def
      delete_where_def)

theorem dedupe_refines_unbounded_memory_witness:
  "dedupe_run (new_deduper 10) sample_calls = spec_run 10 Map.empty sample_calls"
  by (rule dedupe_refines_unbounded_memory) (simp_all add: sample_calls_def)

theorem dedupe_at_most_once_per_window_witness:
  "\<exists>i < 1. \<not> dedupe_run (new_deduper 10) sample_calls ! i \<and>
     dedupe_key (fst (sample_calls ! i)) = dedupe_key (fst (sample_calls ! 1))"
proof -
  have "sorted (map snd sample_calls)" "1 < length sample_calls" by (simp_all add: sample_calls_def)
  from dedupe_at_most_once_per_window [OF this(1) _ _ this(2), of 10] show ?thesis
    by (auto simp: sample_run)
qed

theorem dedupe_key_faithful_witness:
  "dedupe_key (zero_event\<lparr>ev_path := ''a''\<rparr>) \<noteq> dedupe_key (zero_event\<lparr>ev_path := ''b''\<rparr>)"
  by (subst dedupe_key_faithful) (simp_all add: zero_event_def)

end
