(* ===== verification/Diff_Lines.thy ===== *)
theory Diff_Lines
  imports Session Utf8
begin

text \<open>
  Counting changed lines, \<^verbatim>\<open>internal/diff/pipeline.go\<close> from \<^verbatim>\<open>resolveDirect\<close> on: a delta the
  agent reported, a unified patch, or the two snapshots of a file.  The two-row table of
  \<^verbatim>\<open>countSnapshots\<close> is proved to hold the length of a longest common subsequence of the lines.
\<close>

section \<open>Requests and results\<close>

abbreviation newline :: char where "newline \<equiv> CHR 0x0A"
abbreviation status_known :: work_status where "status_known \<equiv> ''known''"
abbreviation status_empty :: work_status where "status_empty \<equiv> ''empty''"
abbreviation status_unknown :: work_status where "status_unknown \<equiv> ''unknown''"
abbreviation status_binary :: work_status where "status_binary \<equiv> ''binary''"
abbreviation status_unsupported :: work_status where "status_unsupported \<equiv> ''unsupported_encoding''"
abbreviation status_pending :: work_status where "status_pending \<equiv> ''pending''"
abbreviation source_structured_patch :: work_source where "source_structured_patch \<equiv> ''structured_patch''"
abbreviation source_snapshot :: work_source where "source_snapshot \<equiv> ''correlated_snapshot''"
abbreviation source_git_numstat :: work_source where "source_git_numstat \<equiv> ''git_numstat''"
abbreviation source_unknown :: work_source where "source_unknown \<equiv> ''unknown''"

text \<open>\<^verbatim>\<open>Before\<close> and \<^verbatim>\<open>After\<close> are slices, \<^const>\<open>None\<close> is the nil slice.\<close>

record request =
  rq_key :: string
  rq_session_id :: string
  rq_sequence :: int
  rq_project_root :: string
  rq_path :: string
  rq_added :: "int option"
  rq_deleted :: "int option"
  rq_patch :: "string option"
  rq_before :: "string option"
  rq_after :: "string option"
  rq_allow_snapshot :: bool
  rq_is_binary :: bool
  rq_confidence :: confidence

record result =
  rs_key :: string
  rs_session_id :: string
  rs_sequence :: int
  rs_path :: string
  rs_added :: "int option"
  rs_deleted :: "int option"
  rs_status :: work_status
  rs_source :: work_source
  rs_confidence :: confidence

definition new_result :: "request \<Rightarrow> int option \<Rightarrow> int option \<Rightarrow> work_status \<Rightarrow> work_source \<Rightarrow>
    confidence \<Rightarrow> result" where
  "new_result r added deleted status source conf =
     \<lparr>rs_key = rq_key r, rs_session_id = rq_session_id r, rs_sequence = rq_sequence r,
      rs_path = rq_path r, rs_added = added, rs_deleted = deleted, rs_status = status,
      rs_source = source, rs_confidence = (if conf = Conf_other [] then Conf_inferred else conf)\<rparr>"

definition unknown_result :: "request \<Rightarrow> result" where
  "unknown_result r = new_result r None None status_unknown source_unknown Conf_inferred"

lemma new_result_simps [simp]:
  "rs_key (new_result r a d st so c) = rq_key r" "rs_session_id (new_result r a d st so c) = rq_session_id r"
  "rs_sequence (new_result r a d st so c) = rq_sequence r" "rs_path (new_result r a d st so c) = rq_path r"
  "rs_added (new_result r a d st so c) = a" "rs_deleted (new_result r a d st so c) = d"
  "rs_status (new_result r a d st so c) = st" "rs_source (new_result r a d st so c) = so"
  by (simp_all add: new_result_def)

section \<open>Patches\<close>

definition crlf_to_lf :: "string \<Rightarrow> string" where
  "crlf_to_lf s = replace_all [CHR 0x0D, newline] [newline] s"

fun patch_loop :: "bool \<Rightarrow> int \<Rightarrow> int \<Rightarrow> string list \<Rightarrow> int \<times> int" where
  "patch_loop in_hunk added deleted [] = (added, deleted)"
| "patch_loop in_hunk added deleted (line # lines) =
     (if has_prefix line ''@@'' then patch_loop True added deleted lines
      else if \<not> in_hunk \<and> (has_prefix line ''+++'' \<or> has_prefix line ''---'')
      then patch_loop in_hunk added deleted lines
      else patch_loop in_hunk
        (if has_prefix line ''+'' \<and> \<not> has_prefix line ''+++'' then added + 1 else added)
        (if has_prefix line ''-'' \<and> \<not> has_prefix line ''---'' then deleted + 1 else deleted) lines)"

definition count_patch :: "string \<Rightarrow> int \<times> int \<times> work_status" where
  "count_patch patch =
     (if CHR 0x00 \<in> set patch \<or> contains patch ''Binary files '' then (0, 0, status_binary)
      else if \<not> utf8_valid patch then (0, 0, status_unsupported)
      else (case patch_loop False 0 0 (split_char newline (crlf_to_lf patch)) of (added, deleted) \<Rightarrow>
        if added = 0 \<and> deleted = 0 then (0, 0, status_empty) else (added, deleted, status_known)))"

section \<open>Snapshots\<close>

definition max_snapshot_cells :: int where "max_snapshot_cells = 1000000"

definition split_lines :: "string \<Rightarrow> string list" where
  "split_lines value =
     (let value = trim_suffix (crlf_to_lf value) [newline] in
      if value = [] then [] else split_char newline value)"

text \<open>The inner loop: \<open>i\<close> is \<^verbatim>\<open>index\<close>, the list is \<^verbatim>\<open>right[index:]\<close>.\<close>

fun row_loop :: "string \<Rightarrow> string list \<Rightarrow> nat \<Rightarrow> int list \<Rightarrow> int list \<Rightarrow> int list" where
  "row_loop l [] i previous cur = cur"
| "row_loop l (r # rs) i previous cur =
     row_loop l rs (i + 1) previous
       (cur[i + 1 := if l = r then previous ! i + 1 else max (cur ! i) (previous ! (i + 1))])"

text \<open>The outer loop with the swap and \<^verbatim>\<open>clear(current)\<close>.\<close>

fun table_loop :: "string list \<Rightarrow> string list \<Rightarrow> int list \<Rightarrow> int list \<Rightarrow> int list" where
  "table_loop [] right previous cur = previous"
| "table_loop (l # ls) right previous cur =
     table_loop ls right (row_loop l right 0 previous cur) (replicate (length previous) 0)"

definition count_snapshots :: "string \<Rightarrow> string \<Rightarrow> int \<times> int \<times> work_status" where
  "count_snapshots before after =
     (if CHR 0x00 \<in> set before \<or> CHR 0x00 \<in> set after then (0, 0, status_binary)
      else if \<not> utf8_valid before \<or> \<not> utf8_valid after then (0, 0, status_unsupported)
      else
        let left = split_lines before; right = split_lines after in
        if max_snapshot_cells < int (length left) * int (length right) then (0, 0, status_unknown)
        else
          let zeros = replicate (length right + 1) 0;
              common = table_loop left right zeros zeros ! length right;
              added = int (length right) - common;
              deleted = int (length left) - common
          in if added = 0 \<and> deleted = 0 then (0, 0, status_empty) else (added, deleted, status_known))"

section \<open>Direct resolution\<close>

definition resolve_direct :: "request \<Rightarrow> result option" where
  "resolve_direct r =
     (if rq_is_binary r
      then Some (new_result r None None status_binary source_structured_patch (rq_confidence r))
      else if rq_added r \<noteq> None \<or> rq_deleted r \<noteq> None then
        let added = (case rq_added r of Some n \<Rightarrow> max 0 n | None \<Rightarrow> 0);
            deleted = (case rq_deleted r of Some n \<Rightarrow> max 0 n | None \<Rightarrow> 0);
            status = (if added = 0 \<and> deleted = 0 then status_empty else status_known)
        in Some (new_result r (Some added) (Some deleted) status source_structured_patch (rq_confidence r))
      else case rq_patch r of
        Some patch \<Rightarrow>
          (case count_patch patch of (added, deleted, status) \<Rightarrow>
            if status = status_known \<or> status = status_empty
            then Some (new_result r (Some added) (Some deleted) status source_structured_patch (rq_confidence r))
            else Some (new_result r None None status source_structured_patch (rq_confidence r)))
      | None \<Rightarrow>
          if rq_allow_snapshot r \<and> (rq_before r \<noteq> None \<or> rq_after r \<noteq> None) then
            (case count_snapshots (case rq_before r of Some b \<Rightarrow> b | None \<Rightarrow> [])
                    (case rq_after r of Some a \<Rightarrow> a | None \<Rightarrow> []) of (added, deleted, status) \<Rightarrow>
              if status = status_known \<or> status = status_empty
              then Some (new_result r (Some added) (Some deleted) status source_snapshot Conf_correlated)
              else if status = status_unknown then None
              else Some (new_result r None None status source_snapshot Conf_correlated))
          else None)"

section \<open>Longest common subsequences\<close>

fun lcs :: "'a list \<Rightarrow> 'a list \<Rightarrow> int" where
  "lcs [] ys = 0"
| "lcs (x # xs) [] = 0"
| "lcs (x # xs) (y # ys) = (if x = y then lcs xs ys + 1 else max (lcs (x # xs) ys) (lcs xs (y # ys)))"

lemma lcs_Nil2 [simp]: "lcs xs [] = 0"
  by (cases xs) auto

lemma lcs_nonneg [simp]: "0 \<le> lcs xs ys"
  by (induction xs ys rule: lcs.induct) auto

lemma lcs_attained: "\<exists>zs. subseq zs xs \<and> subseq zs ys \<and> int (length zs) = lcs xs ys"
proof (induction xs ys rule: lcs.induct)
  case (3 x xs y ys)
  show ?case
  proof (cases "x = y")
    case True
    with 3(1) obtain zs where "subseq zs xs" "subseq zs ys" "int (length zs) = lcs xs ys" by blast
    with True show ?thesis by (intro exI [of _ "x # zs"]) simp
  next
    case False
    from 3(2) [OF False] 3(3) [OF False] show ?thesis
      using False by (auto simp: max_def intro: list_emb_Cons)
  qed
qed auto

lemma lcs_upper: "subseq zs xs \<Longrightarrow> subseq zs ys \<Longrightarrow> int (length zs) \<le> lcs xs ys"
proof (induction xs ys arbitrary: zs rule: lcs.induct)
  case (3 x xs y ys)
  show ?case
  proof (cases zs)
    case (Cons z ws)
    show ?thesis
    proof (cases "x = y")
      case True
      show ?thesis
      proof (cases "z = x")
        case True
        with \<open>x = y\<close> Cons "3.prems" "3.IH"(1) [of ws] show ?thesis by simp
      next
        case False
        with \<open>x = y\<close> Cons "3.prems" "3.IH"(1) [of zs] show ?thesis by (auto simp: subseq_Cons2_neq)
      qed
    next
      case False
      then consider "z \<noteq> x" | "z \<noteq> y" by blast
      then show ?thesis
      proof cases
        case 1
        with Cons "3.prems" have "subseq zs xs" by (auto simp: subseq_Cons2_neq)
        from "3.IH"(3) [OF False this "3.prems"(2)] False show ?thesis by simp
      next
        case 2
        with Cons "3.prems" have "subseq zs ys" by (auto simp: subseq_Cons2_neq)
        from "3.IH"(2) [OF False "3.prems"(1) this] False show ?thesis by simp
      qed
    qed
  qed (simp add: le_max_iff_disj)
qed auto

lemma subseq_rev_imp: "subseq xs ys \<Longrightarrow> subseq (rev xs) (rev ys)"
  by (induction rule: list_emb.induct) (auto intro: list_emb_append_mono)

lemma subseq_rev: "subseq (rev xs) (rev ys) = subseq xs ys"
  using subseq_rev_imp [of xs ys] subseq_rev_imp [of "rev xs" "rev ys"] by auto

text \<open>\<open>longest_common xs ys n\<close>: a longest common subsequence of the two lists has length \<open>n\<close>.\<close>

definition longest_common :: "'a list \<Rightarrow> 'a list \<Rightarrow> int \<Rightarrow> bool" where
  "longest_common xs ys n \<longleftrightarrow>
     (\<exists>zs. subseq zs xs \<and> subseq zs ys \<and> int (length zs) = n) \<and>
     (\<forall>zs. subseq zs xs \<and> subseq zs ys \<longrightarrow> int (length zs) \<le> n)"

lemma lcs_longest: "longest_common xs ys (lcs (rev xs) (rev ys))"
proof -
  obtain zs where "subseq zs (rev xs)" "subseq zs (rev ys)" "int (length zs) = lcs (rev xs) (rev ys)"
    using lcs_attained by blast
  then have "subseq (rev zs) xs" "subseq (rev zs) ys" "int (length (rev zs)) = lcs (rev xs) (rev ys)"
    by (metis rev_rev_ident subseq_rev, metis rev_rev_ident subseq_rev, simp)
  moreover have "int (length ws) \<le> lcs (rev xs) (rev ys)" if "subseq ws xs" "subseq ws ys" for ws
    using lcs_upper [of "rev ws" "rev xs" "rev ys"] that by (simp add: subseq_rev)
  ultimately show ?thesis unfolding longest_common_def by blast
qed

section \<open>The table\<close>

lemma row_loop_lcs:
  assumes "rs = drop i right" and "i \<le> length right"
    and "length previous = length right + 1" and "length cur = length right + 1"
    and "\<forall>j \<le> length right. previous ! j = lcs p (rev (take j right))"
    and "\<forall>j \<le> i. cur ! j = lcs (l # p) (rev (take j right))"
  shows "length (row_loop l rs i previous cur) = length right + 1 \<and>
    (\<forall>j \<le> length right. row_loop l rs i previous cur ! j = lcs (l # p) (rev (take j right)))"
  using assms
proof (induction rs arbitrary: i cur)
  case (Cons r rs)
  then have i: "i < length right" by (metis drop_all leI list.distinct(1))
  with Cons.prems(1) have r: "r = right ! i" "rs = drop (i + 1) right"
    by (metis Cons_nth_drop_Suc list.inject, metis Cons_nth_drop_Suc Suc_eq_plus1 list.inject)
  let ?cur = "cur[i + 1 := if l = r then previous ! i + 1 else max (cur ! i) (previous ! (i + 1))]"
  have tk: "rev (take (i + 1) right) = r # rev (take i right)"
    using i r(1) by (simp add: take_Suc_conv_app_nth)
  have new: "?cur ! (i + 1) = lcs (l # p) (rev (take (i + 1) right))"
    using Cons.prems(4-6) i tk by auto
  have "\<forall>j \<le> i + 1. ?cur ! j = lcs (l # p) (rev (take j right))"
  proof (intro allI impI)
    fix j assume "j \<le> i + 1"
    then consider "j = i + 1" | "j \<le> i" by linarith
    then show "?cur ! j = lcs (l # p) (rev (take j right))"
      by cases (use new Cons.prems(6) in auto)
  qed
  then show ?case unfolding row_loop.simps
    using i r(2) Cons.prems(3-5) by (intro Cons.IH) auto
qed simp

lemma table_loop_lcs:
  assumes "length previous = length right + 1" and "cur = replicate (length right + 1) 0"
    and "\<forall>j \<le> length right. previous ! j = lcs p (rev (take j right))"
  shows "table_loop left right previous cur ! length right = lcs (rev left @ p) (rev right)"
  using assms
proof (induction left arbitrary: p previous cur)
  case (Cons l ls)
  have cur: "\<forall>j \<le> 0. cur ! j = lcs (l # p) (rev (take j right))" using Cons.prems(2) by simp
  note row = row_loop_lcs [OF drop_0 [symmetric] le0 Cons.prems(1) _ Cons.prems(3) cur]
  have "length cur = length right + 1" using Cons.prems(2) by simp
  note row = row [OF this]
  show ?case using Cons.IH [of "row_loop l right 0 previous cur" _ "l # p"] row Cons.prems(1) by simp
qed simp

lemma table_common:
  "table_loop left right (replicate (Suc (length right)) 0) (replicate (Suc (length right)) 0) ! length right
     = lcs (rev left) (rev right)"
  by (subst table_loop_lcs [where p = "[]"]) (auto simp: nth_replicate simp del: replicate_Suc)

lemma longest_common_unique: "longest_common xs ys m \<Longrightarrow> longest_common xs ys n \<Longrightarrow> m = n"
  unfolding longest_common_def by (metis order_antisym)

lemma longest_common_bounds: "longest_common xs ys n \<Longrightarrow> 0 \<le> n \<and> n \<le> int (length xs) \<and> n \<le> int (length ys)"
  unfolding longest_common_def by (metis list_emb_length of_nat_0_le_iff of_nat_le_iff)

lemma longest_common_same:
  "longest_common xs ys n \<Longrightarrow> n = int (length xs) \<Longrightarrow> n = int (length ys) \<Longrightarrow> xs = ys"
  unfolding longest_common_def by (metis of_nat_eq_iff subseq_same_length)

section \<open>Patches: hunk lines\<close>

text \<open>A line of a hunk as \<^verbatim>\<open>diff -u\<close> prints it: a mark and the content.\<close>

datatype hunk_line = Context string | Added string | Deleted string

fun show_line :: "hunk_line \<Rightarrow> string" where
  "show_line (Context s) = CHR '' '' # s"
| "show_line (Added s) = CHR ''+'' # s"
| "show_line (Deleted s) = CHR ''-'' # s"

fun line_text :: "hunk_line \<Rightarrow> string" where
  "line_text (Context s) = s" | "line_text (Added s) = s" | "line_text (Deleted s) = s"

fun is_added :: "hunk_line \<Rightarrow> bool" where
  "is_added (Added _) = True" | "is_added _ = False"

fun is_deleted :: "hunk_line \<Rightarrow> bool" where
  "is_deleted (Deleted _) = True" | "is_deleted _ = False"

lemma patch_loop_hunk:
  assumes "\<forall>l \<in> set ls. \<not> has_prefix (line_text l) ''++'' \<and> \<not> has_prefix (line_text l) ''--''"
  shows "patch_loop True a d (map show_line ls) =
    (a + int (length (filter is_added ls)), d + int (length (filter is_deleted ls)))"
  using assms
proof (induction ls arbitrary: a d)
  case (Cons l ls)
  then show ?case by (cases l) (simp_all add: has_prefix_def)
qed simp

lemma patch_loop_nonneg:
  "0 \<le> a \<Longrightarrow> 0 \<le> d \<Longrightarrow> patch_loop h a d ls = (a', d') \<Longrightarrow> 0 \<le> a' \<and> 0 \<le> d'"
  by (induction h a d ls rule: patch_loop.induct) (auto split: if_splits)

lemma count_patch_cases:
  assumes "count_patch p = (a, d, st)"
  shows "st = status_known \<and> 0 \<le> a \<and> 0 \<le> d \<and> \<not> (a = 0 \<and> d = 0) \<or> st = status_empty \<and> a = 0 \<and> d = 0 \<or>
    st = status_binary \<or> st = status_unsupported"
proof -
  let ?ls = "split_char newline (crlf_to_lf p)"
  obtain x y where l: "patch_loop False 0 0 ?ls = (x, y)" by (cases "patch_loop False 0 0 ?ls")
  with patch_loop_nonneg [OF _ _ l] assms show ?thesis
    by (auto simp: count_patch_def split: if_splits)
qed

lemma count_snapshots_cases:
  assumes "count_snapshots x y = (a, d, st)"
  shows "st = status_known \<and> 0 \<le> a \<and> 0 \<le> d \<and> \<not> (a = 0 \<and> d = 0) \<or> st = status_empty \<and> a = 0 \<and> d = 0 \<or>
    st = status_binary \<or> st = status_unsupported \<or> st = status_unknown"
proof -
  define l r where "l = int (length (split_lines x))" and "r = int (length (split_lines y))"
  define n where "n = lcs (rev (split_lines x)) (rev (split_lines y))"
  have b: "n \<le> l" "n \<le> r"
    using longest_common_bounds [OF lcs_longest [of "split_lines x" "split_lines y"]]
    by (simp_all add: l_def r_def n_def)
  have "count_snapshots x y = (0, 0, status_binary) \<or> count_snapshots x y = (0, 0, status_unsupported) \<or>
      count_snapshots x y = (0, 0, status_unknown) \<or> count_snapshots x y = (0, 0, status_empty) \<or>
      count_snapshots x y = (r - n, l - n, status_known) \<and> \<not> (r - n = 0 \<and> l - n = 0)"
    by (simp add: count_snapshots_def Let_def table_common n_def l_def r_def del: replicate_Suc)
  with assms b show ?thesis by (elim disjE) simp_all
qed

section \<open>Properties\<close>

text \<open>C10: the snapshot delta is a minimal line diff.  For two text snapshots within the cell
  budget the counts are the numbers of lines outside a longest common subsequence of their
  lines, and the result is "empty" exactly when the lines are the same.\<close>

theorem count_snapshots_minimal:
  assumes "CHR 0x00 \<notin> set before" and "CHR 0x00 \<notin> set after" and "utf8_valid before" and "utf8_valid after"
    and "int (length (split_lines before)) * int (length (split_lines after)) \<le> max_snapshot_cells"
  shows "\<exists>n. longest_common (split_lines before) (split_lines after) n \<and>
    count_snapshots before after =
      (int (length (split_lines after)) - n, int (length (split_lines before)) - n,
       if split_lines before = split_lines after then status_empty else status_known)"
proof -
  let ?l = "split_lines before" and ?r = "split_lines after"
  let ?n = "lcs (rev ?l) (rev ?r)"
  have lc: "longest_common ?l ?r ?n" by (rule lcs_longest)
  have eq: "?l = ?r \<longleftrightarrow> int (length ?r) - ?n = 0 \<and> int (length ?l) - ?n = 0"
  proof
    assume "?l = ?r"
    then have "longest_common ?l ?r (int (length ?l))"
      unfolding longest_common_def by (auto dest: list_emb_length)
    from longest_common_unique [OF this lc] \<open>?l = ?r\<close>
    show "int (length ?r) - ?n = 0 \<and> int (length ?l) - ?n = 0" by simp
  next
    assume "int (length ?r) - ?n = 0 \<and> int (length ?l) - ?n = 0"
    with longest_common_same [OF lc] show "?l = ?r" by simp
  qed
  have "count_snapshots before after = (int (length ?r) - ?n, int (length ?l) - ?n,
      if ?l = ?r then status_empty else status_known)"
    using assms eq by (simp add: count_snapshots_def Let_def table_common del: replicate_Suc)
  with lc show ?thesis by blast
qed

text \<open>A reported, patched or compared delta never has negative counts, carries counts exactly
  when its status is "known" or "empty", and is "empty" exactly when both are zero.\<close>

theorem resolve_direct_consistent:
  assumes "resolve_direct r = Some s"
  shows "(case (rs_added s, rs_deleted s) of
       (Some a, Some d) \<Rightarrow> 0 \<le> a \<and> 0 \<le> d \<and>
          rs_status s = (if a = 0 \<and> d = 0 then status_empty else status_known)
     | (None, None) \<Rightarrow> rs_status s = status_binary \<or> rs_status s = status_unsupported
     | _ \<Rightarrow> False) \<and> rs_key s = rq_key r \<and> rs_sequence s = rq_sequence r"
proof (cases "rq_is_binary r \<or> rq_added r \<noteq> None \<or> rq_deleted r \<noteq> None")
  case True
  define a where "a = (case rq_added r of Some n \<Rightarrow> max 0 n | None \<Rightarrow> 0)"
  define d where "d = (case rq_deleted r of Some n \<Rightarrow> max 0 n | None \<Rightarrow> 0)"
  have "0 \<le> a" "0 \<le> d" by (simp_all add: a_def d_def split: option.splits)
  moreover have "(rq_added r \<noteq> None \<or> rq_deleted r \<noteq> None) = True" if "\<not> rq_is_binary r" using that True by simp
  then have "resolve_direct r = (if rq_is_binary r
      then Some (new_result r None None status_binary source_structured_patch (rq_confidence r))
      else Some (new_result r (Some a) (Some d) (if a = 0 \<and> d = 0 then status_empty else status_known)
        source_structured_patch (rq_confidence r)))"
    unfolding resolve_direct_def a_def d_def Let_def by (cases "rq_is_binary r") (simp_all only: if_True if_False not_False_eq_True simp_thms)
  ultimately show ?thesis using assms by (auto split: if_splits)
next
  case False
  show ?thesis
  proof (cases "rq_patch r")
    case (Some patch)
    obtain a d st where c: "count_patch patch = (a, d, st)" by (cases "count_patch patch")
    from count_patch_cases [OF c] False Some assms show ?thesis
      by (elim disjE) (auto simp: resolve_direct_def c)
  next
    case None
    let ?b = "case rq_before r of Some b \<Rightarrow> b | None \<Rightarrow> []" and ?a = "case rq_after r of Some a \<Rightarrow> a | None \<Rightarrow> []"
    obtain a d st where c: "count_snapshots ?b ?a = (a, d, st)" by (cases "count_snapshots ?b ?a")
    have "rq_allow_snapshot r \<and> (rq_before r \<noteq> None \<or> rq_after r \<noteq> None)"
      using False None assms by (simp add: resolve_direct_def split: if_splits)
    with False None assms have "Some s = (if st = status_known \<or> st = status_empty
              then Some (new_result r (Some a) (Some d) st source_snapshot Conf_correlated)
              else if st = status_unknown then None
              else Some (new_result r None None st source_snapshot Conf_correlated))"
      by (simp add: resolve_direct_def c)
    with count_snapshots_cases [OF c] show ?thesis
      by (elim disjE) (auto split: if_splits)
  qed
qed

text \<open>In a hunk whose content lines do not start with two plus or two minus signs, the counts
  are the numbers of added and of deleted lines.\<close>

theorem patch_loop_counts_hunk:
  assumes "\<forall>l \<in> set ls. \<not> has_prefix (line_text l) ''++'' \<and> \<not> has_prefix (line_text l) ''--''"
  shows "patch_loop False 0 0 ([''--- a/f'', ''+++ b/f'', ''@@ -1 +1 @@''] @ map show_line ls) =
    (int (length (filter is_added ls)), int (length (filter is_deleted ls)))"
  using patch_loop_hunk [OF assms, of 0 0] by (simp add: has_prefix_def)

text \<open>A defect of the patch counter.  Inside a hunk a line that adds the text \<^verbatim>\<open>++i;\<close> is
  printed as \<^verbatim>\<open>+++i;\<close>, which the counter takes for a file header although it knows it is in
  a hunk: the patch below adds one line and deletes one, and is reported as empty.\<close>

theorem count_patch_misses_marked_lines:
  "count_patch (join_str [newline] [''--- a/f'', ''+++ b/f'', ''@@ -1 +1 @@'',
      show_line (Deleted ''--i;''), show_line (Added ''++i;'')]) = (0, 0, status_empty)"
  by (simp add: count_patch_def crlf_to_lf_def contains_def has_prefix_def byte_def)

section \<open>Witnesses\<close>

theorem count_snapshots_minimal_witness:
  "\<exists>n. longest_common (split_lines ''a'') (split_lines ''b'') n \<and>
     count_snapshots ''a'' ''b'' = (1 - n, 1 - n, status_known)"
proof -
  have "split_lines ''a'' = [''a'']" "split_lines ''b'' = [''b'']"
    by (simp_all add: split_lines_def crlf_to_lf_def has_prefix_def trim_suffix_def has_suffix_def suffix_def)
  with count_snapshots_minimal [of "''a''" "''b''"] show ?thesis
    by (simp add: max_snapshot_cells_def byte_def)
qed

definition sample_request :: request where
  "sample_request = \<lparr>rq_key = ''k'', rq_session_id = ''s'', rq_sequence = 1, rq_project_root = ''/p'',
     rq_path = ''f'', rq_added = Some 3, rq_deleted = None, rq_patch = None, rq_before = None,
     rq_after = None, rq_allow_snapshot = False, rq_is_binary = False, rq_confidence = Conf_exact\<rparr>"

theorem resolve_direct_consistent_witness:
  "\<exists>s. resolve_direct sample_request = Some s \<and> rs_key s = ''k'' \<and> rs_added s = Some 3"
proof -
  obtain s where s: "resolve_direct sample_request = Some s" "rs_added s = Some 3"
    by (simp add: resolve_direct_def sample_request_def new_result_def)
  with resolve_direct_consistent [OF s(1)] show ?thesis by (auto simp: sample_request_def)
qed

theorem patch_loop_counts_hunk_witness:
  "patch_loop False 0 0 ([''--- a/f'', ''+++ b/f'', ''@@ -1 +1 @@''] @ map show_line [Added ''x'', Context ''y'']) = (1, 0)"
  by (subst patch_loop_counts_hunk) (simp_all add: has_prefix_def)

end
