(* ===== verification/Diff_Pipeline.thy ===== *)
theory Diff_Pipeline
  imports Diff_Lines
begin

text \<open>
  The asynchronous pipeline of \<^verbatim>\<open>internal/diff/pipeline.go\<close>: callers of \<^verbatim>\<open>Offer\<close>, one worker
  goroutine and the consumer of the results run concurrently.  Each function below is one
  atomic action of one of them (a critical section, or a channel operation), and
  \<open>pipeline_step\<close> interleaves them freely.
\<close>

section \<open>State\<close>

record git_delta =
  gd_added :: int
  gd_deleted :: int
  gd_binary :: bool

record pipeline_stats =
  ps_accepted :: u64
  ps_dropped :: u64
  ps_duplicates :: u64
  ps_completed :: u64

datatype submit_outcome = Submit_accepted | Submit_duplicate | Submit_dropped

text \<open>Where the worker stands: waiting for a first request, collecting a batch, publishing, just
  after a send in \<^verbatim>\<open>publish\<close>, returned.\<close>

datatype worker =
    W_idle
  | W_collect "request list"
  | W_publish "result list"
  | W_remember result "result list"
  | W_done

text \<open>
  \<open>pl_offering\<close> holds the requests of calls of \<^verbatim>\<open>Offer\<close> that have marked their key and not yet
  come to the \<^verbatim>\<open>select\<close>, \<open>pl_dropping\<close> those about to undo the mark, \<open>pl_counting\<close> counts those
  about to increment \<^verbatim>\<open>Accepted\<close>.  \<open>pl_published\<close> is the history of the keys sent to the
  consumer.
\<close>

record pipeline =
  pl_capacity :: int
  pl_batch_size :: int
  pl_max_recent :: int
  pl_queue :: "request list"
  pl_results :: "result list"
  pl_cancelled :: bool
  pl_pending :: "string set"
  pl_recent :: "string set"
  pl_order :: "string list"
  pl_stats :: pipeline_stats
  pl_worker :: worker
  pl_offering :: "request list"
  pl_dropping :: "request list"
  pl_counting :: nat
  pl_published :: "string list"

definition new_pipeline :: "int \<Rightarrow> int \<Rightarrow> pipeline" where
  "new_pipeline capacity0 batch0 =
     (let capacity = (if capacity0 < 1 then 1 else capacity0);
          batch = (if batch0 < 1 then 1 else batch0)
      in \<lparr>pl_capacity = capacity, pl_batch_size = batch, pl_max_recent = max 64 (capacity * 4),
          pl_queue = [], pl_results = [], pl_cancelled = False, pl_pending = {}, pl_recent = {},
          pl_order = [], pl_stats = \<lparr>ps_accepted = 0, ps_dropped = 0, ps_duplicates = 0, ps_completed = 0\<rparr>,
          pl_worker = W_idle, pl_offering = [], pl_dropping = [], pl_counting = 0, pl_published = []\<rparr>)"

section \<open>A batch\<close>

text \<open>\<^verbatim>\<open>process\<close>: the results of a batch in the order they are published, the direct ones first.
  The groups are a Go map, so they come in any order; \<open>runner\<close> is the outcome of the calls of
  \<^verbatim>\<open>Numstat\<close>, \<^const>\<open>None\<close> for an error, and \<open>has_runner\<close> tells \<^verbatim>\<open>p.runner != nil\<close>.\<close>

type_synonym runner = "string \<Rightarrow> string list \<Rightarrow> (string \<rightharpoonup> git_delta) option"

definition direct_result :: "bool \<Rightarrow> request \<Rightarrow> result option" where
  "direct_result has_runner r =
     (case resolve_direct r of
        Some s \<Rightarrow> Some s
      | None \<Rightarrow> if rq_project_root r = [] \<or> rq_path r = [] \<or> \<not> has_runner
          then Some (unknown_result r) else None)"

fun add_group :: "request \<Rightarrow> (string \<times> request list) list \<Rightarrow> (string \<times> request list) list" where
  "add_group r [] = [(rq_project_root r, [r])]"
| "add_group r ((root, rs) # gs) =
     (if root = rq_project_root r then (root, rs @ [r]) # gs else (root, rs) # add_group r gs)"

definition git_groups :: "bool \<Rightarrow> request list \<Rightarrow> (string \<times> request list) list" where
  "git_groups has_runner batch =
     fold add_group (filter (\<lambda>r. direct_result has_runner r = None) batch) []"

definition git_result :: "(string \<rightharpoonup> git_delta) option \<Rightarrow> request \<Rightarrow> result" where
  "git_result values r =
     (case values of
        None \<Rightarrow> unknown_result r
      | Some m \<Rightarrow>
          (case m (rq_path r) of
             None \<Rightarrow> unknown_result r
           | Some v \<Rightarrow>
               if gd_binary v then new_result r None None status_binary source_git_numstat Conf_correlated
               else new_result r (Some (gd_added v)) (Some (gd_deleted v))
                 (if gd_added v = 0 \<and> gd_deleted v = 0 then status_empty else status_known)
                 source_git_numstat Conf_correlated))"

definition group_results :: "runner \<Rightarrow> string \<times> request list \<Rightarrow> result list" where
  "group_results runner g =
     (case g of (root, rs) \<Rightarrow>
        let paths = keep_first (\<lambda>p. p) {} (map rq_path rs) in
        map (git_result (runner root paths)) rs)"

definition process :: "runner \<Rightarrow> bool \<Rightarrow> (string \<times> request list) list \<Rightarrow> request list \<Rightarrow> result list" where
  "process runner has_runner groups batch =
     List.map_filter (direct_result has_runner) batch @ concat (map (group_results runner) groups)"

section \<open>Atomic actions\<close>

definition copy_slice :: "string option \<Rightarrow> string option" where
  "copy_slice s = (case s of Some [] \<Rightarrow> None | _ \<Rightarrow> s)"

text \<open>\<^verbatim>\<open>Offer\<close> up to its \<^verbatim>\<open>select\<close>; the outcome when it returns before.\<close>

definition offer_begin :: "pipeline \<Rightarrow> request \<Rightarrow> pipeline \<times> submit_outcome option" where
  "offer_begin p r0 =
     (if rq_key r0 = [] then (p, Some Submit_dropped)
      else
        let r = r0\<lparr>rq_before := copy_slice (rq_before r0), rq_after := copy_slice (rq_after r0)\<rparr> in
        if rq_key r \<in> pl_pending p \<or> rq_key r \<in> pl_recent p
        then (p\<lparr>pl_stats := (pl_stats p)\<lparr>ps_duplicates := ps_duplicates (pl_stats p) + 1\<rparr>\<rparr>,
              Some Submit_duplicate)
        else (p\<lparr>pl_pending := insert (rq_key r) (pl_pending p), pl_offering := r # pl_offering p\<rparr>, None))"

definition queue_full :: "pipeline \<Rightarrow> bool" where
  "queue_full p \<longleftrightarrow> pl_capacity p \<le> int (length (pl_queue p))"

definition offer_enqueue :: "pipeline \<Rightarrow> request \<Rightarrow> pipeline" where
  "offer_enqueue p r = p\<lparr>pl_queue := pl_queue p @ [r], pl_offering := remove1 r (pl_offering p),
     pl_counting := pl_counting p + 1\<rparr>"

definition offer_count :: "pipeline \<Rightarrow> pipeline" where
  "offer_count p = p\<lparr>pl_counting := pl_counting p - 1,
     pl_stats := (pl_stats p)\<lparr>ps_accepted := ps_accepted (pl_stats p) + 1\<rparr>\<rparr>"

definition offer_refuse :: "pipeline \<Rightarrow> request \<Rightarrow> pipeline" where
  "offer_refuse p r = p\<lparr>pl_offering := remove1 r (pl_offering p), pl_dropping := r # pl_dropping p\<rparr>"

definition offer_drop :: "pipeline \<Rightarrow> request \<Rightarrow> pipeline" where
  "offer_drop p r = p\<lparr>pl_dropping := remove1 r (pl_dropping p), pl_pending := pl_pending p - {rq_key r},
     pl_stats := (pl_stats p)\<lparr>ps_dropped := ps_dropped (pl_stats p) + 1\<rparr>\<rparr>"

definition remember_locked :: "pipeline \<Rightarrow> string \<Rightarrow> pipeline" where
  "remember_locked p key =
     (if key \<in> pl_recent p then p
      else
        let p1 = p\<lparr>pl_recent := insert key (pl_recent p), pl_order := pl_order p @ [key]\<rparr> in
        if int (length (pl_order p1)) \<le> pl_max_recent p1 then p1
        else p1\<lparr>pl_order := tl (pl_order p1), pl_recent := pl_recent p1 - {hd (pl_order p1)}\<rparr>)"

definition publish_send :: "pipeline \<Rightarrow> result \<Rightarrow> result list \<Rightarrow> pipeline" where
  "publish_send p s ss = p\<lparr>pl_results := pl_results p @ [s], pl_worker := W_remember s ss,
     pl_published := pl_published p @ [rs_key s]\<rparr>"

definition publish_remember :: "pipeline \<Rightarrow> result \<Rightarrow> result list \<Rightarrow> pipeline" where
  "publish_remember p s ss =
     (let p1 = remember_locked (p\<lparr>pl_pending := pl_pending p - {rs_key s}\<rparr>) (rs_key s)
      in p1\<lparr>pl_worker := W_publish ss,
            pl_stats := (pl_stats p1)\<lparr>ps_completed := ps_completed (pl_stats p1) + 1\<rparr>\<rparr>)"

section \<open>Interleaving\<close>

inductive pipeline_step :: "pipeline \<Rightarrow> pipeline \<Rightarrow> bool" where
  offer_begin: "pipeline_step p (fst (offer_begin p r))"
| offer_enqueue: "r \<in> set (pl_offering p) \<Longrightarrow> \<not> queue_full p \<Longrightarrow> pipeline_step p (offer_enqueue p r)"
| offer_count: "0 < pl_counting p \<Longrightarrow> pipeline_step p (offer_count p)"
| offer_refuse: "r \<in> set (pl_offering p) \<Longrightarrow> pl_cancelled p \<or> queue_full p \<Longrightarrow> pipeline_step p (offer_refuse p r)"
| offer_drop: "r \<in> set (pl_dropping p) \<Longrightarrow> pipeline_step p (offer_drop p r)"
| receive: "pl_worker p = W_idle \<Longrightarrow> pl_queue p = r # rs \<Longrightarrow>
    pipeline_step p (p\<lparr>pl_queue := rs, pl_worker := W_collect [r]\<rparr>)"
| collect: "pl_worker p = W_collect batch \<Longrightarrow> int (length batch) < pl_batch_size p \<Longrightarrow> pl_queue p = r # rs \<Longrightarrow>
    pipeline_step p (p\<lparr>pl_queue := rs, pl_worker := W_collect (batch @ [r])\<rparr>)"
| process: "pl_worker p = W_collect batch \<Longrightarrow> mset groups = mset (git_groups has_runner batch) \<Longrightarrow>
    pipeline_step p (p\<lparr>pl_worker := W_publish (process runner has_runner groups batch)\<rparr>)"
| abandon: "pl_worker p = W_collect batch \<Longrightarrow> int (length batch) < pl_batch_size p \<Longrightarrow> pl_cancelled p \<Longrightarrow>
    pipeline_step p (p\<lparr>pl_worker := W_done\<rparr>)"
| publish: "pl_worker p = W_publish (s # ss) \<Longrightarrow> int (length (pl_results p)) < pl_capacity p * 2 \<Longrightarrow>
    pipeline_step p (publish_send p s ss)"
| skip: "pl_worker p = W_publish (s # ss) \<Longrightarrow> pl_cancelled p \<Longrightarrow> pipeline_step p (p\<lparr>pl_worker := W_publish ss\<rparr>)"
| remember: "pl_worker p = W_remember s ss \<Longrightarrow> pipeline_step p (publish_remember p s ss)"
| batch_done: "pl_worker p = W_publish [] \<Longrightarrow> pipeline_step p (p\<lparr>pl_worker := W_idle\<rparr>)"
| return: "pl_worker p = W_idle \<Longrightarrow> pl_cancelled p \<Longrightarrow> pipeline_step p (p\<lparr>pl_worker := W_done\<rparr>)"
| consume: "pl_results p = s # ss \<Longrightarrow> pipeline_step p (p\<lparr>pl_results := ss\<rparr>)"
| cancel: "pipeline_step p (p\<lparr>pl_cancelled := True\<rparr>)"

inductive pipeline_reachable :: "int \<Rightarrow> int \<Rightarrow> pipeline \<Rightarrow> bool" for capacity batch where
  init: "pipeline_reachable capacity batch (new_pipeline capacity batch)"
| step: "pipeline_reachable capacity batch p \<Longrightarrow> pipeline_step p p' \<Longrightarrow> pipeline_reachable capacity batch p'"

section \<open>A batch yields one result per request\<close>

lemma git_result_key [simp]: "rs_key (git_result v r) = rq_key r"
  by (simp add: git_result_def unknown_result_def split: option.splits)

lemma resolve_direct_key: "resolve_direct r = Some s \<Longrightarrow> rs_key s = rq_key r"
  by (auto simp: resolve_direct_def Let_def split: if_splits option.splits prod.splits)

lemma direct_result_key: "direct_result h r = Some s \<Longrightarrow> rs_key s = rq_key r"
  by (auto simp: direct_result_def unknown_result_def resolve_direct_key split: option.splits if_splits)

definition group_keys :: "(string \<times> request list) list \<Rightarrow> string multiset" where
  "group_keys gs = (\<Sum>g \<in># mset gs. mset (map rq_key (snd g)))"

lemma group_keys_concat: "mset (map rq_key (concat (map snd gs))) = group_keys gs"
  by (induction gs) (auto simp: group_keys_def)

lemma add_group_keys: "group_keys (add_group r gs) = add_mset (rq_key r) (group_keys gs)"
  by (induction r gs rule: add_group.induct) (auto simp: group_keys_def)

lemma git_groups_keys:
  "group_keys (git_groups h batch) = mset (map rq_key (filter (\<lambda>r. direct_result h r = None) batch))"
proof -
  have "group_keys (fold add_group rs gs) = group_keys gs + mset (map rq_key rs)" for rs gs
    by (induction rs arbitrary: gs) (auto simp: add_group_keys)
  then show ?thesis by (simp add: git_groups_def group_keys_def)
qed

lemma group_results_keys: "map rs_key (concat (map (group_results runner) gs)) = map rq_key (concat (map snd gs))"
  by (induction gs) (auto simp: group_results_def Let_def)

lemma direct_keys:
  "map rs_key (List.map_filter (direct_result h) batch) =
   map rq_key (filter (\<lambda>r. direct_result h r \<noteq> None) batch)"
  by (induction batch) (auto simp: List.map_filter_simps direct_result_key split: option.splits)

lemma process_keys:
  assumes "mset groups = mset (git_groups h batch)"
  shows "mset (map rs_key (process runner h groups batch)) = mset (map rq_key batch)"
proof -
  have "mset (map rq_key (concat (map snd groups))) = group_keys (git_groups h batch)"
    unfolding group_keys_concat group_keys_def assms ..
  moreover have "mset (map rq_key (filter (\<lambda>r. direct_result h r \<noteq> None) batch)) +
      mset (map rq_key (filter (\<lambda>r. direct_result h r = None) batch)) = mset (map rq_key batch)"
    by (induction batch) auto
  ultimately show ?thesis
    by (simp only: process_def map_append mset_append direct_keys group_results_keys git_groups_keys)
qed

section \<open>Keys in flight\<close>

fun worker_keys :: "worker \<Rightarrow> string multiset" where
  "worker_keys (W_collect batch) = mset (map rq_key batch)"
| "worker_keys (W_publish ss) = mset (map rs_key ss)"
| "worker_keys (W_remember s ss) = add_mset (rs_key s) (mset (map rs_key ss))"
| "worker_keys _ = {#}"

definition request_keys :: "request list \<Rightarrow> string multiset" where
  "request_keys rs = mset (map rq_key rs)"

lemma request_keys_simps [simp]:
  "request_keys [] = {#}" "request_keys (r # rs) = add_mset (rq_key r) (request_keys rs)"
  "request_keys (rs @ ss) = request_keys rs + request_keys ss"
  by (simp_all add: request_keys_def)

lemma request_keys_remove1:
  "r \<in> set rs \<Longrightarrow> request_keys rs = add_mset (rq_key r) (request_keys (remove1 r rs))"
  by (induction rs) auto

text \<open>Keys a caller or the worker is working on; the worker's part is split off.\<close>

definition in_flight :: "pipeline \<Rightarrow> string multiset" where
  "in_flight p = request_keys (pl_offering p) + request_keys (pl_dropping p) +
     request_keys (pl_queue p) + worker_keys (pl_worker p)"

text \<open>The result a \<^verbatim>\<open>publish\<close> has sent and not yet remembered.\<close>

fun sent :: "worker \<Rightarrow> string list" where
  "sent (W_remember s ss) = [rs_key s]"
| "sent _ = []"

definition last_n :: "nat \<Rightarrow> 'a list \<Rightarrow> 'a list" where
  "last_n n xs = drop (length xs - n) xs"

definition pipeline_ok :: "pipeline \<Rightarrow> bool" where
  "pipeline_ok p \<longleftrightarrow> 64 \<le> pl_max_recent p \<and>
     (\<forall>k. count (in_flight p) k \<le> 1) \<and> set_mset (in_flight p) \<subseteq> pl_pending p \<and>
     pl_pending p \<inter> pl_recent p = {} \<and> pl_recent p = set (pl_order p) \<and> distinct (pl_order p) \<and>
     int (length (pl_order p)) \<le> pl_max_recent p \<and>
     (\<exists>old. pl_published p = old @ sent (pl_worker p) \<and> pl_order p = last_n (nat (pl_max_recent p)) old)"

lemma last_n_snoc:
  assumes "0 < n"
  shows "last_n n (xs @ [x]) = (if length (last_n n xs) < n then last_n n xs @ [x] else tl (last_n n xs) @ [x])"
proof (cases "length xs < n")
  case False
  then have "length xs - n + 1 = Suc (length xs) - n" "length xs - n < length xs" using assms by linarith+
  moreover from this have "tl (drop (length xs - n) xs) = drop (Suc (length xs) - n) xs"
    by (simp add: tl_drop drop_Suc flip: drop_Suc)
  ultimately show ?thesis using False by (simp add: last_n_def)
qed (simp add: last_n_def)

lemma set_tl_le: "set (tl xs) \<subseteq> set xs"
  by (cases xs) auto

lemma remember_locked_fresh:
  assumes "key \<notin> pl_recent p" and "pl_recent p = set (pl_order p)" and "distinct (pl_order p)"
    and "int (length (pl_order p)) \<le> pl_max_recent p" and "64 \<le> pl_max_recent p"
  shows "pl_order (remember_locked p key) =
      (if int (length (pl_order p)) < pl_max_recent p then pl_order p @ [key] else tl (pl_order p) @ [key]) \<and>
    pl_recent (remember_locked p key) = set (pl_order (remember_locked p key)) \<and>
    distinct (pl_order (remember_locked p key)) \<and>
    int (length (pl_order (remember_locked p key))) \<le> pl_max_recent p"
proof (cases "int (length (pl_order p)) < pl_max_recent p")
  case True
  with assms show ?thesis by (simp add: remember_locked_def Let_def)
next
  case False
  with assms(4,5) obtain a as where o: "pl_order p = a # as" by (cases "pl_order p") auto
  have "pl_recent p = insert a (set as)" "a \<notin> set as" "distinct as" using assms(2,3) o by simp_all
  then show ?thesis using assms(1,4) False o
    by (auto simp: remember_locked_def Let_def)
qed

lemma remember_locked_frame [simp]:
  "pl_pending (remember_locked p k) = pl_pending p" "pl_queue (remember_locked p k) = pl_queue p"
  "pl_offering (remember_locked p k) = pl_offering p" "pl_dropping (remember_locked p k) = pl_dropping p"
  "pl_published (remember_locked p k) = pl_published p" "pl_max_recent (remember_locked p k) = pl_max_recent p"
  "pl_worker (remember_locked p k) = pl_worker p" "pl_stats (remember_locked p k) = pl_stats p"
  "pl_counting (remember_locked p k) = pl_counting p" "pl_cancelled (remember_locked p k) = pl_cancelled p"
  by (simp_all add: remember_locked_def Let_def)

lemma remember_locked_pending [simp]:
  "pl_recent (remember_locked (p\<lparr>pl_pending := x\<rparr>) k) = pl_recent (remember_locked p k)"
  "pl_order (remember_locked (p\<lparr>pl_pending := x\<rparr>) k) = pl_order (remember_locked p k)"
  by (simp_all add: remember_locked_def Let_def)

lemma publish_remember_ok:
  assumes "pipeline_ok p" and w: "pl_worker p = W_remember s ss"
  shows "pipeline_ok (publish_remember p s ss)"
proof -
  let ?k = "rs_key s" and ?q = "publish_remember p s ss"
  have ok: "64 \<le> pl_max_recent p" "\<forall>k. count (in_flight p) k \<le> 1" "set_mset (in_flight p) \<subseteq> pl_pending p"
    "pl_pending p \<inter> pl_recent p = {}" "pl_recent p = set (pl_order p)" "distinct (pl_order p)"
    "int (length (pl_order p)) \<le> pl_max_recent p"
    using assms(1) unfolding pipeline_ok_def by blast+
  obtain old where h: "pl_published p = old @ [?k]" "pl_order p = last_n (nat (pl_max_recent p)) old"
    using assms by (auto simp: pipeline_ok_def)
  have fl: "in_flight p = add_mset ?k (in_flight ?q)"
    using w by (simp add: in_flight_def publish_remember_def Let_def)
  have k: "?k \<in> pl_pending p" "?k \<notin> pl_recent p" using ok(3,4) fl by auto
  note r = remember_locked_fresh [OF k(2) ok(5-7,1)]
  note r = r [THEN conjunct1] r [THEN conjunct2, THEN conjunct1] r [THEN conjunct2, THEN conjunct2, THEN conjunct1]
    r [THEN conjunct2, THEN conjunct2, THEN conjunct2]
  have "?k \<notin># in_flight ?q" using ok(2) [rule_format, of ?k] fl by (simp add: not_in_iff)
  then have fl': "set_mset (in_flight ?q) \<subseteq> pl_pending p - {?k}" using ok(3) fl by auto
  have "pl_order (remember_locked p ?k) = last_n (nat (pl_max_recent p)) (old @ [?k])"
    using r(1) last_n_snoc [of "nat (pl_max_recent p)" old ?k] ok(1,7) h(2)
    by (auto simp: zless_nat_eq_int_zless)
  moreover have "pl_recent (remember_locked p ?k) \<subseteq> insert ?k (pl_recent p)"
    using r(1,2) ok(5) set_tl_le [of "pl_order p"] by auto
  moreover have "\<forall>j. count (in_flight ?q) j \<le> 1" 
  proof
    fix j show "count (in_flight ?q) j \<le> 1" using ok(2) [rule_format, of j] fl by (simp split: if_splits)
  qed
  ultimately show ?thesis
    using ok r(2-4) fl' h(1) unfolding pipeline_ok_def
    by (auto simp: publish_remember_def Let_def in_flight_def)
qed

lemma pipeline_ok_frame:
  assumes "pipeline_ok p" and "in_flight q = in_flight p" and "pl_pending q = pl_pending p"
    and "pl_recent q = pl_recent p" and "pl_order q = pl_order p" and "pl_max_recent q = pl_max_recent p"
    and "pl_published q @ sent (pl_worker p) = pl_published p @ sent (pl_worker q)"
    and "sent (pl_worker q) = [] \<or> sent (pl_worker p) = [] \<or> sent (pl_worker q) = sent (pl_worker p)"
  shows "pipeline_ok q"
proof -
  obtain old where old: "pl_published p = old @ sent (pl_worker p)"
    "pl_order p = last_n (nat (pl_max_recent p)) old" using assms(1) unfolding pipeline_ok_def by blast
  have "pl_published q = old @ sent (pl_worker q)" using assms(7,8) old(1) by auto
  with old(2) assms show ?thesis unfolding pipeline_ok_def by auto
qed

lemma pipeline_ok_smaller:
  assumes "pipeline_ok p" and "in_flight q \<subseteq># in_flight p" and "pl_pending q = pl_pending p"
    and "pl_recent q = pl_recent p" and "pl_order q = pl_order p" and "pl_max_recent q = pl_max_recent p"
    and "pl_published q = pl_published p" and "sent (pl_worker q) = sent (pl_worker p)"
  shows "pipeline_ok q"
  using assms set_mset_mono [OF assms(2)] mset_subset_eq_count [OF assms(2)] le_trans
  unfolding pipeline_ok_def by (metis subset_trans)

lemma offer_begin_ok:
  assumes "pipeline_ok p"
  shows "pipeline_ok (fst (offer_begin p r))"
proof (cases "rq_key r = [] \<or> rq_key r \<in> pl_pending p \<or> rq_key r \<in> pl_recent p")
  case True
  then show ?thesis using assms
    by (auto simp: offer_begin_def Let_def pipeline_ok_def in_flight_def)
next
  case False
  let ?q = "fst (offer_begin p r)"
  have fl: "in_flight ?q = add_mset (rq_key r) (in_flight p)"
    using False by (simp add: offer_begin_def Let_def in_flight_def)
  have "rq_key r \<notin># in_flight p" using False assms unfolding pipeline_ok_def by blast
  then have "\<forall>k. count (in_flight ?q) k \<le> 1"
    using assms fl unfolding pipeline_ok_def by (simp add: not_in_iff)
  with False assms fl show ?thesis unfolding pipeline_ok_def
    by (auto simp: offer_begin_def Let_def)
qed

lemma offer_drop_ok:
  assumes "pipeline_ok p" and "r \<in> set (pl_dropping p)"
  shows "pipeline_ok (offer_drop p r)"
proof -
  let ?q = "offer_drop p r"
  have fl: "in_flight p = add_mset (rq_key r) (in_flight ?q)"
    using request_keys_remove1 [OF assms(2)] by (simp add: in_flight_def offer_drop_def)
  have c: "\<forall>k. count (in_flight p) k \<le> 1" using assms(1) unfolding pipeline_ok_def by blast
  then have "rq_key r \<notin># in_flight ?q" using fl by (metis count_add_mset add_le_same_cancel2 Suc_eq_plus1 not_in_iff not_one_le_zero le_zero_eq One_nat_def Suc_le_mono)
  moreover have "count (in_flight ?q) k \<le> 1" for k using c [rule_format, of k] fl by (simp split: if_splits)
  moreover have "in_flight ?q \<subseteq># in_flight p" using fl by simp
  ultimately show ?thesis using assms(1) set_mset_mono [of "in_flight ?q" "in_flight p"]
    unfolding pipeline_ok_def by (auto simp: offer_drop_def)
qed

lemma pipeline_step_ok: "pipeline_step p q \<Longrightarrow> pipeline_ok p \<Longrightarrow> pipeline_ok q"
proof (induction rule: pipeline_step.induct)
  case (offer_enqueue r p)
  then show ?case using request_keys_remove1 [of r "pl_offering p"]
    by (intro pipeline_ok_frame [OF offer_enqueue(3)]) (simp_all add: in_flight_def offer_enqueue_def)
next
  case (offer_refuse r p)
  then show ?case using request_keys_remove1 [of r "pl_offering p"]
    by (intro pipeline_ok_frame [OF offer_refuse(3)]) (simp_all add: in_flight_def offer_refuse_def)
next
  case (process p batch groups h runner)
  show ?case
    by (rule pipeline_ok_frame [OF process(3)])
      (simp_all add: in_flight_def process(1) process_keys [OF process(2)] del: mset_map)
next
  case (publish p s ss)
  then show ?case by (intro pipeline_ok_frame [OF publish(3)]) (simp_all add: in_flight_def publish_send_def)
next
  case (remember p s ss)
  then show ?case by (simp add: publish_remember_ok)
next
  case (abandon p batch)
  then show ?case by (intro pipeline_ok_smaller [OF abandon(4)]) (simp_all add: in_flight_def)
next
  case (skip p s ss)
  then show ?case by (intro pipeline_ok_smaller [OF skip(3)]) (simp_all add: in_flight_def)
next
  case (offer_count p)
  then show ?case by (intro pipeline_ok_frame [OF offer_count(2)]) (simp_all add: in_flight_def offer_count_def)
next
  case (receive p r rs)
  then show ?case by (intro pipeline_ok_frame [OF receive(3)]) (simp_all add: in_flight_def)
next
  case (collect p batch r rs)
  then show ?case by (intro pipeline_ok_frame [OF collect(4)]) (simp_all add: in_flight_def)
next
  case (batch_done p)
  then show ?case by (intro pipeline_ok_frame [OF batch_done(2)]) (simp_all add: in_flight_def)
next
  case (return p)
  then show ?case by (intro pipeline_ok_frame [OF return(3)]) (simp_all add: in_flight_def)
next
  case (consume p s ss)
  then show ?case by (intro pipeline_ok_frame [OF consume(2)]) (simp_all add: in_flight_def)
next
  case (cancel p)
  then show ?case by (intro pipeline_ok_frame [OF cancel(1)]) (simp_all add: in_flight_def)
qed (simp_all add: offer_begin_ok offer_drop_ok)

lemma pipeline_reachable_ok: "pipeline_reachable c b p \<Longrightarrow> pipeline_ok p"
proof (induction rule: pipeline_reachable.induct)
  case init
  show ?case by (auto simp: pipeline_ok_def new_pipeline_def Let_def in_flight_def last_n_def)
qed (rule pipeline_step_ok)

section \<open>History and counters\<close>

text \<open>Equal elements are more than \<open>n\<close> positions apart.\<close>

definition spaced :: "nat \<Rightarrow> 'a list \<Rightarrow> bool" where
  "spaced n xs \<longleftrightarrow> (\<forall>j < length xs. \<forall>i < j. xs ! i = xs ! j \<longrightarrow> n < j - i)"

lemma spaced_snoc:
  assumes "spaced n xs" and "x \<notin> set (last_n n xs)"
  shows "spaced n (xs @ [x])"
proof -
  have "n < length xs - i" if "i < length xs" "xs ! i = x" for i
  proof (rule ccontr)
    assume "\<not> n < length xs - i"
    then have "length xs - n \<le> i" by simp
    then have "xs ! i = drop (length xs - n) xs ! (i - (length xs - n))" using that(1) by simp
    moreover have "i - (length xs - n) < length (drop (length xs - n) xs)" using that(1) \<open>length xs - n \<le> i\<close> by simp
    ultimately have "xs ! i \<in> set (last_n n xs)" by (metis last_n_def nth_mem)
    with assms(2) that(2) show False by simp
  qed
  with assms(1) show ?thesis by (auto simp: spaced_def nth_append less_Suc_eq)
qed

lemma pipeline_step_published:
  "pipeline_step p q \<Longrightarrow> pl_max_recent q = pl_max_recent p \<and>
   (pl_published q = pl_published p \<or>
    (\<exists>s ss. pl_worker p = W_publish (s # ss) \<and> pl_published q = pl_published p @ [rs_key s]))"
  by (induction rule: pipeline_step.induct)
    (simp_all add: offer_begin_def offer_enqueue_def offer_count_def offer_refuse_def offer_drop_def
      publish_send_def publish_remember_def Let_def)

lemma pipeline_reachable_spaced:
  "pipeline_reachable c b p \<Longrightarrow> spaced (nat (pl_max_recent p)) (pl_published p)"
proof (induction rule: pipeline_reachable.induct)
  case init
  show ?case by (simp add: spaced_def new_pipeline_def Let_def)
next
  case (step p q)
  note q = pipeline_step_published [OF step(2)]
  show ?case
  proof (cases "pl_published q = pl_published p")
    case False
    with q obtain s ss where s: "pl_worker p = W_publish (s # ss)" "pl_published q = pl_published p @ [rs_key s]" by blast
    have ok: "pipeline_ok p" by (rule pipeline_reachable_ok [OF step(1)])
    then have o: "pl_recent p = set (last_n (nat (pl_max_recent p)) (pl_published p))"
      using s(1) unfolding pipeline_ok_def by auto
    have "rs_key s \<in># in_flight p" using s(1) by (simp add: in_flight_def)
    then have "rs_key s \<notin> pl_recent p" using ok unfolding pipeline_ok_def by blast
    with spaced_snoc [OF step(3)] s(2) q o show ?thesis by simp
  qed (use q step(3) in simp)
qed

definition counters_ok :: "pipeline \<Rightarrow> bool" where
  "counters_ok p \<longleftrightarrow> ps_accepted (pl_stats p) + word_of_nat (pl_counting p) =
     ps_completed (pl_stats p) + word_of_nat (length (pl_queue p) + size (worker_keys (pl_worker p)))"

lemma process_size:
  "mset groups = mset (git_groups h batch) \<Longrightarrow> length (process runner h groups batch) = length batch"
  using process_keys [of groups h batch runner] by (metis length_map size_mset)

lemma pipeline_step_counters:
  "pipeline_step p q \<Longrightarrow> counters_ok p \<Longrightarrow> \<not> pl_cancelled q \<Longrightarrow> counters_ok q"
proof (induction rule: pipeline_step.induct)
  case (process p batch groups h runner)
  then show ?case by (simp add: counters_ok_def process_size)
next
  case (offer_count p)
  then obtain n where "pl_counting p = Suc n" by (cases "pl_counting p") auto
  with offer_count show ?case by (simp add: counters_ok_def offer_count_def algebra_simps)
qed (auto simp: counters_ok_def offer_begin_def offer_enqueue_def offer_refuse_def offer_drop_def
      publish_send_def publish_remember_def Let_def algebra_simps)

lemma pipeline_step_cancelled: "pipeline_step p q \<Longrightarrow> pl_cancelled p \<Longrightarrow> pl_cancelled q"
  by (induction rule: pipeline_step.induct)
    (simp_all add: offer_begin_def offer_enqueue_def offer_count_def offer_refuse_def offer_drop_def
      publish_send_def publish_remember_def Let_def)

lemma pipeline_reachable_counters:
  "pipeline_reachable c b p \<Longrightarrow> \<not> pl_cancelled p \<Longrightarrow> counters_ok p"
proof (induction rule: pipeline_reachable.induct)
  case init
  show ?case by (simp add: counters_ok_def new_pipeline_def Let_def)
qed (metis pipeline_step_counters pipeline_step_cancelled)

section \<open>Properties\<close>

text \<open>A batch answers every request.  Whatever git reports, and in whatever order the groups are
  visited, \<^verbatim>\<open>process\<close> publishes exactly one result per request of the batch.\<close>

theorem batch_one_result_per_request:
  assumes "mset groups = mset (git_groups has_runner batch)"
  shows "mset (map rs_key (process runner has_runner groups batch)) = mset (map rq_key batch)"
  by (rule process_keys [OF assms])

text \<open>A change is never worked on twice at once.  In every reachable state the keys that a caller
  or the worker has in hand are pairwise different, are marked pending, and none of them is among
  the recently completed ones.\<close>

theorem pipeline_keys_in_flight_once:
  assumes "pipeline_reachable capacity batch p"
  shows "distinct (map rq_key (pl_offering p @ pl_dropping p @ pl_queue p)) \<and>
    set (map rq_key (pl_offering p @ pl_dropping p @ pl_queue p)) \<inter> set_mset (worker_keys (pl_worker p)) = {} \<and>
    set (map rq_key (pl_offering p @ pl_dropping p @ pl_queue p)) \<subseteq> pl_pending p - pl_recent p \<and>
    int (length (pl_order p)) \<le> pl_max_recent p"
proof -
  let ?ks = "map rq_key (pl_offering p @ pl_dropping p @ pl_queue p)"
  have fl: "in_flight p = mset ?ks + worker_keys (pl_worker p)"
    by (simp add: in_flight_def request_keys_def)
  have ok: "\<forall>k. count (in_flight p) k \<le> 1" "set_mset (in_flight p) \<subseteq> pl_pending p"
    "pl_pending p \<inter> pl_recent p = {}" "int (length (pl_order p)) \<le> pl_max_recent p"
    using pipeline_reachable_ok [OF assms] unfolding pipeline_ok_def by blast+
  have one: "count (mset ?ks) k + count (worker_keys (pl_worker p)) k \<le> 1" for k
    using ok(1) fl by (metis count_union)
  then have "distinct ?ks" by (metis add_leD1 distinct_count_atmost_1 count_mset_0_iff dual_order.antisym
      less_one linorder_not_less not_in_iff set_mset_mset)
  moreover have "set ?ks \<inter> set_mset (worker_keys (pl_worker p)) = {}"
  proof -
    have False if "k \<in> set ?ks" "k \<in># worker_keys (pl_worker p)" for k
    proof -
      from that have "1 \<le> count (mset ?ks) k" "1 \<le> count (worker_keys (pl_worker p)) k"
        by (metis One_nat_def Suc_leI count_greater_zero_iff set_mset_mset)+
      with one [of k] show False by linarith
    qed
    then show ?thesis by blast
  qed
  moreover have "set ?ks \<subseteq> set_mset (in_flight p)" unfolding fl by auto
  ultimately show ?thesis using ok(2-4) by blast
qed

text \<open>C11: a result is delivered at most once.  If a key is published twice, more than
  \<^verbatim>\<open>maxRecent\<close> publications (at least 64) lie between.\<close>

theorem pipeline_publishes_once_per_window:
  assumes "pipeline_reachable capacity batch p"
  shows "spaced (nat (pl_max_recent p)) (pl_published p) \<and> 64 \<le> pl_max_recent p"
  using pipeline_reachable_spaced [OF assms] pipeline_reachable_ok [OF assms]
  unfolding pipeline_ok_def by blast

text \<open>Accepted work is completed or still there.  Until the pipeline is closed, the accepted
  requests (counted or about to be) are, modulo \<open>2\<^sup>6\<^sup>4\<close>, the completed ones plus those queued or
  in the worker's hands.\<close>

theorem pipeline_loses_no_work:
  assumes "pipeline_reachable capacity batch p" and "\<not> pl_cancelled p"
  shows "ps_accepted (pl_stats p) + word_of_nat (pl_counting p) =
     ps_completed (pl_stats p) + word_of_nat (length (pl_queue p) + size (worker_keys (pl_worker p)))"
  using pipeline_reachable_counters [OF assms] by (simp add: counters_ok_def)

section \<open>Witnesses\<close>

definition sample_pipeline :: pipeline where
  "sample_pipeline = offer_enqueue (fst (offer_begin (new_pipeline 4 2) sample_request)) sample_request"

lemma sample_offer: "fst (offer_begin (new_pipeline 4 2) sample_request) =
    (new_pipeline 4 2)\<lparr>pl_pending := {''k''}, pl_offering := [sample_request]\<rparr>"
  by (simp add: offer_begin_def new_pipeline_def Let_def sample_request_def copy_slice_def)

lemma sample_pipeline_reachable: "pipeline_reachable 4 2 sample_pipeline"
  unfolding sample_pipeline_def
  by (rule pipeline_reachable.step [OF pipeline_reachable.step [OF pipeline_reachable.init
        pipeline_step.offer_begin] pipeline_step.offer_enqueue])
    (simp_all only: sample_offer queue_full_def, simp_all add: new_pipeline_def Let_def)

lemma sample_pipeline_eq: "sample_pipeline =
    (new_pipeline 4 2)\<lparr>pl_pending := {''k''}, pl_queue := [sample_request], pl_counting := 1\<rparr>"
  unfolding sample_pipeline_def sample_offer by (simp add: offer_enqueue_def new_pipeline_def Let_def)

lemma sample_pipeline_simps:
  "pl_queue sample_pipeline = [sample_request]" "pl_offering sample_pipeline = []"
  "pl_dropping sample_pipeline = []" "pl_pending sample_pipeline = {''k''}" "pl_recent sample_pipeline = {}"
  "pl_cancelled sample_pipeline = False" "pl_counting sample_pipeline = 1" "pl_worker sample_pipeline = W_idle"
  "ps_accepted (pl_stats sample_pipeline) = 0" "ps_completed (pl_stats sample_pipeline) = 0"
  by (simp_all add: sample_pipeline_eq new_pipeline_def Let_def)

theorem batch_one_result_per_request_witness:
  "mset (map rs_key (process (\<lambda>_ _. None) True (git_groups True [sample_request]) [sample_request])) = {#''k''#}"
  by (subst batch_one_result_per_request) (simp_all add: sample_request_def)

theorem pipeline_keys_in_flight_once_witness: "rq_key sample_request \<in> pl_pending sample_pipeline - pl_recent sample_pipeline"
  using pipeline_keys_in_flight_once [OF sample_pipeline_reachable] by (simp add: sample_pipeline_simps)

definition sample_result :: result where
  "sample_result = new_result sample_request (Some 3) (Some 0) status_known source_structured_patch Conf_exact"

lemma sample_process: "process runner h (git_groups h [sample_request]) [sample_request] = [sample_result]"
  by (simp add: process_def git_groups_def direct_result_def resolve_direct_def sample_request_def
      List.map_filter_simps sample_result_def new_result_def)

definition sample_published :: pipeline where
  "sample_published = publish_send (sample_pipeline\<lparr>pl_queue := [], pl_worker := W_publish [sample_result]\<rparr>)
     sample_result []"

lemma sample_published_reachable: "pipeline_reachable 4 2 sample_published"
proof -
  let ?p1 = "sample_pipeline\<lparr>pl_queue := [], pl_worker := W_collect [sample_request]\<rparr>"
  let ?p2 = "sample_pipeline\<lparr>pl_queue := [], pl_worker := W_publish [sample_result]\<rparr>"
  have 1: "pipeline_step sample_pipeline ?p1"
    by (rule pipeline_step.receive) (simp_all add: sample_pipeline_simps)
  have "pipeline_step ?p1 (?p1\<lparr>pl_worker := W_publish (process (\<lambda>_ _. None) True
      (git_groups True [sample_request]) [sample_request])\<rparr>)"
    by (rule pipeline_step.process) simp_all
  then have 2: "pipeline_step ?p1 ?p2" by (simp add: sample_process)
  have 3: "pipeline_step ?p2 sample_published" unfolding sample_published_def
    by (rule pipeline_step.publish)
      (simp_all add: sample_pipeline_eq new_pipeline_def Let_def)
  show ?thesis
    by (rule pipeline_reachable.step [OF pipeline_reachable.step [OF pipeline_reachable.step
          [OF sample_pipeline_reachable 1] 2] 3])
qed

theorem pipeline_publishes_once_per_window_witness:
  "pl_published sample_published = [''k''] \<and> spaced (nat (pl_max_recent sample_published)) (pl_published sample_published)"
  using pipeline_publishes_once_per_window [OF sample_published_reachable]
  by (simp add: sample_published_def publish_send_def sample_pipeline_eq
      new_pipeline_def Let_def sample_result_def) (simp add: sample_request_def)

theorem pipeline_loses_no_work_witness:
  "ps_accepted (pl_stats sample_pipeline) + 1 = ps_completed (pl_stats sample_pipeline) + 1"
  using pipeline_loses_no_work [OF sample_pipeline_reachable] by (simp add: sample_pipeline_simps)

end
