(* ===== verification/Regex.thy ===== *)
theory Regex
  imports Utf8
begin

text \<open>
  Just enough of Go's \<^verbatim>\<open>regexp\<close> for the three expressions of \<^verbatim>\<open>internal/security/event.go\<close>:
  a matcher maps a position to the positions where a match can end, the preferred one first
  (leftmost-first semantics, greedy repetition).  A position is the byte before it, if any, and
  the rest of the subject; matching goes character by character.
\<close>

type_synonym position = "char option \<times> string"
type_synonym matcher = "position \<Rightarrow> position list"

definition first_rune :: "string \<Rightarrow> string" where
  "first_rune s = take (max 1 (rune_len s)) s"

definition m_rune :: "(string \<Rightarrow> bool) \<Rightarrow> matcher" where
  "m_rune P pos = (case pos of (prev, s) \<Rightarrow>
     if s \<noteq> [] \<and> P (first_rune s)
     then [(Some (last (first_rune s)), drop (length (first_rune s)) s)] else [])"

definition m_seq :: "matcher \<Rightarrow> matcher \<Rightarrow> matcher" where
  "m_seq a b pos = concat (map b (a pos))"

definition m_alt :: "matcher \<Rightarrow> matcher \<Rightarrow> matcher" where
  "m_alt a b pos = a pos @ b pos"

definition m_empty :: matcher where "m_empty pos = [pos]"

definition m_fail :: matcher where "m_fail pos = []"

definition m_opt :: "matcher \<Rightarrow> matcher" where
  "m_opt a = m_alt a m_empty"

function m_many :: "(string \<Rightarrow> bool) \<Rightarrow> matcher" where
  "m_many P (prev, s) =
     (if s \<noteq> [] \<and> P (first_rune s)
      then m_many P (Some (last (first_rune s)), drop (length (first_rune s)) s) @ [(prev, s)]
      else [(prev, s)])"
  by pat_completeness auto
termination
proof (relation "measure (\<lambda>(P, prev, s). length s)")
  fix P :: "string \<Rightarrow> bool" and prev :: "char option" and s :: string
  assume "s \<noteq> [] \<and> P (first_rune s)"
  then show "((P, Some (last (first_rune s)), drop (length (first_rune s)) s), P, prev, s)
      \<in> measure (\<lambda>(P, prev, s). length s)"
    by (cases s) (auto simp: first_rune_def)
qed simp

declare m_many.simps [simp del]

primrec m_times :: "nat \<Rightarrow> (string \<Rightarrow> bool) \<Rightarrow> matcher" where
  "m_times 0 P = m_empty"
| "m_times (Suc n) P = m_seq (m_rune P) (m_times n P)"

definition m_at_least :: "nat \<Rightarrow> (string \<Rightarrow> bool) \<Rightarrow> matcher" where
  "m_at_least n P = m_seq (m_times n P) (m_many P)"

definition word_char :: "char \<Rightarrow> bool" where
  "word_char c \<longleftrightarrow> (48 \<le> byte c \<and> byte c \<le> 57) \<or> (65 \<le> byte c \<and> byte c \<le> 90) \<or>
     (97 \<le> byte c \<and> byte c \<le> 122) \<or> c = CHR ''_''"

definition m_boundary :: matcher where
  "m_boundary pos = (case pos of (prev, s) \<Rightarrow>
     if (case prev of None \<Rightarrow> False | Some c \<Rightarrow> word_char c) \<noteq> (case s of [] \<Rightarrow> False | c # _ \<Rightarrow> word_char c)
     then [pos] else [])"

primrec m_lit :: "string \<Rightarrow> matcher" where
  "m_lit [] = m_empty"
| "m_lit (c # w) = m_seq (m_rune (\<lambda>r. r = [c])) (m_lit w)"

text \<open>Letters of a case-insensitive literal: \<^verbatim>\<open>k\<close> also folds to the Kelvin sign, \<^verbatim>\<open>s\<close> to the
  long s.\<close>

definition lower :: "char \<Rightarrow> char" where
  "lower c = (if 65 \<le> byte c \<and> byte c \<le> 90 then char_of (byte c + 32) else c)"

definition folds_to :: "char \<Rightarrow> string \<Rightarrow> bool" where
  "folds_to c r \<longleftrightarrow> (length r = 1 \<and> lower (hd r) = c) \<or>
     (c = CHR ''k'' \<and> r = bytes [0xE2, 0x84, 0xAA]) \<or> (c = CHR ''s'' \<and> r = bytes [0xC5, 0xBF])"

primrec m_fold :: "string \<Rightarrow> matcher" where
  "m_fold [] = m_empty"
| "m_fold (c # w) = m_seq (m_rune (folds_to c)) (m_fold w)"

text \<open>\<^verbatim>\<open>ReplaceAllStringFunc\<close> for an expression that never matches the empty string: at each
  position the preferred match is replaced, or one character copied.\<close>

definition replace_step :: "matcher \<Rightarrow> (string \<Rightarrow> string) \<Rightarrow> char option \<Rightarrow> string \<Rightarrow> string \<times> char option \<times> string" where
  "replace_step m f prev s =
     (let copy = (first_rune s, Some (last (first_rune s)), drop (length (first_rune s)) s) in
      case m (prev, s) of
        [] \<Rightarrow> copy
      | (prev', rest) # _ \<Rightarrow>
          if length rest < length s then (f (take (length s - length rest) s), prev', rest) else copy)"

lemma first_rune_shorter: "s \<noteq> [] \<Longrightarrow> length (drop (length (first_rune s)) s) < length s"
  by (cases s) (auto simp: first_rune_def)

lemma replace_step_shorter: "s \<noteq> [] \<Longrightarrow> (w, prev', rest) = replace_step m f prev s \<Longrightarrow> length rest < length s"
  using first_rune_shorter [of s] by (auto simp: replace_step_def Let_def split: list.splits if_splits)

function replace_matches :: "matcher \<Rightarrow> (string \<Rightarrow> string) \<Rightarrow> char option \<Rightarrow> string \<Rightarrow> string" where
  "replace_matches m f prev s =
     (if s = [] then []
      else case replace_step m f prev s of (w, prev', rest) \<Rightarrow> w @ replace_matches m f prev' rest)"
  by pat_completeness auto
termination
  by (relation "measure (\<lambda>(m, f, prev, s). length s)") (auto simp: replace_step_shorter)

declare replace_matches.simps [simp del]

section \<open>Matchers move along a valid string by characters\<close>

definition keeps :: "matcher \<Rightarrow> bool" where
  "keeps m \<longleftrightarrow> (\<forall>prev s prev' r. utf8_valid s \<longrightarrow> (prev', r) \<in> set (m (prev, s)) \<longrightarrow> utf8_valid r \<and> suffix r s)"

lemma keepsI [intro]:
  "(\<And>prev s prev' r. utf8_valid s \<Longrightarrow> (prev', r) \<in> set (m (prev, s)) \<Longrightarrow> utf8_valid r \<and> suffix r s) \<Longrightarrow> keeps m"
  by (simp add: keeps_def)

lemma keepsD: "keeps m \<Longrightarrow> utf8_valid s \<Longrightarrow> (prev', r) \<in> set (m (prev, s)) \<Longrightarrow> utf8_valid r \<and> suffix r s"
  unfolding keeps_def by blast

lemma valid_rest:
  assumes "utf8_valid s" and "s \<noteq> []"
  shows "utf8_valid (drop (length (first_rune s)) s)" and "utf8_valid (first_rune s)"
    and "first_rune s = take (rune_len s) s" and "0 < rune_len s"
proof -
  have r: "0 < rune_len s" "utf8_valid (drop (rune_len s) s)"
    using assms utf8_valid.simps [of s] by (auto split: if_splits)
  then have "length (first_rune s) = rune_len s" using rune_len_le_length [of s] by (simp add: first_rune_def)
  with r show "utf8_valid (drop (length (first_rune s)) s)" by simp
  show eq: "first_rune s = take (rune_len s) s" using r by (simp add: first_rune_def)
  have "rune_len (take (rune_len s) s) = rune_len s" using r by (simp add: rune_len_take_self)
  moreover have "length (take (rune_len s) s) = rune_len s" using rune_len_le_length [of s] by simp
  ultimately show "utf8_valid (first_rune s)"
    unfolding eq using r utf8_valid.simps [of "take (rune_len s) s"] by simp
  show "0 < rune_len s" by (rule r)
qed

lemma keeps_rune [simp]: "keeps (m_rune P)"
proof (rule keepsI)
  fix prev s prev' r
  assume v: "utf8_valid s" and "(prev', r) \<in> set (m_rune P (prev, s))"
  then have "s \<noteq> []" "r = drop (length (first_rune s)) s" by (auto simp: m_rune_def split: if_splits)
  with valid_rest(1) [OF v] show "utf8_valid r \<and> suffix r s" by (simp add: suffix_drop)
qed

lemma keeps_seq [simp]: "keeps a \<Longrightarrow> keeps b \<Longrightarrow> keeps (m_seq a b)"
proof (rule keepsI)
  fix prev s prev' r
  assume k: "keeps a" "keeps b" and v: "utf8_valid s" and "(prev', r) \<in> set (m_seq a b (prev, s))"
  then obtain p t where "(p, t) \<in> set (a (prev, s))" "(prev', r) \<in> set (b (p, t))"
    by (auto simp: m_seq_def)
  note pt = this
  have t: "utf8_valid t \<and> suffix t s" by (rule keepsD [OF k(1) v pt(1)])
  have r: "utf8_valid r \<and> suffix r t" by (rule keepsD [OF k(2) conjunct1 [OF t] pt(2)])
  show "utf8_valid r \<and> suffix r s"
    using r suffix_order.trans [OF conjunct2 [OF r] conjunct2 [OF t]] by simp
qed

lemma keeps_alt [simp]: "keeps a \<Longrightarrow> keeps b \<Longrightarrow> keeps (m_alt a b)"
  by (rule keepsI) (auto simp: m_alt_def dest: keepsD)

lemma keeps_simple [simp]: "keeps m_empty" "keeps m_fail" "keeps m_boundary"
  by (rule keepsI; auto simp: m_empty_def m_fail_def m_boundary_def split: if_splits)+

lemma keeps_opt [simp]: "keeps a \<Longrightarrow> keeps (m_opt a)"
  by (simp add: m_opt_def)

lemma keeps_many [simp]: "keeps (m_many P)"
proof -
  have "utf8_valid s \<Longrightarrow> (prev', r) \<in> set (m_many P (prev, s)) \<Longrightarrow> utf8_valid r \<and> suffix r s" for prev s prev' r
  proof (induction "length s" arbitrary: prev s rule: less_induct)
    case less
    show ?case
    proof (cases "s \<noteq> [] \<and> P (first_rune s)")
      case True
      let ?t = "drop (length (first_rune s)) s"
      from True less(3) consider "(prev', r) \<in> set (m_many P (Some (last (first_rune s)), ?t))" | "r = s"
        by (subst (asm) m_many.simps) auto
      then show ?thesis
      proof cases
        case 1
        from True first_rune_shorter valid_rest(1) [OF less(2)] have "length ?t < length s" "utf8_valid ?t" by auto
        from less(1) [OF this 1] show ?thesis using suffix_order.trans [OF _ suffix_drop] by blast
      qed (use less(2) in simp)
    next
      case False
      then have "m_many P (prev, s) = [(prev, s)]" by (subst m_many.simps) auto
      with less(2,3) show ?thesis by simp
    qed
  qed
  then show ?thesis by (rule keepsI)
qed

lemma keeps_times [simp]: "keeps (m_times n P)"
  by (induction n) simp_all

lemma keeps_at_least [simp]: "keeps (m_at_least n P)"
  by (simp add: m_at_least_def)

lemma keeps_lit [simp]: "keeps (m_lit w)"
  by (induction w) simp_all

lemma keeps_fold [simp]: "keeps (m_fold w)"
  by (induction w) simp_all

text \<open>Replacement keeps a string valid when the replacement texts are.\<close>

lemma replace_matches_valid:
  assumes "keeps m" and "\<And>w. utf8_valid w \<Longrightarrow> utf8_valid (f w)" and "utf8_valid s"
  shows "utf8_valid (replace_matches m f prev s)"
  using assms(3)
proof (induction "length s" arbitrary: prev s rule: less_induct)
  case less
  show ?case
  proof (cases "s = []")
    case False
    obtain w prev' rest where st: "replace_step m f prev s = (w, prev', rest)"
      by (cases "replace_step m f prev s") auto
    note v = valid_rest [OF less(2) False]
    have "utf8_valid w \<and> utf8_valid rest"
    proof (cases "replace_step m f prev s = (first_rune s, Some (last (first_rune s)), drop (length (first_rune s)) s)")
      case True
      with st have "w = first_rune s" "rest = drop (length (first_rune s)) s" by auto
      with v show ?thesis by simp
    next
      case False
      with st obtain as where a: "m (prev, s) = (prev', rest) # as" "w = f (take (length s - length rest) s)"
        by (auto simp: replace_step_def Let_def split: list.splits if_splits)
      with keepsD [OF assms(1) less(2), of prev' rest prev] have r: "utf8_valid rest" "suffix rest s" by auto
      then obtain u where u: "s = u @ rest" by (auto simp: suffix_def)
      have "utf8_valid u" using less(2) r(1) u utf8_valid_prefix by blast
      with assms(2) r(1) a(2) u show ?thesis by simp
    qed
    moreover have "length rest < length s" using replace_step_shorter [OF False st [symmetric]] .
    ultimately have "utf8_valid (w @ replace_matches m f prev' rest)"
      using less(1) utf8_valid_append by blast
    with st False show ?thesis by (subst replace_matches.simps) simp
  qed (simp add: replace_matches.simps)
qed

lemma replace_matches_set:
  assumes "\<And>w. set w \<subseteq> A \<Longrightarrow> set (f w) \<subseteq> A" and "set s \<subseteq> A" and "keeps m" and "utf8_valid s"
  shows "set (replace_matches m f prev s) \<subseteq> A"
  using assms(2,4)
proof (induction "length s" arbitrary: prev s rule: less_induct)
  case less
  show ?case
  proof (cases "s = []")
    case False
    obtain w prev' rest where st: "replace_step m f prev s = (w, prev', rest)"
      by (cases "replace_step m f prev s") auto
    note v = valid_rest [OF less(3) False]
    have "set w \<subseteq> A \<and> set rest \<subseteq> A \<and> utf8_valid rest"
    proof (cases "replace_step m f prev s = (first_rune s, Some (last (first_rune s)), drop (length (first_rune s)) s)")
      case True
      with st have w: "w = first_rune s" "rest = drop (length (first_rune s)) s" by auto
      have "set w \<subseteq> A" "set rest \<subseteq> A"
        using less(2) unfolding w by (auto simp: first_rune_def dest: in_set_takeD in_set_dropD)
      with v w show ?thesis by simp
    next
      case False
      with st obtain as where a: "m (prev, s) = (prev', rest) # as" "w = f (take (length s - length rest) s)"
        by (auto simp: replace_step_def Let_def split: list.splits if_splits)
      with keepsD [OF assms(3) less(3), of prev' rest prev] have r: "utf8_valid rest" "suffix rest s" by auto
      then obtain u where u: "s = u @ rest" by (auto simp: suffix_def)
      with assms(1) [of u] r(1) a(2) less(2) show ?thesis by auto
    qed
    moreover have "length rest < length s" using replace_step_shorter [OF False st [symmetric]] .
    ultimately have "set (w @ replace_matches m f prev' rest) \<subseteq> A" using less(1) by simp
    with st False show ?thesis by (subst replace_matches.simps) simp
  qed (simp add: replace_matches.simps)
qed

end
