(* ===== verification/Paths.thy ===== *)
theory Paths
  imports Prelude
begin

text \<open>
  Go's \<^verbatim>\<open>path\<close> and \<^verbatim>\<open>path/filepath\<close> on a slash-separated system: \<^verbatim>\<open>Clean\<close>, \<^verbatim>\<open>Base\<close>,
  \<^verbatim>\<open>Dir\<close>, \<^verbatim>\<open>Ext\<close>, \<^verbatim>\<open>Join\<close>, \<^verbatim>\<open>IsAbs\<close> and \<^verbatim>\<open>Rel\<close>.  \<^verbatim>\<open>ToSlash\<close> and
  \<^verbatim>\<open>FromSlash\<close> are the identity there.
\<close>

abbreviation slash :: char where "slash \<equiv> CHR ''/''"

section \<open>Clean\<close>

text \<open>The elements kept so far are a stack; \<open>rooted\<close> drops a \<^verbatim>\<open>..\<close> at the root.\<close>

fun clean_elems :: "bool \<Rightarrow> string list \<Rightarrow> string list \<Rightarrow> string list" where
  "clean_elems rooted stack [] = rev stack"
| "clean_elems rooted stack (w # ws) =
     (if w = [] \<or> w = ''.'' then clean_elems rooted stack ws
      else if w = ''..'' then
        (case stack of
           [] \<Rightarrow> clean_elems rooted (if rooted then [] else [''..'']) ws
         | v # vs \<Rightarrow> if v = ''..'' then clean_elems rooted (''..'' # stack) ws else clean_elems rooted vs ws)
      else clean_elems rooted (w # stack) ws)"

definition is_abs :: "string \<Rightarrow> bool" where
  "is_abs p = has_prefix p ''/''"

definition unsplit :: "bool \<Rightarrow> string list \<Rightarrow> string" where
  "unsplit rooted ws =
     (if rooted then slash # join_str [slash] ws
      else if ws = [] then ''.'' else join_str [slash] ws)"

definition path_clean :: "string \<Rightarrow> string" where
  "path_clean p = unsplit (is_abs p) (clean_elems (is_abs p) [] (split_char slash p))"

section \<open>Parts of a path\<close>

fun strip_slashes :: "string \<Rightarrow> string" where
  "strip_slashes p = (if p \<noteq> [] \<and> last p = slash then strip_slashes (butlast p) else p)"

declare strip_slashes.simps [simp del]

definition path_base :: "string \<Rightarrow> string" where
  "path_base p =
     (if p = [] then ''.''
      else let b = last (split_char slash (strip_slashes p)) in if b = [] then ''/'' else b)"

text \<open>\<^verbatim>\<open>path[:i+1]\<close> up to the last separator.\<close>

definition dir_part :: "string \<Rightarrow> string" where
  "dir_part p = take (length p - length (last (split_char slash p))) p"

definition path_dir :: "string \<Rightarrow> string" where
  "path_dir p = path_clean (dir_part p)"

definition path_ext :: "string \<Rightarrow> string" where
  "path_ext p =
     (let ws = split_char (CHR ''.'') (last (split_char slash p))
      in if length ws \<le> 1 then [] else CHR ''.'' # last ws)"

definition path_join :: "string list \<Rightarrow> string" where
  "path_join ws =
     (case dropWhile (\<lambda>w. w = []) ws of
        [] \<Rightarrow> []
      | vs \<Rightarrow> path_clean (join_str [slash] vs))"

section \<open>Relative paths\<close>

text \<open>The elements of a clean path; the current directory has none.\<close>

definition path_elems :: "string \<Rightarrow> string list" where
  "path_elems p = (if p = ''.'' then [] else filter (\<lambda>w. w \<noteq> []) (split_char slash p))"

fun strip_common :: "string list \<Rightarrow> string list \<Rightarrow> string list \<times> string list" where
  "strip_common (b # bs) (t # ts) = (if b = t then strip_common bs ts else (b # bs, t # ts))"
| "strip_common bs ts = (bs, ts)"

definition path_rel :: "string \<Rightarrow> string \<Rightarrow> string option" where
  "path_rel base0 targ0 =
     (let base = path_clean base0; targ = path_clean targ0 in
      if targ = base then Some ''.''
      else if is_abs base \<noteq> is_abs targ then None
      else (case strip_common (path_elems base) (path_elems targ) of (bs, ts) \<Rightarrow>
        if bs \<noteq> [] \<and> hd bs = ''..'' then None
        else Some (unsplit False (replicate (length bs) ''..'' @ ts))))"

section \<open>Clean paths\<close>

definition plain_elem :: "string \<Rightarrow> bool" where
  "plain_elem w \<longleftrightarrow> w \<noteq> [] \<and> w \<noteq> ''.'' \<and> slash \<notin> set w"

text \<open>A clean element list: plain elements, with \<^verbatim>\<open>..\<close> only in front, and none when rooted.\<close>

definition clean_list :: "bool \<Rightarrow> string list \<Rightarrow> bool" where
  "clean_list rooted ws \<longleftrightarrow> (\<forall>w \<in> set ws. plain_elem w) \<and>
     (\<exists>n vs. ws = replicate n ''..'' @ vs \<and> ''..'' \<notin> set vs \<and> (rooted \<longrightarrow> n = 0))"

lemma clean_listI:
  "ws = replicate n ''..'' @ vs \<Longrightarrow> ''..'' \<notin> set vs \<Longrightarrow> (rooted \<Longrightarrow> n = 0) \<Longrightarrow>
   \<forall>w \<in> set ws. plain_elem w \<Longrightarrow> clean_list rooted ws"
  unfolding clean_list_def by blast

lemma clean_elems_clean:
  assumes "clean_list rooted (rev stack)" and "\<forall>w \<in> set ws. slash \<notin> set w"
  shows "clean_list rooted (clean_elems rooted stack ws)"
  using assms
proof (induction rooted stack ws rule: clean_elems.induct)
  case (2 rooted stack w ws)
  have tail: "\<forall>v \<in> set ws. slash \<notin> set v" using 2(7) by simp
  obtain n vs where r: "rev stack = replicate n ''..'' @ vs" "''..'' \<notin> set vs" "rooted \<longrightarrow> n = 0"
    and pl: "\<forall>v \<in> set (rev stack). plain_elem v" using 2(6) unfolding clean_list_def by blast
  consider (skip) "w = [] \<or> w = ''.''" | (up) "\<not> (w = [] \<or> w = ''.'')" "w = ''..''"
    | (push) "\<not> (w = [] \<or> w = ''.'')" "w \<noteq> ''..''" by blast
  then show ?case
  proof cases
    case skip
    with 2(1) [OF skip 2(6) tail] show ?thesis by simp
  next
    case push
    have "clean_list rooted (rev (w # stack))"
      by (rule clean_listI [of _ n "vs @ [w]"]) (use r pl push 2(7) in \<open>auto simp: plain_elem_def\<close>)
    from 2(5) [OF push this tail] push show ?thesis by simp
  next
    case up
    show ?thesis
    proof (cases stack)
      case Nil
      have "clean_list rooted (rev (if rooted then [] else [''..'']))"
        by (rule clean_listI [of _ "if rooted then 0 else 1" "[]"]) (auto simp: plain_elem_def)
      from 2(2) [OF up Nil this tail] up Nil show ?thesis by simp
    next
      case (Cons v us)
      show ?thesis
      proof (cases "v = ''..''")
        case True
        then have vs: "vs = []" using r(1,2) Cons by (cases vs rule: rev_cases) auto
        have n: "\<not> rooted" using r(1,3) vs Cons by auto
        have "clean_list rooted (rev (''..'' # stack))"
          by (rule clean_listI [of _ "Suc n" "[]"])
            (use r(1) vs n pl in \<open>auto simp: plain_elem_def replicate_append_same\<close>)
        from 2(3) [OF up Cons True this tail] up Cons True show ?thesis by simp
      next
        case False
        obtain ys where "vs = ys @ [v]" "rev us = replicate n ''..'' @ ys"
        proof (cases vs rule: rev_cases)
          case Nil
          then have "set (rev stack) \<subseteq> {''..''}" using r(1) by (auto simp: set_replicate_conv_if)
          with False Cons show ?thesis by auto
        next
          case (snoc ys y)
          with r(1) Cons that [of ys] show ?thesis by simp
        qed
        then have "clean_list rooted (rev us)"
          by (intro clean_listI [of _ n ys]) (use r pl Cons in auto)
        from 2(4) [OF up Cons False this tail] up Cons False show ?thesis by simp
      qed
    qed
  qed
qed simp

lemma clean_elems_id:
  "clean_list rooted ws \<Longrightarrow> clean_elems rooted [] ws = ws"
proof -
  assume "clean_list rooted ws"
  then obtain n vs where w: "ws = replicate n ''..'' @ vs" "''..'' \<notin> set vs" "rooted \<longrightarrow> n = 0"
    "\<forall>w \<in> set ws. plain_elem w" unfolding clean_list_def by blast
  have "\<forall>v \<in> set vs. plain_elem v \<and> v \<noteq> ''..''" using w(1,2,4) by auto
  then have plain: "clean_elems rooted stack vs = rev stack @ vs" for stack
    by (induction vs arbitrary: stack) (simp_all add: plain_elem_def)
  have dots: "\<not> rooted \<Longrightarrow> clean_elems rooted (replicate k ''..'') (replicate m ''..'' @ vs) =
      replicate (k + m) ''..'' @ vs" for k m
  proof (induction m arbitrary: k)
    case (Suc m)
    show ?case
    proof (cases k)
      case 0
      with Suc.IH [of 1] Suc.prems show ?thesis by simp
    next
      case k: (Suc j)
      with Suc.IH [of "Suc k"] Suc.prems show ?thesis by simp
    qed
  next
    case 0
    then show ?case using plain [of "replicate k ''..''"] by simp
  qed
  show ?thesis
  proof (cases rooted)
    case True
    with w plain [of "[]"] show ?thesis by simp
  next
    case False
    with dots [of 0 n] w(1) show ?thesis by simp
  qed
qed

end
