(* ===== verification/Security.thy ===== *)
theory Security
  imports Regex Paths Protocol
begin

text \<open>
  \<^verbatim>\<open>internal/security/event.go\<close>: minimization of events before they are used or stored, and
  display-safe labels.
\<close>

section \<open>Text steps of Label\<close>

text \<open>\<^verbatim>\<open>strings.Map\<close> with \<^verbatim>\<open>unicode.IsControl\<close>: the ASCII control characters, DEL and
  U+0080--U+009F (two bytes, the first 0xC2) become a space.\<close>

definition is_control :: "string \<Rightarrow> bool" where
  "is_control r = (case r of
     [c] \<Rightarrow> byte c < 0x20 \<or> byte c = 0x7F
   | [c, d] \<Rightarrow> byte c = 0xC2 \<and> 0x80 \<le> byte d \<and> byte d \<le> 0x9F
   | _ \<Rightarrow> False)"

function blank_controls :: "string \<Rightarrow> string" where
  "blank_controls s =
     (if s = [] then []
      else (if is_control (first_rune s) then '' '' else first_rune s) @
           blank_controls (drop (length (first_rune s)) s))"
  by pat_completeness auto
termination
  by (relation "measure length") (use first_rune_shorter in auto)

declare blank_controls.simps [simp del]

text \<open>\<^verbatim>\<open>strings.Fields\<close>: the words between runs of white space.\<close>

fun word_len :: "string \<Rightarrow> nat" where
  "word_len [] = 0"
| "word_len (c # s) = (if leading_space (c # s) = 0 then Suc (word_len s) else 0)"

function str_fields :: "string \<Rightarrow> string list" where
  "str_fields s =
     (let t = trim_left s; n = word_len t in
      if t = [] \<or> n = 0 then [] else take n t # str_fields (drop n t))"
  by pat_completeness auto
termination
proof (relation "measure length")
  fix s :: string and t n
  assume "t = trim_left s" and "n = word_len t" and "\<not> (t = [] \<or> n = 0)"
  then have "length (drop n t) < length t" by (cases t) auto
  also have "length t \<le> length s" using \<open>t = trim_left s\<close> by (simp add: length_trim_left)
  finally show "(drop n t, s) \<in> measure length" by simp
qed simp

declare str_fields.simps [simp del]

section \<open>The expressions\<close>

text \<open>Classes: \<open>\s\<close> is ASCII white space.\<close>

definition re_space :: "string \<Rightarrow> bool" where
  "re_space r \<longleftrightarrow> r \<in> {[CHR '' ''], [CHR 0x09], [CHR 0x0A], [CHR 0x0C], [CHR 0x0D]}"

definition re_value :: "string \<Rightarrow> bool" where
  "re_value r \<longleftrightarrow> \<not> re_space r \<and> r \<noteq> '','' \<and> r \<noteq> '';''"

definition re_word :: "string \<Rightarrow> bool" where
  "re_word r \<longleftrightarrow> length r = 1 \<and> word_char (hd r)"

definition re_upper_digit :: "string \<Rightarrow> bool" where
  "re_upper_digit r \<longleftrightarrow> length r = 1 \<and>
     (48 \<le> byte (hd r) \<and> byte (hd r) \<le> 57 \<or> 65 \<le> byte (hd r) \<and> byte (hd r) \<le> 90)"

definition double_quote :: string where "double_quote = [CHR 0x22]"
definition single_quote :: string where "single_quote = [CHR 0x27]"

definition secret_word :: matcher where
  "secret_word =
     foldr m_alt [m_fold ''password'', m_fold ''passwd'', m_fold ''secret'', m_fold ''token'',
       m_seq (m_fold ''api'') (m_seq (m_opt (m_rune (\<lambda>r. r = ''_'' \<or> r = ''-''))) (m_fold ''key'')),
       m_fold ''authorization'', m_fold ''cookie''] m_fail"

definition quoted_by :: "string \<Rightarrow> matcher" where
  "quoted_by q = m_seq (m_rune (\<lambda>r. r = q)) (m_seq (m_many (\<lambda>r. r \<noteq> q)) (m_rune (\<lambda>r. r = q)))"

definition secret_assignment :: matcher where
  "secret_assignment =
     m_seq m_boundary (m_seq secret_word (m_seq (m_many re_space)
       (m_seq (m_rune (\<lambda>r. r = '':'' \<or> r = ''='')) (m_seq (m_many re_space)
         (m_alt (quoted_by double_quote) (m_alt (quoted_by single_quote) (m_at_least 1 re_value)))))))"

definition bearer_token :: matcher where
  "bearer_token =
     m_seq m_boundary (m_seq (m_fold ''bearer'') (m_seq (m_at_least 1 re_space) (m_at_least 1 re_value)))"

definition known_token :: matcher where
  "known_token =
     m_seq m_boundary (m_seq
       (m_alt (m_seq (m_lit ''gh'') (m_seq (m_rune (\<lambda>r. r \<in> {''p'', ''o'', ''u'', ''s'', ''r''}))
                (m_seq (m_lit ''_'') (m_at_least 16 re_word))))
         (m_alt (m_seq (m_lit ''sk-'') (m_at_least 16 (\<lambda>r. re_word r \<or> r = ''-'')))
           (m_seq (m_lit ''AKIA'') (m_times 16 re_upper_digit))))
       m_boundary)"

section \<open>Label\<close>

text \<open>The replacement of an assignment keeps the name before the first \<^verbatim>\<open>:\<close> or \<^verbatim>\<open>=\<close>.\<close>

definition redact_assignment :: "string \<Rightarrow> string" where
  "redact_assignment w =
     (let name = takeWhile (\<lambda>c. c \<noteq> CHR '':'' \<and> c \<noteq> CHR ''='') w in
      if name = w then ''<redacted>'' else trim_space name @ ''=<redacted>'')"

definition label :: "string \<Rightarrow> int \<Rightarrow> string" where
  "label value0 limit =
     (let value1 = blank_controls (to_valid value0);
          value2 = join_str '' '' (str_fields value1);
          value3 = replace_matches secret_assignment redact_assignment None value2;
          value4 = replace_matches bearer_token (\<lambda>_. ''Bearer <redacted>'') None value3;
          value5 = replace_matches known_token (\<lambda>_. ''<redacted>'') None value4
      in truncate_utf8 value5 limit)"

definition command_label :: "string \<Rightarrow> int \<Rightarrow> string" where
  "command_label command limit =
     (let l = label (path_base (trim_space command)) limit in
      if l = [] \<or> l = ''.'' then ''command'' else l)"

section \<open>Metadata and events\<close>

definition max_secondary_paths :: nat where "max_secondary_paths = 128"

definition metadata_integer :: "mvalue \<Rightarrow> mvalue option" where
  "metadata_integer v = (case v of
     MInt _ \<Rightarrow> Some v
   | MSized _ \<Rightarrow> Some v
   | MFloat32 f \<Rightarrow> if float_integral f then Some v else None
   | MFloat64 f \<Rightarrow> if float_integral f then Some v else None
   | _ \<Rightarrow> None)"

fun all_strings :: "mvalue list \<Rightarrow> string list option" where
  "all_strings [] = Some []"
| "all_strings (MString s # vs) = map_option ((#) s) (all_strings vs)"
| "all_strings (_ # vs) = None"

definition metadata_paths :: "mvalue \<Rightarrow> string list" where
  "metadata_paths v =
     (let values = (case v of MStrings ss \<Rightarrow> ss
                            | MList vs \<Rightarrow> (case all_strings vs of Some ss \<Rightarrow> ss | None \<Rightarrow> [])
                            | _ \<Rightarrow> []);
          kept = take max_secondary_paths values;
          cleaned = map (\<lambda>s. trim_space (to_valid s)) kept
      in map (\<lambda>s. truncate_utf8 s 4096) (filter (\<lambda>s. s \<noteq> []) cleaned))"

definition integer_keys :: "string list" where
  "integer_keys = [''access_sequence'', ''coalesced_events'', ''dropped_events'', ''exit_code'']"

definition text_keys :: "string list" where
  "text_keys = [''evidence'', ''git_status'', ''hook_event'', ''reason'', ''signal'', ''work_confidence'',
     ''work_source'']"

definition sanitize_entry :: "string \<times> mvalue \<Rightarrow> (string \<times> mvalue) option" where
  "sanitize_entry kv = (case kv of (key, value) \<Rightarrow>
     if key \<in> set integer_keys then map_option (\<lambda>v. (key, v)) (metadata_integer value)
     else if key \<in> set text_keys
     then (case value of MString text \<Rightarrow> Some (key, MString (label text 128)) | _ \<Rightarrow> None)
     else if key = ''secondary_paths''
     then (let paths = metadata_paths value in if paths \<noteq> [] then Some (key, MStrings paths) else None)
     else None)"

definition sanitize_metadata :: "metadata \<Rightarrow> metadata" where
  "sanitize_metadata md = List.map_filter sanitize_entry md"

definition sanitize_event :: "event \<Rightarrow> event" where
  "sanitize_event e =
     e\<lparr>agent_type := label (agent_type e) 64, adapter_id := label (adapter_id e) 128,
       adapter_version := label (adapter_version e) 64, ev_operation := label (ev_operation e) 64,
       ev_status := label (ev_status e) 64, tool_name := label (tool_name e) 256,
       action_label := label (action_label e) 256, ev_command := [],
       ev_metadata := sanitize_metadata (ev_metadata e)\<rparr>"

section \<open>Labels are valid text without control characters\<close>

definition printable :: "char set" where
  "printable = {c. 0x20 \<le> byte c \<and> byte c \<noteq> 0x7F}"

lemma valid_induct [consumes 1, case_names empty rune]:
  assumes "utf8_valid s" and "P []"
    and "\<And>s. utf8_valid s \<Longrightarrow> s \<noteq> [] \<Longrightarrow> P (drop (length (first_rune s)) s) \<Longrightarrow> P s"
  shows "P s"
  using assms(1)
proof (induction "length s" arbitrary: s rule: less_induct)
  case less
  show ?case
  proof (cases "s = []")
    case False
    with less assms(3) valid_rest(1) first_rune_shorter show ?thesis by blast
  qed (simp add: assms(2))
qed

lemma first_rune_printable:
  assumes "utf8_valid s" and "s \<noteq> []" and "\<not> is_control (first_rune s)"
  shows "set (first_rune s) \<subseteq> printable"
proof -
  obtain c t where s: "s = c # t" using assms(2) by (cases s) auto
  note v = valid_rest [OF assms(1,2)]
  show ?thesis
  proof (cases "rune_len s = 1")
    case True
    with v(3) s assms(3) show ?thesis by (auto simp: is_control_def printable_def)
  next
    case False
    with v(4) have two: "2 \<le> rune_len s" by simp
    have "128 \<le> byte (s ! i)" if "i < rune_len s" for i
    proof (cases i)
      case 0
      with two s show ?thesis
        by (auto simp: rune_len.simps(2) rune_size_def Let_def split: if_splits)
    next
      case (Suc j)
      with rune_len_cont [of i s] that show ?thesis by (simp add: cont_iff)
    qed
    then have "set (first_rune s) \<subseteq> {c. 128 \<le> byte c}"
      using v(3) rune_len_le_length [of s] by (auto simp: in_set_conv_nth)
    then show ?thesis by (auto simp: printable_def dest!: subsetD)
  qed
qed

lemma blank_controls_ok:
  "utf8_valid s \<Longrightarrow> utf8_valid (blank_controls s) \<and> set (blank_controls s) \<subseteq> printable"
proof (induction s rule: valid_induct)
  case (rune s)
  have sp: "utf8_valid '' ''" "set '' '' \<subseteq> printable" by (simp_all add: byte_def printable_def)
  let ?r = "if is_control (first_rune s) then '' '' else first_rune s"
  have "utf8_valid ?r" "set ?r \<subseteq> printable"
    using sp first_rune_printable [OF rune(1,2)] valid_rest(2) [OF rune(1,2)] by auto
  with rune(3) show ?case
    by (subst (1 2) blank_controls.simps) (use rune(2) in \<open>simp add: utf8_valid_append\<close>)
qed (simp add: blank_controls.simps)

lemma trim_left_suffix: "suffix (trim_left s) s"
proof (induction s rule: trim_left.induct)
  case (1 s)
  show ?case
  proof (cases "leading_space s = 0 \<or> s = []")
    case False
    with 1 [OF refl] show ?thesis
      by (subst trim_left.simps) (auto simp: Let_def intro: suffix_order.trans [OF _ suffix_drop])
  qed (auto simp: trim_left.simps [of s] Let_def)
qed

lemma set_trim_space: "set (trim_space s) \<subseteq> set s"
  unfolding trim_space_def
  by (meson order_trans set_mono_prefix set_mono_suffix trim_left_suffix trim_right_prefix)

lemma word_len_cut:
  "utf8_valid t \<Longrightarrow> utf8_valid (take (word_len t) t) \<and> utf8_valid (drop (word_len t) t)"
proof -
  have stop: "drop (word_len t) t = [] \<or> leading_space (drop (word_len t) t) \<noteq> 0" for t
    by (induction t) auto
  assume v: "utf8_valid t"
  show ?thesis
  proof (cases "drop (word_len t) t")
    case Nil
    with v show ?thesis by simp
  next
    case (Cons c u)
    with stop [of t] obtain w where "w \<in> set space_encodings" "has_prefix (c # u) w"
      by (auto simp: leading_space.simps dest: find_SomeD split: option.splits)
    with space_rune [of w] space_encodings_nonempty [of w] have "\<not> cont c"
      by (cases w) (auto simp: has_prefix_def)
    moreover have "utf8_valid (take (word_len t) t @ c # u)"
      using v by (metis Cons append_take_drop_id)
    ultimately show ?thesis using utf8_valid_cut Cons by metis
  qed
qed

lemma fields_ok:
  "utf8_valid s \<Longrightarrow> set s \<subseteq> A \<Longrightarrow> w \<in> set (str_fields s) \<Longrightarrow> utf8_valid w \<and> set w \<subseteq> A"
proof (induction s rule: str_fields.induct)
  case (1 s)
  let ?t = "trim_left s" and ?n = "word_len (trim_left s)"
  have t: "utf8_valid ?t" "set ?t \<subseteq> A"
    using 1(2,3) set_mono_suffix [OF trim_left_suffix [of s]] by auto
  show ?case
  proof (cases "?t = [] \<or> ?n = 0")
    case False
    with 1(4) have "w = take ?n ?t \<or> w \<in> set (str_fields (drop ?n ?t))"
      by (subst (asm) str_fields.simps) (simp add: Let_def)
    then show ?thesis
    proof
      assume "w = take ?n ?t"
      with word_len_cut [OF t(1)] t(2) show ?thesis by (auto dest: in_set_takeD)
    next
      assume w: "w \<in> set (str_fields (drop ?n ?t))"
      have "utf8_valid (drop ?n ?t)" "set (drop ?n ?t) \<subseteq> A"
        using word_len_cut [OF t(1)] t(2) by (auto dest: in_set_dropD)
      from 1(1) [OF refl refl False this w] show ?thesis .
    qed
  qed (use 1(4) in \<open>auto simp: str_fields.simps [of s] Let_def\<close>)
qed

lemma join_str_ok:
  "\<forall>w \<in> set ws. utf8_valid w \<and> set w \<subseteq> A \<Longrightarrow> utf8_valid sep \<Longrightarrow> set sep \<subseteq> A \<Longrightarrow>
   utf8_valid (join_str sep ws) \<and> set (join_str sep ws) \<subseteq> A"
  by (induction sep ws rule: join_str.induct) (auto simp: utf8_valid_append)

lemma truncate_utf8_set: "set (truncate_utf8 s n) \<subseteq> set s"
proof -
  have "set (trim_space (drop_invalid_tail (take (nat n) s))) \<subseteq> set (take (nat n) s)"
    using set_trim_space set_mono_prefix [OF drop_invalid_tail_prefix] by blast
  then show ?thesis using set_take_subset [of "nat n" s] by (auto simp: truncate_utf8_def)
qed

lemma keeps_security [simp]: "keeps secret_assignment" "keeps bearer_token" "keeps known_token"
  by (simp_all add: secret_assignment_def secret_word_def quoted_by_def bearer_token_def known_token_def)

lemma printable_const [simp]:
  "set ''<redacted>'' \<subseteq> printable" "set ''Bearer <redacted>'' \<subseteq> printable" "set ''=<redacted>'' \<subseteq> printable"
  by (simp_all add: printable_def byte_def)

lemma valid_const [simp]:
  "utf8_valid ''<redacted>''" "utf8_valid ''Bearer <redacted>''" "utf8_valid ''=<redacted>''" "utf8_valid '' ''"
  by (simp_all add: byte_def)

lemma redact_assignment_ok:
  "utf8_valid w \<Longrightarrow> utf8_valid (redact_assignment w)"
  "set w \<subseteq> printable \<Longrightarrow> set (redact_assignment w) \<subseteq> printable"
proof -
  let ?P = "\<lambda>c. c \<noteq> CHR '':'' \<and> c \<noteq> CHR ''=''"
  assume v: "utf8_valid w"
  have "utf8_valid (takeWhile ?P w)"
  proof (cases "dropWhile ?P w")
    case Nil
    then have "takeWhile ?P w = w" by (metis append_Nil2 takeWhile_dropWhile_id)
    then show ?thesis using v by (simp only:)
  next
    case (Cons c t)
    have "\<not> ?P (hd (dropWhile ?P w))" using hd_dropWhile [of ?P w] Cons by simp
    then have "c = CHR '':'' \<or> c = CHR ''=''" using Cons by auto
    then have "\<not> cont c" by (auto simp: cont_iff byte_def)
    moreover have "utf8_valid (takeWhile ?P w @ c # t)"
      using v takeWhile_dropWhile_id [of ?P w] unfolding Cons by simp
    ultimately show ?thesis using utf8_valid_cut by blast
  qed
  then show "utf8_valid (redact_assignment w)"
    by (simp add: redact_assignment_def Let_def utf8_valid_append)
next
  let ?P = "\<lambda>c. c \<noteq> CHR '':'' \<and> c \<noteq> CHR ''=''"
  assume "set w \<subseteq> printable"
  then have "set (trim_space (takeWhile ?P w)) \<subseteq> printable"
    using set_trim_space [of "takeWhile ?P w"] by (auto dest: set_takeWhileD)
  then show "set (redact_assignment w) \<subseteq> printable"
    using printable_const by (simp add: redact_assignment_def Let_def del: set_simps list.set)
qed

lemma label_text:
  "utf8_valid (label v n) \<and> set (label v n) \<subseteq> printable \<and> (0 < n \<longrightarrow> int (length (label v n)) \<le> n)"
proof -
  let ?v2 = "join_str '' '' (str_fields (blank_controls (to_valid v)))"
  let ?v3 = "replace_matches secret_assignment redact_assignment None ?v2"
  let ?v4 = "replace_matches bearer_token (\<lambda>_. ''Bearer <redacted>'') None ?v3"
  let ?v5 = "replace_matches known_token (\<lambda>_. ''<redacted>'') None ?v4"
  have 1: "utf8_valid (blank_controls (to_valid v))" "set (blank_controls (to_valid v)) \<subseteq> printable"
    using blank_controls_ok [of "to_valid v"] by simp_all
  have "set '' '' \<subseteq> printable" by (simp add: printable_def byte_def)
  with join_str_ok [of "str_fields (blank_controls (to_valid v))" printable "'' ''"] fields_ok [OF 1]
  have 2: "utf8_valid ?v2" "set ?v2 \<subseteq> printable" by auto
  note 3 = replace_matches_valid [OF keeps_security(1) redact_assignment_ok(1) 2(1), where prev = None]
    replace_matches_set [OF redact_assignment_ok(2) 2(2) keeps_security(1) 2(1), where prev = None]
  note 4 = replace_matches_valid [OF keeps_security(2) valid_const(2) 3(1), where prev = None]
    replace_matches_set [OF printable_const(2) 3(2) keeps_security(2) 3(1), where prev = None]
  note 5 = replace_matches_valid [OF keeps_security(3) valid_const(1) 4(1), where prev = None]
    replace_matches_set [OF printable_const(1) 4(2) keeps_security(3) 4(1), where prev = None]
  show ?thesis unfolding label_def Let_def
    by (intro conjI impI truncate_utf8_valid [OF 5(1)] order_trans [OF truncate_utf8_set 5(2)]
        truncate_utf8_length)
qed

section \<open>Metadata\<close>

lemma sanitize_entry_cases:
  assumes "sanitize_entry (k, v) = Some (k', w)"
  shows "k' = k \<and>
    (k \<in> set integer_keys \<and> w = v \<and> metadata_integer v = Some v \<or>
     k \<in> set text_keys \<and> (\<exists>t. v = MString t \<and> w = MString (label t 128)) \<or>
     k = ''secondary_paths'' \<and> metadata_paths v \<noteq> [] \<and> w = MStrings (metadata_paths v))"
  using assms
  by (auto simp: sanitize_entry_def metadata_integer_def Let_def split: if_splits mvalue.splits)

lemma metadata_paths_ok:
  "length (metadata_paths v) \<le> 128 \<and> (\<forall>p \<in> set (metadata_paths v). utf8_valid p \<and> length p \<le> 4096)"
proof -
  have "length (truncate_utf8 p 4096) \<le> 4096" for p using truncate_utf8_length [of 4096 p] by simp
  then show ?thesis
    by (auto simp: metadata_paths_def Let_def max_secondary_paths_def truncate_utf8_valid
        intro!: order_trans [OF length_filter_le])
qed

lemma set_sanitize_metadata:
  "(k, w) \<in> set (sanitize_metadata md) \<longleftrightarrow> (\<exists>v. (k, v) \<in> set md \<and> sanitize_entry (k, v) = Some (k, w))"
  using sanitize_entry_cases
  by (fastforce simp: sanitize_metadata_def List.map_filter_def image_iff)

section \<open>Properties\<close>

text \<open>A label is safe to display.  Whatever bytes come in, the label is valid UTF-8 without
  control characters, and no longer than a positive limit.\<close>

theorem label_is_displayable:
  "utf8_valid (label v n) \<and> (\<nexists>c. c \<in> set (label v n) \<and> (byte c < 0x20 \<or> byte c = 0x7F)) \<and>
   (n \<le> 0 \<or> int (length (label v n)) \<le> n)"
  using label_text [of v n] by (fastforce simp: printable_def)

lemma sanitized_entry:
  assumes "(k, w) \<in> set (ev_metadata (sanitize_event e))"
  shows "k \<in> set integer_keys \<and> metadata_integer w = Some w \<or>
     k \<in> set text_keys \<and> (\<exists>t. w = MString t \<and> utf8_valid t \<and> set t \<subseteq> printable \<and> length t \<le> 128) \<or>
     k = ''secondary_paths'' \<and> (\<exists>ps. w = MStrings ps \<and> ps \<noteq> [] \<and> length ps \<le> 128 \<and>
       list_all (\<lambda>p. utf8_valid p \<and> length p \<le> 4096) ps)"
proof -
  from assms obtain v where v: "sanitize_entry (k, v) = Some (k, w)"
    by (auto simp: sanitize_event_def set_sanitize_metadata)
  have l: "length (label t 128) \<le> 128" "utf8_valid (label t 128)" "set (label t 128) \<subseteq> printable" for t
    using label_text [of t 128] by auto
  show ?thesis using sanitize_entry_cases [OF v] metadata_paths_ok [of v] l
    by (auto simp: list_all_iff)
qed

text \<open>The texts of an event that are labels, with their limits.\<close>

definition label_fields :: "event \<Rightarrow> (string \<times> nat) list" where
  "label_fields e = [(agent_type e, 64), (adapter_id e, 128), (adapter_version e, 64), (ev_operation e, 64),
     (ev_status e, 64), (tool_name e, 256), (action_label e, 256)]"

text \<open>C12: what is left of an event after sanitizing.  Whatever the event: the command is gone; the seven texts that are
  shown as labels are valid UTF-8 without ASCII control characters and within their limits; and the metadata have only keys of the
  allow-list, each with an integral number, a text of at most 128 bytes that is valid UTF-8 without ASCII control characters, or
  between one and 128 valid paths of at most 4096 bytes, as its key demands.  Nothing is said of secrets inside a text, whose
  redaction is not complete (see below).\<close>

theorem sanitized_event_is_minimal:
  "ev_command (sanitize_event e) = [] \<and>
   list_all (\<lambda>(t, limit). utf8_valid t \<and> set t \<subseteq> printable \<and> length t \<le> limit) (label_fields (sanitize_event e)) \<and>
   list_all (\<lambda>(k, w).
     k \<in> set integer_keys \<and> metadata_integer w = Some w \<or>
     k \<in> set text_keys \<and> (\<exists>t. w = MString t \<and> utf8_valid t \<and> set t \<subseteq> printable \<and> length t \<le> 128) \<or>
     k = ''secondary_paths'' \<and> (\<exists>ps. w = MStrings ps \<and> ps \<noteq> [] \<and> length ps \<le> 128 \<and>
       list_all (\<lambda>p. utf8_valid p \<and> length p \<le> 4096) ps)) (ev_metadata (sanitize_event e))"
proof (intro conjI)
  have l: "utf8_valid (label t (int m)) \<and> set (label t (int m)) \<subseteq> printable \<and> length (label t (int m)) \<le> m" if "0 < m" for t m
    using label_text [of t "int m"] that by auto
  show "list_all (\<lambda>(t, limit). utf8_valid t \<and> set t \<subseteq> printable \<and> length t \<le> limit) (label_fields (sanitize_event e))"
    using l [of 64] l [of 128] l [of 256] by (simp add: label_fields_def sanitize_event_def)
  show "list_all (\<lambda>(k, w).
     k \<in> set integer_keys \<and> metadata_integer w = Some w \<or>
     k \<in> set text_keys \<and> (\<exists>t. w = MString t \<and> utf8_valid t \<and> set t \<subseteq> printable \<and> length t \<le> 128) \<or>
     k = ''secondary_paths'' \<and> (\<exists>ps. w = MStrings ps \<and> ps \<noteq> [] \<and> length ps \<le> 128 \<and>
       list_all (\<lambda>p. utf8_valid p \<and> length p \<le> 4096) ps)) (ev_metadata (sanitize_event e))"
    unfolding list_all_iff [of _ "ev_metadata (sanitize_event e)"] using sanitized_entry by fast
qed (simp add: sanitize_event_def)

text \<open>Sanitizing keeps an event acceptable: if it was valid and has no metadata, the event that
  is stored is valid too.\<close>

theorem sanitize_preserves_validity:
  assumes "validate e = None" and "ev_metadata e = []"
  shows "validate (sanitize_event e) = None"
proof -
  have l: "utf8_valid (label t m) \<and> CHR 0x00 \<notin> set (label t m) \<and> length (label t m) \<le> nat m" if "0 < m" for t m
    using label_text [of t m] that by (auto simp: printable_def byte_def)
  note ls = l [of 64, simplified] l [of 128, simplified] l [of 256, simplified]
  have n: "number_fields (sanitize_event e) = number_fields e"
    by (simp add: number_fields_def sanitize_event_def)
  have m: "ev_metadata (sanitize_event e) = []"
    using assms(2) by (simp add: sanitize_event_def sanitize_metadata_def List.map_filter_simps)
  have f: "\<forall>(name, v, limit) \<in> set (string_fields e). utf8_valid v \<and> CHR 0x00 \<notin> set v \<and> length v \<le> limit"
    using assms(1) unfolding validate_None by (elim conjE)
  then have "\<forall>(name, v, limit) \<in> set (string_fields (sanitize_event e)).
      utf8_valid v \<and> CHR 0x00 \<notin> set v \<and> length v \<le> limit"
    using ls by (simp add: string_fields_def sanitize_event_def)
  with assms n m show ?thesis unfolding validate_None by (simp add: sanitize_event_def)
qed

section \<open>Redaction of an assignment\<close>

definition plain_char :: "char \<Rightarrow> bool" where
  "plain_char c \<longleftrightarrow> 33 \<le> byte c \<and> byte c \<le> 126"

definition secret_names :: "string list" where
  "secret_names = [''password'', ''passwd'', ''secret'', ''token'', ''api_key'', ''authorization'', ''cookie'']"

lemma plain_valid: "list_all plain_char s \<Longrightarrow> utf8_valid s"
  by (induction s) (auto simp: plain_char_def)

lemma plain_first_rune: "plain_char c \<Longrightarrow> first_rune (c # s) = [c]"
  by (simp add: first_rune_def rune_len.simps(2) rune_size_def plain_char_def)

lemma plain_blank: "list_all plain_char s \<Longrightarrow> blank_controls s = s"
proof (induction s)
  case (Cons c s)
  then show ?case
    by (subst blank_controls.simps) (simp add: plain_first_rune is_control_def plain_char_def)
qed (simp add: blank_controls.simps)

lemma plain_no_space:
  assumes "plain_char c"
  shows "leading_space (c # s) = 0" and "trailing_space (s @ [c]) = 0"
proof -
  have "list_all (\<lambda>w. \<not> plain_char (hd w) \<and> \<not> plain_char (last w)) space_encodings"
    unfolding space_encodings_code by (simp add: bytes_def plain_char_def byte_def)
  then have n: "w \<in> set space_encodings \<Longrightarrow> hd w \<noteq> c \<and> last w \<noteq> c \<and> w \<noteq> []" for w
    using assms space_encodings_nonempty by (auto simp: list_all_iff)
  have "has_prefix (c # s) w \<Longrightarrow> w \<notin> set space_encodings" for w
    using n [of w] by (cases w) (auto simp: has_prefix_def)
  then have "List.find (\<lambda>w. has_prefix (c # s) w) space_encodings = None"
    by (auto simp: find_None_iff)
  then show "leading_space (c # s) = 0" by (simp add: leading_space.simps)
  have "has_suffix (s @ [c]) w \<Longrightarrow> w \<notin> set space_encodings" for w
    using n [of w] by (cases w rule: rev_cases) (auto simp: has_suffix_def)
  then have "List.find (\<lambda>w. has_suffix (s @ [c]) w) space_encodings = None"
    by (auto simp: find_None_iff)
  then show "trailing_space (s @ [c]) = 0" by (simp add: trailing_space.simps)
qed

lemma plain_trim_left: "list_all plain_char s \<Longrightarrow> trim_left s = s"
  by (cases s) (simp_all add: trim_left.simps plain_no_space)

lemma plain_trim: "list_all plain_char s \<Longrightarrow> trim_space s = s"
  by (cases s rule: rev_cases) (simp_all add: trim_space_def plain_trim_left trim_right.simps plain_no_space)

lemma plain_word_len: "list_all plain_char s \<Longrightarrow> word_len s = length s"
  by (induction s) (simp_all add: plain_no_space)

lemma plain_fields: "list_all plain_char s \<Longrightarrow> s \<noteq> [] \<Longrightarrow> str_fields s = [s]"
proof -
  assume s: "list_all plain_char s" "s \<noteq> []"
  have "str_fields [] = []" by (subst str_fields.simps) (simp add: trim_left.simps)
  with s show ?thesis by (subst str_fields.simps) (simp add: plain_trim_left plain_word_len)
qed

lemma m_many_plain:
  "list_all (\<lambda>c. plain_char c \<and> P [c]) s \<Longrightarrow> \<exists>q rest. m_many P (prev, s) = (q, []) # rest"
proof (induction s arbitrary: prev)
  case (Cons c s)
  from Cons.prems have "list_all (\<lambda>c. plain_char c \<and> P [c]) s" by simp
  from Cons.IH [OF this, of "Some c"] obtain q rest where "m_many P (Some c, s) = (q, []) # rest" by blast
  with Cons.prems show ?case by (subst m_many.simps) (simp add: plain_first_rune)
qed (simp add: m_many.simps)

lemma m_rune_plain:
  "plain_char c \<Longrightarrow> m_rune P (prev, c # s) = (if P [c] then [(Some c, s)] else [])"
  by (simp add: m_rune_def plain_first_rune)

lemma secret_name_match:
  assumes "name \<in> set secret_names"
  shows "m_seq m_boundary secret_word (None, name @ CHR ''='' # v) = [(Some (last name), CHR ''='' # v)]"
  using assms
  by (auto simp: secret_names_def m_seq_def m_boundary_def secret_word_def m_alt_def m_fail_def m_empty_def
      m_opt_def m_rune_plain plain_char_def byte_def folds_to_def lower_def word_char_def bytes_def)

text \<open>What the later expressions do with a redacted assignment: nothing, since no part of it
  starts like a token.\<close>

fun quiet :: "string \<Rightarrow> bool" where
  "quiet [] = True"
| "quiet (c # s) = (plain_char c \<and> lower c \<noteq> CHR ''b'' \<and> c \<notin> set ''gA'' \<and> (c = CHR ''s'' \<longrightarrow> s \<noteq> [] \<and> hd s \<noteq> CHR ''k'') \<and> quiet s)"

lemma replace_none:
  assumes "\<And>p c t. quiet (c # t) \<Longrightarrow> m (p, c # t) = []"
  shows "quiet s \<Longrightarrow> replace_matches m f prev s = s"
proof (induction s arbitrary: prev)
  case (Cons c s)
  then have "replace_step m f prev (c # s) = ([c], Some c, s)"
    using assms [OF Cons.prems] by (simp add: replace_step_def plain_first_rune)
  with Cons show ?case by (subst replace_matches.simps) simp
qed (simp add: replace_matches.simps)

lemma quiet_no_bearer: "quiet (c # t) \<Longrightarrow> bearer_token (p, c # t) = []"
  by (auto simp: bearer_token_def m_seq_def m_boundary_def m_rune_plain folds_to_def)

lemma quiet_no_token: "quiet (c # t) \<Longrightarrow> known_token (p, c # t) = []"
  by (cases t) (auto simp: known_token_def m_seq_def m_boundary_def m_rune_plain m_alt_def)

lemma redacted_stays:
  assumes "name \<in> set secret_names"
  shows "replace_matches known_token (\<lambda>_. ''<redacted>'') None
      (replace_matches bearer_token (\<lambda>_. ''Bearer <redacted>'') None (name @ ''=<redacted>'')) =
    name @ ''=<redacted>''"
proof -
  have "list_all (\<lambda>name. quiet (name @ ''=<redacted>'')) secret_names"
    by (simp add: secret_names_def plain_char_def byte_def lower_def)
  with assms have "quiet (name @ ''=<redacted>'')" by (simp add: list_all_iff)
  then show ?thesis
    using replace_none [of bearer_token, OF quiet_no_bearer] replace_none [of known_token, OF quiet_no_token]
    by simp
qed

lemma secret_names_plain: "name \<in> set secret_names \<Longrightarrow> list_all plain_char name \<and> name \<noteq> [] \<and>
    takeWhile (\<lambda>c. c \<noteq> CHR '':'' \<and> c \<noteq> CHR ''='') (name @ CHR ''='' # v) = name"
  by (auto simp: secret_names_def plain_char_def byte_def)

definition secret_value :: "string \<Rightarrow> bool" where
  "secret_value v \<longleftrightarrow> v \<noteq> [] \<and> list_all (\<lambda>c. plain_char c \<and> c \<notin> set [CHR '','', CHR '';'', CHR 0x22, CHR 0x27]) v"

lemma assignment_match:
  assumes "name \<in> set secret_names" and v: "secret_value v"
  shows "\<exists>q rest. secret_assignment (None, name @ CHR ''='' # v) = (q, []) # rest"
proof -
  obtain c u where c: "v = c # u" "plain_char c" "c \<noteq> CHR '',''" "c \<noteq> CHR '';''" "c \<noteq> CHR 0x22" "c \<noteq> CHR 0x27"
    using v by (cases v) (auto simp: secret_value_def)
  have sp: "\<not> re_space [c]" using c(2) by (auto simp: re_space_def plain_char_def byte_def)
  have val: "re_value [d]" if "plain_char d" "d \<noteq> CHR '',''" "d \<noteq> CHR '';''" for d
    using that by (auto simp: re_value_def re_space_def plain_char_def byte_def)
  have many: "m_many re_space (p, d # s) = [(p, d # s)]" if "plain_char d" "\<not> re_space [d]" for p d s
    using that by (subst m_many.simps) (simp add: plain_first_rune)
  have "list_all (\<lambda>d. plain_char d \<and> re_value [d]) u"
    using v c(1) val by (auto simp: secret_value_def list_all_iff)
  from m_many_plain [of re_value, OF this, of "Some c"] obtain q rest where
    all: "m_many re_value (Some c, u) = (q, []) # rest" by blast
  have vs: "m_at_least (Suc 0) re_value (p, v) = (q, []) # rest" for p
    using c val [OF c(2-4)] all
    by (simp add: m_at_least_def m_seq_def m_empty_def m_rune_plain c(1))
  have qs: "quoted_by double_quote (p, v) = []" "quoted_by single_quote (p, v) = []" for p
    using c by (simp_all add: quoted_by_def m_seq_def m_rune_plain double_quote_def single_quote_def)
  have eq: "plain_char (CHR ''='')" "\<not> re_space [CHR ''='']"
    by (simp_all add: plain_char_def byte_def re_space_def)
  have assoc: "m_seq a (m_seq b d) pos = m_seq (m_seq a b) d pos" for a b d pos
  proof -
    have "concat (map (\<lambda>p. concat (map d (b p))) ps) = concat (map d (concat (map b ps)))" for ps
      by (induction ps) auto
    then show ?thesis by (simp add: m_seq_def [abs_def])
  qed
  have "secret_assignment (None, name @ CHR ''='' # v) =
      m_seq (m_seq m_boundary secret_word) (m_seq (m_many re_space)
       (m_seq (m_rune (\<lambda>r. r = '':'' \<or> r = ''='')) (m_seq (m_many re_space)
         (m_alt (quoted_by double_quote) (m_alt (quoted_by single_quote) (m_at_least 1 re_value))))))
        (None, name @ CHR ''='' # v)"
    unfolding secret_assignment_def by (rule assoc)
  also have "\<dots> = (q, []) # rest"
    using secret_name_match [OF assms(1), of v] many [OF eq] many [OF c(2) sp, of _ u, folded c(1)]
    by (simp add: m_seq_def [of "m_seq m_boundary secret_word"], simp add: m_seq_def m_rune_plain eq(1) m_alt_def vs qs)
  finally show ?thesis by blast
qed

text \<open>An assignment that is the whole text is redacted: one of seven names in small letters, an equals sign and a printable ASCII
  value without spaces, quotes, comma and semicolon is shown with the value replaced, whatever the value, under every limit
  the result fits in.\<close>

theorem label_redacts_assignment:
  assumes "name \<in> set secret_names" and "secret_value v" and "n \<le> 0 \<or> 24 \<le> n"
  shows "label (name @ CHR ''='' # v) n = name @ ''=<redacted>''"
proof -
  let ?s = "name @ CHR ''='' # v"
  note nm = secret_names_plain [OF assms(1), of v]
  have plain: "list_all plain_char ?s" "?s \<noteq> []"
    using nm assms(2) by (auto simp: secret_value_def list_all_iff plain_char_def byte_def)
  have 1: "join_str '' '' (str_fields (blank_controls (to_valid ?s))) = ?s"
    using plain by (simp add: to_valid_id plain_valid plain_blank plain_fields)
  obtain q rest where m: "secret_assignment (None, ?s) = (q, []) # rest"
    using assignment_match [OF assms(1,2)] by blast
  then have "replace_step secret_assignment redact_assignment None ?s = (redact_assignment ?s, q, [])"
    using plain(2) by (simp add: replace_step_def Let_def)
  moreover have "redact_assignment ?s = name @ ''=<redacted>''"
    using nm by (simp add: redact_assignment_def Let_def plain_trim)
  ultimately have 2: "replace_matches secret_assignment redact_assignment None ?s = name @ ''=<redacted>''"
    using plain(2) by (subst replace_matches.simps) (simp add: replace_matches.simps)
  have "length (name @ ''=<redacted>'') \<le> 24" using assms(1) by (auto simp: secret_names_def)
  with assms(3) show ?thesis unfolding label_def Let_def 1 2 redacted_stays [OF assms(1)]
    by (auto simp: truncate_utf8_def)
qed

text \<open>A header with a bearer token keeps the token: the expression for assignments takes the word \<^verbatim>\<open>Bearer\<close> as the value, so
  the expression for bearer tokens finds nothing.\<close>

theorem authorization_header_keeps_token:
  "label ''Authorization: Bearer abc123'' 64 = ''Authorization=<redacted> abc123''"
  by code_simp

lemma label_Nil: "label [] n = []"
proof -
  have "replace_matches secret_assignment redact_assignment None (join_str '' '' (str_fields (blank_controls (to_valid [])))) = []"
    by code_simp
  moreover have "replace_matches bearer_token (\<lambda>_. ''Bearer <redacted>'') None [] = []" by code_simp
  moreover have "replace_matches known_token (\<lambda>_. ''<redacted>'') None [] = []" by code_simp
  ultimately show ?thesis by (auto simp: label_def truncate_utf8_def)
qed

section \<open>Witnesses\<close>

text \<open>A key off the list is dropped, a text on it becomes a label.\<close>

theorem sanitized_event_is_minimal_witness:
  "\<exists>t. ev_metadata (sanitize_event (zero_event\<lparr>ev_metadata := [(''prompt'', MInt 1), (''reason'', MString ''x'')]\<rparr>)) =
     [(''reason'', MString t)] \<and> utf8_valid t \<and> length t \<le> 128"
proof -
  let ?e = "zero_event\<lparr>ev_metadata := [(''prompt'', MInt 1), (''reason'', MString ''x'')]\<rparr>"
  have m: "ev_metadata (sanitize_event ?e) = [(''reason'', MString (label ''x'' 128))]"
    by (simp add: sanitize_event_def sanitize_metadata_def List.map_filter_simps sanitize_entry_def
        integer_keys_def text_keys_def)
  from sanitized_event_is_minimal [of ?e] show ?thesis unfolding m by (simp add: integer_keys_def text_keys_def)
qed

theorem sanitize_preserves_validity_witness:
  "\<exists>e. validate e = None \<and> ev_command e \<noteq> [] \<and> validate (sanitize_event e) = None"
proof -
  let ?e = "zero_event\<lparr>schema_version := ''1.0'', event_id := ''e'', event_type := File_read,
    source_type := Source_wrapper, source_confidence := Conf_exact, timestamp := 1, ev_command := ''ls''\<rparr>"
  have v: "validate ?e = None"
    by (simp add: zero_event_def validate_def string_fields_def number_fields_def validate_string_def
        validate_number_def validate_metadata_def schema_version_const_def byte_def)
  have "ev_metadata ?e = []" by (simp add: zero_event_def)
  with sanitize_preserves_validity [OF v] v show ?thesis by (intro exI [of _ ?e]) simp
qed

theorem label_redacts_assignment_witness:
  "label ''token=hunter2'' 64 = ''token=<redacted>''"
  using label_redacts_assignment [of "''token''" "''hunter2''" 64]
  by (simp add: secret_names_def secret_value_def plain_char_def byte_def)

end
