(* ===== verification/Path_Normalize.thy ===== *)
theory Path_Normalize
  imports Paths
begin

text \<open>
  \<^verbatim>\<open>adapter/go/path.go\<close>: turning a reported path into one relative to the selected project, and
  rejecting what lies outside, lexically or through a symbolic link.  The file system is a
  parameter: the working directory, \<^verbatim>\<open>os.Lstat\<close> and \<^verbatim>\<open>filepath.EvalSymlinks\<close>.
\<close>

datatype lstat = Missing | Stat_error | Plain | Symlink

record filesystem =
  fs_cwd :: "string option"
  fs_lstat :: "string \<Rightarrow> lstat"
  fs_eval :: "string \<Rightarrow> string option"

datatype path_error =
    Root_required | Abs_failed | Rel_failed | Escapes_project
  | Inspect_root_failed | Resolve_root_failed | Inspect_failed | Resolve_failed | Escapes_through_link

definition path_abs :: "filesystem \<Rightarrow> string \<Rightarrow> string option" where
  "path_abs fs p =
     (if is_abs p then Some (path_clean p)
      else case fs_cwd fs of None \<Rightarrow> None | Some wd \<Rightarrow> Some (path_join [wd, p]))"

definition climbs :: "string \<Rightarrow> bool" where
  "climbs rel \<longleftrightarrow> rel = ''..'' \<or> has_prefix rel ''../'' \<or> is_abs rel"

definition path_within :: "string \<Rightarrow> string \<Rightarrow> bool" where
  "path_within root candidate =
     (case path_rel root candidate of None \<Rightarrow> False | Some relative \<Rightarrow> \<not> climbs relative)"

text \<open>The loop over the components: \<open>cur\<close> is the path walked so far.\<close>

fun check_components :: "filesystem \<Rightarrow> string \<Rightarrow> string \<Rightarrow> string list \<Rightarrow> path_error option" where
  "check_components fs resolved_root cur [] = None"
| "check_components fs resolved_root cur (c # cs) =
     (if c = [] \<or> c = ''.'' then check_components fs resolved_root cur cs
      else let cur' = path_join [cur, c] in
        (case fs_lstat fs cur' of
           Missing \<Rightarrow> None
         | Stat_error \<Rightarrow> Some Inspect_failed
         | Plain \<Rightarrow> check_components fs resolved_root cur' cs
         | Symlink \<Rightarrow>
             (case fs_eval fs cur' of
                None \<Rightarrow> Some Resolve_failed
              | Some resolved \<Rightarrow>
                  if \<not> path_within resolved_root resolved then Some Escapes_through_link
                  else check_components fs resolved_root cur' cs)))"

definition reject_symlink_escape :: "filesystem \<Rightarrow> string \<Rightarrow> string \<Rightarrow> path_error option" where
  "reject_symlink_escape fs root candidate =
     (let walk = (\<lambda>resolved_root.
        case path_rel root candidate of
          None \<Rightarrow> Some Rel_failed
        | Some relative \<Rightarrow> check_components fs resolved_root root (split_char slash relative))
      in case fs_lstat fs root of
           Missing \<Rightarrow> Some Inspect_root_failed
         | Stat_error \<Rightarrow> Some Inspect_root_failed
         | Symlink \<Rightarrow> (case fs_eval fs root of None \<Rightarrow> Some Resolve_root_failed | Some r \<Rightarrow> walk r)
         | Plain \<Rightarrow> walk root)"

definition normalize_project_path :: "filesystem \<Rightarrow> string \<Rightarrow> string \<Rightarrow> path_error + string" where
  "normalize_project_path fs root0 value =
     (if root0 = [] then Inl Root_required
      else case path_abs fs root0 of
        None \<Rightarrow> Inl Abs_failed
      | Some root \<Rightarrow>
          let candidate = (if is_abs value then value else path_join [root, value]) in
          (case path_abs fs candidate of
             None \<Rightarrow> Inl Abs_failed
           | Some absolute \<Rightarrow>
               (case path_rel root absolute of
                  None \<Rightarrow> Inl Rel_failed
                | Some rel \<Rightarrow>
                    if climbs rel then Inl Escapes_project
                    else (case reject_symlink_escape fs root absolute of
                        Some err \<Rightarrow> Inl err
                      | None \<Rightarrow> Inr (path_clean rel)))))"

section \<open>Absolute paths as element lists\<close>

definition abs_path :: "string list \<Rightarrow> string" where
  "abs_path ws = unsplit True ws"

lemma clean_list_noslash: "clean_list r ws \<Longrightarrow> \<forall>w \<in> set ws. slash \<notin> set w \<and> w \<noteq> []"
  by (auto simp: clean_list_def plain_elem_def)

lemma clean_list_True: "clean_list True ws \<longleftrightarrow> (\<forall>w \<in> set ws. plain_elem w) \<and> ''..'' \<notin> set ws"
  unfolding clean_list_def by auto

lemma is_abs_abs_path [simp]: "is_abs (abs_path ws)"
  by (simp add: abs_path_def unsplit_def is_abs_def has_prefix_def)

lemma split_abs_path:
  "clean_list r ws \<Longrightarrow> split_char slash (abs_path ws) = [] # (if ws = [] then [[]] else ws)"
  using clean_list_noslash [of r ws] split_join [of ws slash]
  by (auto simp: abs_path_def unsplit_def)

lemma path_elems_abs [simp]: "clean_list True ws \<Longrightarrow> path_elems (abs_path ws) = ws"
proof -
  assume c: "clean_list True ws"
  have "abs_path ws \<noteq> ''.''" by (simp add: abs_path_def unsplit_def)
  moreover have "filter (\<lambda>w. w \<noteq> []) ws = ws"
    using clean_list_noslash [OF c] by (simp add: filter_id_conv)
  ultimately show ?thesis using split_abs_path [OF c] by (simp add: path_elems_def)
qed

lemma abs_path_inj: "clean_list True ws \<Longrightarrow> clean_list True vs \<Longrightarrow> abs_path ws = abs_path vs \<longleftrightarrow> ws = vs"
  by (metis path_elems_abs)

lemma split_no_slash: "\<forall>w \<in> set (split_char slash p). slash \<notin> set w"
  using split_char_no_sep by blast

lemma path_clean_abs:
  assumes "is_abs p"
  shows "\<exists>ws. clean_list True ws \<and> path_clean p = abs_path ws \<and>
    ws = clean_elems True [] (split_char slash p)"
proof -
  have "clean_list True (rev [])" by (simp add: clean_list_True)
  from clean_elems_clean [OF this split_no_slash] assms show ?thesis
    by (auto simp: path_clean_def abs_path_def)
qed

lemma path_clean_abs_path [simp]: "clean_list True ws \<Longrightarrow> path_clean (abs_path ws) = abs_path ws"
proof -
  assume c: "clean_list True ws"
  have "clean_elems True [] (split_char slash (abs_path ws)) = ws"
    using split_abs_path [OF c] clean_elems_id [OF c] by (simp split: if_splits)
  then show ?thesis by (simp add: path_clean_def) (simp add: abs_path_def)
qed

lemma clean_elems_append:
  "clean_elems r stack (xs @ ys) = clean_elems r (rev (clean_elems r stack xs)) ys"
  by (induction r stack xs rule: clean_elems.induct) (auto split: list.splits)

lemma split_char_snoc: "split_char c (s @ c # t) = split_char c s @ split_char c t"
  by (induction s) (auto split: list.splits)

lemma path_join_abs:
  assumes "clean_list True ws"
  shows "path_join [abs_path ws, p] = abs_path (clean_elems True (rev ws) (split_char slash p))"
proof -
  have ne: "abs_path ws \<noteq> []" by (simp add: abs_path_def unsplit_def)
  then have "path_join [abs_path ws, p] = path_clean (abs_path ws @ slash # p)"
    by (simp add: path_join_def)
  moreover have "is_abs (abs_path ws @ slash # p)"
    by (simp add: abs_path_def unsplit_def is_abs_def has_prefix_def)
  moreover have "clean_elems True [] (split_char slash (abs_path ws)) = ws"
    using split_abs_path [OF assms] clean_elems_id [OF assms] by (simp split: if_splits)
  ultimately show ?thesis
    by (simp add: path_clean_def split_char_snoc clean_elems_append) (simp add: abs_path_def)
qed

lemma path_join_elem:
  "clean_list True ws \<Longrightarrow> plain_elem c \<Longrightarrow> c \<noteq> ''..'' \<Longrightarrow> path_join [abs_path ws, c] = abs_path (ws @ [c])"
  by (simp add: path_join_abs plain_elem_def split_char_word)

section \<open>Relative paths\<close>

lemma strip_common_spec:
  "strip_common bs ts = (us, vs) \<Longrightarrow> \<exists>p. bs = p @ us \<and> ts = p @ vs \<and> (us = [] \<or> vs = [] \<or> hd us \<noteq> hd vs)"
proof (induction bs ts rule: strip_common.induct)
  case (1 b bs t ts)
  show ?case
  proof (cases "b = t")
    case True
    with 1 obtain p where "bs = p @ us" "ts = p @ vs" "us = [] \<or> vs = [] \<or> hd us \<noteq> hd vs" by auto
    with True show ?thesis by (intro exI [of _ "b # p"]) simp
  next
    case False
    with 1(2) show ?thesis by (intro exI [of _ "[]"]) auto
  qed
qed auto

lemma strip_common_self [simp]: "strip_common bs (bs @ ts) = ([], ts)"
  by (induction bs) (cases ts; simp)+

lemma climbs_head: "climbs rel \<longleftrightarrow> hd (split_char slash rel) = ''..'' \<or> is_abs rel"
proof -
  have "hd (split_char slash rel) = ''..''" if "has_prefix rel ''../''"
    using that by (auto simp: has_prefix_def prefix_def)
  moreover have "rel = ''..'' \<or> has_prefix rel ''../''" if h: "hd (split_char slash rel) = ''..''"
  proof -
    obtain ws where "split_char slash rel = ''..'' # ws" using h by (cases "split_char slash rel") auto
    then have "rel = join_str [slash] (''..'' # ws)" by (metis join_split)
    then show ?thesis by (cases ws) (auto simp: has_prefix_def)
  qed
  ultimately show ?thesis by (auto simp: climbs_def)
qed

lemma unsplit_relative:
  assumes "clean_list False ws"
  shows "\<not> is_abs (unsplit False ws)" and "split_char slash (unsplit False ws) = (if ws = [] then [''.''] else ws)"
proof -
  note ns = clean_list_noslash [OF assms]
  then show sp: "split_char slash (unsplit False ws) = (if ws = [] then [''.''] else ws)"
    using split_join [of ws slash] by (auto simp: unsplit_def)
  show "\<not> is_abs (unsplit False ws)"
  proof
    assume "is_abs (unsplit False ws)"
    then have "hd (split_char slash (unsplit False ws)) = []"
      by (cases "unsplit False ws") (auto simp: is_abs_def has_prefix_def)
    with sp ns show False by (cases ws) auto
  qed
qed

lemma climbs_unsplit:
  assumes "clean_list False (replicate n ''..'' @ ts)" and "''..'' \<notin> set ts"
  shows "climbs (unsplit False (replicate n ''..'' @ ts)) \<longleftrightarrow> 0 < n"
  using unsplit_relative [OF assms(1)] assms(2) unfolding climbs_head
  by (cases n; cases ts) auto

lemma path_clean_relative: "clean_list False ws \<Longrightarrow> path_clean (unsplit False ws) = unsplit False ws"
  using unsplit_relative [of ws] clean_elems_id [of False ws] by (simp add: path_clean_def split: if_splits)

text \<open>\<^verbatim>\<open>Rel\<close> between clean absolute paths stays below the base exactly for its extensions.\<close>

lemma path_rel_abs:
  assumes "clean_list True rs" and "clean_list True ws"
  shows "path_rel (abs_path rs) (abs_path ws) = Some (case strip_common rs ws of (bs, ts) \<Rightarrow>
     unsplit False (replicate (length bs) ''..'' @ ts))"
proof -
  have "hd bs \<noteq> ''..''" if "strip_common rs ws = (bs, ts)" "bs \<noteq> []" for bs ts
  proof -
    from strip_common_spec [OF that(1)] obtain q where "rs = q @ bs" by blast
    with assms(1) that(2) show ?thesis by (cases bs) (auto simp: clean_list_True)
  qed
  moreover have "strip_common rs rs = ([], [])" using strip_common_self [of rs "[]"] by simp
  ultimately show ?thesis using assms abs_path_inj [OF assms]
    by (auto simp: path_rel_def Let_def unsplit_def split: prod.splits)
qed

lemma clean_list_up:
  assumes "\<forall>w \<in> set ts. plain_elem w" and "''..'' \<notin> set ts"
  shows "clean_list False (replicate n ''..'' @ ts)"
proof -
  have "plain_elem ''..''" by (simp add: plain_elem_def)
  with assms(1) have "\<forall>w \<in> set (replicate n ''..'' @ ts). plain_elem w"
    by (metis Un_iff in_set_replicate set_append)
  with assms(2) show ?thesis unfolding clean_list_def by blast
qed

lemma path_rel_below:
  assumes "clean_list True rs" and "clean_list True ws"
  shows "(\<exists>rel. path_rel (abs_path rs) (abs_path ws) = Some rel \<and> \<not> climbs rel) \<longleftrightarrow> (\<exists>ts. ws = rs @ ts)"
proof -
  obtain bs ts where s: "strip_common rs ws = (bs, ts)" by (cases "strip_common rs ws")
  from strip_common_spec [OF s] obtain q where q: "rs = q @ bs" "ws = q @ ts" by blast
  have td: "''..'' \<notin> set ts" "\<forall>w \<in> set ts. plain_elem w" 
    using assms(2) unfolding q(2) clean_list_True by simp_all
  have cl: "clean_list False (replicate (length bs) ''..'' @ ts)"
    using td by (rule clean_list_up [rotated])
  from climbs_unsplit [OF cl td(1)] have c: "climbs (unsplit False (replicate (length bs) ''..'' @ ts)) \<longleftrightarrow> bs \<noteq> []"
    by auto
  have "bs = []" if "ws = rs @ us" for us using s unfolding that strip_common_self by simp
  then have "bs = [] \<longleftrightarrow> (\<exists>us. ws = rs @ us)" using q by auto
  with c s path_rel_abs [OF assms]
  show "(\<exists>rel. path_rel (abs_path rs) (abs_path ws) = Some rel \<and> \<not> climbs rel) \<longleftrightarrow> (\<exists>ts. ws = rs @ ts)"
    by simp
qed

lemma path_rel_extension:
  "clean_list True (rs @ ts) \<Longrightarrow> path_rel (abs_path rs) (abs_path (rs @ ts)) = Some (unsplit False ts)"
  using path_rel_abs [of rs "rs @ ts"] by (simp add: clean_list_True)

section \<open>Normalization\<close>

text \<open>Every successful normalization, in terms of element lists.\<close>

lemma path_abs_clean:
  assumes "path_abs fs p = Some a" and "\<And>wd. fs_cwd fs = Some wd \<Longrightarrow> is_abs wd"
  shows "\<exists>ws. clean_list True ws \<and> a = abs_path ws"
proof (cases "is_abs p")
  case True
  with assms(1) path_clean_abs show ?thesis by (auto simp: path_abs_def)
next
  case False
  with assms obtain wd where wd: "is_abs wd" "a = path_join [wd, p]"
    by (auto simp: path_abs_def split: option.splits)
  then have "a = path_clean (join_str [slash] [wd, p])" "is_abs (join_str [slash] [wd, p])"
    by (auto simp: path_join_def is_abs_def has_prefix_def prefix_def)
  with path_clean_abs show ?thesis by blast
qed

lemma candidate_abs:
  assumes "clean_list True rs"
  shows "\<exists>ws. clean_list True ws \<and>
    path_abs fs (if is_abs value then value else path_join [abs_path rs, value]) = Some (abs_path ws)"
proof (cases "is_abs value")
  case True
  with path_clean_abs [OF True] show ?thesis by (auto simp: path_abs_def)
next
  case False
  have "clean_list True (clean_elems True (rev rs) (split_char slash value))"
    using assms clean_elems_clean [of True "rev rs", OF _ split_no_slash] by simp
  with False show ?thesis by (auto simp: path_join_abs [OF assms] path_abs_def)
qed

lemma normalize_Inr:
  assumes "normalize_project_path fs root value = Inr r"
    and "\<And>wd. fs_cwd fs = Some wd \<Longrightarrow> is_abs wd"
  obtains rs ts where "clean_list True (rs @ ts)" and "path_abs fs root = Some (abs_path rs)"
    and "path_abs fs (if is_abs value then value else path_join [abs_path rs, value]) = Some (abs_path (rs @ ts))"
    and "r = unsplit False ts" and "reject_symlink_escape fs (abs_path rs) (abs_path (rs @ ts)) = None"
    and "root \<noteq> []"
proof -
  from assms(1) obtain a where root: "root \<noteq> []" "path_abs fs root = Some a"
    by (auto simp: normalize_project_path_def split: if_splits option.splits)
  from path_abs_clean [OF this(2) assms(2)] obtain rs where rs: "clean_list True rs" "a = abs_path rs" by blast
  from candidate_abs [OF rs(1), of fs "value"] obtain ws where
    ws: "clean_list True ws" "path_abs fs (if is_abs value then value else path_join [abs_path rs, value]) = Some (abs_path ws)"
    by blast
  from assms(1) root rs ws obtain rel where
    rel: "path_rel (abs_path rs) (abs_path ws) = Some rel" "\<not> climbs rel" "r = path_clean rel"
      "reject_symlink_escape fs (abs_path rs) (abs_path ws) = None"
    by (auto simp: normalize_project_path_def Let_def split: if_splits option.splits)
  then obtain ts where ts: "ws = rs @ ts" using path_rel_below [OF rs(1) ws(1)] by blast
  have "rel = unsplit False ts" using rel(1) path_rel_extension [of rs ts] ws(1) ts by simp
  moreover have "clean_list False ts"
    using ws(1) ts clean_list_up [of ts 0] by (simp add: clean_list_True)
  ultimately have "r = unsplit False ts" using rel(3) by (simp add: path_clean_relative)
  with that [of rs ts] root rs ws ts rel(4) show thesis by simp
qed

text \<open>An accepted path stays inside the project.  It is a clean relative path: no empty, "."
  or ".." element, not absolute, and "." only for the root itself.\<close>

theorem normalized_path_is_confined:
  assumes "normalize_project_path fs root value = Inr r"
    and "\<And>wd. fs_cwd fs = Some wd \<Longrightarrow> is_abs wd"
  shows "\<exists>ts. r = (if ts = [] then ''.'' else join_str [slash] ts) \<and>
    list_all (\<lambda>t. t \<noteq> [] \<and> t \<noteq> ''.'' \<and> t \<noteq> ''..'' \<and> slash \<notin> set t) ts \<and> \<not> is_abs r"
proof -
  from normalize_Inr [OF assms] obtain rs ts where c: "clean_list True (rs @ ts)" "r = unsplit False ts" by metis
  then have "clean_list False ts" using clean_list_up [of ts 0] by (simp add: clean_list_True)
  with unsplit_relative(1) c show ?thesis
    by (intro exI [of _ ts]) (auto simp: unsplit_def clean_list_True plain_elem_def list_all_iff)
qed

lemma path_join_relative:
  assumes "clean_list True (rs @ ts)"
  shows "path_join [abs_path rs, unsplit False ts] = abs_path (rs @ ts)"
proof -
  have rs: "clean_list True rs" and ts: "clean_list False ts"
    using assms clean_list_up [of ts 0] by (simp_all add: clean_list_True)
  have "clean_elems True [] (rs @ ts) = rs @ ts" by (rule clean_elems_id [OF assms])
  moreover have "clean_elems True [] rs = rs" by (rule clean_elems_id [OF rs])
  ultimately have "clean_elems True (rev rs) ts = rs @ ts" by (simp add: clean_elems_append)
  with unsplit_relative(2) [OF ts] show ?thesis by (auto simp: path_join_abs [OF rs] split: if_splits)
qed

text \<open>Normalizing is stable.  A path that was normalized normalizes to itself, so the second
  normalization of an event at the desktop changes nothing.\<close>

theorem normalize_idempotent:
  assumes "normalize_project_path fs root value = Inr r"
    and "\<And>wd. fs_cwd fs = Some wd \<Longrightarrow> is_abs wd"
  shows "normalize_project_path fs root r = Inr r"
proof -
  from normalize_Inr [OF assms] obtain rs ts where c: "clean_list True (rs @ ts)"
    "path_abs fs root = Some (abs_path rs)" "r = unsplit False ts"
    "reject_symlink_escape fs (abs_path rs) (abs_path (rs @ ts)) = None" "root \<noteq> []" by metis
  have rs: "clean_list True rs" and ts: "clean_list False ts" "clean_list True ts"
    using c(1) clean_list_up [of ts 0] by (simp_all add: clean_list_True)
  have j: "path_join [abs_path rs, r] = abs_path (rs @ ts)"
    unfolding c(3) by (rule path_join_relative [OF c(1)])
  have "\<not> is_abs r" using unsplit_relative(1) [OF ts(1)] c(3) by simp
  moreover have "\<not> climbs (unsplit False ts)"
    using climbs_unsplit [of 0 ts] ts by (simp add: clean_list_True)
  ultimately show ?thesis using c j path_rel_extension [OF c(1)] ts(1)
    by (simp add: normalize_project_path_def Let_def path_abs_def [of fs "abs_path _"] path_clean_relative)
qed

text \<open>A file system given by a finite table: for every entry its element list, its kind and the element
  list it resolves to.\<close>

type_synonym fs_table = "(string list \<times> lstat \<times> string list) list"

definition table_fs :: "fs_table \<Rightarrow> filesystem" where
  "table_fs tbl = \<lparr>fs_cwd = Some ''/'',
     fs_lstat = (\<lambda>p. case map_of tbl (path_elems p) of None \<Rightarrow> Missing | Some (s, _) \<Rightarrow> s),
     fs_eval = (\<lambda>p. map_option (abs_path \<circ> snd) (map_of tbl (path_elems p)))\<rparr>"

text \<open>A directory \<^verbatim>\<open>/p\<close> that holds a directory \<^verbatim>\<open>d\<close> and a link \<^verbatim>\<open>l\<close> to it; and \<^verbatim>\<open>/b/p\<close> with a link to
  itself, also reachable through the link \<^verbatim>\<open>/a\<close>.\<close>

definition demo_fs :: filesystem where
  "demo_fs = table_fs [([], Plain, []), ([''p''], Plain, [''p'']), ([''p'', ''d''], Plain, [''p'', ''d'']),
     ([''p'', ''l''], Symlink, [''p'', ''d''])]"

definition linked_fs :: filesystem where
  "linked_fs = table_fs [([], Plain, []), ([''a''], Symlink, [''b'']), ([''b''], Plain, [''b'']),
     ([''a'', ''p''], Plain, [''b'', ''p'']), ([''b'', ''p''], Plain, [''b'', ''p'']),
     ([''a'', ''p'', ''l''], Symlink, [''b'', ''p'']), ([''b'', ''p'', ''l''], Symlink, [''b'', ''p''])]"

lemma table_fs_cwd: "fs_cwd (table_fs tbl) = Some wd \<Longrightarrow> is_abs wd"
  by (auto simp: table_fs_def is_abs_def has_prefix_def)

theorem normalized_path_is_confined_witness:
  "\<exists>ts. ''d/x'' = (if ts = [] then ''.'' else join_str [slash] ts) \<and>
    list_all (\<lambda>t. t \<noteq> [] \<and> t \<noteq> ''.'' \<and> t \<noteq> ''..'' \<and> slash \<notin> set t) ts \<and> \<not> is_abs ''d/x''"
proof (rule normalized_path_is_confined)
  show "normalize_project_path demo_fs ''/p'' ''./l/../d//x'' = Inr ''d/x''" by code_simp
  show "is_abs wd" if "fs_cwd demo_fs = Some wd" for wd
    using that unfolding demo_fs_def by (rule table_fs_cwd)
qed

theorem normalize_idempotent_witness: "normalize_project_path demo_fs ''/p'' ''d/x'' = Inr ''d/x''"
proof (rule normalize_idempotent)
  show "normalize_project_path demo_fs ''/p'' ''./l/../d//x'' = Inr ''d/x''" by code_simp
  show "is_abs wd" if "fs_cwd demo_fs = Some wd" for wd
    using that unfolding demo_fs_def by (rule table_fs_cwd)
qed

section \<open>Symbolic links\<close>

text \<open>What the code relies on of the file system: a plain entry resolves to the entry of the same
  name in its resolved directory; resolved paths are clean and free of links; a missing path does not
  resolve, nor does anything in an unresolvable directory.\<close>

definition fs_plain_law :: "filesystem \<Rightarrow> bool" where
  "fs_plain_law fs \<longleftrightarrow> (\<forall>ws c qs. clean_list True (ws @ [c]) \<longrightarrow> clean_list True qs \<longrightarrow>
     fs_lstat fs (abs_path (ws @ [c])) = Plain \<longrightarrow> fs_eval fs (abs_path ws) = Some (abs_path qs) \<longrightarrow>
     fs_eval fs (abs_path (ws @ [c])) = Some (abs_path (qs @ [c])))"

definition fs_canonical_law :: "filesystem \<Rightarrow> bool" where
  "fs_canonical_law fs \<longleftrightarrow> (\<forall>ws q. clean_list True ws \<longrightarrow> fs_eval fs (abs_path ws) = Some q \<longrightarrow>
     (\<exists>qs. clean_list True qs \<and> q = abs_path qs \<and>
       (\<forall>ps us. qs = ps @ us \<longrightarrow> fs_eval fs (abs_path ps) = Some (abs_path ps))))"

definition fs_missing_law :: "filesystem \<Rightarrow> bool" where
  "fs_missing_law fs \<longleftrightarrow> (\<forall>ws. clean_list True ws \<longrightarrow> fs_lstat fs (abs_path ws) = Missing \<longrightarrow> fs_eval fs (abs_path ws) = None) \<and>
     (\<forall>ws c. clean_list True (ws @ [c]) \<longrightarrow> fs_eval fs (abs_path ws) = None \<longrightarrow> fs_eval fs (abs_path (ws @ [c])) = None)"

definition fs_laws :: "filesystem \<Rightarrow> bool" where
  "fs_laws fs \<longleftrightarrow> fs_plain_law fs \<and> fs_canonical_law fs \<and> fs_missing_law fs \<and>
     (\<forall>wd. fs_cwd fs = Some wd \<longrightarrow> is_abs wd)"

lemma fs_plainD:
  "fs_laws fs \<Longrightarrow> clean_list True (ws @ [c]) \<Longrightarrow> clean_list True qs \<Longrightarrow>
   fs_lstat fs (abs_path (ws @ [c])) = Plain \<Longrightarrow> fs_eval fs (abs_path ws) = Some (abs_path qs) \<Longrightarrow>
   fs_eval fs (abs_path (ws @ [c])) = Some (abs_path (qs @ [c]))"
  unfolding fs_laws_def fs_plain_law_def by blast

lemma fs_canonicalE:
  assumes "fs_laws fs" and "clean_list True ws" and "fs_eval fs (abs_path ws) = Some q"
  obtains qs where "clean_list True qs" and "q = abs_path qs"
    and "\<And>ps us. qs = ps @ us \<Longrightarrow> fs_eval fs (abs_path ps) = Some (abs_path ps)"
  using assms unfolding fs_laws_def fs_canonical_law_def by blast

lemma fs_missingD:
  "fs_laws fs \<Longrightarrow> clean_list True ws \<Longrightarrow> fs_lstat fs (abs_path ws) = Missing \<Longrightarrow> fs_eval fs (abs_path ws) = None"
  unfolding fs_laws_def fs_missing_law_def by blast

lemma fs_parent:
  "fs_laws fs \<Longrightarrow> clean_list True (ws @ us) \<Longrightarrow> fs_eval fs (abs_path ws) = None \<Longrightarrow>
   fs_eval fs (abs_path (ws @ us)) = None"
proof (induction us rule: rev_induct)
  case (snoc u us)
  then have "fs_eval fs (abs_path (ws @ us)) = None" by (auto simp: clean_list_True)
  with snoc.prems show ?case unfolding fs_laws_def fs_missing_law_def append_assoc [symmetric] by blast
qed simp

lemma path_within_abs:
  "clean_list True rs \<Longrightarrow> clean_list True ws \<Longrightarrow> path_within (abs_path rs) (abs_path ws) \<longleftrightarrow> (\<exists>ts. ws = rs @ ts)"
  using path_rel_below [of rs ws] by (auto simp: path_within_def split: option.splits)

lemma path_join_plain:
  assumes "clean_list True (ws @ [c])"
  shows "path_join [abs_path ws, c] = abs_path (ws @ [c])"
proof -
  have ws: "clean_list True ws" and c: "plain_elem c" "c \<noteq> ''..''" using assms by (auto simp: clean_list_True)
  then have "split_char slash c = [c]" by (simp add: plain_elem_def split_char_word)
  with c show ?thesis by (simp add: path_join_abs [OF ws] plain_elem_def)
qed

text \<open>The walk: while the path so far resolves below the resolved root, so does the next.  \<open>S\<close> is the
  root the code checks links against, \<open>Rs\<close> the resolved one; links that lie below \<open>S\<close> must lie below \<open>Rs\<close>.\<close>

lemma check_components_confined:
  assumes laws: "fs_laws fs" and root: "clean_list True Rs"
    and S: "\<And>vs r. clean_list True vs \<Longrightarrow> fs_eval fs (abs_path vs) = Some r \<Longrightarrow> path_within S r \<Longrightarrow>
              path_within (abs_path Rs) r"
  shows "check_components fs S (abs_path ws) ts = None \<Longrightarrow> clean_list True (ws @ ts) \<Longrightarrow>
    fs_eval fs (abs_path ws) = Some (abs_path (Rs @ us)) \<Longrightarrow> clean_list True (Rs @ us) \<Longrightarrow>
    fs_eval fs (abs_path (ws @ ts)) = Some q \<Longrightarrow> path_within (abs_path Rs) q"
proof (induction ts arbitrary: ws us)
  case Nil
  with root show ?case by (auto simp: path_within_abs)
next
  case (Cons c ts)
  have cl: "clean_list True (ws @ [c])" and c: "c \<noteq> []" "c \<noteq> ''.''"
    using Cons.prems(2) by (auto simp: clean_list_True plain_elem_def)
  have ex: "fs_eval fs (abs_path (ws @ [c])) \<noteq> None"
    using fs_parent [OF laws, of "ws @ [c]" ts] Cons.prems(2,5) by auto
  with fs_missingD [OF laws cl] have nm: "fs_lstat fs (abs_path (ws @ [c])) \<noteq> Missing" by blast
  obtain vs where vs: "fs_eval fs (abs_path (ws @ [c])) = Some (abs_path (Rs @ vs))" "clean_list True (Rs @ vs)"
  proof (cases "fs_lstat fs (abs_path (ws @ [c]))")
    case Plain
    from fs_plainD [OF laws cl Cons.prems(4) this Cons.prems(3)] that [of "us @ [c]"] Cons.prems(4) cl show thesis
      by (simp add: clean_list_True)
  next
    case Symlink
    from ex obtain r where r: "fs_eval fs (abs_path (ws @ [c])) = Some r" by blast
    with Cons.prems(1) Symlink c have "path_within S r"
      by (simp add: path_join_plain [OF cl] Let_def split: if_splits)
    from S [OF cl r this] have "path_within (abs_path Rs) r" .
    moreover from fs_canonicalE [OF laws cl r] obtain qs where "clean_list True qs" "r = abs_path qs" by metis
    ultimately show thesis using that r root by (auto simp: path_within_abs)
  qed (use Cons.prems(1) c nm in \<open>simp_all add: path_join_plain [OF cl] Let_def\<close>)
  have "check_components fs S (abs_path (ws @ [c])) ts = None"
    using Cons.prems(1) c nm by (simp add: path_join_plain [OF cl] Let_def split: lstat.splits option.splits if_splits)
  from Cons.IH [OF this _ vs] Cons.prems(2,5) show ?case by simp
qed

lemma walk_relative:
  assumes "clean_list True (rs @ ts)"
  shows "check_components fs R (abs_path rs) (split_char slash (unsplit False ts)) =
    check_components fs R (abs_path rs) ts"
proof -
  have "clean_list False ts" using assms clean_list_up [of ts 0] by (simp add: clean_list_True)
  from unsplit_relative(2) [OF this] show ?thesis by simp
qed

text \<open>C13: no accepted path leads out of the project.  When the candidate resolves at all, it resolves
  to a path below the resolved project root, whatever symbolic links lie on the way.\<close>

theorem accepted_path_resolves_inside:
  assumes "normalize_project_path fs root value = Inr r" and "fs_laws fs"
    and "path_abs fs root = Some a" and "fs_eval fs a = Some R" and "fs_eval fs (path_join [a, r]) = Some q"
  shows "path_within R q"
proof -
  from assms(2) have "\<And>wd. fs_cwd fs = Some wd \<Longrightarrow> is_abs wd" by (simp add: fs_laws_def)
  from normalize_Inr [OF assms(1) this] obtain rs ts where c: "clean_list True (rs @ ts)"
    "path_abs fs root = Some (abs_path rs)" "r = unsplit False ts"
    "reject_symlink_escape fs (abs_path rs) (abs_path (rs @ ts)) = None" by metis
  then have a: "a = abs_path rs" and rs: "clean_list True rs" using assms(3) by (simp_all add: clean_list_True)
  have j: "path_join [a, r] = abs_path (rs @ ts)" unfolding a c(3) by (rule path_join_relative [OF c(1)])
  from fs_canonicalE [OF assms(2) rs assms(4) [unfolded a]] obtain Rs where
    R: "clean_list True Rs" "R = abs_path Rs" by metis
  note walk = check_components_confined [OF assms(2) R(1), of _ rs ts "[]" q, OF _ _ c(1) _ _ assms(5) [unfolded j]]
  show ?thesis
  proof (cases "fs_lstat fs (abs_path rs)")
    case Symlink
    with c assms(4) a R walk [of R] show ?thesis
      by (simp add: reject_symlink_escape_def path_rel_extension walk_relative)
  next
    case Plain
    with c have chk: "check_components fs (abs_path rs) (abs_path rs) ts = None"
      by (simp add: reject_symlink_escape_def path_rel_extension walk_relative)
    have "path_within (abs_path Rs) r'" if "clean_list True vs" "fs_eval fs (abs_path vs) = Some r'"
      "path_within (abs_path rs) r'" for vs r'
      using fs_canonicalE [OF assms(2) that(1,2)] that(3) rs a R assms(4)
      by (metis option.inject path_within_abs)
    with chk walk [of "abs_path rs"] a R assms(4) show ?thesis by simp
  qed (use c in \<open>simp_all add: reject_symlink_escape_def path_rel_extension walk_relative\<close>)
qed

text \<open>The laws of a table, checked entry by entry.\<close>

definition name_elem :: "string \<Rightarrow> bool" where
  "name_elem w \<longleftrightarrow> plain_elem w \<and> w \<noteq> ''..''"

lemma clean_list_names: "clean_list True ws \<longleftrightarrow> list_all name_elem ws"
  by (auto simp: clean_list_True name_elem_def list_all_iff)

definition table_ok :: "fs_table \<Rightarrow> bool" where
  "table_ok tbl \<longleftrightarrow> list_all (\<lambda>(ws, s, qs). map_of tbl ws = Some (s, qs) \<and> list_all name_elem qs \<and> s \<noteq> Missing \<and>
     (ws \<noteq> [] \<longrightarrow> (case map_of tbl (butlast ws) of None \<Rightarrow> False
        | Some (_, ps) \<Rightarrow> s = Plain \<longrightarrow> qs = ps @ [last ws])) \<and>
     list_all (\<lambda>n. map_option snd (map_of tbl (take n qs)) = Some (take n qs)) [0..<Suc (length qs)]) tbl"

lemma table_okD:
  assumes "table_ok tbl" and "map_of tbl ws = Some (s, qs)"
  shows "clean_list True qs" and "s \<noteq> Missing"
    and "ws \<noteq> [] \<Longrightarrow> \<exists>s' ps. map_of tbl (butlast ws) = Some (s', ps) \<and> (s = Plain \<longrightarrow> qs = ps @ [last ws])"
    and "qs = ps @ us \<Longrightarrow> \<exists>s'. map_of tbl ps = Some (s', ps)"
proof -
  have e: "(ws, s, qs) \<in> set tbl" using assms(2) by (rule map_of_SomeD)
  then show "clean_list True qs" "s \<noteq> Missing"
    "ws \<noteq> [] \<Longrightarrow> \<exists>s' ps. map_of tbl (butlast ws) = Some (s', ps) \<and> (s = Plain \<longrightarrow> qs = ps @ [last ws])"
    using assms(1) unfolding table_ok_def clean_list_names list_all_iff by (fastforce split: option.splits)+
  assume p: "qs = ps @ us"
  then have "length ps \<in> set [0..<Suc (length qs)]" by simp
  with assms(1) e have "map_option snd (map_of tbl (take (length ps) qs)) = Some (take (length ps) qs)"
    unfolding table_ok_def list_all_iff by blast
  with p show "\<exists>s'. map_of tbl ps = Some (s', ps)" by auto
qed

lemma table_fs_laws:
  assumes "table_ok tbl"
  shows "fs_laws (table_fs tbl)"
proof -
  note simps = table_fs_def clean_list_True
  have "fs_plain_law (table_fs tbl)"
    unfolding fs_plain_law_def
  proof (intro allI impI)
    fix ws c qs
    assume a: "clean_list True (ws @ [c])" "clean_list True qs"
      "fs_lstat (table_fs tbl) (abs_path (ws @ [c])) = Plain" "fs_eval (table_fs tbl) (abs_path ws) = Some (abs_path qs)"
    then have "clean_list True ws" by (simp add: clean_list_True)
    with a obtain s ps where w: "map_of tbl ws = Some (s, ps)" "abs_path ps = abs_path qs" by (auto simp: table_fs_def)
    with table_okD(1) [OF assms w(1)] a(2) abs_path_inj have "ps = qs" by blast
    moreover from a obtain rs where r: "map_of tbl (ws @ [c]) = Some (Plain, rs)"
      by (auto simp: table_fs_def split: option.splits)
    ultimately have "rs = qs @ [c]" using table_okD(3) [OF assms r] w by simp
    with r a(1) show "fs_eval (table_fs tbl) (abs_path (ws @ [c])) = Some (abs_path (qs @ [c]))"
      by (simp add: table_fs_def)
  qed
  moreover have "fs_canonical_law (table_fs tbl)"
    unfolding fs_canonical_law_def
  proof (intro allI impI)
    fix ws q
    assume "clean_list True ws" "fs_eval (table_fs tbl) (abs_path ws) = Some q"
    then obtain s qs where w: "map_of tbl ws = Some (s, qs)" "q = abs_path qs" by (auto simp: table_fs_def)
    note ok = table_okD [OF assms w(1)]
    have "fs_eval (table_fs tbl) (abs_path ps) = Some (abs_path ps)" if "qs = ps @ us" for ps us
      using ok(4) [OF that] ok(1) that by (auto simp: table_fs_def clean_list_True)
    with ok(1) w(2) show "\<exists>qs. clean_list True qs \<and> q = abs_path qs \<and>
      (\<forall>ps us. qs = ps @ us \<longrightarrow> fs_eval (table_fs tbl) (abs_path ps) = Some (abs_path ps))" by blast
  qed
  moreover have "fs_missing_law (table_fs tbl)"
    unfolding fs_missing_law_def using table_okD(2,3) [OF assms]
    by (fastforce simp: table_fs_def clean_list_True split: option.splits)
  ultimately show ?thesis unfolding fs_laws_def using table_fs_cwd by blast
qed

lemma demo_fs_laws: "fs_laws demo_fs"
  unfolding demo_fs_def by (rule table_fs_laws) code_simp

lemma linked_fs_laws: "fs_laws linked_fs"
  unfolding linked_fs_def by (rule table_fs_laws) code_simp

theorem accepted_path_resolves_inside_witness: "path_within ''/p'' ''/p/d''"
proof (rule accepted_path_resolves_inside [OF _ demo_fs_laws])
  show "normalize_project_path demo_fs ''/p'' ''l'' = Inr ''l''" by code_simp
  show "path_abs demo_fs ''/p'' = Some ''/p''" by code_simp
  show "fs_eval demo_fs ''/p'' = Some ''/p''" by code_simp
  show "fs_eval demo_fs (path_join [''/p'', ''l'']) = Some ''/p/d''" by code_simp
qed

text \<open>A link inside the project that points inside the project is refused when a directory above
  the selected root is itself a link: the code compares the link's resolved target with the root as it
  was typed, unless the root's last element is a link.\<close>

theorem inner_link_refused_below_linked_parent:
  assumes "fs_laws fs" and "clean_list True (rs @ [c])"
    and "fs_lstat fs (abs_path rs) = Plain" and "fs_eval fs (abs_path rs) = Some R" and "R \<noteq> abs_path rs"
    and "fs_lstat fs (abs_path (rs @ [c])) = Symlink" and "fs_eval fs (abs_path (rs @ [c])) = Some q"
    and "path_within R q"
  shows "normalize_project_path fs (abs_path rs) c = Inl Escapes_through_link"
proof -
  have rs: "clean_list True rs" and c: "clean_list False [c]" "c \<noteq> []" "c \<noteq> ''.''"
    using assms(2) clean_list_up [of "[c]" 0] by (auto simp: clean_list_True plain_elem_def)
  have u: "unsplit False [c] = c" by (simp add: unsplit_def)
  have "\<not> path_within (abs_path rs) q"
    using fs_canonicalE [OF assms(1,2,7)] rs assms(4,5) by (metis option.inject path_within_abs)
  then have "reject_symlink_escape fs (abs_path rs) (abs_path (rs @ [c])) = Some Escapes_through_link"
    using assms(3,6,7) c walk_relative [OF assms(2)]
    by (simp add: reject_symlink_escape_def path_rel_extension [OF assms(2)] path_join_plain [OF assms(2)] Let_def)
  moreover have "\<not> is_abs c" using unsplit_relative(1) [OF c(1)] u by simp
  moreover have "\<not> climbs c" using climbs_unsplit [of 0 "[c]"] c(1) assms(2) u by (simp add: clean_list_True)
  moreover have "abs_path rs \<noteq> []" by (simp add: abs_path_def unsplit_def)
  ultimately show ?thesis
    using path_rel_extension [OF assms(2)] path_clean_abs_path [OF rs] path_clean_abs_path [OF assms(2)] u
    by (simp add: normalize_project_path_def Let_def path_abs_def path_join_plain [OF assms(2)])
qed

theorem inner_link_refused_below_linked_parent_witness:
  "normalize_project_path linked_fs (abs_path [''a'', ''p'']) ''l'' = Inl Escapes_through_link"
proof (rule inner_link_refused_below_linked_parent [OF linked_fs_laws])
  show "clean_list True ([''a'', ''p''] @ [''l''])" unfolding clean_list_names by code_simp
  show "fs_lstat linked_fs (abs_path [''a'', ''p'']) = Plain" by code_simp
  show "fs_eval linked_fs (abs_path [''a'', ''p'']) = Some ''/b/p''" by code_simp
  show "''/b/p'' \<noteq> abs_path [''a'', ''p'']" by code_simp
  show "fs_lstat linked_fs (abs_path ([''a'', ''p''] @ [''l''])) = Symlink" by code_simp
  show "fs_eval linked_fs (abs_path ([''a'', ''p''] @ [''l''])) = Some ''/b/p''" by code_simp
  show "path_within ''/b/p'' ''/b/p''" by code_simp
qed

end
