(* ===== verification/Ingest_Normalize.thy ===== *)
theory Ingest_Normalize
  imports Security Path_Normalize
begin

text \<open>
  \<^verbatim>\<open>internal/ingest/normalize.go\<close>: what an event goes through before it is queued.  It is
  validated, sanitized, and every path in it is made relative to the selected project.
\<close>

datatype normalize_error =
    Invalid_event verror
  | Project_root_required
  | Bad_path path_error
  | Bad_previous_path path_error
  | Bad_secondary_path path_error

definition secondary_strings :: "metadata \<Rightarrow> string list" where
  "secondary_strings md = (case map_of md ''secondary_paths'' of Some (MStrings ss) \<Rightarrow> ss | _ \<Rightarrow> [])"

definition normalize_optional :: "filesystem \<Rightarrow> string \<Rightarrow> string \<Rightarrow> path_error + string" where
  "normalize_optional fs root p = (if p = [] then Inr [] else normalize_project_path fs root p)"

fun normalize_paths :: "filesystem \<Rightarrow> string \<Rightarrow> string list \<Rightarrow> path_error + string list" where
  "normalize_paths fs root [] = Inr []"
| "normalize_paths fs root (p # ps) =
     (case normalize_project_path fs root p of
        Inl err \<Rightarrow> Inl err
      | Inr q \<Rightarrow> (case normalize_paths fs root ps of Inl err \<Rightarrow> Inl err | Inr qs \<Rightarrow> Inr (q # qs)))"

definition normalize_event :: "filesystem \<Rightarrow> event \<Rightarrow> string \<Rightarrow> normalize_error + event" where
  "normalize_event fs e0 selected =
     (case validate e0 of
        Some err \<Rightarrow> Inl (Invalid_event err)
      | None \<Rightarrow>
          let e = sanitize_event e0; secondary = secondary_strings (ev_metadata e) in
          if ev_path e = [] \<and> previous_path e = [] \<and> secondary = [] then Inr e
          else if selected = [] then Inl Project_root_required
          else (case path_abs fs selected of
            None \<Rightarrow> Inl Project_root_required
          | Some root \<Rightarrow>
              (case normalize_optional fs root (ev_path e) of
                 Inl err \<Rightarrow> Inl (Bad_path err)
               | Inr path \<Rightarrow>
                   (case normalize_optional fs root (previous_path e) of
                      Inl err \<Rightarrow> Inl (Bad_previous_path err)
                    | Inr previous \<Rightarrow>
                        let e1 = e\<lparr>project_root := root, ev_path := path, previous_path := previous\<rparr> in
                        if secondary = [] then Inr e1
                        else (case normalize_paths fs root secondary of
                          Inl err \<Rightarrow> Inl (Bad_secondary_path err)
                        | Inr paths \<Rightarrow> Inr (e1\<lparr>ev_metadata :=
                            AList.update ''secondary_paths'' (MStrings paths) (ev_metadata e1)\<rparr>))))))"

section \<open>Every path of a normalized event is confined\<close>

text \<open>A clean relative path that does not climb.\<close>

definition confined :: "string \<Rightarrow> bool" where
  "confined p \<longleftrightarrow> path_clean p = p \<and> \<not> climbs p"

lemma normalize_confined:
  assumes "normalize_project_path fs root value = Inr r" and "\<And>wd. fs_cwd fs = Some wd \<Longrightarrow> is_abs wd"
  shows "confined r"
proof -
  from normalize_Inr [OF assms] obtain rs ts where c: "clean_list True (rs @ ts)" "r = unsplit False ts" by metis
  then have "clean_list False (replicate 0 ''..'' @ ts)" "''..'' \<notin> set ts"
    using clean_list_up [of ts 0] by (simp_all add: clean_list_True)
  with c(2) path_clean_relative [of ts] climbs_unsplit [of 0 ts] show ?thesis by (simp add: confined_def)
qed

lemma normalize_optional_confined:
  "normalize_optional fs root p = Inr q \<Longrightarrow> (\<And>wd. fs_cwd fs = Some wd \<Longrightarrow> is_abs wd) \<Longrightarrow> q = [] \<or> confined q"
  using normalize_confined by (auto simp: normalize_optional_def split: if_splits)

lemma normalize_paths_confined:
  "normalize_paths fs root ps = Inr qs \<Longrightarrow> (\<And>wd. fs_cwd fs = Some wd \<Longrightarrow> is_abs wd) \<Longrightarrow>
   list_all confined qs \<and> length qs = length ps"
proof (induction ps arbitrary: qs)
  case (Cons p ps)
  then show ?case using normalize_confined [of fs root p] by (auto split: sum.splits)
qed simp

lemma secondary_strings_update [simp]:
  "secondary_strings (AList.update ''secondary_paths'' (MStrings ss) md) = ss"
  by (simp add: secondary_strings_def update_conv)

text \<open>C14: no event enters the pipeline with a path outside the project.  Whatever a normalized event
  reports as path, previous path or secondary paths is absent or a clean relative path that does
  not climb, and its command line is gone.\<close>

theorem normalize_event_confines:
  assumes "normalize_event fs e selected = Inr e'" and "\<And>wd. fs_cwd fs = Some wd \<Longrightarrow> is_abs wd"
  shows "list_all confined (filter (\<lambda>p. p \<noteq> []) [ev_path e', previous_path e'] @
      secondary_strings (ev_metadata e')) \<and> ev_command e' = []"
proof -
  note conf = normalize_optional_confined [where fs = fs, OF _ assms(2)] normalize_paths_confined [where fs = fs, OF _ assms(2)]
  from assms(1) show ?thesis
    by (auto simp: normalize_event_def Let_def sanitize_event_def dest: conf split: option.splits sum.splits if_splits)
qed

text \<open>An event without paths needs no project; it passes exactly when it is valid.\<close>

theorem normalize_pathless_event:
  assumes "ev_path e = []" and "previous_path e = []" and "map_of (ev_metadata e) ''secondary_paths'' = None"
  shows "normalize_event fs e root = (case validate e of Some err \<Rightarrow> Inl (Invalid_event err) | None \<Rightarrow> Inr (sanitize_event e))"
proof -
  have "map_of (sanitize_metadata md) ''secondary_paths'' = None" if "map_of md ''secondary_paths'' = None" for md
    using that by (induction md)
      (auto simp: sanitize_metadata_def List.map_filter_simps sanitize_entry_def integer_keys_def text_keys_def
        Let_def split: option.splits if_splits mvalue.splits)
  then have "secondary_strings (ev_metadata (sanitize_event e)) = []"
    using assms(3) by (simp add: secondary_strings_def sanitize_event_def)
  with assms show ?thesis by (simp add: normalize_event_def Let_def sanitize_event_def split: option.splits)
qed

definition sample_read :: event where
  "sample_read = zero_event\<lparr>schema_version := ''1.0'', event_id := ''e1'', source_type := Source_wrapper,
     source_confidence := Conf_exact, event_type := File_read, timestamp := 5, ev_path := ''./d/../l''\<rparr>"

theorem normalize_event_confines_witness:
  "list_all confined (filter (\<lambda>p. p \<noteq> []) [ev_path (sample_read\<lparr>project_root := ''/p'', ev_path := ''l''\<rparr>),
     previous_path sample_read] @ secondary_strings (ev_metadata sample_read)) \<and> ev_command sample_read = []"
proof -
  have l: "label [] n = []" for n by (simp add: label_Nil)
  have "validate sample_read = None" by code_simp
  moreover have "normalize_project_path demo_fs ''/p'' ''./d/../l'' = Inr ''l''" by code_simp
  moreover have "path_abs demo_fs ''/p'' = Some ''/p''" by code_simp
  ultimately have "normalize_event demo_fs sample_read ''/p'' = Inr (sample_read\<lparr>project_root := ''/p'', ev_path := ''l''\<rparr>)"
    by (simp add: normalize_event_def sanitize_event_def l Let_def secondary_strings_def sanitize_metadata_def
        List.map_filter_simps normalize_optional_def sample_read_def zero_event_def)
  from normalize_event_confines [OF this] show ?thesis
    using table_fs_cwd unfolding demo_fs_def by (simp add: sample_read_def)
qed

theorem normalize_pathless_event_witness:
  "normalize_event demo_fs (sample_read\<lparr>ev_path := []\<rparr>) [] =
     (case validate (sample_read\<lparr>ev_path := []\<rparr>) of Some err \<Rightarrow> Inl (Invalid_event err)
      | None \<Rightarrow> Inr (sanitize_event (sample_read\<lparr>ev_path := []\<rparr>)))"
  by (rule normalize_pathless_event) (simp_all add: sample_read_def zero_event_def)

end
