(* ===== verification/Glob.thy ===== *)
theory Glob
  imports Utf8
begin

text \<open>
  Go's \<^verbatim>\<open>filepath.Match\<close> on a system whose separator is the slash.  A rune is the byte string that
  encodes it; a byte that starts no character stands for U+FFFD.  The bytewise order of the
  encodings is the order of the code points.
\<close>

abbreviation backslash :: char where "backslash \<equiv> CHR 0x5C"

definition rune_error :: string where
  "rune_error = bytes [0xEF, 0xBF, 0xBD]"

text \<open>\<^verbatim>\<open>utf8.DecodeRuneInString\<close> on a non-empty string: the rune and the rest.\<close>

definition decode_rune :: "string \<Rightarrow> string \<times> string" where
  "decode_rune s = (if rune_len s = 0 then (rune_error, tl s) else (take (rune_len s) s, drop (rune_len s) s))"

text \<open>\<^verbatim>\<open>getEsc\<close>: one possibly escaped character of a class; \<^const>\<open>None\<close> is a bad pattern.\<close>

definition get_esc :: "string \<Rightarrow> (string \<times> string) option" where
  "get_esc chunk0 =
     (if chunk0 = [] \<or> hd chunk0 = CHR ''-'' \<or> hd chunk0 = CHR '']'' then None
      else
        let chunk = (if hd chunk0 = backslash then tl chunk0 else chunk0) in
        if chunk = [] then None
        else if rune_len chunk = 0 then None
        else (case decode_rune chunk of (r, rest) \<Rightarrow> if rest = [] then None else Some (r, rest)))"

lemma decode_rune_length: "s \<noteq> [] \<Longrightarrow> length (snd (decode_rune s)) < length s"
  by (auto simp: decode_rune_def)

lemma get_esc_length: "get_esc s = Some (r, rest) \<Longrightarrow> rest \<noteq> [] \<and> length rest < length s"
  using decode_rune_length [of s] decode_rune_length [of "tl s"]
  by (cases s) (auto simp: get_esc_def Let_def split: if_splits prod.splits)

text \<open>The ranges of a class against the rune \<open>r\<close>: whether one matched, and the rest of the chunk.\<close>

function class_ranges :: "string \<Rightarrow> bool \<Rightarrow> bool \<Rightarrow> string \<Rightarrow> (bool \<times> string) option" where
  "class_ranges r matched some chunk =
     (if chunk \<noteq> [] \<and> hd chunk = CHR '']'' \<and> some then Some (matched, tl chunk)
      else case get_esc chunk of
        None \<Rightarrow> None
      | Some (lo, c1) \<Rightarrow>
          (if hd c1 = CHR ''-''
           then (case get_esc (tl c1) of
               None \<Rightarrow> None
             | Some (hi, c2) \<Rightarrow> class_ranges r (matched \<or> lo \<le> r \<and> r \<le> hi) True c2)
           else class_ranges r (matched \<or> lo \<le> r \<and> r \<le> lo) True c1))"
  by pat_completeness auto
termination
  by (relation "measure (\<lambda>(r, m, n, chunk). length chunk)") (auto dest!: get_esc_length)

declare class_ranges.simps [simp del]

lemma class_ranges_length:
  "class_ranges r m n chunk = Some (k, rest) \<Longrightarrow> length rest < length chunk"
proof (induction r m n chunk rule: class_ranges.induct)
  case (1 r m n chunk)
  show ?case
  proof (cases "chunk \<noteq> [] \<and> hd chunk = CHR '']'' \<and> n")
    case True
    with 1(3) show ?thesis by (cases chunk) (auto simp: class_ranges.simps [of r m])
  next
    case False
    with 1(3) obtain lo c1 where e: "get_esc chunk = Some (lo, c1)"
      by (auto simp: class_ranges.simps [of r m] split: option.splits)
    note l1 = get_esc_length [OF e]
    show ?thesis
    proof (cases "hd c1 = CHR ''-''")
      case True
      with 1(3) False e obtain hi c2 where e2: "get_esc (tl c1) = Some (hi, c2)"
        by (auto simp: class_ranges.simps [of r m] split: option.splits)
      have "class_ranges r (m \<or> lo \<le> r \<and> r \<le> hi) True c2 = Some (k, rest)"
        using 1(3) False e True e2 by (simp add: class_ranges.simps [of r m])
      from 1(1) [OF False e refl True e2 refl this] get_esc_length [OF e2] l1 show ?thesis by (cases c1) auto
    next
      case nd: False
      with 1(2) [OF False e _ nd] 1(3) False e l1 show ?thesis
        by (simp add: class_ranges.simps [of r m])
    qed
  qed
qed

text \<open>\<^verbatim>\<open>matchChunk\<close>.  The subject is \<^const>\<open>None\<close> once the match has failed; the outer \<^const>\<open>None\<close> is a bad
  pattern.\<close>

function match_chunk :: "string \<Rightarrow> string option \<Rightarrow> string option option" where
  "match_chunk chunk s0 =
     (if chunk = [] then Some s0
      else
        let s = (if s0 = Some [] then None else s0) in
        if hd chunk = CHR ''['' then
          (let rs = (case s of None \<Rightarrow> None | Some t \<Rightarrow> Some (decode_rune t));
               negated = (tl chunk \<noteq> [] \<and> hd (tl chunk) = CHR ''^'');
               body = (if negated then tl (tl chunk) else tl chunk);
               r = (case rs of None \<Rightarrow> bytes [0] | Some (q, _) \<Rightarrow> q)
           in case class_ranges r False False body of
                None \<Rightarrow> None
              | Some (m, rest) \<Rightarrow>
                  match_chunk rest (case rs of None \<Rightarrow> None | Some (_, t) \<Rightarrow> if m = negated then None else Some t))
        else if hd chunk = CHR ''?'' then
          match_chunk (tl chunk) (case s of None \<Rightarrow> None
            | Some t \<Rightarrow> if hd t = CHR ''/'' then None else Some (snd (decode_rune t)))
        else
          let c = (if hd chunk = backslash then tl chunk else chunk) in
          if c = [] then None
          else match_chunk (tl c) (case s of None \<Rightarrow> None | Some t \<Rightarrow> if hd c \<noteq> hd t then None else Some (tl t)))"
  by pat_completeness auto
termination
  by (relation "measure (\<lambda>(chunk, s). length chunk)")
    (auto dest!: class_ranges_length simp: length_greater_0_conv [symmetric] simp del: length_greater_0_conv split: if_splits)

declare match_chunk.simps [simp del]

text \<open>\<^verbatim>\<open>scanChunk\<close>: leading stars, then up to the next star outside a class.\<close>

fun scan_plain :: "bool \<Rightarrow> string \<Rightarrow> string \<times> string" where
  "scan_plain inrange [] = ([], [])"
| "scan_plain inrange (c # p) =
     (if c = CHR ''*'' \<and> \<not> inrange then ([], c # p)
      else if c = backslash \<and> p \<noteq> [] then
        (case scan_plain inrange (tl p) of (chunk, rest) \<Rightarrow> (c # hd p # chunk, rest))
      else
        (case scan_plain (if c = CHR ''['' then True else if c = CHR '']'' then False else inrange) p of
           (chunk, rest) \<Rightarrow> (c # chunk, rest)))"

definition scan_chunk :: "string \<Rightarrow> bool \<times> string \<times> string" where
  "scan_chunk p =
     (p \<noteq> [] \<and> hd p = CHR ''*'', scan_plain False (dropWhile (\<lambda>c. c = CHR ''*'') p))"

lemma scan_plain_append: "scan_plain b p = (chunk, rest) \<Longrightarrow> p = chunk @ rest"
  by (induction b p arbitrary: chunk rest rule: scan_plain.induct) (auto simp: neq_Nil_conv split: if_splits prod.splits)

lemma scan_plain_progress: "p \<noteq> [] \<Longrightarrow> hd p \<noteq> CHR ''*'' \<Longrightarrow> fst (scan_plain False p) \<noteq> []"
  by (cases p) (auto split: prod.splits)

lemma scan_chunk_length:
  assumes "scan_chunk p = (star, chunk, rest)" and "p \<noteq> []"
  shows "length rest < length p"
proof -
  let ?q = "dropWhile (\<lambda>c. c = CHR ''*'') p"
  from assms(1) have s: "scan_plain False ?q = (chunk, rest)" "star \<longleftrightarrow> hd p = CHR ''*''"
    using assms(2) by (auto simp: scan_chunk_def)
  from scan_plain_append [OF s(1)] have q: "?q = chunk @ rest" .
  have le: "length ?q \<le> length p" by (rule length_dropWhile_le)
  show ?thesis
  proof (cases "hd p = CHR ''*''")
    case True
    then have "length ?q < length p" using assms(2) by (cases p) (auto simp: le_imp_less_Suc length_dropWhile_le)
    with q show ?thesis by simp
  next
    case False
    then have "?q = p" using assms(2) by (cases p) auto
    with scan_plain_progress [OF assms(2) False] s(1) q show ?thesis by (cases chunk) auto
  qed
qed

text \<open>Skipping one more byte of the name after a star, never a slash; \<open>final\<close> tells the last chunk.\<close>

fun star_match :: "string \<Rightarrow> bool \<Rightarrow> string \<Rightarrow> string option" where
  "star_match chunk final [] = None"
| "star_match chunk final (c # name) =
     (if c = CHR ''/'' then None
      else case match_chunk chunk (Some name) of
        Some (Some t) \<Rightarrow> if final \<and> t \<noteq> [] then star_match chunk final name else Some t
      | Some None \<Rightarrow> star_match chunk final name
      | None \<Rightarrow> None)"

text \<open>\<^verbatim>\<open>filepath.Match\<close>, with false also for a bad pattern, as the callers ignore the error.\<close>

function glob_match :: "string \<Rightarrow> string \<Rightarrow> bool" where
  "glob_match pattern name =
     (if pattern = [] then name = []
      else case scan_chunk pattern of (star, chunk, rest) \<Rightarrow>
        if star \<and> chunk = [] then CHR ''/'' \<notin> set name
        else (case match_chunk chunk (Some name) of
            None \<Rightarrow> False
          | Some m \<Rightarrow>
              (case m of
                 Some t \<Rightarrow> if t = [] \<or> rest \<noteq> [] then glob_match rest t
                   else if star then (case star_match chunk (rest = []) name of None \<Rightarrow> False | Some u \<Rightarrow> glob_match rest u)
                   else False
               | None \<Rightarrow> if star then (case star_match chunk (rest = []) name of None \<Rightarrow> False | Some u \<Rightarrow> glob_match rest u)
                   else False)))"
  by pat_completeness auto
termination
  by (relation "measure (\<lambda>(pattern, name). length pattern)") (auto dest!: scan_chunk_length [OF sym])

declare glob_match.simps [simp del]

lemma glob_examples:
  "glob_match ''*.go'' ''main.go'' \<and> \<not> glob_match ''*.go'' ''a/main.go'' \<and> glob_match ''b[a-c]?'' ''bbx'' \<and>
   \<not> glob_match ''b[^a-c]'' ''bb'' \<and> glob_match ''a*b*c'' ''axxbbyc'' \<and> \<not> glob_match ''['' ''['' \<and>
   \<not> glob_match ''build'' ''builds''"
  by code_simp

text \<open>A pattern without special characters matches itself only.\<close>

definition literal_char :: "char \<Rightarrow> bool" where
  "literal_char c \<longleftrightarrow> c \<noteq> CHR ''*'' \<and> c \<noteq> CHR ''?'' \<and> c \<noteq> CHR ''['' \<and> c \<noteq> backslash"

lemma match_chunk_failed: "list_all literal_char p \<Longrightarrow> match_chunk p None = Some None"
proof (induction p)
  case (Cons c p)
  then show ?case by (simp add: match_chunk.simps [of "c # p"] literal_char_def)
qed (simp add: match_chunk.simps)

lemma match_chunk_literal:
  "list_all literal_char p \<Longrightarrow> match_chunk p (Some s) = Some (if has_prefix s p then Some (drop (length p) s) else None)"
proof (induction p arbitrary: s)
  case (Cons c p)
  then have "literal_char c" "match_chunk p None = Some None" "list_all literal_char p"
    by (simp_all add: match_chunk_failed)
  with Cons.IH [OF this(3)] show ?case
    by (cases s) (auto simp: match_chunk.simps [of "c # p"] literal_char_def has_prefix_def)
qed (simp add: match_chunk.simps has_prefix_def)

lemma scan_plain_literal: "list_all literal_char p \<Longrightarrow> scan_plain b p = (p, [])"
proof (induction p arbitrary: b)
  case (Cons c p)
  then show ?case by (auto simp: literal_char_def)
qed simp

lemma glob_literal: "list_all literal_char p \<Longrightarrow> glob_match p s \<longleftrightarrow> s = p"
proof -
  assume l: "list_all literal_char p"
  show ?thesis
  proof (cases p)
    case (Cons c cs)
    then have "c \<noteq> CHR ''*''" using l by (simp add: literal_char_def)
    then have "scan_chunk p = (False, p, [])"
      using Cons scan_plain_literal [OF l] by (simp add: scan_chunk_def del: scan_plain.simps)
    with Cons match_chunk_literal [OF l, of s] show ?thesis
      by (auto simp: glob_match.simps [of "c # cs"] glob_match.simps [of "[]"] has_prefix_def prefix_def)
  qed (simp add: glob_match.simps)
qed

end
