(* ===== verification/Project_Scan.thy ===== *)
theory Project_Scan
  imports Glob Path_Normalize
begin

text \<open>
  \<^verbatim>\<open>internal/project\<close>: the nodes of the graph, the ignore rules shared by the scanner and the
  file-system observer (\<^verbatim>\<open>ignore.go\<close>), and the scan of a project tree (\<^verbatim>\<open>scanner.go\<close>).  The tree
  and the contents of the ignore files are parameters; a cancelled context is not modelled.
\<close>

section \<open>Nodes\<close>

type_synonym node_kind = string

abbreviation kind_root :: node_kind where "kind_root \<equiv> ''root''"
abbreviation kind_directory :: node_kind where "kind_directory \<equiv> ''directory''"
abbreviation kind_source :: node_kind where "kind_source \<equiv> ''source''"
abbreviation kind_test :: node_kind where "kind_test \<equiv> ''test''"
abbreviation kind_config :: node_kind where "kind_config \<equiv> ''config''"
abbreviation kind_documentation :: node_kind where "kind_documentation \<equiv> ''documentation''"
abbreviation kind_asset :: node_kind where "kind_asset \<equiv> ''asset''"
abbreviation kind_generated :: node_kind where "kind_generated \<equiv> ''generated''"

record node_activity =
  na_group_key :: string
  na_last_commit :: string
  na_last_commit_at :: int
  na_last_event :: string
  na_access_count :: int
  na_total_time_ms :: int
  na_lines_added :: int
  na_lines_deleted :: int
  na_recent_tools :: "string list"
  na_session_history :: "string list"
  na_confidence :: string

record node =
  nd_id :: string
  nd_path :: string
  nd_parent_path :: string
  nd_name :: string
  nd_kind :: node_kind
  nd_size :: int
  nd_mod_time :: int
  nd_activity :: node_activity

definition zero_activity :: node_activity where
  "zero_activity = \<lparr>na_group_key = [], na_last_commit = [], na_last_commit_at = 0, na_last_event = [],
     na_access_count = 0, na_total_time_ms = 0, na_lines_added = 0, na_lines_deleted = 0,
     na_recent_tools = [], na_session_history = [], na_confidence = []\<rparr>"

definition zero_node :: node where
  "zero_node = \<lparr>nd_id = [], nd_path = [], nd_parent_path = [], nd_name = [], nd_kind = [], nd_size = 0,
     nd_mod_time = 0, nd_activity = zero_activity\<rparr>"

section \<open>Ignore rules\<close>

definition default_ignore_patterns :: "string list" where
  "default_ignore_patterns = [''.git'', ''.aav'', ''node_modules'', ''vendor'', ''dist'', ''build'',
     ''coverage'', ''.next'', ''target'', ''__pycache__'', ''.cache'']"

text \<open>The lines a \<^verbatim>\<open>bufio.Scanner\<close> yields: it strips a carriage return, ignores an empty last line and
  stops before a line that does not fit its buffer of 65536 bytes.\<close>

definition drop_cr :: "string \<Rightarrow> string" where
  "drop_cr s = trim_suffix s [CHR 0x0D]"

definition scan_lines :: "string \<Rightarrow> string list" where
  "scan_lines text =
     (let ls = split_char (CHR 0x0A) text;
          all = (if last ls = [] then butlast ls else ls)
      in map drop_cr (takeWhile (\<lambda>l. length l < 65536) all))"

definition read_patterns :: "string option \<Rightarrow> string list" where
  "read_patterns content = (case content of
     None \<Rightarrow> []
   | Some text \<Rightarrow>
       map (\<lambda>l. trim_suffix l ''/'')
         (filter (\<lambda>l. l \<noteq> [] \<and> \<not> has_prefix l ''#'' \<and> \<not> has_prefix l ''!'') (map trim_space (scan_lines text))))"

record ignore_matcher =
  im_defaults :: "string list"
  im_patterns :: "string list"

text \<open>\<^verbatim>\<open>Reload\<close> with the contents of \<^verbatim>\<open>.gitignore\<close> and \<^verbatim>\<open>.aavignore\<close>, \<^const>\<open>None\<close> when absent.\<close>

definition reload_matcher :: "ignore_matcher \<Rightarrow> string option \<Rightarrow> string option \<Rightarrow> ignore_matcher" where
  "reload_matcher m gitignore aavignore =
     m\<lparr>im_patterns := im_defaults m @ read_patterns gitignore @ read_patterns aavignore\<rparr>"

definition new_matcher :: "string list \<Rightarrow> string option \<Rightarrow> string option \<Rightarrow> ignore_matcher" where
  "new_matcher defaults gitignore aavignore =
     reload_matcher \<lparr>im_defaults = defaults, im_patterns = []\<rparr> gitignore aavignore"

definition pattern_ignores :: "string \<Rightarrow> string \<Rightarrow> bool" where
  "pattern_ignores path pattern0 =
     (let pattern = trim_prefix pattern0 ''/'' in
      if pattern = [] then False
      else if CHR ''/'' \<notin> set pattern then list_ex (\<lambda>part. glob_match pattern part) (split_char (CHR ''/'') path)
      else glob_match pattern path \<or> has_prefix path (pattern @ ''/''))"

definition ignored :: "string \<Rightarrow> string list \<Rightarrow> bool" where
  "ignored path patterns = list_ex (pattern_ignores path) patterns"

definition matcher_ignored :: "ignore_matcher \<Rightarrow> string \<Rightarrow> bool" where
  "matcher_ignored m path = ignored path (im_patterns m)"

section \<open>Classification\<close>

text \<open>\<^verbatim>\<open>strings.ToLower\<close>, as far as comparisons with ASCII words see it: the ASCII capitals, and the two
  characters outside ASCII whose small letter is in ASCII (U+0130 and U+212A).  Any other character
  outside ASCII maps to characters outside ASCII and is kept.\<close>

definition lower_char :: "char \<Rightarrow> char" where
  "lower_char c = (if CHR ''A'' \<le> c \<and> c \<le> CHR ''Z'' then char_of (byte c + 32) else c)"

definition to_lower :: "string \<Rightarrow> string" where
  "to_lower s = map lower_char
     (replace_all (bytes [0xE2, 0x84, 0xAA]) ''k'' (replace_all (bytes [0xC4, 0xB0]) ''i'' s))"

definition doc_extensions :: "string list" where
  "doc_extensions = [''.md'', ''.mdx'', ''.rst'', ''.txt'']"

definition config_extensions :: "string list" where
  "config_extensions = [''.json'', ''.yaml'', ''.yml'', ''.toml'', ''.ini'', ''.env'']"

definition asset_extensions :: "string list" where
  "asset_extensions = [''.png'', ''.jpg'', ''.jpeg'', ''.gif'', ''.svg'', ''.ico'', ''.woff'', ''.woff2'', ''.mp4'']"

definition classify :: "string \<Rightarrow> bool \<Rightarrow> node_kind" where
  "classify path is_dir =
     (if is_dir then kind_directory
      else
        let low = to_lower path; base = path_base low; ext = path_ext low in
        if contains low ''generated'' \<or> has_suffix base ''.gen.go'' then kind_generated
        else if contains base ''test'' \<or> contains low ''/tests/'' then kind_test
        else if ext \<in> set doc_extensions then kind_documentation
        else if ext \<in> set config_extensions then kind_config
        else if ext \<in> set asset_extensions then kind_asset
        else kind_source)"

section \<open>Scan\<close>

record entry_info =
  ei_size :: int
  ei_mod_time :: int
  ei_symlink :: bool

text \<open>An entry of the tree as \<^verbatim>\<open>filepath.WalkDir\<close> meets it: its name, whether it is a directory, what
  \<^verbatim>\<open>Info\<close> returns, whether it can be listed, and its entries in the order of their names.\<close>

datatype entry = Entry string bool "entry_info option" bool "entry list"

text \<open>\<^const>\<open>None\<close> is the error that ends the walk.\<close>

fun scan_entry :: "ignore_matcher \<Rightarrow> string \<Rightarrow> string \<Rightarrow> entry \<Rightarrow> node list option"
  and scan_entries :: "ignore_matcher \<Rightarrow> string \<Rightarrow> string \<Rightarrow> entry list \<Rightarrow> node list option" where
  "scan_entry m root dir (Entry name is_dir info readable kids) =
     (let path = path_join [dir, name] in
      case path_rel root path of
        None \<Rightarrow> None
      | Some rel \<Rightarrow>
          if matcher_ignored m rel then Some []
          else (case info of
            None \<Rightarrow> None
          | Some i \<Rightarrow>
              let own = (if ei_symlink i then []
                  else [zero_node\<lparr>nd_path := rel, nd_parent_path := path_dir rel, nd_name := name,
                          nd_kind := classify rel is_dir, nd_size := ei_size i, nd_mod_time := ei_mod_time i\<rparr>])
              in if \<not> is_dir then Some own
                 else if \<not> readable then None
                 else map_option (\<lambda>below. own @ below) (scan_entries m root path kids)))"
| "scan_entries m root dir [] = Some []"
| "scan_entries m root dir (e # es) =
     (case scan_entry m root dir e of
        None \<Rightarrow> None
      | Some ns \<Rightarrow> map_option (\<lambda>ms. ns @ ms) (scan_entries m root dir es))"

definition node_path_less :: "node \<Rightarrow> node \<Rightarrow> bool" where
  "node_path_less a b \<longleftrightarrow> nd_path a < nd_path b"

interpretation node_sort: keyed_less node_path_less nd_path
  by unfold_locales (simp add: node_path_less_def)

record project_tree =
  pt_is_dir :: bool
  pt_readable :: bool
  pt_entries :: "entry list"
  pt_gitignore :: "string option"
  pt_aavignore :: "string option"

definition scan_project :: "filesystem \<Rightarrow> string \<Rightarrow> project_tree option \<Rightarrow> (string \<times> node list) option" where
  "scan_project fs root tree =
     (case path_abs fs root of
        None \<Rightarrow> None
      | Some top_dir \<Rightarrow>
          (case tree of
             None \<Rightarrow> None
           | Some t \<Rightarrow>
               let m = new_matcher default_ignore_patterns (pt_gitignore t) (pt_aavignore t);
                   top = zero_node\<lparr>nd_path := ''.'', nd_name := path_base top_dir, nd_kind := kind_root\<rparr>
               in if \<not> pt_is_dir t then Some (top_dir, [top])
                  else if \<not> pt_readable t then None
                  else map_option (\<lambda>ns. (top_dir, top # sort_slice node_path_less ns))
                         (scan_entries m top_dir top_dir (pt_entries t))))"

section \<open>The scanned tree\<close>

text \<open>What the operating system promises of a tree: names are single path elements other than
  \<^verbatim>\<open>.\<close> and \<^verbatim>\<open>..\<close>, different within a directory, and a symbolic link is no directory.\<close>

fun entry_name :: "entry \<Rightarrow> string" where
  "entry_name (Entry name _ _ _ _) = name"

fun entry_ok :: "entry \<Rightarrow> bool" and entries_ok :: "entry list \<Rightarrow> bool" where
  "entry_ok (Entry name is_dir info readable kids) \<longleftrightarrow> name_elem name \<and>
     (case info of Some i \<Rightarrow> ei_symlink i \<longrightarrow> \<not> is_dir | None \<Rightarrow> True) \<and>
     entries_ok kids \<and> distinct (map entry_name kids)"
| "entries_ok [] = True"
| "entries_ok (e # es) \<longleftrightarrow> entry_ok e \<and> entries_ok es"

lemma clean_names: "list_all name_elem (rs @ ts) \<Longrightarrow> clean_list False ts"
  using clean_list_up [of ts 0] by (auto simp: list_all_iff name_elem_def)

lemma rel_below:
  assumes "list_all name_elem (rs @ ts @ [n])"
  shows "path_join [abs_path (rs @ ts), n] = abs_path (rs @ ts @ [n])"
    and "path_rel (abs_path rs) (abs_path (rs @ ts @ [n])) = Some (unsplit False (ts @ [n]))"
proof -
  have c: "clean_list True (rs @ ts @ [n])" using assms by (simp add: clean_list_names)
  from path_join_plain [of "rs @ ts" n] c show "path_join [abs_path (rs @ ts), n] = abs_path (rs @ ts @ [n])" by simp
  from path_rel_extension [OF c] show "path_rel (abs_path rs) (abs_path (rs @ ts @ [n])) = Some (unsplit False (ts @ [n]))" .
qed

lemma unsplit_inj:
  assumes "list_all name_elem ts" and "list_all name_elem us" and "unsplit False ts = unsplit False us"
  shows "ts = us"
proof -
  have "clean_list False ts" "clean_list False us" using clean_names [of "[]"] assms by simp_all
  then have "(if ts = [] then [''.''] else ts) = (if us = [] then [''.''] else us)"
    using unsplit_relative(2) assms(3) by metis
  then show ?thesis using assms(1,2) by (auto simp: name_elem_def plain_elem_def split: if_splits)
qed

lemma path_clean_idem [simp]: "path_clean (path_clean p) = path_clean p"
proof (cases "is_abs p")
  case True
  with path_clean_abs [OF True] show ?thesis by auto
next
  case False
  have "clean_list False (clean_elems False [] (split_char slash p))"
    using split_no_slash by (intro clean_elems_clean) (simp_all add: clean_list_def)
  with False show ?thesis by (simp add: path_clean_def [of p] path_clean_relative)
qed

lemma join_str_snoc: "ws \<noteq> [] \<Longrightarrow> join_str sep (ws @ [w]) = join_str sep ws @ sep @ w"
  by (induction sep ws rule: join_str.induct) auto

lemma join_str_Nil_iff: "\<forall>w \<in> set ws. w \<noteq> [] \<Longrightarrow> join_str sep ws = [] \<longleftrightarrow> ws = []"
  by (induction sep ws rule: join_str.induct) auto

lemma path_dir_unsplit:
  assumes "list_all name_elem (ts @ [n])"
  shows "path_dir (unsplit False (ts @ [n])) = unsplit False ts"
proof -
  have c: "clean_list False (ts @ [n])" using clean_names [of "[]"] assms by simp
  have n: "slash \<notin> set n" using assms by (simp add: name_elem_def plain_elem_def)
  have s: "split_char slash (unsplit False (ts @ [n])) = ts @ [n]" using unsplit_relative(2) [OF c] by simp
  show ?thesis
  proof (cases "ts = []")
    case True
    with n show ?thesis by (simp add: path_dir_def dir_part_def unsplit_def split_char_word path_clean_def is_abs_def has_prefix_def)
  next
    case False
    have ct: "clean_list False ts" using clean_names [of "[]" ts] assms by simp
    have "dir_part (unsplit False (ts @ [n])) = join_str [slash] ts @ [slash]"
      using s False by (simp add: dir_part_def unsplit_def join_str_snoc)
    moreover have "split_char slash (join_str [slash] ts @ [slash]) = ts @ [[]]"
      using split_join [of "ts @ [[]]" slash] False clean_list_noslash [OF ct] by (auto simp: join_str_snoc)
    moreover have "\<not> is_abs (join_str [slash] ts @ [slash])"
      using unsplit_relative(1) [OF ct] False clean_list_noslash [OF ct]
      by (cases "join_str [slash] ts") (auto simp: unsplit_def is_abs_def has_prefix_def join_str_Nil_iff)
    moreover have "clean_elems False [] (ts @ [[]]) = ts"
      using clean_elems_id [OF ct] by (simp add: clean_elems_append)
    ultimately show ?thesis by (simp add: path_dir_def path_clean_def)
  qed
qed

text \<open>Where a node lies below the directory \<open>ts\<close>: its path, its parent's, and the parent's node.\<close>

definition located :: "ignore_matcher \<Rightarrow> string list \<Rightarrow> node list \<Rightarrow> node \<Rightarrow> string list \<Rightarrow> bool" where
  "located m ts ns n us \<longleftrightarrow> us \<noteq> [] \<and> list_all name_elem (ts @ us) \<and>
     nd_path n = unsplit False (ts @ us) \<and> nd_parent_path n = unsplit False (ts @ butlast us) \<and>
     \<not> matcher_ignored m (nd_path n) \<and> nd_kind n \<noteq> kind_root \<and>
     (butlast us \<noteq> [] \<longrightarrow> (\<exists>p \<in> set ns. nd_path p = nd_parent_path n \<and> nd_kind p = kind_directory))"

definition scanned_below :: "ignore_matcher \<Rightarrow> string list \<Rightarrow> string set \<Rightarrow> node list \<Rightarrow> bool" where
  "scanned_below m ts names ns \<longleftrightarrow>
     (\<forall>n \<in> set ns. \<exists>us. located m ts ns n us \<and> hd us \<in> names) \<and> distinct (map nd_path ns)"

lemma scanned_below_Nil [simp]: "scanned_below m ts A []"
  by (simp add: scanned_below_def)

lemma located_mono: "located m ts ns n us \<Longrightarrow> set ns \<subseteq> set ns' \<Longrightarrow> located m ts ns' n us"
  unfolding located_def by blast

lemma located_name: "located m ts ns n us \<Longrightarrow> located m ts ns' n' vs \<Longrightarrow> nd_path n = nd_path n' \<Longrightarrow> hd us = hd vs"
  using unsplit_inj [of "ts @ us" "ts @ vs"] by (auto simp: located_def)

lemma scanned_below_append:
  assumes "scanned_below m ts A ns" and "scanned_below m ts B ms" and "A \<inter> B = {}"
  shows "scanned_below m ts (A \<union> B) (ns @ ms)"
proof -
  have "\<exists>us. located m ts (ns @ ms) n us \<and> hd us \<in> A \<union> B" if "n \<in> set (ns @ ms)" for n
    using that assms(1,2) located_mono unfolding scanned_below_def
    by (metis Un_iff set_append sup_ge1 sup_ge2)
  moreover have "nd_path n \<noteq> nd_path n'" if "n \<in> set ns" "n' \<in> set ms" for n n'
    using that assms located_name unfolding scanned_below_def by (metis disjoint_iff)
  ultimately show ?thesis using assms(1,2) by (auto simp: scanned_below_def)
qed

text \<open>A directory's own node in front of what lies below it.\<close>

lemma scanned_below_directory:
  assumes "scanned_below m (ts @ [x]) A ns" and "list_all name_elem (ts @ [x])"
    and "nd_path n = unsplit False (ts @ [x])" and "nd_parent_path n = unsplit False ts"
    and "\<not> matcher_ignored m (nd_path n)" and "nd_kind n = kind_directory"
  shows "scanned_below m ts {x} (n # ns)"
proof -
  have own: "located m ts (n # ns) n [x]" using assms(2-6) by (simp add: located_def)
  have below: "located m ts (n # ns) k (x # us)" if "located m (ts @ [x]) ns k us" for k us
    using that assms(3,6) by (cases "butlast us = []") (auto simp: located_def)
  have "nd_path k \<noteq> nd_path n" if "located m (ts @ [x]) ns k us" for k us
    using that unsplit_inj [of "ts @ [x] @ us" "ts @ [x]"] assms(2,3) by (auto simp: located_def)
  with own below assms(1) show ?thesis
    unfolding scanned_below_def by (fastforce intro: exI [of _ "x # _"])
qed

lemma scanned_below_file:
  "list_all name_elem (ts @ [x]) \<Longrightarrow> nd_path n = unsplit False (ts @ [x]) \<Longrightarrow> nd_parent_path n = unsplit False ts \<Longrightarrow>
   \<not> matcher_ignored m (nd_path n) \<Longrightarrow> nd_kind n \<noteq> kind_root \<Longrightarrow> scanned_below m ts {x} [n]"
  by (auto simp: scanned_below_def located_def intro!: exI [of _ "[x]"])

lemma classify_kind: "classify p d \<noteq> kind_root" and classify_directory [simp]: "classify p True = kind_directory"
  by (simp_all add: classify_def Let_def)

lemma scan_entry_below:
  "scan_entry m (abs_path rs) (abs_path (rs @ ts)) e = Some ns \<Longrightarrow> list_all name_elem (rs @ ts) \<Longrightarrow> entry_ok e \<Longrightarrow>
     scanned_below m ts {entry_name e} ns"
  "scan_entries m (abs_path rs) (abs_path (rs @ ts)) es = Some ns \<Longrightarrow> list_all name_elem (rs @ ts) \<Longrightarrow> entries_ok es \<Longrightarrow>
     distinct (map entry_name es) \<Longrightarrow> scanned_below m ts (entry_name ` set es) ns"
proof (induction m "abs_path rs" "abs_path (rs @ ts)" e and m "abs_path rs" "abs_path (rs @ ts)" es
    arbitrary: ts ns and ts ns rule: scan_entry_scan_entries.induct)
  case (1 m name is_dir info readable kids)
  have nm: "list_all name_elem (rs @ ts @ [name])" "list_all name_elem (ts @ [name])" using 1(3,4) by simp_all
  note rel = rel_below [OF nm(1)] path_dir_unsplit [OF nm(2)]
  show ?case
  proof (cases "matcher_ignored m (unsplit False (ts @ [name]))")
    case True
    with 1(2) rel show ?thesis by (auto simp: Let_def)
  next
    case False
    with 1(2) rel obtain i where i: "info = Some i" by (auto simp: Let_def split: option.splits)
    let ?n = "zero_node\<lparr>nd_path := unsplit False (ts @ [name]), nd_parent_path := unsplit False ts, nd_name := name,
       nd_kind := classify (unsplit False (ts @ [name])) is_dir, nd_size := ei_size i, nd_mod_time := ei_mod_time i\<rparr>"
    show ?thesis
    proof (cases is_dir)
      case False
      with 1(2) rel i \<open>\<not> matcher_ignored m _\<close> nm show ?thesis
        by (auto simp: Let_def classify_kind split: if_splits intro!: scanned_below_file)
    next
      case True
      with 1(2,4) rel i \<open>\<not> matcher_ignored m _\<close> obtain ms where
        ms: "scan_entries m (abs_path rs) (abs_path (rs @ ts @ [name])) kids = Some ms" "ns = ?n # ms" "readable"
        by (auto simp: Let_def split: if_splits)
      have "scanned_below m (ts @ [name]) (entry_name ` set kids) ms"
        using 1(1) rel i True ms \<open>\<not> matcher_ignored m _\<close> 1(4) nm by simp
      with nm(2) True \<open>\<not> matcher_ignored m _\<close> show ?thesis
        unfolding ms(2) by (auto intro!: scanned_below_directory)
    qed
  qed
next
  case (3 m e es)
  then obtain ns1 ns2 where s: "scan_entry m (abs_path rs) (abs_path (rs @ ts)) e = Some ns1"
    "scan_entries m (abs_path rs) (abs_path (rs @ ts)) es = Some ns2" "ns = ns1 @ ns2"
    by (auto split: option.splits)
  with 3 have "scanned_below m ts {entry_name e} ns1" "scanned_below m ts (entry_name ` set es) ns2" by simp_all
  moreover have "{entry_name e} \<inter> entry_name ` set es = {}" using 3(6) by auto
  ultimately show ?case unfolding s(3) using scanned_below_append by fastforce
qed simp

lemma scan_project_nodes:
  assumes "scan_project fs root (Some t) = Some (dir, nodes)" and "\<And>wd. fs_cwd fs = Some wd \<Longrightarrow> is_abs wd"
    and "entries_ok (pt_entries t)" and "distinct (map entry_name (pt_entries t))"
  obtains ns where "nodes = zero_node\<lparr>nd_path := ''.'', nd_name := path_base dir, nd_kind := kind_root\<rparr> #
      sort_slice node_path_less ns"
    and "scanned_below (new_matcher default_ignore_patterns (pt_gitignore t) (pt_aavignore t)) [] (entry_name ` set (pt_entries t)) ns"
proof -
  from assms(1) have "path_abs fs root = Some dir" by (auto simp: scan_project_def Let_def split: option.splits if_splits)
  from path_abs_clean [OF this assms(2)] obtain rs where rs: "clean_list True rs" "dir = abs_path rs" by blast
  then have "list_all name_elem (rs @ [])" by (simp add: clean_list_names)
  with assms rs that [of "[]"] that show thesis
    by (auto simp: scan_project_def Let_def split: option.splits if_splits dest: scan_entry_below(2) [where ts = "[]", simplified])
qed

section \<open>What a scan must list\<close>

text \<open>The entries of a tree with the names that lead to them, the patterns left aside, and the names none of whose
  prefixes is ignored.\<close>

inductive in_tree :: "entry list \<Rightarrow> string list \<Rightarrow> entry \<Rightarrow> bool" where
  here: "e \<in> set es \<Longrightarrow> in_tree es [entry_name e] e"
| below: "Entry x True info readable kids \<in> set es \<Longrightarrow> in_tree kids us e \<Longrightarrow> in_tree es (x # us) e"

inductive_cases in_treeE: "in_tree es us e"

definition visible :: "(string list \<Rightarrow> bool) \<Rightarrow> string list \<Rightarrow> bool" where
  "visible hidden us \<longleftrightarrow> (\<forall>vs. vs \<noteq> [] \<and> prefix vs us \<longrightarrow> \<not> hidden vs)"

fun entry_symlink :: "entry \<Rightarrow> bool" where
  "entry_symlink (Entry _ _ info _ _) = (case info of None \<Rightarrow> False | Some i \<Rightarrow> ei_symlink i)"

fun entry_node :: "string list \<Rightarrow> entry \<Rightarrow> node" where
  "entry_node us (Entry name is_dir info _ _) =
     zero_node\<lparr>nd_path := unsplit False us, nd_parent_path := unsplit False (butlast us), nd_name := name,
       nd_kind := classify (unsplit False us) is_dir, nd_size := ei_size (the info), nd_mod_time := ei_mod_time (the info)\<rparr>"

definition listed :: "(string list \<Rightarrow> bool) \<Rightarrow> string list \<Rightarrow> entry list \<Rightarrow> node set" where
  "listed hidden ts es =
     {entry_node (ts @ us) e | us e. in_tree es us e \<and> \<not> entry_symlink e \<and> visible (\<lambda>vs. hidden (ts @ vs)) us}"

lemma visible_Cons: "visible hidden (x # us) \<longleftrightarrow> \<not> hidden [x] \<and> visible (\<lambda>vs. hidden (x # vs)) us"
proof
  assume v: "visible hidden (x # us)"
  have "\<not> hidden (x # vs)" if "prefix vs us" for vs
    using v that unfolding visible_def by (metis Cons_prefix_Cons list.discI)
  then show "\<not> hidden [x] \<and> visible (\<lambda>vs. hidden (x # vs)) us" by (simp add: visible_def)
next
  assume v: "\<not> hidden [x] \<and> visible (\<lambda>vs. hidden (x # vs)) us"
  have "\<not> hidden vs" if "vs \<noteq> []" "prefix vs (x # us)" for vs
    using v that by (cases vs; cases "tl vs = []") (auto simp: visible_def)
  then show "visible hidden (x # us)" by (simp add: visible_def)
qed

lemma visible_Nil [simp]: "visible hidden []"
  by (simp add: visible_def)

lemma in_tree_iff:
  "in_tree es us e \<longleftrightarrow> us = [entry_name e] \<and> e \<in> set es \<or>
     (\<exists>x info readable kids vs. us = x # vs \<and> Entry x True info readable kids \<in> set es \<and> in_tree kids vs e)"
  by (auto elim: in_tree.cases intro: in_tree.intros)

lemma in_tree_Nil [simp]: "\<not> in_tree [] us e"
  by (auto elim: in_tree.cases)

lemma in_tree_Cons: "in_tree (d # es) us e \<longleftrightarrow> in_tree [d] us e \<or> in_tree es us e"
proof
  assume "in_tree (d # es) us e"
  then show "in_tree [d] us e \<or> in_tree es us e"
  proof cases
    case here
    then show ?thesis using in_tree.here [of e] by auto
  next
    case (below x info readable kids vs)
    then show ?thesis using in_tree.below [of x info readable kids _ vs e] by auto
  qed
next
  have grow: "in_tree ds us e" if "in_tree cs us e" "set cs \<subseteq> set ds" for cs ds
    using that(1)
  proof cases
    case here
    with that(2) show ?thesis using in_tree.here [of e ds] by blast
  next
    case (below x info readable kids vs)
    with that(2) show ?thesis using in_tree.below [of x info readable kids ds vs e] by blast
  qed
  assume "in_tree [d] us e \<or> in_tree es us e"
  then show "in_tree (d # es) us e" using grow [of "[d]" "d # es"] grow [of es "d # es"] by (auto simp: set_subset_Cons)
qed

lemma in_tree_one:
  "in_tree [Entry x is_dir info readable kids] us e \<longleftrightarrow>
     us = [x] \<and> e = Entry x is_dir info readable kids \<or> is_dir \<and> (\<exists>vs. us = x # vs \<and> in_tree kids vs e)"
  unfolding in_tree_iff [of "[Entry x is_dir info readable kids]"] by auto

lemma listed_Nil [simp]: "listed hidden ts [] = {}"
  by (simp add: listed_def)

lemma listed_Cons: "listed hidden ts (d # es) = listed hidden ts [d] \<union> listed hidden ts es"
  unfolding listed_def by (subst in_tree_Cons) auto

lemma listed_one:
  "listed hidden ts [Entry x is_dir info readable kids] =
     (if hidden (ts @ [x]) then {}
      else (if entry_symlink (Entry x is_dir info readable kids) then {} else {entry_node (ts @ [x]) (Entry x is_dir info readable kids)}) \<union>
        (if is_dir then listed hidden (ts @ [x]) kids else {}))" (is "?l = ?r")
proof (rule set_eqI)
  fix n
  let ?e = "Entry x is_dir info readable kids"
  have "n \<in> ?l \<longleftrightarrow> n = entry_node (ts @ [x]) ?e \<and> \<not> entry_symlink ?e \<and> visible (\<lambda>vs. hidden (ts @ vs)) [x] \<or>
      is_dir \<and> (\<exists>us e. n = entry_node (ts @ x # us) e \<and> in_tree kids us e \<and> \<not> entry_symlink e \<and> visible (\<lambda>vs. hidden (ts @ vs)) (x # us))"
    unfolding listed_def in_tree_one mem_Collect_eq by blast
  also have "\<dots> \<longleftrightarrow> n \<in> ?r"
    by (auto simp: visible_Cons listed_def simp del: entry_symlink.simps entry_node.simps)
  finally show "n \<in> ?l \<longleftrightarrow> n \<in> ?r" .
qed

lemma scan_entry_listed:
  "scan_entry m (abs_path rs) (abs_path (rs @ ts)) e = Some ns \<Longrightarrow> list_all name_elem (rs @ ts) \<Longrightarrow> entry_ok e \<Longrightarrow>
     set ns = listed (\<lambda>us. matcher_ignored m (unsplit False us)) ts [e]"
  "scan_entries m (abs_path rs) (abs_path (rs @ ts)) es = Some ns \<Longrightarrow> list_all name_elem (rs @ ts) \<Longrightarrow> entries_ok es \<Longrightarrow>
     set ns = listed (\<lambda>us. matcher_ignored m (unsplit False us)) ts es"
proof (induction m "abs_path rs" "abs_path (rs @ ts)" e and m "abs_path rs" "abs_path (rs @ ts)" es
    arbitrary: ts ns and ts ns rule: scan_entry_scan_entries.induct)
  case (1 m name is_dir info readable kids)
  have nm: "list_all name_elem (rs @ ts @ [name])" "list_all name_elem (ts @ [name])" using 1(3,4) by simp_all
  note rel = rel_below [OF nm(1)] path_dir_unsplit [OF nm(2)]
  show ?case
  proof (cases "matcher_ignored m (unsplit False (ts @ [name]))")
    case True
    with 1(2) rel show ?thesis by (simp add: Let_def listed_one)
  next
    case shown: False
    with 1(2) rel obtain i where i: "info = Some i" by (auto simp: Let_def split: option.splits)
    show ?thesis
    proof (cases is_dir)
      case False
      with 1(2) rel i shown show ?thesis by (auto simp: Let_def listed_one)
    next
      case True
      with 1(2) rel i shown obtain ms where
        ms: "scan_entries m (abs_path rs) (abs_path (rs @ ts @ [name])) kids = Some ms" "readable"
          "ns = (if ei_symlink i then [] else [entry_node (ts @ [name]) (Entry name is_dir info readable kids)]) @ ms"
        by (auto simp: Let_def split: if_splits)
      have "set ms = listed (\<lambda>us. matcher_ignored m (unsplit False us)) (ts @ [name]) kids"
        using 1(1) rel i True ms shown 1(4) nm by simp
      with i True shown show ?thesis unfolding ms(3) listed_one by simp
    qed
  qed
next
  case (3 m e es)
  then obtain ns1 ns2 where s: "scan_entry m (abs_path rs) (abs_path (rs @ ts)) e = Some ns1"
    "scan_entries m (abs_path rs) (abs_path (rs @ ts)) es = Some ns2" "ns = ns1 @ ns2"
    by (auto split: option.splits)
  with 3 show ?case by (simp add: listed_Cons [of _ _ e es])
qed simp

lemma scan_project_listed:
  assumes "scan_project fs root (Some t) = Some (dir, nodes)" and "\<And>wd. fs_cwd fs = Some wd \<Longrightarrow> is_abs wd"
    and "entries_ok (pt_entries t)" and "pt_is_dir t"
  shows "set (tl nodes) = listed (\<lambda>us. matcher_ignored (new_matcher default_ignore_patterns (pt_gitignore t) (pt_aavignore t))
    (unsplit False us)) [] (pt_entries t)"
proof -
  from assms(1) have "path_abs fs root = Some dir" by (auto simp: scan_project_def Let_def split: option.splits if_splits)
  from path_abs_clean [OF this assms(2)] obtain rs where rs: "clean_list True rs" "dir = abs_path rs" by blast
  then have "list_all name_elem (rs @ [])" by (simp add: clean_list_names)
  with assms rs show ?thesis
    by (auto simp: scan_project_def Let_def split: option.splits if_splits dest!: scan_entry_listed(2) [where ts = "[]", simplified])
qed

text \<open>C15: a scan yields exactly the tree the graph is laid out from.  The project root comes first, the other
  nodes follow in the order of their paths, no path occurs twice and no ignored path at all; and they are the nodes of
  exactly those entries of the directory that are no symbolic link and that no pattern hides, neither themselves nor a
  directory on the way to them.\<close>

theorem scan_is_sorted_and_filtered:
  assumes "scan_project fs root (Some t) = Some (dir, nodes)" and "\<And>wd. fs_cwd fs = Some wd \<Longrightarrow> is_abs wd"
    and "entries_ok (pt_entries t)" and "distinct (map entry_name (pt_entries t))"
  defines "hidden \<equiv> \<lambda>p. ignored p (default_ignore_patterns @ read_patterns (pt_gitignore t) @ read_patterns (pt_aavignore t))"
  shows "nd_path (hd nodes) = ''.'' \<and> sorted (map nd_path (tl nodes)) \<and> distinct (map nd_path nodes) \<and>
      filter (\<lambda>n. hidden (nd_path n)) (tl nodes) = [] \<and>
      (pt_is_dir t \<longrightarrow> set (tl nodes) =
        {entry_node us e | us e. in_tree (pt_entries t) us e \<and> \<not> entry_symlink e \<and> visible (\<lambda>vs. hidden (unsplit False vs)) us})"
proof -
  from scan_project_nodes [OF assms(1-4)] obtain ns where ns: "nodes = zero_node\<lparr>nd_path := ''.'', nd_name := path_base dir,
      nd_kind := kind_root\<rparr> # sort_slice node_path_less ns"
    and b: "scanned_below (new_matcher default_ignore_patterns (pt_gitignore t) (pt_aavignore t)) []
      (entry_name ` set (pt_entries t)) ns" .
  have m: "matcher_ignored (new_matcher default_ignore_patterns (pt_gitignore t) (pt_aavignore t)) p \<longleftrightarrow> hidden p" for p
    by (simp add: hidden_def matcher_ignored_def new_matcher_def reload_matcher_def)
  have "''.'' \<noteq> nd_path n" if "n \<in> set ns" for n
    using b that unsplit_inj [of _ "[]"] by (fastforce simp: scanned_below_def located_def unsplit_def)
  moreover have "distinct (map nd_path (sort_slice node_path_less ns))"
    using b by (metis mset_eq_imp_distinct_iff mset_map mset_sort_slice scanned_below_def)
  moreover have "\<not> hidden (nd_path n)" if "n \<in> set ns" for n
    using b that by (auto simp: scanned_below_def located_def m)
  ultimately have "nd_path (hd nodes) = ''.'' \<and> sorted (map nd_path (tl nodes)) \<and> distinct (map nd_path nodes) \<and>
      filter (\<lambda>n. hidden (nd_path n)) (tl nodes) = []"
    using node_sort.sorted_sort_slice [of ns] unfolding ns
    by (auto simp: zero_node_def filter_empty_conv image_iff)
  moreover have "set (tl nodes) =
      {entry_node us e | us e. in_tree (pt_entries t) us e \<and> \<not> entry_symlink e \<and> visible (\<lambda>vs. hidden (unsplit False vs)) us}"
    if "pt_is_dir t"
    using scan_project_listed [OF assms(1-3) that] by (simp add: listed_def m)
  ultimately show ?thesis by blast
qed

text \<open>Every scanned node hangs below a node of the same scan: its parent path is the path of the
  root or of a directory that was not ignored either.\<close>

theorem scan_parents_present:
  assumes "scan_project fs root (Some t) = Some (dir, nodes)" and "\<And>wd. fs_cwd fs = Some wd \<Longrightarrow> is_abs wd"
    and "entries_ok (pt_entries t)" and "distinct (map entry_name (pt_entries t))" and "n \<in> set (tl nodes)"
  shows "\<exists>p \<in> set nodes. nd_path p = nd_parent_path n \<and> nd_path p \<noteq> nd_path n \<and>
    (nd_kind p = kind_root \<or> nd_kind p = kind_directory)"
proof -
  from scan_project_nodes [OF assms(1-4)] obtain ns where ns: "nodes = zero_node\<lparr>nd_path := ''.'', nd_name := path_base dir,
      nd_kind := kind_root\<rparr> # sort_slice node_path_less ns"
    and b: "scanned_below (new_matcher default_ignore_patterns (pt_gitignore t) (pt_aavignore t)) []
      (entry_name ` set (pt_entries t)) ns" .
  from b assms(5) ns obtain us where "located (new_matcher default_ignore_patterns (pt_gitignore t) (pt_aavignore t)) [] ns n us"
    by (auto simp: scanned_below_def)
  note us = this [unfolded located_def append_Nil]
  have "list_all name_elem (butlast us)" using us by (auto simp: list_all_iff dest: in_set_butlastD)
  moreover have "butlast us \<noteq> us" using us append_butlast_last_id [of us] by force
  ultimately have ne: "nd_parent_path n \<noteq> nd_path n" using us unsplit_inj [of "butlast us" us] by metis
  show ?thesis
  proof (cases "butlast us = []")
    case True
    with us have "nd_parent_path n = ''.''" by (simp add: unsplit_def)
    with ne show ?thesis unfolding ns by (auto simp: zero_node_def)
  next
    case False
    with us ne show ?thesis unfolding ns by (auto simp del: butlast.simps)
  qed
qed

text \<open>An ignore pattern without slash or special characters hides exactly the paths with an element
  of that name, so what lies below an ignored directory is ignored as well.\<close>

theorem literal_pattern_ignores_elements:
  assumes "list_all literal_char p" and "p \<noteq> []" and "CHR ''/'' \<notin> set p"
  shows "ignored path [p] \<longleftrightarrow> p \<in> set (split_char (CHR ''/'') path)"
proof -
  have "\<not> has_prefix p ''/''" using assms(2,3) by (cases p) (auto simp: has_prefix_def)
  then have "trim_prefix p ''/'' = p" by (simp add: trim_prefix_def)
  with assms glob_literal [OF assms(1)] show ?thesis by (auto simp: ignored_def pattern_ignores_def list_ex_iff)
qed

text \<open>This inheritance fails for a pattern with a star below a directory: the scan skips the directory
  and all in it, while a path in it, judged on its own as a reported change is, is not ignored.\<close>

theorem star_pattern_not_inherited:
  "ignored ''out/tmp'' [''out/*''] \<and> \<not> ignored ''out/tmp/x'' [''out/*'']"
  by code_simp

section \<open>Witnesses\<close>

definition demo_info :: "entry_info option" where
  "demo_info = Some \<lparr>ei_size = 1, ei_mod_time = 2, ei_symlink = False\<rparr>"

definition demo_tree :: project_tree where
  "demo_tree = \<lparr>pt_is_dir = True, pt_readable = True, pt_entries =
     [Entry ''dist'' True demo_info True [Entry ''a'' False demo_info True []],
      Entry ''d'' True demo_info True [Entry ''a.md'' False demo_info True []]],
     pt_gitignore = None, pt_aavignore = None\<rparr>"

definition demo_nodes :: "node list" where
  "demo_nodes = [zero_node\<lparr>nd_path := ''.'', nd_name := ''p'', nd_kind := kind_root\<rparr>,
     zero_node\<lparr>nd_path := ''d'', nd_parent_path := ''.'', nd_name := ''d'', nd_kind := kind_directory,
       nd_size := 1, nd_mod_time := 2\<rparr>,
     zero_node\<lparr>nd_path := ''d/a.md'', nd_parent_path := ''d'', nd_name := ''a.md'', nd_kind := kind_documentation,
       nd_size := 1, nd_mod_time := 2\<rparr>]"

lemma demo_scan: "scan_project demo_fs ''/p'' (Some demo_tree) = Some (''/p'', demo_nodes)"
  by code_simp

lemma demo_tree_ok: "entries_ok (pt_entries demo_tree)" "distinct (map entry_name (pt_entries demo_tree))"
  by (simp_all add: demo_tree_def demo_info_def name_elem_def plain_elem_def)

theorem scan_is_sorted_and_filtered_witness:
  "sorted (map nd_path (tl demo_nodes)) \<and> distinct (map nd_path demo_nodes) \<and>
   (\<exists>us e. demo_nodes ! 2 = entry_node us e \<and> in_tree (pt_entries demo_tree) us e)"
proof -
  have cwd: "\<And>wd. fs_cwd demo_fs = Some wd \<Longrightarrow> is_abs wd" using table_fs_cwd unfolding demo_fs_def by blast
  note scan = scan_is_sorted_and_filtered [OF demo_scan cwd demo_tree_ok]
  have "pt_is_dir demo_tree" by (simp add: demo_tree_def)
  then have "\<exists>us e. n = entry_node us e \<and> in_tree (pt_entries demo_tree) us e" if "n \<in> set (tl demo_nodes)" for n
    using scan that by blast
  moreover have "demo_nodes ! 2 \<in> set (tl demo_nodes)" by (simp add: demo_nodes_def)
  ultimately show ?thesis using scan by blast
qed

theorem scan_parents_present_witness: "\<exists>p \<in> set demo_nodes. nd_path p = ''d''"
proof -
  have n: "demo_nodes ! 2 \<in> set (tl demo_nodes)" "nd_parent_path (demo_nodes ! 2) = ''d''"
    by (simp_all add: demo_nodes_def zero_node_def)
  from scan_parents_present [OF demo_scan _ demo_tree_ok n(1)] show ?thesis
    using table_fs_cwd n(2) unfolding demo_fs_def by fastforce
qed

theorem literal_pattern_ignores_elements_witness: "ignored ''a/dist/b'' [''dist''] \<longleftrightarrow> ''dist'' \<in> set [''a'', ''dist'', ''b'']"
  using literal_pattern_ignores_elements [of "''dist''" "''a/dist/b''"] by (simp add: literal_char_def)

end
