(* ===== verification/Graph_Identity.thy ===== *)
theory Graph_Identity
  imports Project_Scan
begin

text \<open>
  \<^verbatim>\<open>internal/graph/identity.go\<close>: the registry that keeps a node's identifier while its path
  changes.  The hash behind \<^verbatim>\<open>stableID\<close> and the lower-casing of a path on case-insensitive systems
  are parameters.  \<^verbatim>\<open>byPath\<close> is iterated only by \<^verbatim>\<open>Tombstones\<close>, so it is an association list with
  distinct keys; \<^verbatim>\<open>aliases\<close> is only looked up.
\<close>

section \<open>State and operations\<close>

record registry =
  rg_project_id :: string
  rg_case_fold :: bool
  rg_by_path :: "(string \<times> node) list"
  rg_aliases :: "string \<Rightarrow> string list"

definition new_registry :: "string \<Rightarrow> bool \<Rightarrow> registry" where
  "new_registry pid fold_case =
     \<lparr>rg_project_id = pid, rg_case_fold = fold_case, rg_by_path = [], rg_aliases = (\<lambda>_. [])\<rparr>"

abbreviation kind_tombstone :: node_kind where "kind_tombstone \<equiv> ''tombstone''"

text \<open>What the code takes from elsewhere: \<^verbatim>\<open>strings.ToLower\<close> and the truncated SHA-256.\<close>

record identity_env =
  ie_lower :: "string \<Rightarrow> string"
  ie_hash :: "string \<Rightarrow> string"

definition registry_key :: "identity_env \<Rightarrow> registry \<Rightarrow> string \<Rightarrow> string" where
  "registry_key env r p =
     (let key = path_clean (replace_all [backslash] ''/'' p)
      in if rg_case_fold r then ie_lower env key else key)"

definition stable_id :: "identity_env \<Rightarrow> string \<Rightarrow> string \<Rightarrow> string" where
  "stable_id env pid key = ''node_'' @ ie_hash env (pid @ [CHR 0x00] @ key)"

definition assign_one :: "identity_env \<Rightarrow> registry \<Rightarrow> node \<Rightarrow> registry \<times> node" where
  "assign_one env r n0 =
     (let key = registry_key env r (nd_path n0);
          n = (case map_of (rg_by_path r) key of
                 Some existing \<Rightarrow> n0\<lparr>nd_id := nd_id existing\<rparr>
               | None \<Rightarrow> n0\<lparr>nd_id := stable_id env (rg_project_id r) key\<rparr>)
      in (r\<lparr>rg_by_path := AList.update key n (rg_by_path r)\<rparr>, n))"

fun assign_nodes :: "identity_env \<Rightarrow> registry \<Rightarrow> node list \<Rightarrow> registry \<times> node list" where
  "assign_nodes env r [] = (r, [])"
| "assign_nodes env r (n # ns) =
     (case assign_one env r n of (r1, m) \<Rightarrow>
        case assign_nodes env r1 ns of (r2, ms) \<Rightarrow> (r2, m # ms))"

definition rename_node :: "identity_env \<Rightarrow> registry \<Rightarrow> string \<Rightarrow> string \<Rightarrow> registry \<times> node option" where
  "rename_node env r previous next_path =
     (let old_key = registry_key env r previous; new_key = registry_key env r next_path in
      case map_of (rg_by_path r) old_key of
        None \<Rightarrow> (r, None)
      | Some n0 \<Rightarrow>
          let n = n0\<lparr>nd_path := path_clean next_path, nd_name := path_base next_path,
                     nd_parent_path := path_dir next_path\<rparr>
          in (r\<lparr>rg_by_path := AList.update new_key n (AList.delete old_key (rg_by_path r)),
                rg_aliases := (rg_aliases r)(nd_id n0 := rg_aliases r (nd_id n0) @ [nd_path n0])\<rparr>, Some n))"

definition delete_node :: "identity_env \<Rightarrow> registry \<Rightarrow> string \<Rightarrow> registry \<times> node option" where
  "delete_node env r p =
     (let key = registry_key env r p in
      case map_of (rg_by_path r) key of
        None \<Rightarrow> (r, None)
      | Some n0 \<Rightarrow>
          let n = n0\<lparr>nd_kind := kind_tombstone\<rparr>
          in (r\<lparr>rg_by_path := AList.update key n (rg_by_path r)\<rparr>, Some n))"

definition lookup_node :: "identity_env \<Rightarrow> registry \<Rightarrow> string \<Rightarrow> node option" where
  "lookup_node env r p = map_of (rg_by_path r) (registry_key env r p)"

definition tombstones :: "registry \<Rightarrow> node list" where
  "tombstones r = sort_slice node_path_less (filter (\<lambda>n. nd_kind n = kind_tombstone) (map snd (rg_by_path r)))"

definition node_aliases :: "registry \<Rightarrow> string \<Rightarrow> string list" where
  "node_aliases r i = rg_aliases r i"

section \<open>The registry as a map from paths to nodes\<close>

text \<open>The contract the live event handler and the scanner rely on, stated over any registry: a lookup
  sees the last assignment of its key, a rename moves the identifier, other keys are untouched.\<close>

locale path_registry =
  fixes key :: "'r \<Rightarrow> string \<Rightarrow> string"
    and find :: "'r \<Rightarrow> string \<Rightarrow> node option"
    and put :: "'r \<Rightarrow> node \<Rightarrow> 'r \<times> node"
    and move :: "'r \<Rightarrow> string \<Rightarrow> string \<Rightarrow> 'r \<times> node option"
    and drop_path :: "'r \<Rightarrow> string \<Rightarrow> 'r \<times> node option"
  assumes find_key: "key r p = key r q \<Longrightarrow> find r p = find r q"
    and key_stable: "key (fst (put r n)) = key r" "key (fst (move r p q)) = key r" "key (fst (drop_path r p)) = key r"
    and put_keeps_id: "find r (nd_path n) = Some m \<Longrightarrow> nd_id (snd (put r n)) = nd_id m"
    and find_put: "find (fst (put r n)) q = (if key r q = key r (nd_path n) then Some (snd (put r n)) else find r q)"
    and move_keeps_id: "find r p = Some m \<Longrightarrow> \<exists>n. snd (move r p q) = Some n \<and> nd_id n = nd_id m"
    and find_move: "snd (move r p q) = Some n \<Longrightarrow> find (fst (move r p q)) s =
       (if key r s = key r q then Some n else if key r s = key r p then None else find r s)"
    and move_absent: "find r p = None \<Longrightarrow> move r p q = (r, None)"
    and drop_keeps_id: "find r p = Some m \<Longrightarrow> \<exists>n. snd (drop_path r p) = Some n \<and> nd_id n = nd_id m"
    and find_drop: "snd (drop_path r p) = Some n \<Longrightarrow> find (fst (drop_path r p)) s =
       (if key r s = key r p then Some n else find r s)"
begin

lemma rename_then_scan:
  assumes "find r p = Some m" and "key r (nd_path n) = key r q"
  shows "nd_id (snd (put (fst (move r p q)) n)) = nd_id m"
proof -
  from move_keeps_id [OF assms(1), of q] obtain k where k: "snd (move r p q) = Some k" "nd_id k = nd_id m" by blast
  with find_move [OF k(1), of "nd_path n"] assms(2) put_keeps_id [of "fst (move r p q)" n k] show ?thesis by simp
qed

lemma delete_then_scan:
  assumes "find r p = Some m" and "key r (nd_path n) = key r p"
  shows "nd_id (snd (put (fst (drop_path r p)) n)) = nd_id m"
proof -
  from drop_keeps_id [OF assms(1)] obtain k where k: "snd (drop_path r p) = Some k" "nd_id k = nd_id m" by blast
  with find_drop [OF k(1), of "nd_path n"] assms(2) put_keeps_id [of "fst (drop_path r p)" n k] show ?thesis by simp
qed

lemma rename_chain:
  assumes "find r p = Some m" and "key r s \<noteq> key r p"
  shows "\<exists>n. find (fst (move (fst (move r p q)) q s)) s = Some n \<and> nd_id n = nd_id m"
proof -
  from move_keeps_id [OF assms(1), of q] obtain k where k: "snd (move r p q) = Some k" "nd_id k = nd_id m" by blast
  let ?r = "fst (move r p q)"
  from find_move [OF k(1), of q] have "find ?r q = Some k" by simp
  from move_keeps_id [OF this, of s] obtain n where n: "snd (move ?r q s) = Some n" "nd_id n = nd_id k" by blast
  with find_move [OF n(1), of s] k(2) show ?thesis by simp
qed

end

lemma registry_key_update [simp]:
  "registry_key env (r\<lparr>rg_by_path := x\<rparr>) p = registry_key env r p"
  "registry_key env (r\<lparr>rg_by_path := x, rg_aliases := y\<rparr>) p = registry_key env r p"
  by (simp_all add: registry_key_def)

lemmas registry_defs = assign_one_def rename_node_def delete_node_def lookup_node_def

interpretation ids: path_registry "registry_key env" "lookup_node env" "assign_one env" "rename_node env" "delete_node env" for env
proof unfold_locales
  show "registry_key env (fst (rename_node env r p q)) = registry_key env r" for r p q
    by (auto simp: registry_defs Let_def split: option.split)
  show "snd (rename_node env r p q) = Some n \<Longrightarrow> lookup_node env (fst (rename_node env r p q)) s =
      (if registry_key env r s = registry_key env r q then Some n
       else if registry_key env r s = registry_key env r p then None else lookup_node env r s)" for r p q s n
    by (auto simp: registry_defs Let_def update_conv' delete_conv' split: option.splits if_splits)
qed (auto simp: registry_defs Let_def update_conv' delete_conv' fun_eq_iff split: option.splits)

section \<open>Properties\<close>

text \<open>A file keeps its identifier when it is renamed.  The node the scanner then reports at the new
  path gets the identifier the file had before.\<close>

theorem identity_survives_rename:
  assumes "lookup_node env r p = Some m" and "registry_key env r (nd_path n) = registry_key env r q"
  shows "nd_id (snd (assign_one env (fst (rename_node env r p q)) n)) = nd_id m"
  using assms by (rule ids.rename_then_scan)

text \<open>A file that is deleted and created again at its path keeps its identifier, through the
  tombstone.\<close>

theorem identity_survives_delete:
  assumes "lookup_node env r p = Some m" and "registry_key env r (nd_path n) = registry_key env r p"
  shows "nd_id (snd (assign_one env (fst (delete_node env r p)) n)) = nd_id m"
  using assms by (rule ids.delete_then_scan)

text \<open>Identifiers are not unique.  After a rename of \<open>p\<close> to \<open>q\<close>, a new file at \<open>p\<close> gets the identifier
  that the renamed file still has, whatever the hash: both are derived from \<open>p\<close>.\<close>

theorem rename_then_create_shares_id:
  assumes "registry_key env r q \<noteq> registry_key env r (nd_path n)" and "lookup_node env r (nd_path n) = None"
  defines "r1 \<equiv> fst (assign_one env r n)"
  defines "r2 \<equiv> fst (rename_node env r1 (nd_path n) q)"
  defines "r3 \<equiv> fst (assign_one env r2 n)"
  shows "\<exists>a b. lookup_node env r3 (nd_path n) = Some a \<and> lookup_node env r3 q = Some b \<and> nd_id a = nd_id b"
proof -
  have f1: "lookup_node env r1 (nd_path n) = Some (snd (assign_one env r n))" unfolding r1_def by (simp add: ids.find_put)
  from ids.move_keeps_id [OF this, of q] obtain k where
    k: "snd (rename_node env r1 (nd_path n) q) = Some k" "nd_id k = nd_id (snd (assign_one env r n))" by blast
  have keys: "registry_key env r1 = registry_key env r" "registry_key env r2 = registry_key env r"
    unfolding r2_def r1_def by (simp_all add: ids.key_stable)
  have f2: "lookup_node env r2 q = Some k" "lookup_node env r2 (nd_path n) = None"
    using ids.find_move [OF k(1)] assms(1) keys unfolding r2_def by auto
  then have f3: "lookup_node env r3 q = Some k" "lookup_node env r3 (nd_path n) = Some (snd (assign_one env r2 n))"
    unfolding r3_def using assms(1) keys by (simp_all add: ids.find_put)
  have "rg_project_id r2 = rg_project_id r"
    unfolding r2_def r1_def by (auto simp: registry_defs Let_def split: option.splits)
  with assms(2) f2(2) keys have "nd_id (snd (assign_one env r2 n)) = nd_id (snd (assign_one env r n))"
    by (simp add: registry_defs Let_def)
  with f3 k(2) show ?thesis by simp
qed

definition demo_env :: identity_env where
  "demo_env = \<lparr>ie_lower = to_lower, ie_hash = (\<lambda>s. s)\<rparr>"

definition demo_registry :: registry where
  "demo_registry = fst (assign_nodes demo_env (new_registry ''p'' False) demo_nodes)"

lemma demo_lookup: "\<exists>m. lookup_node demo_env demo_registry ''d/a.md'' = Some m \<and> nd_id m = ''node_p'' @ [CHR 0x00] @ ''d/a.md''"
proof -
  have "map_option nd_id (lookup_node demo_env demo_registry ''d/a.md'') = Some (''node_p'' @ [CHR 0x00] @ ''d/a.md'')"
    by code_simp
  then show ?thesis by auto
qed

theorem identity_survives_rename_witness:
  "nd_id (snd (assign_one demo_env (fst (rename_node demo_env demo_registry ''d/a.md'' ''b.md'')) (zero_node\<lparr>nd_path := ''b.md''\<rparr>)))
   = ''node_p'' @ [CHR 0x00] @ ''d/a.md''"
  using demo_lookup identity_survives_rename [of demo_env demo_registry "''d/a.md''" _ "zero_node\<lparr>nd_path := ''b.md''\<rparr>" "''b.md''"]
  by (auto simp: zero_node_def)

theorem identity_survives_delete_witness:
  "nd_id (snd (assign_one demo_env (fst (delete_node demo_env demo_registry ''d/a.md'')) (zero_node\<lparr>nd_path := ''d/a.md''\<rparr>)))
   = ''node_p'' @ [CHR 0x00] @ ''d/a.md''"
  using demo_lookup identity_survives_delete [of demo_env demo_registry "''d/a.md''" _ "zero_node\<lparr>nd_path := ''d/a.md''\<rparr>"]
  by (auto simp: zero_node_def)

theorem rename_then_create_shares_id_witness:
  "\<exists>r a b. lookup_node demo_env r ''x'' = Some a \<and> lookup_node demo_env r ''y'' = Some b \<and> nd_id a = nd_id b"
proof -
  have "registry_key demo_env (new_registry ''p'' False) ''y'' \<noteq> registry_key demo_env (new_registry ''p'' False) ''x''"
    by code_simp
  with rename_then_create_shares_id [of demo_env "new_registry ''p'' False" "''y''" "zero_node\<lparr>nd_path := ''x''\<rparr>"]
  show ?thesis by (auto simp: lookup_node_def new_registry_def)
qed

end
