(* ===== verification/Graph_Layout.thy ===== *)
theory Graph_Layout
  imports Project_Scan
begin

text \<open>
  \<^verbatim>\<open>internal/graph/layout.go\<close>: the layout of the nodes on a sphere and the patch between two
  layouts.  The floating-point geometry is a parameter: \<open>place\<close> is \<^verbatim>\<open>positionFor\<close> as a function of
  the node's path and its group's centre, \<open>centre\<close> the centre of the group with a given rank among a
  given number of groups, \<open>origin\<close> the zero vector.  Everything else, the order of nodes, the ranking of groups,
  the edges and the patch, is as in the code.
\<close>

section \<open>Layout\<close>

record 'v geometry =
  ge_origin :: 'v
  ge_centre :: "nat \<Rightarrow> nat \<Rightarrow> 'v"
  ge_place :: "string \<Rightarrow> 'v \<Rightarrow> 'v"

record edge =
  eg_source :: string
  eg_target :: string

record 'v graph_snapshot =
  gs_revision :: int
  gs_nodes :: "(node \<times> 'v) list"
  gs_edges :: "edge list"

definition group_key :: "node \<Rightarrow> string" where
  "group_key n = (if na_group_key (nd_activity n) \<noteq> [] then na_group_key (nd_activity n)
     else ''uncommitted:'' @ nd_parent_path n)"

text \<open>\<^verbatim>\<open>byKey\<close>: the latest commit time of each group.\<close>

fun group_times :: "node list \<Rightarrow> (string \<times> int) list \<Rightarrow> (string \<times> int) list" where
  "group_times [] m = m"
| "group_times (n # ns) m =
     (if nd_kind n = kind_root then group_times ns m
      else
        let key = group_key n; at = na_last_commit_at (nd_activity n) in
        group_times ns
          (case map_of m key of
             None \<Rightarrow> AList.update key at m
           | Some t \<Rightarrow> if t < at then AList.update key at m else m))"

definition group_less :: "string \<times> int \<Rightarrow> string \<times> int \<Rightarrow> bool" where
  "group_less a b \<longleftrightarrow> (if snd a \<noteq> snd b then snd b < snd a else fst a < fst b)"

interpretation group_sort: keyed_less group_less "\<lambda>g. (- snd g, fst g)"
  by unfold_locales (auto simp: group_less_def less_prod_def')

definition group_centers :: "'v geometry \<Rightarrow> node list \<Rightarrow> (string \<times> 'v) list" where
  "group_centers geo ns =
     (let groups = sort_slice group_less (group_times ns [])
      in map (\<lambda>(i, g). (fst g, ge_centre geo i (length groups))) (enumerate 0 groups))"

text \<open>The zero value of a missing centre is the origin; every group has one.\<close>

definition position_of :: "'v geometry \<Rightarrow> (string \<times> 'v) list \<Rightarrow> node \<Rightarrow> 'v" where
  "position_of geo centers n =
     (if nd_kind n = kind_root then ge_origin geo
      else ge_place geo (nd_path n)
        (case map_of centers (group_key n) of Some c \<Rightarrow> c | None \<Rightarrow> ge_origin geo))"

definition node_edge :: "(string \<Rightarrow> string option) \<Rightarrow> node \<Rightarrow> edge option" where
  "node_edge by_path n =
     (if nd_kind n = kind_root then None
      else map_option (\<lambda>parent. \<lparr>eg_source = parent, eg_target = nd_id n\<rparr>) (by_path (nd_parent_path n)))"

definition layout :: "'v geometry \<Rightarrow> node list \<Rightarrow> int \<Rightarrow> 'v graph_snapshot" where
  "layout geo ns revision =
     (let ordered = sort_slice node_path_less ns;
          centers = group_centers geo ordered;
          by_path = fold (\<lambda>n m. m(nd_path n \<mapsto> nd_id n)) ordered Map.empty
      in \<lparr>gs_revision = revision,
          gs_nodes = map (\<lambda>n. (n, position_of geo centers n)) ordered,
          gs_edges = List.map_filter (node_edge by_path) ordered\<rparr>)"

section \<open>Patch\<close>

record 'v graph_patch =
  gp_revision :: int
  gp_added :: "(node \<times> 'v) list"
  gp_updated :: "(node \<times> 'v) list"
  gp_removed :: "string list"
  gp_edges :: "edge list"

definition placed_id :: "node \<times> 'v \<Rightarrow> string" where
  "placed_id pn = nd_id (fst pn)"

definition placed_less :: "node \<times> 'v \<Rightarrow> node \<times> 'v \<Rightarrow> bool" where
  "placed_less a b \<longleftrightarrow> placed_id a < placed_id b"

interpretation placed_sort: keyed_less placed_less placed_id
  by unfold_locales (simp add: placed_less_def)

text \<open>The map of a snapshot's nodes by identifier; of two nodes with one identifier the later stays.\<close>

definition nodes_by_id :: "'v graph_snapshot \<Rightarrow> (string \<times> (node \<times> 'v)) list" where
  "nodes_by_id s = fold (\<lambda>pn m. AList.update (placed_id pn) pn m) (gs_nodes s) []"

definition node_changed :: "node \<times> 'v \<Rightarrow> node \<times> 'v \<Rightarrow> bool" where
  "node_changed old new \<longleftrightarrow> nd_path (fst old) \<noteq> nd_path (fst new) \<or> nd_kind (fst old) \<noteq> nd_kind (fst new) \<or>
     snd old \<noteq> snd new \<or> nd_activity (fst old) \<noteq> nd_activity (fst new)"

definition diff_snapshots :: "'v graph_snapshot \<Rightarrow> 'v graph_snapshot \<Rightarrow> 'v graph_patch" where
  "diff_snapshots previous current_snap =
     (let before = nodes_by_id previous; after = nodes_by_id current_snap
      in \<lparr>gp_revision = gs_revision current_snap,
          gp_added = sort_slice placed_less
            (map snd (filter (\<lambda>(i, n). map_of before i = None) after)),
          gp_updated = sort_slice placed_less
            (map snd (filter (\<lambda>(i, n). case map_of before i of None \<Rightarrow> False | Some old \<Rightarrow> node_changed old n) after)),
          gp_removed = sort_strings (map fst (filter (\<lambda>(i, n). map_of after i = None) before)),
          gp_edges = gs_edges current_snap\<rparr>)"

section \<open>The layout of a set of nodes\<close>

text \<open>The layout depends on the set of nodes only, not on the order in which they are given.\<close>

theorem layout_order_independent:
  assumes "mset ns' = mset ns" and "distinct (map nd_path ns)"
  shows "layout geo ns' revision = layout geo ns revision"
  using node_sort.sort_slice_perm [OF assms] by (simp add: layout_def)

lemma by_path_fold:
  assumes "distinct (map nd_path ns)"
  shows "fold (\<lambda>n m. m(nd_path n \<mapsto> nd_id n)) ns m p =
    (case List.find (\<lambda>n. nd_path n = p) ns of Some n \<Rightarrow> Some (nd_id n) | None \<Rightarrow> m p)"
  using assms
proof (induction ns arbitrary: m)
  case (Cons n ns)
  show ?case
  proof (cases "nd_path n = p")
    case True
    then have "List.find (\<lambda>k. nd_path k = p) ns = None" using Cons.prems by (force simp: find_None_iff image_iff)
    with Cons True show ?thesis by simp
  qed (use Cons in simp)
qed simp

definition parents_present :: "node list \<Rightarrow> bool" where
  "parents_present ns \<longleftrightarrow>
     list_all (\<lambda>n. nd_kind n = kind_root \<or> nd_parent_path n \<in> nd_path ` set ns) ns"

lemma layout_edges:
  assumes "distinct (map nd_path ns)" and "parents_present ns" and "n \<in> set ns" and "nd_kind n \<noteq> kind_root"
  shows "\<exists>p \<in> set ns. nd_path p = nd_parent_path n \<and>
    node_edge (fold (\<lambda>n m. m(nd_path n \<mapsto> nd_id n)) ns Map.empty) n = Some \<lparr>eg_source = nd_id p, eg_target = nd_id n\<rparr>"
proof -
  from assms(2-4) have "nd_parent_path n \<in> nd_path ` set ns" by (auto simp: parents_present_def list_all_iff)
  then have "List.find (\<lambda>k. nd_path k = nd_parent_path n) ns \<noteq> None" by (auto simp: find_None_iff)
  then obtain p where p: "List.find (\<lambda>k. nd_path k = nd_parent_path n) ns = Some p" by blast
  then have "p \<in> set ns" "nd_path p = nd_parent_path n" by (auto simp: find_Some_iff)
  with assms(4) p by_path_fold [OF assms(1), of Map.empty] show ?thesis by (auto simp: node_edge_def)
qed

lemma map_filter_total:
  "(\<And>x. x \<in> set xs \<Longrightarrow> P x \<Longrightarrow> \<exists>y. f x = Some y \<and> g y = h x) \<Longrightarrow> (\<And>x. x \<in> set xs \<Longrightarrow> \<not> P x \<Longrightarrow> f x = None) \<Longrightarrow>
   map g (List.map_filter f xs) = map h (filter P xs)"
proof (induction xs)
  case (Cons x xs)
  then have IH: "map g (List.map_filter f xs) = map h (filter P xs)" by simp
  show ?case
  proof (cases "P x")
    case True
    with Cons.prems(1) [of x] obtain y where "f x = Some y" "g y = h x" by auto
    with IH True show ?thesis by (simp add: List.map_filter_simps)
  next
    case False
    with Cons.prems(2) [of x] IH show ?thesis by (simp add: List.map_filter_simps)
  qed
qed (simp add: List.map_filter_simps)

text \<open>The edges are the parent links, one for each node but the root: the target of an edge is the
  node, its source a node of the same layout.\<close>

theorem layout_is_forest_of_parent_links:
  assumes "distinct (map nd_path ns)" and "parents_present ns"
  shows "map eg_target (gs_edges (layout geo ns revision)) =
      map nd_id (filter (\<lambda>n. nd_kind n \<noteq> kind_root) (map fst (gs_nodes (layout geo ns revision)))) \<and>
    eg_source ` set (gs_edges (layout geo ns revision)) \<subseteq> nd_id ` set ns"
proof -
  let ?s = "sort_slice node_path_less ns"
  let ?m = "fold (\<lambda>n m. m(nd_path n \<mapsto> nd_id n)) ?s Map.empty"
  have d: "distinct (map nd_path ?s)"
    using assms(1) by (metis mset_eq_imp_distinct_iff mset_map mset_sort_slice)
  have p: "parents_present ?s" using assms(2) by (simp add: parents_present_def list_all_iff)
  note e = layout_edges [OF d p]
  have "map eg_target (List.map_filter (node_edge ?m) ?s) = map nd_id (filter (\<lambda>n. nd_kind n \<noteq> kind_root) ?s)"
    by (rule map_filter_total) (use e in \<open>fastforce simp: node_edge_def\<close>)+
  moreover have "eg_source ` set (List.map_filter (node_edge ?m) ?s) \<subseteq> nd_id ` set ns"
  proof
    fix x assume "x \<in> eg_source ` set (List.map_filter (node_edge ?m) ?s)"
    then obtain n y where n: "n \<in> set ?s" "node_edge ?m n = Some y" "x = eg_source y"
      by (auto simp: List.map_filter_def)
    then have "nd_kind n \<noteq> kind_root" by (auto simp: node_edge_def)
    from e [OF n(1) this] n(2,3) show "x \<in> nd_id ` set ns" by auto
  qed
  ultimately show ?thesis by (simp add: layout_def Let_def comp_def)
qed

section \<open>What a patch names\<close>

definition snapshot_map :: "'v graph_snapshot \<Rightarrow> (string \<rightharpoonup> node \<times> 'v)" where
  "snapshot_map s = map_of (nodes_by_id s)"

lemma nodes_by_id_ok: "distinct (map fst (nodes_by_id s)) \<and> (\<forall>(i, pn) \<in> set (nodes_by_id s). i = placed_id pn)"
proof -
  have "distinct (map fst m) \<and> (\<forall>(i, pn) \<in> set m. i = placed_id pn) \<Longrightarrow>
    distinct (map fst (fold (\<lambda>pn m. AList.update (placed_id pn) pn m) ns m)) \<and>
    (\<forall>(i, pn) \<in> set (fold (\<lambda>pn m. AList.update (placed_id pn) pn m) ns m). i = placed_id pn)" for ns m
  proof (induction ns arbitrary: m)
    case (Cons n ns)
    have "(\<forall>(i, pn) \<in> set (AList.update (placed_id n) n m). i = placed_id pn)"
      using Cons.prems by (induction m) (auto split: if_splits)
    with Cons.IH [of "AList.update (placed_id n) n m"] Cons.prems show ?case by (simp add: distinct_update)
  qed simp
  from this [of "[]"] show ?thesis by (simp add: nodes_by_id_def)
qed

lemma snapshot_map_id: "snapshot_map s i = Some pn \<Longrightarrow> placed_id pn = i"
  using nodes_by_id_ok [of s] by (auto simp: snapshot_map_def dest: map_of_SomeD)

lemma snapshot_map_mem: "(i, pn) \<in> set (nodes_by_id s) \<longleftrightarrow> snapshot_map s i = Some pn"
  using nodes_by_id_ok [of s] by (simp add: snapshot_map_def)

lemma case_option_ex: "(case x of None \<Rightarrow> False | Some y \<Rightarrow> P y) \<longleftrightarrow> (\<exists>y. x = Some y \<and> P y)"
  by (cases x) auto

lemma selected_values: "x \<in> set (map snd (filter (\<lambda>(i, n). P i n) xs)) \<longleftrightarrow> (\<exists>i. (i, x) \<in> set xs \<and> P i x)"
  by force

lemma diff_members:
  "pn \<in> set (gp_added (diff_snapshots p c)) \<longleftrightarrow> (\<exists>i. snapshot_map c i = Some pn \<and> snapshot_map p i = None)"
  "pn \<in> set (gp_updated (diff_snapshots p c)) \<longleftrightarrow>
     (\<exists>i old. snapshot_map c i = Some pn \<and> snapshot_map p i = Some old \<and> node_changed old pn)"
  "i \<in> set (gp_removed (diff_snapshots p c)) \<longleftrightarrow> snapshot_map p i \<noteq> None \<and> snapshot_map c i = None"
proof -
  have mem: "(i, x) \<in> set (nodes_by_id s) \<longleftrightarrow> snapshot_map s i = Some x" for i x s by (rule snapshot_map_mem)
  show "pn \<in> set (gp_added (diff_snapshots p c)) \<longleftrightarrow> (\<exists>i. snapshot_map c i = Some pn \<and> snapshot_map p i = None)"
    unfolding mem [of _ _ c, symmetric] snapshot_map_def [of p]
    by (simp add: diff_snapshots_def Let_def selected_values del: set_map set_filter)
  show "pn \<in> set (gp_updated (diff_snapshots p c)) \<longleftrightarrow>
     (\<exists>i old. snapshot_map c i = Some pn \<and> snapshot_map p i = Some old \<and> node_changed old pn)"
    unfolding mem [of _ _ c, symmetric] snapshot_map_def [of p]
    by (simp add: diff_snapshots_def Let_def selected_values case_option_ex del: set_map set_filter)
  show "i \<in> set (gp_removed (diff_snapshots p c)) \<longleftrightarrow> snapshot_map p i \<noteq> None \<and> snapshot_map c i = None"
    using mem [of i _ p] by (force simp: diff_snapshots_def Let_def sort_strings_def snapshot_map_def image_iff)
qed

definition unit_geometry :: "unit geometry" where
  "unit_geometry = \<lparr>ge_origin = (), ge_centre = (\<lambda>_ _. ()), ge_place = (\<lambda>_ _. ())\<rparr>"

theorem layout_order_independent_witness:
  "layout unit_geometry (rev demo_nodes) 1 = layout unit_geometry demo_nodes 1"
  by (rule layout_order_independent) (simp_all add: demo_nodes_def zero_node_def)

theorem layout_is_forest_of_parent_links_witness:
  "map eg_target (gs_edges (layout unit_geometry demo_nodes 1)) =
      map nd_id (filter (\<lambda>n. nd_kind n \<noteq> kind_root) (map fst (gs_nodes (layout unit_geometry demo_nodes 1)))) \<and>
    eg_source ` set (gs_edges (layout unit_geometry demo_nodes 1)) \<subseteq> nd_id ` set demo_nodes"
  by (rule layout_is_forest_of_parent_links) (simp_all add: demo_nodes_def zero_node_def parents_present_def)

end
