(* ===== verification/Go_Text.thy ===== *)
theory Go_Text
  imports Prelude
begin

text \<open>
  More of Go's text functions: \<^verbatim>\<open>strings.SplitN\<close>, \<^verbatim>\<open>strings.Fields\<close> on ASCII separators,
  \<^verbatim>\<open>strconv.ParseInt\<close> and \<^verbatim>\<open>strconv.Atoi\<close> in base ten, and additions of 64-bit integers.
\<close>

section \<open>Splitting\<close>

fun split_n :: "char \<Rightarrow> nat \<Rightarrow> string \<Rightarrow> string list" where
  "split_n c 0 s = []"
| "split_n c (Suc 0) s = [s]"
| "split_n c (Suc (Suc n)) s =
     (let w = takeWhile (\<lambda>x. x \<noteq> c) s in
      if w = s then [s] else w # split_n c (Suc n) (drop (length w + 1) s))"

lemma split_n_bounded: "0 < n \<Longrightarrow> length (split_n c n s) \<le> n \<and> split_n c n s \<noteq> []"
  by (induction c n s rule: split_n.induct) (auto simp: Let_def)

section \<open>64-bit integers\<close>

definition wrap64 :: "int \<Rightarrow> int" where
  "wrap64 x = (x + 2 ^ 63) mod 2 ^ 64 - 2 ^ 63"

definition add64 :: "int \<Rightarrow> int \<Rightarrow> int" where
  "add64 a b = wrap64 (a + b)"

lemma wrap64_id: "int64_min \<le> x \<Longrightarrow> x \<le> int64_max \<Longrightarrow> wrap64 x = x"
  by (simp add: wrap64_def)

lemma wrap64_range: "int64_min \<le> wrap64 x \<and> wrap64 x \<le> int64_max"
  using pos_mod_bound [of "2 ^ 64 :: int" "x + 2 ^ 63"] pos_mod_sign [of "2 ^ 64 :: int" "x + 2 ^ 63"]
  by (simp add: wrap64_def)

lemma add64_wrap [simp]: "add64 (wrap64 a) b = wrap64 (a + b)" "add64 a (wrap64 b) = wrap64 (a + b)"
proof -
  have "wrap64 x mod 2 ^ 64 = x mod 2 ^ 64" for x
    by (simp add: wrap64_def mod_diff_left_eq)
  then have "(wrap64 a + b + 2 ^ 63) mod 2 ^ 64 = (a + b + 2 ^ 63) mod 2 ^ 64"
    "(a + wrap64 b + 2 ^ 63) mod 2 ^ 64 = (a + b + 2 ^ 63) mod 2 ^ 64" for a b
    by (metis mod_add_left_eq mod_add_right_eq)+
  then show "add64 (wrap64 a) b = wrap64 (a + b)" "add64 a (wrap64 b) = wrap64 (a + b)"
    by (simp_all add: add64_def wrap64_def)
qed

section \<open>Decimal integers\<close>

definition is_digit :: "char \<Rightarrow> bool" where
  "is_digit c \<longleftrightarrow> 48 \<le> byte c \<and> byte c \<le> 57"

definition digits_value :: "string \<Rightarrow> nat" where
  "digits_value s = foldl (\<lambda>n c. n * 10 + (byte c - 48)) 0 s"

text \<open>The value \<^verbatim>\<open>ParseInt\<close> returns, and whether it returns no error: a syntax error gives 0, a value out
  of range the nearest bound.\<close>

definition parse_int :: "string \<Rightarrow> int \<times> bool" where
  "parse_int s =
     (let neg = (s \<noteq> [] \<and> hd s = CHR ''-'');
          ds = (if s \<noteq> [] \<and> (hd s = CHR ''-'' \<or> hd s = CHR ''+'') then tl s else s)
      in if ds = [] \<or> \<not> list_all is_digit ds then (0, False)
         else
           let v = int (digits_value ds); w = (if neg then - v else v) in
           if w < int64_min then (int64_min, False)
           else if int64_max < w then (int64_max, False)
           else (w, True))"

lemma parse_int_range: "int64_min \<le> fst (parse_int s) \<and> fst (parse_int s) \<le> int64_max"
  by (simp add: parse_int_def Let_def)

lemma digit_char_value: "d < 10 \<Longrightarrow> byte (digit_char d) - 48 = d \<and> is_digit (digit_char d)"
  by (simp add: digit_char_def is_digit_def byte_def)

lemma digits_value_nat_str: "digits_value (nat_str n) = n \<and> list_all is_digit (nat_str n)"
proof (induction n rule: nat_str.induct)
  case (1 n)
  show ?case
  proof (cases "n < 10")
    case True
    then show ?thesis using digit_char_value [of n] by (simp add: nat_str.simps [of n] digits_value_def)
  next
    case False
    have "digit_char n = digit_char (n mod 10)" by (simp add: digit_char_def)
    then have "byte (digit_char n) - 48 = n mod 10" "is_digit (digit_char n)"
      using digit_char_value [of "n mod 10"] by simp_all
    with 1 [OF False] False show ?thesis by (simp add: nat_str.simps [of n] digits_value_def)
  qed
qed

text \<open>Printing and reading back.\<close>

lemma parse_int_str:
  assumes "int64_min \<le> i" and "i \<le> int64_max"
  shows "parse_int (int_str i) = (i, True)"
proof -
  have hd: "is_digit (hd (nat_str n))" for n
    using digits_value_nat_str [of n] nat_str_nonempty [of n] by (cases "nat_str n") auto
  then have nosign: "hd (nat_str n) \<noteq> CHR ''-''" "hd (nat_str n) \<noteq> CHR ''+''" for n
  proof -
    have "\<not> is_digit (CHR ''-'')" "\<not> is_digit (CHR ''+'')" by (simp_all add: is_digit_def byte_def)
    with hd show "hd (nat_str n) \<noteq> CHR ''-''" "hd (nat_str n) \<noteq> CHR ''+''" for n by metis+
  qed
  show ?thesis
    using assms digits_value_nat_str nosign by (auto simp: parse_int_def int_str_def Let_def)
qed

end
