(* ===== verification/Activity.thy ===== *)
theory Activity
  imports Project_Scan Go_Text
begin

text \<open>
  \<^verbatim>\<open>internal/activity/history.go\<close>: the work metrics shown with each node.  The output of
  \<^verbatim>\<open>git log\<close> and the decoded activity report are parameters; JSON decoding itself is not modelled.
\<close>

section \<open>Tools\<close>

text \<open>The two nested loops of \<^verbatim>\<open>mergeTools\<close> over the groups laid end to end; it returns at six tools.\<close>

fun merge_loop :: "string set \<Rightarrow> string list \<Rightarrow> string list \<Rightarrow> string list" where
  "merge_loop seen res [] = res"
| "merge_loop seen res (t # ts) =
     (let tool = trim_space t in
      if tool \<noteq> [] \<and> tool \<notin> seen
      then (let res' = res @ [tool] in
        if length res' = 6 then res' else merge_loop (insert tool seen) res' ts)
      else merge_loop seen res ts)"

definition merge_tools :: "string list list \<Rightarrow> string list" where
  "merge_tools groups = merge_loop {} [] (concat groups)"

text \<open>The subject is cut at the position of the bracket in its lower-case copy; \<open>lower\<close> is
  \<^verbatim>\<open>strings.ToLower\<close>, a parameter because lengths matter here.  \<^const>\<open>None\<close> is the panic of a slice out of
  range, which a lower-case copy longer than the subject can cause.\<close>

definition infer_tools :: "(string \<Rightarrow> string) \<Rightarrow> string \<Rightarrow> string list option" where
  "infer_tools lower subject =
     (let low = lower subject in
      case index_of low ''[tool:'' of
        None \<Rightarrow> Some [''git commit'']
      | Some start \<Rightarrow>
          (case index_of (drop start low) '']'' of
             None \<Rightarrow> Some [''git commit'']
           | Some fin \<Rightarrow>
               if fin \<le> 6 then Some [''git commit'']
               else if length subject < start + fin then None
               else Some [take (fin - 6) (drop (start + 6) subject), ''git commit'']))"

definition short_commit :: "string \<Rightarrow> string" where
  "short_commit c = (if 8 < length c then take 8 c else c)"

section \<open>Git history\<close>

type_synonym history = "string \<Rightarrow> node_activity"

text \<open>One commit record: its paths are visited in order, each once.\<close>

fun commit_paths :: "string \<Rightarrow> int \<Rightarrow> string \<Rightarrow> string list \<Rightarrow> string set \<Rightarrow> string list \<Rightarrow> history \<Rightarrow> history" where
  "commit_paths commit stamp subject tools seen [] h = h"
| "commit_paths commit stamp subject tools seen (raw # raws) h =
     (let p = trim_space raw in
      if p = [] \<or> p \<in> seen then commit_paths commit stamp subject tools seen raws h
      else
        let item1 = (h p)\<lparr>na_access_count := add64 (na_access_count (h p)) 1,
                          na_recent_tools := merge_tools [na_recent_tools (h p), tools]\<rparr>;
            item = (if na_last_commit item1 = []
                    then item1\<lparr>na_group_key := commit, na_last_commit := commit, na_last_commit_at := stamp,
                           na_last_event := ''commit '' @ short_commit commit @ '': '' @ subject\<rparr>
                    else item1)
        in commit_paths commit stamp subject tools (insert p seen) raws (h(p := item)))"

definition commit_record :: "(string \<Rightarrow> string) \<Rightarrow> string \<Rightarrow> history \<Rightarrow> history option" where
  "commit_record lower record_text h =
     (case split_n (CHR 0x1F) 3 record_text of
        [f0, f1, f2] \<Rightarrow>
          (let lines = split_char (CHR 0x0A) (trim_space f2);
               subject = trim_space (hd lines)
           in map_option (\<lambda>tools. commit_paths (trim_space f0) (fst (parse_int (trim_space f1))) subject tools {} (tl lines) h)
                (infer_tools lower subject))
      | _ \<Rightarrow> Some h)"

fun commit_records :: "(string \<Rightarrow> string) \<Rightarrow> string list \<Rightarrow> history \<Rightarrow> history option" where
  "commit_records lower [] h = Some h"
| "commit_records lower (r # rs) h =
     (case commit_record lower r h of None \<Rightarrow> None | Some h' \<Rightarrow> commit_records lower rs h')"

datatype git_log = Log_output string | Log_no_repository | Log_failed

datatype activity_error = Git_history_failed | Report_unreadable | Report_undecodable | Report_version int
  | Report_path_outside string | Report_negative string | Slice_panic

definition git_history :: "(string \<Rightarrow> string) \<Rightarrow> git_log \<Rightarrow> activity_error + history" where
  "git_history lower log = (case log of
     Log_output out \<Rightarrow> (case commit_records lower (split_char (CHR 0x1E) out) (\<lambda>_. zero_activity) of
         None \<Rightarrow> Inl Slice_panic | Some h \<Rightarrow> Inr h)
   | Log_no_repository \<Rightarrow> Inr (\<lambda>_. zero_activity)
   | Log_failed \<Rightarrow> Inl Git_history_failed)"

section \<open>Activity report\<close>

record file_report =
  fr_total_time_ms :: int
  fr_lines_added :: int
  fr_lines_deleted :: int
  fr_recent_tools :: "string list"
  fr_session_history :: "string list"

text \<open>What reading and decoding the report file gave; the files in the iteration order of the map.\<close>

datatype report_file = No_report | Unreadable | Undecodable | Decoded int "(string \<times> file_report) list"

fun normalize_report :: "(string \<times> file_report) list \<Rightarrow> (string \<rightharpoonup> file_report) \<Rightarrow>
    activity_error + (string \<rightharpoonup> file_report)" where
  "normalize_report [] m = Inr m"
| "normalize_report ((raw, item) # rest) m =
     (let cleaned = path_clean (replace_all [backslash] ''/'' raw) in
      if cleaned = ''.'' \<or> cleaned = ''..'' \<or> has_prefix cleaned ''../'' \<or> is_abs cleaned
      then Inl (Report_path_outside raw)
      else if fr_total_time_ms item < 0 \<or> fr_lines_added item < 0 \<or> fr_lines_deleted item < 0
      then Inl (Report_negative raw)
      else normalize_report rest (m(cleaned \<mapsto> item)))"

definition read_report :: "report_file \<Rightarrow> activity_error + (string \<rightharpoonup> file_report)" where
  "read_report f = (case f of
     No_report \<Rightarrow> Inr Map.empty
   | Unreadable \<Rightarrow> Inl Report_unreadable
   | Undecodable \<Rightarrow> Inl Report_undecodable
   | Decoded version files \<Rightarrow> if version \<noteq> 1 then Inl (Report_version version) else normalize_report files Map.empty)"

section \<open>Directories\<close>

definition path_depth :: "string \<Rightarrow> nat" where
  "path_depth p = count_list p (CHR ''/'')"

definition merge_activity :: "node_activity \<Rightarrow> node_activity \<Rightarrow> node_activity" where
  "merge_activity parent child =
     (let p1 = parent\<lparr>na_access_count := add64 (na_access_count parent) (na_access_count child),
         na_total_time_ms := add64 (na_total_time_ms parent) (na_total_time_ms child),
         na_lines_added := add64 (na_lines_added parent) (na_lines_added child),
         na_lines_deleted := add64 (na_lines_deleted parent) (na_lines_deleted child),
         na_recent_tools := merge_tools [na_recent_tools parent, na_recent_tools child],
         na_session_history := merge_tools [na_session_history parent, na_session_history child]\<rparr>
      in if na_last_commit_at parent < na_last_commit_at child
         then p1\<lparr>na_group_key := na_group_key child, na_last_commit := na_last_commit child,
                 na_last_commit_at := na_last_commit_at child, na_last_event := na_last_event child,
                 na_confidence := na_confidence child\<rparr>
         else p1)"

definition add_to_parent :: "(string \<rightharpoonup> nat) \<Rightarrow> nat \<Rightarrow> node list \<Rightarrow> node list" where
  "add_to_parent index i ns =
     (let n = ns ! i in
      if nd_path n = ''.'' \<or> na_last_commit (nd_activity n) = [] then ns
      else case index (nd_parent_path n) of
        None \<Rightarrow> ns
      | Some j \<Rightarrow> ns[j := (ns ! j)\<lparr>nd_activity := merge_activity (nd_activity (ns ! j)) (nd_activity n)\<rparr>])"

text \<open>\<^verbatim>\<open>sort.Slice\<close> leaves nodes of one depth in any order, so the order is a parameter that must satisfy
  \<open>deepest_first\<close>.\<close>

definition deepest_first :: "node list \<Rightarrow> nat list \<Rightarrow> bool" where
  "deepest_first ns order \<longleftrightarrow> mset order = mset [0..<length ns] \<and>
     sorted_wrt (\<lambda>i j. path_depth (nd_path (ns ! j)) \<le> path_depth (nd_path (ns ! i))) order"

definition aggregate_directories :: "nat list \<Rightarrow> (string \<rightharpoonup> nat) \<Rightarrow> node list \<Rightarrow> node list" where
  "aggregate_directories order index ns = fold (add_to_parent index) order ns"

definition node_work :: "history \<Rightarrow> (string \<rightharpoonup> file_report) \<Rightarrow> node \<Rightarrow> node_activity" where
  "node_work h report n =
     (let a = h (nd_path n) in
      case report (nd_path n) of
        Some r \<Rightarrow> a\<lparr>na_total_time_ms := fr_total_time_ms r, na_lines_added := fr_lines_added r,
            na_lines_deleted := fr_lines_deleted r,
            na_recent_tools := merge_tools [fr_recent_tools r, na_recent_tools a],
            na_session_history := fr_session_history r, na_confidence := ''reported+git''\<rparr>
      | None \<Rightarrow> if na_last_commit a \<noteq> [] then a\<lparr>na_confidence := ''git-inferred''\<rparr> else a)"

text \<open>The last node of a path wins its index.\<close>

definition path_index :: "node list \<Rightarrow> (string \<rightharpoonup> nat)" where
  "path_index ns = fold (\<lambda>(i, n) m. m(nd_path n \<mapsto> i)) (enumerate 0 ns) Map.empty"

definition enrich :: "(string \<Rightarrow> string) \<Rightarrow> git_log \<Rightarrow> report_file \<Rightarrow> nat list \<Rightarrow> node list \<Rightarrow> activity_error + node list" where
  "enrich lower log f order ns =
     (case git_history lower log of
        Inl err \<Rightarrow> Inl err
      | Inr h \<Rightarrow>
          (case read_report f of
             Inl err \<Rightarrow> Inl err
           | Inr report \<Rightarrow>
               let out = map (\<lambda>n. n\<lparr>nd_activity := node_work h report n\<rparr>) ns
               in Inr (aggregate_directories order (path_index out) out)))"

section \<open>Properties\<close>

lemma merge_loop_take:
  "length res < 6 \<Longrightarrow> merge_loop seen res ts =
     take 6 (res @ keep_first id seen (filter (\<lambda>t. t \<noteq> []) (map trim_space ts)))"
proof (induction seen res ts rule: merge_loop.induct)
  case (2 seen res t ts)
  show ?case
  proof (cases "trim_space t \<noteq> [] \<and> trim_space t \<notin> seen")
    case True
    show ?thesis
    proof (cases "length (res @ [trim_space t]) = 6")
      case False
      with 2 True show ?thesis by (simp add: Let_def)
    qed (use True in \<open>simp add: Let_def\<close>)
  next
    case False
    with 2 show ?thesis by (auto simp: Let_def)
  qed
qed simp

text \<open>The loop that merges tool names computes the first six different names, trimmed and without
  empty ones, in the order in which they occur.\<close>

theorem merge_tools_first_six:
  "merge_tools groups = take 6 (keep_first id {} (filter (\<lambda>t. t \<noteq> []) (map trim_space (concat groups))))"
  using merge_loop_take [of "[]" "{}" "concat groups"] by (simp add: merge_tools_def)

lemma normalize_report_paths:
  "normalize_report files m = Inr m' \<Longrightarrow> m' p = Some r \<Longrightarrow>
   m p = Some r \<or> path_clean p = p \<and> p \<noteq> ''.'' \<and> p \<noteq> ''..'' \<and> \<not> has_prefix p ''../'' \<and> \<not> is_abs p \<and>
     0 \<le> fr_total_time_ms r \<and> 0 \<le> fr_lines_added r \<and> 0 \<le> fr_lines_deleted r"
proof (induction files m rule: normalize_report.induct)
  case (2 raw item rest m)
  let ?c = "path_clean (replace_all [backslash] ''/'' raw)"
  from 2(2) have ok: "\<not> (?c = ''.'' \<or> ?c = ''..'' \<or> has_prefix ?c ''../'' \<or> is_abs ?c)"
    "\<not> (fr_total_time_ms item < 0 \<or> fr_lines_added item < 0 \<or> fr_lines_deleted item < 0)"
    "normalize_report rest (m(?c \<mapsto> item)) = Inr m'"
    by (auto simp: Let_def split: if_splits)
  from 2(1) [OF refl ok 2(3)] ok show ?case by (auto simp: path_clean_idem split: if_splits)
qed simp

text \<open>An activity report that is accepted speaks of files of the project only, with metrics that are not
  negative.\<close>

theorem report_is_project_relative:
  assumes "read_report f = Inr report" and "report p = Some r"
  shows "path_clean p = p \<and> p \<noteq> ''.'' \<and> p \<noteq> ''..'' \<and> \<not> has_prefix p ''../'' \<and> \<not> is_abs p \<and>
    0 \<le> fr_total_time_ms r \<and> 0 \<le> fr_lines_added r \<and> 0 \<le> fr_lines_deleted r"
  using assms normalize_report_paths [of _ Map.empty report p r]
  by (auto simp: read_report_def split: report_file.splits if_splits)

definition long_letters :: string where
  "long_letters = concat (replicate 4 (bytes [0xC8, 0xBA]))"

lemma trim_space_id: "leading_space s = 0 \<Longrightarrow> trailing_space s = 0 \<Longrightarrow> trim_space s = s"
  by (simp add: trim_space_def trim_left.simps [of s] trim_right.simps [of s])

text \<open>A commit message can crash the program.  When lower-casing makes the text before the tag longer, as
  it does for the letter U+023A, the slice of the subject is out of range and the history, with it the
  whole enrichment, panics.\<close>

theorem tool_tag_panics:
  assumes "lower (long_letters @ ''[tool:x]'') = concat (replicate 4 (bytes [0xE2, 0xB1, 0xA5])) @ ''[tool:x]''"
  shows "git_history lower (Log_output ([CHR 0x1E] @ ''c1'' @ [CHR 0x1F] @ ''7'' @ [CHR 0x1F] @ long_letters @ ''[tool:x]'')) =
    Inl Slice_panic"
proof -
  have r: "split_char (CHR 0x1E) ([CHR 0x1E] @ ''c1'' @ [CHR 0x1F] @ ''7'' @ [CHR 0x1F] @ long_letters @ ''[tool:x]'') =
      [[], ''c1'' @ [CHR 0x1F] @ ''7'' @ [CHR 0x1F] @ long_letters @ ''[tool:x]'']"
    "split_n (CHR 0x1F) 3 [] = [[]]"
    "split_n (CHR 0x1F) 3 (''c1'' @ [CHR 0x1F] @ ''7'' @ [CHR 0x1F] @ long_letters @ ''[tool:x]'') =
      [''c1'', ''7'', long_letters @ ''[tool:x]'']"
    by code_simp+
  have "leading_space (long_letters @ ''[tool:x]'') = 0" "trailing_space (long_letters @ ''[tool:x]'') = 0"
    by code_simp+
  then have t: "trim_space (long_letters @ ''[tool:x]'') = long_letters @ ''[tool:x]''" by (rule trim_space_id)
  have nl: "split_char (CHR 0x0A) (long_letters @ ''[tool:x]'') = [long_letters @ ''[tool:x]'']" by code_simp
  have "index_of (concat (replicate 4 (bytes [0xE2, 0xB1, 0xA5])) @ ''[tool:x]'') ''[tool:'' = Some 12"
    "index_of (drop 12 (concat (replicate 4 (bytes [0xE2, 0xB1, 0xA5])) @ ''[tool:x]'')) '']'' = Some 7"
    "length (long_letters @ ''[tool:x]'') = 16"
    by code_simp+
  then have "infer_tools lower (long_letters @ ''[tool:x]'') = None" by (simp add: infer_tools_def assms)
  then have "commit_record lower (''c1'' @ [CHR 0x1F] @ ''7'' @ [CHR 0x1F] @ long_letters @ ''[tool:x]'') h = None" for h
    unfolding commit_record_def r(3) list.case Let_def t nl list.sel t
    by (simp only: option.map)
  then show ?thesis
    unfolding git_history_def git_log.case r(1) commit_records.simps commit_record_def [of lower "[]"] r(2)
    by (simp only: list.case option.case)
qed

theorem report_is_project_relative_witness:
  "path_clean ''a/b'' = ''a/b'' \<and> \<not> is_abs ''a/b''"
proof -
  let ?r = "\<lparr>fr_total_time_ms = 1, fr_lines_added = 2, fr_lines_deleted = 0, fr_recent_tools = [], fr_session_history = []\<rparr>"
  have "path_clean (replace_all [backslash] ''/'' ''a//b'') = ''a/b''" by code_simp
  then have "read_report (Decoded 1 [(''a//b'', ?r)]) = Inr [''a/b'' \<mapsto> ?r]"
    by (simp add: read_report_def is_abs_def has_prefix_def)
  from report_is_project_relative [OF this, of "''a/b''" ?r] show ?thesis by simp
qed

theorem tool_tag_panics_witness:
  "git_history (\<lambda>s. if s = long_letters @ ''[tool:x]'' then concat (replicate 4 (bytes [0xE2, 0xB1, 0xA5])) @ ''[tool:x]'' else s)
     (Log_output ([CHR 0x1E] @ ''c1'' @ [CHR 0x1F] @ ''7'' @ [CHR 0x1F] @ long_letters @ ''[tool:x]'')) = Inl Slice_panic"
  by (rule tool_tag_panics) simp

end
