(* ===== verification/Go_Time.thy ===== *)
theory Go_Time
  imports Prelude
begin

text \<open>
  The calendar text of an instant, as \<^verbatim>\<open>Time.UTC().Format\<close> prints it for \<^verbatim>\<open>time.RFC3339Nano\<close>
  (trailing zeros of the fraction, and the point when nothing is left, are dropped) and for the layout of
  quarantined files, for the years 0 to 9999.
\<close>

abbreviation day_ns :: int where "day_ns \<equiv> 86400 * second"

text \<open>Year, month and day of the day number counted from 1 January of year 1, by cycles of 400 years that start in
  March.\<close>

definition civil :: "int \<Rightarrow> int \<times> int \<times> int" where
  "civil days =
     (let z = days + 306;
          era = z div 146097;
          doe = z mod 146097;
          yoe = (doe - doe div 1460 + doe div 36524 - doe div 146096) div 365;
          doy = doe - (365 * yoe + yoe div 4 - yoe div 100);
          mp = (5 * doy + 2) div 153;
          d = doy - (153 * mp + 2) div 5 + 1;
          m = (if mp < 10 then mp + 3 else mp - 9)
      in (yoe + era * 400 + (if m \<le> 2 then 1 else 0), m, d))"

text \<open>The last \<open>n\<close> decimal digits, leading zeros included.\<close>

fun pad :: "nat \<Rightarrow> int \<Rightarrow> string" where
  "pad 0 i = []"
| "pad (Suc n) i = pad n (i div 10) @ [digit_char (nat (i mod 10))]"

definition date_text :: "string \<Rightarrow> int \<Rightarrow> string" where
  "date_text sep days = (case civil days of (y, m, d) \<Rightarrow> pad 4 y @ sep @ pad 2 m @ sep @ pad 2 d)"

definition clock_text :: "string \<Rightarrow> int \<Rightarrow> string" where
  "clock_text sep secs = pad 2 (secs div 3600) @ sep @ pad 2 (secs div 60 mod 60) @ sep @ pad 2 (secs mod 60)"

fun drop_zeros :: "string \<Rightarrow> string" where
  "drop_zeros s = (if s \<noteq> [] \<and> last s = CHR ''0'' then drop_zeros (butlast s) else s)"

declare drop_zeros.simps [simp del]

definition fraction_text :: "int \<Rightarrow> string" where
  "fraction_text ns = (if ns = 0 then [] else ''.'' @ drop_zeros (pad 9 ns))"

definition rfc3339_nano :: "gotime \<Rightarrow> string" where
  "rfc3339_nano t =
     date_text ''-'' (t div day_ns) @ ''T'' @ clock_text '':'' (t mod day_ns div second) @
     fraction_text (t mod second) @ ''Z''"

definition compact_stamp :: "gotime \<Rightarrow> string" where
  "compact_stamp t =
     date_text [] (t div day_ns) @ ''T'' @ clock_text [] (t mod day_ns div second) @ ''.'' @ pad 9 (t mod second) @ ''Z''"

text \<open>A date and a time of day as an instant.\<close>

definition at_day :: "int \<Rightarrow> int \<Rightarrow> int \<Rightarrow> gotime" where
  "at_day days secs ns = days * day_ns + secs * second + ns"

lemma civil_examples:
  "civil 0 = (1, 1, 1)" "civil 719162 = (1970, 1, 1)" "civil 739674 = (2026, 2, 28)" "civil 738944 = (2024, 2, 29)"
  "civil 3652058 = (9999, 12, 31)"
  by code_simp+

lemma date_examples:
  "date_text ''-'' 0 = ''0001-01-01''" "date_text ''-'' 739674 = ''2026-02-28''" "date_text [] 738944 = ''20240229''"
  by code_simp+

lemma stamp_examples:
  "rfc3339_nano 0 = ''0001-01-01T00:00:00Z''"
  "rfc3339_nano (at_day 739674 61 0) = ''2026-02-28T00:01:01Z''"
  "rfc3339_nano (at_day 739674 61 500000000) = ''2026-02-28T00:01:01.5Z''"
  "compact_stamp (at_day 738944 86399 20) = ''20240229T235959.000000020Z''"
  by code_simp+

text \<open>The instants \<^verbatim>\<open>Time.MarshalJSON\<close> accepts: those of the years 0 to 9999.\<close>

definition json_time_ok :: "gotime \<Rightarrow> bool" where
  "json_time_ok t \<longleftrightarrow> - 366 * day_ns \<le> t \<and> t < 3652059 * day_ns"

end
