(* ===== verification/Store.thy ===== *)
theory Store
  imports Replay_Props Security Go_Time
begin

text \<open>
  \<^verbatim>\<open>internal/store/store.go\<close>: the journal of events and the session rows.  SQLite is modelled by its
  tables: a statement either takes effect or, when the oracle \<open>fault\<close> says so, fails without effect; a transaction
  takes effect as a whole or not at all.  A JSON column holds the value its text decodes to, or nothing when it does
  not decode.
\<close>

section \<open>What JSON keeps\<close>

text \<open>A number becomes a float, a list of strings a list of values, a byte that is no character U+FFFD.  A float is
  given by the decimal in the text; trailing zeros move to the exponent.\<close>

function strip_zeros :: "nat \<Rightarrow> int \<Rightarrow> nat \<times> int" where
  "strip_zeros n x = (if n = 0 then (0, 0) else if n mod 10 = 0 then strip_zeros (n div 10) (x + 1) else (n, x))"
  by pat_completeness auto
termination
  by (relation "measure fst") auto

declare strip_zeros.simps [simp del]

definition int_float :: "int \<Rightarrow> gofloat" where
  "int_float i = (case strip_zeros (nat \<bar>i\<bar>) 0 of (d, x) \<Rightarrow> FNum (i < 0) d x)"

primrec json_value :: "mvalue \<Rightarrow> mvalue" where
  "json_value MNull = MNull"
| "json_value (MBool b) = MBool b"
| "json_value (MInt i) = MFloat64 (int_float i)"
| "json_value (MSized i) = MFloat64 (int_float i)"
| "json_value (MFloat32 f) = MFloat64 f"
| "json_value (MFloat64 f) = MFloat64 f"
| "json_value (MString s) = MString (json_repaired s)"
| "json_value (MStrings ss) = MList (map (\<lambda>s. MString (json_repaired s)) ss)"
| "json_value (MList vs) = MList (map json_value vs)"
| "json_value (MMap kvs) = MMap (map (\<lambda>(k, v). (json_repaired k, v)) (map (map_prod id json_value) kvs))"
| "json_value MOpaque = MNull"

text \<open>\<^verbatim>\<open>json.Marshal\<close> of a valid event, seen through \<^verbatim>\<open>json.Unmarshal\<close>: all its strings are valid UTF-8, so only the
  metadata change; a time outside the years 0 to 9999 or a value JSON cannot express is an error.\<close>

definition marshal_event :: "event \<Rightarrow> event option" where
  "marshal_event e =
     (if \<not> json_time_ok (timestamp e) \<or> ev_metadata e \<noteq> [] \<and> json_encode (MMap (ev_metadata e)) = None then None
      else Some (e\<lparr>ev_metadata := map (map_prod json_repaired json_value) (ev_metadata e)\<rparr>))"

text \<open>The state's unexported fields are not written, so they come back as zero.\<close>

definition json_interval :: "interval \<Rightarrow> interval" where
  "json_interval iv = iv\<lparr>iv_node_id := json_repaired (iv_node_id iv), iv_path := json_repaired (iv_path iv),
     iv_operations := map json_repaired (iv_operations iv), iv_agent_id := json_repaired (iv_agent_id iv),
     iv_work_status := json_repaired (iv_work_status iv), iv_work_source := json_repaired (iv_work_source iv)\<rparr>"

definition state_times :: "state \<Rightarrow> gotime list" where
  "state_times s = st_started_at s # st_active_timestamp s #
     (case st_stopped_at s of None \<Rightarrow> [] | Some t \<Rightarrow> [t]) @
     concat (map (\<lambda>iv. iv_started_at iv # (case iv_ended_at iv of None \<Rightarrow> [] | Some t \<Rightarrow> [t])) (st_intervals s))"

definition marshal_state :: "state \<Rightarrow> state option" where
  "marshal_state s =
     (if \<not> list_all json_time_ok (state_times s) then None
      else Some (s\<lparr>st_session_id := json_repaired (st_session_id s), st_active_path := json_repaired (st_active_path s),
        st_active_node_id := json_repaired (st_active_node_id s), st_previous_path := json_repaired (st_previous_path s),
        st_previous_node_id := json_repaired (st_previous_node_id s),
        st_secondary_paths := map json_repaired (st_secondary_paths s),
        st_active_operation := json_repaired (st_active_operation s), st_intervals := map json_interval (st_intervals s),
        st_current_priority := 0, st_current_timestamp := 0\<rparr>))"

section \<open>Tables\<close>

record event_row =
  er_sequence :: int
  er_event_id :: string
  er_session_id :: string
  er_timestamp :: string
  er_event_type :: event_type
  er_path :: string
  er_confidence :: confidence
  er_json :: "event option"

record session_row =
  sr_id :: string
  sr_project_id :: "string option"
  sr_started_at :: string
  sr_stopped_at :: "string option"
  sr_status :: string
  sr_json :: "state option"

record project_row =
  pr_id :: string
  pr_root :: string
  pr_updated_at :: string

record database =
  db_events :: "event_row list"
  db_next_sequence :: int
  db_sessions :: "session_row list"
  db_projects :: "project_row list"

definition empty_database :: database where
  "empty_database = \<lparr>db_events = [], db_next_sequence = 1, db_sessions = [], db_projects = []\<rparr>"

datatype store_error =
    Invalid_stored verror
  | Encode_failed
  | Database_failed
  | Corrupt_record int
  | Corrupt_session
  | Project_required
  | No_such_session

section \<open>Events\<close>

definition save_event :: "bool \<Rightarrow> database \<Rightarrow> event \<Rightarrow> database \<times> store_error option" where
  "save_event fault db e0 =
     (case validate e0 of
        Some err \<Rightarrow> (db, Some (Invalid_stored err))
      | None \<Rightarrow>
          let e = sanitize_event e0 in
          (case marshal_event e of
             None \<Rightarrow> (db, Some Encode_failed)
           | Some payload \<Rightarrow>
               if fault then (db, Some Database_failed)
               else if event_id e \<in> er_event_id ` set (db_events db) then (db, None)
               else (db\<lparr>db_events := db_events db @ [\<lparr>er_sequence = db_next_sequence db, er_event_id = event_id e,
                        er_session_id = session_id e, er_timestamp = rfc3339_nano (timestamp e),
                        er_event_type = event_type e, er_path = ev_path e, er_confidence = source_confidence e,
                        er_json = Some payload\<rparr>],
                      db_next_sequence := db_next_sequence db + 1\<rparr>, None)))"

fun load_rows :: "event_row list \<Rightarrow> store_error + event list" where
  "load_rows [] = Inr []"
| "load_rows (r # rs) =
     (case er_json r of
        None \<Rightarrow> Inl (Corrupt_record (er_sequence r))
      | Some e \<Rightarrow>
          if validate e \<noteq> None then Inl (Corrupt_record (er_sequence r))
          else (case load_rows rs of Inl err \<Rightarrow> Inl err | Inr es \<Rightarrow> Inr (e # es)))"

definition load_events :: "bool \<Rightarrow> database \<Rightarrow> string \<Rightarrow> store_error + event list" where
  "load_events fault db i =
     (if fault then Inl Database_failed
      else (case load_rows (filter (\<lambda>r. er_session_id r = i) (db_events db)) of
          Inl err \<Rightarrow> Inl err
        | Inr es \<Rightarrow> Inr (sort_slice event_less es)))"

section \<open>Projects and sessions\<close>

text \<open>The statement fails when another project has the root, and a session row when its project does not exist.\<close>

definition ensure_project :: "bool \<Rightarrow> database \<Rightarrow> string \<Rightarrow> string \<Rightarrow> gotime \<Rightarrow> database \<times> store_error option" where
  "ensure_project fault db i root now =
     (if i = [] \<or> root = [] then (db, Some Project_required)
      else if fault \<or> list_ex (\<lambda>p. pr_id p \<noteq> i \<and> pr_root p = root) (db_projects db) then (db, Some Database_failed)
      else if i \<in> pr_id ` set (db_projects db)
      then (db\<lparr>db_projects := map (\<lambda>p. if pr_id p = i then p\<lparr>pr_root := root, pr_updated_at := rfc3339_nano now\<rparr> else p)
              (db_projects db)\<rparr>, None)
      else (db\<lparr>db_projects := db_projects db @ [\<lparr>pr_id = i, pr_root = root, pr_updated_at = rfc3339_nano now\<rparr>]\<rparr>, None))"

definition null_string :: "string \<Rightarrow> string option" where
  "null_string s = (if trim_space s = [] then None else Some s)"

definition session_status :: "state \<Rightarrow> string" where
  "session_status s = (if st_stopped_at s \<noteq> None then ''stopped'' else if st_paused s then ''paused'' else ''active'')"

definition put_row :: "session_row \<Rightarrow> session_row list \<Rightarrow> session_row list" where
  "put_row r rows =
     (if sr_id r \<in> sr_id ` set rows
      then map (\<lambda>q. if sr_id q = sr_id r
             then q\<lparr>sr_stopped_at := sr_stopped_at r, sr_status := sr_status r, sr_json := sr_json r\<rparr> else q) rows
      else rows @ [r])"

definition save_session :: "bool \<Rightarrow> database \<Rightarrow> state \<Rightarrow> string \<Rightarrow> database \<times> store_error option" where
  "save_session fault db s project =
     (case marshal_state s of
        None \<Rightarrow> (db, Some Encode_failed)
      | Some payload \<Rightarrow>
          if fault \<or> (case null_string project of None \<Rightarrow> False | Some p \<Rightarrow> p \<notin> pr_id ` set (db_projects db))
          then (db, Some Database_failed)
          else (db\<lparr>db_sessions := put_row
                  \<lparr>sr_id = st_session_id s, sr_project_id = null_string project, sr_started_at = rfc3339_nano (st_started_at s),
                   sr_stopped_at = map_option rfc3339_nano (st_stopped_at s), sr_status = session_status s,
                   sr_json = Some payload\<rparr> (db_sessions db)\<rparr>, None))"

definition load_session :: "bool \<Rightarrow> database \<Rightarrow> string \<Rightarrow> store_error + state" where
  "load_session fault db i =
     (if fault then Inl Database_failed
      else case List.find (\<lambda>r. sr_id r = i) (db_sessions db) of
        None \<Rightarrow> Inl No_such_session
      | Some r \<Rightarrow> (case sr_json r of None \<Rightarrow> Inl Corrupt_session | Some s \<Rightarrow> Inr s))"

text \<open>\<^verbatim>\<open>ORDER BY started_at DESC\<close> compares the text of the column.\<close>

definition newer_text :: "session_row \<Rightarrow> session_row \<Rightarrow> bool" where
  "newer_text a b \<longleftrightarrow> sr_started_at b < sr_started_at a"

definition list_sessions :: "database \<Rightarrow> string \<Rightarrow> session_row list" where
  "list_sessions db project = sort_slice newer_text (filter (\<lambda>r. sr_project_id r = Some project) (db_sessions db))"

section \<open>Recovery of active sessions\<close>

definition close_stale_interval :: "state \<Rightarrow> gotime \<Rightarrow> duration \<Rightarrow> state \<times> gotime" where
  "close_stale_interval s observed idle =
     (if st_intervals s = [] then (s, observed)
      else
        let iv = last (st_intervals s) in
        case iv_ended_at iv of
          Some t \<Rightarrow> (s, t)
        | None \<Rightarrow>
            let limit = iv_started_at iv + idle;
                at1 = (if limit < observed then limit else observed);
                at2 = (if at1 < iv_started_at iv then iv_started_at iv else at1)
            in (s\<lparr>st_intervals := butlast (st_intervals s) @
                   [iv\<lparr>iv_ended_at := Some at2, iv_duration := time_sub at2 (iv_started_at iv)\<rparr>]\<rparr>, at2))"

definition recover_state :: "state \<Rightarrow> gotime \<Rightarrow> state" where
  "recover_state s0 at =
     (case close_stale_interval s0 at default_idle_timeout of
        (s, recovered_at) \<Rightarrow> s\<lparr>st_stopped_at := Some recovered_at, st_paused := False\<rparr>)"

definition is_active_row :: "session_row \<Rightarrow> bool" where
  "is_active_row r \<longleftrightarrow> sr_status r = ''active'' \<or> sr_status r = ''paused''"

definition recover_row :: "gotime \<Rightarrow> session_row \<Rightarrow> store_error + session_row" where
  "recover_row at r =
     (case sr_json r of
        None \<Rightarrow> Inl Corrupt_session
      | Some s0 \<Rightarrow>
          let s = recover_state s0 at in
          (case marshal_state s of
             None \<Rightarrow> Inl Encode_failed
           | Some payload \<Rightarrow> Inr (r\<lparr>sr_stopped_at := map_option rfc3339_nano (st_stopped_at s),
               sr_status := ''recovered'', sr_json := Some payload\<rparr>)))"

fun recover_rows :: "gotime \<Rightarrow> session_row list \<Rightarrow> store_error + session_row list" where
  "recover_rows at [] = Inr []"
| "recover_rows at (r # rs) =
     (case (if is_active_row r then recover_row at r else Inr r) of
        Inl err \<Rightarrow> Inl err
      | Inr q \<Rightarrow> (case recover_rows at rs of Inl err \<Rightarrow> Inl err | Inr qs \<Rightarrow> Inr (q # qs)))"

text \<open>The whole operation: every row is prepared before the transaction, which is applied only when no
  statement fails.  Rows are updated by their id, the primary key.\<close>

definition recover_active_sessions :: "bool \<Rightarrow> database \<Rightarrow> gotime \<Rightarrow> database \<times> (store_error + nat)" where
  "recover_active_sessions fault db at =
     (case recover_rows at (db_sessions db) of
        Inl err \<Rightarrow> (db, Inl err)
      | Inr rows \<Rightarrow>
          if fault then (db, Inl Database_failed)
          else (db\<lparr>db_sessions := rows\<rparr>, Inr (length (filter is_active_row (db_sessions db)))))"

section \<open>The journal\<close>

fun save_all :: "database \<Rightarrow> (bool \<times> event) list \<Rightarrow> database" where
  "save_all db [] = db"
| "save_all db ((fault, e) # es) = save_all (fst (save_event fault db e)) es"

definition row_of :: "event_row \<Rightarrow> bool" where
  "row_of r \<longleftrightarrow> (case er_json r of None \<Rightarrow> False | Some e \<Rightarrow> event_id e = er_event_id r \<and> session_id e = er_session_id r)"

definition journal_ok :: "database \<Rightarrow> bool" where
  "journal_ok db \<longleftrightarrow> distinct (map er_event_id (db_events db)) \<and> list_all row_of (db_events db)"

lemma marshal_event_ids: "marshal_event e = Some p \<Longrightarrow> event_id p = event_id e \<and> session_id p = session_id e"
  by (auto simp: marshal_event_def split: if_splits)

lemma save_event_journal: "journal_ok db \<Longrightarrow> journal_ok (fst (save_event fault db e))"
  by (auto simp: save_event_def Let_def journal_ok_def row_of_def dest!: marshal_event_ids split: option.splits)

lemma save_all_journal: "journal_ok db \<Longrightarrow> journal_ok (save_all db es)"
  by (induction db es rule: save_all.induct) (simp_all add: save_event_journal)

text \<open>What the journal should hold after a run of saves, told without tables: the saves that were not hit by a fault and
  whose event is valid, each as its JSON text reads back, of several with one identifier the first.\<close>

definition written_event :: "bool \<times> event \<Rightarrow> event option" where
  "written_event fe = (case fe of (fault, e) \<Rightarrow> if fault \<or> validate e \<noteq> None then None else marshal_event (sanitize_event e))"

definition saved_events :: "(bool \<times> event) list \<Rightarrow> event list" where
  "saved_events fes = keep_first event_id {} (List.map_filter written_event fes)"

definition stored :: "database \<Rightarrow> event option list" where
  "stored db = map er_json (db_events db)"

lemma save_event_rows:
  "db_events (fst (save_event fault db e)) =
     (case written_event (fault, e) of
        None \<Rightarrow> db_events db
      | Some p \<Rightarrow> if event_id p \<in> er_event_id ` set (db_events db) then db_events db
          else db_events db @ [\<lparr>er_sequence = db_next_sequence db, er_event_id = event_id p, er_session_id = session_id p,
            er_timestamp = rfc3339_nano (timestamp (sanitize_event e)), er_event_type = event_type (sanitize_event e),
            er_path = ev_path (sanitize_event e), er_confidence = source_confidence (sanitize_event e), er_json = Some p\<rparr>])"
proof (cases "marshal_event (sanitize_event e)")
  case (Some p)
  with marshal_event_ids [OF Some] show ?thesis
    by (auto simp: save_event_def written_event_def Let_def split: option.splits)
qed (auto simp: save_event_def written_event_def Let_def split: option.splits)

lemma save_all_stored:
  "stored (save_all db fes) =
     stored db @ map Some (keep_first event_id (er_event_id ` set (db_events db)) (List.map_filter written_event fes))"
proof (induction db fes rule: save_all.induct)
  case (2 db fault e es)
  show ?case
  proof (cases "written_event (fault, e)")
    case None
    then have "db_events (fst (save_event fault db e)) = db_events db" by (simp add: save_event_rows)
    with 2 None show ?thesis by (simp add: stored_def List.map_filter_simps)
  next
    case (Some p)
    then show ?thesis
      using 2 by (cases "event_id p \<in> er_event_id ` set (db_events db)")
        (simp_all add: stored_def save_event_rows List.map_filter_simps)
  qed
qed (simp add: List.map_filter_simps)

lemma session_stored:
  assumes "list_all row_of rs"
  shows "map er_json (filter (\<lambda>r. er_session_id r = i) rs) = filter (\<lambda>j. case j of None \<Rightarrow> False | Some e \<Rightarrow> session_id e = i) (map er_json rs)"
  using assms by (induction rs) (auto simp: row_of_def split: option.splits)

lemma session_saved:
  "map er_json (filter (\<lambda>r. er_session_id r = i) (db_events (save_all empty_database fes))) =
     map Some (filter (\<lambda>e. session_id e = i) (saved_events fes))"
proof -
  have j: "journal_ok (save_all empty_database fes)" by (rule save_all_journal) (simp add: journal_ok_def empty_database_def)
  have "map er_json (db_events (save_all empty_database fes)) = map Some (saved_events fes)"
    using save_all_stored [of empty_database fes] by (simp add: stored_def saved_events_def empty_database_def)
  with session_stored [of "db_events (save_all empty_database fes)" i] j show ?thesis
    by (simp add: journal_ok_def filter_map comp_def)
qed

lemma load_rows_saved:
  "map er_json rs = map Some es \<Longrightarrow>
   load_rows rs = Inr es \<and> (\<forall>e \<in> set es. validate e = None) \<or>
   (\<exists>q. load_rows rs = Inl (Corrupt_record q)) \<and> (\<exists>e \<in> set es. validate e \<noteq> None)"
proof (induction rs arbitrary: es)
  case (Cons r rs)
  then obtain e es' where e: "es = e # es'" "er_json r = Some e" "map er_json rs = map Some es'" by (cases es) auto
  with Cons.IH [OF e(3)] show ?case by (cases "validate e") auto
qed simp

lemma sorted_canonical:
  assumes "distinct (map event_id es)"
  shows "canonical_events (sort_slice event_less es) = sort_slice event_less es"
proof -
  let ?es = "sort_slice event_less es"
  have "mset ?es = mset es" by simp
  then have "distinct (map event_id ?es)" using assms by (metis mset_eq_imp_distinct_iff mset_map)
  then have "keep_first event_id {} ?es = ?es" by (intro keep_first_id) auto
  moreover have "sort_slice replay_less ?es = ?es"
    using event_sort.sorted_sort_slice [of es] by (simp add: replay_less_eq event_sort.sort_slice_id)
  ultimately show ?thesis by (simp add: canonical_events_def)
qed

text \<open>C17: the timeline the desktop shows and the replay count alike.  After any run of saves, reading a session either
  gives exactly its saved events, each once and none missing, all valid and already in the canonical order of the replay,
  so position \<open>n\<close> of the timeline is cursor \<open>n\<close>; or it is an error that names a record, and this only when a saved event
  does not validate as read back.  Saved events are those whose save was not hit by a fault and that were valid, sanitized and
  as their JSON text reads back, of several with one identifier the first.\<close>

theorem timeline_is_replay_order:
  "case load_events False (save_all empty_database fes) i of
     Inr es \<Rightarrow> mset es = mset (filter (\<lambda>e. session_id e = i) (saved_events fes)) \<and> distinct (map event_id es) \<and>
       (\<forall>e \<in> set es. validate e = None) \<and> canonical_events es = es
   | Inl err \<Rightarrow> (\<exists>q. err = Corrupt_record q) \<and> (\<exists>e \<in> set (saved_events fes). session_id e = i \<and> validate e \<noteq> None)"
proof -
  let ?es = "filter (\<lambda>e. session_id e = i) (saved_events fes)"
  have d: "distinct (map event_id ?es)"
    unfolding saved_events_def by (rule distinct_map_filter) (rule keep_first_distinct)
  then have "distinct (map event_id (sort_slice event_less ?es))"
    by (metis mset_eq_imp_distinct_iff mset_map mset_sort_slice)
  with load_rows_saved [OF session_saved [of i fes]] sorted_canonical [OF d] show ?thesis
    by (auto simp: load_events_def simp del: not_None_eq) blast
qed

text \<open>A damaged record is never skipped silently.  When some record of a session does not decode, or
  decodes to an event that is not valid, reading the session is an error that names a record.\<close>

theorem corrupt_record_is_reported:
  assumes "r \<in> set (db_events db)" and "er_session_id r = i"
    and "\<And>e. er_json r = Some e \<Longrightarrow> validate e \<noteq> None"
  shows "\<exists>err. load_events fault db i = Inl err \<and> (err = Database_failed \<or> (\<exists>q \<in> set (db_events db). err = Corrupt_record (er_sequence q)))"
proof -
  have bad: "\<exists>q \<in> set rs. load_rows rs = Inl (Corrupt_record (er_sequence q))" if "r \<in> set rs" for rs
    using that assms(3) by (induction rs) (auto split: option.splits sum.splits)
  have "r \<in> set (filter (\<lambda>r. er_session_id r = i) (db_events db))" using assms(1,2) by simp
  from bad [OF this] obtain q where "q \<in> set (db_events db)"
    "load_rows (filter (\<lambda>r. er_session_id r = i) (db_events db)) = Inl (Corrupt_record (er_sequence q))"
    by auto
  then show ?thesis by (auto simp: load_events_def)
qed

section \<open>Recovery\<close>

lemma close_stale_interval_close:
  "st_intervals (fst (close_stale_interval s at idle)) = st_intervals (close_current idle s at)"
  by (auto simp: close_stale_interval_def close_current_def current_def set_current_def Let_def split: option.splits)

text \<open>C18: recovering a session after a crash closes it as the engine would have: the intervals are those of
  the engine's own closing with the default idle time, so they stay well formed and none stays open, and the
  session is stopped when its last interval ends.\<close>

theorem recovery_closes_as_engine:
  assumes "wf_intervals default_idle_timeout (st_intervals s)"
  shows "st_intervals (recover_state s at) = st_intervals (close_current default_idle_timeout s at) \<and>
    wf_intervals default_idle_timeout (st_intervals (recover_state s at)) \<and>
    list_all closed (st_intervals (recover_state s at)) \<and>
    st_stopped_at (recover_state s at) = (if st_intervals s = [] then Some at
      else iv_ended_at (last (st_intervals (recover_state s at)))) \<and> \<not> st_paused (recover_state s at)"
proof -
  have eq: "st_intervals (recover_state s at) = st_intervals (close_current default_idle_timeout s at)"
    using close_stale_interval_close [of s at default_idle_timeout] by (auto simp: recover_state_def split: prod.splits)
  have "0 \<le> default_idle_timeout" "default_idle_timeout \<le> int64_max" by (simp_all add: default_idle_timeout_def)
  note wf = close_current_wf [OF assms this, of at]
  have "st_stopped_at (recover_state s at) = (if st_intervals s = [] then Some at
      else iv_ended_at (last (st_intervals (recover_state s at))))"
    by (auto simp: recover_state_def close_stale_interval_def Let_def split: option.splits)
  moreover have "\<not> st_paused (recover_state s at)" by (simp add: recover_state_def split: prod.splits)
  ultimately show ?thesis using wf(1,2) eq by simp
qed

lemma recover_row_status: "recover_row at r = Inr q \<Longrightarrow> sr_status q = ''recovered'' \<and> sr_id q = sr_id r"
  by (auto simp: recover_row_def Let_def split: option.splits)

lemma recover_rows_Inr:
  "recover_rows at rs = Inr qs \<Longrightarrow> list_all (\<lambda>q. \<not> is_active_row q) qs \<and> map sr_id qs = map sr_id rs \<and>
   filter (\<lambda>q. sr_status q \<noteq> ''recovered'') qs = filter (\<lambda>r. \<not> is_active_row r \<and> sr_status r \<noteq> ''recovered'') rs"
proof (induction rs arbitrary: qs)
  case (Cons r rs)
  then obtain q qs' where q: "(if is_active_row r then recover_row at r else Inr r) = Inr q" "recover_rows at rs = Inr qs'"
    "qs = q # qs'" by (auto split: sum.splits)
  with Cons.IH [OF q(2)] recover_row_status [of at r q] show ?case
    by (cases "is_active_row r") (auto simp: is_active_row_def)
qed simp

text \<open>Recovery is all or nothing.  After an error the database is unchanged; after success no session is active or
  paused, no session was lost, and the others are untouched.\<close>

theorem recovery_is_atomic:
  "case recover_active_sessions fault db at of
     (db', Inl err) \<Rightarrow> db' = db
   | (db', Inr n) \<Rightarrow> list_all (\<lambda>q. \<not> is_active_row q) (db_sessions db') \<and>
       map sr_id (db_sessions db') = map sr_id (db_sessions db) \<and> db_events db' = db_events db \<and>
       filter (\<lambda>q. sr_status q \<noteq> ''recovered'') (db_sessions db') =
         filter (\<lambda>r. \<not> is_active_row r \<and> sr_status r \<noteq> ''recovered'') (db_sessions db)"
  using recover_rows_Inr [of at "db_sessions db"]
  by (simp add: recover_active_sessions_def split: sum.splits)

section \<open>The order of the session list\<close>

definition plain_row :: "string \<Rightarrow> gotime \<Rightarrow> session_row" where
  "plain_row i at = \<lparr>sr_id = i, sr_project_id = Some ''p'', sr_started_at = rfc3339_nano at, sr_stopped_at = None,
     sr_status = ''active'', sr_json = Some (zero_state\<lparr>st_session_id := i, st_started_at := at\<rparr>)\<rparr>"

text \<open>The session list is not always newest first.  The column is compared as text, and a time on a full second
  has no fraction: its final \<^verbatim>\<open>Z\<close> sorts after the point of a later time within the same second.\<close>

theorem sessions_out_of_order:
  "let older = plain_row ''older'' (at_day 739674 61 0); newer = plain_row ''newer'' (at_day 739674 61 500000000)
   in map sr_id (list_sessions (empty_database\<lparr>db_sessions := [newer, older]\<rparr>) ''p'') = [''older'', ''newer''] \<and>
      at_day 739674 61 0 < at_day 739674 61 500000000"
proof -
  have "newer_text (plain_row ''older'' (at_day 739674 61 0)) (plain_row ''newer'' (at_day 739674 61 500000000))"
    "\<not> newer_text (plain_row ''newer'' (at_day 739674 61 500000000)) (plain_row ''older'' (at_day 739674 61 0))"
    by (simp_all add: newer_text_def plain_row_def stamp_examples)
  then show ?thesis
    by (simp add: Let_def list_sessions_def empty_database_def at_day_def plain_row_def)
qed

text \<open>A save that fails, one that succeeds and a redelivery.\<close>

theorem timeline_is_replay_order_witness:
  "load_events False (save_all empty_database [(True, sample_start), (False, sample_start), (False, sample_start)]) (session_id sample_start) =
     Inr [sample_start] \<and> canonical_events [sample_start] = [sample_start]"
proof -
  let ?fes = "[(True, sample_start), (False, sample_start), (False, sample_start)]"
  have v: "validate sample_start = None" using sample_events_valid by (simp add: sample_events_def)
  have op: "label ''op'' 64 = ''op''" by code_simp
  have s: "sanitize_event sample_start = sample_start"
    by (simp add: sanitize_event_def sample_start_def sample_event_def zero_event_def label_Nil op sanitize_metadata_def List.map_filter_simps)
  have m: "marshal_event sample_start = Some sample_start"
    by (simp add: marshal_event_def sample_start_def sample_event_def zero_event_def json_time_ok_def)
  have "load_events False (save_all empty_database ?fes) (session_id sample_start) = Inr [sample_start]"
    by (simp add: save_event_def load_events_def empty_database_def v s m)
  with timeline_is_replay_order [of ?fes "session_id sample_start"] show ?thesis by simp
qed

theorem corrupt_record_is_reported_witness:
  "\<exists>err. load_events False (empty_database\<lparr>db_events := [\<lparr>er_sequence = 1, er_event_id = ''e'', er_session_id = ''s'',
     er_timestamp = [], er_event_type = File_read, er_path = [], er_confidence = Conf_exact, er_json = None\<rparr>]\<rparr>) ''s'' = Inl err"
  using corrupt_record_is_reported [of _ "empty_database\<lparr>db_events := [\<lparr>er_sequence = 1, er_event_id = ''e'', er_session_id = ''s'',
     er_timestamp = [], er_event_type = File_read, er_path = [], er_confidence = Conf_exact, er_json = None\<rparr>]\<rparr>" "''s''" False]
  by fastforce

definition crashed_state :: state where
  "crashed_state = zero_state\<lparr>st_session_id := ''s'', st_intervals := [open_interval zero_state
     (zero_event\<lparr>ev_path := ''a'', timestamp := 7\<rparr>)]\<rparr>"

theorem recovery_closes_as_engine_witness:
  "list_all closed (st_intervals (recover_state crashed_state 9)) \<and> st_stopped_at (recover_state crashed_state 9) = Some 9"
proof -
  have wf: "wf_intervals default_idle_timeout (st_intervals crashed_state)"
    by (simp add: crashed_state_def open_interval_def wf_intervals_def wf_interval_def zero_state_def zero_event_def)
  have "st_stopped_at (recover_state crashed_state 9) = Some 9"
    by (simp add: recover_state_def close_stale_interval_def crashed_state_def open_interval_def zero_state_def zero_event_def
        default_idle_timeout_def)
  with conjunct1 [OF conjunct2 [OF conjunct2 [OF recovery_closes_as_engine [OF wf, of 9]]]] show ?thesis ..
qed

end
