(* ===== verification/Store_Recovery.thy ===== *)
theory Store_Recovery
  imports Go_Time Go_Text Project_Scan
begin

text \<open>
  The opening of the database in \<^verbatim>\<open>internal/store/store.go\<close>: the integrity check, the migrations and the
  quarantine of a corrupt file.  The driver's answers are parameters; the directory is an association list from
  paths to contents, and \<open>bad\<close> tells the paths on which the operating system reports an error.
\<close>

section \<open>Integrity and migrations\<close>

definition is_corruption :: "string option \<Rightarrow> bool" where
  "is_corruption err = (case err of
     None \<Rightarrow> False
   | Some text \<Rightarrow>
       let message = to_lower text in
       contains message ''database disk image is malformed'' \<or> contains message ''file is not a database'' \<or>
       contains message ''database corruption'')"

datatype open_error = Path_required | Corrupt_database | Open_failed

text \<open>The answer of the check: an error text, or the result.\<close>

definition check_integrity :: "string + string \<Rightarrow> open_error option" where
  "check_integrity answer = (case answer of
     Inl err \<Rightarrow> if is_corruption (Some err) then Some Corrupt_database else Some Open_failed
   | Inr result \<Rightarrow> if to_lower result \<noteq> ''ok'' then Some Corrupt_database else None)"

text \<open>\<^verbatim>\<open>Sscanf(name, "%03d_")\<close>: a number of at most three characters, then an underscore.\<close>

definition migration_version :: "string \<Rightarrow> int option" where
  "migration_version name =
     (let sign = (name \<noteq> [] \<and> (hd name = CHR ''-'' \<or> hd name = CHR ''+''));
          ds = takeWhile is_digit (take (if sign then 2 else 3) (if sign then tl name else name));
          used = (if sign then 1 else 0) + length ds
      in if ds = [] then None
         else case drop used name of
           c # _ \<Rightarrow> if c = CHR ''_'' then Some (if hd name = CHR ''-'' then - int (digits_value ds) else int (digits_value ds)) else None
         | [] \<Rightarrow> None)"

text \<open>The loop over the scripts: \<open>run\<close> is the effect of a script with the insertion of its version, \<^const>\<open>None\<close> when
  the transaction failed and was rolled back.  The applied versions come first.\<close>

fun migrate :: "(int \<Rightarrow> 'd \<Rightarrow> 'd option) \<Rightarrow> string list \<Rightarrow> int list \<times> 'd \<Rightarrow> (int list \<times> 'd) \<times> bool" where
  "migrate run [] s = (s, True)"
| "migrate run (name # names) (applied, d) =
     (case migration_version name of
        None \<Rightarrow> migrate run names (applied, d)
      | Some v \<Rightarrow>
          if v \<in> set applied then migrate run names (applied, d)
          else (case run v d of
              None \<Rightarrow> ((applied, d), False)
            | Some d' \<Rightarrow> migrate run names (v # applied, d')))"

lemma migrate_applied:
  "migrate run names (applied, d) = ((applied', d'), ok) \<Longrightarrow> set applied \<subseteq> set applied' \<and>
    (ok \<longrightarrow> set (List.map_filter migration_version names) \<subseteq> set applied')"
proof (induction names arbitrary: applied d)
  case (Cons n ns)
  show ?case
  proof (cases "migration_version n")
    case None
    with Cons show ?thesis by (auto simp: List.map_filter_simps)
  next
    case (Some v)
    show ?thesis
    proof (cases "v \<in> set applied")
      case True
      with Some Cons.IH [of applied d] Cons.prems show ?thesis by (auto simp: List.map_filter_simps)
    next
      case False
      show ?thesis
      proof (cases "run v d")
        case None
        with Some False Cons.prems show ?thesis by simp
      next
        case (Some e)
        with \<open>migration_version n = Some v\<close> False Cons.IH [of "v # applied" e] Cons.prems show ?thesis
          by (auto simp: List.map_filter_simps)
      qed
    qed
  qed
qed (simp add: List.map_filter_simps)

lemma migrate_nothing:
  "set (List.map_filter migration_version names) \<subseteq> set applied \<Longrightarrow> migrate run names (applied, d) = ((applied, d), True)"
  by (induction names) (auto simp: List.map_filter_simps split: option.splits)

text \<open>Migrations run once.  After a migration that succeeded, opening the database again applies no script.\<close>

theorem migrate_idempotent:
  assumes "migrate run names s = (s', True)"
  shows "migrate run' names s' = (s', True)"
proof -
  obtain applied d applied' d' where s: "s = (applied, d)" "s' = (applied', d')" by (cases s; cases s')
  from migrate_applied [of run names applied d applied' d' True] assms s migrate_nothing [of names applied' run' d']
  show ?thesis by simp
qed

section \<open>Quarantine\<close>

type_synonym directory = "(string \<times> string) list"

definition target_name :: "string \<Rightarrow> nat \<Rightarrow> string" where
  "target_name base k = (if k = 0 then base else base @ ''-'' @ nat_str k)"

text \<open>The search for a free name; the outer \<^const>\<open>None\<close> is running out of fuel.\<close>

fun free_target :: "directory \<Rightarrow> (string \<Rightarrow> bool) \<Rightarrow> string \<Rightarrow> nat \<Rightarrow> nat \<Rightarrow> string option option" where
  "free_target fs bad base k 0 = None"
| "free_target fs bad base k (Suc fuel) =
     (let target = target_name base k in
      if bad target then Some None
      else if map_of fs target = None then Some (Some target)
      else free_target fs bad base (k + 1) fuel)"

definition rename_file :: "directory \<Rightarrow> string \<Rightarrow> string \<Rightarrow> directory" where
  "rename_file fs source target = (case map_of fs source of
     None \<Rightarrow> fs | Some content \<Rightarrow> AList.update target content (AList.delete source fs))"

text \<open>\<^verbatim>\<open>os.Rename\<close> of a path that must exist.\<close>

definition try_rename :: "directory \<Rightarrow> (string \<Rightarrow> bool) \<Rightarrow> string \<Rightarrow> string \<Rightarrow> directory \<times> bool" where
  "try_rename fs bad source target =
     (if bad source \<or> bad target \<or> map_of fs source = None then (fs, False) else (rename_file fs source target, True))"

fun move_sidecars :: "directory \<Rightarrow> (string \<Rightarrow> bool) \<Rightarrow> string \<Rightarrow> string \<Rightarrow> string list \<Rightarrow> directory \<times> bool" where
  "move_sidecars fs bad path target [] = (fs, True)"
| "move_sidecars fs bad path target (c # cs) =
     (if bad (path @ c) then (fs, False)
      else if map_of fs (path @ c) = None then move_sidecars fs bad path target cs
      else (case try_rename fs bad (path @ c) (target @ c) of
          (fs', ok) \<Rightarrow> if ok then move_sidecars fs' bad path target cs else (fs', False)))"

definition sidecars :: "string list" where
  "sidecars = [''-wal'', ''-shm'']"

definition quarantine_base :: "string \<Rightarrow> gotime \<Rightarrow> string" where
  "quarantine_base path at = path @ ''.corrupt-'' @ compact_stamp at"

definition quarantine :: "directory \<Rightarrow> (string \<Rightarrow> bool) \<Rightarrow> string \<Rightarrow> gotime \<Rightarrow> directory \<times> string option" where
  "quarantine fs bad path at =
     (case free_target fs bad (quarantine_base path at) 0 (Suc (length fs)) of
        None \<Rightarrow> (fs, None)
      | Some None \<Rightarrow> (fs, None)
      | Some (Some target) \<Rightarrow>
          (case try_rename fs bad path target of
             (fs1, ok1) \<Rightarrow>
               if \<not> ok1 then (fs1, None)
               else (case move_sidecars fs1 bad path target sidecars of
                   (fs2, ok2) \<Rightarrow> if ok2 then (fs2, Some (path_clean target)) else (fs2, None))))"

section \<open>Opening with recovery\<close>

datatype recovery_code = Rc_none | Rc_open_failed | Rc_quarantine_failed | Rc_reopen_failed | Rc_quarantined

text \<open>\<open>opening\<close> is \<^verbatim>\<open>Open\<close>: what it leaves of the directory, and its error.\<close>

definition open_recovering :: "(directory \<Rightarrow> string \<Rightarrow> directory \<times> open_error option) \<Rightarrow> directory \<Rightarrow> (string \<Rightarrow> bool) \<Rightarrow>
    string \<Rightarrow> gotime \<Rightarrow> directory \<times> recovery_code \<times> string" where
  "open_recovering opening fs bad path at =
     (case opening fs path of
        (fs1, None) \<Rightarrow> (fs1, Rc_none, [])
      | (fs1, Some err) \<Rightarrow>
          if err \<noteq> Corrupt_database then (fs1, Rc_open_failed, [])
          else (case quarantine fs1 bad path at of
              (fs2, None) \<Rightarrow> (fs2, Rc_quarantine_failed, [])
            | (fs2, Some q) \<Rightarrow>
                (case opening fs2 path of
                   (fs3, None) \<Rightarrow> (fs3, Rc_quarantined, q)
                 | (fs3, Some _) \<Rightarrow> (fs3, Rc_reopen_failed, q))))"

section \<open>The search ends\<close>

lemma digits_value_inj: "nat_str m = nat_str n \<Longrightarrow> m = n"
  using digits_value_nat_str by metis

lemma target_name_inj: "target_name base j = target_name base k \<Longrightarrow> j = k"
  using digits_value_inj by (auto simp: target_name_def split: if_splits)

lemma free_target_None:
  "free_target fs bad base k fuel = None \<Longrightarrow> (\<forall>j \<in> {k..<k + fuel}. map_of fs (target_name base j) \<noteq> None)"
proof (induction fuel arbitrary: k)
  case (Suc fuel)
  then have "map_of fs (target_name base k) \<noteq> None" "free_target fs bad base (k + 1) fuel = None"
    by (auto simp: Let_def split: if_splits)
  with Suc.IH [of "k + 1"] show ?case by (metis Suc_eq_plus1 add_Suc_right add_Suc_shift atLeastLessThan_iff le_antisym not_less_eq_eq)
qed simp

lemma free_target_terminates: "free_target fs bad base 0 (Suc (length fs)) \<noteq> None"
proof
  assume "free_target fs bad base 0 (Suc (length fs)) = None"
  from free_target_None [OF this] have "target_name base ` {0..<Suc (length fs)} \<subseteq> dom (map_of fs)" by auto
  then have "card (target_name base ` {0..<Suc (length fs)}) \<le> card (dom (map_of fs))"
    by (intro card_mono) (simp_all add: finite_dom_map_of)
  moreover have "card (target_name base ` {0..<Suc (length fs)}) = Suc (length fs)"
    by (subst card_image) (auto intro: inj_onI target_name_inj)
  moreover have "card (dom (map_of fs)) \<le> length fs"
    by (metis card_length dom_map_of_conv_image_fst length_map list.set_map)
  ultimately show False by simp
qed

text \<open>The search for a free name ends: among one more names than there are files one is free, so the loop returns a
  name that no file has, or the error of the operating system.\<close>

theorem quarantine_target_found:
  "\<exists>res. free_target fs bad (quarantine_base path at) 0 (Suc (length fs)) = Some res \<and>
    (case res of Some target \<Rightarrow> map_of fs target = None | None \<Rightarrow> \<exists>k. bad (target_name (quarantine_base path at) k))"
proof -
  have "free_target fs bad base k fuel = Some res \<Longrightarrow>
    (case res of Some target \<Rightarrow> map_of fs target = None | None \<Rightarrow> \<exists>k. bad (target_name base k))" for base k fuel res
    by (induction fuel arbitrary: k) (auto simp: Let_def split: if_splits)
  with free_target_terminates show ?thesis by (metis not_None_eq)
qed

section \<open>Nothing is lost\<close>

definition keeps_content :: "directory \<Rightarrow> directory \<Rightarrow> string \<Rightarrow> string \<Rightarrow> bool" where
  "keeps_content fs fs' path target \<longleftrightarrow> (\<forall>p content. map_of fs p = Some content \<longrightarrow>
     map_of fs' p = Some content \<or>
     (\<exists>c. c \<in> set ([] # sidecars) \<and> p = path @ c \<and> map_of fs' (target @ c) = Some content))"

lemma try_rename_map:
  "try_rename fs bad source target = (fs', ok) \<Longrightarrow> source \<noteq> target \<Longrightarrow>
   map_of fs' = (if ok then (map_of fs)(source := None, target := map_of fs source) else map_of fs)"
  by (auto simp: try_rename_def rename_file_def update_conv' delete_conv' split: if_splits option.splits)

definition fresh_target :: "string \<Rightarrow> string \<Rightarrow> bool" where
  "fresh_target path target \<longleftrightarrow> (\<exists>rest. target = path @ ''.corrupt-'' @ rest)"

lemma fresh_target_names:
  assumes "fresh_target path target" and "c \<in> set ([] # sidecars)"
  shows "path @ c \<noteq> target" "path @ c \<noteq> target @ ''-wal''" "path @ c \<noteq> target @ ''-shm''"
  using assms by (auto simp: fresh_target_def sidecars_def)

lemma target_is_fresh:
  assumes "free_target fs bad (quarantine_base path at) 0 n = Some (Some target)"
  shows "fresh_target path target \<and> map_of fs target = None \<and> (\<exists>k. target = target_name (quarantine_base path at) k)"
proof -
  have "free_target fs bad base k n = Some (Some target) \<Longrightarrow> map_of fs target = None \<and> (\<exists>k. target = target_name base k)" for base k
    by (induction n arbitrary: k) (auto simp: Let_def split: if_splits)
  from this [OF assms] show ?thesis by (auto simp: fresh_target_def target_name_def quarantine_base_def)
qed

text \<open>A quarantine never loses a file, even when it fails half way: every file keeps its place, or is one of the
  database's three and now stands under the new name.  The one condition is that no sidecar of a target exists already,
  because only the name of the database file itself is searched for.\<close>

theorem quarantine_keeps_evidence:
  assumes "quarantine fs bad path at = (fs', res)"
    and "\<And>k c. c \<in> set sidecars \<Longrightarrow> map_of fs (target_name (quarantine_base path at) k @ c) = None"
  shows "\<exists>target. keeps_content fs fs' path target"
proof (cases "free_target fs bad (quarantine_base path at) 0 (Suc (length fs))")
  case (Some found)
  show ?thesis
  proof (cases found)
    case (Some target)
    with \<open>free_target _ _ _ _ _ = Some found\<close> have t: "fresh_target path target" "map_of fs target = None"
      "\<exists>k. target = target_name (quarantine_base path at) k" using target_is_fresh by blast+
    have free: "map_of fs (target @ ''-wal'') = None" "map_of fs (target @ ''-shm'') = None"
      using assms(2) t(3) by (auto simp: sidecars_def)
    note names = fresh_target_names [OF t(1), unfolded sidecars_def, simplified]
    obtain fs1 ok1 where r1: "try_rename fs bad path target = (fs1, ok1)" by (cases "try_rename fs bad path target")
    have m1: "map_of fs1 = (if ok1 then (map_of fs)(path := None, target := map_of fs path) else map_of fs)"
      using try_rename_map [OF r1] names(1) [of "[]"] by simp
    obtain fs2 ok2 where r2: "move_sidecars fs1 bad path target sidecars = (fs2, ok2)"
      by (cases "move_sidecars fs1 bad path target sidecars")
    have fs': "fs' = (if ok1 then fs2 else fs1)"
      using assms(1) \<open>free_target _ _ _ _ _ = Some found\<close> Some r1 r2 by (auto simp: quarantine_def split: if_splits)
    have "keeps_content fs fs2 path target" if ok1
    proof -
      have wal: "path @ ''-wal'' \<noteq> target @ ''-wal''" "path @ ''-shm'' \<noteq> target @ ''-shm''"
        using names(2) [of "''-wal''"] names(3) [of "''-shm''"] by simp_all
      show ?thesis
        using r2 m1 that free t(2) names wal unfolding sidecars_def keeps_content_def
        by (auto simp: try_rename_map split: if_splits prod.splits dest!: try_rename_map)
    qed
    moreover have "keeps_content fs fs1 path target" if "\<not> ok1" using that m1 by (simp add: keeps_content_def)
    ultimately show ?thesis using fs' by auto
  next
    case None
    with assms(1) \<open>free_target _ _ _ _ _ = Some found\<close> show ?thesis by (auto simp: quarantine_def keeps_content_def)
  qed
qed (use free_target_terminates in blast)

text \<open>A failed rename of the write-ahead log: the database file stands under its new name already.\<close>

theorem quarantine_keeps_evidence_witness:
  "\<exists>target. keeps_content [(''db'', ''x''), (''db-wal'', ''y'')]
     (fst (quarantine [(''db'', ''x''), (''db-wal'', ''y'')] (\<lambda>p. p = ''db-wal'') ''db'' 0)) ''db'' target"
proof (rule quarantine_keeps_evidence)
  show "quarantine [(''db'', ''x''), (''db-wal'', ''y'')] (\<lambda>p. p = ''db-wal'') ''db'' 0 =
    (fst (quarantine [(''db'', ''x''), (''db-wal'', ''y'')] (\<lambda>p. p = ''db-wal'') ''db'' 0),
     snd (quarantine [(''db'', ''x''), (''db-wal'', ''y'')] (\<lambda>p. p = ''db-wal'') ''db'' 0))" by simp
  show "map_of [(''db'', ''x''), (''db-wal'', ''y'')] (target_name (quarantine_base ''db'' 0) k @ c) = None" for k c
    by (auto simp: target_name_def quarantine_base_def)
qed

theorem migrate_idempotent_witness:
  "migrate (\<lambda>v d. Some d) [''001_initial.sql'', ''notes.txt''] ([1], ()) = (([1], ()), True)"
proof -
  have "migrate (\<lambda>v d. Some d) [''001_initial.sql'', ''notes.txt''] ([], ()) = (([1], ()), True)" by code_simp
  then show ?thesis by (rule migrate_idempotent)
qed

end
