(* ===== verification/App.thy ===== *)
theory App
  imports Graph_Identity Graph_Layout Activity Ingest_Normalize Ingest_Dedupe Diff_Pipeline Replay Store Store_Recovery
    Project_Scan
begin

text \<open>
  \<^verbatim>\<open>apps/desktop/app.go\<close>: the program that joins the components.  It owns the open project with its node
  identities and its graph, the session engine, the diff pipeline and the queue of the journal, and turns every
  delivered event into a new focus, a diff request and a journal record.  Every operation holds the lock of the
  application, so it is one step of the model.  The renderer, the native dialogs and the goroutines that carry the
  steps are left out: the events sent to the renderer are the results of the operations.
\<close>

section \<open>Views for the renderer\<close>

record trail_access =
  ta_sequence :: int
  ta_node_id :: string
  ta_path :: string
  ta_started_at :: gotime
  ta_ended_at :: "gotime option"
  ta_duration_ms :: int
  ta_operations :: "string list"
  ta_source :: source_type
  ta_confidence :: confidence
  ta_agent_id :: string
  ta_lines_added :: "int option"
  ta_lines_deleted :: "int option"
  ta_work_status :: work_status
  ta_work_source :: work_source
  ta_work_confidence :: confidence

record live_focus =
  lf_session_id :: string
  lf_active_node_id :: string
  lf_active_path :: string
  lf_previous_node_id :: string
  lf_previous_path :: string
  lf_secondary_node_ids :: "string list"
  lf_secondary_paths :: "string list"
  lf_operation :: string
  lf_source :: source_type
  lf_confidence :: confidence
  lf_timestamp :: gotime
  lf_trail :: "trail_access list"

definition zero_focus :: live_focus where
  "zero_focus = \<lparr>lf_session_id = [], lf_active_node_id = [], lf_active_path = [], lf_previous_node_id = [],
     lf_previous_path = [], lf_secondary_node_ids = [], lf_secondary_paths = [], lf_operation = [],
     lf_source = Source_other [], lf_confidence = Conf_other [], lf_timestamp = 0, lf_trail = []\<rparr>"

record 'v node_dto =
  no_id :: string
  no_path :: string
  no_kind :: node_kind
  no_position :: 'v
  no_activity :: node_activity

record 'v snapshot_dto =
  so_revision :: int
  so_nodes :: "'v node_dto list"
  so_edges :: "edge list"

record 'v patch_dto =
  po_revision :: int
  po_added :: "'v node_dto list"
  po_updated :: "'v node_dto list"
  po_removed :: "string list"
  po_edges :: "edge list"

definition node_dtos :: "(node \<times> 'v) list \<Rightarrow> 'v node_dto list" where
  "node_dtos pns = map (\<lambda>(n, p). \<lparr>no_id = nd_id n, no_path = nd_path n, no_kind = nd_kind n, no_position = p,
     no_activity = nd_activity n\<rparr>) pns"

definition snapshot_dto_of :: "'v graph_snapshot \<Rightarrow> 'v snapshot_dto" where
  "snapshot_dto_of s = \<lparr>so_revision = gs_revision s, so_nodes = node_dtos (gs_nodes s), so_edges = gs_edges s\<rparr>"

definition patch_dto_of :: "'v graph_patch \<Rightarrow> 'v patch_dto" where
  "patch_dto_of p = \<lparr>po_revision = gp_revision p, po_added = node_dtos (gp_added p), po_updated = node_dtos (gp_updated p),
     po_removed = gp_removed p, po_edges = gp_edges p\<rparr>"

text \<open>\<^verbatim>\<open>time.Duration.Milliseconds\<close> truncates towards zero.\<close>

definition milliseconds :: "duration \<Rightarrow> int" where
  "milliseconds d = (if d < 0 then - ((- d) div 1000000) else d div 1000000)"

section \<open>State\<close>

record journal_record =
  jr_event :: event
  jr_state :: state
  jr_project_id :: string

text \<open>\<open>ap_queue\<close> is the channel of the journal, absent without a journal; \<open>ap_recorded\<close> is no variable of the
  program but the history of what was put into the channel.\<close>

record 'v app =
  ap_root :: string
  ap_identity :: "registry option"
  ap_snapshot :: "'v graph_snapshot"
  ap_focus :: engine
  ap_diffs :: pipeline
  ap_dedupe :: deduper
  ap_collector_status :: string
  ap_queue :: "journal_record list option"
  ap_journal_status :: string
  ap_recovery_status :: string
  ap_current :: live_focus
  ap_recorded :: "journal_record list"

record 'v app_env =
  ae_identity :: identity_env
  ae_geometry :: "'v geometry"
  ae_lower :: "string \<Rightarrow> string"
  ae_windows :: bool

datatype app_error =
    No_project
  | Not_normalized normalize_error
  | Secondary_not_strings | Secondary_not_array | Secondary_escapes
  | Not_applied engine_error
  | Scan_failed
  | Not_enriched activity_error
  | Root_missing | Root_invalid | Root_not_found | Root_inaccessible | Root_not_folder | Root_unreadable
  | Root_no_git | Root_git_inaccessible
  | Not_scanned
  | History_unavailable | Session_unavailable
  | Store_failure store_error
  | Replay_failure replay_error

abbreviation status_ready :: string where "status_ready \<equiv> ''ready''"
abbreviation status_degraded :: string where "status_degraded \<equiv> ''degraded''"
abbreviation status_unavailable :: string where "status_unavailable \<equiv> ''unavailable''"
abbreviation status_stopped :: string where "status_stopped \<equiv> ''stopped''"

definition app_timeout :: duration where "app_timeout = 2 * 60 * second"

definition empty_snapshot :: "'v graph_snapshot" where
  "empty_snapshot = \<lparr>gs_revision = 0, gs_nodes = [], gs_edges = []\<rparr>"

definition new_app :: "'v app" where
  "new_app = \<lparr>ap_root = [], ap_identity = None, ap_snapshot = empty_snapshot, ap_focus = new_engine app_timeout,
     ap_diffs = new_pipeline 64 16, ap_dedupe = new_deduper (10 * 60 * second), ap_collector_status = [], ap_queue = None,
     ap_journal_status = [], ap_recovery_status = [], ap_current = zero_focus, ap_recorded = []\<rparr>"

definition health :: "'v app \<Rightarrow> (string \<times> string) list" where
  "health a = [(''service'', ''agent-action-visualizer''), (''status'', ''ready''), (''collector'', ap_collector_status a),
     (''persistence'', ap_journal_status a), (''recovery'', ap_recovery_status a)]"

section \<open>Focus for the renderer\<close>

definition node_id_for_path :: "'v app_env \<Rightarrow> 'v app \<Rightarrow> string \<Rightarrow> string" where
  "node_id_for_path env a p =
     (case List.find (\<lambda>pn. nd_path (fst pn) = p) (gs_nodes (ap_snapshot a)) of
        Some pn \<Rightarrow> nd_id (fst pn)
      | None \<Rightarrow> (case ap_identity a of
          None \<Rightarrow> []
        | Some r \<Rightarrow> (case lookup_node (ae_identity env) r p of Some n \<Rightarrow> nd_id n | None \<Rightarrow> [])))"

definition trail_of :: "'v app_env \<Rightarrow> 'v app \<Rightarrow> interval list \<Rightarrow> trail_access list" where
  "trail_of env a ivs = map (\<lambda>iv. \<lparr>ta_sequence = iv_sequence iv,
     ta_node_id = (if iv_node_id iv = [] then node_id_for_path env a (iv_path iv) else iv_node_id iv),
     ta_path = iv_path iv, ta_started_at = iv_started_at iv, ta_ended_at = iv_ended_at iv,
     ta_duration_ms = milliseconds (iv_duration iv), ta_operations = iv_operations iv, ta_source = iv_source iv,
     ta_confidence = iv_confidence iv, ta_agent_id = iv_agent_id iv, ta_lines_added = iv_lines_added iv,
     ta_lines_deleted = iv_lines_deleted iv, ta_work_status = iv_work_status iv, ta_work_source = iv_work_source iv,
     ta_work_confidence = iv_work_confidence iv\<rparr>) ivs"

definition focus_of_state :: "'v app_env \<Rightarrow> 'v app \<Rightarrow> state \<Rightarrow> live_focus" where
  "focus_of_state env a s = \<lparr>lf_session_id = st_session_id s, lf_active_node_id = st_active_node_id s,
     lf_active_path = st_active_path s, lf_previous_node_id = st_previous_node_id s, lf_previous_path = st_previous_path s,
     lf_secondary_node_ids = filter (\<lambda>i. i \<noteq> [] \<and> i \<noteq> st_active_node_id s)
       (map (node_id_for_path env a) (st_secondary_paths s)),
     lf_secondary_paths = st_secondary_paths s, lf_operation = st_active_operation s, lf_source = st_active_source s,
     lf_confidence = st_active_confidence s, lf_timestamp = st_active_timestamp s, lf_trail = trail_of env a (st_intervals s)\<rparr>"

section \<open>Publishing an event\<close>

definition apply_identity_lifecycle :: "identity_env \<Rightarrow> event \<Rightarrow> registry \<Rightarrow> registry" where
  "apply_identity_lifecycle ie e r =
     (if event_type e = File_renamed \<or> event_type e = File_moved
      then (if previous_path e \<noteq> [] \<and> ev_path e \<noteq> [] then fst (rename_node ie r (previous_path e) (ev_path e)) else r)
      else if event_type e = File_deleted
      then (if ev_path e \<noteq> [] then fst (delete_node ie r (ev_path e)) else r)
      else r)"

fun string_items :: "mvalue list \<Rightarrow> string list option" where
  "string_items [] = Some []"
| "string_items (MString p # vs) = map_option ((#) p) (string_items vs)"
| "string_items (_ # vs) = None"

definition normalize_secondary_paths :: "filesystem \<Rightarrow> string \<Rightarrow> mvalue option \<Rightarrow> app_error + string list" where
  "normalize_secondary_paths fs root v =
     (let each = (\<lambda>ps. case normalize_paths fs root ps of Inl _ \<Rightarrow> Inl Secondary_escapes | Inr qs \<Rightarrow> Inr (keep_first (\<lambda>p. p) {} qs))
      in case v of
        None \<Rightarrow> Inr []
      | Some MNull \<Rightarrow> Inr []
      | Some (MStrings ss) \<Rightarrow> each ss
      | Some (MList vs) \<Rightarrow> (case string_items vs of None \<Rightarrow> Inl Secondary_not_strings | Some ss \<Rightarrow> each ss)
      | Some _ \<Rightarrow> Inl Secondary_not_array)"

text \<open>Sanitized metadata is nil exactly when it is empty.\<close>

definition with_secondary_paths :: "filesystem \<Rightarrow> string \<Rightarrow> event \<Rightarrow> app_error + event" where
  "with_secondary_paths fs root e =
     (if ev_metadata e = [] then Inr e
      else map_sum id (\<lambda>ps. e\<lparr>ev_metadata := AList.update ''secondary_paths'' (MStrings ps) (ev_metadata e)\<rparr>)
        (normalize_secondary_paths fs root (map_of (ev_metadata e) ''secondary_paths'')))"

definition work_event :: "event_type \<Rightarrow> bool" where
  "work_event t \<longleftrightarrow> t = File_created \<or> t = File_modified \<or> t = File_patched \<or> t = File_deleted"

text \<open>\<^verbatim>\<open>Pipeline.Offer\<close> from its start to its end.  Between a cancelled context and a free place of the queue the
  select statement may take either; \<open>refuse\<close> tells which.\<close>

definition offer_request :: "bool \<Rightarrow> pipeline \<Rightarrow> request \<Rightarrow> pipeline \<times> submit_outcome" where
  "offer_request refuse p r =
     (case offer_begin p r of
        (p1, Some outcome) \<Rightarrow> (p1, outcome)
      | (p1, None) \<Rightarrow>
          let q = r\<lparr>rq_before := copy_slice (rq_before r), rq_after := copy_slice (rq_after r)\<rparr>
          in if queue_full p1 \<or> pl_cancelled p1 \<and> refuse then (offer_drop (offer_refuse p1 q) q, Submit_dropped)
             else (offer_count (offer_enqueue p1 q), Submit_accepted))"

definition diff_request :: "string \<Rightarrow> event \<Rightarrow> interval \<Rightarrow> request" where
  "diff_request root e iv = \<lparr>rq_key = event_id e, rq_session_id = session_id e, rq_sequence = iv_sequence iv,
     rq_project_root = root, rq_path = ev_path e, rq_added = lines_added e, rq_deleted = lines_deleted e, rq_patch = None,
     rq_before = None, rq_after = None, rq_allow_snapshot = False, rq_is_binary = (is_binary e = Some True),
     rq_confidence = source_confidence e\<rparr>"

text \<open>The interval an event asks the diff pipeline to work on.\<close>

definition diff_interval :: "event \<Rightarrow> state \<Rightarrow> interval option" where
  "diff_interval e s =
     (if \<not> work_event (event_type e) \<or> ev_path e = [] then None
      else case current s of
        None \<Rightarrow> None
      | Some iv \<Rightarrow> if iv_path iv = ev_path e then Some iv else None)"

definition submit_diff :: "bool \<Rightarrow> 'v app \<Rightarrow> event \<Rightarrow> state \<Rightarrow> 'v app \<times> state" where
  "submit_diff refuse a e s =
     (case diff_interval e s of
        None \<Rightarrow> (a, s)
      | Some iv \<Rightarrow>
          (case offer_request refuse (ap_diffs a) (diff_request (ap_root a) e iv) of (p, outcome) \<Rightarrow>
             let a1 = a\<lparr>ap_diffs := p\<rparr> in
             if outcome = Submit_duplicate then (a1, s)
             else (case (if outcome = Submit_accepted
                     then engine_set_work_result (ap_focus a) (session_id e) (iv_sequence iv) (lines_added e) (lines_deleted e)
                       status_pending source_unknown Conf_inferred
                     else engine_set_work_result (ap_focus a) (session_id e) (iv_sequence iv) None None
                       status_unknown source_unknown Conf_inferred) of
                 (E, Inr s') \<Rightarrow> (a1\<lparr>ap_focus := E\<rparr>, s')
               | (E, Inl _) \<Rightarrow> (a1\<lparr>ap_focus := E\<rparr>, s))))"

definition journal_capacity :: nat where "journal_capacity = 256"

definition queue_journal :: "'v app \<Rightarrow> event \<Rightarrow> state \<Rightarrow> 'v app" where
  "queue_journal a e s =
     (case ap_queue a of
        None \<Rightarrow> a
      | Some rs \<Rightarrow>
          let r = \<lparr>jr_event = e, jr_state = s, jr_project_id = ap_root a\<rparr> in
          if length rs < journal_capacity
          then a\<lparr>ap_queue := Some (rs @ [r]), ap_recorded := ap_recorded a @ [r]\<rparr>
          else a\<lparr>ap_journal_status := status_degraded\<rparr>)"

definition publish_event :: "'v app_env \<Rightarrow> filesystem \<Rightarrow> bool \<Rightarrow> 'v app \<Rightarrow> event \<Rightarrow> 'v app \<times> (app_error + live_focus)" where
  "publish_event env fs refuse a e0 =
     (case ap_identity a of
        None \<Rightarrow> (a, Inl No_project)
      | Some r0 \<Rightarrow>
          if ap_root a = [] then (a, Inl No_project)
          else (case normalize_event fs e0 (ap_root a) of
            Inl err \<Rightarrow> (a, Inl (Not_normalized err))
          | Inr e1 \<Rightarrow>
              let a1 = a\<lparr>ap_identity := Some (apply_identity_lifecycle (ae_identity env) e1 r0)\<rparr>;
                  e2 = (if ev_path e1 \<noteq> [] \<and> ev_node_id e1 = [] then e1\<lparr>ev_node_id := node_id_for_path env a1 (ev_path e1)\<rparr> else e1)
              in (case with_secondary_paths fs (ap_root a) e2 of
                    Inl err \<Rightarrow> (a1, Inl err)
                  | Inr e \<Rightarrow> (case engine_apply (ap_focus a1) e of
                      (E, Inl err) \<Rightarrow> (a1\<lparr>ap_focus := E\<rparr>, Inl (Not_applied err))
                    | (E, Inr s0) \<Rightarrow> (case submit_diff refuse (a1\<lparr>ap_focus := E\<rparr>) e s0 of (a2, s) \<Rightarrow>
                        let a3 = queue_journal a2 e s; focus = focus_of_state env a3 s
                        in (a3\<lparr>ap_current := focus\<rparr>, Inr focus))))))"

text \<open>The handler of the collector: a repeated delivery is dropped, and the result is not looked at.\<close>

definition handle_event :: "'v app_env \<Rightarrow> filesystem \<Rightarrow> bool \<Rightarrow> gotime \<Rightarrow> 'v app \<Rightarrow> event \<Rightarrow> 'v app" where
  "handle_event env fs refuse now a e =
     (case duplicate (ap_dedupe a) e now of (d, dup) \<Rightarrow>
        let a1 = a\<lparr>ap_dedupe := d\<rparr> in if dup then a1 else fst (publish_event env fs refuse a1 e))"

section \<open>Diff results\<close>

definition diff_event :: "gotime \<Rightarrow> result \<Rightarrow> event" where
  "diff_event now res = zero_event\<lparr>schema_version := schema_version_const, event_id := ''diff:'' @ rs_key res,
     session_id := rs_session_id res, source_type := Source_git, source_confidence := rs_confidence res,
     event_type := Diff_calculated, timestamp := now, ev_status := rs_status res, ev_operation := rs_source res,
     lines_added := rs_added res, lines_deleted := rs_deleted res,
     ev_metadata := [(''access_sequence'', MInt (rs_sequence res))]\<rparr>"

definition consume_result :: "'v app_env \<Rightarrow> gotime \<Rightarrow> 'v app \<Rightarrow> result \<Rightarrow> 'v app" where
  "consume_result env now a res =
     (case engine_set_work_result (ap_focus a) (rs_session_id res) (rs_sequence res) (rs_added res) (rs_deleted res)
         (rs_status res) (rs_source res) (rs_confidence res) of
        (E, Inl _) \<Rightarrow> a\<lparr>ap_focus := E\<rparr>
      | (E, Inr s) \<Rightarrow>
          let a1 = a\<lparr>ap_focus := E\<rparr>
          in queue_journal (a1\<lparr>ap_current := focus_of_state env a1 s\<rparr>) (diff_event now res) s)"

section \<open>The project\<close>

text \<open>What an operation on the project reads: the file system, the tree, the answer of git, the report file and the order
  in which the unstable sort of the aggregation leaves the nodes.\<close>

record project_world =
  pw_fs :: filesystem
  pw_tree :: "project_tree option"
  pw_log :: git_log
  pw_report :: report_file
  pw_order :: "nat list"

definition with_tombstones :: "registry \<Rightarrow> node list \<Rightarrow> node list" where
  "with_tombstones r ns = ns @ filter (\<lambda>n. nd_path n \<notin> nd_path ` set ns) (tombstones r)"

definition load_project :: "'v app_env \<Rightarrow> project_world \<Rightarrow> 'v app \<Rightarrow> string \<Rightarrow> 'v app \<times> (app_error + 'v snapshot_dto)" where
  "load_project env w a root =
     (case scan_project (pw_fs w) root (pw_tree w) of
        None \<Rightarrow> (a, Inl Scan_failed)
      | Some (top_dir, scanned) \<Rightarrow>
          let r = new_registry top_dir (ae_windows env);
              a1 = a\<lparr>ap_root := top_dir, ap_identity := Some r, ap_focus := new_engine app_timeout, ap_current := zero_focus\<rparr>
          in (case enrich (ae_lower env) (pw_log w) (pw_report w) (pw_order w) scanned of
                Inl err \<Rightarrow> (a1, Inl (Not_enriched err))
              | Inr enriched \<Rightarrow> (case assign_nodes (ae_identity env) r enriched of (r', ns) \<Rightarrow>
                  let snap = layout (ae_geometry env) (with_tombstones r' ns) 1
                  in (a1\<lparr>ap_identity := Some r', ap_snapshot := snap\<rparr>, Inr (snapshot_dto_of snap)))))"

definition refresh_project :: "'v app_env \<Rightarrow> project_world \<Rightarrow> 'v app \<Rightarrow> 'v app \<times> (app_error + 'v patch_dto)" where
  "refresh_project env w a =
     (case ap_identity a of
        None \<Rightarrow> (a, Inl No_project)
      | Some r \<Rightarrow>
          if ap_root a = [] then (a, Inl No_project)
          else (case scan_project (pw_fs w) (ap_root a) (pw_tree w) of
            None \<Rightarrow> (a, Inl Scan_failed)
          | Some (top_dir, scanned) \<Rightarrow> (case enrich (ae_lower env) (pw_log w) (pw_report w) (pw_order w) scanned of
                Inl err \<Rightarrow> (a, Inl (Not_enriched err))
              | Inr enriched \<Rightarrow> (case assign_nodes (ae_identity env) r enriched of (r', ns) \<Rightarrow>
                  let next = layout (ae_geometry env) (with_tombstones r' ns) (gs_revision (ap_snapshot a) + 1)
                  in (a\<lparr>ap_identity := Some r', ap_snapshot := next\<rparr>,
                      Inr (patch_dto_of (diff_snapshots (ap_snapshot a) next)))))))"

text \<open>What the checks of a selected folder see.\<close>

datatype stat_answer = Is_folder | Is_other | Not_there | Not_accessible

record folder_world =
  fw_fs :: filesystem
  fw_stat :: "string \<Rightarrow> stat_answer"
  fw_listable :: "string \<Rightarrow> bool"

definition validate_project_root :: "folder_world \<Rightarrow> string \<Rightarrow> app_error + string" where
  "validate_project_root w root0 =
     (let root = trim_space root0 in
      if root = [] then Inl Root_missing
      else case path_abs (fw_fs w) root of
        None \<Rightarrow> Inl Root_invalid
      | Some top_dir \<Rightarrow>
          (case fw_stat w top_dir of
             Not_there \<Rightarrow> Inl Root_not_found
           | Not_accessible \<Rightarrow> Inl Root_inaccessible
           | Is_other \<Rightarrow> Inl Root_not_folder
           | Is_folder \<Rightarrow>
               if \<not> fw_listable w top_dir then Inl Root_unreadable
               else (case fw_stat w (path_join [top_dir, ''.git'']) of
                   Not_there \<Rightarrow> Inl Root_no_git
                 | Not_accessible \<Rightarrow> Inl Root_git_inaccessible
                 | _ \<Rightarrow> Inr (path_clean top_dir))))"

definition open_project :: "'v app_env \<Rightarrow> folder_world \<Rightarrow> project_world \<Rightarrow> 'v app \<Rightarrow> string \<Rightarrow>
    'v app \<times> (app_error + 'v snapshot_dto \<times> string)" where
  "open_project env fw w a root =
     (case validate_project_root fw root of
        Inl err \<Rightarrow> (a, Inl err)
      | Inr valid \<Rightarrow> (case load_project env w a valid of
            (a1, Inl _) \<Rightarrow> (a1, Inl Not_scanned)
          | (a1, Inr graph) \<Rightarrow> (a1, Inr (graph, valid))))"

definition resync :: "'v app \<Rightarrow> 'v snapshot_dto \<times> live_focus option" where
  "resync a = (snapshot_dto_of (ap_snapshot a),
     if lf_session_id (ap_current a) = [] then None else Some (ap_current a))"

section \<open>The journal\<close>

text \<open>\<^verbatim>\<open>startJournalAt\<close> with the answers of the store: the recovery code and whether it opened, and the number of
  recovered sessions.  Without an error a second journal is not installed.\<close>

definition recovery_text :: "recovery_code \<Rightarrow> string" where
  "recovery_text code = (case code of
     Rc_none \<Rightarrow> ''none'' | Rc_open_failed \<Rightarrow> ''open_failed'' | Rc_quarantine_failed \<Rightarrow> ''quarantine_failed''
   | Rc_reopen_failed \<Rightarrow> ''reopen_failed'' | Rc_quarantined \<Rightarrow> ''database_quarantined'')"

definition start_journal_at :: "recovery_code \<times> (store_error + nat) \<Rightarrow> 'v app \<Rightarrow> 'v app" where
  "start_journal_at answers a =
     (case answers of (code, recovered) \<Rightarrow>
        if code \<noteq> Rc_none \<and> code \<noteq> Rc_quarantined
        then a\<lparr>ap_journal_status := status_unavailable, ap_recovery_status := recovery_text code\<rparr>
        else (case recovered of
            Inl _ \<Rightarrow> a\<lparr>ap_journal_status := status_unavailable, ap_recovery_status := ''session_recovery_failed''\<rparr>
          | Inr n \<Rightarrow>
              if ap_queue a \<noteq> None then a
              else a\<lparr>ap_queue := Some [], ap_journal_status := status_ready,
                ap_recovery_status := (if 0 < n \<and> code = Rc_none then ''stale_sessions_closed'' else recovery_text code)\<rparr>))"

text \<open>The writer takes a record from the channel and stores its project, its event and its session.  The flags tell which
  of the three fails in the database.\<close>

definition write_record :: "bool \<times> bool \<times> bool \<Rightarrow> gotime \<Rightarrow> database \<Rightarrow> journal_record \<Rightarrow> database \<times> bool" where
  "write_record faults now db r =
     (case faults of (f1, f2, f3) \<Rightarrow>
        (case (if jr_project_id r = [] then (db, None) else ensure_project f1 db (jr_project_id r) (jr_project_id r) now) of
           (db1, Some _) \<Rightarrow> (db1, False)
         | (db1, None) \<Rightarrow> (case save_event f2 db1 (jr_event r) of
             (db2, Some _) \<Rightarrow> (db2, False)
           | (db2, None) \<Rightarrow> (case save_session f3 db2 (jr_state r) (jr_project_id r) of (db3, err) \<Rightarrow> (db3, err = None)))))"

definition journal_step :: "bool \<times> bool \<times> bool \<Rightarrow> gotime \<Rightarrow> 'v app \<times> database \<Rightarrow> 'v app \<times> database" where
  "journal_step faults now s =
     (case s of (a, db) \<Rightarrow> (case ap_queue a of
        Some (r # rs) \<Rightarrow> (case write_record faults now db r of (db', ok) \<Rightarrow>
          (if ok then a\<lparr>ap_queue := Some rs\<rparr>
           else a\<lparr>ap_queue := Some rs, ap_journal_status := status_degraded, ap_recovery_status := ''journal_write_failed''\<rparr>, db'))
      | _ \<Rightarrow> s))"

text \<open>\<^verbatim>\<open>stopJournal\<close>: no new record gets in, and the writer stores those of the channel before the journal is closed.\<close>

fun write_all :: "(bool \<times> bool \<times> bool) list \<Rightarrow> gotime \<Rightarrow> database \<Rightarrow> journal_record list \<Rightarrow> database \<times> bool" where
  "write_all faults now db [] = (db, True)"
| "write_all faults now db (r # rs) =
     (case write_record (case faults of [] \<Rightarrow> (False, False, False) | f # _ \<Rightarrow> f) now db r of (db1, ok1) \<Rightarrow>
        (case write_all (tl faults) now db1 rs of (db2, ok2) \<Rightarrow> (db2, ok1 \<and> ok2)))"

definition stop_journal :: "(bool \<times> bool \<times> bool) list \<Rightarrow> gotime \<Rightarrow> 'v app \<times> database \<Rightarrow> 'v app \<times> database" where
  "stop_journal faults now s =
     (case s of (a, db) \<Rightarrow> (case ap_queue a of
        None \<Rightarrow> s
      | Some rs \<Rightarrow>
          let a1 = a\<lparr>ap_queue := None, ap_journal_status := status_stopped\<rparr>
          in (case write_all faults now db rs of (db', ok) \<Rightarrow>
                (if ok then a1 else a1\<lparr>ap_journal_status := status_degraded, ap_recovery_status := ''journal_write_failed''\<rparr>, db'))))"

section \<open>Persisted sessions\<close>

record session_summary =
  ss_id :: string
  ss_started_at :: string
  ss_stopped_at :: "string option"
  ss_status :: string

definition summary_of :: "session_row \<Rightarrow> session_summary" where
  "summary_of r = \<lparr>ss_id = sr_id r, ss_started_at = sr_started_at r, ss_stopped_at = sr_stopped_at r, ss_status = sr_status r\<rparr>"

definition list_persisted_sessions :: "bool \<Rightarrow> 'v app \<times> database \<Rightarrow> app_error + session_summary list" where
  "list_persisted_sessions fault s =
     (case s of (a, db) \<Rightarrow>
        if ap_queue a = None \<or> ap_root a = [] then Inr []
        else if fault then Inl (Store_failure Database_failed)
        else Inr (map summary_of (list_sessions db (ap_root a))))"

record timeline_entry =
  te_index :: nat
  te_timestamp :: gotime
  te_event_type :: event_type
  te_path :: string
  te_is_access :: bool

record replay_session =
  rp_session :: session_summary
  rp_cursor :: int
  rp_event_count :: int
  rp_cursor_at :: gotime
  rp_focus :: live_focus
  rp_timeline :: "timeline_entry list"

definition replay_access_event :: "event_type \<Rightarrow> bool" where
  "replay_access_event t \<longleftrightarrow> t \<in> {File_focused, File_read, File_created, File_modified, File_patched, File_renamed,
     File_moved, File_deleted}"

definition replay_timeline :: "event list \<Rightarrow> timeline_entry list" where
  "replay_timeline es = map (\<lambda>(i, e). \<lparr>te_index = i, te_timestamp = timestamp e, te_event_type = event_type e,
     te_path = ev_path e, te_is_access = replay_access_event (event_type e)\<rparr>) (enumerate 0 es)"

definition replay_persisted_session :: "'v app_env \<Rightarrow> bool \<times> bool \<Rightarrow> 'v app \<times> database \<Rightarrow> string \<Rightarrow> int \<Rightarrow>
    app_error + replay_session" where
  "replay_persisted_session env faults s i cursor =
     (case (faults, s) of ((f1, f2), (a, db)) \<Rightarrow>
        if ap_queue a = None \<or> ap_root a = [] then Inl History_unavailable
        else if f1 then Inl (Store_failure Database_failed)
        else (case List.find (\<lambda>r. sr_id r = i) (list_sessions db (ap_root a)) of
            None \<Rightarrow> Inl Session_unavailable
          | Some row \<Rightarrow>
              if sr_id row = [] then Inl Session_unavailable
              else (case load_events f2 db i of
                  Inl err \<Rightarrow> Inl (Store_failure err)
                | Inr es \<Rightarrow> (case reconstruct es cursor app_timeout of
                    Inl err \<Rightarrow> Inl (Replay_failure err)
                  | Inr sn \<Rightarrow> Inr \<lparr>rp_session = summary_of row, rp_cursor = sn_cursor sn, rp_event_count = sn_event_count sn,
                      rp_cursor_at = sn_cursor_at sn, rp_focus = focus_of_state env a (sn_state sn),
                      rp_timeline = replay_timeline es\<rparr>))))"

end
