(* ===== verification/Graph_Client.thy ===== *)
theory Graph_Client
  imports App
begin

text \<open>
  The other end of a patch: \<^verbatim>\<open>applyGraphPatch\<close> of \<^verbatim>\<open>apps/desktop/frontend/src/graph/patch.ts\<close>, which carries the graph the
  renderer shows to the next revision.  A patch arrives as the JSON of its transfer object, in which a slice that was never
  appended to is \<^verbatim>\<open>null\<close>.  The order of the nodes (\<^verbatim>\<open>localeCompare\<close> of their paths) is a parameter.
\<close>

section \<open>The client\<close>

record 'v client_graph =
  cg_revision :: "int option"
  cg_nodes :: "'v node_dto list"
  cg_edges :: "edge list"

record 'v client_patch =
  cp_revision :: int
  cp_added :: "'v node_dto list"
  cp_updated :: "'v node_dto list"
  cp_removed :: "string list option"
  cp_edges :: "edge list"

text \<open>Nodes and edges are copied into slices made for them, \<^verbatim>\<open>Removed\<close> is the slice of the patch itself: \<^verbatim>\<open>nil\<close> when nothing was
  appended, and \<^const>\<open>None\<close> here.\<close>

definition received_patch :: "'v patch_dto \<Rightarrow> 'v client_patch" where
  "received_patch p = \<lparr>cp_revision = po_revision p, cp_added = po_added p, cp_updated = po_updated p,
     cp_removed = (if po_removed p = [] then None else Some (po_removed p)), cp_edges = po_edges p\<rparr>"

definition received_snapshot :: "'v snapshot_dto \<Rightarrow> 'v client_graph" where
  "received_snapshot s = \<lparr>cg_revision = Some (so_revision s), cg_nodes = so_nodes s, cg_edges = so_edges s\<rparr>"

text \<open>A JavaScript \<^verbatim>\<open>Map\<close>: a key set again keeps its place.\<close>

definition set_nodes :: "'v node_dto list \<Rightarrow> (string \<times> 'v node_dto) list \<Rightarrow> (string \<times> 'v node_dto) list" where
  "set_nodes ns m = fold (\<lambda>n m. AList.update (no_id n) n m) ns m"

text \<open>\<^const>\<open>None\<close> is the \<^verbatim>\<open>TypeError\<close> of iterating over \<^verbatim>\<open>null\<close>.\<close>

definition apply_graph_patch :: "('v node_dto list \<Rightarrow> 'v node_dto list) \<Rightarrow> 'v client_graph \<Rightarrow> 'v client_patch \<Rightarrow> 'v client_graph option" where
  "apply_graph_patch by_path g p =
     (if (case cg_revision g of None \<Rightarrow> False | Some r \<Rightarrow> cp_revision p \<le> r) then Some g
      else case cp_removed p of
        None \<Rightarrow> None
      | Some removed \<Rightarrow>
          (let nodes = set_nodes (cp_added p @ cp_updated p) (fold AList.delete removed (set_nodes (cg_nodes g) []))
           in Some \<lparr>cg_revision = Some (cp_revision p), cg_nodes = by_path (map snd nodes),
                cg_edges = filter (\<lambda>e. eg_source e \<in> fst ` set nodes \<and> eg_target e \<in> fst ` set nodes) (cp_edges p)\<rparr>))"

section \<open>Maps of nodes\<close>








section \<open>What the client shows\<close>





lemma snapshot_map_nodes:
  assumes "distinct (map placed_id (gs_nodes s))"
  shows "snapshot_map s i = Some pn \<longleftrightarrow> pn \<in> set (gs_nodes s) \<and> placed_id pn = i"
proof -
  have fold: "map_of (fold (\<lambda>pn m. AList.update (placed_id pn) pn m) ns m) i = Some pn \<longleftrightarrow>
      pn \<in> set ns \<and> placed_id pn = i \<or> i \<notin> placed_id ` set ns \<and> map_of m i = Some pn"
    if "distinct (map placed_id ns)" for ns :: "(node \<times> 'a) list" and m
    using that
  proof (induction ns arbitrary: m)
    case (Cons n ns)
    then show ?case by (auto simp: update_conv)
  qed simp
  show ?thesis using fold [OF assms, of "[]"] by (simp add: snapshot_map_def nodes_by_id_def)
qed

lemma snapshot_map_None:
  assumes "distinct (map placed_id (gs_nodes s))"
  shows "snapshot_map s i = None \<longleftrightarrow> i \<notin> placed_id ` set (gs_nodes s)"
proof (cases "snapshot_map s i")
  case None
  then have "placed_id pn \<noteq> i" if "pn \<in> set (gs_nodes s)" for pn
    using that snapshot_map_nodes [OF assms, of i pn] by auto
  with None show ?thesis by blast
next
  case (Some pn)
  then show ?thesis using snapshot_map_nodes [OF assms, of i pn] by auto
qed




lemma layout_ids: "placed_id ` set (gs_nodes (layout geo ns revision)) = nd_id ` set ns"
  by (force simp: layout_def Let_def placed_id_def)

lemma layout_ids_distinct:
  "distinct (map nd_id ns) \<Longrightarrow> distinct (map placed_id (gs_nodes (layout geo ns revision)))"
proof -
  assume "distinct (map nd_id ns)"
  moreover have "distinct (map nd_id (sort_slice node_path_less ns)) \<longleftrightarrow> distinct (map nd_id ns)"
    by (rule mset_eq_imp_distinct_iff) simp
  ultimately show ?thesis by (simp add: layout_def Let_def placed_id_def comp_def)
qed

section \<open>Applying a patch\<close>



text \<open>Where no node has gone, the patch says \<^verbatim>\<open>null\<close> instead of an empty list, and the renderer fails on every newer patch.\<close>

theorem patch_without_removals_fails:
  assumes "cg_revision g = Some r" and "r < gs_revision c" and "distinct (map placed_id (gs_nodes previous))"
    and "distinct (map placed_id (gs_nodes c))" and "placed_id ` set (gs_nodes previous) \<subseteq> placed_id ` set (gs_nodes c)"
  shows "apply_graph_patch by_path g (received_patch (patch_dto_of (diff_snapshots previous c))) = None"
proof -
  have "i \<notin> set (gp_removed (diff_snapshots previous c))" for i
  proof
    assume "i \<in> set (gp_removed (diff_snapshots previous c))"
    then have "snapshot_map previous i \<noteq> None" "snapshot_map c i = None" unfolding diff_members by simp_all
    with assms(5) show False unfolding snapshot_map_None [OF assms(3)] snapshot_map_None [OF assms(4)] by blast
  qed
  then have "gp_removed (diff_snapshots previous c) = []" by (cases "gp_removed (diff_snapshots previous c)") auto
  with assms(1,2) show ?thesis
    by (simp add: apply_graph_patch_def received_patch_def patch_dto_of_def) (simp add: diff_snapshots_def Let_def)
qed

section \<open>Example\<close>

definition client_node :: "string \<Rightarrow> string \<Rightarrow> node" where
  "client_node i p = zero_node\<lparr>nd_id := i, nd_path := p, nd_parent_path := ''.'', nd_kind := kind_source\<rparr>"

definition client_root :: node where
  "client_root = zero_node\<lparr>nd_id := ''r'', nd_path := ''.'', nd_kind := kind_root\<rparr>"


theorem patch_without_removals_fails_witness:
  "let previous = layout unit_geometry [client_root] 1; new = layout unit_geometry [client_root, client_node ''a'' ''x.go''] 2
   in apply_graph_patch rev (received_snapshot (snapshot_dto_of previous)) (received_patch (patch_dto_of (diff_snapshots previous new))) = None"
proof -
  let ?previous = "layout unit_geometry [client_root] 1" and ?new = "layout unit_geometry [client_root, client_node ''a'' ''x.go''] 2"
  have "distinct (map placed_id (gs_nodes ?previous))" "distinct (map placed_id (gs_nodes ?new))"
    by (rule layout_ids_distinct, simp add: client_root_def client_node_def)+
  moreover have "placed_id ` set (gs_nodes ?previous) \<subseteq> placed_id ` set (gs_nodes ?new)" unfolding layout_ids by simp
  moreover have "cg_revision (received_snapshot (snapshot_dto_of ?previous)) = Some 1" "gs_revision ?new = 2"
    by (simp_all add: received_snapshot_def snapshot_dto_of_def layout_def Let_def)
  ultimately show ?thesis
    unfolding Let_def using patch_without_removals_fails [of "received_snapshot (snapshot_dto_of ?previous)" 1 ?new ?previous rev] by simp
qed

end
