(* ===== verification/Codex_Hook.thy ===== *)
theory Codex_Hook
  imports Project_Scan Protocol
begin

text \<open>
  \<^verbatim>\<open>internal/adapters/codex\<close>: what a Codex hook reports as events.  \<^verbatim>\<open>patch.go\<close> reads the patch text
  of the tool, \<^verbatim>\<open>translate.go\<close> turns a hook into events, \<^verbatim>\<open>hook.go\<close> is the hook program around it.
  JSON decoding is a parameter: a tool input is a map from keys to what the code asks of their values.
\<close>

definition max_hook_input_bytes :: nat where "max_hook_input_bytes = 1048576"
definition max_events_per_hook :: nat where "max_events_per_hook = 128"

section \<open>Evidence and paths\<close>

record file_evidence =
  fe_event_type :: event_type
  fe_operation :: string
  fe_path :: string
  fe_previous_path :: string
  fe_lines_added :: "int option"
  fe_lines_deleted :: "int option"
  fe_is_directory :: "bool option"

definition safe_path :: "string \<Rightarrow> string" where
  "safe_path v0 =
     (let v = trim_space (to_valid v0) in
      if v = [] \<or> CHR 0x00 \<in> set v \<or> 4096 < length v then [] else v)"

definition resolve_path :: "string \<Rightarrow> string \<Rightarrow> string" where
  "resolve_path cwd value0 =
     (let v = safe_path value0 in
      if v = [] then []
      else if is_abs v \<or> cwd = [] \<or> CHR 0x00 \<in> set cwd then limit_text (path_clean v) 4096
      else limit_text (path_clean (path_join [cwd, v])) 4096)"

definition move_kind :: "string \<Rightarrow> string \<Rightarrow> event_type \<times> string" where
  "move_kind old_path new_path =
     (if path_dir old_path = path_dir new_path then (File_renamed, ''rename'') else (File_moved, ''move''))"

section \<open>Patches\<close>

definition add_marker :: string where "add_marker = ''*** Add File: ''"
definition update_marker :: string where "update_marker = ''*** Update File: ''"
definition delete_marker :: string where "delete_marker = ''*** Delete File: ''"
definition move_marker :: string where "move_marker = ''*** Move to: ''"

type_synonym patch_state = "file_evidence option \<times> file_evidence list"

definition finish_patch :: "patch_state \<Rightarrow> patch_state" where
  "finish_patch st = (case st of
     (None, res) \<Rightarrow> (None, res)
   | (Some c, res) \<Rightarrow>
       if safe_path (fe_path c) = [] \<or> max_events_per_hook - 1 \<le> length res then (None, res)
       else (None, res @ [c]))"

definition new_evidence :: "event_type \<Rightarrow> string \<Rightarrow> string \<Rightarrow> file_evidence" where
  "new_evidence t op p = \<lparr>fe_event_type = t, fe_operation = op, fe_path = p, fe_previous_path = [],
     fe_lines_added = Some 0, fe_lines_deleted = Some 0, fe_is_directory = None\<rparr>"

definition bump :: "int option \<Rightarrow> int option" where
  "bump n = map_option (\<lambda>i. i + 1) n"

definition patch_line :: "string \<Rightarrow> patch_state \<Rightarrow> patch_state" where
  "patch_line line st =
     (if has_prefix line add_marker
      then (Some (new_evidence File_created ''create'' (trim_prefix line add_marker)), snd (finish_patch st))
      else if has_prefix line update_marker
      then (Some (new_evidence File_patched ''patch'' (trim_prefix line update_marker)), snd (finish_patch st))
      else if has_prefix line delete_marker
      then (Some (new_evidence File_deleted ''delete'' (trim_prefix line delete_marker)), snd (finish_patch st))
      else case st of
        (None, res) \<Rightarrow> (None, res)
      | (Some c, res) \<Rightarrow>
          if has_prefix line move_marker
          then (let new_path = trim_prefix line move_marker;
                    kind = move_kind (fe_path c) new_path
                in (Some (c\<lparr>fe_event_type := fst kind, fe_operation := snd kind,
                            fe_previous_path := fe_path c, fe_path := new_path\<rparr>), res))
          else if has_prefix line ''+'' then (Some (c\<lparr>fe_lines_added := bump (fe_lines_added c)\<rparr>), res)
          else if has_prefix line ''-'' then (Some (c\<lparr>fe_lines_deleted := bump (fe_lines_deleted c)\<rparr>), res)
          else (Some c, res))"

text \<open>The lines of the scanner, and whether one was too long for its buffer, which discards everything.\<close>

definition patch_lines :: "string \<Rightarrow> string list" where
  "patch_lines text =
     (let ls = split_char (CHR 0x0A) text in if last ls = [] then butlast ls else ls)"

definition parse_patch :: "string \<Rightarrow> file_evidence list" where
  "parse_patch patch =
     (if patch = [] \<or> max_hook_input_bytes < length patch then []
      else
        let ls = patch_lines patch in
        if list_ex (\<lambda>l. max_hook_input_bytes \<le> length l) ls then []
        else snd (finish_patch (fold (\<lambda>l st. patch_line (drop_cr l) st) ls (None, []))))"

section \<open>Structured tool input\<close>

datatype raw_value = Raw_string string | Raw_strings "string list" | Raw_null | Raw_other

type_synonym tool_input = "(string \<rightharpoonup> raw_value) option"

definition raw_string :: "(string \<rightharpoonup> raw_value) \<Rightarrow> string \<Rightarrow> string" where
  "raw_string values key = (case values key of Some (Raw_string s) \<Rightarrow> s | _ \<Rightarrow> [])"

fun first_raw_string :: "(string \<rightharpoonup> raw_value) \<Rightarrow> string list \<Rightarrow> string" where
  "first_raw_string values [] = []"
| "first_raw_string values (k # ks) =
     (let v = safe_path (raw_string values k) in if v \<noteq> [] then v else first_raw_string values ks)"

fun collect_many :: "string list \<Rightarrow> string list \<Rightarrow> string list" where
  "collect_many [] res = res"
| "collect_many (v # vs) res =
     (let p = safe_path v in
      if p \<noteq> [] \<and> p \<notin> set res \<and> length res < max_events_per_hook - 1 then collect_many vs (res @ [p])
      else collect_many vs res)"

fun raw_strings :: "(string \<rightharpoonup> raw_value) \<Rightarrow> string list \<Rightarrow> string list \<Rightarrow> string list" where
  "raw_strings values [] res = res"
| "raw_strings values (k # ks) res =
     raw_strings values ks (case values k of
        Some (Raw_string s) \<Rightarrow> (let p = safe_path s in if p \<noteq> [] \<and> p \<notin> set res then res @ [p] else res)
      | Some (Raw_strings ss) \<Rightarrow> collect_many ss res
      | _ \<Rightarrow> res)"

definition tool_token :: "string \<Rightarrow> string \<Rightarrow> bool" where
  "tool_token name token \<longleftrightarrow> name = token \<or> has_suffix name (''__'' @ token) \<or> has_suffix name (''_'' @ token)"

definition tool_kind :: "string \<Rightarrow> (event_type \<times> string) option" where
  "tool_kind name =
     (if list_ex (tool_token name) [''read_file'', ''read_text_file'', ''view_image''] then Some (File_read, ''read'')
      else if tool_token name ''create_file'' then Some (File_created, ''create'')
      else if list_ex (tool_token name) [''write_file'', ''write_text_file'', ''edit_file'', ''replace_in_file'']
      then Some (File_modified, ''modify'')
      else if list_ex (tool_token name) [''delete_file'', ''remove_file''] then Some (File_deleted, ''delete'')
      else if tool_token name ''create_directory'' then Some (Directory_created, ''create'')
      else if list_ex (tool_token name) [''delete_directory'', ''remove_directory''] then Some (Directory_deleted, ''delete'')
      else None)"

fun structured_evidence :: "event_type \<Rightarrow> string \<Rightarrow> string list \<Rightarrow> file_evidence list \<Rightarrow> file_evidence list" where
  "structured_evidence t op [] res = res"
| "structured_evidence t op (p # ps) res =
     (if safe_path p = [] \<or> max_events_per_hook - 1 \<le> length res then structured_evidence t op ps res
      else structured_evidence t op ps (res @ [\<lparr>fe_event_type = t, fe_operation = op, fe_path = p, fe_previous_path = [],
        fe_lines_added = None, fe_lines_deleted = None,
        fe_is_directory = (if t = Directory_created \<or> t = Directory_deleted then Some True else None)\<rparr>]))"

definition extract_structured :: "string \<Rightarrow> tool_input \<Rightarrow> file_evidence list" where
  "extract_structured tool input =
     (case input of
        None \<Rightarrow> []
      | Some values \<Rightarrow>
          let name = to_lower (map (\<lambda>c. if c = CHR ''-'' then CHR ''_'' else c) tool);
              paths = raw_strings values [''path'', ''file_path'', ''filepath'', ''paths'', ''file_paths''] []
          in case tool_kind name of
            Some (t, op) \<Rightarrow> structured_evidence t op paths []
          | None \<Rightarrow>
              if list_ex (tool_token name) [''rename_file'', ''move_file''] then
                (let old_path = first_raw_string values [''source'', ''source_path'', ''old_path'', ''from''];
                     new_path = first_raw_string values [''destination'', ''destination_path'', ''new_path'', ''to'']
                 in if old_path = [] \<or> new_path = [] then []
                    else let kind = move_kind old_path new_path in
                      [\<lparr>fe_event_type = fst kind, fe_operation = snd kind, fe_path = new_path,
                        fe_previous_path = old_path, fe_lines_added = None, fe_lines_deleted = None,
                        fe_is_directory = None\<rparr>])
              else [])"

definition extract_evidence :: "string \<Rightarrow> tool_input \<Rightarrow> file_evidence list" where
  "extract_evidence tool input =
     (if to_lower tool = ''apply_patch''
      then (case input of None \<Rightarrow> [] | Some values \<Rightarrow> parse_patch (raw_string values ''command''))
      else extract_structured tool input)"

section \<open>Translation\<close>

record hook_input =
  hi_session_id :: string
  hi_cwd :: string
  hi_event_name :: string
  hi_source :: string
  hi_reason :: string
  hi_turn_id :: string
  hi_agent_id :: string
  hi_agent_type :: string
  hi_tool_name :: string
  hi_tool_use_id :: string
  hi_tool_input :: tool_input

definition event_id_text :: "event \<Rightarrow> string \<Rightarrow> nat \<Rightarrow> string" where
  "event_id_text e hook index = join_str [CHR 0x00]
     [session_id e, turn_id e, agent_id e, correlation_id e, hook, event_type_str (event_type e), ev_operation e,
      ev_status e, tool_name e, ev_path e, previous_path e, [char_of index]]"

definition codex_event_id :: "(string \<Rightarrow> string) \<Rightarrow> event \<Rightarrow> string \<Rightarrow> nat \<Rightarrow> string" where
  "codex_event_id hash e hook index = ''codex:'' @ hash (event_id_text e hook index)"

definition base_event :: "string \<Rightarrow> hook_input \<Rightarrow> gotime \<Rightarrow> event" where
  "base_event version i at = zero_event\<lparr>schema_version := schema_version_const, session_id := limit_text (hi_session_id i) 128,
     thread_id := limit_text (hi_session_id i) 128, turn_id := limit_text (hi_turn_id i) 128,
     agent_id := limit_text (hi_agent_id i) 128, agent_type := ''codex'', adapter_id := ''codex-hooks'',
     adapter_version := limit_text version 64, source_type := Source_native_hook, source_confidence := Conf_exact,
     timestamp := at\<rparr>"

definition tool_event :: "event \<Rightarrow> hook_input \<Rightarrow> event_type \<Rightarrow> string \<Rightarrow> event" where
  "tool_event base i t status = base\<lparr>event_type := t, ev_operation := ''tool'', ev_status := status,
     tool_name := limit_text (hi_tool_name i) 256, correlation_id := limit_text (hi_tool_use_id i) 128\<rparr>"

definition evidence_event :: "event \<Rightarrow> hook_input \<Rightarrow> event \<Rightarrow> file_evidence \<Rightarrow> event" where
  "evidence_event base i parent f = base\<lparr>event_type := fe_event_type f, ev_operation := fe_operation f,
     ev_status := ''reported'', tool_name := limit_text (hi_tool_name i) 256,
     correlation_id := limit_text (hi_tool_use_id i) 128, parent_event_id := event_id parent,
     source_confidence := Conf_correlated, ev_path := resolve_path (hi_cwd i) (fe_path f),
     previous_path := resolve_path (hi_cwd i) (fe_previous_path f), lines_added := fe_lines_added f,
     lines_deleted := fe_lines_deleted f, is_directory := fe_is_directory f\<rparr>"

fun add_evidence :: "event \<Rightarrow> hook_input \<Rightarrow> event \<Rightarrow> file_evidence list \<Rightarrow> event list \<Rightarrow> event list" where
  "add_evidence base i parent [] events = events"
| "add_evidence base i parent (f # fs) events =
     (if max_events_per_hook \<le> length events then events
      else
        let e = evidence_event base i parent f in
        if ev_path e = [] \<or> (event_type e = File_moved \<or> event_type e = File_renamed) \<and> previous_path e = []
        then add_evidence base i parent fs events
        else add_evidence base i parent fs (events @ [e]))"

definition raw_events :: "event \<Rightarrow> hook_input \<Rightarrow> event list" where
  "raw_events base i =
     (if hi_event_name i = ''SessionStart'' then
        (if hi_source i = ''compact'' then []
         else [base\<lparr>event_type := Session_started, ev_operation := ''session'', ev_status := limit_text (hi_source i) 64\<rparr>])
      else if hi_event_name i = ''SessionEnd'' then
        [base\<lparr>event_type := Session_stopped, ev_operation := ''session'', ev_status := limit_text (hi_reason i) 64\<rparr>]
      else if hi_event_name i = ''SubagentStart'' then
        [base\<lparr>event_type := Agent_started, agent_type := limit_text (hi_agent_type i) 64,
              ev_operation := ''subagent'', ev_status := ''started''\<rparr>]
      else if hi_event_name i = ''SubagentStop'' then
        [base\<lparr>event_type := Agent_stopped, agent_type := limit_text (hi_agent_type i) 64,
              ev_operation := ''subagent'', ev_status := ''stopped''\<rparr>]
      else if hi_event_name i = ''PreToolUse'' then [tool_event base i Tool_started ''started'']
      else if hi_event_name i = ''PostToolUse'' then
        (let parent = tool_event base i Tool_completed ''completed''
         in add_evidence base i parent (extract_evidence (hi_tool_name i) (hi_tool_input i)) [parent])
      else [])"

definition identify :: "(string \<Rightarrow> string) \<Rightarrow> string \<Rightarrow> nat \<times> event \<Rightarrow> event" where
  "identify hash hook ie = (case ie of (index, e) \<Rightarrow>
     e\<lparr>event_id := codex_event_id hash e hook index, ev_metadata := [(''hook_event'', MString hook)]\<rparr>)"

definition link_parents :: "event list \<Rightarrow> event list" where
  "link_parents events = (case events of
     [] \<Rightarrow> [] | parent # rest \<Rightarrow> parent # map (\<lambda>e. e\<lparr>parent_event_id := event_id parent\<rparr>) rest)"

definition translate :: "(string \<Rightarrow> string) \<Rightarrow> string \<Rightarrow> hook_input \<Rightarrow> gotime \<Rightarrow> event list" where
  "translate hash version i at =
     (let events = map (identify hash (hi_event_name i)) (enumerate 0 (raw_events (base_event version i at) i))
      in if hi_event_name i = ''PostToolUse'' then link_parents events else events)"

section \<open>The hook program\<close>

datatype decode_error = Read_failed | Empty_input | Input_too_large | Bad_json | Event_name_required

text \<open>\<open>payload\<close> is all the input, \<open>parse\<close> the JSON decoder.\<close>

definition decode_hook :: "(string \<Rightarrow> hook_input option) \<Rightarrow> string option \<Rightarrow> decode_error + hook_input" where
  "decode_hook parse payload = (case payload of
     None \<Rightarrow> Inl Read_failed
   | Some text0 \<Rightarrow>
       let text = take (max_hook_input_bytes + 1) text0 in
       if text = [] then Inl Empty_input
       else if max_hook_input_bytes < length text then Inl Input_too_large
       else (case parse text of
           None \<Rightarrow> Inl Bad_json
         | Some i \<Rightarrow> if hi_event_name i = [] then Inl Event_name_required else Inr i))"

text \<open>What \<^verbatim>\<open>Run\<close> hands to the sender; \<open>in_time\<close> tells that decoding ended before the deadline.\<close>

definition run_hook :: "(string \<Rightarrow> string) \<Rightarrow> string \<Rightarrow> (string \<Rightarrow> hook_input option) \<Rightarrow> string option \<Rightarrow> bool \<Rightarrow>
    gotime \<Rightarrow> event list" where
  "run_hook hash version parse payload in_time now =
     (if \<not> in_time then []
      else case decode_hook parse payload of Inl _ \<Rightarrow> [] | Inr i \<Rightarrow> translate hash version i now)"

end
