(* ===== verification/Event_Fields.thy ===== *)
theory Event_Fields
  imports Protocol Paths
begin

text \<open>
  Facts the adapters share about the events they build: when the fields of an event are what the protocol accepts, and that clean
  paths and JSON texts inherit this from their parts.
\<close>

definition nul_free :: "string \<Rightarrow> bool" where
  "nul_free s \<longleftrightarrow> CHR 0x00 \<notin> set s"

definition text_ok :: "string \<Rightarrow> nat \<Rightarrow> bool" where
  "text_ok s n \<longleftrightarrow> utf8_valid s \<and> nul_free s \<and> length s \<le> n"

definition fields_ok :: "event \<Rightarrow> bool" where
  "fields_ok e \<longleftrightarrow> schema_version e = schema_version_const \<and> valid_event_type (event_type e) \<and> valid_source (source_type e) \<and>
     valid_confidence (source_confidence e) \<and> 0 \<le> monotonic_timestamp e \<and> 0 \<le> process_id e \<and>
     list_all (\<lambda>(name, v, n). text_ok v n) (string_fields e) \<and> list_all (\<lambda>(name, v). \<forall>x. v = Some x \<longrightarrow> 0 \<le> x) (number_fields e)"

lemma validate_fields:
  "fields_ok e \<Longrightarrow> event_id e \<noteq> [] \<Longrightarrow> timestamp e \<noteq> 0 \<Longrightarrow> validate_metadata (ev_metadata e) = None \<Longrightarrow> validate e = None"
  by (auto simp: validate_None fields_ok_def list_all_iff text_ok_def nul_free_def)

lemma set_to_valid: "set (to_valid s) \<subseteq> set s"
proof (induction s rule: to_valid.induct)
  case (1 s)
  then show ?case
    by (cases "s = []"; cases "rune_len s = 0")
      (auto simp: to_valid.simps [of s] dest: list.set_sel(2) in_set_takeD in_set_dropD)
qed

lemma nul_limit [simp]: "nul_free v \<Longrightarrow> nul_free (limit_text v n)"
  using set_to_valid [of v] limit_text_prefix [of v n] by (auto simp: nul_free_def dest!: set_mono_prefix)

lemma text_ok_limit [simp]: "nul_free v \<Longrightarrow> n \<le> m \<Longrightarrow> text_ok (limit_text v n) m"
  using limit_text_length [of v n] by (simp add: text_ok_def)

lemma set_join_str: "set (join_str sep ws) \<subseteq> set sep \<union> \<Union> (set ` set ws)"
  by (induction sep ws rule: join_str.induct) auto

lemma clean_elems_set: "set (clean_elems r st ws) \<subseteq> set st \<union> set ws \<union> {''..''}"
  by (induction r st ws rule: clean_elems.induct) (auto split: if_splits list.splits)

lemma set_split_char: "w \<in> set (split_char c s) \<Longrightarrow> set w \<subseteq> set s"
proof (induction s arbitrary: w)
  case (Cons a s)
  then show ?case by (cases "split_char c s") (fastforce split: if_splits)+
qed simp

lemma nul_path_clean [simp]: "nul_free p \<Longrightarrow> nul_free (path_clean p)"
proof -
  assume p: "nul_free p"
  have "nul_free w" if "w \<in> set (clean_elems r [] (split_char slash p))" for w r
  proof -
    have "w = ''..'' \<or> w \<in> set (split_char slash p)" using that clean_elems_set [of r "[]" "split_char slash p"] by auto
    with p set_split_char [of w slash p] show ?thesis by (auto simp: nul_free_def)
  qed
  then show ?thesis
    using set_join_str [of "[slash]" "clean_elems (is_abs p) [] (split_char slash p)"]
    by (fastforce simp: path_clean_def unsplit_def nul_free_def)
qed

lemma length_json_chars: "length (json_chars s) \<le> 6 * length s"
proof (induction s rule: json_chars.induct)
  case (1 s)
  have byte: "length (json_byte c) \<le> 6" for c by (simp add: json_byte_def)
  have rune: "length (json_rune w) \<le> 6 * length w" if "w \<noteq> []" for w
    using that byte [of "hd w"] by (cases w) (auto simp: json_rune_def bytes_def)
  show ?case
  proof (cases "s = [] \<or> rune_len s = 0")
    case True
    with 1(1) show ?thesis by (subst json_chars.simps) (cases s, auto)
  next
    case False
    with 1(2) rune [of "take (rune_len s) s"] rune_len_le_length [of s] show ?thesis by (simp add: json_chars.simps [of s])
  qed
qed

section \<open>Flat metadata\<close>

text \<open>The adapters put a few scalar values under fixed keys into the metadata; such metadata is always accepted.\<close>

fun scalar :: "mvalue \<Rightarrow> bool" where
  "scalar (MBool _) = True"
| "scalar (MInt _) = True"
| "scalar (MSized _) = True"
| "scalar (MString _) = True"
| "scalar _ = False"

definition scalar_ok :: "string \<times> mvalue \<Rightarrow> bool" where
  "scalar_ok kv \<longleftrightarrow> text_ok (fst kv) 128 \<and> scalar (snd kv) \<and> (\<forall>w. json_encode (snd kv) = Some w \<longrightarrow> length w \<le> 1000)"

lemma length_join_str: "\<forall>w \<in> set ws. length w \<le> b \<Longrightarrow> length (join_str sep ws) \<le> length ws * (b + length sep)"
  by (induction sep ws rule: join_str.induct) (auto simp: algebra_simps)

lemma scalar_json: "scalar v \<Longrightarrow> \<exists>w. json_encode v = Some w"
  by (cases v) auto

lemma json_repaired_Nil [simp]: "json_repaired [] = []"
  by (simp add: json_repaired.simps)

lemma json_repaired_id: "utf8_valid s \<Longrightarrow> json_repaired s = s"
proof (induction s rule: json_repaired.induct)
  case (1 s)
  then show ?case
    by (cases "s = []"; cases "rune_len s = 0")
      (auto simp: json_repaired.simps [of s] utf8_valid.simps [of s])
qed

lemma flat_json:
  assumes "list_all scalar_ok md" and "length md \<le> 16"
  shows "\<exists>p. json_encode (MMap md) = Some p \<and> length p \<le> max_metadata_bytes"
proof -
  let ?es = "sort_slice entry_less (map (map_prod id json_encode) md)"
  let ?f = "\<lambda>(k, w). map_option (\<lambda>t. json_string k @ '':'' @ t) w"
  have entry: "\<exists>t. ?f x = Some t \<and> length t \<le> 2000" if "x \<in> set ?es" for x
  proof -
    from that obtain kv where kv: "kv \<in> set md" "x = map_prod id json_encode kv" by auto
    with assms(1) have ok: "scalar_ok kv" by (simp add: list_all_iff)
    then obtain w where w: "json_encode (snd kv) = Some w" "length w \<le> 1000" using scalar_json by (auto simp: scalar_ok_def)
    moreover have "length (json_string (fst kv)) \<le> 6 * 128 + 2"
      using ok length_json_chars [of "fst kv"] by (simp add: json_string_def scalar_ok_def text_ok_def)
    ultimately show ?thesis using kv(2) by (cases kv) simp
  qed
  then have "None \<notin> set (map ?f ?es)" by force
  then have j: "join_opt (map ?f ?es) = Some (join_str '','' (map the (map ?f ?es)))" by (simp add: join_opt_def del: map_map)
  have "\<forall>w \<in> set (map the (map ?f ?es)). length w \<le> 2000" using entry by fastforce
  from length_join_str [OF this, of "'',''"] assms(2)
  have "length (join_str '','' (map the (map ?f ?es))) \<le> 16 * 2001"
    by (simp del: map_map)
  moreover have "json_encode (MMap md) = Some (''{'' @ join_str '','' (map the (map ?f ?es)) @ ''}'')"
    using j by (simp add: bracket_def del: map_map)
  ultimately show ?thesis by (auto simp: max_metadata_bytes_def)
qed

lemma update_leaves:
  assumes "list_all (\<lambda>(k, t). t = JLeaf \<and> P (json_repaired k)) xs" and "list_all (\<lambda>(k, t). t = JLeaf \<and> P k) m"
  shows "list_all (\<lambda>(k, t). t = JLeaf \<and> P k) (foldl (\<lambda>m (k, t). AList.update (json_repaired k) t m) m xs) \<and>
    length (foldl (\<lambda>m (k, t). AList.update (json_repaired k) t m) m xs) \<le> length m + length xs"
  using assms
proof (induction xs arbitrary: m)
  case (Cons x xs)
  obtain k t where x: "x = (k, t)" by (cases x)
  have upd: "list_all Q (AList.update a b l) \<and> length (AList.update a b l) \<le> Suc (length l)"
    if "list_all Q l" "Q (a, b)" for Q :: "string \<times> jtree \<Rightarrow> bool" and a b l
    using that by (induction l) auto
  have "list_all (\<lambda>(k, t). t = JLeaf \<and> P k) (AList.update (json_repaired k) t m) \<and>
      length (AList.update (json_repaired k) t m) \<le> Suc (length m)"
    by (rule upd) (use Cons.prems x in auto)
  with Cons.IH [of "AList.update (json_repaired k) t m"] Cons.prems x show ?case by simp
qed simp

lemma flat_tree:
  assumes "list_all (\<lambda>(k, t). t = JLeaf \<and> P k) kts"
  shows "members_height kts \<le> 1" and "members_entries kts = length kts" and "\<forall>k \<in> members_keys kts. P k"
    and "tree_depth (JObj kts) \<le> 1"
proof -
  have "members_height kts \<le> 1 \<and> members_entries kts = length kts \<and> (\<forall>k \<in> members_keys kts. P k)"
    using assms by (induction kts) auto
  then show "members_height kts \<le> 1" and "members_entries kts = length kts" and "\<forall>k \<in> members_keys kts. P k" by blast+
  have zero: "insert 0 (set (map (\<lambda>(k, t). tree_depth t) kts)) = {0}"
    using assms by (auto simp: list_all_iff)
  show "tree_depth (JObj kts) \<le> 1" unfolding tree_depth.simps zero by simp
qed

lemma flat_metadata_ok:
  assumes "list_all scalar_ok md" and "length md \<le> 16"
  shows "validate_metadata md = None"
proof -
  let ?P = "\<lambda>k. validate_string ''metadata key'' k 128 = None"
  let ?xs = "sort_slice entry_less (map (map_prod id json_tree) md)"
  define kts where "kts = foldl (\<lambda>m (k, t). AList.update (json_repaired k) t m) [] ?xs"
  have "list_all (\<lambda>(k, t). t = JLeaf \<and> ?P (json_repaired k)) ?xs"
  proof (unfold list_all_iff, intro ballI)
    fix x
    assume "x \<in> set ?xs"
    then obtain kv where kv: "kv \<in> set md" "x = map_prod id json_tree kv" by auto
    with assms(1) have ok: "scalar_ok kv" by (simp add: list_all_iff)
    then have "json_tree (snd kv) = JLeaf" by (cases "snd kv") (auto simp: scalar_ok_def)
    moreover have "?P (json_repaired (fst kv))"
      using ok by (simp add: scalar_ok_def text_ok_def nul_free_def json_repaired_id validate_string_None)
    ultimately show "case x of (k, t) \<Rightarrow> t = JLeaf \<and> ?P (json_repaired k)" using kv(2) by (cases kv) simp
  qed
  from update_leaves [where P = ?P, OF this, of "[]"]
  have kts: "list_all (\<lambda>(k, t). t = JLeaf \<and> ?P k) kts" "length kts \<le> 16"
    using assms(2) by (simp_all add: kts_def del: validate_string_None)
  note t = flat_tree [OF kts(1)]
  have tree: "json_tree (MMap md) = JObj kts" by (simp add: kts_def)
  obtain p where "json_encode (MMap md) = Some p" "length p \<le> max_metadata_bytes" using flat_json [OF assms] by blast
  with t kts(2) show ?thesis
    unfolding validate_metadata_None tree
    by (auto simp: max_metadata_depth_def max_metadata_entries_def max_nesting_def keys_ok_def
        simp del: json_encode.simps tree_depth.simps validate_string_None)
qed

end
