(* ===== verification/Codex_Props.thy ===== *)
theory Codex_Props
  imports Codex_Hook Diff_Lines Security Event_Fields
begin

text \<open>
  Properties of the Codex adapter of \<^verbatim>\<open>Codex_Hook\<close>: a patch that is written out is read back, a hook
  reports a bounded number of events with different identifiers, and what it reports is valid.
\<close>

section \<open>Reading back a patch\<close>

text \<open>The operations of a patch and their text.\<close>

datatype patch_op =
    Patch_add string "hunk_line list"
  | Patch_update string "hunk_line list"
  | Patch_move string string "hunk_line list"
  | Patch_delete string

fun op_lines :: "patch_op \<Rightarrow> string list" where
  "op_lines (Patch_add p ls) = (add_marker @ p) # map show_line ls"
| "op_lines (Patch_update p ls) = (update_marker @ p) # map show_line ls"
| "op_lines (Patch_move p q ls) = (update_marker @ p) # (move_marker @ q) # map show_line ls"
| "op_lines (Patch_delete p) = [delete_marker @ p]"

definition count_added :: "hunk_line list \<Rightarrow> int" where
  "count_added ls = int (length (filter is_added ls))"

definition count_deleted :: "hunk_line list \<Rightarrow> int" where
  "count_deleted ls = int (length (filter is_deleted ls))"

fun op_evidence :: "patch_op \<Rightarrow> file_evidence" where
  "op_evidence (Patch_add p ls) = (new_evidence File_created ''create'' p)
     \<lparr>fe_lines_added := Some (count_added ls), fe_lines_deleted := Some (count_deleted ls)\<rparr>"
| "op_evidence (Patch_update p ls) = (new_evidence File_patched ''patch'' p)
     \<lparr>fe_lines_added := Some (count_added ls), fe_lines_deleted := Some (count_deleted ls)\<rparr>"
| "op_evidence (Patch_move p q ls) = (new_evidence (fst (move_kind p q)) (snd (move_kind p q)) q)
     \<lparr>fe_previous_path := p, fe_lines_added := Some (count_added ls), fe_lines_deleted := Some (count_deleted ls)\<rparr>"
| "op_evidence (Patch_delete p) = new_evidence File_deleted ''delete'' p"

text \<open>Texts a line can hold: no line break, and no carriage return at the end.\<close>

definition line_ok :: "string \<Rightarrow> bool" where
  "line_ok s \<longleftrightarrow> CHR 0x0A \<notin> set s \<and> \<not> has_suffix s [CHR 0x0D]"

definition path_ok :: "string \<Rightarrow> bool" where
  "path_ok p \<longleftrightarrow> line_ok p \<and> safe_path p \<noteq> []"

fun op_ok :: "patch_op \<Rightarrow> bool" where
  "op_ok (Patch_add p ls) \<longleftrightarrow> path_ok p \<and> list_all (\<lambda>l. line_ok (line_text l)) ls"
| "op_ok (Patch_update p ls) \<longleftrightarrow> path_ok p \<and> list_all (\<lambda>l. line_ok (line_text l)) ls"
| "op_ok (Patch_move p q ls) \<longleftrightarrow> path_ok p \<and> path_ok q \<and> list_all (\<lambda>l. line_ok (line_text l)) ls"
| "op_ok (Patch_delete p) \<longleftrightarrow> path_ok p"

definition patch_text :: "patch_op list \<Rightarrow> string" where
  "patch_text ops = concat (map (\<lambda>l. l @ [CHR 0x0A]) (''*** Begin Patch'' # concat (map op_lines ops) @ [''*** End Patch'']))"

lemma drop_cr_ok [simp]: "line_ok s \<Longrightarrow> drop_cr s = s"
  by (simp add: drop_cr_def trim_suffix_def line_ok_def)

lemma line_ok_append [simp]: "q \<noteq> [] \<Longrightarrow> line_ok (p @ q) \<longleftrightarrow> CHR 0x0A \<notin> set p \<and> line_ok q"
  by (auto simp: line_ok_def has_suffix_def suffix_def append_eq_append_conv2 Cons_eq_append_conv append_eq_Cons_conv)

lemma line_ok_show [simp]: "line_ok (line_text l) \<Longrightarrow> line_ok (show_line l)"
  by (cases l) (auto simp: line_ok_def has_suffix_def suffix_def Cons_eq_append_conv)

lemma path_ok_nonempty: "path_ok p \<Longrightarrow> p \<noteq> []"
  by (auto simp: path_ok_def safe_path_def)

lemmas markers = add_marker_def update_marker_def delete_marker_def move_marker_def

lemma marker_prefix [simp]:
  "has_prefix (add_marker @ p) add_marker" "has_prefix (update_marker @ p) update_marker"
  "has_prefix (delete_marker @ p) delete_marker" "has_prefix (move_marker @ p) move_marker"
  "\<not> has_prefix (update_marker @ p) add_marker" "\<not> has_prefix (delete_marker @ p) add_marker"
  "\<not> has_prefix (delete_marker @ p) update_marker" "\<not> has_prefix (move_marker @ p) add_marker"
  "\<not> has_prefix (move_marker @ p) update_marker" "\<not> has_prefix (move_marker @ p) delete_marker"
  by (simp_all add: has_prefix_def markers)

lemma marker_trim [simp]:
  "trim_prefix (add_marker @ p) add_marker = p" "trim_prefix (update_marker @ p) update_marker = p"
  "trim_prefix (delete_marker @ p) delete_marker = p" "trim_prefix (move_marker @ p) move_marker = p"
  by (simp_all add: trim_prefix_def)

lemma show_line_marker [simp]:
  "\<not> has_prefix (show_line l) add_marker" "\<not> has_prefix (show_line l) update_marker"
  "\<not> has_prefix (show_line l) delete_marker" "\<not> has_prefix (show_line l) move_marker"
  by (cases l; simp add: has_prefix_def markers)+

lemma patch_hunk:
  "fe_lines_added c = Some a \<Longrightarrow> fe_lines_deleted c = Some d \<Longrightarrow>
   fold patch_line (map show_line ls) (Some c, res) =
     (Some (c\<lparr>fe_lines_added := Some (a + count_added ls), fe_lines_deleted := Some (d + count_deleted ls)\<rparr>), res)"
proof (induction ls arbitrary: c a d)
  case (Cons l ls)
  show ?case
  proof (cases l)
    case (Context s)
    with Cons show ?thesis by (simp add: patch_line_def count_added_def count_deleted_def has_prefix_def markers)
  next
    case (Added s)
    with Cons.IH [of "c\<lparr>fe_lines_added := Some (a + 1)\<rparr>" "a + 1" d] Cons.prems show ?thesis
      by (simp add: patch_line_def count_added_def count_deleted_def bump_def has_prefix_def markers)
  next
    case (Deleted s)
    with Cons.IH [of "c\<lparr>fe_lines_deleted := Some (d + 1)\<rparr>" a "d + 1"] Cons.prems show ?thesis
      by (simp add: patch_line_def count_added_def count_deleted_def bump_def has_prefix_def markers)
  qed
qed (simp add: count_added_def count_deleted_def)

lemma patch_op_step: "fold patch_line (op_lines op) st = (Some (op_evidence op), snd (finish_patch st))"
proof (cases op)
  case (Patch_move p q ls)
  then show ?thesis
    using patch_hunk [of "(new_evidence (fst (move_kind p q)) (snd (move_kind p q)) q)\<lparr>fe_previous_path := p\<rparr>" 0 0 ls "snd (finish_patch st)"]
    by (simp add: patch_line_def new_evidence_def Let_def)
qed (simp_all add: patch_line_def patch_hunk new_evidence_def)

lemma op_evidence_path: "op_ok op \<Longrightarrow> safe_path (fe_path (op_evidence op)) \<noteq> []"
  by (cases op) (simp_all add: path_ok_def new_evidence_def)

lemma patch_ops_fold:
  "list_all op_ok ops \<Longrightarrow> length (snd (finish_patch st)) + length ops \<le> max_events_per_hook - 1 \<Longrightarrow>
   snd (finish_patch (fold patch_line (concat (map op_lines ops)) st)) = snd (finish_patch st) @ map op_evidence ops"
proof (induction ops arbitrary: st)
  case (Cons op ops)
  let ?st = "(Some (op_evidence op), snd (finish_patch st))"
  have "snd (finish_patch ?st) = snd (finish_patch st) @ [op_evidence op]"
    using Cons.prems op_evidence_path [of op] by (simp add: finish_patch_def)
  with Cons.IH [of ?st] Cons.prems show ?case by (simp add: patch_op_step)
qed simp

lemma split_lines_text:
  "list_all (\<lambda>l. CHR 0x0A \<notin> set l) ls \<Longrightarrow> split_char (CHR 0x0A) (concat (map (\<lambda>l. l @ [CHR 0x0A]) ls)) = ls @ [[]]"
  by (induction ls) (simp_all add: split_char_append)

lemma op_lines_ok: "op_ok op \<Longrightarrow> list_all line_ok (op_lines op)"
  by (cases op) (auto simp: list_all_iff path_ok_nonempty path_ok_def markers simp flip: append_Cons
      dest: path_ok_nonempty [unfolded path_ok_def])

text \<open>C19: what the patch tool is given is what is reported.  A patch that adds, updates, moves and deletes files is read
  back as exactly these operations, each with its number of added and deleted lines, as long as it has at most 127 of them.\<close>

theorem patch_read_back:
  assumes "list_all op_ok ops" and "length ops < max_events_per_hook"
    and "length (patch_text ops) \<le> max_hook_input_bytes"
  shows "parse_patch (patch_text ops) = map op_evidence ops"
proof -
  let ?ls = "''*** Begin Patch'' # concat (map op_lines ops) @ [''*** End Patch'']"
  have "list_all line_ok (concat (map op_lines ops))"
    using assms(1) op_lines_ok by (induction ops) auto
  then have ok: "list_all line_ok ?ls" by (simp add: line_ok_def has_suffix_def suffix_def Cons_eq_append_conv)
  then have nl: "list_all (\<lambda>l. CHR 0x0A \<notin> set l) ?ls" by (auto simp: list_all_iff line_ok_def)
  have lines: "patch_lines (patch_text ops) = ?ls"
    using split_lines_text [OF nl] by (simp add: patch_lines_def patch_text_def butlast_append)
  have "length l < length (patch_text ops)" if "l \<in> set ?ls" for l
  proof -
    from that obtain us vs where "?ls = us @ l # vs" by (meson split_list)
    then show ?thesis unfolding patch_text_def by simp
  qed
  then have short: "\<not> list_ex (\<lambda>l. max_hook_input_bytes \<le> length l) ?ls"
    using assms(3) by (fastforce simp: list_ex_iff)
  have cr: "fold (\<lambda>l st. patch_line (drop_cr l) st) xs st = fold patch_line xs st" if "list_all line_ok xs" for xs st
    using that by (induction xs arbitrary: st) simp_all
  have ends: "patch_line ''*** Begin Patch'' (None, []) = (None, [])" "patch_line ''*** End Patch'' (c, res) = (c, res)" for c res
    by (simp_all add: patch_line_def has_prefix_def markers split: option.splits)
  have "snd (finish_patch (fold patch_line ?ls (None, []))) = map op_evidence ops"
    using patch_ops_fold [OF assms(1), of "(None, [])"] assms(2) ends
    by (cases "fold patch_line (concat (map op_lines ops)) (None, [])") (simp add: finish_patch_def max_events_per_hook_def)
  then show ?thesis using lines short assms(3) cr [OF ok] by (simp add: parse_patch_def Let_def patch_text_def)
qed

section \<open>Events of a hook\<close>

lemma add_evidence_bound:
  "length events \<le> max_events_per_hook \<Longrightarrow> length (add_evidence base i parent fs events) \<le> max_events_per_hook"
  by (induction base i parent fs events rule: add_evidence.induct) (auto simp: Let_def)

lemma length_link_parents [simp]: "length (link_parents es) = length es"
  by (simp add: link_parents_def split: list.splits)

lemma raw_events_bound: "length (raw_events base i) \<le> max_events_per_hook"
  using add_evidence_bound [of "[tool_event base i Tool_completed ''completed'']" base i]
  by (simp add: raw_events_def Let_def max_events_per_hook_def)

text \<open>A hook reports at most 128 events, however many files the tool names.\<close>

theorem translate_bounded: "length (translate hash version i at) \<le> max_events_per_hook"
  using raw_events_bound [of "base_event version i at" i] by (simp add: translate_def Let_def)

lemma event_id_link [simp]: "map event_id (link_parents es) = map event_id es"
  by (simp add: link_parents_def comp_def split: list.splits)

lemma join_last: "ws \<noteq> [] \<Longrightarrow> join_str sep (ws @ [[c]]) \<noteq> [] \<and> last (join_str sep (ws @ [[c]])) = c"
  by (simp add: join_str_snoc)

lemma event_id_text_index:
  assumes "event_id_text e hook k = event_id_text f hook l" and "k < 256" and "l < 256"
  shows "k = l"
proof -
  have "last (event_id_text e hook n) = char_of n" for e n
    using join_last [of "[session_id e, turn_id e, agent_id e, correlation_id e, hook, event_type_str (event_type e), ev_operation e,
      ev_status e, tool_name e, ev_path e, previous_path e]" "[CHR 0x00]" "char_of n"]
    by (simp add: event_id_text_def)
  with assms(1) have "(char_of k :: char) = char_of l" by metis
  with assms(2,3) show ?thesis by (metis char_of_eq_iff of_char_of of_nat_id mod_less)
qed

text \<open>The events of one hook have different identifiers, as far as the hash separates different texts; so the journal,
  which keeps one event per identifier, loses none of them.\<close>

theorem translate_distinct_ids:
  assumes "inj hash"
  shows "distinct (map event_id (translate hash version i at))"
proof -
  let ?es = "raw_events (base_event version i at) i"
  have len: "length ?es \<le> 128" using raw_events_bound [of "base_event version i at" i] by (simp add: max_events_per_hook_def)
  have "distinct (map event_id (map (identify hash (hi_event_name i)) (enumerate 0 ?es)))"
    unfolding distinct_conv_nth
  proof (intro allI impI)
    fix k l assume kl: "k < length (map event_id (map (identify hash (hi_event_name i)) (enumerate 0 ?es)))"
      "l < length (map event_id (map (identify hash (hi_event_name i)) (enumerate 0 ?es)))" "k \<noteq> l"
    then have "event_id_text (?es ! k) (hi_event_name i) k \<noteq> event_id_text (?es ! l) (hi_event_name i) l"
      using event_id_text_index [of "?es ! k" "hi_event_name i" k "?es ! l" l] len by auto
    with assms kl show "map event_id (map (identify hash (hi_event_name i)) (enumerate 0 ?es)) ! k \<noteq>
        map event_id (map (identify hash (hi_event_name i)) (enumerate 0 ?es)) ! l"
      by (auto simp: identify_def codex_event_id_def nth_enumerate_eq dest: injD)
  qed
  then show ?thesis
    by (cases "hi_event_name i = ''PostToolUse''") (simp_all add: translate_def Let_def del: map_map)
qed

section \<open>Validity of the events\<close>

lemma text_ok_constants [simp]:
  "text_ok [] n" "text_ok ''codex'' 64" "text_ok ''codex-hooks'' 128" "text_ok ''session'' 64" "text_ok ''subagent'' 64"
  "text_ok ''started'' 64" "text_ok ''stopped'' 64" "text_ok ''tool'' 64" "text_ok ''completed'' 64" "text_ok ''reported'' 64"
  "text_ok ''create'' 64" "text_ok ''patch'' 64" "text_ok ''delete'' 64" "text_ok ''rename'' 64" "text_ok ''move'' 64"
  "text_ok ''read'' 64" "text_ok ''modify'' 64"
  by (simp add: text_ok_def nul_free_def, code_simp+)

lemma nul_safe_path [simp]: "nul_free (safe_path v)"
  by (simp add: safe_path_def Let_def nul_free_def)

lemma text_ok_resolve [simp]: "text_ok (resolve_path cwd v) 4096"
proof -
  have "nul_free (path_join [cwd, safe_path v])" if "CHR 0x00 \<notin> set cwd"
    using that nul_safe_path [of v] by (auto simp: path_join_def nul_free_def intro!: nul_path_clean [unfolded nul_free_def])
  then show ?thesis by (simp add: resolve_path_def Let_def)
qed

text \<open>What the adapter finds in the tool input keeps the counters at zero or above and a known kind of operation.\<close>

definition evidence_ok :: "file_evidence \<Rightarrow> bool" where
  "evidence_ok f \<longleftrightarrow> valid_event_type (fe_event_type f) \<and> text_ok (fe_operation f) 64 \<and>
     (\<forall>x. fe_lines_added f = Some x \<longrightarrow> 0 \<le> x) \<and> (\<forall>x. fe_lines_deleted f = Some x \<longrightarrow> 0 \<le> x)"

definition patch_state_ok :: "patch_state \<Rightarrow> bool" where
  "patch_state_ok st \<longleftrightarrow> (\<forall>c. fst st = Some c \<longrightarrow> evidence_ok c) \<and> list_all evidence_ok (snd st)"

lemma move_kind_ok [simp]: "valid_event_type (fst (move_kind p q))" "text_ok (snd (move_kind p q)) 64"
  by (simp_all add: move_kind_def)

lemma new_evidence_ok [simp]:
  "evidence_ok (new_evidence t op p) \<longleftrightarrow> valid_event_type t \<and> text_ok op 64"
  by (simp add: evidence_ok_def new_evidence_def)

lemma finish_patch_ok: "patch_state_ok st \<Longrightarrow> patch_state_ok (finish_patch st)"
  by (auto simp: patch_state_ok_def finish_patch_def split: option.splits prod.splits)

lemma patch_line_ok: "patch_state_ok st \<Longrightarrow> patch_state_ok (patch_line l st)"
proof (cases "has_prefix l add_marker \<or> has_prefix l update_marker \<or> has_prefix l delete_marker")
  case True
  assume "patch_state_ok st"
  then have "list_all evidence_ok (snd (finish_patch st))" using finish_patch_ok by (simp add: patch_state_ok_def)
  with True show ?thesis by (auto simp: patch_line_def patch_state_ok_def)
next
  case False
  assume "patch_state_ok st"
  with False show ?thesis
    by (cases st; cases "fst st") (auto simp: patch_line_def patch_state_ok_def evidence_ok_def bump_def Let_def)
qed

lemma parse_patch_ok: "list_all evidence_ok (parse_patch p)"
proof -
  have "patch_state_ok (fold (\<lambda>l st. patch_line (drop_cr l) st) ls st)" if "patch_state_ok st" for ls st
    using that by (induction ls arbitrary: st) (simp_all add: patch_line_ok)
  from finish_patch_ok [OF this [of "(None, [])"]] show ?thesis
    by (simp add: parse_patch_def Let_def patch_state_ok_def)
qed

lemma structured_evidence_ok:
  "valid_event_type t \<Longrightarrow> text_ok op 64 \<Longrightarrow> list_all evidence_ok res \<Longrightarrow> list_all evidence_ok (structured_evidence t op ps res)"
  by (induction t op ps res rule: structured_evidence.induct) (simp_all add: evidence_ok_def)

lemma tool_kind_ok: "tool_kind name = Some (t, op) \<Longrightarrow> valid_event_type t \<and> text_ok op 64"
  by (auto simp: tool_kind_def split: if_splits)

lemma extract_structured_ok: "list_all evidence_ok (extract_structured tool input)"
proof (cases input)
  case (Some m)
  let ?name = "to_lower (map (\<lambda>c. if c = CHR ''-'' then CHR ''_'' else c) tool)"
  show ?thesis
  proof (cases "tool_kind ?name")
    case None
    with Some show ?thesis by (simp add: extract_structured_def Let_def evidence_ok_def)
  next
    case (Some k)
    with tool_kind_ok [of ?name "fst k" "snd k"] \<open>input = Some m\<close> show ?thesis
      by (cases k) (simp add: extract_structured_def Let_def structured_evidence_ok)
  qed
qed (simp add: extract_structured_def)

lemma extract_evidence_ok: "list_all evidence_ok (extract_evidence tool input)"
  by (simp add: extract_evidence_def extract_structured_ok parse_patch_ok split: option.split)

text \<open>The texts a hook copies into its events hold no zero byte.\<close>

definition hook_nul_free :: "hook_input \<Rightarrow> bool" where
  "hook_nul_free i \<longleftrightarrow> list_all nul_free [hi_session_id i, hi_source i, hi_reason i, hi_turn_id i, hi_agent_id i, hi_agent_type i,
     hi_tool_name i, hi_tool_use_id i]"

lemmas event_fields = base_event_def zero_event_def fields_ok_def string_fields_def number_fields_def hook_nul_free_def

lemma tool_event_ok:
  "hook_nul_free i \<Longrightarrow> nul_free version \<Longrightarrow> valid_event_type t \<Longrightarrow> text_ok st 64 \<Longrightarrow>
   fields_ok (tool_event (base_event version i at) i t st)"
  by (simp add: tool_event_def event_fields)

lemma evidence_event_ok:
  "hook_nul_free i \<Longrightarrow> nul_free version \<Longrightarrow> evidence_ok f \<Longrightarrow> event_id parent = [] \<Longrightarrow>
   fields_ok (evidence_event (base_event version i at) i parent f)"
  by (simp add: evidence_event_def evidence_ok_def event_fields)

lemma add_evidence_ok:
  "hook_nul_free i \<Longrightarrow> nul_free version \<Longrightarrow> event_id parent = [] \<Longrightarrow> list_all evidence_ok fs \<Longrightarrow> list_all fields_ok es \<Longrightarrow>
   list_all fields_ok (add_evidence (base_event version i at) i parent fs es)"
  by (induction fs arbitrary: es) (simp_all add: Let_def evidence_event_ok)

lemma session_event_ok:
  "hook_nul_free i \<Longrightarrow> nul_free version \<Longrightarrow> valid_event_type t \<Longrightarrow> text_ok st 64 \<Longrightarrow> text_ok ag 64 \<Longrightarrow> text_ok op 64 \<Longrightarrow>
   fields_ok ((base_event version i at)\<lparr>event_type := t, agent_type := ag, ev_operation := op, ev_status := st\<rparr>)"
  "hook_nul_free i \<Longrightarrow> nul_free version \<Longrightarrow> valid_event_type t \<Longrightarrow> text_ok st 64 \<Longrightarrow> text_ok op 64 \<Longrightarrow>
   fields_ok ((base_event version i at)\<lparr>event_type := t, ev_operation := op, ev_status := st\<rparr>)"
  by (simp_all add: event_fields)

lemma raw_events_ok:
  assumes "hook_nul_free i" and "nul_free version"
  shows "list_all fields_ok (raw_events (base_event version i at) i)"
proof -
  have parent: "event_id (tool_event (base_event version i at) i t st) = []" for t st
    by (simp add: tool_event_def base_event_def zero_event_def)
  have free: "nul_free (hi_source i)" "nul_free (hi_reason i)" "nul_free (hi_agent_type i)"
    using assms by (simp_all add: hook_nul_free_def)
  show ?thesis
    using assms free by (simp add: raw_events_def Let_def session_event_ok tool_event_ok add_evidence_ok parent extract_evidence_ok)
qed

lemma add_evidence_time:
  "list_all (\<lambda>e. timestamp e = timestamp base) es \<Longrightarrow>
   list_all (\<lambda>e. timestamp e = timestamp base) (add_evidence base i parent fs es)"
  by (induction base i parent fs es rule: add_evidence.induct) (simp_all add: Let_def evidence_event_def)

lemma raw_events_time: "list_all (\<lambda>e. timestamp e = at) (raw_events (base_event version i at) i)"
  using add_evidence_time [of "base_event version i at" "[tool_event (base_event version i at) i Tool_completed ''completed'']"]
  by (simp add: raw_events_def Let_def tool_event_def base_event_def)

lemma hook_names: "raw_events base i \<noteq> [] \<Longrightarrow>
  hi_event_name i \<in> {''SessionStart'', ''SessionEnd'', ''SubagentStart'', ''SubagentStop'', ''PreToolUse'', ''PostToolUse''}"
  by (auto simp: raw_events_def split: if_splits)

lemma hook_json:
  "\<exists>p. json_encode (MMap [(''hook_event'', MString n)]) = Some p \<and> length p \<le> 6 * length n + 70"
  using length_json_chars [of n] length_json_chars [of "''hook_event''"]
  by (simp add: json_string_def join_opt_def bracket_def)

lemma hook_tree: "json_tree (MMap [(''hook_event'', MString n)]) = JObj [(''hook_event'', JLeaf)]"
  by code_simp

lemma hook_metadata_ok:
  assumes "length n \<le> 10000"
  shows "validate_metadata [(''hook_event'', MString n)] = None"
proof -
  obtain p where "json_encode (MMap [(''hook_event'', MString n)]) = Some p" "length p \<le> 6 * length n + 70" using hook_json by blast
  moreover have "keys_ok {''hook_event''}" by (simp add: validate_string_def, code_simp)
  ultimately show ?thesis using assms
    by (simp add: validate_metadata_None hook_tree max_metadata_bytes_def max_metadata_depth_def max_metadata_entries_def max_nesting_def
        del: json_encode.simps json_tree.simps)
qed

lemma translate_events_valid:
  assumes "hook_nul_free i" and "nul_free version" and "at \<noteq> 0"
    and "\<And>t. text_ok (''codex:'' @ hash t) 128"
  shows "list_all (\<lambda>e. validate e = None) (translate hash version i at)"
proof -
  let ?b = "base_event version i at"
  let ?es = "map (identify hash (hi_event_name i)) (enumerate 0 (raw_events ?b i))"
  define good where "good e \<longleftrightarrow> fields_ok e \<and> event_id e \<noteq> [] \<and> text_ok (event_id e) 128 \<and> timestamp e \<noteq> 0 \<and> validate_metadata (ev_metadata e) = None" for e :: event
  have times: "list_all (\<lambda>e. timestamp e = at) (raw_events ?b i)"
    by (rule raw_events_time)
  have "good e" if "e \<in> set ?es" for e
  proof -
    from that obtain k where k: "k < length (raw_events ?b i)" "e = identify hash (hi_event_name i) (k, raw_events ?b i ! k)"
      by (auto simp: in_set_enumerate_eq)
    define r where "r = raw_events ?b i ! k"
    with k have r: "r \<in> set (raw_events ?b i)" "e = identify hash (hi_event_name i) (k, r)" by auto
    then have "length (hi_event_name i) \<le> 10000" using hook_names [of ?b i] by force
    with r raw_events_ok [OF assms(1,2), of at] times assms(3,4) show ?thesis
      by (auto simp: good_def identify_def codex_event_id_def list_all_iff fields_ok_def string_fields_def number_fields_def hook_metadata_ok)
  qed
  then have "list_all good ?es" by (simp add: list_all_iff)
  moreover have "good (e\<lparr>parent_event_id := event_id p\<rparr>)" if "good e" and "good p" for e p
    using that by (simp add: good_def fields_ok_def string_fields_def number_fields_def)
  ultimately have "list_all good (link_parents ?es)"
    by (cases ?es) (simp_all add: link_parents_def list_all_iff del: map_eq_Cons_conv)
  with \<open>list_all good ?es\<close> have "list_all good (translate hash version i at)"
    by (cases "hi_event_name i = ''PostToolUse''") (simp_all add: translate_def Let_def)
  then show ?thesis by (auto simp: list_all_iff good_def intro: validate_fields)
qed

text \<open>C20: every event made of a hook whose texts have no zero byte is one the protocol accepts, when the clock does not give the
  zero time and the hash is a text of at most 122 bytes.  The texts are the identifiers and names of session, turn, agent and
  tool, the source, the reason and the type of agent; their length, their encoding and what the paths hold do not matter.
  Nothing in the hook program makes sure that these texts have no zero byte, see below.\<close>

theorem translate_valid:
  assumes "hook_nul_free i" and "nul_free version" and "at \<noteq> 0"
    and "\<And>t. text_ok (''codex:'' @ hash t) 128"
  shows "list_all (\<lambda>e. validate e = None) (translate hash version i at)"
  using assms by (rule translate_events_valid)

lemma add_evidence_session:
  "list_all (\<lambda>e. session_id e = session_id base) es \<Longrightarrow>
   list_all (\<lambda>e. session_id e = session_id base) (add_evidence base i parent fs es)"
  by (induction base i parent fs es rule: add_evidence.induct) (simp_all add: Let_def evidence_event_def)

lemma raw_events_session: "list_all (\<lambda>e. session_id e = session_id base) (raw_events base i)"
  using add_evidence_session [of base "[tool_event base i Tool_completed ''completed'']"]
  by (simp add: raw_events_def Let_def tool_event_def)

lemma translate_session:
  assumes "e \<in> set (translate hash version i at)"
  shows "session_id e = limit_text (hi_session_id i) 128"
proof -
  let ?es = "map (identify hash (hi_event_name i)) (enumerate 0 (raw_events (base_event version i at) i))"
  have "list_all (\<lambda>e. session_id e = limit_text (hi_session_id i) 128) ?es"
    using raw_events_session [of "base_event version i at" i]
    by (auto simp: list_all_iff identify_def base_event_def in_set_enumerate_eq)
  moreover from this have "list_all (\<lambda>e. session_id e = limit_text (hi_session_id i) 128) (link_parents ?es)"
    by (cases ?es) (simp_all add: link_parents_def list_all_iff del: map_eq_Cons_conv)
  ultimately show ?thesis using assms by (auto simp: translate_def Let_def list_all_iff split: if_splits)
qed

text \<open>A zero byte in the session identifier, which JSON writes as an escape and the decoder accepts, makes every event of every
  hook of the session one that is refused.\<close>

theorem nul_session_is_refused:
  assumes "\<not> nul_free (limit_text (hi_session_id i) 128)"
  shows "list_all (\<lambda>e. validate e \<noteq> None) (translate hash version i at)"
proof -
  have "validate e \<noteq> None" if "e \<in> set (translate hash version i at)" for e
  proof
    assume "validate e = None"
    moreover have "(''session_id'', session_id e, 128) \<in> set (string_fields e)" by (simp add: string_fields_def)
    ultimately show False
      using validate_NoneD(8) translate_session [OF that] assms by (fastforce simp: nul_free_def)
  qed
  then show ?thesis by (simp add: list_all_iff)
qed

section \<open>Example\<close>

definition demo_ops :: "patch_op list" where
  "demo_ops = [Patch_move ''a/x.go'' ''b/x.go'' [Context ''k'', Added ''n'', Deleted ''o''], Patch_delete ''c'']"

definition demo_hook :: hook_input where
  "demo_hook = \<lparr>hi_session_id = ''s'', hi_cwd = ''/p'', hi_event_name = ''PostToolUse'', hi_source = [], hi_reason = [], hi_turn_id = ''t'',
     hi_agent_id = [], hi_agent_type = [], hi_tool_name = ''mcp__fs__write_file'', hi_tool_use_id = ''u'',
     hi_tool_input = Some [''path'' \<mapsto> Raw_string ''a.go'']\<rparr>"

lemma path_ok_demo: "list_all path_ok [''a/x.go'', ''b/x.go'', ''c'']" "list_all line_ok [''k'', ''n'', ''o'']"
  by code_simp+

theorem patch_read_back_witness: "parse_patch (patch_text demo_ops) = map op_evidence demo_ops"
proof (rule patch_read_back)
  show "list_all op_ok demo_ops" using path_ok_demo by (simp add: demo_ops_def)
  show "length demo_ops < max_events_per_hook" by (simp add: demo_ops_def max_events_per_hook_def)
  show "length (patch_text demo_ops) \<le> max_hook_input_bytes"
    by (simp add: demo_ops_def patch_text_def markers max_hook_input_bytes_def)
qed

theorem translate_distinct_ids_witness: "distinct (map event_id (translate (\<lambda>t. t) ''1'' demo_hook 5))"
  by (rule translate_distinct_ids) (simp add: inj_def)

theorem translate_valid_witness: "list_all (\<lambda>e. validate e = None) (translate (\<lambda>_. ''0a'') ''1'' demo_hook 5)"
proof (rule translate_valid)
  show "hook_nul_free demo_hook" by (simp add: hook_nul_free_def demo_hook_def nul_free_def)
  show "text_ok (''codex:'' @ ''0a'') 128" by (simp add: text_ok_def nul_free_def, code_simp)
qed (simp_all add: nul_free_def)

theorem nul_session_is_refused_witness:
  "list_all (\<lambda>e. validate e \<noteq> None) (translate (\<lambda>_. ''0a'') ''1'' (demo_hook\<lparr>hi_session_id := [CHR ''s'', CHR 0x00]\<rparr>) 5)"
proof (rule nul_session_is_refused)
  have "limit_text [CHR ''s'', CHR 0x00] 128 = [CHR ''s'', CHR 0x00]" by code_simp
  then show "\<not> nul_free (limit_text (hi_session_id (demo_hook\<lparr>hi_session_id := [CHR ''s'', CHR 0x00]\<rparr>)) 128)"
    by (simp add: nul_free_def)
qed

end
