(* ===== verification/Install_Files.thy ===== *)
theory Install_Files
  imports Paths
begin

text \<open>
  \<^verbatim>\<open>internal/adapters/codex/install/files.go\<close>: the file operations of the installer, above all the replacement of a
  file through a temporary and a swap file.  A system call may work, fail or be the last thing the process does, so an
  operation runs along a script of such outcomes; a write that does not complete leaves a part of its bytes.  File
  modes and the creation of directories are not modelled.
\<close>

section \<open>Files and system calls\<close>

text \<open>A symbolic link tells whether it leads to something.\<close>

datatype entry_kind = File string | Symlink bool | Directory

type_synonym files = "string \<rightharpoonup> entry_kind"

datatype call_outcome = Works | Fails nat | Stops nat

text \<open>The names \<^verbatim>\<open>os.CreateTemp\<close> will draw are part of the world.\<close>

record world =
  w_files :: files
  w_script :: "call_outcome list"
  w_names :: "string list"

text \<open>The errors of the installer, those of \<^verbatim>\<open>config.go\<close> and \<^verbatim>\<open>installer.go\<close> included.\<close>

datatype install_error =
    Os_failed | Is_symlink | Not_regular | Exceeds_limit
  | Bad_config_json | Config_not_object | Config_trailing | Bad_hooks_object | Control_in_path | Quote_in_path
  | Interrupted_write | Binary_required | Binary_missing | Config_empty | Unmanaged_binary | Unmanaged_backup
  | Bad_state_json | State_unsupported | State_other_target | State_bad_phase | State_bad_digest
  | Backup_mismatch | Backup_unrecoverable | Not_fully_installed | Probe_failed | Bad_scope

datatype 'a io_result = Io_value 'a | Io_error install_error | Io_crash

type_synonym 'a io = "world \<Rightarrow> 'a io_result \<times> world"

definition io_return :: "'a \<Rightarrow> 'a io" where "io_return x w = (Io_value x, w)"

definition io_fail :: "install_error \<Rightarrow> 'a io" where "io_fail e w = (Io_error e, w)"

definition io_bind :: "'a io \<Rightarrow> ('a \<Rightarrow> 'b io) \<Rightarrow> 'b io" where
  "io_bind m f w = (case m w of
     (Io_value x, w') \<Rightarrow> f x w'
   | (Io_error e, w') \<Rightarrow> (Io_error e, w')
   | (Io_crash, w') \<Rightarrow> (Io_crash, w'))"

text \<open>An error handled by the caller; a crash is not.\<close>

definition io_try :: "'a io \<Rightarrow> (install_error + 'a) io" where
  "io_try m w = (case m w of
     (Io_value x, w') \<Rightarrow> (Io_value (Inr x), w')
   | (Io_error e, w') \<Rightarrow> (Io_value (Inl e), w')
   | (Io_crash, w') \<Rightarrow> (Io_crash, w'))"

text \<open>A deferred call: it runs after success and after an error, and its own error is dropped.\<close>

definition io_defer :: "unit io \<Rightarrow> 'a io \<Rightarrow> 'a io" where
  "io_defer d m w = (case m w of
     (Io_crash, w') \<Rightarrow> (Io_crash, w')
   | (r, w') \<Rightarrow> (case d w' of (Io_crash, w'') \<Rightarrow> (Io_crash, w'') | (_, w'') \<Rightarrow> (r, w'')))"

text \<open>One call with its effect, and what it leaves behind when it does not complete.\<close>

definition sys_call :: "(nat \<Rightarrow> files \<Rightarrow> files) \<Rightarrow> (files \<Rightarrow> ('a \<times> files) option) \<Rightarrow> 'a io" where
  "sys_call partial act w =
     (let w' = w\<lparr>w_script := tl (w_script w)\<rparr>;
          step = (case w_script w of [] \<Rightarrow> Works | s # _ \<Rightarrow> s)
      in case step of
        Works \<Rightarrow> (case act (w_files w) of
            Some (x, fs) \<Rightarrow> (Io_value x, w'\<lparr>w_files := fs\<rparr>)
          | None \<Rightarrow> (Io_error Os_failed, w'))
      | Fails n \<Rightarrow> (Io_error Os_failed, w'\<lparr>w_files := partial n (w_files w)\<rparr>)
      | Stops n \<Rightarrow> (Io_crash, w'\<lparr>w_files := partial n (w_files w)\<rparr>))"

definition entry_exists :: "files \<Rightarrow> string \<Rightarrow> bool" where
  "entry_exists fs p = (case fs p of None \<Rightarrow> False | Some (Symlink b) \<Rightarrow> b | Some _ \<Rightarrow> True)"

datatype stat_result = Stat_exists | Stat_missing | Stat_unknown

definition sys_stat :: "string \<Rightarrow> stat_result io" where
  "sys_stat p = io_bind (io_try (sys_call (\<lambda>_ fs. fs) (\<lambda>fs. Some (entry_exists fs p, fs))))
     (\<lambda>r. io_return (case r of Inl _ \<Rightarrow> Stat_unknown | Inr True \<Rightarrow> Stat_exists | Inr False \<Rightarrow> Stat_missing))"

definition sys_lstat :: "string \<Rightarrow> entry_kind option io" where
  "sys_lstat p = sys_call (\<lambda>_ fs. fs) (\<lambda>fs. Some (fs p, fs))"

definition sys_rename :: "string \<Rightarrow> string \<Rightarrow> unit io" where
  "sys_rename a b = sys_call (\<lambda>_ fs. fs) (\<lambda>fs. case fs a of
     None \<Rightarrow> None
   | Some e \<Rightarrow> if fs b = Some Directory then None else Some ((), fs(a := None, b := Some e)))"

definition sys_remove :: "string \<Rightarrow> unit io" where
  "sys_remove p = sys_call (\<lambda>_ fs. fs) (\<lambda>fs. if fs p = None then None else Some ((), fs(p := None)))"

definition sys_write :: "string \<Rightarrow> string \<Rightarrow> unit io" where
  "sys_write p payload = sys_call (\<lambda>n fs. fs(p \<mapsto> File (take n payload))) (\<lambda>fs. Some ((), fs(p \<mapsto> File payload)))"

text \<open>A call without effect on the files of the model: \<^verbatim>\<open>MkdirAll\<close>, \<^verbatim>\<open>Chmod\<close>, \<^verbatim>\<open>Sync\<close>, \<^verbatim>\<open>Close\<close>, \<^verbatim>\<open>ReadFile\<close>.\<close>

definition sys_plain :: "unit io" where
  "sys_plain = sys_call (\<lambda>_ fs. fs) (\<lambda>fs. Some ((), fs))"

definition swap_path :: "string \<Rightarrow> string" where "swap_path p = p @ ''.aav-swap''"

text \<open>\<^verbatim>\<open>CreateTemp\<close> in the directory of a clean path draws names until one is free.\<close>

definition temp_path :: "string \<Rightarrow> string \<Rightarrow> string" where
  "temp_path p n = dir_part p @ ''.'' @ last (split_char slash p) @ ''.aav-tmp-'' @ n"

definition create_temp :: "string \<Rightarrow> string io" where
  "create_temp p w = (case dropWhile (\<lambda>n. w_files w (temp_path p n) \<noteq> None) (w_names w) of
     [] \<Rightarrow> (Io_error Os_failed, w)
   | n # ns \<Rightarrow> sys_call (\<lambda>_ fs. fs) (\<lambda>fs. Some (temp_path p n, fs(temp_path p n \<mapsto> File []))) (w\<lparr>w_names := ns\<rparr>))"

section \<open>The operations\<close>

definition read_optional :: "string \<Rightarrow> nat \<Rightarrow> string option io" where
  "read_optional p limit = io_bind (sys_lstat p) (\<lambda>info. case info of
     None \<Rightarrow> io_return None
   | Some (Symlink _) \<Rightarrow> io_fail Is_symlink
   | Some Directory \<Rightarrow> io_fail Not_regular
   | Some (File content) \<Rightarrow>
       if limit < length content then io_fail Exceeds_limit
       else io_bind sys_plain (\<lambda>_. io_return (Some content)))"

definition recover_swap :: "string \<Rightarrow> unit io" where
  "recover_swap p = io_bind (sys_stat p) (\<lambda>target. io_bind (sys_stat (swap_path p)) (\<lambda>swap.
     if target = Stat_missing \<and> swap = Stat_exists then sys_rename (swap_path p) p
     else if target = Stat_exists \<and> swap = Stat_exists then sys_remove (swap_path p)
     else if target = Stat_unknown \<or> swap = Stat_unknown then io_fail Os_failed
     else io_return ()))"

definition swap_in :: "string \<Rightarrow> string \<Rightarrow> unit io" where
  "swap_in p temp = io_bind (sys_stat p) (\<lambda>target.
     io_bind (if target = Stat_exists then sys_rename p (swap_path p) else io_return ()) (\<lambda>_.
     io_bind (io_try (sys_rename temp p)) (\<lambda>r. case r of
       Inl err \<Rightarrow> io_bind (sys_stat (swap_path p)) (\<lambda>swap.
         io_bind (if swap = Stat_exists then io_try (sys_rename (swap_path p) p) else io_return (Inr ())) (\<lambda>_. io_fail err))
     | Inr _ \<Rightarrow> io_bind (io_try (sys_remove (swap_path p))) (\<lambda>_. io_return ()))))"

definition atomic_write :: "string \<Rightarrow> string \<Rightarrow> unit io" where
  "atomic_write p payload = io_bind (recover_swap p) (\<lambda>_.
     io_bind (io_try (read_optional p (length payload + 1))) (\<lambda>existing.
     if existing = Inr (Some payload) then io_return ()
     else io_bind sys_plain (\<lambda>_. io_bind (create_temp p) (\<lambda>temp.
       io_defer (sys_remove temp)
         (io_bind sys_plain (\<lambda>_. io_bind (sys_write temp payload) (\<lambda>_. io_bind sys_plain (\<lambda>_. io_bind sys_plain (\<lambda>_.
           swap_in p temp)))))))))"

definition remove_if_exists :: "string \<Rightarrow> unit io" where
  "remove_if_exists p = sys_call (\<lambda>_ fs. fs) (\<lambda>fs. Some ((), fs(p := None)))"

section \<open>Weakest preconditions with a crash condition\<close>

text \<open>\<open>io_wp m Q R fs\<close>: started on the files \<open>fs\<close>, whatever its calls do, the operation returns with \<open>Q\<close> or ends, with
  an error or in the middle, with \<open>R\<close>.\<close>

definition io_wp :: "'a io \<Rightarrow> ('a \<Rightarrow> files \<Rightarrow> bool) \<Rightarrow> (files \<Rightarrow> bool) \<Rightarrow> files \<Rightarrow> bool" where
  "io_wp m Q R fs \<longleftrightarrow> (\<forall>w. w_files w = fs \<longrightarrow> (case m w of
     (Io_value x, w') \<Rightarrow> Q x (w_files w') | (Io_error _, w') \<Rightarrow> R (w_files w') | (Io_crash, w') \<Rightarrow> R (w_files w')))"

named_theorems io_intro

lemma io_wpD: "io_wp m Q R (w_files w) \<Longrightarrow>
   (case m w of (Io_value x, w') \<Rightarrow> Q x (w_files w') | (_, w') \<Rightarrow> R (w_files w'))"
  by (auto simp: io_wp_def split: io_result.splits prod.splits)

lemma io_wpI: "(\<And>w. w_files (w::world) = fs \<Longrightarrow>
   (case m w of (Io_value x, w') \<Rightarrow> Q x (w_files w') | (_, w') \<Rightarrow> R (w_files w'))) \<Longrightarrow> io_wp m Q R fs"
  by (auto simp: io_wp_def split: io_result.splits prod.splits)

lemma io_wp_mono: "io_wp m Q R fs \<Longrightarrow> (\<And>x fs. Q x fs \<Longrightarrow> Q' x fs) \<Longrightarrow> (\<And>fs. R fs \<Longrightarrow> R' fs) \<Longrightarrow> io_wp m Q' R' fs"
  by (rule io_wpI) (auto dest!: io_wpD split: io_result.splits prod.splits)

lemma world_of: "\<exists>w::world. w_files w = fs"
  by (rule exI [of _ "\<lparr>w_files = fs, w_script = [], w_names = []\<rparr>"]) simp

lemma io_wp_return [simp]: "io_wp (io_return x) Q R fs \<longleftrightarrow> Q x fs"
  using world_of [of fs] by (auto simp: io_wp_def io_return_def)

lemma io_wp_fail [simp]: "io_wp (io_fail e) Q R fs \<longleftrightarrow> R fs"
  using world_of [of fs] by (auto simp: io_wp_def io_fail_def)

lemma io_wp_bind [io_intro]: "io_wp m (\<lambda>x. io_wp (f x) Q R) R fs \<Longrightarrow> io_wp (io_bind m f) Q R fs"
  by (rule io_wpI) (auto simp: io_bind_def dest!: io_wpD split: io_result.splits prod.splits)

lemma io_wp_try [io_intro]:
  "io_wp m (\<lambda>x. Q (Inr x)) (\<lambda>fs. R fs \<and> (\<forall>e. Q (Inl e) fs)) fs \<Longrightarrow> io_wp (io_try m) Q R fs"
  by (rule io_wpI) (auto simp: io_try_def dest!: io_wpD split: io_result.splits prod.splits)

lemma io_wp_defer [io_intro]:
  "io_wp m (\<lambda>x. io_wp d (\<lambda>_ fs. Q x fs) (\<lambda>fs. Q x fs \<and> R fs)) (\<lambda>fs. R fs \<and> io_wp d (\<lambda>_. R) R fs) fs \<Longrightarrow> io_wp (io_defer d m) Q R fs"
  by (rule io_wpI) (auto simp: io_defer_def dest!: io_wpD split: io_result.splits prod.splits)

lemma io_wp_call [simp]:
  "io_wp (sys_call partial act) Q R fs \<longleftrightarrow>
   (\<forall>n. R (partial n fs)) \<and> (case act fs of Some (x, fs') \<Rightarrow> Q x fs' | None \<Rightarrow> R fs)"
proof
  assume wp: "io_wp (sys_call partial act) Q R fs"
  have "R (partial n fs)" for n
    using io_wpD [of "sys_call partial act" Q R "\<lparr>w_files = fs, w_script = [Fails n], w_names = []\<rparr>"] wp by (simp add: sys_call_def)
  moreover have "case act fs of Some (x, fs') \<Rightarrow> Q x fs' | None \<Rightarrow> R fs"
    using io_wpD [of "sys_call partial act" Q R "\<lparr>w_files = fs, w_script = [], w_names = []\<rparr>"] wp
    by (auto simp: sys_call_def split: option.splits prod.splits)
  ultimately show "(\<forall>n. R (partial n fs)) \<and> (case act fs of Some (x, fs') \<Rightarrow> Q x fs' | None \<Rightarrow> R fs)" by blast
next
  assume "(\<forall>n. R (partial n fs)) \<and> (case act fs of Some (x, fs') \<Rightarrow> Q x fs' | None \<Rightarrow> R fs)"
  then show "io_wp (sys_call partial act) Q R fs"
    by (intro io_wpI) (auto simp: sys_call_def Let_def split: list.splits call_outcome.splits option.splits)
qed

lemma io_wp_stat [io_intro]:
  "R fs \<Longrightarrow> Q Stat_unknown fs \<Longrightarrow> Q (if entry_exists fs p then Stat_exists else Stat_missing) fs \<Longrightarrow> io_wp (sys_stat p) Q R fs"
  unfolding sys_stat_def by (intro io_intro) (auto split: bool.splits)

lemma io_wp_create [io_intro]:
  "R fs \<Longrightarrow> (\<And>n. fs (temp_path p n) = None \<Longrightarrow> Q (temp_path p n) (fs(temp_path p n \<mapsto> File []))) \<Longrightarrow>
   io_wp (create_temp p) Q R fs"
proof (rule io_wpI)
  fix w :: world assume a: "R fs" "\<And>n. fs (temp_path p n) = None \<Longrightarrow> Q (temp_path p n) (fs(temp_path p n \<mapsto> File []))" "w_files w = fs"
  show "case create_temp p w of (Io_value x, w') \<Rightarrow> Q x (w_files w') | (_, w') \<Rightarrow> R (w_files w')"
  proof (cases "dropWhile (\<lambda>n. w_files w (temp_path p n) \<noteq> None) (w_names w)")
    case Nil
    show ?thesis unfolding create_temp_def Nil using a by simp
  next
    case (Cons n ns)
    then have "fs (temp_path p n) = None" using hd_dropWhile [of "\<lambda>n. w_files w (temp_path p n) \<noteq> None" "w_names w"] a(3) by auto
    then show ?thesis unfolding create_temp_def Cons using a
      by (auto simp: sys_call_def Let_def split: list.splits call_outcome.splits)
  qed
qed

section \<open>Replacing a file\<close>

text \<open>What a later start finds at a path, after it has recovered the swap file.\<close>

definition recovered :: "files \<Rightarrow> string \<Rightarrow> entry_kind option" where
  "recovered fs p = (if \<not> entry_exists fs p \<and> entry_exists fs (swap_path p) then fs (swap_path p) else fs p)"

text \<open>The files an operation on a path may touch.\<close>

definition owned :: "string \<Rightarrow> string \<Rightarrow> bool" where
  "owned p q \<longleftrightarrow> q = p \<or> q = swap_path p \<or> (\<exists>n. q = temp_path p n)"

definition same_elsewhere :: "string \<Rightarrow> files \<Rightarrow> files \<Rightarrow> bool" where
  "same_elsewhere p fs gs \<longleftrightarrow> (\<forall>q. \<not> owned p q \<longrightarrow> fs q = gs q)"

lemma length_dir_part: "length (dir_part p) + length (last (split_char slash p)) \<ge> length p"
  by (simp add: dir_part_def)

lemma temp_path_fresh [simp]:
  "temp_path p n \<noteq> p" "temp_path p n \<noteq> swap_path p" "p \<noteq> temp_path p n" "swap_path p \<noteq> temp_path p n"
  "swap_path p \<noteq> p" "p \<noteq> swap_path p"
proof -
  have "length (temp_path p n) > length (swap_path p)" "length (swap_path p) > length p"
    using length_dir_part [of p] by (simp_all add: temp_path_def swap_path_def)
  then show "temp_path p n \<noteq> p" "temp_path p n \<noteq> swap_path p" "p \<noteq> temp_path p n" "swap_path p \<noteq> temp_path p n"
    "swap_path p \<noteq> p" "p \<noteq> swap_path p" by auto
qed

lemma owned_simps [simp]: "owned p p" "owned p (swap_path p)" "owned p (temp_path p n)"
  by (auto simp: owned_def)

lemma same_elsewhere_upd [simp]:
  "owned p q \<Longrightarrow> same_elsewhere p fs (gs(q := x)) \<longleftrightarrow> same_elsewhere p fs gs"
  by (auto simp: same_elsewhere_def)

lemma same_elsewhere_refl [simp]: "same_elsewhere p fs fs"
  by (simp add: same_elsewhere_def)

lemma recover_swap_wp:
  "io_wp (recover_swap p)
     (\<lambda>_ gs. gs p = recovered fs p \<and> \<not> entry_exists gs (swap_path p) \<and> same_elsewhere p fs gs)
     (\<lambda>gs. recovered gs p = recovered fs p \<and> same_elsewhere p fs gs) fs"
  unfolding recover_swap_def
  by (intro io_intro) (auto simp: sys_rename_def sys_remove_def recovered_def entry_exists_def split: option.splits entry_kind.splits)

lemma swap_in_wp:
  assumes "gs p = old" and "\<not> entry_exists gs (swap_path p)" and "gs t = Some (File payload)" and "t = temp_path p n"
    and "same_elsewhere p fs gs"
  shows "io_wp (swap_in p t)
     (\<lambda>_ hs. hs p = Some (File payload) \<and> same_elsewhere p fs hs)
     (\<lambda>hs. recovered hs p \<in> {old, Some (File payload)} \<and> same_elsewhere p fs hs) gs"
  using assms unfolding swap_in_def
  by (intro io_intro)
    (auto simp: sys_rename_def sys_remove_def recovered_def entry_exists_def intro!: io_intro split: option.splits entry_kind.splits)


lemma read_optional_wp:
  "R fs \<Longrightarrow> (fs p = None \<Longrightarrow> Q None fs) \<Longrightarrow>
   (\<And>c. fs p = Some (File c) \<Longrightarrow> length c \<le> limit \<Longrightarrow> Q (Some c) fs) \<Longrightarrow> io_wp (read_optional p limit) Q R fs"
  unfolding read_optional_def
  by (intro io_intro) (auto simp: sys_lstat_def sys_plain_def intro!: io_intro split: option.splits entry_kind.splits)

lemma write_temp_wp:
  assumes "gs p = old" and "\<not> entry_exists gs (swap_path p)" and "gs (temp_path p n) = Some (File [])" and "same_elsewhere p fs gs"
  shows "io_wp (io_bind sys_plain (\<lambda>_. io_bind (sys_write (temp_path p n) payload) (\<lambda>_. io_bind sys_plain (\<lambda>_. io_bind sys_plain (\<lambda>_.
           swap_in p (temp_path p n))))))
     (\<lambda>_ hs. hs p = Some (File payload) \<and> same_elsewhere p fs hs)
     (\<lambda>hs. recovered hs p \<in> {old, Some (File payload)} \<and> same_elsewhere p fs hs) gs"
proof -
  have "recovered gs p = old" using assms(1,2) by (simp add: recovered_def)
  moreover have "recovered (gs(temp_path p n := x)) p = recovered gs p" for x
    by (simp add: recovered_def entry_exists_def)
  ultimately show ?thesis
    using assms
    by (intro io_intro) (auto simp: sys_plain_def sys_write_def entry_exists_def intro!: io_intro
      swap_in_wp [of _ _ _ _ _ n, unfolded insert_iff empty_iff, simplified])
qed

lemma recovered_drop_temp [simp]: "recovered (gs(temp_path p n := x)) p = recovered gs p"
  by (simp add: recovered_def entry_exists_def)

lemma fresh_copy_wp:
  assumes "gs p = old" and "\<not> entry_exists gs (swap_path p)" and "same_elsewhere p fs gs" and "gs (temp_path p n) = None"
  shows "io_wp (io_defer (sys_remove (temp_path p n)) (io_bind sys_plain (\<lambda>_. io_bind (sys_write (temp_path p n) payload)
         (\<lambda>_. io_bind sys_plain (\<lambda>_. io_bind sys_plain (\<lambda>_. swap_in p (temp_path p n)))))))
     (\<lambda>_ hs. hs p = Some (File payload) \<and> same_elsewhere p fs hs)
     (\<lambda>hs. recovered hs p \<in> {old, Some (File payload)} \<and> same_elsewhere p fs hs) (gs(temp_path p n \<mapsto> File []))"
  using assms
  by (intro io_wp_defer io_wp_mono [OF write_temp_wp [of _ p old n fs payload]])
    (auto simp: sys_remove_def entry_exists_def recovered_def)

lemma atomic_write_wp:
  "io_wp (atomic_write p payload)
     (\<lambda>_ hs. hs p = Some (File payload) \<and> same_elsewhere p fs hs)
     (\<lambda>hs. recovered hs p \<in> {recovered fs p, Some (File payload)} \<and> same_elsewhere p fs hs) fs"
  unfolding atomic_write_def
proof (rule io_wp_bind, rule io_wp_mono [OF recover_swap_wp], goal_cases)
  case (1 x gs)
  then have gs: "gs p = recovered fs p" "\<not> entry_exists gs (swap_path p)" "same_elsewhere p fs gs" "recovered gs p = gs p"
    by (auto simp: recovered_def)
  have copy: "io_wp (io_bind sys_plain (\<lambda>_. io_bind (create_temp p) (\<lambda>temp. io_defer (sys_remove temp) (io_bind sys_plain
       (\<lambda>_. io_bind (sys_write temp payload) (\<lambda>_. io_bind sys_plain (\<lambda>_. io_bind sys_plain (\<lambda>_. swap_in p temp))))))))
     (\<lambda>_ hs. hs p = Some (File payload) \<and> same_elsewhere p fs hs)
     (\<lambda>hs. recovered hs p \<in> {recovered fs p, Some (File payload)} \<and> same_elsewhere p fs hs) gs"
    using gs by (intro io_wp_bind io_wp_create) (auto simp: sys_plain_def intro!: io_wp_bind io_wp_create fresh_copy_wp [of _ _ "recovered fs p", unfolded insert_iff empty_iff, simplified])
  show ?case
    by (intro io_wp_bind io_wp_try read_optional_wp) (use gs copy in auto)
qed auto

text \<open>C25: Replacing a file is atomic.  Whatever calls fail and wherever the process stops, a later start finds the old file or the
  new one, complete, and nothing but the temporary and swap files of this path was touched; when the operation reports
  success it is the new one.\<close>

theorem atomic_write_crash_safe:
  "case atomic_write p payload w of (r, w') \<Rightarrow>
     recovered (w_files w') p \<in> {recovered (w_files w) p, Some (File payload)} \<and> same_elsewhere p (w_files w) (w_files w') \<and>
     (case r of Io_value _ \<Rightarrow> w_files w' p = Some (File payload) | _ \<Rightarrow> True)"
proof -
  have "hs p = Some (File payload) \<Longrightarrow> recovered hs p = Some (File payload)" for hs
    by (simp add: recovered_def entry_exists_def)
  with io_wpD [OF atomic_write_wp, of p payload w] show ?thesis by (auto split: io_result.splits prod.splits)
qed

end
