(* ===== verification/Install_Config.thy ===== *)
theory Install_Config
  imports Install_Files Metadata Project_Scan "HOL-Library.Countable"
begin

text \<open>
  \<^verbatim>\<open>internal/adapters/codex/install/config.go\<close>: how the installer enters its handlers into the hook configuration of
  Codex and takes them out again.  A JSON value is a tree whose objects keep the order and the repetitions of the text;
  reading and writing the text are parameters.  A Go map is an association list with distinct keys, written in the
  order of its keys.
\<close>

section \<open>JSON values\<close>

datatype json =
    J_null | J_bool bool | J_number string | J_string string | J_array "json list" | J_object "(string \<times> json) list"

text \<open>\<open>ie_decode\<close> is the decoder: the first value of a text, and whether nothing follows it.  \<open>ie_number\<close> is a number read as
  \<^verbatim>\<open>float64\<close> and written again, \<open>ie_cwd\<close> the working directory.\<close>

record json_env =
  je_decode :: "string \<Rightarrow> (json \<times> bool) option"
  je_encode :: "json \<Rightarrow> string"
  je_number :: "string \<Rightarrow> string option"
  je_cwd :: "string option"

text \<open>An object read into a map: of two members with the same key the later one stays.\<close>

definition object_map :: "(string \<times> 'a) list \<Rightarrow> (string \<times> 'a) list" where
  "object_map kvs = fold (\<lambda>(k, v) m. AList.update k v m) kvs []"

definition marshal_map :: "(string \<times> json) list \<Rightarrow> json" where
  "marshal_map m = J_object (sort_slice entry_less m)"

text \<open>A key matches a struct field up to simple case folding; U+017F folds to s.\<close>

definition fold_key :: "string \<Rightarrow> string" where
  "fold_key k = to_lower (replace_all (bytes [0xC5, 0xBF]) ''s'' k)"

fun text_field :: "string \<Rightarrow> (string \<times> json) list \<Rightarrow> string \<Rightarrow> string option" where
  "text_field name [] v = Some v"
| "text_field name ((k, j) # kvs) v =
     (if fold_key k = fold_key name
      then (case j of J_string s \<Rightarrow> text_field name kvs s | J_null \<Rightarrow> text_field name kvs v | _ \<Rightarrow> None)
      else text_field name kvs v)"

section \<open>Reading the configuration\<close>

definition install_id :: string where "install_id = ''aav-codex-hooks-v1''"
definition status_label :: string where "status_label = ''Agent Action Visualizer''"
definition max_config_len :: nat where "max_config_len = 4194304"

definition hook_events :: "string list" where
  "hook_events = [''SessionStart'', ''SessionEnd'', ''SubagentStart'', ''SubagentStop'', ''PreToolUse'', ''PostToolUse'']"

type_synonym root = "(string \<times> json) list"
type_synonym hooks = "(string \<times> json list) list"

definition decode_root :: "json_env \<Rightarrow> string \<Rightarrow> install_error + root" where
  "decode_root env payload =
     (if payload = [] then Inr []
      else if max_config_len < length payload then Inl Exceeds_limit
      else (case je_decode env payload of
          None \<Rightarrow> Inl Bad_config_json
        | Some (v, at_end) \<Rightarrow> (case v of
              J_object kvs \<Rightarrow> if at_end then Inr (object_map kvs) else Inl Config_trailing
            | J_null \<Rightarrow> Inl Config_not_object
            | _ \<Rightarrow> Inl Bad_config_json)))"

fun decode_groups :: "(string \<times> json) list \<Rightarrow> hooks option" where
  "decode_groups [] = Some []"
| "decode_groups ((k, j) # kvs) =
     (case (case j of J_array gs \<Rightarrow> Some gs | J_null \<Rightarrow> Some [] | _ \<Rightarrow> None) of
        None \<Rightarrow> None
      | Some gs \<Rightarrow> map_option (\<lambda>rest. (k, gs) # rest) (decode_groups kvs))"

definition decode_hooks :: "json option \<Rightarrow> install_error + hooks" where
  "decode_hooks payload = (case payload of
     None \<Rightarrow> Inr []
   | Some J_null \<Rightarrow> Inr []
   | Some (J_object kvs) \<Rightarrow> (case decode_groups kvs of None \<Rightarrow> Inl Bad_hooks_object | Some gs \<Rightarrow> Inr (object_map gs))
   | Some _ \<Rightarrow> Inl Bad_hooks_object)"

section \<open>Managed handlers\<close>

definition is_managed :: "json \<Rightarrow> bool" where
  "is_managed handler = (case handler of
     J_object kvs \<Rightarrow> (case (text_field ''command'' kvs [], text_field ''statusMessage'' kvs []) of
         (Some command, Some status) \<Rightarrow> status = status_label \<and> contains command install_id
       | _ \<Rightarrow> False)
   | _ \<Rightarrow> False)"

definition strip_managed :: "json \<Rightarrow> json option \<times> nat" where
  "strip_managed grp = (case grp of
     J_object kvs \<Rightarrow>
       (let g = object_map kvs in
        case map_of g ''hooks'' of
          Some (J_array handlers) \<Rightarrow>
            (let kept = filter (\<lambda>h. \<not> is_managed h) handlers;
                 removed = length (filter is_managed handlers)
             in if removed = 0 then (Some grp, 0)
                else if kept = [] then (None, removed)
                else (Some (marshal_map (AList.update ''hooks'' (J_array kept) g)), removed))
        | _ \<Rightarrow> (Some grp, 0))
   | _ \<Rightarrow> (Some grp, 0))"

definition clean_groups :: "json list \<Rightarrow> json list" where
  "clean_groups gs = List.map_filter (\<lambda>g. fst (strip_managed g)) gs"

definition managed_in :: "json list \<Rightarrow> nat" where
  "managed_in gs = sum_list (map (\<lambda>g. snd (strip_managed g)) gs)"

definition remove_managed :: "hooks \<Rightarrow> hooks \<times> nat" where
  "remove_managed hooks =
     (List.map_filter (\<lambda>(event, gs). let kept = clean_groups gs in if kept = [] then None else Some (event, kept)) hooks,
      sum_list (map (\<lambda>(event, gs). managed_in gs) hooks))"

definition quote_posix :: "string \<Rightarrow> string" where
  "quote_posix v = [CHR 0x27] @ replace_all [CHR 0x27] [CHR 0x27, CHR 0x22, CHR 0x27, CHR 0x22, CHR 0x27] v @ [CHR 0x27]"

definition quote_windows :: "string \<Rightarrow> string option" where
  "quote_windows v = (if CHR 0x22 \<in> set v then None else Some ([CHR 0x22] @ v @ [CHR 0x22]))"

definition absolute_path :: "string option \<Rightarrow> string \<Rightarrow> string option" where
  "absolute_path cwd p = (if is_abs p then Some (path_clean p) else map_option (\<lambda>d. path_join [d, p]) cwd)"

text \<open>The handler as \<^verbatim>\<open>json.Marshal\<close> writes it; bytes that are no UTF-8 come out repaired.\<close>

definition managed_handler :: "json_env \<Rightarrow> string \<Rightarrow> install_error + json" where
  "managed_handler env binary = (case absolute_path (je_cwd env) binary of
     None \<Rightarrow> Inl Os_failed
   | Some absolute \<Rightarrow>
       if CHR 0x00 \<in> set absolute \<or> CHR 0x0D \<in> set absolute \<or> CHR 0x0A \<in> set absolute then Inl Control_in_path
       else (case quote_windows absolute of
           None \<Rightarrow> Inl Quote_in_path
         | Some windows \<Rightarrow> Inr (J_object
             [(''type'', J_string ''command''),
              (''command'', J_string (json_repaired (quote_posix absolute @ '' --aav-install-id '' @ quote_posix install_id))),
              (''commandWindows'', J_string (json_repaired (windows @ '' --aav-install-id '' @ [CHR 0x22] @ install_id @ [CHR 0x22]))),
              (''timeout'', J_number ''1''),
              (''statusMessage'', J_string status_label)])))"

section \<open>Merging and removing\<close>

definition managed_group :: "json \<Rightarrow> json" where
  "managed_group handler = J_object [(''hooks'', J_array [handler])]"

definition groups_at :: "string \<Rightarrow> hooks \<Rightarrow> json list" where
  "groups_at event h = (case map_of h event of None \<Rightarrow> [] | Some gs \<Rightarrow> gs)"

definition add_managed :: "json \<Rightarrow> hooks \<Rightarrow> hooks" where
  "add_managed grp hooks = fold (\<lambda>event h. AList.update event (groups_at event h @ [grp]) h) hook_events hooks"

definition marshal_hooks :: "hooks \<Rightarrow> json" where
  "marshal_hooks h = marshal_map (map (\<lambda>(event, gs). (event, J_array gs)) h)"

definition marshal_text :: "json_env \<Rightarrow> root \<Rightarrow> string" where
  "marshal_text env r = je_encode env (marshal_map r) @ [CHR 0x0A]"

definition merge_hooks :: "json_env \<Rightarrow> string \<Rightarrow> string \<Rightarrow> install_error + string \<times> nat" where
  "merge_hooks env payload binary = (case decode_root env payload of
     Inl e \<Rightarrow> Inl e
   | Inr r \<Rightarrow> (case decode_hooks (map_of r ''hooks'') of
       Inl e \<Rightarrow> Inl e
     | Inr h \<Rightarrow> (case remove_managed h of (kept, removed) \<Rightarrow>
         (case managed_handler env binary of
            Inl e \<Rightarrow> Inl e
          | Inr handler \<Rightarrow>
              Inr (marshal_text env (AList.update ''hooks'' (marshal_hooks (add_managed (managed_group handler) kept)) r), removed)))))"

definition remove_root :: "root \<Rightarrow> hooks \<Rightarrow> root" where
  "remove_root r kept =
     (if kept = [] then (if map_of r ''hooks'' \<noteq> None then AList.update ''hooks'' (J_object []) r else AList.delete ''hooks'' r)
      else AList.update ''hooks'' (marshal_hooks kept) r)"

definition remove_hooks :: "json_env \<Rightarrow> string \<Rightarrow> install_error + string \<times> nat" where
  "remove_hooks env payload = (case decode_root env payload of
     Inl e \<Rightarrow> Inl e
   | Inr r \<Rightarrow> (case decode_hooks (map_of r ''hooks'') of
       Inl e \<Rightarrow> Inl e
     | Inr h \<Rightarrow> (case remove_managed h of (kept, removed) \<Rightarrow>
         let r' = remove_root r kept in Inr (if r' = [] then [] else marshal_text env r', removed))))"

definition only_empty_hooks :: "json_env \<Rightarrow> string \<Rightarrow> bool" where
  "only_empty_hooks env payload = (case decode_root env payload of
     Inl _ \<Rightarrow> False
   | Inr r \<Rightarrow> length r = 1 \<and> (case decode_hooks (map_of r ''hooks'') of Inl _ \<Rightarrow> False | Inr h \<Rightarrow> h = []))"

definition managed_hook_layout :: "json_env \<Rightarrow> string \<Rightarrow> install_error + nat \<times> bool" where
  "managed_hook_layout env payload = (case decode_root env payload of
     Inl e \<Rightarrow> Inl e
   | Inr r \<Rightarrow> (case decode_hooks (map_of r ''hooks'') of
       Inl e \<Rightarrow> Inl e
     | Inr h \<Rightarrow>
         let count = sum_list (map (\<lambda>(event, gs). managed_in gs) h)
         in Inr (count, count = length hook_events \<and> list_all (\<lambda>event. managed_in (groups_at event h) = 1) hook_events)))"

definition managed_hook_count :: "json_env \<Rightarrow> string \<Rightarrow> install_error + nat" where
  "managed_hook_count env payload = map_sum id fst (managed_hook_layout env payload)"

section \<open>Comparing two texts\<close>

fun canonical :: "(string \<Rightarrow> string option) \<Rightarrow> json \<Rightarrow> json option"
  and canonical_list :: "(string \<Rightarrow> string option) \<Rightarrow> json list \<Rightarrow> json list option"
  and canonical_members :: "(string \<Rightarrow> string option) \<Rightarrow> (string \<times> json) list \<Rightarrow> (string \<times> json) list option" where
  "canonical num (J_number n) = map_option J_number (num n)"
| "canonical num (J_array js) = map_option J_array (canonical_list num js)"
| "canonical num (J_object kvs) = map_option (\<lambda>ms. marshal_map (object_map ms)) (canonical_members num kvs)"
| "canonical num j = Some j"
| "canonical_list num [] = Some []"
| "canonical_list num (j # js) = (case canonical num j of None \<Rightarrow> None | Some c \<Rightarrow> map_option ((#) c) (canonical_list num js))"
| "canonical_members num [] = Some []"
| "canonical_members num ((k, j) # kvs) = (case canonical num j of None \<Rightarrow> None | Some c \<Rightarrow> map_option ((#) (k, c)) (canonical_members num kvs))"

definition decode_any :: "json_env \<Rightarrow> string \<Rightarrow> json option" where
  "decode_any env payload = (case je_decode env payload of Some (v, True) \<Rightarrow> canonical (je_number env) v | _ \<Rightarrow> None)"

definition semantic_equal :: "json_env \<Rightarrow> string \<Rightarrow> string \<Rightarrow> bool" where
  "semantic_equal env left right = (case (decode_any env left, decode_any env right) of
     (Some l, Some r) \<Rightarrow> je_encode env l = je_encode env r
   | _ \<Rightarrow> False)"

section \<open>Maps\<close>

lemma distinct_object_map [simp]: "distinct (map fst (object_map kvs))"
proof -
  have "distinct (map fst m) \<Longrightarrow> distinct (map fst (fold (\<lambda>(k, v) m. AList.update k v m) kvs m))" for m
    by (induction kvs arbitrary: m) (auto simp: distinct_update)
  then show ?thesis by (simp add: object_map_def)
qed

lemma marshal_map_eq:
  assumes "distinct (map fst m)" and "distinct (map fst n)" and "map_of m = map_of n"
  shows "marshal_map m = marshal_map n"
proof -
  have "set m = set n" using assms by (metis map_of_eq_Some_iff set_eqI surj_pair map_of_inject_set)
  then have "mset m = mset n" using assms(1,2) by (metis distinct_map set_eq_iff_mset_eq_distinct)
  then show ?thesis using entry_sort.sort_slice_perm [of m n] assms(2) by (simp add: marshal_map_def)
qed

lemma map_of_fold_update: "map_of (fold (\<lambda>(k, v) m. AList.update k v m) kvs m) = map_of m ++ map_of (rev kvs)"
proof (induction kvs arbitrary: m)
  case (Cons a kvs)
  obtain k v where "a = (k, v)" by (cases a)
  with Cons [of "AList.update k v m"] show ?case
    by (auto simp: update_conv' map_add_def fun_eq_iff map_of_append split: option.split)
qed simp

lemma map_of_object_map: "map_of (object_map kvs) = map_of (rev kvs)"
  by (simp add: object_map_def map_of_fold_update)

lemma map_of_rev_distinct: "distinct (map fst m) \<Longrightarrow> map_of (rev m) = map_of m"
  by (intro map_of_inject_set [THEN iffD2]) (simp_all add: rev_map [symmetric])

lemma map_of_sorted: "distinct (map fst m) \<Longrightarrow> map_of (sort_slice entry_less m) = map_of m"
  by (intro map_of_inject_set [THEN iffD2]) (metis mset_eq_imp_distinct_iff mset_map mset_sort_slice, simp_all)

lemma object_map_marshalled: "distinct (map fst m) \<Longrightarrow> map_of (object_map (sort_slice entry_less m)) = map_of m"
  by (metis map_of_object_map map_of_rev_distinct map_of_sorted mset_eq_imp_distinct_iff mset_map mset_sort_slice)

section \<open>The handler of the installer\<close>

lemma rune_len_before_ascii:
  assumes "x \<noteq> []" and "rune_len x = 0" and "byte c < 0x80"
  shows "rune_len (x @ c # y) = 0"
proof (rule ccontr)
  let ?n = "rune_len (x @ c # y)"
  assume n: "?n \<noteq> 0"
  show False
  proof (cases "?n \<le> length x")
    case True
    with n have "rune_len (take ?n x) = ?n" using rune_len_take [of "x @ c # y" ?n] by simp
    with n rune_len_append [of "take ?n x" "drop ?n x"] assms(2) show False by simp
  next
    case False
    with assms(1) have "cont ((x @ c # y) ! length x)" by (intro rune_len_cont) auto
    with assms(3) show False by (simp add: cont_def)
  qed
qed

lemma json_repaired_before_ascii:
  "byte c < 0x80 \<Longrightarrow> json_repaired (x @ c # y) = json_repaired x @ json_repaired (c # y)"
proof (induction x rule: json_repaired.induct)
  case (1 x)
  show ?case
  proof (cases "x = []")
    case False
    show ?thesis
    proof (cases "rune_len x = 0")
      case True
      with False 1 rune_len_before_ascii [of x c y] show ?thesis
        by (simp add: json_repaired.simps [of x] json_repaired.simps [of "x @ c # y"])
    next
      case False
      with \<open>x \<noteq> []\<close> 1 rune_len_append [of x "c # y"] rune_len_le_length [of x] show ?thesis
        by (simp add: json_repaired.simps [of x] json_repaired.simps [of "x @ c # y"])
    qed
  qed (simp add: json_repaired.simps [of "[]"])
qed

lemma id_argument:
  "'' --aav-install-id '' @ quote_posix install_id = CHR '' '' # ''--aav-install-id '' @ [CHR 0x27] @ install_id @ [CHR 0x27]"
  "json_repaired (CHR '' '' # ''--aav-install-id '' @ [CHR 0x27] @ install_id @ [CHR 0x27]) =
   CHR '' '' # ''--aav-install-id '' @ [CHR 0x27] @ install_id @ [CHR 0x27]"
  by code_simp+

lemma contains_middle: "contains (x @ y @ z) y"
proof -
  have "has_prefix s y \<Longrightarrow> index_of s y \<noteq> None" for s
    by (cases s) (auto simp: has_prefix_def)
  then have "index_of (y @ z) y \<noteq> None" by (simp add: has_prefix_def)
  then have "index_of (x @ y @ z) y \<noteq> None" by (induction x) auto
  then show ?thesis by (simp add: contains_def)
qed

lemma not_contains_head: "old = c # cs \<Longrightarrow> c \<notin> set s \<Longrightarrow> \<not> contains s old"
proof -
  assume "old = c # cs" "c \<notin> set s"
  then have "index_of s old = None" by (induction s) (auto simp: has_prefix_def)
  then show ?thesis by (simp add: contains_def)
qed

lemma fold_bytes:
  "bytes [0xC5, 0xBF] = [CHR 0xC5, CHR 0xBF]" "bytes [0xE2, 0x84, 0xAA] = [CHR 0xE2, CHR 0x84, CHR 0xAA]"
  "bytes [0xC4, 0xB0] = [CHR 0xC4, CHR 0xB0]"
  by code_simp+

lemma fold_key_ascii:
  "CHR 0xC5 \<notin> set s \<Longrightarrow> CHR 0xC4 \<notin> set s \<Longrightarrow> CHR 0xE2 \<notin> set s \<Longrightarrow> fold_key s = map lower_char s"
  by (simp add: fold_key_def to_lower_def fold_bytes replace_all_absent not_contains_head [OF refl])

lemma field_names [simp]:
  "fold_key ''type'' = ''type''" "fold_key ''commandWindows'' = ''commandwindows''" "fold_key ''timeout'' = ''timeout''"
  "fold_key ''statusMessage'' = ''statusmessage''" "fold_key ''command'' = ''command''"
  by (subst fold_key_ascii; simp; code_simp)+

lemma is_managed_handler:
  assumes "managed_handler env binary = Inr h"
  shows "is_managed h"
proof -
  obtain a ws where h: "h = J_object [(''type'', J_string ''command''),
      (''command'', J_string (json_repaired (quote_posix a @ '' --aav-install-id '' @ quote_posix install_id))),
      (''commandWindows'', J_string ws), (''timeout'', J_number ''1''), (''statusMessage'', J_string status_label)]"
    using assms by (auto simp: managed_handler_def split: option.splits if_splits)
  let ?y = "''--aav-install-id '' @ [CHR 0x27] @ install_id @ [CHR 0x27]"
  have "json_repaired (quote_posix a @ '' --aav-install-id '' @ quote_posix install_id) = json_repaired (quote_posix a) @ CHR '' '' # ?y"
    unfolding id_argument(1) using json_repaired_before_ascii [of "CHR '' ''" "quote_posix a" ?y] id_argument(2) by (simp add: byte_def)
  moreover have "contains (x @ CHR '' '' # ?y) install_id" for x
    using contains_middle [of "x @ '' --aav-install-id '' @ [CHR 0x27]" install_id "[CHR 0x27]"] by simp
  ultimately show ?thesis by (simp add: h is_managed_def field_names)
qed

section \<open>Cleaning is a projection\<close>

lemma strip_twice: "strip_managed g = (Some k, n) \<Longrightarrow> strip_managed k = (Some k, 0)"
proof (cases "n = 0")
  case True
  assume "strip_managed g = (Some k, n)"
  with True have "k = g" by (auto simp: strip_managed_def Let_def split: json.splits option.splits if_splits)
  with \<open>strip_managed g = (Some k, n)\<close> True show ?thesis by simp
next
  case False
  assume "strip_managed g = (Some k, n)"
  with False obtain kvs hs where "g = J_object kvs"
    "k = marshal_map (AList.update ''hooks'' (J_array (filter (\<lambda>h. \<not> is_managed h) hs)) (object_map kvs))"
    by (auto simp: strip_managed_def Let_def split: json.splits option.splits if_splits)
  then show ?thesis
    by (simp add: strip_managed_def marshal_map_def object_map_marshalled distinct_update update_conv' Let_def)
qed

lemma strip_managed_group: "is_managed h \<Longrightarrow> strip_managed (managed_group h) = (None, 1)"
  by (simp add: strip_managed_def managed_group_def object_map_def)

lemma clean_groups_simps [simp]:
  "clean_groups [] = []"
  "clean_groups (g # gs) = (case fst (strip_managed g) of None \<Rightarrow> clean_groups gs | Some k \<Rightarrow> k # clean_groups gs)"
  by (simp_all add: clean_groups_def List.map_filter_simps split: option.split)

lemma clean_groups_append [simp]: "clean_groups (gs @ hs) = clean_groups gs @ clean_groups hs"
  by (induction gs) (simp_all split: option.split)

lemma clean_groups_idem [simp]: "clean_groups (clean_groups gs) = clean_groups gs"
proof (induction gs)
  case (Cons g gs)
  then show ?case by (cases "strip_managed g") (auto dest: strip_twice split: option.split)
qed simp

lemma managed_in_clean [simp]: "managed_in (clean_groups gs) = 0"
proof (induction gs)
  case (Cons g gs)
  then show ?case by (cases "strip_managed g") (auto simp: managed_in_def dest: strip_twice split: option.split)
qed (simp add: managed_in_def)

lemma managed_in_simps [simp]: "managed_in [] = 0" "managed_in (gs @ hs) = managed_in gs + managed_in hs"
  by (simp_all add: managed_in_def)

section \<open>Hooks as functions\<close>

lemma map_of_map_filter:
  "distinct (map fst h) \<Longrightarrow>
   map_of (List.map_filter (\<lambda>(event, gs). map_option (Pair event) (f gs)) h) event = (case map_of h event of None \<Rightarrow> None | Some gs \<Rightarrow> f gs)"
proof (induction h)
  case (Cons a h)
  obtain ev gs where a: "a = (ev, gs)" by (cases a)
  have "map_of h ev = None" using Cons.prems a by (simp add: map_of_eq_None_iff)
  with Cons a show ?case by (auto simp: List.map_filter_simps split: option.split)
qed (simp add: List.map_filter_simps)


lemma keys_map_filter:
  "fst ` set (List.map_filter (\<lambda>(event, gs). map_option (Pair event) (f gs)) h) \<subseteq> fst ` set h"
  by (force simp: List.map_filter_def split: if_splits)

lemma distinct_map_filter:
  "distinct (map fst h) \<Longrightarrow> distinct (map fst (List.map_filter (\<lambda>(event, gs). map_option (Pair event) (f gs)) h))"
proof (induction h)
  case (Cons a h)
  then show ?case using keys_map_filter [of f h] by (cases a) (auto simp: List.map_filter_simps split: option.split)
qed (simp add: List.map_filter_simps)

lemma remove_managed_alt:
  "fst (remove_managed h) = List.map_filter (\<lambda>(event, gs). map_option (Pair event)
     (if clean_groups gs = [] then None else Some (clean_groups gs))) h"
  unfolding remove_managed_def fst_conv
  by (rule arg_cong [of _ _ "\<lambda>f. List.map_filter f h"]) (auto simp: fun_eq_iff Let_def)

lemma map_of_remove_managed:
  "distinct (map fst h) \<Longrightarrow> map_of (fst (remove_managed h)) event =
     (case map_of h event of None \<Rightarrow> None | Some gs \<Rightarrow> if clean_groups gs = [] then None else Some (clean_groups gs))"
  unfolding remove_managed_alt by (rule map_of_map_filter)

lemma distinct_remove_managed: "distinct (map fst h) \<Longrightarrow> distinct (map fst (fst (remove_managed h)))"
  unfolding remove_managed_alt by (rule distinct_map_filter)

lemma groups_at_remove [simp]: "distinct (map fst h) \<Longrightarrow> groups_at event (fst (remove_managed h)) = clean_groups (groups_at event h)"
  by (simp add: groups_at_def map_of_remove_managed split: option.split)

lemma map_of_add_managed:
  "map_of (add_managed g h) event = (if event \<in> set hook_events then Some (groups_at event h @ [g]) else map_of h event)"
proof -
  have "distinct evs \<Longrightarrow> map_of (fold (\<lambda>event h. AList.update event (groups_at event h @ [g]) h) evs h) event =
      (if event \<in> set evs then Some (groups_at event h @ [g]) else map_of h event)" for evs
    by (induction evs arbitrary: h) (auto simp: update_conv' groups_at_def)
  moreover have "distinct hook_events" by (simp add: hook_events_def)
  ultimately show ?thesis unfolding add_managed_def .
qed

lemma distinct_add_managed: "distinct (map fst h) \<Longrightarrow> distinct (map fst (add_managed g h))"
proof -
  have "distinct (map fst h) \<Longrightarrow> distinct (map fst (fold (\<lambda>event h. AList.update event (groups_at event h @ [g]) h) evs h))" for evs
    by (induction evs arbitrary: h) (simp_all add: distinct_update)
  then show "distinct (map fst h) \<Longrightarrow> ?thesis" by (simp add: add_managed_def)
qed

lemma groups_at_add: "groups_at event (add_managed g h) = groups_at event h @ (if event \<in> set hook_events then [g] else [])"
  by (simp add: groups_at_def map_of_add_managed)

lemma groups_at_empty: "managed_in (groups_at event h) = (case map_of h event of None \<Rightarrow> 0 | Some gs \<Rightarrow> managed_in gs)"
  by (simp add: groups_at_def split: option.split)

lemma map_of_groups:
  "distinct (map fst m) \<Longrightarrow> distinct (map fst n) \<Longrightarrow> map_of m = map_of n \<Longrightarrow> sum_list (map f m) = (sum_list (map f n) :: nat)"
  by (metis distinct_map map_of_inject_set mset_map set_eq_iff_mset_eq_distinct sum_mset_sum_list)

section \<open>What is written is read back\<close>

text \<open>A text is read back as what it was written from.  Texts of values with bytes that are no UTF-8 are not, since those are
  replaced when they are written.\<close>

definition reads_back :: "json_env \<Rightarrow> string \<Rightarrow> bool" where
  "reads_back env text \<longleftrightarrow> (\<forall>v. je_encode env v @ [CHR 0x0A] = text \<longrightarrow> je_decode env text = Some (v, True))"

lemma decode_root_marshalled:
  "reads_back env (marshal_text env r) \<Longrightarrow> length (marshal_text env r) \<le> max_config_len \<Longrightarrow>
   decode_root env (marshal_text env r) = Inr (object_map (sort_slice entry_less r))"
  by (simp add: decode_root_def marshal_text_def reads_back_def marshal_map_def)

lemma decode_groups_arrays: "decode_groups (map (\<lambda>(event, gs). (event, J_array gs)) h) = Some h"
  by (induction h) auto

lemma sort_entries_map:
  "sort_slice entry_less (map (\<lambda>(k, v). (k, f v)) m) = map (\<lambda>(k, v). (k, f v)) (sort_slice entry_less m)"
proof -
  have "insert_by entry_less (k, f v) (map (\<lambda>(k, v). (k, f v)) m) = map (\<lambda>(k, v). (k, f v)) (insert_by entry_less (k, v) m)" for k v m
    by (induction m) (auto simp: entry_less_def)
  then show ?thesis by (induction m) auto
qed

lemma decode_hooks_marshalled:
  "decode_hooks (Some (marshal_hooks h)) = Inr (object_map (sort_slice entry_less h))"
  by (simp add: decode_hooks_def marshal_hooks_def marshal_map_def sort_entries_map decode_groups_arrays)


section \<open>What merging does\<close>

text \<open>A configuration that was merged, seen through its parts.\<close>

lemma merge_hooks_parts:
  assumes "merge_hooks env payload binary = Inr (text, n)"
  obtains r h handler where "decode_root env payload = Inr r" "decode_hooks (map_of r ''hooks'') = Inr h"
    "managed_handler env binary = Inr handler" "distinct (map fst r)" "distinct (map fst h)"
    "text = marshal_text env (AList.update ''hooks'' (marshal_hooks (add_managed (managed_group handler) (fst (remove_managed h)))) r)"
    "n = snd (remove_managed h)" "strip_managed (managed_group handler) = (None, 1)"
proof -
  from assms obtain r h handler where *: "decode_root env payload = Inr r" "decode_hooks (map_of r ''hooks'') = Inr h"
    "managed_handler env binary = Inr handler"
    "text = marshal_text env (AList.update ''hooks'' (marshal_hooks (add_managed (managed_group handler) (fst (remove_managed h)))) r)"
    "n = snd (remove_managed h)"
    by (auto simp: merge_hooks_def split: sum.splits prod.splits)
  moreover have "distinct (map fst r)" using *(1)
    by (auto simp: decode_root_def split: if_splits option.splits json.splits prod.splits)
  moreover have "distinct (map fst h)" using *(2)
    by (auto simp: decode_hooks_def split: option.splits json.splits)
  moreover have "strip_managed (managed_group handler) = (None, 1)"
    using is_managed_handler [OF *(3)] by (rule strip_managed_group)
  ultimately show ?thesis using that by blast
qed

text \<open>What a merged text decodes to.\<close>

lemma merged_hooks:
  assumes "reads_back env (marshal_text env (AList.update ''hooks'' (marshal_hooks h) r))"
    and "length (marshal_text env (AList.update ''hooks'' (marshal_hooks h) r)) \<le> max_config_len"
    and "distinct (map fst r)" and "distinct (map fst h)"
  shows "\<exists>r' h'. decode_root env (marshal_text env (AList.update ''hooks'' (marshal_hooks h) r)) = Inr r' \<and>
    decode_hooks (map_of r' ''hooks'') = Inr h' \<and> distinct (map fst r') \<and> distinct (map fst h') \<and>
    map_of r' = (map_of r)(''hooks'' \<mapsto> marshal_hooks h) \<and> map_of h' = map_of h"
proof -
  let ?r = "AList.update ''hooks'' (marshal_hooks h) r"
  have "map_of (object_map (sort_slice entry_less ?r)) = (map_of r)(''hooks'' \<mapsto> marshal_hooks h)"
    using assms(3) by (simp add: object_map_marshalled distinct_update update_conv')
  moreover have "map_of (object_map (sort_slice entry_less h)) = map_of h"
    using assms(4) by (simp add: object_map_marshalled)
  ultimately show ?thesis
    using decode_root_marshalled [OF assms(1,2)] by (simp add: decode_hooks_marshalled)
qed


lemma managed_sum:
  "distinct (map fst h) \<Longrightarrow> set (map fst h) \<subseteq> A \<Longrightarrow> finite A \<Longrightarrow>
   sum_list (map (\<lambda>(event, gs). managed_in gs) h) = (\<Sum>event\<in>A. managed_in (groups_at event h))"
proof -
  assume d: "distinct (map fst h)" and A: "set (map fst h) \<subseteq> A" "finite A"
  have "sum_list (map (\<lambda>(event, gs). managed_in gs) h) = (\<Sum>a\<in>set h. managed_in (groups_at (fst a) h))"
    using d by (subst sum_list_distinct_conv_sum_set) (auto simp: distinct_map groups_at_def intro!: sum.cong)
  also have "\<dots> = (\<Sum>event\<in>fst ` set h. managed_in (groups_at event h))"
    using d by (subst sum.reindex) (simp_all add: distinct_map)
  also have "\<dots> = (\<Sum>event\<in>A. managed_in (groups_at event h))"
    using A by (intro sum.mono_neutral_left) (force simp: groups_at_def dest: map_of_SomeD split: option.split)+
  finally show ?thesis .
qed

lemma marshal_hooks_eq:
  "distinct (map fst h) \<Longrightarrow> distinct (map fst k) \<Longrightarrow> map_of h = map_of k \<Longrightarrow> marshal_hooks h = marshal_hooks k"
  unfolding marshal_hooks_def
  by (intro marshal_map_eq) (simp_all only: map_of_map, simp_all add: comp_def case_prod_unfold)

lemma marshal_text_eq:
  "distinct (map fst r) \<Longrightarrow> distinct (map fst s) \<Longrightarrow> map_of r = map_of s \<Longrightarrow> marshal_text env r = marshal_text env s"
  unfolding marshal_text_def using marshal_map_eq [of r s] by simp

lemma merged_counts:
  assumes "strip_managed g = (None, 1)" and "distinct (map fst h)" and "distinct (map fst h')"
    and "map_of h' = map_of (add_managed g (fst (remove_managed h)))"
  shows "managed_in (groups_at event h') = (if event \<in> set hook_events then 1 else 0)"
    and "sum_list (map (\<lambda>(event, gs). managed_in gs) h') = 6"
proof -
  show at: "managed_in (groups_at event h') = (if event \<in> set hook_events then 1 else 0)" for event
    using assms groups_at_add [of event g "fst (remove_managed h)"]
    by (simp add: groups_at_def [of event h'] groups_at_def [of event "add_managed g (fst (remove_managed h))"] managed_in_def [of "[g]"])
  have "sum_list (map (\<lambda>(event, gs). managed_in gs) h') = (\<Sum>event\<in>set (map fst h') \<union> set hook_events. managed_in (groups_at event h'))"
    by (rule managed_sum [OF assms(3)]) auto
  also have "\<dots> = (\<Sum>event\<in>set hook_events. 1)" using at by (intro sum.mono_neutral_cong_right) auto
  also have "\<dots> = 6" by (simp add: hook_events_def)
  finally show "sum_list (map (\<lambda>(event, gs). managed_in gs) h') = 6" .
qed

text \<open>A merge and the parts its text decodes to.\<close>

lemma merge_read_back:
  assumes "reads_back env text" and "merge_hooks env payload binary = Inr (text, n)" and "length text \<le> max_config_len"
  obtains r h handler r' h' where "decode_root env payload = Inr r" "decode_hooks (map_of r ''hooks'') = Inr h"
    "managed_handler env binary = Inr handler" "strip_managed (managed_group handler) = (None, 1)"
    "distinct (map fst r)" "distinct (map fst h)"
    "text = marshal_text env (AList.update ''hooks'' (marshal_hooks (add_managed (managed_group handler) (fst (remove_managed h)))) r)"
    "decode_root env text = Inr r'" "decode_hooks (map_of r' ''hooks'') = Inr h'" "distinct (map fst r')" "distinct (map fst h')"
    "map_of r' = (map_of r)(''hooks'' \<mapsto> marshal_hooks (add_managed (managed_group handler) (fst (remove_managed h))))"
    "map_of h' = map_of (add_managed (managed_group handler) (fst (remove_managed h)))"
proof -
  obtain r h handler where m: "decode_root env payload = Inr r" "decode_hooks (map_of r ''hooks'') = Inr h"
    "managed_handler env binary = Inr handler" "strip_managed (managed_group handler) = (None, 1)"
    "distinct (map fst r)" "distinct (map fst h)"
    "text = marshal_text env (AList.update ''hooks'' (marshal_hooks (add_managed (managed_group handler) (fst (remove_managed h)))) r)"
    using merge_hooks_parts [OF assms(2)] by metis
  have "distinct (map fst (add_managed (managed_group handler) (fst (remove_managed h))))"
    using m(6) by (simp add: distinct_add_managed distinct_remove_managed)
  from merged_hooks [OF assms(1) [unfolded m(7)] _ m(5) this] assms(3) m(7) that [OF m] show thesis by metis
qed

text \<open>After a merge the configuration holds exactly one handler of the installer for each of the six events, whatever the
  configuration was before.\<close>

theorem merge_installs_handlers:
  assumes "reads_back env text" and "merge_hooks env payload binary = Inr (text, n)" and "length text \<le> max_config_len"
  shows "managed_hook_layout env text = Inr (6, True)"
proof -
  obtain h handler r' h' where p: "strip_managed (managed_group handler) = (None, 1)" "distinct (map fst h)"
    "decode_root env text = Inr r'" "decode_hooks (map_of r' ''hooks'') = Inr h'" "distinct (map fst h')"
    "map_of h' = map_of (add_managed (managed_group handler) (fst (remove_managed h)))"
    using merge_read_back [OF assms] by metis
  from merged_counts [OF p(1,2,5,6)] p(3,4) show ?thesis
    by (simp add: managed_hook_layout_def Let_def list_all_iff) (simp add: hook_events_def)
qed

text \<open>Merging twice is merging once: the second run takes out the six handlers it finds and writes the same text.\<close>

theorem merge_idempotent:
  assumes "reads_back env text" and "merge_hooks env payload binary = Inr (text, n)" and "length text \<le> max_config_len"
  shows "merge_hooks env text binary = Inr (text, 6)"
proof -
  obtain r h handler r' h' where p: "managed_handler env binary = Inr handler" "strip_managed (managed_group handler) = (None, 1)"
    "distinct (map fst r)" "distinct (map fst h)"
    "text = marshal_text env (AList.update ''hooks'' (marshal_hooks (add_managed (managed_group handler) (fst (remove_managed h)))) r)"
    "decode_root env text = Inr r'" "decode_hooks (map_of r' ''hooks'') = Inr h'" "distinct (map fst r')" "distinct (map fst h')"
    "map_of r' = (map_of r)(''hooks'' \<mapsto> marshal_hooks (add_managed (managed_group handler) (fst (remove_managed h))))"
    "map_of h' = map_of (add_managed (managed_group handler) (fst (remove_managed h)))"
    using merge_read_back [OF assms] by metis
  let ?g = "managed_group handler"
  let ?h = "add_managed ?g (fst (remove_managed h))"
  let ?k = "add_managed ?g (fst (remove_managed h'))"
  have "map_of ?k event = map_of ?h event" for event
    using p(2,4,9,11)
    by (simp add: map_of_add_managed map_of_remove_managed)
      (auto simp: groups_at_def map_of_remove_managed map_of_add_managed split: option.splits)
  then have "marshal_hooks ?k = marshal_hooks ?h"
    using p(4,9) by (intro marshal_hooks_eq) (simp_all add: distinct_add_managed distinct_remove_managed fun_eq_iff)
  then have "marshal_text env (AList.update ''hooks'' (marshal_hooks ?k) r') = text"
    unfolding p(5) using p(3,8,10) by (intro marshal_text_eq) (simp_all add: distinct_update update_conv')
  with p(1,6,7) merged_counts [OF p(2,4,9,11)] show ?thesis
    by (simp add: merge_hooks_def remove_managed_def split: prod.split)
qed


section \<open>What merging leaves alone\<close>

lemma strip_nothing: "snd (strip_managed g) = 0 \<longrightarrow> strip_managed g = (Some g, 0)"
  by (simp add: strip_managed_def Let_def split: json.split option.split)

lemma clean_groups_id: "managed_in gs = 0 \<Longrightarrow> clean_groups gs = gs"
  by (induction gs) (auto simp: managed_in_def dest!: strip_nothing [rule_format])

text \<open>Removing undoes merging.  When the configuration had no handler of the installer and no empty list of groups, the text
  after a merge and a removal has every other member of the old one and the same groups for every event.\<close>

theorem remove_undoes_merge:
  assumes "reads_back env text" and "merge_hooks env payload binary = Inr (text, n)" and "length text \<le> max_config_len"
    and "decode_root env payload = Inr r" and "decode_hooks (map_of r ''hooks'') = Inr h"
    and "h \<noteq> []" and "list_all (\<lambda>(event, gs). gs \<noteq> [] \<and> managed_in gs = 0) h"
  shows "remove_hooks env text = Inr (marshal_text env (AList.update ''hooks'' (marshal_hooks h) r), 6)"
proof -
  obtain handler r' h' where p: "strip_managed (managed_group handler) = (None, 1)"
    "distinct (map fst r)" "distinct (map fst h)"
    "decode_root env text = Inr r'" "decode_hooks (map_of r' ''hooks'') = Inr h'" "distinct (map fst r')" "distinct (map fst h')"
    "map_of r' = (map_of r)(''hooks'' \<mapsto> marshal_hooks (add_managed (managed_group handler) (fst (remove_managed h))))"
    "map_of h' = map_of (add_managed (managed_group handler) (fst (remove_managed h)))"
    using merge_read_back [OF assms(1-3)] assms(4,5) by (metis sum.inject(2))
  have clean: "map_of h event = Some gs \<Longrightarrow> gs \<noteq> [] \<and> clean_groups gs = gs" for event gs
    using assms(7) by (fastforce simp: list_all_iff clean_groups_id dest: map_of_SomeD)
  have same: "map_of (fst (remove_managed h')) event = map_of h event" for event
    using p(1,3,7,9) clean
    by (simp add: map_of_add_managed map_of_remove_managed)
      (auto simp: groups_at_def map_of_remove_managed map_of_add_managed split: option.splits)
  then have "marshal_hooks (fst (remove_managed h')) = marshal_hooks h"
    using p(3,7) by (intro marshal_hooks_eq) (simp_all add: distinct_remove_managed fun_eq_iff)
  moreover have "fst (remove_managed h') \<noteq> []"
    using same assms(6) by (metis map_of.simps(1) map_of_eq_empty_iff fun_eq_iff)
  ultimately have "marshal_text env (remove_root r' (fst (remove_managed h'))) = marshal_text env (AList.update ''hooks'' (marshal_hooks h) r)"
    unfolding remove_root_def using p(2,6,8) by (simp, intro marshal_text_eq) (simp_all add: distinct_update update_conv')
  moreover have "remove_root r' (fst (remove_managed h')) \<noteq> []"
    using \<open>fst (remove_managed h') \<noteq> []\<close> by (simp add: remove_root_def)
  ultimately show ?thesis
    using p(4,5) merged_counts [OF p(1,3,7,9)] by (simp add: remove_hooks_def remove_managed_def Let_def split: prod.split)
qed

text \<open>A configuration without hooks does not come back: an empty object of hooks stays behind.\<close>

theorem removal_leaves_empty_hooks:
  assumes "reads_back env text" and "merge_hooks env payload binary = Inr (text, n)" and "length text \<le> max_config_len"
    and "decode_root env payload = Inr r" and "map_of r ''hooks'' = None"
  shows "remove_hooks env text = Inr (marshal_text env (AList.update ''hooks'' (J_object []) r), 6)"
proof -
  obtain h handler r' h' where p: "decode_hooks (map_of r ''hooks'') = Inr h" "strip_managed (managed_group handler) = (None, 1)"
    "distinct (map fst r)" "distinct (map fst h)"
    "decode_root env text = Inr r'" "decode_hooks (map_of r' ''hooks'') = Inr h'" "distinct (map fst r')" "distinct (map fst h')"
    "map_of r' = (map_of r)(''hooks'' \<mapsto> marshal_hooks (add_managed (managed_group handler) (fst (remove_managed h))))"
    "map_of h' = map_of (add_managed (managed_group handler) (fst (remove_managed h)))"
    using merge_read_back [OF assms(1-3)] assms(4) by (metis sum.inject(2))
  have h: "h = []" using p(1) assms(5) by (simp add: decode_hooks_def)
  have "map_of (fst (remove_managed h')) event = None" for event
    using p(2,4,8,10) unfolding h
    by (simp add: map_of_add_managed map_of_remove_managed)
      (auto simp: groups_at_def map_of_remove_managed map_of_add_managed split: option.splits)
  then have kept: "fst (remove_managed h') = []" by (metis map_of_eq_empty_iff ext)
  have "marshal_text env (remove_root r' []) = marshal_text env (AList.update ''hooks'' (J_object []) r)"
    unfolding remove_root_def using p(3,7,9) by (simp, intro marshal_text_eq) (simp_all add: distinct_update update_conv')
  moreover have "remove_root r' [] \<noteq> []" using p(9) by (auto simp: remove_root_def fun_eq_iff)
  ultimately show ?thesis
    using p(5,6) kept merged_counts [OF p(2,4,8,10)] by (simp add: remove_hooks_def remove_managed_def Let_def split: prod.split)
qed

text \<open>A configuration whose only member is somebody else's setting counts as one without hooks, so an uninstallation
  that created the file removes it with the setting.\<close>

theorem lone_setting_counts_as_empty:
  assumes "reads_back env (marshal_text env [(k, v)])" and "decode_root env payload = Inr [(k, v)]" and "k \<noteq> ''hooks''"
    and "length (marshal_text env [(k, v)]) \<le> max_config_len"
  shows "remove_hooks env payload = Inr (marshal_text env [(k, v)], 0) \<and> only_empty_hooks env (marshal_text env [(k, v)])"
proof -
  have "sort_slice entry_less [(k, v)] = [(k, v)]" by simp
  then have "decode_root env (marshal_text env [(k, v)]) = Inr [(k, v)]"
    using decode_root_marshalled [OF assms(1,4)] by (simp add: object_map_def)
  with assms(2,3) show ?thesis
    by (simp add: remove_hooks_def only_empty_hooks_def decode_hooks_def remove_managed_def remove_root_def)
qed

section \<open>The meaning of a configuration\<close>

lemma canonical_members_iff:
  "canonical_members num kvs = Some ms \<longleftrightarrow> map fst ms = map fst kvs \<and> map (canonical num \<circ> snd) kvs = map (Some \<circ> snd) ms"
proof (induction kvs arbitrary: ms)
  case (Cons a kvs)
  obtain k j where a: "a = (k, j)" by (cases a)
  show ?case
  proof (cases ms)
    case Nil
    then show ?thesis by (auto simp: a split: option.split)
  next
    case (Cons b bs)
    then show ?thesis using Cons.IH [of bs] by (cases b) (auto simp: a split: option.split)
  qed
qed auto

lemma canonical_members_map_of:
  "canonical_members num kvs = Some ms \<Longrightarrow> map_of ms k = Option.bind (map_of kvs k) (canonical num)"
  by (induction kvs arbitrary: ms) (auto split: option.splits)

lemma canonical_members_defined: "canonical_members num kvs = Some ms \<Longrightarrow> (k, v) \<in> set kvs \<Longrightarrow> canonical num v \<noteq> None"
  by (induction kvs arbitrary: ms) (auto split: option.splits)

lemma canonical_members_total: "\<forall>(k, v) \<in> set kvs. canonical num v \<noteq> None \<Longrightarrow> \<exists>ms. canonical_members num kvs = Some ms"
  by (induction kvs) auto

lemma canonical_object:
  assumes "canonical num (J_object kvs) = Some c"
  obtains m where "c = marshal_map m" "distinct (map fst m)" "map_of m = (\<lambda>k. Option.bind (map_of (object_map kvs) k) (canonical num))"
    "\<And>k v. map_of (object_map kvs) k = Some v \<Longrightarrow> canonical num v \<noteq> None"
proof -
  from assms obtain ms where ms: "canonical_members num kvs = Some ms" "c = marshal_map (object_map ms)" by auto
  then have "canonical_members num (rev kvs) = Some (rev ms)" by (simp add: canonical_members_iff flip: rev_map)
  then have at: "map_of (object_map ms) k = Option.bind (map_of (object_map kvs) k) (canonical num)" for k
    by (simp only: map_of_object_map canonical_members_map_of)
  have "canonical num v \<noteq> None" if "map_of (object_map kvs) k = Some v" for k v
    using canonical_members_defined [OF ms(1), of k v] that map_of_SomeD [of "rev kvs" k v] by (simp add: map_of_object_map)
  with that [of "object_map ms"] ms(2) at show thesis by auto
qed

lemma canonical_marshalled:
  assumes "distinct (map fst m)" and "\<forall>k v. map_of m k = Some v \<longrightarrow> canonical num v \<noteq> None"
  shows "\<exists>n. canonical num (marshal_map m) = Some (marshal_map n) \<and> distinct (map fst n) \<and>
    map_of n = (\<lambda>k. Option.bind (map_of m k) (canonical num))"
proof -
  have "\<forall>(k, v) \<in> set (sort_slice entry_less m). canonical num v \<noteq> None" using assms by auto
  then obtain ms where "canonical_members num (sort_slice entry_less m) = Some ms" using canonical_members_total by blast
  then have c: "canonical num (marshal_map m) = Some (marshal_map (object_map ms))" by (simp add: marshal_map_def)
  then obtain n where n: "marshal_map (object_map ms) = marshal_map n" "distinct (map fst n)"
    "map_of n = (\<lambda>k. Option.bind (map_of (object_map (sort_slice entry_less m)) k) (canonical num))"
    unfolding marshal_map_def [of m] by (rule canonical_object)
  with c object_map_marshalled [OF assms(1)] show ?thesis by auto
qed

lemma decode_groups_map_of:
  "decode_groups kvs = Some gs \<Longrightarrow>
   map_of gs k = Option.bind (map_of kvs k) (\<lambda>j. case j of J_array gs \<Rightarrow> Some gs | J_null \<Rightarrow> Some [] | _ \<Rightarrow> None)"
  by (induction kvs arbitrary: gs) (auto split: option.splits json.splits)

lemma decode_groups_append:
  "decode_groups (kvs @ ls) = (case (decode_groups kvs, decode_groups ls) of (Some a, Some b) \<Rightarrow> Some (a @ b) | _ \<Rightarrow> None)"
  by (induction kvs) (auto split: option.split json.split)

lemma decode_groups_rev: "decode_groups kvs = Some gs \<Longrightarrow> decode_groups (rev kvs) = Some (rev gs)"
proof (induction kvs arbitrary: gs)
  case (Cons a kvs)
  obtain k j where a: "a = (k, j)" by (cases a)
  with Cons show ?case by (auto simp: decode_groups_append split: option.splits)
qed simp

text \<open>The groups of a configuration, written again, mean what they meant, unless a list of groups was \<^verbatim>\<open>null\<close> or empty.\<close>

lemma groups_meaning:
  assumes "decode_groups kvs = Some gs" and "h = object_map gs" and "\<And>event hs. map_of h event = Some hs \<Longrightarrow> hs \<noteq> []"
    and "canonical num (J_object kvs) = Some c"
  shows "canonical num (marshal_hooks h) = Some c"
proof -
  let ?m = "map (\<lambda>(event, gs). (event, J_array gs)) h"
  obtain m where m: "c = marshal_map m" "distinct (map fst m)" "map_of m = (\<lambda>k. Option.bind (map_of (object_map kvs) k) (canonical num))"
    "\<And>k v. map_of (object_map kvs) k = Some v \<Longrightarrow> canonical num v \<noteq> None"
    using canonical_object [OF assms(4)] by blast
  have "map_of h k = Option.bind (map_of (object_map kvs) k) (\<lambda>j. case j of J_array gs \<Rightarrow> Some gs | J_null \<Rightarrow> Some [] | _ \<Rightarrow> None)" for k
    unfolding assms(2) map_of_object_map by (rule decode_groups_map_of [OF decode_groups_rev [OF assms(1)]])
  moreover have "map_of (object_map kvs) k = None" if "map_of h k = None" for k
  proof -
    have "map fst gs = map fst kvs" using assms(1) by (induction kvs arbitrary: gs) (auto split: option.splits)
    with that show ?thesis unfolding assms(2) map_of_object_map map_of_eq_None_iff by simp (metis list.set_map)
  qed
  ultimately have "map_of (object_map kvs) k = map_option J_array (map_of h k)" for k
    using assms(3) [of k] by (cases "map_of (object_map kvs) k"; cases "map_of h k") (fastforce split: json.splits)+
  then have same: "map_of ?m = map_of (object_map kvs)"
    by (simp only: fun_eq_iff map_of_map comp_apply simp_thms)
  have d: "distinct (map fst ?m)" unfolding assms(2) by (simp add: comp_def case_prod_unfold)
  have "\<forall>k v. map_of ?m k = Some v \<longrightarrow> canonical num v \<noteq> None" using m(4) unfolding same by blast
  from canonical_marshalled [OF d this] obtain n where
    n: "canonical num (marshal_map ?m) = Some (marshal_map n)" "distinct (map fst n)" "map_of n = (\<lambda>k. Option.bind (map_of ?m k) (canonical num))"
    by blast
  with marshal_map_eq [OF n(2) m(2)] m(1,3) same show ?thesis by (simp add: marshal_hooks_def)
qed

lemma root_meaning:
  assumes "r = object_map kvs" and "canonical num (J_object kvs) = Some c" and "map_of r ''hooks'' = Some v"
    and "canonical num w = canonical num v"
  shows "canonical num (marshal_map (AList.update ''hooks'' w r)) = Some c"
proof -
  let ?m = "AList.update ''hooks'' w r"
  obtain m where m: "c = marshal_map m" "distinct (map fst m)" "map_of m = (\<lambda>k. Option.bind (map_of (object_map kvs) k) (canonical num))"
    "\<And>k v. map_of (object_map kvs) k = Some v \<Longrightarrow> canonical num v \<noteq> None"
    using canonical_object [OF assms(2)] by blast
  have d: "distinct (map fst ?m)" unfolding assms(1) by (simp add: distinct_update)
  have at: "map_of ?m k = (if k = ''hooks'' then Some w else map_of r k)" for k by (simp add: update_conv')
  have "\<forall>k u. map_of ?m k = Some u \<longrightarrow> canonical num u \<noteq> None"
    using m(4) [folded assms(1)] assms(3,4) by (auto simp: at split: if_splits)
  from canonical_marshalled [OF d this] obtain n where
    n: "canonical num (marshal_map ?m) = Some (marshal_map n)" "distinct (map fst n)" "map_of n = (\<lambda>k. Option.bind (map_of ?m k) (canonical num))"
    by blast
  have "map_of n = map_of m" using assms(3,4) unfolding n(3) m(3) at assms(1) [symmetric] by (auto simp: fun_eq_iff)
  with marshal_map_eq [OF n(2) m(2)] m(1) n(1) show ?thesis by simp
qed

text \<open>What removing gives after merging means the old configuration, when that has hooks and no list of groups is empty.\<close>

theorem removed_means_original:
  assumes "reads_back env text" and "merge_hooks env payload binary = Inr (text, n)" and "length text \<le> max_config_len"
    and "payload \<noteq> []" and "decode_root env payload = Inr r" and "decode_hooks (map_of r ''hooks'') = Inr h"
    and "h \<noteq> []" and "list_all (\<lambda>(event, gs). gs \<noteq> [] \<and> managed_in gs = 0) h" and "decode_any env payload \<noteq> None"
    and "reads_back env (marshal_text env (AList.update ''hooks'' (marshal_hooks h) r))"
  shows "\<exists>cleaned. remove_hooks env text = Inr (cleaned, 6) \<and> semantic_equal env cleaned payload"
proof -
  obtain kvs where kvs: "je_decode env payload = Some (J_object kvs, True)" "r = object_map kvs"
    using assms(4,5) by (auto simp: decode_root_def split: if_splits option.splits json.splits prod.splits)
  then obtain c where c: "decode_any env payload = Some c" "canonical (je_number env) (J_object kvs) = Some c"
    using assms(9) by (auto simp: decode_any_def)
  obtain gkvs gs where g: "map_of r ''hooks'' = Some (J_object gkvs)" "decode_groups gkvs = Some gs" "h = object_map gs"
    using assms(6,7) by (auto simp: decode_hooks_def split: option.splits json.splits)
  obtain d where d: "canonical (je_number env) (J_object gkvs) = Some d"
    using canonical_object [OF c(2)] g(1) kvs(2) by (metis not_Some_eq)
  have "canonical (je_number env) (marshal_hooks h) = Some d"
    by (rule groups_meaning [OF g(2,3) _ d]) (use assms(8) in \<open>fastforce simp: list_all_iff dest: map_of_SomeD\<close>)
  then have "canonical (je_number env) (marshal_hooks h) = canonical (je_number env) (J_object gkvs)" unfolding d .
  from root_meaning [OF kvs(2) c(2) g(1) this]
  have "canonical (je_number env) (marshal_map (AList.update ''hooks'' (marshal_hooks h) r)) = Some c" .
  moreover have "je_decode env (marshal_text env (AList.update ''hooks'' (marshal_hooks h) r)) =
      Some (marshal_map (AList.update ''hooks'' (marshal_hooks h) r), True)"
    using assms(10) by (simp add: reads_back_def marshal_text_def)
  ultimately have "semantic_equal env (marshal_text env (AList.update ''hooks'' (marshal_hooks h) r)) payload"
    using c(1) by (simp add: semantic_equal_def decode_any_def)
  with remove_undoes_merge [OF assms(1-3,5-8)] show ?thesis by blast
qed

text \<open>The handlers of a group that are not the installer's; a group of another shape is taken as a whole.\<close>

definition foreign_parts :: "json \<Rightarrow> json list" where
  "foreign_parts grp = (case grp of
     J_object kvs \<Rightarrow> (case map_of (object_map kvs) ''hooks'' of
         Some (J_array handlers) \<Rightarrow> filter (\<lambda>h. \<not> is_managed h) handlers
       | _ \<Rightarrow> [grp])
   | _ \<Rightarrow> [grp])"

definition foreign_hooks :: "json_env \<Rightarrow> string \<Rightarrow> string \<Rightarrow> json list" where
  "foreign_hooks env payload event = (case decode_root env payload of
     Inl _ \<Rightarrow> []
   | Inr r \<Rightarrow> (case decode_hooks (map_of r ''hooks'') of
       Inl _ \<Rightarrow> [] | Inr h \<Rightarrow> concat (map foreign_parts (groups_at event h))))"

lemma foreign_strip: "(case fst (strip_managed g) of None \<Rightarrow> [] | Some k \<Rightarrow> foreign_parts k) = foreign_parts g"
  by (simp add: strip_managed_def foreign_parts_def marshal_map_def object_map_marshalled distinct_update update_conv' Let_def
      filter_empty_conv split: json.split option.split)

lemma foreign_clean [simp]: "concat (map foreign_parts (clean_groups gs)) = concat (map foreign_parts gs)"
proof (induction gs)
  case (Cons g gs)
  then show ?case using foreign_strip [of g] by (cases "fst (strip_managed g)") auto
qed simp

text \<open>Merging leaves the handlers of others as they are, in their order, for every event.\<close>

theorem foreign_hooks_kept:
  assumes "reads_back env text" and "merge_hooks env payload binary = Inr (text, n)" and "length text \<le> max_config_len"
  shows "foreign_hooks env text event = foreign_hooks env payload event"
proof -
  obtain r h handler r' h' where p: "decode_root env payload = Inr r" "decode_hooks (map_of r ''hooks'') = Inr h"
    "strip_managed (managed_group handler) = (None, 1)" "distinct (map fst h)"
    "decode_root env text = Inr r'" "decode_hooks (map_of r' ''hooks'') = Inr h'"
    "map_of h' = map_of (add_managed (managed_group handler) (fst (remove_managed h)))"
    using merge_read_back [OF assms] by metis
  have "foreign_parts (managed_group handler) = []" using foreign_strip [of "managed_group handler"] p(3) by simp
  moreover have "groups_at event h' = groups_at event (add_managed (managed_group handler) (fst (remove_managed h)))"
    by (simp add: groups_at_def p(7))
  ultimately show ?thesis using p by (simp add: foreign_hooks_def groups_at_add)
qed


section \<open>The command line\<close>

text \<open>How a POSIX shell splits a line into words, for lines without expansions: \<^const>\<open>None\<close> when it meets one.  The word being read
  is \<open>cur\<close>, \<^const>\<open>None\<close> between words.\<close>

datatype quoting = Bare | Single_quoted | Double_quoted

fun shell_words :: "quoting \<Rightarrow> string option \<Rightarrow> string \<Rightarrow> string list option" where
  "shell_words Bare cur [] = Some (case cur of None \<Rightarrow> [] | Some w \<Rightarrow> [w])"
| "shell_words _ cur [] = None"
| "shell_words Bare cur (c # s) =
     (let w = (case cur of None \<Rightarrow> [] | Some w \<Rightarrow> w) in
      if c = CHR 0x27 then shell_words Single_quoted (Some w) s
      else if c = CHR 0x22 then shell_words Double_quoted (Some w) s
      else if c = CHR 0x20 then (case cur of None \<Rightarrow> shell_words Bare None s | Some v \<Rightarrow> map_option ((#) v) (shell_words Bare None s))
      else if c \<in> set ''$`|&;<>()*?[#~=%!{}'' \<or> c = CHR 0x5C \<or> c = CHR 0x0A then None
      else shell_words Bare (Some (w @ [c])) s)"
| "shell_words Single_quoted cur (c # s) =
     (let w = (case cur of None \<Rightarrow> [] | Some w \<Rightarrow> w) in
      if c = CHR 0x27 then shell_words Bare (Some w) s else shell_words Single_quoted (Some (w @ [c])) s)"
| "shell_words Double_quoted cur (c # s) =
     (let w = (case cur of None \<Rightarrow> [] | Some w \<Rightarrow> w) in
      if c = CHR 0x22 then shell_words Bare (Some w) s
      else if c = CHR ''$'' \<or> c = CHR 0x60 \<or> c = CHR 0x5C then None
      else shell_words Double_quoted (Some (w @ [c])) s)"

lemma shell_quoted_body:
  "shell_words Single_quoted (Some w) (replace_all [CHR 0x27] [CHR 0x27, CHR 0x22, CHR 0x27, CHR 0x22, CHR 0x27] v @ CHR 0x27 # s) =
   shell_words Bare (Some (w @ v)) s"
proof (induction v arbitrary: w)
  case (Cons c v)
  then show ?case by (cases "c = CHR 0x27") (simp_all add: has_prefix_def)
qed simp

lemma shell_quoted: "shell_words Bare cur (quote_posix v @ s) = shell_words Bare (Some ((case cur of None \<Rightarrow> [] | Some w \<Rightarrow> w) @ v)) s"
  using shell_quoted_body by (simp add: quote_posix_def)

text \<open>The shell runs the binary the handler was made for: whatever characters its path has, spaces and quotes included, the
  command splits into the path, the option and the identifier.\<close>

theorem handler_command_words:
  "shell_words Bare None (quote_posix binary @ '' --aav-install-id '' @ quote_posix install_id) =
   Some [binary, ''--aav-install-id'', install_id]"
  using shell_quoted [of None binary "'' --aav-install-id '' @ quote_posix install_id"] shell_quoted [of None install_id "[]"]
  by (simp add: id_argument)

section \<open>Example\<close>

instance json :: countable
  by countable_datatype

definition demo_handler :: json where
  "demo_handler = (case managed_handler \<lparr>je_decode = \<lambda>_. None, je_encode = \<lambda>_. [], je_number = Some, je_cwd = None\<rparr> ''/p/b'' of
     Inl _ \<Rightarrow> J_null | Inr h \<Rightarrow> h)"

text \<open>A configuration with a group of somebody else, before and after the merge.\<close>

definition demo_config :: json where
  "demo_config = J_object [(''hooks'', J_object [(''Stop'', J_array [J_null])])]"

definition demo_merged :: json where
  "demo_merged = marshal_map (AList.update ''hooks'' (marshal_hooks (add_managed (managed_group demo_handler)
     (fst (remove_managed [(''Stop'', [J_null])])))) [(''hooks'', J_object [(''Stop'', J_array [J_null])])])"

text \<open>An encoder that gives the two a short text and any other value its number.\<close>

definition demo_encode :: "json \<Rightarrow> string" where
  "demo_encode v = (if v = demo_merged then ''A'' else ''B'' @ replicate (to_nat v) CHR ''x'')"

definition demo_decode :: "string \<Rightarrow> (json \<times> bool) option" where
  "demo_decode s = (if s = ''P'' then Some (demo_config, True)
     else if s = [CHR ''A'', CHR 0x0A] then Some (demo_merged, True)
     else if s \<noteq> [] \<and> hd s = CHR ''B'' then Some (from_nat (length s - 2), True) else None)"

definition demo_json_env :: json_env where
  "demo_json_env = \<lparr>je_decode = demo_decode, je_encode = demo_encode, je_number = Some, je_cwd = None\<rparr>"

lemma demo_reads_back: "reads_back demo_json_env text"
  by (auto simp: reads_back_def demo_json_env_def demo_encode_def demo_decode_def)

lemma demo_root: "decode_root demo_json_env ''P'' = Inr [(''hooks'', J_object [(''Stop'', J_array [J_null])])]"
  by (simp add: decode_root_def demo_json_env_def demo_decode_def demo_config_def object_map_def max_config_len_def)

lemma demo_hooks: "decode_hooks (Some (J_object [(''Stop'', J_array [J_null])])) = Inr [(''Stop'', [J_null])]"
  by (simp add: decode_hooks_def object_map_def)

lemma demo_managed: "managed_handler demo_json_env ''/p/b'' = Inr demo_handler"
proof -
  have "absolute_path None ''/p/b'' = Some ''/p/b''" by code_simp
  then show ?thesis by (simp add: demo_handler_def managed_handler_def demo_json_env_def quote_windows_def)
qed

lemma demo_merge: "merge_hooks demo_json_env ''P'' ''/p/b'' = Inr ([CHR ''A'', CHR 0x0A], 0)"
proof -
  have "snd (remove_managed [(''Stop'', [J_null])]) = 0" by (simp add: remove_managed_def managed_in_def strip_managed_def)
  then show ?thesis
    by (simp add: merge_hooks_def demo_root demo_hooks demo_managed marshal_text_def case_prod_unfold)
      (simp add: demo_json_env_def demo_encode_def demo_merged_def)
qed

lemma demo_short: "length [CHR ''A'', CHR 0x0A] \<le> max_config_len"
  by (simp add: max_config_len_def)

theorem merge_installs_handlers_witness: "managed_hook_layout demo_json_env [CHR ''A'', CHR 0x0A] = Inr (6, True)"
  by (rule merge_installs_handlers [OF demo_reads_back demo_merge demo_short])

theorem merge_idempotent_witness: "merge_hooks demo_json_env [CHR ''A'', CHR 0x0A] ''/p/b'' = Inr ([CHR ''A'', CHR 0x0A], 6)"
  by (rule merge_idempotent [OF demo_reads_back demo_merge demo_short])

theorem foreign_hooks_kept_witness: "foreign_hooks demo_json_env [CHR ''A'', CHR 0x0A] ''Stop'' = [J_null]"
  using foreign_hooks_kept [OF demo_reads_back demo_merge demo_short, of "''Stop''"]
  by (simp add: foreign_hooks_def demo_root demo_hooks groups_at_def foreign_parts_def)

theorem remove_undoes_merge_witness:
  "remove_hooks demo_json_env [CHR ''A'', CHR 0x0A] = Inr (marshal_text demo_json_env
     [(''hooks'', marshal_hooks [(''Stop'', [J_null])])], 6)"
  using remove_undoes_merge [OF demo_reads_back demo_merge demo_short demo_root, of "[(''Stop'', [J_null])]"]
  by (simp add: demo_hooks managed_in_def strip_managed_def)

theorem removed_means_original_witness:
  "\<exists>cleaned. remove_hooks demo_json_env [CHR ''A'', CHR 0x0A] = Inr (cleaned, 6) \<and> semantic_equal demo_json_env cleaned ''P''"
proof (rule removed_means_original [OF demo_reads_back demo_merge demo_short _ demo_root])
  show "decode_hooks (map_of [(''hooks'', J_object [(''Stop'', J_array [J_null])])] ''hooks'') = Inr [(''Stop'', [J_null])]"
    using demo_hooks by simp
  have "canonical Some demo_config \<noteq> None" by code_simp
  then show "decode_any demo_json_env ''P'' \<noteq> None" by (simp add: decode_any_def demo_json_env_def demo_decode_def)
qed (simp_all add: managed_in_def strip_managed_def demo_reads_back)

end
