(* ===== verification/Installer.thy ===== *)
theory Installer
  imports Install_Config
begin

text \<open>
  \<^verbatim>\<open>internal/adapters/codex/install/installer.go\<close>: installing the hook, uninstalling it and telling its status.  The
  operations run on the files of \<^verbatim>\<open>Install_Files\<close>, so each of their calls may fail or be the last.  SHA-256 and the JSON
  of the state file are parameters; the removal of empty directories and the detail texts of a result are left out.
\<close>

section \<open>Options, target and state\<close>

datatype scope = Scope_project | Scope_user | Scope_other string

record install_options =
  op_scope :: scope
  op_project_root :: string
  op_codex_home :: string
  op_hook_binary :: string
  op_dry_run :: bool

datatype install_status = St_installed | St_planned | St_not_installed | St_partial | St_passed

record install_result =
  ir_status :: install_status
  ir_changed :: bool
  ir_managed_hooks :: nat

record install_state =
  is_version :: int
  is_install_id :: string
  is_scope :: scope
  is_phase :: string
  is_config_path :: string
  is_binary_path :: string
  is_original_exists :: bool
  is_original_sha :: string
  is_backup_path :: string
  is_binary_sha :: string

record target =
  tg_scope :: scope
  tg_config :: string
  tg_state :: string
  tg_backup :: string
  tg_binary :: string

record installer_env = json_env +
  ie_hash :: "string \<Rightarrow> string"
  ie_decode_state :: "string \<Rightarrow> install_state option"
  ie_encode_state :: "install_state \<Rightarrow> string"
  ie_codex_home :: string
  ie_home :: "string option"
  ie_windows :: bool

definition max_state_len :: nat where "max_state_len = 65536"
definition max_binary_len :: nat where "max_binary_len = 134217728"

definition codex_dir :: "installer_env \<Rightarrow> install_options \<Rightarrow> install_error + scope \<times> string" where
  "codex_dir env opts =
     (let scope = (if op_scope opts = Scope_other [] then Scope_project else op_scope opts) in
      case scope of
        Scope_project \<Rightarrow>
          (case (if op_project_root opts = [] then je_cwd env else Some (op_project_root opts)) of
             None \<Rightarrow> Inl Os_failed
           | Some root \<Rightarrow> (case absolute_path (je_cwd env) root of
               None \<Rightarrow> Inl Os_failed | Some absolute \<Rightarrow> Inr (scope, path_join [absolute, ''.codex''])))
      | Scope_user \<Rightarrow>
          (let dir0 = op_codex_home opts;
               dir1 = (if dir0 = [] then trim_space (ie_codex_home env) else dir0)
           in case (if dir1 = [] then map_option (\<lambda>home. path_join [home, ''.codex'']) (ie_home env) else Some dir1) of
             None \<Rightarrow> Inl Os_failed
           | Some dir \<Rightarrow> (case absolute_path (je_cwd env) dir of None \<Rightarrow> Inl Os_failed | Some absolute \<Rightarrow> Inr (scope, absolute)))
      | Scope_other _ \<Rightarrow> Inl Bad_scope)"

definition target_in :: "bool \<Rightarrow> scope \<Rightarrow> string \<Rightarrow> target" where
  "target_in windows scope dir = \<lparr>tg_scope = scope, tg_config = path_join [dir, ''hooks.json''],
     tg_state = path_join [dir, ''.aav-codex-install.json''], tg_backup = path_join [dir, ''hooks.json.aav-backup''],
     tg_binary = path_join [dir, ''aav'', ''bin'', ''aav-codex-hook'' @ (if windows then ''.exe'' else [])]\<rparr>"

definition resolve_target :: "installer_env \<Rightarrow> install_options \<Rightarrow> install_error + target" where
  "resolve_target env opts = map_sum id (\<lambda>(scope, dir). target_in (ie_windows env) scope dir) (codex_dir env opts)"

section \<open>Steps\<close>

definition io_lift :: "install_error + 'a \<Rightarrow> 'a io" where
  "io_lift r = (case r of Inl e \<Rightarrow> io_fail e | Inr x \<Rightarrow> io_return x)"

fun recover_paths :: "string list \<Rightarrow> unit io" where
  "recover_paths [] = io_return ()"
| "recover_paths (p # ps) = io_bind (recover_swap p) (\<lambda>_. recover_paths ps)"

fun check_swaps :: "string list \<Rightarrow> unit io" where
  "check_swaps [] = io_return ()"
| "check_swaps (p # ps) = io_bind (sys_stat (swap_path p)) (\<lambda>s. case s of
     Stat_exists \<Rightarrow> io_fail Interrupted_write | Stat_unknown \<Rightarrow> io_fail Os_failed | Stat_missing \<Rightarrow> check_swaps ps)"

definition target_paths :: "target \<Rightarrow> string list" where
  "target_paths t = [tg_config t, tg_state t, tg_backup t, tg_binary t]"

definition recover_target :: "target \<Rightarrow> unit io" where
  "recover_target t = recover_paths (target_paths t)"

definition check_interrupted_writes :: "target \<Rightarrow> unit io" where
  "check_interrupted_writes t = check_swaps (target_paths t)"

definition read_state :: "installer_env \<Rightarrow> string \<Rightarrow> install_state option io" where
  "read_state env path = io_bind (read_optional path max_state_len) (\<lambda>payload. case payload of
     None \<Rightarrow> io_return None
   | Some text \<Rightarrow> (case ie_decode_state env text of None \<Rightarrow> io_fail Bad_state_json | Some s \<Rightarrow> io_return (Some s)))"

definition write_state :: "installer_env \<Rightarrow> string \<Rightarrow> install_state \<Rightarrow> unit io" where
  "write_state env path s = atomic_write path (ie_encode_state env s @ [CHR 0x0A])"

definition validate_state :: "install_state \<Rightarrow> target \<Rightarrow> install_error option" where
  "validate_state s t =
     (if is_version s \<noteq> 1 \<or> is_install_id s \<noteq> install_id then Some State_unsupported
      else if is_scope s \<noteq> tg_scope t \<or> path_clean (is_config_path s) \<noteq> path_clean (tg_config t) \<or>
        path_clean (is_binary_path s) \<noteq> path_clean (tg_binary t) then Some State_other_target
      else if is_phase s \<noteq> ''installing'' \<and> is_phase s \<noteq> ''installed'' then Some State_bad_phase
      else if length (is_binary_sha s) \<noteq> 64 then Some State_bad_digest
      else None)"

definition validate_backup :: "installer_env \<Rightarrow> install_state \<Rightarrow> unit io" where
  "validate_backup env s =
     (if \<not> is_original_exists s then io_return ()
      else io_bind (read_optional (is_backup_path s) max_config_len) (\<lambda>backup. case backup of
          None \<Rightarrow> io_fail Backup_mismatch
        | Some b \<Rightarrow> if ie_hash env b \<noteq> is_original_sha s then io_fail Backup_mismatch else io_return ()))"

definition ensure_backup :: "installer_env \<Rightarrow> install_state \<Rightarrow> string option \<Rightarrow> unit io" where
  "ensure_backup env s config =
     (if \<not> is_original_exists s then io_return ()
      else io_bind (read_optional (is_backup_path s) max_config_len) (\<lambda>backup. case backup of
          Some b \<Rightarrow> if ie_hash env b \<noteq> is_original_sha s then io_fail Backup_mismatch else io_return ()
        | None \<Rightarrow> (case config of
              None \<Rightarrow> io_fail Backup_unrecoverable
            | Some c \<Rightarrow>
                if is_phase s \<noteq> ''installing'' \<or> ie_hash env c \<noteq> is_original_sha s then io_fail Backup_unrecoverable
                else if managed_hook_count (json_env.truncate env) c \<noteq> Inr 0 then io_fail Backup_unrecoverable
                else atomic_write (is_backup_path s) c)))"

text \<open>The state an operation found, checked against the target.\<close>

definition check_state :: "installer_env \<Rightarrow> bool \<Rightarrow> target \<Rightarrow> install_state option \<Rightarrow> string option \<Rightarrow> unit io" where
  "check_state env dry t found config = (case found of
     None \<Rightarrow> io_return ()
   | Some s \<Rightarrow> (case validate_state s t of
       Some e \<Rightarrow> io_fail e
     | None \<Rightarrow> if dry then validate_backup env s else ensure_backup env s config))"

definition payload_of :: "string option \<Rightarrow> string" where
  "payload_of config = (case config of None \<Rightarrow> [] | Some c \<Rightarrow> c)"

section \<open>Install\<close>

definition new_state :: "installer_env \<Rightarrow> target \<Rightarrow> string option \<Rightarrow> string \<Rightarrow> install_state" where
  "new_state env t config binary = \<lparr>is_version = 1, is_install_id = install_id, is_scope = tg_scope t, is_phase = ''installing'',
     is_config_path = tg_config t, is_binary_path = tg_binary t, is_original_exists = config \<noteq> None,
     is_original_sha = (case config of None \<Rightarrow> [] | Some c \<Rightarrow> ie_hash env c),
     is_backup_path = (if config = None then [] else tg_backup t), is_binary_sha = ie_hash env binary\<rparr>"

text \<open>The first run writes its state and the backup of the configuration before it changes anything.\<close>

definition begin_install :: "installer_env \<Rightarrow> target \<Rightarrow> string option \<Rightarrow> string \<Rightarrow> install_state io" where
  "begin_install env t config binary =
     io_bind (if config = None then io_return None else read_optional (tg_backup t) max_config_len) (\<lambda>backup.
       if backup \<noteq> None then io_fail Unmanaged_backup
       else let s = new_state env t config binary in
         io_bind (write_state env (tg_state t) s) (\<lambda>_. io_bind (ensure_backup env s config) (\<lambda>_. io_return s)))"

definition install_files :: "installer_env \<Rightarrow> target \<Rightarrow> install_state option \<Rightarrow> string option \<Rightarrow> string \<Rightarrow> string \<Rightarrow> unit io" where
  "install_files env t previous config desired binary =
     io_bind (case previous of Some s \<Rightarrow> io_return s | None \<Rightarrow> begin_install env t config binary) (\<lambda>s.
     io_bind (atomic_write (tg_binary t) binary) (\<lambda>_.
     io_bind (atomic_write (tg_config t) desired) (\<lambda>_.
       write_state env (tg_state t) (s\<lparr>is_phase := ''installed'', is_binary_sha := ie_hash env binary\<rparr>))))"

definition install_changed :: "installer_env \<Rightarrow> install_state option \<Rightarrow> string option \<Rightarrow> string option \<Rightarrow> string \<Rightarrow> string \<Rightarrow> bool" where
  "install_changed env previous config installed desired binary \<longleftrightarrow>
     config \<noteq> Some desired \<or> installed \<noteq> Some binary \<or>
     (case previous of None \<Rightarrow> True | Some s \<Rightarrow> is_phase s \<noteq> ''installed'' \<or> is_binary_sha s \<noteq> ie_hash env binary)"

definition install_result_of :: "install_status \<Rightarrow> bool \<Rightarrow> nat \<Rightarrow> install_result" where
  "install_result_of s changed n = \<lparr>ir_status = s, ir_changed = changed, ir_managed_hooks = n\<rparr>"

text \<open>\<^verbatim>\<open>Install\<close> from the point where the binary and the configuration are read.\<close>

definition install_from :: "installer_env \<Rightarrow> bool \<Rightarrow> target \<Rightarrow> string \<Rightarrow> string option \<Rightarrow> install_result io" where
  "install_from env dry t binary config =
     io_bind (io_lift (merge_hooks (json_env.truncate env) (payload_of config) (tg_binary t))) (\<lambda>(desired, _).
     io_bind (read_state env (tg_state t)) (\<lambda>previous.
     io_bind (check_state env dry t previous config) (\<lambda>_.
     io_bind (read_optional (tg_binary t) max_binary_len) (\<lambda>installed.
     if previous = None \<and> installed \<noteq> None then io_fail Unmanaged_binary
     else if \<not> install_changed env previous config installed desired binary
     then io_return (install_result_of St_installed False (length hook_events))
     else if dry then io_return (install_result_of St_planned True (length hook_events))
     else io_bind (install_files env t previous config desired binary) (\<lambda>_.
       io_return (install_result_of St_installed True (length hook_events)))))))"

definition install :: "installer_env \<Rightarrow> install_options \<Rightarrow> install_result io" where
  "install env opts =
     io_bind (io_lift (resolve_target env opts)) (\<lambda>t.
     io_bind (if op_dry_run opts then check_interrupted_writes t else recover_target t) (\<lambda>_.
     case (if trim_space (op_hook_binary opts) = [] then None else absolute_path (je_cwd env) (op_hook_binary opts)) of
       None \<Rightarrow> io_fail Binary_required
     | Some source \<Rightarrow>
     io_bind (read_optional source max_binary_len) (\<lambda>found.
     case found of None \<Rightarrow> io_fail Binary_missing | Some binary \<Rightarrow>
     io_bind (read_optional (tg_config t) max_config_len) (\<lambda>config.
     if config = Some [] then io_fail Config_empty else install_from env (op_dry_run opts) t binary config))))"

section \<open>Uninstall\<close>

text \<open>The backup when it can replace the configuration as a whole.\<close>

definition restoration :: "installer_env \<Rightarrow> install_state option \<Rightarrow> string \<Rightarrow> string option io" where
  "restoration env found cleaned = (case found of
     None \<Rightarrow> io_return None
   | Some s \<Rightarrow>
       if \<not> is_original_exists s then io_return None
       else io_bind (read_optional (is_backup_path s) max_config_len) (\<lambda>backup. case backup of
           None \<Rightarrow> io_fail Backup_mismatch
         | Some b \<Rightarrow>
             if ie_hash env b \<noteq> is_original_sha s then io_fail Backup_mismatch
             else if cleaned = [] \<or> semantic_equal (json_env.truncate env) cleaned b then io_return (Some b)
             else io_return None))"

definition uninstall_files :: "target \<Rightarrow> install_state option \<Rightarrow> string option \<Rightarrow> string \<Rightarrow> unit io" where
  "uninstall_files t found restore cleaned =
     io_bind (case restore of
         Some c \<Rightarrow> atomic_write (tg_config t) c
       | None \<Rightarrow> if cleaned = [] then remove_if_exists (tg_config t) else atomic_write (tg_config t) cleaned) (\<lambda>_.
     io_bind (remove_if_exists (tg_binary t)) (\<lambda>_.
     io_bind (case found of Some s \<Rightarrow> if is_backup_path s \<noteq> [] then remove_if_exists (is_backup_path s) else io_return ()
       | None \<Rightarrow> io_return ()) (\<lambda>_.
       remove_if_exists (tg_state t))))"

definition uninstall :: "installer_env \<Rightarrow> install_options \<Rightarrow> install_result io" where
  "uninstall env opts =
     io_bind (io_lift (resolve_target env opts)) (\<lambda>t.
     io_bind (if op_dry_run opts then check_interrupted_writes t else recover_target t) (\<lambda>_.
     io_bind (read_optional (tg_config t) max_config_len) (\<lambda>config.
     if config = Some [] then io_fail Config_empty else
     io_bind (read_state env (tg_state t)) (\<lambda>found.
     io_bind (check_state env (op_dry_run opts) t found config) (\<lambda>_.
     io_bind (io_lift (case config of None \<Rightarrow> Inr ([], 0) | Some c \<Rightarrow> remove_hooks (json_env.truncate env) c)) (\<lambda>(cleaned0, removed).
     io_bind (read_optional (tg_binary t) max_binary_len) (\<lambda>binary.
     if found = None \<and> binary \<noteq> None then io_fail Unmanaged_binary
     else if found = None \<and> binary = None \<and> removed = 0
     then io_return (install_result_of St_not_installed False removed)
     else io_bind (restoration env found cleaned0) (\<lambda>restore.
       let cleaned = (if (case found of None \<Rightarrow> False | Some s \<Rightarrow> \<not> is_original_exists s) \<and> only_empty_hooks (json_env.truncate env) cleaned0
                      then [] else cleaned0)
       in if op_dry_run opts then io_return (install_result_of St_planned True removed)
          else io_bind (uninstall_files t found restore cleaned) (\<lambda>_.
            io_return (install_result_of St_not_installed True removed))))))))))"

section \<open>Status\<close>

definition status_of :: "installer_env \<Rightarrow> install_state option \<Rightarrow> string option \<Rightarrow> nat \<Rightarrow> bool \<Rightarrow> install_status" where
  "status_of env found binary n complete =
     (case (found, binary) of
        (None, None) \<Rightarrow> if n = 0 then St_not_installed else St_partial
      | (Some s, Some b) \<Rightarrow>
          if is_phase s = ''installed'' \<and> ie_hash env b = is_binary_sha s \<and> complete then St_installed else St_partial
      | _ \<Rightarrow> St_partial)"

definition install_status_of :: "installer_env \<Rightarrow> install_options \<Rightarrow> install_result io" where
  "install_status_of env opts =
     io_bind (io_lift (resolve_target env opts)) (\<lambda>t.
     io_bind (io_try (check_interrupted_writes t)) (\<lambda>interrupted.
     case interrupted of Inl _ \<Rightarrow> io_return (install_result_of St_partial False 0) | Inr _ \<Rightarrow>
     io_bind (read_optional (tg_config t) max_config_len) (\<lambda>config.
     if config = Some [] then io_fail Config_empty else
     io_bind (io_lift (case config of None \<Rightarrow> Inr (0, False) | Some c \<Rightarrow> managed_hook_layout (json_env.truncate env) c)) (\<lambda>(n, complete).
     io_bind (read_state env (tg_state t)) (\<lambda>found.
     io_bind (check_state env True t found config) (\<lambda>_.
     io_bind (read_optional (tg_binary t) max_binary_len) (\<lambda>binary.
       io_return (install_result_of (status_of env found binary n complete) False n))))))))"

text \<open>\<open>probe\<close> is the run of the installed hook against a collector of its own.\<close>

definition install_test :: "installer_env \<Rightarrow> unit io \<Rightarrow> install_options \<Rightarrow> install_result io" where
  "install_test env probe opts = io_bind (install_status_of env opts) (\<lambda>r.
     if ir_status r \<noteq> St_installed then io_fail Not_fully_installed
     else io_bind probe (\<lambda>_. io_return (r\<lparr>ir_status := St_passed\<rparr>)))"

end
