(* ===== verification/Installer_Props.thy ===== *)
theory Installer_Props
  imports Installer
begin

text \<open>
  Properties of the installer of \<^verbatim>\<open>Installer\<close>: a dry run changes nothing, an interrupted installation loses no
  configuration, and the cases in which an installation cannot be taken back.
\<close>

section \<open>Dry runs\<close>

definition read_only :: "'a io \<Rightarrow> bool" where
  "read_only m \<longleftrightarrow> (\<forall>w. w_files (snd (m w)) = w_files w)"

lemma read_only_basic [simp]: "read_only (io_return x)" "read_only (io_fail e)"
  by (simp_all add: read_only_def io_return_def io_fail_def)

lemma read_only_bind [intro]: "read_only m \<Longrightarrow> (\<And>x. read_only (f x)) \<Longrightarrow> read_only (io_bind m f)"
  by (auto simp: read_only_def io_bind_def split: io_result.split prod.split) (metis snd_conv)+

lemma read_only_try [intro]: "read_only m \<Longrightarrow> read_only (io_try m)"
  by (auto simp: read_only_def io_try_def split: io_result.split prod.split) (metis snd_conv)+

lemma read_only_call: "(\<And>n fs. partial n fs = fs) \<Longrightarrow> (\<And>fs x gs. act fs = Some (x, gs) \<Longrightarrow> gs = fs) \<Longrightarrow> read_only (sys_call partial act)"
  by (auto simp: read_only_def sys_call_def Let_def split: list.split call_outcome.split option.split)

lemma read_only_calls [simp]: "read_only (sys_stat p)" "read_only (sys_lstat p)" "read_only sys_plain"
  by (auto simp: sys_stat_def sys_lstat_def sys_plain_def intro!: read_only_bind read_only_try read_only_call)

lemma read_only_read [simp]: "read_only (read_optional p n)"
  by (auto simp: read_optional_def intro!: read_only_bind split: option.split entry_kind.split)

lemma read_only_steps [simp]: "read_only (io_lift r)" "read_only (check_interrupted_writes t)" "read_only (read_state env p)"
  "read_only (validate_backup env s)" "read_only (check_state env True t found config)" "read_only (restoration env found cleaned)"
proof -
  have "read_only (check_swaps ps)" for ps
    by (induction ps) (auto intro!: read_only_bind split: stat_result.split)
  then show "read_only (check_interrupted_writes t)" by (simp add: check_interrupted_writes_def)
  show backup: "read_only (validate_backup env s)" for s
    by (auto simp: validate_backup_def intro!: read_only_bind split: option.split)
  show "read_only (check_state env True t found config)"
    by (auto simp: check_state_def backup split: option.split)
qed (auto simp: io_lift_def read_state_def restoration_def intro!: read_only_bind split: sum.split option.split)

lemma dry_run_read_only:
  "read_only (install env (opts\<lparr>op_dry_run := True\<rparr>))" "read_only (uninstall env (opts\<lparr>op_dry_run := True\<rparr>))"
  "read_only (install_status_of env opts)"
  by (auto simp: install_def install_from_def uninstall_def install_status_of_def Let_def intro!: read_only_bind split: option.split sum.split)

text \<open>A dry run changes no file, and neither does asking for the status, whatever calls fail.\<close>

theorem dry_run_changes_nothing:
  "w_files (snd (install env (opts\<lparr>op_dry_run := True\<rparr>) w)) = w_files w \<and>
   w_files (snd (uninstall env (opts\<lparr>op_dry_run := True\<rparr>) w)) = w_files w \<and>
   w_files (snd (install_status_of env opts w)) = w_files w"
  using dry_run_read_only by (metis read_only_def)

section \<open>The files of a target\<close>

definition separate :: "string \<Rightarrow> string \<Rightarrow> bool" where
  "separate p q \<longleftrightarrow> \<not> owned p q \<and> \<not> owned p (swap_path q)"

definition cwd_rooted :: "'a json_env_scheme \<Rightarrow> bool" where
  "cwd_rooted env \<longleftrightarrow> (\<forall>d. je_cwd env = Some d \<longrightarrow> is_abs d)"

lemma abs_clean: "is_abs p \<Longrightarrow> \<exists>ws. clean_list True ws \<and> path_clean p = abs_path ws"
  using path_clean_abs by blast

lemma is_abs_append: "is_abs p \<Longrightarrow> is_abs (p @ q)"
  by (auto simp: is_abs_def has_prefix_def)

lemma join_abs_clean: "is_abs d \<Longrightarrow> \<exists>ws. clean_list True ws \<and> path_join [d, p] = abs_path ws"
  by (cases d) (auto simp: path_join_def is_abs_def has_prefix_def intro!: abs_clean [unfolded is_abs_def has_prefix_def])

lemma absolute_clean: "(\<And>d. cwd = Some d \<Longrightarrow> is_abs d) \<Longrightarrow> absolute_path cwd p = Some q \<Longrightarrow> \<exists>ws. clean_list True ws \<and> q = abs_path ws"
  using abs_clean join_abs_clean by (auto simp: absolute_path_def split: if_splits)

lemma codex_dir_clean:
  assumes "cwd_rooted env" and "codex_dir env opts = Inr (sc, dir)"
  shows "\<exists>ws. clean_list True ws \<and> dir = abs_path ws"
proof -
  have abs: "absolute_path (je_cwd env) p = Some q \<Longrightarrow> \<exists>ws. clean_list True ws \<and> q = abs_path ws" for p q
    using assms(1) by (intro absolute_clean [of "je_cwd env" p q]) (auto simp: cwd_rooted_def)
  have "is_abs q" if "absolute_path (je_cwd env) p = Some q" for p q
    using abs [OF that] by auto
  with join_abs_clean abs assms(2) show ?thesis
    by (fastforce simp: codex_dir_def Let_def split: scope.splits option.splits if_splits)
qed

lemma abs_path_snoc: "\<exists>D. \<forall>n. abs_path (ws @ [n]) = D @ slash # n"
proof (cases "ws = []")
  case True
  then show ?thesis by (auto simp: abs_path_def unsplit_def intro!: exI [of _ "[]"])
next
  case False
  then show ?thesis by (auto simp: abs_path_def unsplit_def join_str_snoc intro!: exI [of _ "abs_path ws"])
qed

lemma join_str_three: "join_str sep (ws @ [a, b, c]) = join_str sep (ws @ [a @ sep @ b @ sep @ c])"
proof (induction ws)
  case (Cons w ws)
  then show ?case by (cases ws) auto
qed simp

lemma target_shape:
  assumes "clean_list True ws"
  shows "\<exists>D x. tg_config (target_in win sc (abs_path ws)) = D @ ''/hooks.json'' \<and>
    tg_state (target_in win sc (abs_path ws)) = D @ ''/.aav-codex-install.json'' \<and>
    tg_backup (target_in win sc (abs_path ws)) = D @ ''/hooks.json.aav-backup'' \<and>
    tg_binary (target_in win sc (abs_path ws)) = D @ ''/aav/bin/aav-codex-hook'' @ x \<and> slash \<notin> set x"
proof -
  obtain D where D: "\<And>n. abs_path (ws @ [n]) = D @ slash # n" using abs_path_snoc by blast
  have name: "path_join [abs_path ws, n] = D @ slash # n" if "plain_elem n" "n \<noteq> ''..''" for n
    using path_join_elem [OF assms that] D by simp
  let ?x = "if win then ''.exe'' else []"
  have "path_join [abs_path ws, ''aav'', ''bin'', ''aav-codex-hook'' @ ?x] = path_join [abs_path ws, ''aav/bin/aav-codex-hook'' @ ?x]"
    by (simp add: path_join_def)
  also have "\<dots> = abs_path (ws @ [''aav'', ''bin'', ''aav-codex-hook'' @ ?x])"
    by (simp add: path_join_abs [OF assms])
  also have "\<dots> = D @ slash # ''aav/bin/aav-codex-hook'' @ ?x"
    using D [of "''aav/bin/aav-codex-hook'' @ ?x"] join_str_three [of "[slash]" ws "''aav''" "''bin''" "''aav-codex-hook'' @ ?x"]
    by (simp add: abs_path_def unsplit_def)
  finally show ?thesis
    using name [of "''hooks.json''"] name [of "''.aav-codex-install.json''"] name [of "''hooks.json.aav-backup''"]
    by (intro exI [of _ D] exI [of _ ?x]) (simp add: target_in_def plain_elem_def)
qed


lemma temp_path_slash: "slash \<notin> set b \<Longrightarrow> temp_path (D @ slash # b) n = D @ ''/.'' @ b @ ''.aav-tmp-'' @ n"
  by (simp add: temp_path_def dir_part_def split_char_snoc split_char_word)

lemma target_separate:
  assumes "clean_list True ws" and "t = target_in win sc (abs_path ws)"
  shows "separate (tg_config t) (tg_state t)" "separate (tg_config t) (tg_backup t)" "separate (tg_config t) (tg_binary t)"
    "separate (tg_state t) (tg_config t)" "separate (tg_state t) (tg_backup t)" "separate (tg_state t) (tg_binary t)"
    "separate (tg_backup t) (tg_config t)" "separate (tg_backup t) (tg_state t)" "separate (tg_backup t) (tg_binary t)"
    "separate (tg_binary t) (tg_config t)" "separate (tg_binary t) (tg_state t)" "separate (tg_binary t) (tg_backup t)"
proof -
  obtain D x where t: "tg_config t = D @ ''/hooks.json''" "tg_state t = D @ ''/.aav-codex-install.json''"
    "tg_backup t = D @ ''/hooks.json.aav-backup''" "tg_binary t = D @ ''/aav/bin/aav-codex-hook'' @ x" "slash \<notin> set x"
    using target_shape [OF assms(1), of win sc] assms(2) by auto
  have temp: "temp_path (tg_config t) n = D @ ''/.hooks.json.aav-tmp-'' @ n"
    "temp_path (tg_state t) n = D @ ''/..aav-codex-install.json.aav-tmp-'' @ n"
    "temp_path (tg_backup t) n = D @ ''/.hooks.json.aav-backup.aav-tmp-'' @ n"
    "temp_path (tg_binary t) n = D @ ''/aav/bin/.aav-codex-hook'' @ x @ ''.aav-tmp-'' @ n" for n
    using t temp_path_slash [of "''hooks.json''" D n] temp_path_slash [of "''.aav-codex-install.json''" D n]
      temp_path_slash [of "''hooks.json.aav-backup''" D n] temp_path_slash [of "''aav-codex-hook'' @ x" "D @ ''/aav/bin''" n] by simp_all
  show "separate (tg_config t) (tg_state t)" "separate (tg_config t) (tg_backup t)" "separate (tg_config t) (tg_binary t)"
    "separate (tg_state t) (tg_config t)" "separate (tg_state t) (tg_backup t)" "separate (tg_state t) (tg_binary t)"
    "separate (tg_backup t) (tg_config t)" "separate (tg_backup t) (tg_state t)" "separate (tg_backup t) (tg_binary t)"
    "separate (tg_binary t) (tg_config t)" "separate (tg_binary t) (tg_state t)" "separate (tg_binary t) (tg_backup t)"
    unfolding separate_def owned_def temp unfolding t swap_path_def by simp_all
qed


section \<open>An interrupted installation\<close>

text \<open>Writing one file of the target leaves the others alone.\<close>

lemma recovered_separate: "separate p q \<Longrightarrow> same_elsewhere p fs gs \<Longrightarrow> recovered gs q = recovered fs q"
  by (simp add: separate_def same_elsewhere_def recovered_def entry_exists_def)

definition settled :: "files \<Rightarrow> string \<Rightarrow> entry_kind option \<Rightarrow> bool" where
  "settled fs p e \<longleftrightarrow> fs p = e \<and> \<not> entry_exists fs (swap_path p)"

lemma settled_separate: "separate p q \<Longrightarrow> same_elsewhere p fs gs \<Longrightarrow> settled fs q e \<Longrightarrow> settled gs q e"
  by (simp add: separate_def same_elsewhere_def settled_def entry_exists_def)

lemma settled_recovered: "settled fs p e \<Longrightarrow> recovered fs p = e"
  by (simp add: settled_def recovered_def)

lemma same_elsewhere_sym: "same_elsewhere p fs gs \<Longrightarrow> same_elsewhere p gs fs"
  by (simp add: same_elsewhere_def)

lemma io_wp_read_only: "read_only m \<Longrightarrow> R fs \<Longrightarrow> (\<And>x. Q x fs) \<Longrightarrow> io_wp m Q R fs"
proof (rule io_wpI)
  fix w :: world
  assume "read_only m" "R fs" "\<And>x. Q x fs" "w_files w = fs"
  then show "case m w of (Io_value x, w') \<Rightarrow> Q x (w_files w') | (_, w') \<Rightarrow> R (w_files w')"
    by (cases "m w") (auto simp: read_only_def dest!: spec [of _ w] split: io_result.split)
qed

lemma io_wp_ends [simp]: "io_wp (io_return x) Q R = Q x" "io_wp (io_fail e) Q R = R"
  by (simp_all add: fun_eq_iff)

lemma io_bind_lift: "io_bind (io_lift (Inr x)) f = f x"
  by (simp add: fun_eq_iff io_bind_def io_lift_def io_return_def)

lemma io_bind_return: "io_bind (io_return x) f = f x"
  by (simp add: fun_eq_iff io_bind_def io_return_def)

lemma io_wp_conj: "io_wp m Q R fs \<Longrightarrow> io_wp m Q' R' fs \<Longrightarrow> io_wp m (\<lambda>x gs. Q x gs \<and> Q' x gs) (\<lambda>gs. R gs \<and> R' gs) fs"
  by (rule io_wpI) (auto dest!: io_wpD split: io_result.splits prod.splits)

text \<open>A write in front of a continuation, for conditions that the write of this path keeps.\<close>

lemma io_wp_write:
  "(\<And>gs. same_elsewhere p fs gs \<Longrightarrow> R gs) \<Longrightarrow>
   (\<And>gs. same_elsewhere p fs gs \<Longrightarrow> gs p = Some (File payload) \<Longrightarrow> Q () gs) \<Longrightarrow> io_wp (atomic_write p payload) Q R fs"
  by (rule io_wp_mono [OF atomic_write_wp]) auto

lemma recover_paths_wp:
  assumes "\<And>p. p \<in> set ps \<Longrightarrow> p = q \<or> separate p q" and "recovered fs q = e"
    and "q \<in> set ps \<or> settled fs q e"
  shows "io_wp (recover_paths ps) (\<lambda>_ gs. settled gs q e) (\<lambda>gs. recovered gs q = e) fs"
  using assms
proof (induction ps arbitrary: fs)
  case (Cons p ps)
  have "io_wp (recover_swap p) (\<lambda>_. io_wp (recover_paths ps) (\<lambda>_ gs. settled gs q e) (\<lambda>gs. recovered gs q = e)) (\<lambda>gs. recovered gs q = e) fs"
  proof (rule io_wp_mono [OF recover_swap_wp], goal_cases)
    case (1 u gs)
    have "recovered gs q = e"
    proof (cases "p = q")
      case True
      with 1 Cons.prems(2) show ?thesis by (simp add: recovered_def)
    next
      case False
      with 1 Cons.prems(1,2) show ?thesis using recovered_separate [of p q fs gs] by auto
    qed
    moreover have "q \<in> set ps \<or> settled gs q e"
      using Cons.prems 1 settled_separate [of p q fs gs e] by (cases "p = q") (auto simp: settled_def)
    ultimately show ?case using Cons.prems(1) by (intro Cons.IH) auto
  next
    case (2 gs)
    then show ?case using Cons.prems recovered_separate [of p q fs gs] by (cases "p = q") auto
  qed
  then show ?case by (auto intro: io_wp_bind)
qed (simp add: settled_recovered)


lemma recovered_here: "fs p = Some (File x) \<Longrightarrow> recovered fs p = Some (File x)"
  by (simp add: recovered_def entry_exists_def)

text \<open>The configuration \<open>c\<close> can be had back: it is in its place, or in the backup.\<close>

definition config_kept :: "target \<Rightarrow> string \<Rightarrow> files \<Rightarrow> bool" where
  "config_kept t c fs \<longleftrightarrow> recovered fs (tg_config t) = Some (File c) \<or> recovered fs (tg_backup t) = Some (File c)"

text \<open>What the state file promises.  Its texts are valid UTF-8, so that JSON gives them back; the original configuration is \<open>c\<close>,
  and its backup is at the place of the target.\<close>

definition plain_state :: "install_state \<Rightarrow> bool" where
  "plain_state s \<longleftrightarrow> is_version s = 1 \<and> is_scope s \<in> {Scope_project, Scope_user} \<and>
     list_all utf8_valid [is_install_id s, is_phase s, is_config_path s, is_binary_path s, is_original_sha s, is_backup_path s, is_binary_sha s]"

definition of_original :: "installer_env \<Rightarrow> target \<Rightarrow> string \<Rightarrow> install_state \<Rightarrow> bool" where
  "of_original env t c s \<longleftrightarrow> plain_state s \<and> is_original_exists s \<and> is_original_sha s = ie_hash env c \<and> is_backup_path s = tg_backup t"

text \<open>Documented behaviour of \<^verbatim>\<open>encoding/json\<close> and of the hash, which is written in hexadecimal digits.\<close>

definition state_laws :: "installer_env \<Rightarrow> bool" where
  "state_laws env \<longleftrightarrow> (\<forall>x. utf8_valid (ie_hash env x)) \<and>
     (\<forall>s. plain_state s \<longrightarrow> ie_decode_state env (ie_encode_state env s @ [CHR 0x0A]) = Some s)"

definition plain_target :: "target \<Rightarrow> bool" where
  "plain_target t \<longleftrightarrow> list_all utf8_valid [tg_config t, tg_backup t, tg_binary t]"

text \<open>The invariant of the installations of a project whose configuration was \<open>c\<close>: nothing has begun and it is in place, or the
  state says so and it is in the backup, or in place with the backup still to come.\<close>

definition state_kept :: "installer_env \<Rightarrow> target \<Rightarrow> string \<Rightarrow> entry_kind option \<Rightarrow> bool" where
  "state_kept env t c e \<longleftrightarrow> (\<exists>text s. e = Some (File text) \<and> ie_decode_state env text = Some s \<and> of_original env t c s)"

definition kept_in :: "installer_env \<Rightarrow> target \<Rightarrow> string \<Rightarrow> entry_kind option \<Rightarrow> entry_kind option \<Rightarrow> entry_kind option \<Rightarrow> bool" where
  "kept_in env t c st cf bk \<longleftrightarrow> st = None \<and> cf = Some (File c) \<or>
     state_kept env t c st \<and> (bk = Some (File c) \<or> bk = None \<and> cf = Some (File c))"

definition original_kept :: "installer_env \<Rightarrow> target \<Rightarrow> string \<Rightarrow> files \<Rightarrow> bool" where
  "original_kept env t c fs \<longleftrightarrow> kept_in env t c (recovered fs (tg_state t)) (recovered fs (tg_config t)) (recovered fs (tg_backup t))"

definition secured :: "installer_env \<Rightarrow> target \<Rightarrow> string \<Rightarrow> files \<Rightarrow> bool" where
  "secured env t c fs \<longleftrightarrow> state_kept env t c (recovered fs (tg_state t)) \<and> recovered fs (tg_backup t) = Some (File c)"

lemma secured_kept: "secured env t c fs \<Longrightarrow> original_kept env t c fs"
  by (simp add: secured_def original_kept_def kept_in_def)

lemma original_config_kept: "original_kept env t c fs \<Longrightarrow> config_kept t c fs"
  by (auto simp: original_kept_def kept_in_def config_kept_def)

lemma of_original_installed:
  "state_laws env \<Longrightarrow> of_original env t c s \<Longrightarrow>
   of_original env t c (s\<lparr>is_phase := ''installed'', is_binary_sha := ie_hash env binary\<rparr>)"
  by (cases s) (auto simp: of_original_def plain_state_def state_laws_def byte_def)

lemma of_original_new:
  assumes "state_laws env" and "plain_target t" and "tg_scope t \<in> {Scope_project, Scope_user}"
  shows "of_original env t c (new_state env t (Some c) binary)"
proof -
  have "utf8_valid install_id" "utf8_valid ''installing''" by (simp_all add: install_id_def byte_def)
  with assms show ?thesis by (simp add: of_original_def plain_state_def new_state_def state_laws_def plain_target_def)
qed

lemma written_state_kept:
  "state_laws env \<Longrightarrow> of_original env t c s \<Longrightarrow> state_kept env t c (Some (File (ie_encode_state env s @ [CHR 0x0A])))"
  by (auto simp: state_kept_def state_laws_def of_original_def)

section \<open>Installing keeps the original\<close>

text \<open>The writes of an installation whose original is in the backup.\<close>

lemma secured_elsewhere:
  assumes "secured env t c fs" and "same_elsewhere p fs gs" and "separate p (tg_state t)" and "separate p (tg_backup t)"
  shows "secured env t c gs"
  using assms recovered_separate by (simp add: secured_def)

lemma secured_write_state:
  assumes "separate (tg_state t) (tg_backup t)" and "secured env t c fs" and "state_laws env" and "of_original env t c s"
  shows "io_wp (write_state env (tg_state t) s) (\<lambda>_. secured env t c) (secured env t c) fs"
  unfolding write_state_def
proof (rule io_wp_mono [OF atomic_write_wp])
  fix hs
  have bk: "recovered hs (tg_backup t) = Some (File c)" if "same_elsewhere (tg_state t) fs hs"
    using recovered_separate [OF assms(1) that] assms(2) by (simp add: secured_def)
  note st = written_state_kept [OF assms(3,4)]
  show "secured env t c hs" if "hs (tg_state t) = Some (File (ie_encode_state env s @ [CHR 0x0A])) \<and> same_elsewhere (tg_state t) fs hs"
    using that bk st recovered_here [of hs "tg_state t"] by (simp add: secured_def)
  show "secured env t c hs" if "recovered hs (tg_state t) \<in> {recovered fs (tg_state t), Some (File (ie_encode_state env s @ [CHR 0x0A]))} \<and>
      same_elsewhere (tg_state t) fs hs"
    using that bk st assms(2) by (auto simp: secured_def)
qed

lemma secured_rest:
  assumes "clean_list True ws" and "t = target_in win sc (abs_path ws)"
    and "secured env t c fs" and "state_laws env" and "of_original env t c s"
  shows "io_wp (install_files env t (Some s) config desired binary) (\<lambda>_. original_kept env t c) (original_kept env t c) fs"
proof -
  note sep = target_separate [OF assms(1,2)]
  have written: "io_wp (atomic_write p payload) (\<lambda>_. secured env t c) (secured env t c) gs"
    if "secured env t c gs" "separate p (tg_state t)" "separate p (tg_backup t)" for p payload gs
    using that by (intro io_wp_write) (auto intro: secured_elsewhere)
  have "io_wp (io_bind (atomic_write (tg_binary t) binary) (\<lambda>_. io_bind (atomic_write (tg_config t) desired) (\<lambda>_.
       write_state env (tg_state t) (s\<lparr>is_phase := ''installed'', is_binary_sha := ie_hash env binary\<rparr>))))
     (\<lambda>_. secured env t c) (secured env t c) fs"
    by (intro io_wp_bind io_wp_mono [OF written [OF assms(3)]] io_wp_mono [OF written] sep
        secured_write_state assms(4) of_original_installed [OF assms(4,5)])
  then show ?thesis unfolding install_files_def option.case io_bind_return
    by (rule io_wp_mono) (auto intro: secured_kept)
qed

text \<open>The files a step of an installation finds settled.\<close>

definition ready :: "target \<Rightarrow> entry_kind option \<Rightarrow> entry_kind option \<Rightarrow> entry_kind option \<Rightarrow> files \<Rightarrow> bool" where
  "ready t st cf bk fs \<longleftrightarrow> settled fs (tg_state t) st \<and> settled fs (tg_config t) cf \<and> settled fs (tg_backup t) bk"

lemma ready_kept: "ready t st cf bk fs \<Longrightarrow> kept_in env t c st cf bk \<Longrightarrow> original_kept env t c fs"
  by (auto simp: ready_def original_kept_def dest!: settled_recovered)

text \<open>Writing the missing backup of a configuration that is in place.\<close>

lemma backup_write_wp:
  assumes "separate (tg_backup t) (tg_state t)" and "separate (tg_backup t) (tg_config t)"
    and "state_kept env t c (recovered fs (tg_state t))" and "recovered fs (tg_config t) = Some (File c)"
    and "recovered fs (tg_backup t) = None"
  shows "io_wp (atomic_write (tg_backup t) c) (\<lambda>_. secured env t c) (original_kept env t c) fs"
proof (rule io_wp_mono [OF atomic_write_wp])
  fix hs
  have same: "recovered hs (tg_state t) = recovered fs (tg_state t)" "recovered hs (tg_config t) = Some (File c)"
    if "same_elsewhere (tg_backup t) fs hs"
    using recovered_separate [OF assms(1) that] recovered_separate [OF assms(2) that] assms(4) by simp_all
  show "secured env t c hs" if "hs (tg_backup t) = Some (File c) \<and> same_elsewhere (tg_backup t) fs hs"
    using that same(1) assms(3) recovered_here [of hs "tg_backup t" c] by (simp add: secured_def)
  show "original_kept env t c hs" if "recovered hs (tg_backup t) \<in> {recovered fs (tg_backup t), Some (File c)} \<and>
      same_elsewhere (tg_backup t) fs hs"
    using that same assms(3,5) by (auto simp: original_kept_def kept_in_def)
qed

lemma ensure_backup_wp:
  assumes "clean_list True ws" and "t = target_in win sc (abs_path ws)"
    and "of_original env t c s" and "state_kept env t c (recovered fs (tg_state t))"
    and "settled fs (tg_backup t) bk" and "bk = Some (File c) \<or> bk = None \<and> settled fs (tg_config t) (Some (File c)) \<and> config = Some c"
  shows "io_wp (ensure_backup env s config) (\<lambda>_. secured env t c) (original_kept env t c) fs"
proof -
  note sep = target_separate [OF assms(1,2)]
  have s: "is_original_exists s" "is_backup_path s = tg_backup t" using assms(3) by (simp_all add: of_original_def)
  have bk: "recovered fs (tg_backup t) = bk" "fs (tg_backup t) = bk"
    using assms(5) by (simp_all add: settled_recovered) (simp add: settled_def)
  show ?thesis
  proof (cases "bk = Some (File c)")
    case True
    then have "secured env t c fs" using assms(4) bk by (simp add: secured_def)
    then show ?thesis using s bk(2) True secured_kept unfolding ensure_backup_def
      by (auto intro!: io_wp_bind read_optional_wp)
  next
    case False
    with assms(6) have none: "bk = None" "recovered fs (tg_config t) = Some (File c)" "config = Some c"
      by (auto simp: settled_recovered)
    have kept: "original_kept env t c fs" using none bk assms(4) by (simp add: original_kept_def kept_in_def)
    have "io_wp (atomic_write (tg_backup t) c) (\<lambda>_. secured env t c) (original_kept env t c) fs"
      using none bk assms(4) by (intro backup_write_wp sep) simp_all
    then show ?thesis using s bk(2) none(1,3) kept unfolding ensure_backup_def
      by (auto intro!: io_wp_bind read_optional_wp)
  qed
qed

lemma begin_install_wp:
  assumes "clean_list True ws" and "t = target_in win sc (abs_path ws)" and "state_laws env" and "plain_target t"
    and "tg_scope t \<in> {Scope_project, Scope_user}" and "ready t None (Some (File c)) bk fs"
  shows "io_wp (begin_install env t (Some c) binary) (\<lambda>s gs. secured env t c gs \<and> of_original env t c s) (original_kept env t c) fs"
proof -
  note sep = target_separate [OF assms(1,2)]
  let ?s = "new_state env t (Some c) binary"
  have s: "of_original env t c ?s" by (rule of_original_new [OF assms(3-5)])
  note st = written_state_kept [OF assms(3) s]
  have kept: "original_kept env t c fs" by (rule ready_kept [OF assms(6)]) (simp add: kept_in_def)
  have "io_wp (write_state env (tg_state t) ?s)
      (\<lambda>_. io_wp (io_bind (ensure_backup env ?s (Some c)) (\<lambda>_. io_return ?s)) (\<lambda>s gs. secured env t c gs \<and> of_original env t c s) (original_kept env t c))
      (original_kept env t c) fs" if none: "bk = None"
    unfolding write_state_def
  proof (rule io_wp_mono [OF atomic_write_wp])
    fix hs
    have same: "settled hs (tg_config t) (Some (File c))" "settled hs (tg_backup t) None" if "same_elsewhere (tg_state t) fs hs"
      using settled_separate [OF sep(4) that] settled_separate [OF sep(5) that] assms(6) none by (simp_all add: ready_def)
    show "original_kept env t c hs" if "recovered hs (tg_state t) \<in> {recovered fs (tg_state t), Some (File (ie_encode_state env ?s @ [CHR 0x0A]))} \<and>
        same_elsewhere (tg_state t) fs hs"
      using that same st assms(6) by (auto simp: original_kept_def kept_in_def settled_recovered ready_def)
    show "io_wp (io_bind (ensure_backup env ?s (Some c)) (\<lambda>_. io_return ?s)) (\<lambda>s gs. secured env t c gs \<and> of_original env t c s) (original_kept env t c) hs"
      if "hs (tg_state t) = Some (File (ie_encode_state env ?s @ [CHR 0x0A])) \<and> same_elsewhere (tg_state t) fs hs"
    proof -
      have "io_wp (ensure_backup env ?s (Some c)) (\<lambda>_. secured env t c) (original_kept env t c) hs"
        using that same st s recovered_here [of hs "tg_state t"] by (intro ensure_backup_wp [OF assms(1,2) s, where bk = None]) auto
      then show ?thesis using s by (auto intro!: io_wp_bind elim!: io_wp_mono)
    qed
  qed
  then show ?thesis
    using assms(6) kept unfolding begin_install_def Let_def
    by (auto intro!: io_wp_bind read_optional_wp simp: ready_def settled_def)
qed

lemma install_from_wp:
  assumes "clean_list True ws" and "t = target_in win sc (abs_path ws)" and "state_laws env" and "plain_target t"
    and "tg_scope t \<in> {Scope_project, Scope_user}" and "ready t st cf bk fs" and "kept_in env t c st cf bk"
    and "\<And>x. cf = Some (File x) \<Longrightarrow> config = Some x"
  shows "io_wp (install_from env False t binary config) (\<lambda>_. original_kept env t c) (original_kept env t c) fs"
proof -
  have kept: "original_kept env t c fs" by (rule ready_kept [OF assms(6,7)])
  have settled: "settled fs (tg_state t) st" "settled fs (tg_backup t) bk" "settled fs (tg_config t) cf"
    using assms(6) by (simp_all add: ready_def)
  let ?Q = "\<lambda>previous. (case previous of None \<Rightarrow> st = None | Some s \<Rightarrow> of_original env t c s \<and> st \<noteq> None)"
  have state: "io_wp (read_state env (tg_state t)) (\<lambda>previous gs. ?Q previous \<and> gs = fs) (\<lambda>gs. gs = fs) fs"
    using settled(1) assms(7) unfolding read_state_def
    by (auto simp: settled_def kept_in_def state_kept_def intro!: io_wp_bind read_optional_wp)
  have last: "io_wp (install_files env t previous config desired binary) (\<lambda>_. original_kept env t c) (original_kept env t c) gs"
    if "previous = None \<and> gs = fs \<and> st = None \<or> (\<exists>s. previous = Some s \<and> of_original env t c s \<and> secured env t c gs)" for previous desired gs
    using that
  proof
    assume none: "previous = None \<and> gs = fs \<and> st = None"
    then have c: "cf = Some (File c)" "config = Some c" using assms(7,8) by (auto simp: kept_in_def state_kept_def)
    have "io_wp (begin_install env t config binary) (\<lambda>s. io_wp (install_files env t (Some s) config desired binary)
        (\<lambda>_. original_kept env t c) (original_kept env t c)) (original_kept env t c) fs"
      unfolding c(2) using assms(6) none c(1)
      by (intro io_wp_mono [OF begin_install_wp [OF assms(1-5)]] secured_rest [OF assms(1,2) _ assms(3)]) auto
    then show ?thesis using none unfolding install_files_def option.case io_bind_return by (auto intro: io_wp_bind)
  next
    assume "\<exists>s. previous = Some s \<and> of_original env t c s \<and> secured env t c gs"
    then show ?thesis using secured_rest [OF assms(1,2) _ assms(3)] by auto
  qed
  have check: "io_wp (check_state env False t previous config)
      (\<lambda>_ gs. previous = None \<and> gs = fs \<and> st = None \<or> (\<exists>s. previous = Some s \<and> of_original env t c s \<and> secured env t c gs))
      (original_kept env t c) fs" if "?Q previous" for previous
  proof (cases previous)
    case None
    with that show ?thesis by (simp add: check_state_def)
  next
    case (Some s)
    have "io_wp (ensure_backup env s config) (\<lambda>_. secured env t c) (original_kept env t c) fs"
      using that Some assms(7,8) settled
      by (intro ensure_backup_wp [OF assms(1,2), where bk = bk]) (auto simp: kept_in_def settled_recovered)
    with Some that kept show ?thesis by (auto simp: check_state_def split: option.split elim!: io_wp_mono)
  qed
  have finished: "original_kept env t c gs"
    if "previous = None \<and> gs = fs \<and> st = None \<or> (\<exists>s. previous = Some s \<and> of_original env t c s \<and> secured env t c gs)" for previous gs
    using that kept secured_kept by auto
  have after: "io_wp (io_bind (read_optional (tg_binary t) max_binary_len) (\<lambda>installed.
      if previous = None \<and> installed \<noteq> None then io_fail Unmanaged_binary
      else if \<not> install_changed env previous config installed desired binary
      then io_return (install_result_of St_installed False (length hook_events))
      else if False then io_return (install_result_of St_planned True (length hook_events))
      else io_bind (install_files env t previous config desired binary) (\<lambda>_.
        io_return (install_result_of St_installed True (length hook_events))))) (\<lambda>_. original_kept env t c) (original_kept env t c) gs"
    if "previous = None \<and> gs = fs \<and> st = None \<or> (\<exists>s. previous = Some s \<and> of_original env t c s \<and> secured env t c gs)" for previous desired gs
    using finished [OF that] last [OF that] by (intro io_wp_bind read_optional_wp) (auto intro!: io_wp_bind)
  show ?thesis
    unfolding install_from_def
  proof (rule io_wp_bind, rule io_wp_read_only, goal_cases)
    case (3 d)
    show ?case
      by (cases d, simp only: prod.case, rule io_wp_bind, rule io_wp_mono [OF state], elim conjE, simp only:,
          rule io_wp_bind, rule io_wp_mono [OF check], assumption, erule after) (simp_all add: kept)
  qed (use kept in auto)
qed

lemma recover_target_wp:
  assumes "clean_list True ws" and "t = target_in win sc (abs_path ws)" and "original_kept env t c fs"
  shows "io_wp (recover_target t) (\<lambda>_. ready t (recovered fs (tg_state t)) (recovered fs (tg_config t)) (recovered fs (tg_backup t)))
    (original_kept env t c) fs"
  unfolding recover_target_def target_paths_def
  by (rule io_wp_mono [OF io_wp_conj [OF recover_paths_wp [of _ "tg_state t" fs "recovered fs (tg_state t)"]
      io_wp_conj [OF recover_paths_wp [of _ "tg_config t" fs "recovered fs (tg_config t)"]
        recover_paths_wp [of _ "tg_backup t" fs "recovered fs (tg_backup t)"]]]])
    (use assms(3) target_separate [OF assms(1,2)] in \<open>auto simp: ready_def original_kept_def\<close>)

lemma resolved_target:
  assumes "cwd_rooted env" and "resolve_target env opts = Inr t"
  obtains win sc ws where "clean_list True ws" and "t = target_in win sc (abs_path ws)" and "tg_scope t \<in> {Scope_project, Scope_user}"
proof -
  obtain sc dir where dir: "codex_dir env opts = Inr (sc, dir)" "t = target_in (ie_windows env) sc dir"
    using assms(2) by (auto simp: resolve_target_def map_sum_def split: sum.splits)
  then have "tg_scope t \<in> {Scope_project, Scope_user}"
    by (auto simp: codex_dir_def Let_def target_in_def split: scope.splits option.splits if_splits)
  with codex_dir_clean [OF assms(1) dir(1)] dir(2) that show thesis by blast
qed

lemma install_keeps_original:
  assumes "cwd_rooted env" and "resolve_target env opts = Inr t" and "state_laws env" and "plain_target t"
    and "original_kept env t c (w_files w)"
  shows "original_kept env t c (w_files (snd (install env opts w)))"
proof (cases "op_dry_run opts")
  case True
  then have "opts = opts\<lparr>op_dry_run := True\<rparr>" by simp
  then have "w_files (snd (install env opts w)) = w_files w" using dry_run_read_only by (metis read_only_def)
  with assms(5) show ?thesis by simp
next
  case False
  let ?fs = "w_files w"
  let ?st = "recovered ?fs (tg_state t)" and ?cf = "recovered ?fs (tg_config t)" and ?bk = "recovered ?fs (tg_backup t)"
  from assms(1,2) obtain win sc ws where t: "clean_list True ws" "t = target_in win sc (abs_path ws)" "tg_scope t \<in> {Scope_project, Scope_user}"
    by (rule resolved_target)
  have k: "kept_in env t c ?st ?cf ?bk" using assms(5) by (simp add: original_kept_def)
  have "io_wp (io_bind (read_optional src max_binary_len) (\<lambda>found. case found of None \<Rightarrow> io_fail Binary_missing
     | Some binary \<Rightarrow> io_bind (read_optional (tg_config t) max_config_len) (\<lambda>config.
     if config = Some [] then io_fail Config_empty else install_from env False t binary config))) (\<lambda>_. original_kept env t c) (original_kept env t c) gs"
    if "ready t ?st ?cf ?bk gs" for src gs
  proof -
    have kept: "original_kept env t c gs" by (rule ready_kept [OF that k])
    have cf: "?cf = gs (tg_config t)" using that by (simp add: ready_def settled_def)
    have from_config: "io_wp (install_from env False t binary config) (\<lambda>_. original_kept env t c) (original_kept env t c) gs"
      if "\<And>x. gs (tg_config t) = Some (File x) \<Longrightarrow> config = Some x" for binary config
      by (rule install_from_wp [OF t(1,2) assms(3,4) t(3) \<open>ready t ?st ?cf ?bk gs\<close> k]) (use that cf in simp)
    then have "io_wp (io_bind (read_optional (tg_config t) max_config_len) (\<lambda>config.
       if config = Some [] then io_fail Config_empty else install_from env False t binary config)) (\<lambda>_. original_kept env t c) (original_kept env t c) gs" for binary
      using kept by (intro io_wp_bind read_optional_wp) (auto intro!: from_config)
    with kept show ?thesis by (intro io_wp_bind read_optional_wp) auto
  qed
  then have "io_wp (io_bind (recover_target t) (\<lambda>_.
     case (if trim_space (op_hook_binary opts) = [] then None else absolute_path (je_cwd env) (op_hook_binary opts)) of
       None \<Rightarrow> io_fail Binary_required
     | Some src \<Rightarrow> io_bind (read_optional src max_binary_len) (\<lambda>found. case found of None \<Rightarrow> io_fail Binary_missing
     | Some binary \<Rightarrow> io_bind (read_optional (tg_config t) max_config_len) (\<lambda>config.
     if config = Some [] then io_fail Config_empty else install_from env False t binary config)))) (\<lambda>_. original_kept env t c) (original_kept env t c) ?fs"
    by (intro io_wp_bind io_wp_mono [OF recover_target_wp [OF t(1,2) assms(5)]]) (auto simp: ready_kept [OF _ k] split: option.split)
  then have "io_wp (install env opts) (\<lambda>_. original_kept env t c) (original_kept env t c) ?fs"
    unfolding install_def by (simp only: assms(2) False io_bind_lift if_False)
  from io_wpD [OF this] show ?thesis by (cases "install env opts w"; cases "fst (install env opts w)") auto
qed

text \<open>Any number of installations on one target, each with its own options, and faults or an interruption wherever it comes.  In
  between anything may happen to other files.\<close>

inductive installations :: "installer_env \<Rightarrow> target \<Rightarrow> files \<Rightarrow> files \<Rightarrow> bool" for env t fs where
  start: "installations env t fs fs"
| run: "installations env t fs (w_files w) \<Longrightarrow> resolve_target env opts = Inr t \<Longrightarrow>
    installations env t fs (w_files (snd (install env opts w)))"
| other: "installations env t fs gs \<Longrightarrow>
    (\<And>p. p \<in> {tg_state t, tg_config t, tg_backup t} \<Longrightarrow> recovered hs p = recovered gs p) \<Longrightarrow> installations env t fs hs"

text \<open>C26: Installing never loses the configuration.  Start on a target with a configuration and without installation, and install
  any number of times, the first time, again after an interruption, or to update: wherever each run fails or is interrupted,
  the bytes of the first \<^verbatim>\<open>hooks.json\<close> are there afterwards, in their place, once an interrupted swap is recovered, or
  in the backup.  Nothing but the installer changes the configuration, the state and the backup meanwhile, and the paths are
  valid UTF-8.\<close>

theorem install_keeps_config:
  assumes "installations env t fs gs" and "cwd_rooted env" and "state_laws env" and "plain_target t"
    and "recovered fs (tg_config t) = Some (File c)" and "recovered fs (tg_state t) = None"
  shows "config_kept t c gs"
proof -
  from assms(1) have "original_kept env t c gs"
  proof (induction rule: installations.induct)
    case start
    with assms(5,6) show ?case by (simp add: original_kept_def kept_in_def)
  next
    case (run w opts)
    then show ?case using install_keeps_original [OF assms(2) _ assms(3,4)] by blast
  next
    case (other hs hs')
    then show ?case by (simp add: original_kept_def)
  qed
  then show ?thesis by (rule original_config_kept)
qed

section \<open>Running without faults\<close>

text \<open>Without faults and with \<open>k\<close> temporary names to spend, an operation takes the files \<open>fs\<close> to \<open>gs\<close> and returns \<open>x\<close>.\<close>

definition io_runs :: "nat \<Rightarrow> 'a io \<Rightarrow> files \<Rightarrow> 'a \<Rightarrow> files \<Rightarrow> bool" where
  "io_runs k m fs x gs \<longleftrightarrow> (\<forall>w. w_files w = fs \<and> w_script w = [] \<and> k \<le> length (w_names w) \<longrightarrow>
     (\<exists>w'. m w = (Io_value x, w') \<and> w_files w' = gs \<and> w_script w' = [] \<and> length (w_names w) \<le> length (w_names w') + k))"

named_theorems run_intro

lemma run_return [run_intro]: "io_runs 0 (io_return x) fs x fs"
  by (simp add: io_runs_def io_return_def)

lemma run_bind: "io_runs j m fs x gs \<Longrightarrow> io_runs k (f x) gs y hs \<Longrightarrow> io_runs (j + k) (io_bind m f) fs y hs"
proof -
  assume m: "io_runs j m fs x gs" and f: "io_runs k (f x) gs y hs"
  show ?thesis unfolding io_runs_def
  proof (intro allI impI)
    fix w :: world assume w: "w_files w = fs \<and> w_script w = [] \<and> j + k \<le> length (w_names w)"
    with m obtain w1 where "m w = (Io_value x, w1)" "w_files w1 = gs" "w_script w1 = []" "length (w_names w) \<le> length (w_names w1) + j"
      by (auto simp: io_runs_def)
    moreover from this f w obtain w2 where "f x w1 = (Io_value y, w2)" "w_files w2 = hs" "w_script w2 = []"
      "length (w_names w1) \<le> length (w_names w2) + k"
      by (fastforce simp: io_runs_def)
    ultimately show "\<exists>w'. io_bind m f w = (Io_value y, w') \<and> w_files w' = hs \<and> w_script w' = [] \<and> length (w_names w) \<le> length (w_names w') + (j + k)"
      by (auto simp: io_bind_def)
  qed
qed

lemma run_bind0: "io_runs 0 m fs x gs \<Longrightarrow> io_runs k (f x) gs y hs \<Longrightarrow> io_runs k (io_bind m f) fs y hs"
  using run_bind [of 0 m fs x gs k f y hs] by simp

lemma run_call: "act fs = Some (x, gs) \<Longrightarrow> io_runs 0 (sys_call partial act) fs x gs"
  by (simp add: io_runs_def sys_call_def)

lemma run_try: "io_runs k m fs x gs \<Longrightarrow> io_runs k (io_try m) fs (Inr x) gs"
  by (fastforce simp: io_runs_def io_try_def)

lemma run_calls [run_intro]:
  "io_runs 0 sys_plain fs () fs" "io_runs 0 (sys_lstat p) fs (fs p) fs"
  "io_runs 0 (sys_stat p) fs (if entry_exists fs p then Stat_exists else Stat_missing) fs"
  "io_runs 0 (sys_write p c) fs () (fs(p \<mapsto> File c))" "io_runs 0 (remove_if_exists p) fs () (fs(p := None))"
proof -
  show "io_runs 0 (sys_stat p) fs (if entry_exists fs p then Stat_exists else Stat_missing) fs"
    unfolding sys_stat_def by (rule run_bind0 [OF run_try [OF run_call]], simp) (cases "entry_exists fs p"; simp add: run_return)
qed (auto simp: sys_plain_def sys_lstat_def sys_write_def remove_if_exists_def intro!: run_call)

lemma run_lift [run_intro]: "io_runs 0 (io_lift (Inr x)) fs x fs"
  by (simp add: io_lift_def run_return)

text \<open>A path with a plain file or nothing, no swap file and no left-over temporary.\<close>

definition tidy :: "files \<Rightarrow> string \<Rightarrow> bool" where
  "tidy fs p \<longleftrightarrow> (fs p = None \<or> (\<exists>c. fs p = Some (File c))) \<and> fs (swap_path p) = None \<and> (\<forall>n. fs (temp_path p n) = None)"

definition file_at :: "files \<Rightarrow> string \<Rightarrow> string option" where
  "file_at fs p = (case fs p of Some (File c) \<Rightarrow> Some c | _ \<Rightarrow> None)"

lemma run_read:
  "tidy fs p \<Longrightarrow> (\<And>c. file_at fs p = Some c \<Longrightarrow> length c \<le> n) \<Longrightarrow> io_runs 0 (read_optional p n) fs (file_at fs p) fs"
  unfolding read_optional_def
  by (rule run_bind0 [OF run_calls(2)]) (auto simp: tidy_def file_at_def intro!: run_return run_bind0 [OF run_calls(1)])

lemma run_recover: "tidy fs p \<Longrightarrow> io_runs 0 (recover_swap p) fs () fs"
  unfolding recover_swap_def
  by (rule run_bind0 [OF run_calls(3)], rule run_bind0 [OF run_calls(3)]) (auto simp: tidy_def entry_exists_def intro!: run_return)


lemma run_create:
  assumes "tidy fs p" and "\<And>n. io_runs 0 (f (temp_path p n)) (fs(temp_path p n \<mapsto> File [])) y gs"
  shows "io_runs 1 (io_bind (create_temp p) f) fs y gs"
  unfolding io_runs_def
proof (intro allI impI)
  fix w :: world assume w: "w_files w = fs \<and> w_script w = [] \<and> 1 \<le> length (w_names w)"
  then obtain n ns where n: "w_names w = n # ns" by (cases "w_names w") auto
  let ?w = "w\<lparr>w_names := ns, w_script := [], w_files := fs(temp_path p n \<mapsto> File [])\<rparr>"
  have "create_temp p w = (Io_value (temp_path p n), ?w)"
    using w n assms(1) by (simp add: create_temp_def tidy_def sys_call_def)
  moreover obtain w' where "f (temp_path p n) ?w = (Io_value y, w')" "w_files w' = gs" "w_script w' = []" "length ns \<le> length (w_names w')"
    using assms(2) [of n] unfolding io_runs_def by (auto dest!: spec [of _ ?w])
  ultimately show "\<exists>w'. io_bind (create_temp p) f w = (Io_value y, w') \<and> w_files w' = gs \<and> w_script w' = [] \<and> length (w_names w) \<le> length (w_names w') + 1"
    using n by (auto simp: io_bind_def)
qed

lemma run_defer: "gs t = None \<Longrightarrow> io_runs k m fs x gs \<Longrightarrow> io_runs k (io_defer (sys_remove t) m) fs x gs"
  by (fastforce simp: io_runs_def io_defer_def sys_remove_def sys_call_def)

lemma run_try_missing: "fs a = None \<Longrightarrow> io_runs 0 (io_try (sys_remove a)) fs (Inl Os_failed) fs"
  by (simp add: io_runs_def io_try_def sys_remove_def sys_call_def)

lemmas call_defs = io_bind_def io_try_def io_return_def io_fail_def sys_call_def sys_stat_def sys_rename_def sys_remove_def

lemma run_swap_in:
  assumes "tidy fs p"
  shows "io_runs 0 (swap_in p (temp_path p n)) (fs(temp_path p n \<mapsto> File payload)) () (fs(p \<mapsto> File payload))"
proof (cases "fs p")
  case None
  with assms show ?thesis
    by (auto simp: io_runs_def swap_in_def call_defs tidy_def entry_exists_def fun_eq_iff)
next
  case (Some e)
  then obtain c where "fs p = Some (File c)" using assms by (auto simp: tidy_def)
  with assms show ?thesis
    by (auto simp: io_runs_def swap_in_def call_defs tidy_def entry_exists_def fun_eq_iff)
qed

lemma run_write:
  assumes "tidy fs p"
  shows "io_runs 1 (atomic_write p payload) fs () (fs(p \<mapsto> File payload))"
proof -
  have copy: "io_runs 0 (io_defer (sys_remove (temp_path p n)) (io_bind sys_plain (\<lambda>_. io_bind (sys_write (temp_path p n) payload)
      (\<lambda>_. io_bind sys_plain (\<lambda>_. io_bind sys_plain (\<lambda>_. swap_in p (temp_path p n))))))) (fs(temp_path p n \<mapsto> File [])) () (fs(p \<mapsto> File payload))" for n
    using assms run_swap_in [OF assms, of n payload]
    by (intro run_defer run_bind0 [OF run_calls(1)] run_bind0 [OF run_calls(4)]) (auto simp: tidy_def)
  obtain r where r: "io_runs 0 (io_try (read_optional p (length payload + 1))) fs r fs"
    "r = Inr (Some payload) \<Longrightarrow> fs p = Some (File payload)"
  proof (cases "\<exists>c. fs p = Some (File c) \<and> length payload + 1 < length c")
    case True
    then obtain c where "fs p = Some (File c)" "length payload + 1 < length c" by blast
    then have "io_runs 0 (io_try (read_optional p (length payload + 1))) fs (Inl Exceeds_limit) fs"
      by (simp add: io_runs_def read_optional_def sys_lstat_def call_defs)
    with that show thesis by blast
  next
    case False
    then have "io_runs 0 (io_try (read_optional p (length payload + 1))) fs (Inr (file_at fs p)) fs"
      by (intro run_try run_read [OF assms]) (auto simp: file_at_def split: option.splits entry_kind.splits)
    with that show thesis by (auto simp: file_at_def split: option.splits entry_kind.splits)
  qed
  have weaken: "io_runs 0 m fs x gs \<Longrightarrow> io_runs 1 m fs x gs" for m :: "unit io" and fs x gs by (fastforce simp: io_runs_def)
  have same: "fs p = Some (File payload) \<Longrightarrow> fs(p \<mapsto> File payload) = fs" by auto
  show ?thesis
  proof (cases "r = Inr (Some payload)")
    case True
    with r same have "io_runs 1 (io_return ()) fs () (fs(p \<mapsto> File payload))" by (intro weaken) (simp add: run_return)
    with r(1) True show ?thesis unfolding atomic_write_def
      by (intro run_bind0 [OF run_recover [OF assms]] run_bind0 [OF r(1)]) simp
  next
    case False
    show ?thesis unfolding atomic_write_def
      by (intro run_bind0 [OF run_recover [OF assms]] run_bind0 [OF r(1)])
        (simp only: False if_False, intro run_bind0 [OF run_calls(1)] run_create [OF assms copy])
  qed
qed

text \<open>The files of a target at rest.\<close>

definition target_tidy :: "files \<Rightarrow> target \<Rightarrow> bool" where
  "target_tidy fs t \<longleftrightarrow> tidy fs (tg_config t) \<and> tidy fs (tg_state t) \<and> tidy fs (tg_backup t) \<and> tidy fs (tg_binary t)"

lemma tidy_same [simp]: "tidy fs p \<Longrightarrow> tidy (fs(p \<mapsto> File c)) p" "tidy fs p \<Longrightarrow> tidy (fs(p := None)) p"
  by (auto simp: tidy_def)

lemma tidy_other: "\<not> owned p q \<Longrightarrow> tidy fs p \<Longrightarrow> tidy (fs(q := x)) p"
  by (auto simp: tidy_def owned_def)

lemma separate_distinct: "separate p q \<Longrightarrow> p \<noteq> q" "separate p q \<Longrightarrow> \<not> owned p q"
  by (auto simp: separate_def)

lemma file_at_upd [simp]: "file_at (fs(p \<mapsto> File c)) p = Some c" "p \<noteq> q \<Longrightarrow> file_at (fs(p := x)) q = file_at fs q"
  "file_at (fs(p := None)) p = None"
  by (simp_all add: file_at_def)

text \<open>The state a finished installation leaves.\<close>

definition installed_state :: "installer_env \<Rightarrow> target \<Rightarrow> string \<Rightarrow> string \<Rightarrow> install_state" where
  "installed_state env t c binary = (new_state env t (Some c) binary)\<lparr>is_phase := ''installed'', is_binary_sha := ie_hash env binary\<rparr>"

definition installed_files :: "installer_env \<Rightarrow> target \<Rightarrow> string \<Rightarrow> string \<Rightarrow> string \<Rightarrow> files \<Rightarrow> files" where
  "installed_files env t c desired binary fs = fs(tg_backup t \<mapsto> File c, tg_binary t \<mapsto> File binary, tg_config t \<mapsto> File desired,
     tg_state t \<mapsto> File (ie_encode_state env (installed_state env t c binary) @ [CHR 0x0A]))"

lemma run_ensure_backup:
  assumes "tidy fs b" and "file_at fs b = None" and "is_original_exists s" and "is_backup_path s = b"
    and "is_phase s = ''installing''" and "is_original_sha s = ie_hash env c" and "managed_hook_count (json_env.truncate env) c = Inr 0"
  shows "io_runs 1 (ensure_backup env s (Some c)) fs () (fs(b \<mapsto> File c))"
proof -
  have none: "io_runs 0 (read_optional b max_config_len) fs None fs"
    using run_read [OF assms(1), of max_config_len] assms(2) by simp
  show ?thesis
    by (simp add: ensure_backup_def assms(3-7)) (rule run_bind0 [OF none], simp add: run_write [OF assms(1), simplified])
qed

lemma new_state_fields [simp]:
  "is_original_exists (new_state env t (Some c) b)" "is_backup_path (new_state env t (Some c) b) = tg_backup t"
  "is_phase (new_state env t (Some c) b) = ''installing''" "is_original_sha (new_state env t (Some c) b) = ie_hash env c"
  by (simp_all add: new_state_def)

lemma run_install_files:
  assumes "clean_list True ws" and t: "t = target_in win sc (abs_path ws)" and "target_tidy fs t"
    and "fs (tg_config t) = Some (File c)" and "fs (tg_backup t) = None" and "fs (tg_state t) = None"
    and "managed_hook_count (json_env.truncate env) c = Inr 0"
  shows "io_runs 5 (install_files env t None (Some c) desired binary) fs () (installed_files env t c desired binary fs)"
proof -
  note sep = target_separate [OF assms(1,2)]
  note ne = sep [THEN separate_distinct(1)] and nowned = sep [THEN separate_distinct(2)]
  have tidy: "tidy fs (tg_config t)" "tidy fs (tg_state t)" "tidy fs (tg_backup t)" "tidy fs (tg_binary t)"
    using assms(3) by (simp_all add: target_tidy_def)
  let ?s = "new_state env t (Some c) binary"
  let ?fs1 = "fs(tg_state t \<mapsto> File (ie_encode_state env ?s @ [CHR 0x0A]))"
  let ?fs2 = "?fs1(tg_backup t \<mapsto> File c)"
  let ?fs3 = "?fs2(tg_binary t \<mapsto> File binary)"
  let ?fs4 = "?fs3(tg_config t \<mapsto> File desired)"
  have missing: "file_at fs (tg_backup t) = None" "file_at ?fs1 (tg_backup t) = None" using assms(5) ne by (simp_all add: file_at_def)
  have tidy1: "tidy ?fs1 (tg_backup t)" and tidy2: "tidy ?fs2 (tg_binary t)" and tidy3: "tidy ?fs3 (tg_config t)"
    and tidy4: "tidy ?fs4 (tg_state t)"
    using tidy nowned by (simp_all add: tidy_other)
  have backup: "io_runs 1 (ensure_backup env ?s (Some c)) ?fs1 () ?fs2"
    by (rule run_ensure_backup [OF tidy1 missing(2)]) (simp_all add: assms(7))
  have writes: "io_runs 2 (io_bind (write_state env (tg_state t) ?s) (\<lambda>_. io_bind (ensure_backup env ?s (Some c)) (\<lambda>_. io_return ?s))) fs ?s ?fs2"
    using run_bind [OF run_write [OF tidy(2), of "ie_encode_state env ?s @ [CHR 0x0A]"] run_bind [OF backup run_return]]
    unfolding write_state_def by (simp only: add_0_right one_add_one)
  have "io_runs 0 (read_optional (tg_backup t) max_config_len) fs None fs"
    using run_read [OF tidy(3), of max_config_len] missing(1) by simp
  then have start: "io_runs 2 (begin_install env t (Some c) binary) fs ?s ?fs2"
    unfolding begin_install_def Let_def using writes by (simp only: option.distinct if_False) (rule run_bind0, assumption, simp)
  have "io_runs 5 (install_files env t None (Some c) desired binary) fs ()
      (?fs4(tg_state t \<mapsto> File (ie_encode_state env (installed_state env t c binary) @ [CHR 0x0A])))"
    using run_bind [OF start run_bind [OF run_write [OF tidy2] run_bind [OF run_write [OF tidy3] run_write [OF tidy4]]]]
    unfolding install_files_def write_state_def installed_state_def by (simp only: option.case numeral_plus_one one_add_one semiring_norm add_numeral_left arith_simps)
  moreover have "?fs4(tg_state t \<mapsto> x) = fs(tg_backup t \<mapsto> File c, tg_binary t \<mapsto> File binary, tg_config t \<mapsto> File desired, tg_state t \<mapsto> x)" for x
    using ne by (auto simp: fun_eq_iff)
  ultimately show ?thesis unfolding installed_files_def by simp
qed


section \<open>Installing and uninstalling\<close>

lemma run_read_file: "fs p = Some (File c) \<Longrightarrow> length c \<le> n \<Longrightarrow> io_runs 0 (read_optional p n) fs (Some c) fs"
  unfolding read_optional_def by (rule run_bind0 [OF run_calls(2)]) (simp, rule run_bind0 [OF run_calls(1)], rule run_return)

lemma run_read_none: "fs p = None \<Longrightarrow> io_runs 0 (read_optional p n) fs None fs"
  unfolding read_optional_def by (rule run_bind0 [OF run_calls(2)]) (simp add: run_return)

lemma run_no_state: "fs p = None \<Longrightarrow> io_runs 0 (read_state env p) fs None fs"
  unfolding read_state_def by (rule run_bind0 [OF run_read_none], assumption, simp add: run_return)

lemma run_read_state:
  "fs p = Some (File text) \<Longrightarrow> length text \<le> max_state_len \<Longrightarrow> ie_decode_state env text = Some s \<Longrightarrow>
   io_runs 0 (read_state env p) fs (Some s) fs"
  unfolding read_state_def by (rule run_bind0 [OF run_read_file], assumption, assumption, simp add: run_return)

lemma run_recover_target: "target_tidy fs t \<Longrightarrow> io_runs 0 (recover_target t) fs () fs"
  unfolding recover_target_def target_paths_def target_tidy_def
  by (simp, intro run_bind0 [OF run_recover] run_return) auto

text \<open>A run of the installer on a project with the configuration \<open>c\<close> and without an installation.\<close>

definition fresh_install :: "installer_env \<Rightarrow> install_options \<Rightarrow> target \<Rightarrow> string \<Rightarrow> string \<Rightarrow> string \<Rightarrow> files \<Rightarrow> bool" where
  "fresh_install env opts t c desired binary fs \<longleftrightarrow>
     cwd_rooted env \<and> resolve_target env opts = Inr t \<and> \<not> op_dry_run opts \<and> trim_space (op_hook_binary opts) \<noteq> [] \<and>
     (case absolute_path (je_cwd env) (op_hook_binary opts) of
        None \<Rightarrow> False | Some src \<Rightarrow> fs src = Some (File binary) \<and> length binary \<le> max_binary_len) \<and>
     target_tidy fs t \<and> fs (tg_config t) = Some (File c) \<and> c \<noteq> [] \<and> length c \<le> max_config_len \<and>
     fs (tg_state t) = None \<and> fs (tg_backup t) = None \<and> fs (tg_binary t) = None \<and>
     managed_hook_count (json_env.truncate env) c = Inr 0 \<and>
     (\<exists>n. merge_hooks (json_env.truncate env) c (tg_binary t) = Inr (desired, n))"

lemma fresh_target:
  assumes "fresh_install env opts t c desired binary fs"
  obtains ws sc where "clean_list True ws" "t = target_in (ie_windows env) sc (abs_path ws)"
proof -
  obtain sc dir where dir: "codex_dir env opts = Inr (sc, dir)" "t = target_in (ie_windows env) sc dir"
    using assms by (auto simp: fresh_install_def resolve_target_def map_sum_def split: sum.splits)
  with codex_dir_clean [of env opts sc dir] assms that show thesis by (auto simp: fresh_install_def)
qed

lemma run_install:
  assumes "fresh_install env opts t c desired binary fs"
  shows "io_runs 5 (install env opts) fs (install_result_of St_installed True 6) (installed_files env t c desired binary fs)"
proof -
  note f = assms [unfolded fresh_install_def]
  obtain ws sc where t: "clean_list True ws" "t = target_in (ie_windows env) sc (abs_path ws)" using fresh_target [OF assms] .
  obtain src where src: "absolute_path (je_cwd env) (op_hook_binary opts) = Some src" "fs src = Some (File binary)" "length binary \<le> max_binary_len"
    using f by (auto split: option.splits)
  obtain n where n: "merge_hooks (json_env.truncate env) c (tg_binary t) = Inr (desired, n)" using f by blast
  have files: "io_runs 5 (install_files env t None (Some c) desired binary) fs () (installed_files env t c desired binary fs)"
    using run_install_files [OF t] f by blast
  have changed: "install_changed env None (Some c) None desired binary" by (simp add: install_changed_def)
  have six: "length hook_events = 6" by (simp add: hook_events_def)
  have result: "io_runs 5 (io_bind (install_files env t None (Some c) desired binary)
      (\<lambda>_. io_return (install_result_of St_installed True (length hook_events)))) fs
      (install_result_of St_installed True 6) (installed_files env t c desired binary fs)"
    using run_bind [OF files, of 0 "\<lambda>_. io_return (install_result_of St_installed True 6)", OF run_return] six by simp
  have "io_runs 5 (install_from env False t binary (Some c)) fs (install_result_of St_installed True 6) (installed_files env t c desired binary fs)"
    unfolding install_from_def payload_of_def option.case n io_bind_lift prod.case
  proof (rule run_bind0 [OF run_no_state])
    show "fs (tg_state t) = None" using f by blast
    have none: "io_runs 0 (read_optional (tg_binary t) max_binary_len) fs None fs" using f by (intro run_read_none) blast
    show "io_runs 5 (io_bind (check_state env False t None (Some c)) (\<lambda>_. io_bind (read_optional (tg_binary t) max_binary_len) (\<lambda>installed.
        if None = None \<and> installed \<noteq> None then io_fail Unmanaged_binary
        else if \<not> install_changed env None (Some c) installed desired binary
        then io_return (install_result_of St_installed False (length hook_events))
        else if False then io_return (install_result_of St_planned True (length hook_events))
        else io_bind (install_files env t None (Some c) desired binary) (\<lambda>_.
          io_return (install_result_of St_installed True (length hook_events))))))
      fs (install_result_of St_installed True 6) (installed_files env t c desired binary fs)"
      unfolding check_state_def option.case io_bind_return
      by (rule run_bind0 [OF none]) (use changed result in simp)
  qed
  moreover have "io_runs 0 (recover_target t) fs () fs" using f by (intro run_recover_target) blast
  moreover have "io_runs 0 (read_optional src max_binary_len) fs (Some binary) fs" using src by (intro run_read_file)
  moreover have "io_runs 0 (read_optional (tg_config t) max_config_len) fs (Some c) fs" using f by (intro run_read_file) blast+
  ultimately show ?thesis
    using f src(1) unfolding install_def by (simp add: io_bind_lift run_bind0)
qed


text \<open>An installation that can be taken back: what it wrote is read again, and the cleaned configuration means the old one.\<close>

definition removable :: "installer_env \<Rightarrow> install_options \<Rightarrow> target \<Rightarrow> string \<Rightarrow> string \<Rightarrow> string \<Rightarrow> string \<Rightarrow> nat \<Rightarrow> files \<Rightarrow> bool" where
  "removable env opts t c desired binary cleaned n fs \<longleftrightarrow>
     fresh_install env opts t c desired binary fs \<and> length desired \<le> max_config_len \<and> desired \<noteq> [] \<and>
     remove_hooks (json_env.truncate env) desired = Inr (cleaned, n) \<and> semantic_equal (json_env.truncate env) cleaned c \<and>
     ie_decode_state env (ie_encode_state env (installed_state env t c binary) @ [CHR 0x0A]) = Some (installed_state env t c binary) \<and>
     length (ie_encode_state env (installed_state env t c binary)) < max_state_len \<and> length (ie_hash env binary) = 64"

text \<open>What the steps of an uninstallation find.\<close>

lemma installed_facts:
  assumes "removable env opts t c desired binary cleaned n fs"
  defines "s \<equiv> installed_state env t c binary" and "gs \<equiv> installed_files env t c desired binary fs"
  shows "io_runs 0 (recover_target t) gs () gs"
    and "io_runs 0 (read_optional (tg_config t) max_config_len) gs (Some desired) gs"
    and "io_runs 0 (read_state env (tg_state t)) gs (Some s) gs"
    and "io_runs 0 (check_state env False t (Some s) (Some desired)) gs () gs"
    and "io_runs 0 (read_optional (tg_binary t) max_binary_len) gs (Some binary) gs"
    and "io_runs 0 (restoration env (Some s) cleaned) gs (Some c) gs"
    and "io_runs 1 (atomic_write (tg_config t) c) gs () (gs(tg_config t \<mapsto> File c))"
    and "is_backup_path s = tg_backup t" and "tg_backup t \<noteq> []" and "validate_state s t = None"
    and "is_original_exists s" and "is_phase s = ''installed''"
    and "gs(tg_config t \<mapsto> File c, tg_binary t := None, tg_backup t := None, tg_state t := None) = fs"
    and "gs (tg_state t) = Some (File (ie_encode_state env s @ [CHR 0x0A]))" and "target_tidy gs t"
    and "distinct [tg_config t, tg_state t, tg_backup t, tg_binary t]"
proof -
  note r = assms(1) [unfolded removable_def]
  note f = r [THEN conjunct1, unfolded fresh_install_def]
  obtain ws sc where t: "clean_list True ws" "t = target_in (ie_windows env) sc (abs_path ws)" using fresh_target r by blast
  note sep = target_separate [OF t]
  note ne = sep [THEN separate_distinct(1)] and nowned = sep [THEN separate_distinct(2)]
  have at: "gs (tg_config t) = Some (File desired)" "gs (tg_backup t) = Some (File c)" "gs (tg_binary t) = Some (File binary)"
    "gs (tg_state t) = Some (File (ie_encode_state env s @ [CHR 0x0A]))"
    using ne by (simp_all add: gs_def s_def installed_files_def)
  have tidy: "target_tidy gs t"
    using f nowned by (simp add: gs_def target_tidy_def installed_files_def tidy_other)
  have fields: "is_backup_path s = tg_backup t" "is_original_exists s" "is_original_sha s = ie_hash env c" "validate_state s t = None"
    "is_phase s = ''installed''"
    using r by (simp_all add: s_def installed_state_def new_state_def validate_state_def)
  have len: "length c \<le> max_config_len" "length binary \<le> max_binary_len"
    using f by (auto split: option.splits)
  have reads: "io_runs 0 (read_optional (tg_config t) max_config_len) gs (Some desired) gs"
    "io_runs 0 (read_optional (tg_backup t) max_config_len) gs (Some c) gs"
    "io_runs 0 (read_optional (tg_binary t) max_binary_len) gs (Some binary) gs"
    "io_runs 0 (read_state env (tg_state t)) gs (Some s) gs"
    using at len r by (auto simp: s_def intro: run_read_file run_read_state)
  have ensure: "io_runs 0 (ensure_backup env s (Some desired)) gs () gs"
    unfolding ensure_backup_def
    by (simp only: fields simp_thms if_False, rule run_bind0 [OF reads(2)]) (simp add: run_return)
  show "io_runs 0 (restoration env (Some s) cleaned) gs (Some c) gs"
    unfolding restoration_def
    by (simp only: option.case fields simp_thms if_False, rule run_bind0 [OF reads(2)]) (simp add: run_return r)
  show "io_runs 1 (atomic_write (tg_config t) c) gs () (gs(tg_config t \<mapsto> File c))"
    using tidy by (intro run_write) (simp add: target_tidy_def)
  show "gs(tg_config t \<mapsto> File c, tg_binary t := None, tg_backup t := None, tg_state t := None) = fs"
    using ne f by (auto simp: fun_eq_iff gs_def installed_files_def)
  show "io_runs 0 (check_state env False t (Some s) (Some desired)) gs () gs"
    unfolding check_state_def using ensure fields(4) by simp
  show "tg_backup t \<noteq> []" using target_shape [OF t(1), of "ie_windows env" sc] t(2) by auto
  show "io_runs 0 (recover_target t) gs () gs" by (rule run_recover_target [OF tidy])
  show "io_runs 0 (read_optional (tg_config t) max_config_len) gs (Some desired) gs"
    "io_runs 0 (read_state env (tg_state t)) gs (Some s) gs"
    "io_runs 0 (read_optional (tg_binary t) max_binary_len) gs (Some binary) gs"
    "is_backup_path s = tg_backup t" "validate_state s t = None" "is_original_exists s" "is_phase s = ''installed''"
    "gs (tg_state t) = Some (File (ie_encode_state env s @ [CHR 0x0A]))" "target_tidy gs t"
    by (fact reads fields at tidy)+
  show "distinct [tg_config t, tg_state t, tg_backup t, tg_binary t]" using ne by simp
qed

text \<open>The conditions on the configuration: it has hooks and none of them ours, no list of groups is empty, and JSON reads back the
  two texts and the state that are written.\<close>

definition restorable :: "installer_env \<Rightarrow> install_options \<Rightarrow> target \<Rightarrow> string \<Rightarrow> string \<Rightarrow> string \<Rightarrow> files \<Rightarrow> bool" where
  "restorable env opts t c desired binary fs \<longleftrightarrow>
     fresh_install env opts t c desired binary fs \<and> length desired \<le> max_config_len \<and> reads_back (json_env.truncate env) desired \<and>
     decode_any (json_env.truncate env) c \<noteq> None \<and>
     (case decode_root (json_env.truncate env) c of Inl _ \<Rightarrow> False | Inr r \<Rightarrow>
        (case decode_hooks (map_of r ''hooks'') of Inl _ \<Rightarrow> False | Inr h \<Rightarrow>
           h \<noteq> [] \<and> list_all (\<lambda>(event, gs). gs \<noteq> []) h \<and>
           reads_back (json_env.truncate env) (marshal_text (json_env.truncate env) (AList.update ''hooks'' (marshal_hooks h) r)))) \<and>
     ie_decode_state env (ie_encode_state env (installed_state env t c binary) @ [CHR 0x0A]) = Some (installed_state env t c binary) \<and>
     length (ie_encode_state env (installed_state env t c binary)) < max_state_len \<and> length (ie_hash env binary) = 64"

lemma restorable_removable:
  assumes "restorable env opts t c desired binary fs"
  shows "\<exists>cleaned. removable env opts t c desired binary cleaned 6 fs"
proof -
  let ?env = "json_env.truncate env"
  note r = assms [unfolded restorable_def]
  obtain root h where h: "decode_root ?env c = Inr root" "decode_hooks (map_of root ''hooks'') = Inr h" "h \<noteq> []"
    "list_all (\<lambda>(event, gs). gs \<noteq> []) h" "reads_back ?env (marshal_text ?env (AList.update ''hooks'' (marshal_hooks h) root))"
    using r by (auto split: sum.splits)
  obtain n where merge: "merge_hooks ?env c (tg_binary t) = Inr (desired, n)" and "c \<noteq> []" and "managed_hook_count ?env c = Inr 0"
    using r by (auto simp: fresh_install_def)
  then have none: "list_all (\<lambda>(event, gs). gs \<noteq> [] \<and> managed_in gs = 0) h"
    using h(1,2,4) by (auto simp: managed_hook_count_def managed_hook_layout_def Let_def list_all_iff)
  obtain cleaned where "remove_hooks ?env desired = Inr (cleaned, 6)" "semantic_equal ?env cleaned c"
    using removed_means_original [OF _ merge _ \<open>c \<noteq> []\<close> h(1-3) none _ h(5)] r by blast
  moreover have "desired \<noteq> []"
    using merge h(1,2) by (auto simp: merge_hooks_def marshal_text_def split: sum.splits prod.splits)
  ultimately show ?thesis using r by (auto simp: removable_def)
qed

text \<open>C27: uninstalling after installing leaves every file as it was: \<^verbatim>\<open>hooks.json\<close> with its bytes, no state, no backup and no
  binary.  The installation is the first one on a project whose \<^verbatim>\<open>hooks.json\<close> has hooks, none of them managed and no event with an
  empty list, and no call fails.  A configuration without hooks is left with an empty object of hooks
  (\<open>removal_leaves_empty_hooks\<close>).\<close>

theorem install_uninstall_restores:
  assumes "restorable env opts t c desired binary fs"
    and "w_files w = fs" and "w_script w = []" and "6 \<le> length (w_names w)"
  shows "\<exists>r. fst (io_bind (install env opts) (\<lambda>_. uninstall env opts) w) = Io_value r \<and>
    w_files (snd (io_bind (install env opts) (\<lambda>_. uninstall env opts) w)) = fs"
proof -
  let ?s = "installed_state env t c binary" and ?gs = "installed_files env t c desired binary fs" and ?n = "6 :: nat"
  obtain cleaned where rem: "removable env opts t c desired binary cleaned ?n fs" using restorable_removable [OF assms(1)] by blast
  note i = installed_facts [OF rem] and r = rem [unfolded removable_def]
  have last: "io_runs 0 (remove_if_exists (tg_state t)) (?gs(tg_config t \<mapsto> File c, tg_binary t := None, tg_backup t := None)) () fs"
    using run_calls(5) [of "tg_state t" "?gs(tg_config t \<mapsto> File c, tg_binary t := None, tg_backup t := None)"] i(13) by simp
  have files: "io_runs 1 (uninstall_files t (Some ?s) (Some c) x) ?gs () fs" for x
    unfolding uninstall_files_def option.case i(8)
    using run_bind [OF i(7) run_bind0 [OF run_calls(5) run_bind0 [OF run_calls(5) last]]] i(9) by simp
  have ends: "io_runs 1 (io_bind (uninstall_files t (Some ?s) (Some c) x) (\<lambda>_. io_return (install_result_of St_not_installed True ?n))) ?gs
      (install_result_of St_not_installed True ?n) fs" for x
    using run_bind [OF files, of 0 "\<lambda>_. io_return (install_result_of St_not_installed True ?n)", OF run_return] by simp
  have "io_runs 1 (uninstall env opts) ?gs (install_result_of St_not_installed True ?n) fs"
    using r i(3-6) ends unfolding uninstall_def fresh_install_def
    by (simp add: io_bind_lift) (intro run_bind0 [OF i(1)] run_bind0 [OF i(2)]; simp add: io_bind_lift run_bind0 Let_def)
  moreover have "io_runs 5 (install env opts) fs (install_result_of St_installed True 6) ?gs" using r run_install by blast
  ultimately have "io_runs (5 + 1) (io_bind (install env opts) (\<lambda>_. uninstall env opts)) fs (install_result_of St_not_installed True ?n) fs"
    by (intro run_bind [of 5 "install env opts" fs "install_result_of St_installed True 6" ?gs])
  then show ?thesis using assms(2-4) unfolding io_runs_def by auto
qed

end
