(* ===== verification/Installer_Recovery.thy ===== *)
theory Installer_Recovery
  imports Installer_Props
begin

text \<open>
  Where an installation cannot be taken back: an uninstallation interrupted between two of its removals, a merged
  configuration that is too long to be read again, and a configuration whose last setting is not a hook.
\<close>

section \<open>Operations that stop\<close>

text \<open>An operation that runs the same along a script of calls that work as without a script, however the script goes on.\<close>

definition uniform :: "'a io \<Rightarrow> bool" where
  "uniform m \<longleftrightarrow> (\<forall>w. w_script w = [] \<longrightarrow> w_script (snd (m w)) = [] \<and>
     (\<exists>N. \<forall>rest. m (w\<lparr>w_script := replicate N Works @ rest\<rparr>) = (fst (m w), (snd (m w))\<lparr>w_script := rest\<rparr>)))"

lemma uniform_ends [simp]: "uniform (io_return x)" "uniform (io_fail e)" "uniform (io_lift r)"
  by (auto simp: uniform_def io_return_def io_fail_def io_lift_def intro!: exI [of _ 0] split: sum.split)

lemma uniform_bind:
  assumes "uniform m" and "\<And>x. uniform (f x)"
  shows "uniform (io_bind m f)"
  unfolding uniform_def
proof (intro allI impI)
  fix w :: world assume w: "w_script w = []"
  with assms(1) obtain N where N: "w_script (snd (m w)) = []"
    "\<And>rest. m (w\<lparr>w_script := replicate N Works @ rest\<rparr>) = (fst (m w), (snd (m w))\<lparr>w_script := rest\<rparr>)"
    unfolding uniform_def by blast
  show "w_script (snd (io_bind m f w)) = [] \<and> (\<exists>N. \<forall>rest. io_bind m f (w\<lparr>w_script := replicate N Works @ rest\<rparr>) =
      (fst (io_bind m f w), (snd (io_bind m f w))\<lparr>w_script := rest\<rparr>))"
  proof (cases "fst (m w)")
    case (Io_value x)
    with assms(2) [of x] N(1) obtain K where K: "w_script (snd (f x (snd (m w)))) = []"
      "\<And>rest. f x ((snd (m w))\<lparr>w_script := replicate K Works @ rest\<rparr>) = (fst (f x (snd (m w))), (snd (f x (snd (m w))))\<lparr>w_script := rest\<rparr>)"
      unfolding uniform_def by blast
    have "io_bind m f w = f x (snd (m w))" using Io_value by (simp add: io_bind_def case_prod_unfold)
    with N K Io_value show ?thesis
      by (intro conjI exI [of _ "N + K"]) (simp_all add: io_bind_def replicate_add)
  qed (use N in \<open>auto simp: io_bind_def case_prod_unfold intro!: exI [of _ N]\<close>)
qed

lemma uniform_call: "uniform (sys_call partial act)"
  by (auto simp: uniform_def sys_call_def Let_def intro!: exI [of _ 1] split: option.split)

lemma uniform_try: "uniform m \<Longrightarrow> uniform (io_try m)"
  unfolding uniform_def
proof (intro allI impI)
  fix w :: world
  assume m: "\<forall>w. w_script w = [] \<longrightarrow> w_script (snd (m w)) = [] \<and>
     (\<exists>N. \<forall>rest. m (w\<lparr>w_script := replicate N Works @ rest\<rparr>) = (fst (m w), (snd (m w))\<lparr>w_script := rest\<rparr>))" and "w_script w = []"
  then obtain N where N: "w_script (snd (m w)) = []"
    "\<And>rest. m (w\<lparr>w_script := replicate N Works @ rest\<rparr>) = (fst (m w), (snd (m w))\<lparr>w_script := rest\<rparr>)" by blast
  then show "w_script (snd (io_try m w)) = [] \<and> (\<exists>N. \<forall>rest. io_try m (w\<lparr>w_script := replicate N Works @ rest\<rparr>) =
      (fst (io_try m w), (snd (io_try m w))\<lparr>w_script := rest\<rparr>))"
    by (intro conjI exI [of _ N]) (auto simp: io_try_def case_prod_unfold split: io_result.split)
qed

lemma uniform_calls [simp]: "uniform (sys_stat p)" "uniform (sys_lstat p)" "uniform sys_plain" "uniform (sys_rename p q)"
  "uniform (sys_remove p)" "uniform (sys_write p c)" "uniform (remove_if_exists p)"
  by (auto simp: sys_stat_def sys_lstat_def sys_plain_def sys_rename_def sys_remove_def sys_write_def remove_if_exists_def
      intro!: uniform_call uniform_bind uniform_try)

lemma uniform_create [simp]: "uniform (create_temp p)"
  unfolding uniform_def
proof (intro allI impI)
  fix w :: world assume w: "w_script w = []"
  let ?d = "dropWhile (\<lambda>n. w_files w (temp_path p n) \<noteq> None) (w_names w)"
  have eq: "create_temp p (w\<lparr>w_script := r\<rparr>) = (case ?d of [] \<Rightarrow> (Io_error Os_failed, w\<lparr>w_script := r\<rparr>)
      | n # ns \<Rightarrow> sys_call (\<lambda>_ fs. fs) (\<lambda>fs. Some (temp_path p n, fs(temp_path p n \<mapsto> File []))) (w\<lparr>w_script := r, w_names := ns\<rparr>))" for r
    by (simp add: create_temp_def)
  have eq0: "create_temp p w = (case ?d of [] \<Rightarrow> (Io_error Os_failed, w)
      | n # ns \<Rightarrow> sys_call (\<lambda>_ fs. fs) (\<lambda>fs. Some (temp_path p n, fs(temp_path p n \<mapsto> File []))) (w\<lparr>w_names := ns\<rparr>))"
    by (simp add: create_temp_def)
  show "w_script (snd (create_temp p w)) = [] \<and> (\<exists>N. \<forall>rest. create_temp p (w\<lparr>w_script := replicate N Works @ rest\<rparr>) =
      (fst (create_temp p w), (snd (create_temp p w))\<lparr>w_script := rest\<rparr>))"
  proof (cases ?d)
    case Nil
    show ?thesis unfolding eq eq0 Nil using w by (intro conjI exI [of _ 0]) simp_all
  next
    case (Cons n ns)
    show ?thesis unfolding eq eq0 Cons using w by (intro conjI exI [of _ 1]) (simp_all add: sys_call_def)
  qed
qed

lemma uniform_defer:
  assumes "uniform m" and "uniform d"
  shows "uniform (io_defer d m)"
  unfolding uniform_def
proof (intro allI impI)
  fix w :: world assume w: "w_script w = []"
  with assms(1) obtain N where N: "w_script (snd (m w)) = []"
    "\<And>rest. m (w\<lparr>w_script := replicate N Works @ rest\<rparr>) = (fst (m w), (snd (m w))\<lparr>w_script := rest\<rparr>)"
    unfolding uniform_def by blast
  with assms(2) obtain K where K: "w_script (snd (d (snd (m w)))) = []"
    "\<And>rest. d ((snd (m w))\<lparr>w_script := replicate K Works @ rest\<rparr>) = (fst (d (snd (m w))), (snd (d (snd (m w))))\<lparr>w_script := rest\<rparr>)"
    unfolding uniform_def by blast
  show "w_script (snd (io_defer d m w)) = [] \<and> (\<exists>N. \<forall>rest. io_defer d m (w\<lparr>w_script := replicate N Works @ rest\<rparr>) =
      (fst (io_defer d m w), (snd (io_defer d m w))\<lparr>w_script := rest\<rparr>))"
  proof (cases "fst (m w) = Io_crash")
    case True
    with N show ?thesis by (auto simp: io_defer_def case_prod_unfold intro!: exI [of _ N])
  next
    case False
    with N K show ?thesis
      by (intro conjI exI [of _ "N + K"])
        (auto simp: io_defer_def case_prod_unfold replicate_add split: io_result.split)
  qed
qed

lemmas uniform_rules = uniform_bind uniform_try uniform_defer

lemma uniform_read [simp]: "uniform (read_optional p n)"
  by (auto simp: read_optional_def intro!: uniform_rules split: option.split entry_kind.split)

lemma uniform_recover [simp]: "uniform (recover_swap p)"
  by (auto simp: recover_swap_def intro!: uniform_rules)

lemma uniform_write [simp]: "uniform (atomic_write p c)"
  by (auto simp: atomic_write_def swap_in_def intro!: uniform_rules split: sum.split)

lemma uniform_steps [simp]: "uniform (recover_target t)" "uniform (read_state env p)" "uniform (restoration env found cleaned)"
  "uniform (ensure_backup env s config)" "uniform (validate_backup env s)"
  by (auto simp: recover_target_def target_paths_def read_state_def restoration_def ensure_backup_def validate_backup_def
      intro!: uniform_rules split: option.split)

lemma uniform_check [simp]: "uniform (check_state env dry t found config)"
  by (auto simp: check_state_def split: option.split)

text \<open>The operation can be interrupted with the files \<open>gs\<close>.\<close>

definition stops_with :: "'a io \<Rightarrow> world \<Rightarrow> files \<Rightarrow> bool" where
  "stops_with m w gs \<longleftrightarrow> (\<exists>script v. m (w\<lparr>w_script := script\<rparr>) = (Io_crash, v) \<and> w_files v = gs)"

lemma stops_here: "stops_with (sys_call (\<lambda>_ fs. fs) act) w (w_files w)"
  unfolding stops_with_def by (rule exI [of _ "[Stops 0]"]) (simp add: sys_call_def)

lemma stops_first: "stops_with m w gs \<Longrightarrow> stops_with (io_bind m f) w gs"
proof -
  assume "stops_with m w gs"
  then obtain script v where "m (w\<lparr>w_script := script\<rparr>) = (Io_crash, v)" "w_files v = gs" by (auto simp: stops_with_def)
  then show ?thesis unfolding stops_with_def by (intro exI [of _ script] exI [of _ v]) (simp add: io_bind_def)
qed

lemma stops_later:
  assumes "uniform m" and "w_script w = []" and "m w = (Io_value x, v)" and "stops_with (f x) v gs"
  shows "stops_with (io_bind m f) w gs"
proof -
  obtain N where N: "\<And>rest. m (w\<lparr>w_script := replicate N Works @ rest\<rparr>) = (Io_value x, v\<lparr>w_script := rest\<rparr>)"
    using assms(1-3) unfolding uniform_def by fastforce
  obtain script u where "f x (v\<lparr>w_script := script\<rparr>) = (Io_crash, u)" "w_files u = gs"
    using assms(4) by (auto simp: stops_with_def)
  with N [of script] show ?thesis
    by (auto simp: stops_with_def io_bind_def intro!: exI [of _ "replicate N Works @ script"])
qed

text \<open>The same over the files.\<close>

definition can_stop :: "nat \<Rightarrow> 'a io \<Rightarrow> files \<Rightarrow> files \<Rightarrow> bool" where
  "can_stop k m fs gs \<longleftrightarrow> (\<forall>w. w_files w = fs \<and> w_script w = [] \<and> k \<le> length (w_names w) \<longrightarrow> stops_with m w gs)"

lemma can_stop_call: "can_stop 0 (sys_call (\<lambda>_ fs. fs) act) fs fs"
  using stops_here by (auto simp: can_stop_def)

lemma can_stop_first: "can_stop k m fs gs \<Longrightarrow> can_stop k (io_bind m f) fs gs"
  by (auto simp: can_stop_def stops_first)

lemma can_stop_later:
  assumes "uniform m" and "io_runs j m fs x hs" and "can_stop k (f x) hs gs"
  shows "can_stop (j + k) (io_bind m f) fs gs"
  unfolding can_stop_def
proof (intro allI impI)
  fix w :: world assume w: "w_files w = fs \<and> w_script w = [] \<and> j + k \<le> length (w_names w)"
  with assms(2) obtain v where "m w = (Io_value x, v)" "w_files v = hs" "w_script v = []" "length (w_names w) \<le> length (w_names v) + j"
    by (fastforce simp: io_runs_def)
  with w assms(1,3) show "stops_with (io_bind m f) w gs" by (intro stops_later) (auto simp: can_stop_def)
qed

lemma can_stop_later0: "uniform m \<Longrightarrow> io_runs 0 m fs x hs \<Longrightarrow> can_stop k (f x) hs gs \<Longrightarrow> can_stop k (io_bind m f) fs gs"
  using can_stop_later [of m 0 fs x hs k f gs] by simp


section \<open>An uninstallation that cannot be finished\<close>

definition io_fails :: "'a io \<Rightarrow> files \<Rightarrow> install_error \<Rightarrow> bool" where
  "io_fails m fs e \<longleftrightarrow> (\<forall>w. w_files w = fs \<and> w_script w = [] \<longrightarrow> fst (m w) = Io_error e)"

lemma fails_fail [simp]: "io_fails (io_fail e) fs e"
  by (simp add: io_fails_def io_fail_def)

lemma fails_first: "io_fails m fs e \<Longrightarrow> io_fails (io_bind m f) fs e"
  by (auto simp: io_fails_def io_bind_def split: prod.split io_result.split)

lemma fails_later: "io_runs 0 m fs x hs \<Longrightarrow> io_fails (f x) hs e \<Longrightarrow> io_fails (io_bind m f) fs e"
  by (fastforce simp: io_fails_def io_runs_def io_bind_def)

text \<open>The files of an uninstallation that stopped before it removed the state.\<close>

definition locked_files :: "installer_env \<Rightarrow> target \<Rightarrow> string \<Rightarrow> string \<Rightarrow> files \<Rightarrow> files" where
  "locked_files env t c binary fs = fs(tg_state t \<mapsto> File (ie_encode_state env (installed_state env t c binary) @ [CHR 0x0A]))"

lemma locked_fails:
  assumes "removable env opts t c desired binary cleaned n fs"
  shows "io_fails (uninstall env opts) (locked_files env t c binary fs) Backup_unrecoverable"
    and "io_fails (install env opts) (locked_files env t c binary fs) Backup_unrecoverable"
proof -
  let ?s = "installed_state env t c binary" and ?ls = "locked_files env t c binary fs"
  note i = installed_facts [OF assms] and r = assms [unfolded removable_def]
  note f = r [THEN conjunct1, unfolded fresh_install_def]
  obtain ws sc where t: "clean_list True ws" "t = target_in (ie_windows env) sc (abs_path ws)" using fresh_target r by blast
  note sep = target_separate [OF t]
  note ne = sep [THEN separate_distinct(1)] and nowned = sep [THEN separate_distinct(2)]
  have tidy: "target_tidy ?ls t" using f nowned by (simp add: locked_files_def target_tidy_def tidy_other)
  obtain src where src: "absolute_path (je_cwd env) (op_hook_binary opts) = Some src" "fs src = Some (File binary)" "length binary \<le> max_binary_len"
    using f by (auto split: option.splits)
  then have "src \<noteq> tg_state t" using f by auto
  then have reads: "io_runs 0 (recover_target t) ?ls () ?ls"
    "io_runs 0 (read_optional src max_binary_len) ?ls (Some binary) ?ls"
    "io_runs 0 (read_optional (tg_config t) max_config_len) ?ls (Some c) ?ls"
    "io_runs 0 (read_state env (tg_state t)) ?ls (Some ?s) ?ls"
    "io_runs 0 (read_optional (tg_backup t) max_config_len) ?ls None ?ls"
    using run_recover_target [OF tidy] src f r ne
    by (auto simp: locked_files_def intro: run_read_file run_read_none run_read_state)
  have "io_fails (ensure_backup env ?s (Some c)) ?ls Backup_unrecoverable"
    unfolding ensure_backup_def i(8) using i(11,12) by (simp, intro fails_later [OF reads(5)]) simp
  then have check: "io_fails (check_state env False t (Some ?s) (Some c)) ?ls Backup_unrecoverable"
    using i(10) by (simp add: check_state_def)
  show "io_fails (uninstall env opts) ?ls Backup_unrecoverable"
    using f unfolding uninstall_def
    by (simp add: io_bind_lift) (intro fails_later [OF reads(1)] fails_later [OF reads(3)]; simp; intro fails_later [OF reads(4)] fails_first check)
  obtain k where "merge_hooks (json_env.truncate env) c (tg_binary t) = Inr (desired, k)" using f by blast
  then have "io_fails (install_from env False t binary (Some c)) ?ls Backup_unrecoverable"
    unfolding install_from_def payload_of_def by (simp add: io_bind_lift) (intro fails_later [OF reads(4)] fails_first check)
  then have "io_fails (io_bind (read_optional (tg_config t) max_config_len) (\<lambda>config.
      if config = Some [] then io_fail Config_empty else install_from env False t binary config)) ?ls Backup_unrecoverable"
    using f by (intro fails_later [OF reads(3)]) simp
  then have "io_fails (io_bind (read_optional src max_binary_len) (\<lambda>found. case found of None \<Rightarrow> io_fail Binary_missing
     | Some binary \<Rightarrow> io_bind (read_optional (tg_config t) max_config_len) (\<lambda>config.
     if config = Some [] then io_fail Config_empty else install_from env False t binary config))) ?ls Backup_unrecoverable"
    by (intro fails_later [OF reads(2)]) simp
  note reading = fails_later [OF reads(1) this]
  have dry: "op_dry_run opts = False" and bin: "trim_space (op_hook_binary opts) \<noteq> []"
    and target: "resolve_target env opts = Inr t" using f by auto
  show "io_fails (install env opts) ?ls Backup_unrecoverable"
    using reading bin unfolding install_def dry target io_bind_lift if_False src(1) by simp
qed

text \<open>An uninstallation that is interrupted after it removed the backup and before it removed its state cannot be finished:
  the configuration is restored, but every later uninstallation and installation reports a backup that cannot be
  recovered.\<close>

theorem interrupted_uninstall_locks:
  assumes "removable env opts t c desired binary cleaned n fs"
    and "w_files w = installed_files env t c desired binary fs" and "w_script w = []" and "1 \<le> length (w_names w)"
  shows "\<exists>script v. uninstall env opts (w\<lparr>w_script := script\<rparr>) = (Io_crash, v) \<and>
    fst (uninstall env opts (v\<lparr>w_script := []\<rparr>)) = Io_error Backup_unrecoverable \<and>
    fst (install env opts (v\<lparr>w_script := []\<rparr>)) = Io_error Backup_unrecoverable"
proof -
  let ?s = "installed_state env t c binary" and ?gs = "installed_files env t c desired binary fs"
  let ?ls = "locked_files env t c binary fs"
  note i = installed_facts [OF assms(1)] and r = assms(1) [unfolded removable_def]
  have ne: "tg_state t \<noteq> tg_config t" using i(16) by auto
  have ls: "?gs(tg_config t \<mapsto> File c, tg_binary t := None, tg_backup t := None) = ?ls"
  proof -
    let ?X = "?gs(tg_config t \<mapsto> File c, tg_binary t := None, tg_backup t := None)"
    have "?X = (?X(tg_state t := None))(tg_state t := ?X (tg_state t))" by (simp only: fun_upd_upd fun_upd_triv)
    also have "\<dots> = ?ls" unfolding i(13) using i(14,16) ne by (simp add: locked_files_def fun_upd_idem)
    finally show ?thesis .
  qed
  have last: "can_stop 0 (remove_if_exists (tg_state t)) (?gs(tg_config t \<mapsto> File c, tg_binary t := None, tg_backup t := None)) ?ls"
    unfolding ls remove_if_exists_def by (rule can_stop_call)
  have "can_stop (1 + 0) (uninstall_files t (Some ?s) (Some c) x) ?gs ?ls" for x
    unfolding uninstall_files_def option.case i(8) using i(9)
    by (simp only: simp_thms if_True) (intro can_stop_later [OF _ i(7)] can_stop_later0 [OF _ run_calls(5)] last; simp)
  then have files: "can_stop 1 (io_bind (uninstall_files t (Some ?s) (Some c) x) g) ?gs ?ls" for x g
    by (simp add: can_stop_first)
  have eqs: "resolve_target env opts = Inr t" "op_dry_run opts = False" "desired \<noteq> []"
    "remove_hooks (json_env.truncate env) desired = Inr (cleaned, n)" using r by (simp_all add: fresh_install_def)
  have "can_stop 1 (uninstall env opts) ?gs ?ls"
    unfolding uninstall_def eqs io_bind_lift if_False
    by (intro can_stop_later0 [OF _ i(1)] can_stop_later0 [OF _ i(2)]; simp add: eqs;
      intro can_stop_later0 [OF _ i(3)] can_stop_later0 [OF _ i(4)]; simp add: eqs io_bind_lift i(11) cong: if_cong;
      intro can_stop_later0 [OF _ i(5)] can_stop_later0 [OF _ i(6)]; simp add: files [simplified])
  then obtain script v where v: "uninstall env opts (w\<lparr>w_script := script\<rparr>) = (Io_crash, v)" "w_files v = ?ls"
    using assms(2-4) by (auto simp: can_stop_def stops_with_def)
  with locked_fails [OF assms(1)] show ?thesis
    by (intro exI [of _ script] exI [of _ v]) (simp add: io_fails_def)
qed

section \<open>A concrete project\<close>

text \<open>The project \<^verbatim>\<open>/p\<close> with a group of somebody else in its \<^verbatim>\<open>hooks.json\<close> and the hook binary at \<^verbatim>\<open>/b\<close>.\<close>

definition disk_binary :: string where "disk_binary = ''/p/.codex/aav/bin/aav-codex-hook''"

definition disk_handler :: json where
  "disk_handler = (case managed_handler \<lparr>je_decode = \<lambda>_. None, je_encode = \<lambda>_. [], je_number = Some, je_cwd = None\<rparr> disk_binary of
     Inl _ \<Rightarrow> J_null | Inr h \<Rightarrow> h)"

definition disk_merged :: json where
  "disk_merged = marshal_map (AList.update ''hooks'' (marshal_hooks (add_managed (managed_group disk_handler)
     (fst (remove_managed [(''Stop'', [J_null])])))) [(''hooks'', J_object [(''Stop'', J_array [J_null])])])"

definition disk_encode :: "json \<Rightarrow> string" where
  "disk_encode v = (if v = disk_merged then ''A'' else if v = demo_config then ''P'' else ''B'' @ replicate (to_nat v) CHR ''x'')"

definition disk_decode :: "string \<Rightarrow> (json \<times> bool) option" where
  "disk_decode s = (if s = [CHR ''P'', CHR 0x0A] then Some (demo_config, True)
     else if s = [CHR ''A'', CHR 0x0A] then Some (disk_merged, True)
     else if s \<noteq> [] \<and> hd s = CHR ''B'' then Some (from_nat (length s - 2), True) else None)"

definition disk_target :: target where
  "disk_target = \<lparr>tg_scope = Scope_project, tg_config = ''/p/.codex/hooks.json'', tg_state = ''/p/.codex/.aav-codex-install.json'',
     tg_backup = ''/p/.codex/hooks.json.aav-backup'', tg_binary = disk_binary\<rparr>"

definition disk_state :: install_state where
  "disk_state = \<lparr>is_version = 1, is_install_id = install_id, is_scope = Scope_project, is_phase = ''installed'',
     is_config_path = tg_config disk_target, is_binary_path = disk_binary, is_original_exists = True,
     is_original_sha = replicate 64 CHR ''0'', is_backup_path = tg_backup disk_target, is_binary_sha = replicate 64 CHR ''0''\<rparr>"

text \<open>A codec that gives this state a short text and any other its number.\<close>

type_synonym state_key = "int \<times> string \<times> bool \<times> string \<times> string \<times> string \<times> bool \<times> string \<times> string \<times> string"

definition state_key :: "install_state \<Rightarrow> state_key" where
  "state_key s = (is_version s, is_install_id s, is_scope s = Scope_user, is_phase s, is_config_path s, is_binary_path s,
     is_original_exists s, is_original_sha s, is_backup_path s, is_binary_sha s)"

definition keyed_state :: "state_key \<Rightarrow> install_state" where
  "keyed_state k = (case k of (v, i, u, p, c, b, e, os, bp, bs) \<Rightarrow>
     \<lparr>is_version = v, is_install_id = i, is_scope = (if u then Scope_user else Scope_project), is_phase = p, is_config_path = c,
       is_binary_path = b, is_original_exists = e, is_original_sha = os, is_backup_path = bp, is_binary_sha = bs\<rparr>)"

definition disk_encode_state :: "install_state \<Rightarrow> string" where
  "disk_encode_state s = (if s = disk_state then ''S'' else ''T'' @ replicate (to_nat (state_key s)) CHR ''x'')"

definition disk_decode_state :: "string \<Rightarrow> install_state option" where
  "disk_decode_state s = (if s = [CHR ''S'', CHR 0x0A] then Some disk_state
     else if s \<noteq> [] \<and> hd s = CHR ''T'' then Some (keyed_state (from_nat (length s - 2))) else None)"

lemma keyed_state_key: "plain_state s \<Longrightarrow> keyed_state (state_key s) = s"
  by (cases s) (auto simp: keyed_state_def state_key_def plain_state_def)

definition disk_env :: installer_env where
  "disk_env = \<lparr>je_decode = disk_decode, je_encode = disk_encode, je_number = Some, je_cwd = None,
     ie_hash = \<lambda>_. replicate 64 CHR ''0'', ie_decode_state = disk_decode_state,
     ie_encode_state = disk_encode_state, ie_codex_home = [], ie_home = None, ie_windows = False\<rparr>"

lemma disk_state_laws: "state_laws disk_env"
proof -
  have "utf8_valid (replicate n CHR ''0'')" for n by (induction n) (simp_all add: byte_def)
  then show ?thesis
    by (auto simp: state_laws_def disk_env_def disk_encode_state_def disk_decode_state_def keyed_state_key)
qed

definition disk_options :: install_options where
  "disk_options = \<lparr>op_scope = Scope_project, op_project_root = ''/p'', op_codex_home = [], op_hook_binary = ''/b'', op_dry_run = False\<rparr>"

definition disk_files :: files where
  "disk_files = [''/p/.codex/hooks.json'' \<mapsto> File [CHR ''P'', CHR 0x0A], ''/b'' \<mapsto> File ''ELF'']"

definition disk_world :: "call_outcome list \<Rightarrow> world" where
  "disk_world script = \<lparr>w_files = disk_files, w_script = script, w_names = map nat_str [1..<9]\<rparr>"

abbreviation disk_json :: json_env where "disk_json \<equiv> json_env.truncate disk_env"

lemma disk_json_simps: "je_decode disk_json = disk_decode" "je_encode disk_json = disk_encode" "je_number disk_json = Some" "je_cwd disk_json = None"
  by (simp_all add: disk_env_def json_env.defs)

lemma disk_reads_back: "reads_back disk_json text"
  by (auto simp: reads_back_def disk_json_simps disk_encode_def disk_decode_def)

lemma disk_root: "decode_root disk_json [CHR ''P'', CHR 0x0A] = Inr [(''hooks'', J_object [(''Stop'', J_array [J_null])])]"
  by (simp add: decode_root_def disk_json_simps disk_decode_def demo_config_def object_map_def max_config_len_def)

lemma disk_managed: "managed_handler disk_json disk_binary = Inr disk_handler"
proof -
  have "absolute_path None disk_binary = Some disk_binary" by code_simp
  then show ?thesis by (simp add: disk_handler_def managed_handler_def disk_json_simps quote_windows_def disk_binary_def)
qed

lemma disk_merge: "merge_hooks disk_json [CHR ''P'', CHR 0x0A] disk_binary = Inr ([CHR ''A'', CHR 0x0A], 0)"
proof -
  have "snd (remove_managed [(''Stop'', [J_null])]) = 0" by (simp add: remove_managed_def managed_in_def strip_managed_def)
  then show ?thesis
    by (simp add: merge_hooks_def disk_root demo_hooks disk_managed marshal_text_def case_prod_unfold)
      (simp add: disk_json_simps disk_encode_def disk_merged_def)
qed

lemma disk_merged_other: "disk_merged \<noteq> demo_config"
  by code_simp

lemma disk_count: "managed_hook_count disk_json [CHR ''P'', CHR 0x0A] = Inr 0"
  by (simp add: managed_hook_count_def managed_hook_layout_def disk_root demo_hooks Let_def managed_in_def strip_managed_def)

lemma disk_any: "decode_any disk_json [CHR ''P'', CHR 0x0A] \<noteq> None"
proof -
  have "canonical Some demo_config \<noteq> None" by code_simp
  then show ?thesis by (simp add: decode_any_def disk_json_simps disk_decode_def)
qed

lemma disk_resolve: "resolve_target disk_env disk_options = Inr disk_target"
proof -
  have "path_join [''/p'', ''.codex''] = ''/p/.codex''" "absolute_path None ''/p'' = Some ''/p''"
    "target_in False Scope_project ''/p/.codex'' = disk_target" by code_simp+
  then show ?thesis by (simp add: resolve_target_def codex_dir_def disk_env_def disk_options_def)
qed

lemma disk_tidy: "target_tidy disk_files disk_target"
proof -
  have "dir_part ''/p/.codex/hooks.json'' = ''/p/.codex/''" "dir_part ''/p/.codex/.aav-codex-install.json'' = ''/p/.codex/''"
    "dir_part ''/p/.codex/hooks.json.aav-backup'' = ''/p/.codex/''" "dir_part disk_binary = ''/p/.codex/aav/bin/''" by code_simp+
  then show ?thesis
    by (simp add: target_tidy_def tidy_def disk_target_def temp_path_def swap_path_def disk_files_def disk_binary_def)
qed

lemma disk_installed: "installed_state disk_env disk_target [CHR ''P'', CHR 0x0A] ''ELF'' = disk_state"
  by (simp add: installed_state_def new_state_def disk_state_def disk_env_def disk_target_def)

lemma disk_restorable: "restorable disk_env disk_options disk_target [CHR ''P'', CHR 0x0A] [CHR ''A'', CHR 0x0A] ''ELF'' disk_files"
proof -
  have bin: "absolute_path None ''/b'' = Some ''/b''" "trim_space ''/b'' \<noteq> []" by code_simp+
  have "fresh_install disk_env disk_options disk_target [CHR ''P'', CHR 0x0A] [CHR ''A'', CHR 0x0A] ''ELF'' disk_files"
    unfolding fresh_install_def
    using bin disk_resolve disk_tidy disk_count disk_merge
    by (simp add: cwd_rooted_def disk_env_def json_env.defs disk_options_def disk_files_def disk_target_def disk_binary_def max_config_len_def
        max_binary_len_def)
  then show ?thesis
    unfolding restorable_def disk_installed using disk_any disk_reads_back disk_root
    by (simp add: demo_hooks max_config_len_def max_state_len_def)
      (simp add: disk_env_def disk_encode_state_def disk_decode_state_def)
qed

theorem install_uninstall_restores_witness:
  "\<exists>r. fst (io_bind (install disk_env disk_options) (\<lambda>_. uninstall disk_env disk_options) (disk_world [])) = Io_value r \<and>
    w_files (snd (io_bind (install disk_env disk_options) (\<lambda>_. uninstall disk_env disk_options) (disk_world []))) = disk_files"
  by (rule install_uninstall_restores [OF disk_restorable]) (simp_all add: disk_world_def)

text \<open>An installation that is interrupted at its twenty-first call, and installed again.\<close>

definition stopped_world :: world where
  "stopped_world = snd (install disk_env disk_options (disk_world (replicate 20 Works @ [Stops 0])))"

theorem install_keeps_config_witness:
  "config_kept disk_target [CHR ''P'', CHR 0x0A] (w_files (snd (install disk_env disk_options (stopped_world\<lparr>w_script := []\<rparr>))))"
proof (rule install_keeps_config [where env = disk_env and fs = disk_files])
  have "installations disk_env disk_target disk_files (w_files (disk_world (replicate 20 Works @ [Stops 0])))"
    by (simp add: disk_world_def installations.start)
  from installations.run [OF this disk_resolve]
  have "installations disk_env disk_target disk_files (w_files (stopped_world\<lparr>w_script := []\<rparr>))" by (simp add: stopped_world_def)
  from installations.run [OF this disk_resolve]
  show "installations disk_env disk_target disk_files (w_files (snd (install disk_env disk_options (stopped_world\<lparr>w_script := []\<rparr>))))" .
  show "cwd_rooted disk_env" by (simp add: cwd_rooted_def disk_env_def)
  show "plain_target disk_target" by (simp add: plain_target_def disk_target_def disk_binary_def byte_def)
qed (simp_all add: disk_state_laws recovered_def entry_exists_def disk_files_def disk_target_def swap_path_def)

lemma disk_removable:
  "\<exists>cleaned. removable disk_env disk_options disk_target [CHR ''P'', CHR 0x0A] [CHR ''A'', CHR 0x0A] ''ELF'' cleaned 6 disk_files"
  by (rule restorable_removable [OF disk_restorable])

theorem interrupted_uninstall_locks_witness:
  "\<exists>script v. uninstall disk_env disk_options ((disk_world script)\<lparr>w_files := installed_files disk_env disk_target [CHR ''P'', CHR 0x0A]
      [CHR ''A'', CHR 0x0A] ''ELF'' disk_files\<rparr>) = (Io_crash, v) \<and>
    fst (uninstall disk_env disk_options (v\<lparr>w_script := []\<rparr>)) = Io_error Backup_unrecoverable \<and>
    fst (install disk_env disk_options (v\<lparr>w_script := []\<rparr>)) = Io_error Backup_unrecoverable"
  using disk_removable interrupted_uninstall_locks [of disk_env disk_options disk_target "[CHR ''P'', CHR 0x0A]" "[CHR ''A'', CHR 0x0A]" "''ELF''" _ 6 disk_files
      "(disk_world [])\<lparr>w_files := installed_files disk_env disk_target [CHR ''P'', CHR 0x0A]
      [CHR ''A'', CHR 0x0A] ''ELF'' disk_files\<rparr>"]
  by (auto simp: disk_world_def)

end
