(* ===== verification/App_Props.thy ===== *)
theory App_Props
  imports App Replay_Props
begin

text \<open>
  What the operations of the application keep.  A run is a sequence of steps of the goroutines that share the
  application: deliveries, direct publications, the diff worker, the consumer of its results, the journal writer and
  refreshes of the project.
\<close>

section \<open>Runs\<close>

text \<open>The steps while a project stays open; \<open>P\<close> says which events are sent and on what file systems they
  are normalized.  The diff worker runs on its own between
  two steps of the application, where no offer is under way.\<close>

inductive app_step :: "'v app_env \<Rightarrow> (filesystem \<Rightarrow> event \<Rightarrow> bool) \<Rightarrow> 'v app \<Rightarrow> 'v app \<Rightarrow> bool" for env P where
  deliver: "P fs e \<Longrightarrow> app_step env P a (handle_event env fs refuse now a e)"
| publish: "P fs e \<Longrightarrow> app_step env P a (fst (publish_event env fs refuse a e))"
| worker: "pipeline_step (ap_diffs a) p \<Longrightarrow> pl_offering p = [] \<Longrightarrow> pl_dropping p = [] \<Longrightarrow>
    length (pl_results (ap_diffs a)) \<le> length (pl_results p) \<Longrightarrow> app_step env P a (a\<lparr>ap_diffs := p\<rparr>)"
| result: "pl_results (ap_diffs a) = res # rest \<Longrightarrow>
    app_step env P a (consume_result env now (a\<lparr>ap_diffs := (ap_diffs a)\<lparr>pl_results := rest\<rparr>\<rparr>) res)"
| journal: "app_step env P a (fst (journal_step faults now (a, db)))"
| refresh: "app_step env P a (fst (refresh_project env w a))"

inductive app_run :: "'v app_env \<Rightarrow> (filesystem \<Rightarrow> event \<Rightarrow> bool) \<Rightarrow> 'v app \<Rightarrow> 'v app \<Rightarrow> bool" for env P a where
  init: "app_run env P a a"
| step: "app_run env P a b \<Longrightarrow> app_step env P b c \<Longrightarrow> app_run env P a c"

section \<open>What the steps leave alone\<close>

lemma queue_journal_frame [simp]:
  "ap_root (queue_journal a e s) = ap_root a" "ap_identity (queue_journal a e s) = ap_identity a"
  "ap_snapshot (queue_journal a e s) = ap_snapshot a" "ap_focus (queue_journal a e s) = ap_focus a"
  "ap_diffs (queue_journal a e s) = ap_diffs a" "ap_current (queue_journal a e s) = ap_current a"
  "ap_queue (queue_journal a e s) = None \<longleftrightarrow> ap_queue a = None"
  by (simp_all add: queue_journal_def Let_def split: option.split)

text \<open>With a journal a record is kept in the history, or the status tells that one was lost.\<close>

lemma queue_journal_cases [consumes 1, case_names kept lost]:
  assumes "ap_queue a \<noteq> None"
  obtains (kept) "ap_recorded (queue_journal a e s) = ap_recorded a @ [\<lparr>jr_event = e, jr_state = s, jr_project_id = ap_root a\<rparr>]"
      "ap_journal_status (queue_journal a e s) = ap_journal_status a"
  | (lost) "ap_recorded (queue_journal a e s) = ap_recorded a" "ap_journal_status (queue_journal a e s) = status_degraded"
  using assms by (cases "length (the (ap_queue a)) < journal_capacity") (auto simp: queue_journal_def Let_def)

lemma submit_diff_frame:
  assumes "submit_diff refuse a e s = (b, r)"
  shows "ap_root b = ap_root a" "ap_identity b = ap_identity a" "ap_snapshot b = ap_snapshot a" "ap_queue b = ap_queue a"
    "ap_recorded b = ap_recorded a" "ap_journal_status b = ap_journal_status a" "ap_current b = ap_current a"
  using assms by (auto simp: submit_diff_def Let_def split: option.splits prod.splits if_splits sum.splits)

lemma journal_step_frame [simp]:
  "ap_root (fst (journal_step f n (a, db))) = ap_root a" "ap_identity (fst (journal_step f n (a, db))) = ap_identity a"
  "ap_snapshot (fst (journal_step f n (a, db))) = ap_snapshot a" "ap_focus (fst (journal_step f n (a, db))) = ap_focus a"
  "ap_diffs (fst (journal_step f n (a, db))) = ap_diffs a" "ap_recorded (fst (journal_step f n (a, db))) = ap_recorded a"
  "ap_queue (fst (journal_step f n (a, db))) = None \<longleftrightarrow> ap_queue a = None"
  by (simp_all add: journal_step_def split: option.split list.split prod.split)

lemma journal_step_status:
  "ap_journal_status (fst (journal_step f n (a, db))) = ap_journal_status a \<or>
   ap_journal_status (fst (journal_step f n (a, db))) = status_degraded"
  by (simp add: journal_step_def split: option.split list.split prod.split)

lemma refresh_project_frame [simp]:
  "ap_root (fst (refresh_project env w a)) = ap_root a" "ap_focus (fst (refresh_project env w a)) = ap_focus a"
  "ap_diffs (fst (refresh_project env w a)) = ap_diffs a" "ap_recorded (fst (refresh_project env w a)) = ap_recorded a"
  "ap_queue (fst (refresh_project env w a)) = ap_queue a" "ap_journal_status (fst (refresh_project env w a)) = ap_journal_status a"
  "ap_current (fst (refresh_project env w a)) = ap_current a"
  by (simp_all add: refresh_project_def Let_def split: option.split sum.split prod.split)

lemma normalize_event_keeps:
  "normalize_event fs e root = Inr e' \<Longrightarrow> session_id e' = session_id e \<and> event_type e' = event_type e \<and> timestamp e' = timestamp e"
  by (auto simp: normalize_event_def Let_def sanitize_event_def split: option.splits sum.splits if_splits)

lemma with_secondary_paths_keeps:
  "with_secondary_paths fs root e = Inr e' \<Longrightarrow> session_id e' = session_id e \<and> event_type e' = event_type e \<and> timestamp e' = timestamp e \<and>
     ev_path e' = ev_path e \<and> previous_path e' = previous_path e"
  by (auto simp: with_secondary_paths_def map_sum_def split: if_splits sum.splits)

text \<open>Publishing in cases: refused, with at most the identities changed, or accepted.\<close>

lemma publish_event_cases:
  obtains (refused) err r where "snd (publish_event env fs refuse a e0) = Inl err"
      "fst (publish_event env fs refuse a e0) = a\<lparr>ap_identity := r\<rparr>"
  | (accepted) e1 i r e E s0 b s where "normalize_event fs e0 (ap_root a) = Inr e1"
      "with_secondary_paths fs (ap_root a) (e1\<lparr>ev_node_id := i\<rparr>) = Inr e"
      "engine_apply (ap_focus a) e = (E, Inr s0)" "submit_diff refuse (a\<lparr>ap_identity := r, ap_focus := E\<rparr>) e s0 = (b, s)"
      "publish_event env fs refuse a e0 =
         ((queue_journal b e s)\<lparr>ap_current := focus_of_state env (queue_journal b e s) s\<rparr>, Inr (focus_of_state env (queue_journal b e s) s))"
proof (cases "ap_identity a = None \<or> ap_root a = []")
  case True
  then have "publish_event env fs refuse a e0 = (a, Inl No_project)" by (auto simp: publish_event_def split: option.split)
  then show thesis using refused [of _ "ap_identity a"] by simp
next
  case False
  then obtain r0 where loaded: "ap_identity a = Some r0" "ap_root a \<noteq> []" by auto
  show thesis
  proof (cases "normalize_event fs e0 (ap_root a)")
    case (Inl err)
    with loaded show thesis using refused [of _ "ap_identity a"] by (simp add: publish_event_def)
  next
    case (Inr e1)
    define r where "r = Some (apply_identity_lifecycle (ae_identity env) e1 r0)"
    define i where "i = (if ev_path e1 \<noteq> [] \<and> ev_node_id e1 = [] then node_id_for_path env (a\<lparr>ap_identity := r\<rparr>) (ev_path e1) else ev_node_id e1)"
    have e2: "(if ev_path e1 \<noteq> [] \<and> ev_node_id e1 = [] then e1\<lparr>ev_node_id := node_id_for_path env (a\<lparr>ap_identity := r\<rparr>) (ev_path e1)\<rparr> else e1) =
        e1\<lparr>ev_node_id := i\<rparr>" by (simp add: i_def)
    note def = publish_event_def [of env fs refuse a e0, unfolded loaded(1) option.case Inr sum.case Let_def, folded r_def, unfolded e2]
    show thesis
    proof (cases "with_secondary_paths fs (ap_root a) (e1\<lparr>ev_node_id := i\<rparr>)")
      case (Inl err)
      with loaded show thesis using refused [of _ r] by (simp add: def)
    next
      case sec: (Inr e)
      obtain E res where ap: "engine_apply (ap_focus a) e = (E, res)" by (cases "engine_apply (ap_focus a) e")
      show thesis
      proof (cases res)
        case (Inl err)
        with ap have "E = ap_focus a"
          by (auto simp: engine_apply_def put_session_def split: if_splits option.splits)
        with ap Inl loaded sec show thesis using refused [of _ r] by (simp add: def)
      next
        case s0: (Inr s0)
        obtain b s where sub: "submit_diff refuse (a\<lparr>ap_identity := r, ap_focus := E\<rparr>) e s0 = (b, s)"
          by (cases "submit_diff refuse (a\<lparr>ap_identity := r, ap_focus := E\<rparr>) e s0")
        with ap s0 loaded sec show thesis
          using accepted [OF Inr sec ap [unfolded s0] sub] by (simp add: def)
      qed
    qed
  qed
qed

section \<open>Sessions up to their work\<close>

text \<open>A state without the work fields of its accesses.\<close>

definition plain_interval :: "interval \<Rightarrow> interval" where
  "plain_interval iv = set_work None None [] [] (Conf_other []) iv"

definition plain :: "state \<Rightarrow> state" where
  "plain s = s\<lparr>st_intervals := map plain_interval (st_intervals s)\<rparr>"

lemma plain_interval_simps [simp]:
  "iv_sequence (plain_interval iv) = iv_sequence iv" "iv_path (plain_interval iv) = iv_path iv"
  "iv_operations (plain_interval iv) = iv_operations iv" "iv_started_at (plain_interval iv) = iv_started_at iv" "iv_ended_at (plain_interval iv) = iv_ended_at iv"
  "plain_interval (plain_interval iv) = plain_interval iv"
  "plain_interval (set_work a d st so c iv) = plain_interval iv" "plain_interval (merge_delta iv e) = plain_interval iv"
  by (simp_all add: plain_interval_def set_work_def merge_delta_def)

lemma plain_twice [simp]: "plain_interval \<circ> plain_interval = plain_interval"
  by auto

lemma plain_interval_upd:
  "plain_interval (iv\<lparr>iv_ended_at := x, iv_duration := d\<rparr>) = (plain_interval iv)\<lparr>iv_ended_at := x, iv_duration := d\<rparr>"
  "plain_interval (iv\<lparr>iv_path := p\<rparr>) = (plain_interval iv)\<lparr>iv_path := p\<rparr>"
  "plain_interval (iv\<lparr>iv_operations := os\<rparr>) = (plain_interval iv)\<lparr>iv_operations := os\<rparr>"
  by (simp_all add: plain_interval_def set_work_def)

lemma plain_state_fields [simp]:
  "st_intervals (plain s) = map plain_interval (st_intervals s)" "st_active_path (plain s) = st_active_path s"
  "st_current_timestamp (plain s) = st_current_timestamp s" "st_current_priority (plain s) = st_current_priority s"
  "st_stopped_at (plain s) = st_stopped_at s" "st_paused (plain s) = st_paused s" "st_session_id (plain s) = st_session_id s"
  "st_active_node_id (plain s) = st_active_node_id s" "plain (plain s) = plain s"
  by (simp_all add: plain_def o_def)

lemma plain_update [simp]:
  "plain (s\<lparr>st_stopped_at := x\<rparr>) = (plain s)\<lparr>st_stopped_at := x\<rparr>" "plain (s\<lparr>st_paused := b\<rparr>) = (plain s)\<lparr>st_paused := b\<rparr>"
  "plain (s\<lparr>st_active_path := p\<rparr>) = (plain s)\<lparr>st_active_path := p\<rparr>"
  "plain (set_active s e pr) = set_active (plain s) e pr"
  "plain (s\<lparr>st_intervals := ivs\<rparr>) = (plain s)\<lparr>st_intervals := map plain_interval ivs\<rparr>"
  by (simp_all add: plain_def set_active_def)

lemma plain_current: "current (plain s) = map_option plain_interval (current s)"
proof (cases rule: interval_cases [of s])
  case (some ivs c)
  then have "st_intervals (plain s) = map plain_interval ivs @ [plain_interval c]" by simp
  with some show ?thesis by (simp only: current_snoc option.map)
qed simp

lemma plain_set_current: "plain (set_current iv s) = set_current (plain_interval iv) (plain s)"
  by (simp add: set_current_def plain_def map_butlast)

lemma plain_close: "plain (close_current idle s at) = close_current idle (plain s) at"
  by (auto simp: close_current_def Let_def plain_current plain_set_current plain_interval_upd split: option.split)

lemma plain_rename: "plain (follow_rename s e) = follow_rename (plain s) e"
proof -
  have "current (r\<lparr>st_active_path := p\<rparr>) = current r" for p r by (simp add: current_def)
  then show ?thesis
    by (auto simp: follow_rename_def Let_def plain_current plain_set_current plain_interval_upd split: option.split)
qed

lemma plain_open: "plain_interval (open_interval (plain s) e) = plain_interval (open_interval s e)"
  "open_interval (set_active s f q) e = open_interval s e"
  by (simp_all add: open_interval_def)

lemma plain_switch: "plain (switch_focus idle s e p) = plain (switch_focus idle (plain s) e p)"
  unfolding switch_focus_def Let_def plain_close [symmetric]
  by (simp add: plain_def set_active_def) (simp add: open_interval_def)

lemma plain_continue: "plain (continue_focus s e p) = plain (continue_focus (plain s) e p)"
proof (cases rule: interval_cases [of s])
  case none
  then show ?thesis by (simp add: continue_focus_def Let_def plain_current plain_open)
next
  case (some ivs c)
  then show ?thesis
    by (simp add: continue_focus_def Let_def plain_current plain_open plain_set_current plain_interval_upd)
qed

lemma plain_apply: "plain (apply_session idle s e) = plain (apply_session idle (plain s) e)"
proof -
  have r: "follow_rename (plain s) e = plain (follow_rename s e)" by (simp add: plain_rename)
  show ?thesis
    unfolding apply_session_def Let_def r
    by (simp add: plain_close plain_switch [symmetric] plain_continue [symmetric] split: option.split)
qed

lemma plain_apply_cong: "plain s = plain r \<Longrightarrow> plain (apply_session idle s e) = plain (apply_session idle r e)"
  using plain_apply by metis


section \<open>Two engines that agree up to work\<close>

definition same_plain :: "engine \<Rightarrow> engine \<Rightarrow> bool" where
  "same_plain E F \<longleftrightarrow> idle_timeout E = idle_timeout F \<and> (\<forall>i. map_option plain (sessions E i) = map_option plain (sessions F i))"

lemma same_plain_refl [simp]: "same_plain E E"
  by (simp add: same_plain_def)

lemma same_plain_trans: "same_plain E F \<Longrightarrow> same_plain F G \<Longrightarrow> same_plain E G"
  by (simp add: same_plain_def)

lemma update_sequence_plain:
  "update_sequence n (set_work a d st so c) ivs = Some jvs \<Longrightarrow> map plain_interval jvs = map plain_interval ivs"
  by (auto dest!: update_sequence_spec intro!: map_list_update_id)

lemma set_work_cases:
  obtains (refused) err where "engine_set_work_result E i n a d st so c = (E, Inl err)"
  | (stored) s ivs where "sessions E i = Some s" "map plain_interval ivs = map plain_interval (st_intervals s)"
      "n \<in> iv_sequence ` set (st_intervals s)"
      "engine_set_work_result E i n a d st so c = (E\<lparr>sessions := (sessions E)(i \<mapsto> s\<lparr>st_intervals := ivs\<rparr>)\<rparr>, Inr (s\<lparr>st_intervals := ivs\<rparr>))"
proof (cases "sessions E i")
  case None
  then show thesis using refused by (simp add: engine_set_work_result_def)
next
  case (Some s)
  show thesis
  proof (cases "update_sequence n (set_work a d st so c) (st_intervals s)")
    case None
    with Some show thesis using refused by (simp add: engine_set_work_result_def)
  next
    case ivs: (Some ivs)
    then have "n \<in> iv_sequence ` set (st_intervals s)" using update_sequence_None by (metis option.distinct(1))
    with Some ivs update_sequence_plain [OF ivs] show thesis
      using stored by (simp add: engine_set_work_result_def put_session_def)
  qed
qed

lemma plain_intervals: "map plain_interval ivs = map plain_interval (st_intervals s) \<Longrightarrow> plain (s\<lparr>st_intervals := ivs\<rparr>) = plain s"
  by (simp add: plain_def)

lemma set_work_plain: "same_plain (fst (engine_set_work_result E i n a d st so c)) E"
  by (cases rule: set_work_cases [of E i n a d st so c]) (auto simp: same_plain_def plain_intervals)

lemma set_work_accepts:
  assumes "sessions E i = Some s" and "n \<in> iv_sequence ` set (st_intervals s)"
  obtains ivs where "map plain_interval ivs = map plain_interval (st_intervals s)"
    "engine_set_work_result E i n a d st so c = (E\<lparr>sessions := (sessions E)(i \<mapsto> s\<lparr>st_intervals := ivs\<rparr>)\<rparr>, Inr (s\<lparr>st_intervals := ivs\<rparr>))"
proof (cases "update_sequence n (set_work a d st so c) (st_intervals s)")
  case None
  with assms(2) show thesis by (simp add: update_sequence_None)
next
  case (Some ivs)
  with assms(1) update_sequence_plain [OF Some] show thesis using that by (simp add: engine_set_work_result_def put_session_def)
qed

lemma set_work_state:
  assumes "engine_set_work_result E i n a d st so c = (E', Inr s)"
  shows "sessions E' i = Some s \<and> (\<exists>r. sessions E i = Some r \<and> plain s = plain r \<and> n \<in> iv_sequence ` set (st_intervals r))"
  by (cases rule: set_work_cases [of E i n a d st so c]) (use assms in \<open>auto simp: plain_intervals\<close>)


lemma apply_cases:
  obtains (refused) err where "engine_apply E e = (E, Inl err)"
  | (started) "sessions E (session_id e) = None" "event_type e = Session_started"
      "engine_apply E e = (E\<lparr>sessions := (sessions E)(session_id e \<mapsto> start_session e)\<rparr>, Inr (start_session e))"
  | (known) s where "sessions E (session_id e) = Some s" "event_type e = Session_started" "engine_apply E e = (E, Inr s)"
  | (applied) s where "sessions E (session_id e) = Some s"
      "engine_apply E e = (E\<lparr>sessions := (sessions E)(session_id e \<mapsto> apply_session (idle_timeout E) s e)\<rparr>,
         Inr (apply_session (idle_timeout E) s e))"
  by (cases "session_id e = []"; cases "sessions E (session_id e)"; cases "event_type e = Session_started")
    (simp_all add: engine_apply_def put_session_def)

text \<open>The event that was applied live is applied in the replay, to a session that agrees.\<close>

lemma apply_same:
  assumes "engine_apply E e = (E', Inr s)" and "map_option plain (sessions F (session_id e)) = map_option plain (sessions E (session_id e))"
    and "idle_timeout F = idle_timeout E"
  shows "\<exists>F' r. engine_apply F e = (F', Inr r) \<and> sessions F' (session_id e) = Some r \<and> plain r = plain s \<and> idle_timeout F' = idle_timeout F"
proof -
  have named: "session_id e \<noteq> []" using assms(1) by (auto simp: engine_apply_def)
  note def = engine_apply_def [of F e, unfolded put_session_def]
  show ?thesis
  proof (cases rule: apply_cases [of E e])
    case started
    with assms named show ?thesis by (simp add: def)
  next
    case (known r)
    with assms(2) obtain q where "sessions F (session_id e) = Some q" "plain q = plain r" by auto
    with known assms named show ?thesis by (simp add: def)
  next
    case (applied r)
    with assms(2) obtain q where q: "sessions F (session_id e) = Some q" "plain q = plain r" by auto
    show ?thesis
    proof (cases "event_type e = Session_started")
      case True
      with applied assms(1) named have "s = r" by (auto simp: engine_apply_def)
      with q True named show ?thesis by (simp add: def)
    next
      case False
      with applied q assms named show ?thesis using plain_apply_cong [OF q(2)] by (auto simp: def)
    qed
  qed (use assms(1) in simp)
qed

lemma apply_state:
  assumes "engine_apply E e = (E', Inr s)"
  shows "sessions E' (session_id e) = Some s" "\<And>i. i \<noteq> session_id e \<Longrightarrow> sessions E' i = sessions E i" "idle_timeout E' = idle_timeout E"
  by (cases rule: apply_cases [of E e]; use assms in auto)+

text \<open>Submitting a diff changes work fields only.\<close>

lemma submit_diff_plain:
  assumes "submit_diff refuse a e s = (b, r)" and "sessions (ap_focus a) (session_id e) = Some s"
  shows "same_plain (ap_focus b) (ap_focus a)" "sessions (ap_focus b) (session_id e) = Some r" "plain r = plain s"
proof -
  have work: "same_plain E (ap_focus a)" if "engine_set_work_result (ap_focus a) i n ad d st so c = (E, x)" for E i n ad d st so c x
    using set_work_plain [of "ap_focus a" i n ad d st so c] that by simp
  have state: "sessions E (session_id e) = Some q \<and> plain q = plain s"
    if "engine_set_work_result (ap_focus a) (session_id e) n ad d st so c = (E, Inr q)" for E n ad d st so c q
    using set_work_state [OF that] assms(2) by auto
  have fail: "E = ap_focus a" if "engine_set_work_result (ap_focus a) i n ad d st so c = (E, Inl x)" for E i n ad d st so c x
    using that by (cases rule: set_work_cases [of "ap_focus a" i n ad d st so c]) auto
  have "same_plain (ap_focus b) (ap_focus a) \<and> sessions (ap_focus b) (session_id e) = Some r \<and> plain r = plain s"
    using assms unfolding submit_diff_def Let_def
    by (auto split: option.splits prod.splits if_splits sum.splits dest: work state fail)
  then show "same_plain (ap_focus b) (ap_focus a)" "sessions (ap_focus b) (session_id e) = Some r" "plain r = plain s" by blast+
qed

end
