(* ===== verification/App_Replay.thy ===== *)
theory App_Replay
  imports App_Props
begin

text \<open>
  The application and its journal agree: as long as the journal reports that it is ready, the recorded events of a
  session replay to the session that is shown live.
\<close>

section \<open>The engine of the application is live\<close>

lemma live_apply: "live_run idle E \<Longrightarrow> engine_apply E e = (E', x) \<Longrightarrow> live_run idle E'"
  using live_run.apply_step [of idle E e E'] by (simp add: engine_step_fst)

lemma live_set_work: "live_run idle E \<Longrightarrow> engine_set_work_result E i n a d st so c = (E', x) \<Longrightarrow> live_run idle E'"
  using live_run.work_step [of idle E i n a d st so c E'] by (simp add: engine_step_fst)

lemma live_submit:
  "live_run idle (ap_focus a) \<Longrightarrow> submit_diff refuse a e s = (b, r) \<Longrightarrow> live_run idle (ap_focus b)"
  by (auto simp: submit_diff_def Let_def dest: live_set_work split: option.splits prod.splits if_splits sum.splits)

lemma live_sequence:
  assumes "live_run idle E" and "idle \<le> int64_max" and "sessions E i = Some s" and "n \<in> iv_sequence ` set (st_intervals s)"
  shows "1 \<le> n"
proof -
  have "map iv_sequence (st_intervals s) = map int [1..<Suc (length (st_intervals s))]"
    using wf_engineD [OF reachable_wf [OF live_run_reachable [OF assms(1)] assms(2)] assms(3)]
    by (simp add: ok_state_def wf_state_def wf_intervals_def)
  then have "iv_sequence ` set (st_intervals s) = int ` {1..<Suc (length (st_intervals s))}" by (metis list.set_map set_upt)
  with assms(4) show ?thesis by auto
qed

section \<open>The recorded events of a session\<close>

definition records_of :: "'v app \<Rightarrow> string \<Rightarrow> event list" where
  "records_of a i = filter (\<lambda>e. session_id e = i) (map jr_event (ap_recorded a))"

definition replays_to :: "event list \<Rightarrow> string \<Rightarrow> state \<Rightarrow> bool" where
  "replays_to es i s \<longleftrightarrow> es \<noteq> [] \<and> (\<exists>E r at. replay_steps (new_engine app_timeout) zero_state 0 es = Inr (E, r, at) \<and>
     sessions E i = Some r \<and> idle_timeout E = app_timeout \<and> plain r = plain s)"

definition shown_by :: "event list \<Rightarrow> string \<Rightarrow> state option \<Rightarrow> bool" where
  "shown_by es i live = (case live of None \<Rightarrow> es = [] | Some s \<Rightarrow> replays_to es i s)"

definition mirrored :: "'v app \<Rightarrow> bool" where
  "mirrored a \<longleftrightarrow> (\<forall>i. shown_by (records_of a i) i (sessions (ap_focus a) i))"

lemma replays_to_same: "plain s = plain r \<Longrightarrow> replays_to es i s \<Longrightarrow> replays_to es i r"
  by (simp add: replays_to_def)

lemma shown_by_same: "map_option plain x = map_option plain y \<Longrightarrow> shown_by es i x \<Longrightarrow> shown_by es i y"
  by (cases x; cases y) (auto simp: shown_by_def intro: replays_to_same)

lemma mirrored_frame:
  assumes "mirrored a" and "same_plain (ap_focus b) (ap_focus a)" and "ap_recorded b = ap_recorded a"
  shows "mirrored b"
proof -
  have "map_option plain (sessions (ap_focus a) i) = map_option plain (sessions (ap_focus b) i)" for i
    using assms(2) by (simp add: same_plain_def)
  moreover have "records_of b i = records_of a i" for i using assms(3) by (simp add: records_of_def)
  ultimately show ?thesis using assms(1) unfolding mirrored_def by (metis shown_by_same)
qed

lemma replays_to_event:
  assumes "replays_to es i s" and "\<And>E r. sessions E i = Some r \<Longrightarrow> idle_timeout E = app_timeout \<Longrightarrow> plain r = plain s \<Longrightarrow>
      \<exists>E' q. replay_event E e = (E', Inr q) \<and> sessions E' i = Some q \<and> idle_timeout E' = app_timeout \<and> plain q = plain t"
  shows "replays_to (es @ [e]) i t"
proof -
  from assms(1) obtain E r at where run: "replay_steps (new_engine app_timeout) zero_state 0 es = Inr (E, r, at)"
    "sessions E i = Some r" "idle_timeout E = app_timeout" "plain r = plain s" by (auto simp: replays_to_def)
  from assms(2) [OF run(2-4)] run(1) show ?thesis
    by (auto simp: replays_to_def replay_steps_append Let_def)
qed

lemma new_engine_app [simp]: "idle_timeout (new_engine app_timeout) = app_timeout" "sessions (new_engine app_timeout) i = None"
  by (simp_all add: new_engine_def app_timeout_def)

lemma mirrored_applied:
  assumes "mirrored a" and "idle_timeout (ap_focus a) = app_timeout" and "engine_apply (ap_focus a) e = (E, Inr s)"
    and "event_type e \<noteq> Diff_calculated" and "same_plain (ap_focus b) E" and "ap_recorded b = ap_recorded a @ [x]" and "jr_event x = e"
  shows "mirrored b"
  unfolding mirrored_def
proof (rule allI)
  fix i
  note st = apply_state [OF assms(3)]
  have plainb: "map_option plain (sessions (ap_focus b) i) = map_option plain (sessions E i)"
    using assms(5) by (simp add: same_plain_def)
  have old: "shown_by (records_of a i) i (sessions (ap_focus a) i)" using assms(1) by (simp add: mirrored_def)
  show "shown_by (records_of b i) i (sessions (ap_focus b) i)"
  proof (cases "i = session_id e")
    case False
    then have "records_of b i = records_of a i" using assms(6,7) by (simp add: records_of_def)
    moreover have "map_option plain (sessions (ap_focus a) i) = map_option plain (sessions (ap_focus b) i)"
      using plainb st(2) [OF False] by simp
    ultimately show ?thesis using old by (metis shown_by_same)
  next
    case True
    have rec: "records_of b i = records_of a i @ [e]" using assms(6,7) True by (simp add: records_of_def)
    obtain q where q: "sessions (ap_focus b) i = Some q" "plain q = plain s" using plainb st(1) True by auto
    have step: "\<exists>F' r. replay_event F e = (F', Inr r) \<and> sessions F' i = Some r \<and> idle_timeout F' = app_timeout \<and> plain r = plain q"
      if "map_option plain (sessions F i) = map_option plain (sessions (ap_focus a) i)" "idle_timeout F = app_timeout" for F
      using apply_same [OF assms(3), of F] that assms(2,4) True q(2) by (auto simp: replay_event_def)
    have "replays_to (records_of a i @ [e]) i q"
    proof (cases "sessions (ap_focus a) i")
      case None
      with old have "records_of a i = []" by (simp add: shown_by_def)
      moreover obtain F' r where "replay_event (new_engine app_timeout) e = (F', Inr r)" "sessions F' i = Some r"
        "idle_timeout F' = app_timeout" "plain r = plain q"
        using step [of "new_engine app_timeout"] None by auto
      ultimately show ?thesis by (auto simp: replays_to_def Let_def)
    next
      case (Some p)
      with old have "replays_to (records_of a i) i p" by (simp add: shown_by_def)
      then show ?thesis by (rule replays_to_event) (rule step, use Some in simp_all)
    qed
    with q(1) rec show ?thesis by (simp add: shown_by_def)
  qed
qed

lemma mirrored_result:
  assumes "mirrored a" and "engine_set_work_result (ap_focus a) (rs_session_id res) (rs_sequence res) ad d st so c = (E, Inr s)"
    and "1 \<le> rs_sequence res" and "ap_focus b = E" and "ap_recorded b = ap_recorded a @ [x]" and "jr_event x = diff_event now res"
  shows "mirrored b"
  unfolding mirrored_def
proof (rule allI)
  fix i
  let ?e = "diff_event now res" and ?n = "rs_sequence res"
  have id: "session_id ?e = rs_session_id res" and ty: "event_type ?e = Diff_calculated"
    and md: "metadata_int (ev_metadata ?e) ''access_sequence'' = Some ?n"
    by (simp_all add: diff_event_def metadata_int_def)
  from set_work_state [OF assms(2)] obtain p where p: "sessions E (rs_session_id res) = Some s"
    "sessions (ap_focus a) (rs_session_id res) = Some p" "plain s = plain p" "?n \<in> iv_sequence ` set (st_intervals p)" by auto
  have same: "map_option plain (sessions E i) = map_option plain (sessions (ap_focus a) i)"
    using set_work_plain [of "ap_focus a" "rs_session_id res" ?n ad d st so c] assms(2) by (simp add: same_plain_def)
  have old: "shown_by (records_of a i) i (sessions (ap_focus a) i)" using assms(1) by (simp add: mirrored_def)
  show "shown_by (records_of b i) i (sessions (ap_focus b) i)"
  proof (cases "i = rs_session_id res")
    case False
    then have "records_of b i = records_of a i" using assms(5,6) id by (simp add: records_of_def)
    with old assms(4) show ?thesis using shown_by_same [OF same [symmetric]] by simp
  next
    case True
    have rec: "records_of b i = records_of a i @ [?e]" using assms(5,6) True id by (simp add: records_of_def)
    have "replays_to (records_of a i @ [?e]) i s"
    proof (rule replays_to_event)
      show "replays_to (records_of a i) i p" using old p(2) True by (simp add: shown_by_def)
      fix F :: engine and r assume F: "sessions F i = Some r" "idle_timeout F = app_timeout" "plain r = plain p"
      have "st_intervals (plain r) = st_intervals (plain p)" using F(3) by simp
      then have "map iv_sequence (st_intervals r) = map iv_sequence (st_intervals p)"
        by (metis (no_types, lifting) plain_state_fields(1) map_map map_cong o_apply plain_interval_simps(1))
      then have seq: "?n \<in> iv_sequence ` set (st_intervals r)" using p(4) by (metis list.set_map)
      define t where "t = engine_set_work_result F (session_id ?e) ?n (lines_added ?e) (lines_deleted ?e)
          (if ev_status ?e = [] then ''unknown'' else ev_status ?e) (if ev_operation ?e = [] then ''unknown'' else ev_operation ?e)
          (source_confidence ?e)"
      have ev: "replay_event F ?e = apsnd (map_sum Engine_failure id) t"
        using ty md assms(3) by (simp add: replay_event_def apply_diff_def t_def Let_def)
      obtain ivs where "t = (F\<lparr>sessions := (sessions F)(i \<mapsto> r\<lparr>st_intervals := ivs\<rparr>)\<rparr>, Inr (r\<lparr>st_intervals := ivs\<rparr>))"
        "map plain_interval ivs = map plain_interval (st_intervals r)"
        using set_work_accepts [OF F(1) seq] id True unfolding t_def by metis
      moreover have "plain (r\<lparr>st_intervals := ivs\<rparr>) = plain s" if "map plain_interval ivs = map plain_interval (st_intervals r)" for ivs
        using plain_intervals [OF that] F(3) p(3) by metis
      ultimately show "\<exists>E' q. replay_event F ?e = (E', Inr q) \<and> sessions E' i = Some q \<and> idle_timeout E' = app_timeout \<and> plain q = plain s"
        using ev F(2) by (intro exI [of _ "fst t"] exI [of _ "r\<lparr>st_intervals := ivs\<rparr>"]) simp
    qed
    with p(1) rec assms(4) True show ?thesis by (simp add: shown_by_def)
  qed
qed


section \<open>Runs keep the agreement\<close>

definition agrees_with_journal :: "'v app \<Rightarrow> bool" where
  "agrees_with_journal a \<longleftrightarrow> live_run app_timeout (ap_focus a) \<and> ap_queue a \<noteq> None \<and>
     (ap_journal_status a = status_ready \<longrightarrow> mirrored a)"

lemma app_timeout_bounds: "0 < app_timeout" "app_timeout \<le> int64_max"
  by (simp_all add: app_timeout_def)

lemma live_timeout: "live_run app_timeout E \<Longrightarrow> idle_timeout E = app_timeout"
proof (induction rule: live_run.induct)
  case (apply_step E e E')
  then show ?case by (cases rule: apply_cases [of E e]) (simp_all add: engine_step_fst)
next
  case (work_step E i n a d st so c E')
  then show ?case by (cases rule: set_work_cases [of E i n a d st so c]) (simp_all add: engine_step_fst)
qed simp

lemma agrees_frame:
  assumes "agrees_with_journal a" and "ap_focus b = ap_focus a" and "ap_recorded b = ap_recorded a"
    and "ap_queue b = None \<longleftrightarrow> ap_queue a = None"
    and "ap_journal_status b = ap_journal_status a \<or> ap_journal_status b = status_degraded"
  shows "agrees_with_journal b"
  using assms mirrored_frame [of a b] by (auto simp: agrees_with_journal_def)

lemma agrees_recorded:
  assumes "agrees_with_journal a" and "live_run app_timeout (ap_focus b)" and "ap_queue b \<noteq> None"
    and "ap_journal_status b = ap_journal_status a" and "ap_recorded b = ap_recorded a" and "ap_focus c = ap_focus b"
    and "ap_queue c = ap_queue (queue_journal b e s)" and "ap_recorded c = ap_recorded (queue_journal b e s)"
    and "ap_journal_status c = ap_journal_status (queue_journal b e s)"
    and "\<And>x. mirrored a \<Longrightarrow> ap_recorded c = ap_recorded a @ [x] \<Longrightarrow> jr_event x = e \<Longrightarrow> mirrored c"
  shows "agrees_with_journal c"
  using assms(3)
proof (cases rule: queue_journal_cases [where e = e and s = s])
  case kept
  have "mirrored c" if "mirrored a"
    by (rule assms(10) [OF that, of "\<lparr>jr_event = e, jr_state = s, jr_project_id = ap_root b\<rparr>"]) (simp_all add: assms(5,8) kept(1))
  with assms(1-4,6,7,9) kept(2) show ?thesis by (simp add: agrees_with_journal_def)
next
  case lost
  with assms(2,3,6,7,9) show ?thesis by (simp add: agrees_with_journal_def)
qed

lemma agrees_publish:
  assumes "agrees_with_journal a" and "event_type e0 \<noteq> Diff_calculated"
  shows "agrees_with_journal (fst (publish_event env fs refuse a e0))"
proof (cases rule: publish_event_cases [of env fs refuse a e0])
  case (refused err r)
  show ?thesis unfolding refused(2) using assms(1) by (rule agrees_frame) simp_all
next
  case (accepted e1 i r e E s0 b s)
  note live = assms(1) [unfolded agrees_with_journal_def, THEN conjunct1]
  note fr = submit_diff_frame [OF accepted(4)] and st = apply_state [OF accepted(3)]
  have ty: "event_type e \<noteq> Diff_calculated"
    using normalize_event_keeps [OF accepted(1)] with_secondary_paths_keeps [OF accepted(2)] assms(2) by simp
  have live': "live_run app_timeout (ap_focus b)"
    using live_submit [OF _ accepted(4)] live_apply [OF live accepted(3)] by simp
  have same: "same_plain (ap_focus b) E" using submit_diff_plain(1) [OF accepted(4)] st(1) by simp
  have queue: "ap_queue b \<noteq> None" using assms(1) fr(4) by (simp add: agrees_with_journal_def)
  have mirror: "mirrored c" if "mirrored a" "ap_recorded c = ap_recorded a @ [x]" "jr_event x = e" "ap_focus c = ap_focus b" for c :: "'a app" and x
    by (rule mirrored_applied [OF that(1) live_timeout [OF live] accepted(3) ty _ that(2,3)]) (simp only: that(4) same)
  show ?thesis
    unfolding accepted(5) fst_conv
    by (rule agrees_recorded [of a b _ e s, OF assms(1) live' queue]) (use fr in \<open>simp_all add: mirror\<close>)
qed

lemma agrees_consume:
  assumes "agrees_with_journal a"
  shows "agrees_with_journal (consume_result env now a res)"
proof -
  note live = assms [unfolded agrees_with_journal_def, THEN conjunct1]
  obtain E x where w: "engine_set_work_result (ap_focus a) (rs_session_id res) (rs_sequence res) (rs_added res) (rs_deleted res)
      (rs_status res) (rs_source res) (rs_confidence res) = (E, x)"
    by (cases "engine_set_work_result (ap_focus a) (rs_session_id res) (rs_sequence res) (rs_added res) (rs_deleted res)
      (rs_status res) (rs_source res) (rs_confidence res)")
  show ?thesis
  proof (cases x)
    case (Inl err)
    with w have "E = ap_focus a"
      by (cases rule: set_work_cases [of "ap_focus a" "rs_session_id res" "rs_sequence res" "rs_added res" "rs_deleted res"
            "rs_status res" "rs_source res" "rs_confidence res"]) auto
    with w Inl assms show ?thesis by (simp add: consume_result_def)
  next
    case (Inr s)
    let ?b = "(a\<lparr>ap_focus := E\<rparr>)\<lparr>ap_current := focus_of_state env (a\<lparr>ap_focus := E\<rparr>) s\<rparr>"
    have "1 \<le> rs_sequence res"
      using set_work_state [OF w [unfolded Inr]] live_sequence [OF live app_timeout_bounds(2)] by blast
    note mirror = mirrored_result [OF _ w [unfolded Inr] this]
    have "agrees_with_journal (queue_journal ?b (diff_event now res) s)"
    proof (rule agrees_recorded [of a ?b _ "diff_event now res" s, OF assms])
      show "live_run app_timeout (ap_focus ?b)" using live_set_work [OF live w] by simp
      show "ap_queue ?b \<noteq> None" using assms by (simp add: agrees_with_journal_def)
      fix x
      assume "mirrored a" "ap_recorded (queue_journal ?b (diff_event now res) s) = ap_recorded a @ [x]" "jr_event x = diff_event now res"
      from mirror [OF this(1) _ this(2,3)] show "mirrored (queue_journal ?b (diff_event now res) s)" by simp
    qed simp_all
    then show ?thesis using w Inr by (simp add: consume_result_def Let_def)
  qed
qed

lemma agrees_step:
  assumes "app_step env P a b" and "agrees_with_journal a" and "\<And>fs e. P fs e \<Longrightarrow> event_type e \<noteq> Diff_calculated"
  shows "agrees_with_journal b"
  using assms(1)
proof cases
  case (deliver fs e refuse now)
  have "agrees_with_journal (a\<lparr>ap_dedupe := d\<rparr>)" for d using assms(2) by (rule agrees_frame) simp_all
  then have "agrees_with_journal (a\<lparr>ap_dedupe := d\<rparr>) \<and> agrees_with_journal (fst (publish_event env fs refuse (a\<lparr>ap_dedupe := d\<rparr>) e))" for d
    using agrees_publish assms(3) deliver(2) by blast
  then show ?thesis unfolding deliver(1) handle_event_def Let_def by (simp split: prod.split)
next
  case (publish fs e refuse)
  with assms(3) show ?thesis using agrees_publish [OF assms(2)] by blast
next
  case (worker p)
  from assms(2) show ?thesis unfolding worker(1) by (rule agrees_frame) simp_all
next
  case (result res rest now)
  have "agrees_with_journal (a\<lparr>ap_diffs := p\<rparr>)" for p using assms(2) by (rule agrees_frame) simp_all
  then show ?thesis unfolding result(1) by (rule agrees_consume)
next
  case (journal faults now db)
  from assms(2) show ?thesis
    unfolding journal(1) by (rule agrees_frame) (simp_all add: journal_step_status)
next
  case (refresh w)
  from assms(2) show ?thesis unfolding refresh(1) by (rule agrees_frame) simp_all
qed

text \<open>C21: what is shown live is what is replayed, for events that come in order.  After any run of a freshly opened project in which
  no adapter sent a diff result, while the journal reports that it is ready, the recorded events of a session replay to the session
  that is shown live, up to the line counts of its accesses, which arrive later; its last access is closed at the last event.
  The recorded events of the session must be valid, in the order of their time and without repeated identifiers: an event that
  comes late is replayed differently (\<open>late_event_replays_differently\<close>), and a diff result of an adapter keeps the replay from
  starting (\<open>adapter_diff_event_blocks_replay\<close>).\<close>

theorem shown_live_is_replayed:
  assumes "app_run env P a0 a" and "\<And>fs e. P fs e \<Longrightarrow> event_type e \<noteq> Diff_calculated"
    and "ap_focus a0 = new_engine app_timeout" and "ap_recorded a0 = []" and "ap_queue a0 \<noteq> None"
    and "ap_journal_status a = status_ready" and "sessions (ap_focus a) i = Some s"
    and "canonical_events (records_of a i) = records_of a i" and "\<forall>e \<in> set (records_of a i). validate e = None"
  shows "\<exists>sn. reconstruct (records_of a i) (int (length (records_of a i))) app_timeout = Inr sn \<and>
    plain (sn_state sn) = plain (if st_stopped_at s = None \<and> sn_cursor_at sn \<noteq> 0
      then (close_current app_timeout s (sn_cursor_at sn))\<lparr>st_paused := True\<rparr> else s)"
proof -
  have "agrees_with_journal a0"
    using assms(3-5) by (simp add: agrees_with_journal_def live_run.init mirrored_def shown_by_def records_of_def)
  with assms(1) have "agrees_with_journal a"
  proof (induction rule: app_run.induct)
    case (step b c)
    with assms(2) show ?case by (intro agrees_step [of env P b c]) blast+
  qed
  then have "replays_to (records_of a i) i s"
    using assms(6,7) by (auto simp: agrees_with_journal_def mirrored_def shown_by_def split: option.splits dest: spec [of _ i])
  then obtain E r at where run: "records_of a i \<noteq> []" "replay_steps (new_engine app_timeout) zero_state 0 (records_of a i) = Inr (E, r, at)"
    "sessions E i = Some r" "idle_timeout E = app_timeout" "plain r = plain s" by (auto simp: replays_to_def)
  let ?es = "records_of a i"
  have stop: "st_stopped_at r = st_stopped_at s" using arg_cong [OF run(5), of st_stopped_at] by simp
  have "plain (if st_stopped_at r = None \<and> at \<noteq> 0 then (close_current app_timeout r at)\<lparr>st_paused := True\<rparr> else r) =
      plain (if st_stopped_at s = None \<and> at \<noteq> 0 then (close_current app_timeout s at)\<lparr>st_paused := True\<rparr> else s)"
  proof -
    have "plain ((close_current app_timeout r at)\<lparr>st_paused := True\<rparr>) = plain ((close_current app_timeout s at)\<lparr>st_paused := True\<rparr>)"
      by (simp add: plain_close run(5))
    then show ?thesis by (simp only: stop if_distrib [of plain] run(5))
  qed
  moreover have "reconstruct ?es (int (length ?es)) app_timeout = Inr \<lparr>sn_state = (if st_stopped_at r = None \<and> at \<noteq> 0
      then (close_current app_timeout r at)\<lparr>st_paused := True\<rparr> else r), sn_cursor = int (length ?es) - 1, sn_cursor_at = at,
      sn_event_count = int (length ?es)\<rparr>"
    using reconstruct_steps [OF assms(9), of "int (length ?es)" app_timeout] assms(8) run(1,2,4) app_timeout_bounds(2) by simp
  ultimately show ?thesis by (intro exI conjI) (assumption, simp only: snapshot.simps)
qed


section \<open>An example run\<close>

definition demo_app_env :: "unit app_env" where
  "demo_app_env = \<lparr>ae_identity = demo_env, ae_geometry = unit_geometry, ae_lower = to_lower, ae_windows = False\<rparr>"

text \<open>The project \<^verbatim>\<open>/p\<close>, just opened, with a journal.\<close>

definition demo_app :: "unit app" where
  "demo_app = new_app\<lparr>ap_root := ''/p'', ap_identity := Some (new_registry ''/p'' False), ap_queue := Some [],
     ap_journal_status := status_ready\<rparr>"

definition demo_start :: event where
  "demo_start = zero_event\<lparr>schema_version := ''1.0'', event_id := ''e0'', session_id := ''s'', source_type := Source_wrapper,
     source_confidence := Conf_exact, event_type := Session_started, timestamp := 3\<rparr>"

definition demo_read :: event where
  "demo_read = sample_read\<lparr>session_id := ''s''\<rparr>"

definition demo_read_normal :: event where
  "demo_read_normal = demo_read\<lparr>project_root := ''/p'', ev_path := ''l''\<rparr>"

lemma demo_normalized: "normalize_event demo_fs demo_start ''/p'' = Inr demo_start"
  "normalize_event demo_fs demo_read ''/p'' = Inr demo_read_normal"
proof -
  have l: "label [] n = []" for n by (simp add: label_Nil)
  have "validate demo_start = None" "validate demo_read = None" by code_simp+
  moreover have "normalize_project_path demo_fs ''/p'' ''./d/../l'' = Inr ''l''" by code_simp
  moreover have "path_abs demo_fs ''/p'' = Some ''/p''" by code_simp
  ultimately show "normalize_event demo_fs demo_start ''/p'' = Inr demo_start"
    "normalize_event demo_fs demo_read ''/p'' = Inr demo_read_normal"
    by (simp_all add: normalize_event_def sanitize_event_def l Let_def secondary_strings_def sanitize_metadata_def
        List.map_filter_simps normalize_optional_def demo_start_def demo_read_def demo_read_normal_def sample_read_def zero_event_def)
qed

definition demo_started :: state where "demo_started = start_session demo_start"
definition demo_reading :: state where "demo_reading = apply_session app_timeout demo_started demo_read_normal"

lemma publish_read:
  fixes refuse :: bool
  assumes "ap_identity a = Some r0" and "ap_root a \<noteq> []" and "normalize_event fs e0 (ap_root a) = Inr e" and "ev_metadata e = []"
    and "ev_path e = [] \<or> node_id_for_path env (a\<lparr>ap_identity := Some (apply_identity_lifecycle (ae_identity env) e r0)\<rparr>) (ev_path e) = ev_node_id e"
    and "\<not> work_event (event_type e)" and "engine_apply (ap_focus a) e = (E, Inr s)" and "ap_queue a = Some q" and "length q < journal_capacity"
  defines "x \<equiv> \<lparr>jr_event = e, jr_state = s, jr_project_id = ap_root a\<rparr>" and "b \<equiv> fst (publish_event env fs refuse a e0)"
  shows "ap_focus b = E" and "ap_recorded b = ap_recorded a @ [x]" and "ap_queue b = Some (q @ [x])"
    and "ap_journal_status b = ap_journal_status a" and "ap_root b = ap_root a" and "ap_snapshot b = ap_snapshot a"
    and "ap_identity b = Some (apply_identity_lifecycle (ae_identity env) e r0)" and "ap_diffs b = ap_diffs a"
proof -
  let ?r = "Some (apply_identity_lifecycle (ae_identity env) e r0)"
  have e2: "(if ev_path e \<noteq> [] \<and> ev_node_id e = [] then e\<lparr>ev_node_id := node_id_for_path env (a\<lparr>ap_identity := ?r\<rparr>) (ev_path e)\<rparr> else e) = e"
    using assms(5) by auto
  have "submit_diff refuse (a\<lparr>ap_identity := ?r, ap_focus := E\<rparr>) e s = (a\<lparr>ap_identity := ?r, ap_focus := E\<rparr>, s)"
    using assms(6) by (simp add: submit_diff_def diff_interval_def)
  moreover have "with_secondary_paths fs (ap_root a) e = Inr e" using assms(4) by (simp add: with_secondary_paths_def)
  ultimately have "b = (queue_journal (a\<lparr>ap_identity := ?r, ap_focus := E\<rparr>) e s)\<lparr>ap_current :=
      focus_of_state env (queue_journal (a\<lparr>ap_identity := ?r, ap_focus := E\<rparr>) e s) s\<rparr>"
    using assms(2,7) unfolding b_def publish_event_def assms(1,3) option.case sum.case Let_def e2 by simp
  then show "ap_focus b = E" "ap_recorded b = ap_recorded a @ [x]" "ap_queue b = Some (q @ [x])"
    "ap_journal_status b = ap_journal_status a" "ap_root b = ap_root a" "ap_snapshot b = ap_snapshot a" "ap_identity b = ?r"
    "ap_diffs b = ap_diffs a"
    using assms(8,9) by (simp_all add: queue_journal_def x_def Let_def)
qed

lemma demo_fields: "ap_identity demo_app = Some (new_registry ''/p'' False)" "ap_root demo_app = ''/p''" "ap_queue demo_app = Some []"
  "ap_journal_status demo_app = status_ready" "ap_snapshot demo_app = empty_snapshot" "ap_focus demo_app = new_engine app_timeout"
  "ap_recorded demo_app = []" "ap_diffs demo_app = new_pipeline 64 16"
  by (simp_all add: demo_app_def new_app_def)

lemma demo_event_fields: "ev_metadata demo_start = []" "ev_path demo_start = []" "session_id demo_start = ''s''" "event_type demo_start = Session_started"
  "ev_metadata demo_read_normal = []" "ev_path demo_read_normal = ''l''" "session_id demo_read_normal = ''s''"
  "event_type demo_read_normal = File_read" "ev_node_id demo_read_normal = []"
  by (simp_all add: demo_start_def demo_read_normal_def demo_read_def sample_read_def zero_event_def)

lemma demo_unknown_node: "ap_snapshot a = empty_snapshot \<Longrightarrow> ap_identity a = Some (new_registry ''/p'' False) \<Longrightarrow> node_id_for_path demo_app_env a p = []"
  by (simp add: node_id_for_path_def empty_snapshot_def lookup_node_def new_registry_def)

definition demo_begun :: "unit app" where
  "demo_begun = fst (publish_event demo_app_env demo_fs False demo_app demo_start)"

definition demo_run :: "unit app" where
  "demo_run = fst (publish_event demo_app_env demo_fs False demo_begun demo_read)"

lemma demo_begun_facts:
  "ap_focus demo_begun = (new_engine app_timeout)\<lparr>sessions := [''s'' \<mapsto> demo_started]\<rparr>"
  "ap_recorded demo_begun = [\<lparr>jr_event = demo_start, jr_state = demo_started, jr_project_id = ''/p''\<rparr>]"
  "ap_queue demo_begun = Some [\<lparr>jr_event = demo_start, jr_state = demo_started, jr_project_id = ''/p''\<rparr>]"
  "ap_journal_status demo_begun = status_ready" "ap_root demo_begun = ''/p''" "ap_snapshot demo_begun = empty_snapshot"
  "ap_identity demo_begun = Some (new_registry ''/p'' False)" "ap_diffs demo_begun = new_pipeline 64 16"
proof -
  have "engine_apply (ap_focus demo_app) demo_start = ((new_engine app_timeout)\<lparr>sessions := [''s'' \<mapsto> demo_started]\<rparr>, Inr demo_started)"
    by (simp add: engine_apply_def put_session_def demo_fields demo_event_fields demo_started_def) (simp add: new_engine_def)
  note pub = publish_read [OF demo_fields(1) _ _ _ _ _ this demo_fields(3), of demo_fs demo_start demo_app_env False, folded demo_begun_def]
  show "ap_focus demo_begun = (new_engine app_timeout)\<lparr>sessions := [''s'' \<mapsto> demo_started]\<rparr>"
    "ap_recorded demo_begun = [\<lparr>jr_event = demo_start, jr_state = demo_started, jr_project_id = ''/p''\<rparr>]"
    "ap_queue demo_begun = Some [\<lparr>jr_event = demo_start, jr_state = demo_started, jr_project_id = ''/p''\<rparr>]"
    "ap_journal_status demo_begun = status_ready" "ap_root demo_begun = ''/p''" "ap_snapshot demo_begun = empty_snapshot"
    "ap_identity demo_begun = Some (new_registry ''/p'' False)" "ap_diffs demo_begun = new_pipeline 64 16"
    using pub by (simp_all add: demo_fields demo_normalized demo_event_fields work_event_def journal_capacity_def apply_identity_lifecycle_def)
qed

lemma demo_run_facts:
  "ap_focus demo_run = (new_engine app_timeout)\<lparr>sessions := [''s'' \<mapsto> demo_reading]\<rparr>"
  "ap_recorded demo_run = [\<lparr>jr_event = demo_start, jr_state = demo_started, jr_project_id = ''/p''\<rparr>,
     \<lparr>jr_event = demo_read_normal, jr_state = demo_reading, jr_project_id = ''/p''\<rparr>]"
  "ap_journal_status demo_run = status_ready"
proof -
  have "engine_apply (ap_focus demo_begun) demo_read_normal = ((new_engine app_timeout)\<lparr>sessions := [''s'' \<mapsto> demo_reading]\<rparr>, Inr demo_reading)"
    by (simp add: engine_apply_def put_session_def demo_begun_facts demo_event_fields demo_reading_def)
  note pub = publish_read [OF demo_begun_facts(7) _ _ _ _ _ this demo_begun_facts(3), of demo_fs demo_read demo_app_env False, folded demo_run_def]
  show "ap_focus demo_run = (new_engine app_timeout)\<lparr>sessions := [''s'' \<mapsto> demo_reading]\<rparr>"
    "ap_recorded demo_run = [\<lparr>jr_event = demo_start, jr_state = demo_started, jr_project_id = ''/p''\<rparr>,
       \<lparr>jr_event = demo_read_normal, jr_state = demo_reading, jr_project_id = ''/p''\<rparr>]"
    "ap_journal_status demo_run = status_ready"
    using pub by (simp_all add: demo_begun_facts demo_normalized demo_event_fields work_event_def journal_capacity_def
        apply_identity_lifecycle_def demo_unknown_node)
qed

theorem shown_live_is_replayed_witness:
  "\<exists>sn. reconstruct [demo_start, demo_read_normal] 2 app_timeout = Inr sn \<and>
    plain (sn_state sn) = plain (if st_stopped_at demo_reading = None \<and> sn_cursor_at sn \<noteq> 0
      then (close_current app_timeout demo_reading (sn_cursor_at sn))\<lparr>st_paused := True\<rparr> else demo_reading)"
proof -
  have rec: "records_of demo_run ''s'' = [demo_start, demo_read_normal]"
    by (simp add: records_of_def demo_run_facts demo_event_fields)
  have can: "canonical_events [demo_start, demo_read_normal] = [demo_start, demo_read_normal]" by code_simp
  have valid: "validate demo_start = None" "validate demo_read_normal = None" by code_simp+
  let ?P = "\<lambda>fs e. event_type e \<noteq> Diff_calculated"
  have "app_step demo_app_env ?P demo_app demo_begun" unfolding demo_begun_def by (rule app_step.publish) (simp add: demo_event_fields)
  moreover have "app_step demo_app_env ?P demo_begun demo_run"
    unfolding demo_run_def by (rule app_step.publish) (simp add: demo_read_def sample_read_def)
  ultimately have "app_run demo_app_env ?P demo_app demo_run" by (blast intro: app_run.intros)
  from shown_live_is_replayed [OF this _ demo_fields(6,7) _ demo_run_facts(3), of "''s''" demo_reading]
  show ?thesis using can valid by (simp add: rec demo_run_facts demo_fields)
qed

end
