(* ===== verification/App_Work.thy ===== *)
theory App_Work
  imports App_Replay
begin

text \<open>
  The diff pipeline and the sessions of the application: every result that is under way finds the access it was asked
  for as long as the project stays open, and every path a session keeps lies in the project.
\<close>

section \<open>Accesses are kept\<close>

definition has_access :: "engine \<Rightarrow> string \<times> int \<Rightarrow> bool" where
  "has_access E x = (case sessions E (fst x) of None \<Rightarrow> False | Some s \<Rightarrow> snd x \<in> iv_sequence ` set (st_intervals s))"

definition sequences :: "state \<Rightarrow> int list" where
  "sequences s = map iv_sequence (st_intervals s)"

lemma set_current_sequences:
  "current s = Some c \<Longrightarrow> iv_sequence iv = iv_sequence c \<Longrightarrow> sequences (set_current iv s) = sequences s"
  by (auto simp: sequences_def dest!: current_SomeD)

lemma close_current_sequences [simp]: "sequences (close_current idle s at) = sequences s"
  by (auto simp: close_current_def Let_def intro!: set_current_sequences split: option.split)

lemma follow_rename_sequences [simp]: "sequences (follow_rename s e) = sequences s"
proof -
  have "current (s\<lparr>st_active_path := p\<rparr>) = current s" "sequences (s\<lparr>st_active_path := p\<rparr>) = sequences s" for p
    by (simp_all add: current_def sequences_def)
  then show ?thesis by (auto simp: follow_rename_def Let_def set_current_sequences split: option.split)
qed

lemma sequences_update [simp]:
  "sequences (s\<lparr>st_stopped_at := x\<rparr>) = sequences s" "sequences (set_active s e p) = sequences s"
  "sequences (s\<lparr>st_intervals := ivs\<rparr>) = map iv_sequence ivs"
  by (simp_all add: sequences_def)

lemma apply_session_sequences: "\<exists>ns. sequences (apply_session idle s e) = sequences s @ ns"
proof (cases rule: apply_session_cases [of idle s e])
  case (continue p)
  let ?r = "follow_rename s e"
  have "\<exists>ns. sequences (continue_focus ?r e p) = sequences ?r @ ns"
    using set_current_sequences [of ?r] by (auto simp: continue_focus_def Let_def merge_delta_def sequences_def split: option.split)
  with continue show ?thesis by simp
next
  case (switch p)
  let ?r = "follow_rename s e"
  have "map iv_sequence (st_intervals (close_current idle ?r (timestamp e))) = sequences s"
    using close_current_sequences [of idle ?r "timestamp e"] by (simp only: sequences_def [symmetric] follow_rename_sequences)
  then have "\<exists>ns. sequences (switch_focus idle ?r e p) = sequences s @ ns" by (simp add: switch_focus_def Let_def)
  with switch show ?thesis by simp
qed simp_all

lemma has_access_apply:
  assumes "has_access E x" and "engine_apply E e = (F, y)"
  shows "has_access F x"
proof -
  obtain s where s: "sessions E (fst x) = Some s" "snd x \<in> set (sequences s)"
    using assms(1) by (auto simp: has_access_def sequences_def split: option.splits)
  obtain ns where "sequences (apply_session (idle_timeout E) s e) = sequences s @ ns" using apply_session_sequences by blast
  with s(2) have grown: "snd x \<in> set (sequences (apply_session (idle_timeout E) s e))" by simp
  show ?thesis
    by (cases rule: apply_cases [of E e]; cases "fst x = session_id e")
      (use assms(2) s grown in \<open>auto simp: has_access_def sequences_def\<close>)
qed

lemma has_access_plain: "same_plain F E \<Longrightarrow> has_access E x \<Longrightarrow> has_access F x"
proof -
  assume F: "same_plain F E" and x: "has_access E x"
  obtain s where s: "sessions E (fst x) = Some s" "snd x \<in> set (sequences s)"
    using x by (auto simp: has_access_def sequences_def split: option.splits)
  obtain r where r: "sessions F (fst x) = Some r" "plain r = plain s"
    using F s(1) unfolding same_plain_def by (metis map_option_eq_Some)
  have "sequences (plain q) = sequences q" for q by (simp add: sequences_def)
  with r(2) s(2) have "snd x \<in> set (sequences r)" by metis
  with r(1) show ?thesis by (simp add: has_access_def sequences_def)
qed

section \<open>Work under way\<close>

definition request_of :: "request \<Rightarrow> string \<times> int" where "request_of r = (rq_session_id r, rq_sequence r)"
definition answer_of :: "result \<Rightarrow> string \<times> int" where "answer_of s = (rs_session_id s, rs_sequence s)"

fun worker_work :: "worker \<Rightarrow> (string \<times> int) set" where
  "worker_work (W_collect batch) = request_of ` set batch"
| "worker_work (W_publish ss) = answer_of ` set ss"
| "worker_work (W_remember s ss) = answer_of ` set ss"
| "worker_work _ = {}"

definition pending_work :: "pipeline \<Rightarrow> (string \<times> int) set" where
  "pending_work p = request_of ` set (pl_queue p @ pl_offering p @ pl_dropping p) \<union> worker_work (pl_worker p) \<union> answer_of ` set (pl_results p)"

lemma resolve_direct_of: "resolve_direct r = Some s \<Longrightarrow> answer_of s = request_of r"
  by (auto simp: resolve_direct_def Let_def answer_of_def request_of_def new_result_def split: if_splits option.splits prod.splits)

lemma direct_result_of: "direct_result h r = Some s \<Longrightarrow> answer_of s = request_of r"
  by (cases "resolve_direct r") (auto simp: direct_result_def unknown_result_def answer_of_def request_of_def
      dest: resolve_direct_of [unfolded answer_of_def request_of_def] split: if_splits)

lemma git_result_of [simp]: "answer_of (git_result v r) = request_of r"
  by (simp add: git_result_def unknown_result_def new_result_def answer_of_def request_of_def split: option.split)

definition members :: "(string \<times> request list) list \<Rightarrow> request set" where
  "members gs = (\<Union>g \<in> set gs. set (snd g))"

lemma members_add_group: "members (add_group q gs) = insert q (members gs)"
  by (induction q gs rule: add_group.induct) (auto simp: members_def)

lemma members_groups: "members (git_groups h batch) \<subseteq> set batch"
proof -
  have "members (fold add_group qs gs) = set qs \<union> members gs" for qs gs
    by (induction qs arbitrary: gs) (auto simp: members_add_group)
  then show ?thesis by (auto simp: git_groups_def) (simp add: members_def)
qed

lemma group_results_of: "s \<in> set (group_results runner g) \<Longrightarrow> answer_of s \<in> request_of ` set (snd g)"
  by (auto simp: group_results_def Let_def split: prod.splits)

lemma process_of:
  assumes "mset groups = mset (git_groups h batch)" and "s \<in> set (process runner h groups batch)"
  shows "answer_of s \<in> request_of ` set batch"
proof -
  have groups: "set groups = set (git_groups h batch)" using assms(1) by (rule mset_eq_setD)
  from assms(2) consider r where "r \<in> set batch" "direct_result h r = Some s" | g where "g \<in> set groups" "s \<in> set (group_results runner g)"
    by (auto simp: process_def List.map_filter_def)
  then show ?thesis
  proof cases
    case 1
    then show ?thesis using direct_result_of by force
  next
    case 2
    have "set (snd g) \<subseteq> set batch" using members_groups [of h batch] 2(1) groups by (auto simp: members_def)
    with group_results_of [OF 2(2)] show ?thesis by blast
  qed
qed

lemma remember_locked_work [simp]: "pl_results (remember_locked p k) = pl_results p" "pl_queue (remember_locked p k) = pl_queue p"
  "pl_offering (remember_locked p k) = pl_offering p" "pl_dropping (remember_locked p k) = pl_dropping p"
  by (simp_all add: remember_locked_def Let_def)

lemma worker_step_work:
  assumes "pipeline_step p q" and "pl_offering q = []"
  shows "pending_work q \<subseteq> pending_work p"
  using assms(1)
proof cases
  case (offer_begin r)
  with assms(2) show ?thesis
    by (auto simp: offer_begin_def Let_def pending_work_def split: if_splits)
next
  case (process batch groups h runner)
  with process_of [of groups h batch _ runner] show ?thesis by (auto simp: pending_work_def)
next
  case (remember s ss)
  then show ?thesis by (auto simp: publish_remember_def Let_def) (auto simp: pending_work_def)
qed (auto simp: pending_work_def offer_enqueue_def offer_count_def offer_refuse_def offer_drop_def publish_send_def
    dest: subsetD [OF set_remove1_subset])


section \<open>Results find their accesses\<close>

definition tracked :: "'v app \<Rightarrow> bool" where
  "tracked a \<longleftrightarrow> (\<forall>x \<in> pending_work (ap_diffs a). has_access (ap_focus a) x)"

lemma offer_request_work:
  assumes "offer_request refuse p r = (q, outcome)"
  shows "pending_work q \<subseteq> insert (request_of r) (pending_work p)"
proof -
  have "request_of (r\<lparr>rq_before := x, rq_after := y\<rparr>) = request_of r" for x y by (simp add: request_of_def)
  with assms show ?thesis
    by (auto simp: offer_request_def offer_begin_def Let_def offer_drop_def offer_refuse_def offer_count_def offer_enqueue_def
        pending_work_def split: if_splits)
qed

lemma tracked_frame:
  "tracked a \<Longrightarrow> (\<And>x. has_access (ap_focus a) x \<Longrightarrow> has_access (ap_focus b) x) \<Longrightarrow>
   pending_work (ap_diffs b) \<subseteq> pending_work (ap_diffs a) \<Longrightarrow> tracked b"
  by (auto simp: tracked_def)

lemma tracked_submit:
  assumes "tracked a" and "submit_diff refuse a e s = (b, r)" and "sessions (ap_focus a) (session_id e) = Some s"
  shows "tracked b"
proof (cases "diff_interval e s")
  case None
  with assms show ?thesis by (simp add: submit_diff_def)
next
  case (Some iv)
  then have "iv \<in> set (st_intervals s)"
    by (auto simp: diff_interval_def current_def split: if_splits option.splits)
  then have own: "has_access (ap_focus a) (request_of (diff_request (ap_root a) e iv))"
    using assms(3) by (simp add: has_access_def request_of_def diff_request_def)
  obtain p outcome where offer: "offer_request refuse (ap_diffs a) (diff_request (ap_root a) e iv) = (p, outcome)"
    by (cases "offer_request refuse (ap_diffs a) (diff_request (ap_root a) e iv)")
  have "ap_diffs b = p"
    using assms(2) Some offer by (auto simp: submit_diff_def Let_def split: if_splits prod.splits sum.splits)
  with offer_request_work [OF offer] own assms(1) have "\<forall>x \<in> pending_work (ap_diffs b). has_access (ap_focus a) x"
    by (auto simp: tracked_def)
  then show ?thesis using has_access_plain [OF submit_diff_plain(1) [OF assms(2,3)]] unfolding tracked_def by blast
qed

lemma tracked_publish:
  assumes "tracked a"
  shows "tracked (fst (publish_event env fs refuse a e0))"
proof (cases rule: publish_event_cases [of env fs refuse a e0])
  case (refused err r)
  with assms show ?thesis by (simp add: tracked_def)
next
  case (accepted e1 i r e E s0 b s)
  have "tracked (a\<lparr>ap_identity := r, ap_focus := E\<rparr>)"
    using assms has_access_apply [OF _ accepted(3)] by (auto simp: tracked_def)
  then have "tracked b" by (rule tracked_submit [OF _ accepted(4)]) (simp add: apply_state [OF accepted(3)])
  with accepted(5) show ?thesis by (simp add: tracked_def)
qed

lemma consume_result_frame:
  "same_plain (ap_focus (consume_result env now a res)) (ap_focus a)" "ap_diffs (consume_result env now a res) = ap_diffs a"
  using set_work_plain [of "ap_focus a" "rs_session_id res" "rs_sequence res" "rs_added res" "rs_deleted res" "rs_status res"
      "rs_source res" "rs_confidence res"]
  by (auto simp: consume_result_def Let_def split: prod.split sum.split)

lemma tracked_step:
  assumes "app_step env P a b" and "tracked a"
  shows "tracked b"
  using assms(1)
proof cases
  case (deliver fs e refuse now)
  have "tracked (a\<lparr>ap_dedupe := d\<rparr>)" for d using assms(2) by (simp add: tracked_def)
  then have "tracked (fst (publish_event env fs refuse (a\<lparr>ap_dedupe := d\<rparr>) e))" for d by (rule tracked_publish)
  with \<open>\<And>d. tracked (a\<lparr>ap_dedupe := d\<rparr>)\<close> show ?thesis
    unfolding deliver(1) handle_event_def Let_def by (simp split: prod.split)
next
  case (publish fs e refuse)
  with tracked_publish [OF assms(2)] show ?thesis by simp
next
  case (worker p)
  with worker_step_work assms(2) show ?thesis by (auto simp: tracked_def)
next
  case (result res rest now)
  let ?a = "a\<lparr>ap_diffs := (ap_diffs a)\<lparr>pl_results := rest\<rparr>\<rparr>"
  have "tracked ?a" using assms(2) result(2) by (auto simp: tracked_def pending_work_def)
  then show ?thesis unfolding result(1)
    by (rule tracked_frame) (auto simp: consume_result_frame(2) intro: has_access_plain [OF consume_result_frame(1), of ?a])
next
  case (journal faults now db)
  with assms(2) show ?thesis by (simp add: tracked_def)
next
  case (refresh w)
  with assms(2) show ?thesis by (simp add: tracked_def)
qed

text \<open>C22: no diff result is lost while a project stays open.  Whatever is delivered, computed and consumed in between, the
  access a result was computed for is still there when the result arrives, so the session takes it.\<close>

theorem diff_result_finds_its_access:
  assumes "app_run env P a0 a" and "pending_work (ap_diffs a0) = {}" and "pl_results (ap_diffs a) = res # rest"
  shows "\<exists>E s. engine_set_work_result (ap_focus a) (rs_session_id res) (rs_sequence res) (rs_added res) (rs_deleted res)
      (rs_status res) (rs_source res) (rs_confidence res) = (E, Inr s) \<and> rs_sequence res \<in> set (sequences s)"
proof -
  have "tracked a"
    using assms(1,2) by (induction rule: app_run.induct) (auto intro: tracked_step simp: tracked_def [of a0])
  then have "has_access (ap_focus a) (rs_session_id res, rs_sequence res)"
    using assms(3) by (auto simp: tracked_def pending_work_def answer_of_def)
  then obtain s where s: "sessions (ap_focus a) (rs_session_id res) = Some s" "rs_sequence res \<in> iv_sequence ` set (st_intervals s)"
    by (auto simp: has_access_def split: option.splits)
  obtain ivs where ivs: "map plain_interval ivs = map plain_interval (st_intervals s)"
    "engine_set_work_result (ap_focus a) (rs_session_id res) (rs_sequence res) (rs_added res) (rs_deleted res)
      (rs_status res) (rs_source res) (rs_confidence res) =
      ((ap_focus a)\<lparr>sessions := (sessions (ap_focus a))(rs_session_id res \<mapsto> s\<lparr>st_intervals := ivs\<rparr>)\<rparr>, Inr (s\<lparr>st_intervals := ivs\<rparr>))"
    using set_work_accepts [OF s] by blast
  from arg_cong [OF ivs(1), of "map iv_sequence"] have "map iv_sequence ivs = map iv_sequence (st_intervals s)" by (simp add: o_def)
  with s(2) have "rs_sequence res \<in> set (map iv_sequence ivs)" by simp
  with ivs(2) show ?thesis by (simp add: sequences_def)
qed


section \<open>Sessions stay in the project\<close>

definition state_paths :: "state \<Rightarrow> string set" where
  "state_paths s = insert (st_active_path s) (insert (st_previous_path s) (set (st_secondary_paths s) \<union> iv_path ` set (st_intervals s)))"

definition inside :: "string \<Rightarrow> bool" where
  "inside p \<longleftrightarrow> p = [] \<or> confined p"

definition stays_inside :: "engine \<Rightarrow> bool" where
  "stays_inside E \<longleftrightarrow> (\<forall>i s. sessions E i = Some s \<longrightarrow> (\<forall>p \<in> state_paths s. inside p))"

lemma set_current_paths: "current s = Some c \<Longrightarrow> state_paths (set_current iv s) \<subseteq> insert (iv_path iv) (state_paths s)"
  by (auto simp: state_paths_def set_current_def dest!: current_SomeD)

lemma close_current_paths: "state_paths (close_current idle s at) \<subseteq> state_paths s"
proof -
  have "state_paths (set_current iv s) \<subseteq> state_paths s" if "current s = Some c" "iv_path iv = iv_path c" for c iv
    using that by (auto simp: state_paths_def set_current_def dest!: current_SomeD)
  then show ?thesis by (auto simp: close_current_def Let_def split: option.split)
qed

lemma follow_rename_paths: "state_paths (follow_rename s e) \<subseteq> insert (ev_path e) (state_paths s)"
  by (cases rule: interval_cases [of s])
    (auto simp: follow_rename_def Let_def state_paths_def set_current_def current_def)

lemma set_active_paths: "state_paths (set_active s e p) \<subseteq> state_paths s \<union> set (secondary_paths (ev_metadata e))"
  by (auto simp: state_paths_def set_active_def)

lemma apply_session_paths:
  "state_paths (apply_session idle s e) \<subseteq> insert [] (insert (ev_path e) (state_paths s \<union> set (secondary_paths (ev_metadata e))))"
proof (cases rule: apply_session_cases [of idle s e])
  case same
  then show ?thesis by auto
next
  case stop
  have "state_paths (s'\<lparr>st_stopped_at := x\<rparr>) = state_paths s'" for s' x by (simp add: state_paths_def)
  with stop close_current_paths show ?thesis by auto
next
  case rename
  with follow_rename_paths show ?thesis by auto
next
  case (continue p)
  let ?r = "follow_rename s e"
  have "state_paths (continue_focus ?r e p) \<subseteq> insert (ev_path e) (state_paths ?r \<union> set (secondary_paths (ev_metadata e)))"
    by (cases rule: interval_cases [of ?r])
      (auto simp: continue_focus_def Let_def state_paths_def set_active_def set_current_def merge_delta_def open_interval_def)
  with continue follow_rename_paths [of s e] show ?thesis by auto
next
  case (switch p)
  let ?r = "close_current idle (follow_rename s e) (timestamp e)"
  have "state_paths (switch_focus idle (follow_rename s e) e p) \<subseteq> insert (ev_path e) (state_paths ?r \<union> set (secondary_paths (ev_metadata e)))"
    by (auto simp: switch_focus_def Let_def state_paths_def set_active_def open_interval_def)
  with switch follow_rename_paths [of s e] close_current_paths [of idle "follow_rename s e" "timestamp e"] show ?thesis by auto
qed

lemma plain_paths: "plain r = plain s \<Longrightarrow> state_paths r = state_paths s"
proof -
  assume "plain r = plain s"
  moreover have "state_paths (plain q) = state_paths q" for q
    by (auto simp: state_paths_def image_image) (simp_all add: plain_def image_image)
  ultimately show ?thesis by metis
qed

lemma stays_inside_plain: "same_plain F E \<Longrightarrow> stays_inside E \<Longrightarrow> stays_inside F"
proof (unfold stays_inside_def, intro allI impI)
  fix i r assume F: "same_plain F E" and E: "\<forall>i s. sessions E i = Some s \<longrightarrow> (\<forall>p \<in> state_paths s. inside p)" and r: "sessions F i = Some r"
  have "map_option plain (sessions E i) = Some (plain r)" using F r unfolding same_plain_def by (metis option.map(2))
  then obtain s where s: "sessions E i = Some s" "plain r = plain s" by auto
  show "\<forall>p \<in> state_paths r. inside p" unfolding plain_paths [OF s(2)] using E s(1) by blast
qed

lemma secondary_paths_subset: "set (secondary_paths (AList.update ''secondary_paths'' (MStrings ps) md)) \<subseteq> set ps"
  using keep_first_subset [of "\<lambda>p. p" "{}" "filter (\<lambda>p. p \<noteq> []) ps"]
  by (auto simp: secondary_paths_def update_conv compact_paths_def sort_strings_def)

lemma secondary_paths_inside:
  assumes "with_secondary_paths fs root e = Inr e'" and "\<And>wd. fs_cwd fs = Some wd \<Longrightarrow> is_abs wd"
  shows "\<forall>p \<in> set (secondary_paths (ev_metadata e')). inside p"
proof (cases "ev_metadata e = []")
  case True
  with assms(1) show ?thesis by (simp add: with_secondary_paths_def secondary_paths_def)
next
  case False
  with assms(1) obtain ps where ps: "normalize_secondary_paths fs root (map_of (ev_metadata e) ''secondary_paths'') = Inr ps"
    "e' = e\<lparr>ev_metadata := AList.update ''secondary_paths'' (MStrings ps) (ev_metadata e)\<rparr>"
    by (auto simp: with_secondary_paths_def map_sum_def split: sum.splits)
  have "list_all confined ps"
    using ps(1) normalize_paths_confined [OF _ assms(2)] keep_first_subset [of "\<lambda>p. p" "{}"]
    by (fastforce simp: normalize_secondary_paths_def Let_def list_all_iff split: option.splits mvalue.splits sum.splits)
  then show ?thesis using secondary_paths_subset [of ps "ev_metadata e"] ps(2) by (auto simp: inside_def list_all_iff)
qed


lemma stays_inside_apply:
  assumes "stays_inside E" and "engine_apply E e = (F, x)" and "inside (ev_path e)"
    and "\<forall>p \<in> set (secondary_paths (ev_metadata e)). inside p"
  shows "stays_inside F"
proof -
  have new: "\<forall>p \<in> state_paths (apply_session idle s e). inside p" if "\<forall>p \<in> state_paths s. inside p" for idle s
    using apply_session_paths [of idle s e] that assms(3,4) by (auto simp: inside_def)
  have start: "state_paths (start_session e) = {[]}" by (auto simp: state_paths_def start_session_def zero_state_def)
  have "inside []" by (simp add: inside_def)
  then show ?thesis
    by (cases rule: apply_cases [of E e]) (use assms(1,2) new start in \<open>fastforce simp: stays_inside_def\<close>)+
qed

lemma stays_inside_publish:
  assumes "stays_inside (ap_focus a)" and "\<And>wd. fs_cwd fs = Some wd \<Longrightarrow> is_abs wd"
  shows "stays_inside (ap_focus (fst (publish_event env fs refuse a e0)))"
proof (cases rule: publish_event_cases [of env fs refuse a e0])
  case (refused err r)
  with assms(1) show ?thesis by simp
next
  case (accepted e1 i r e E s0 b s)
  have "inside (ev_path e1)"
    using normalize_event_confines [OF accepted(1) assms(2)] by (auto simp: inside_def split: if_splits)
  then have "inside (ev_path e)" using with_secondary_paths_keeps [OF accepted(2)] by simp
  then have "stays_inside E"
    using stays_inside_apply [OF assms(1) accepted(3)] secondary_paths_inside [OF accepted(2) assms(2)] by blast
  moreover have "same_plain (ap_focus b) E"
    using submit_diff_plain(1) [OF accepted(4)] apply_state(1) [OF accepted(3)] by simp
  ultimately show ?thesis using accepted(5) stays_inside_plain by auto
qed

text \<open>C23: no session ever shows a path outside the project.  Whatever events arrive, in whatever order, the active and the
  previous path, the secondary paths and the path of every access are absent or clean relative paths that do not climb.\<close>

theorem sessions_stay_in_project:
  assumes "app_run env P a0 a" and "\<And>fs e wd. P fs e \<Longrightarrow> fs_cwd fs = Some wd \<Longrightarrow> is_abs wd" and "ap_focus a0 = new_engine app_timeout"
    and "sessions (ap_focus a) i = Some s" and "p \<in> state_paths s"
  shows "p = [] \<or> confined p"
proof -
  have "stays_inside (ap_focus a)"
    using assms(1)
  proof (induction rule: app_run.induct)
    case init
    then show ?case using assms(3) by (simp add: stays_inside_def new_engine_def)
  next
    case (step b c)
    from step(2) show ?case
    proof cases
      case (deliver fs e refuse now)
      have "stays_inside (ap_focus (fst (publish_event env fs refuse (b\<lparr>ap_dedupe := d\<rparr>) e)))" for d
        using step.IH assms(2) [OF deliver(2)] by (intro stays_inside_publish) auto
      with step.IH show ?thesis unfolding deliver(1) handle_event_def Let_def by (simp split: prod.split)
    next
      case (publish fs e refuse)
      show ?thesis unfolding publish(1) using step.IH assms(2) [OF publish(2)] by (intro stays_inside_publish) auto
    next
      case (result res rest now)
      show ?thesis unfolding result(1) by (rule stays_inside_plain [OF consume_result_frame(1)]) (use step.IH in simp)
    qed (use step.IH in simp_all)
  qed
  with assms(4,5) show ?thesis by (auto simp: stays_inside_def inside_def)
qed

end
