(* ===== verification/App_Errors.thy ===== *)
theory App_Errors
  imports App_Work
begin

text \<open>
  The error paths of the application and the places where its components disagree: refused events, a project that fails
  to load, results that outlive their project, and journal records that cannot be stored or replayed.
\<close>

section \<open>Refused events\<close>

text \<open>A refused event changes no session, no request and no record; at most the node identities move.  An accepted one
  is the focus that is shown.\<close>

theorem refused_event_changes_no_session:
  "case publish_event env fs refuse a e of
     (b, Inl _) \<Rightarrow> b = a\<lparr>ap_identity := ap_identity b\<rparr>
   | (b, Inr focus) \<Rightarrow> ap_current b = focus \<and> ap_root b = ap_root a \<and> ap_snapshot b = ap_snapshot a"
proof (cases rule: publish_event_cases [of env fs refuse a e])
  case (refused err r)
  then show ?thesis by (cases "publish_event env fs refuse a e") simp
next
  case (accepted e1 i r e' E s0 b s)
  then show ?thesis using submit_diff_frame [OF accepted(4)] by simp
qed

text \<open>The identities move before the event is applied: a rename for a session that never started is refused, and the node
  has its new path.\<close>

theorem refused_rename_moves_identity:
  assumes "ap_identity a = Some r" and "ap_root a \<noteq> []" and "normalize_event fs e (ap_root a) = Inr e1"
    and "sessions (ap_focus a) (session_id e) = None" and "event_type e = File_renamed"
    and "previous_path e1 \<noteq> []" and "ev_path e1 \<noteq> []"
  shows "ap_identity (fst (publish_event env fs refuse a e)) = Some (fst (rename_node (ae_identity env) r (previous_path e1) (ev_path e1))) \<and>
    (\<exists>err. snd (publish_event env fs refuse a e) = Inl err)"
proof -
  let ?r = "Some (apply_identity_lifecycle (ae_identity env) e1 r)"
  let ?e = "if ev_path e1 \<noteq> [] \<and> ev_node_id e1 = [] then e1\<lparr>ev_node_id := node_id_for_path env (a\<lparr>ap_identity := ?r\<rparr>) (ev_path e1)\<rparr> else e1"
  note keeps = normalize_event_keeps [OF assms(3)]
  have id: "session_id ?e = session_id e \<and> event_type ?e = File_renamed" using keeps assms(5) by auto
  have app: "\<exists>err. engine_apply (ap_focus a) e' = (ap_focus a, Inl err)" if "with_secondary_paths fs (ap_root a) ?e = Inr e'" for e'
    using with_secondary_paths_keeps [OF that] id assms(4) by (auto simp: engine_apply_def)
  have "apply_identity_lifecycle (ae_identity env) e1 r = fst (rename_node (ae_identity env) r (previous_path e1) (ev_path e1))"
    using keeps assms(5-7) by (simp add: apply_identity_lifecycle_def)
  moreover have "ap_identity (fst (publish_event env fs refuse a e)) = ?r \<and> (\<exists>err. snd (publish_event env fs refuse a e) = Inl err)"
    unfolding publish_event_def assms(1,3) option.case sum.case Let_def using assms(2) app
    by (cases "with_secondary_paths fs (ap_root a) ?e") (auto split: if_splits)
  ultimately show ?thesis by simp
qed

section \<open>A project that fails to load\<close>

text \<open>A project whose history or report cannot be read is refused, but it is the open project from then on: its root and an
  empty identity registry are in place, with the graph of the project before.\<close>

theorem failed_load_mixes_projects:
  assumes "scan_project (pw_fs w) root (pw_tree w) = Some (top_dir, ns)"
    and "enrich (ae_lower env) (pw_log w) (pw_report w) (pw_order w) ns = Inl err"
  shows "let (b, result) = load_project env w a root in result = Inl (Not_enriched err) \<and> ap_root b = top_dir \<and>
    ap_identity b = Some (new_registry top_dir (ae_windows env)) \<and> ap_snapshot b = ap_snapshot a \<and> fst (resync b) = fst (resync a)"
  using assms by (simp add: load_project_def resync_def Let_def)

section \<open>Results that outlive their project\<close>

text \<open>Loading a project leaves the diff pipeline alone.  A result that was computed in the project before is then counted for
  the access of the new project that has its number.\<close>

theorem stale_result_counts_for_next_project:
  assumes "load_project env w a root = (b, Inr graph)" and "pl_results (ap_diffs a) = res # rest"
    and "sessions E (rs_session_id res) = Some s" and "st_intervals s = ivs @ iv # jvs" and "iv_sequence iv = rs_sequence res"
    and "rs_sequence res \<notin> iv_sequence ` set ivs"
  shows "pl_results (ap_diffs b) = res # rest \<and>
    (\<exists>t. sessions (ap_focus (consume_result env now (b\<lparr>ap_focus := E\<rparr>) res)) (rs_session_id res) = Some t \<and>
      st_intervals t = ivs @ set_work (rs_added res) (rs_deleted res) (rs_status res) (rs_source res) (rs_confidence res) iv # jvs)"
proof -
  have "update_sequence n f (us @ u # vs) = Some (us @ f u # vs)" if "iv_sequence u = n" "n \<notin> iv_sequence ` set us" for n f us u vs
    using that by (induction us) auto
  from this [OF assms(5,6)] assms(3,4) have "engine_set_work_result E (rs_session_id res) (rs_sequence res) ad d st so c =
      (E\<lparr>sessions := (sessions E)(rs_session_id res \<mapsto> s\<lparr>st_intervals := ivs @ set_work ad d st so c iv # jvs\<rparr>)\<rparr>,
       Inr (s\<lparr>st_intervals := ivs @ set_work ad d st so c iv # jvs\<rparr>))" for ad d st so c
    by (simp add: engine_set_work_result_def put_session_def)
  then show ?thesis
    using assms(1,2) by (auto simp: consume_result_def Let_def load_project_def split: option.splits prod.splits sum.splits)
qed

section \<open>The journal\<close>

lemma save_event_stored:
  assumes "save_event fault db e = (db', None)"
  shows "event_id e \<in> er_event_id ` set (db_events db')" and "er_event_id ` set (db_events db) \<subseteq> er_event_id ` set (db_events db')"
    and "db_sessions db' = db_sessions db"
  using assms by (auto simp: save_event_def sanitize_event_def Let_def split: option.splits if_splits)

lemma put_row_ids: "sr_id ` set (put_row r rows) = insert (sr_id r) (sr_id ` set rows)"
proof -
  have "map sr_id (map (\<lambda>q. if sr_id q = sr_id r then q\<lparr>sr_stopped_at := x, sr_status := y, sr_json := z\<rparr> else q) rows) = map sr_id rows" for x y z
    by simp
  then have "sr_id ` set (map (\<lambda>q. if sr_id q = sr_id r then q\<lparr>sr_stopped_at := x, sr_status := y, sr_json := z\<rparr> else q) rows) =
      sr_id ` set rows" for x y z by (metis list.set_map)
  then show ?thesis by (auto simp: put_row_def)
qed

lemma save_session_stored:
  assumes "save_session fault db s project = (db', None)"
  shows "st_session_id s \<in> sr_id ` set (db_sessions db')" and "sr_id ` set (db_sessions db) \<subseteq> sr_id ` set (db_sessions db')"
    and "db_events db' = db_events db"
proof -
  from assms obtain r where "db' = db\<lparr>db_sessions := put_row r (db_sessions db)\<rparr>" "sr_id r = st_session_id s"
    by (auto simp: save_session_def split: option.splits if_splits)
  then show "st_session_id s \<in> sr_id ` set (db_sessions db')" "sr_id ` set (db_sessions db) \<subseteq> sr_id ` set (db_sessions db')"
    "db_events db' = db_events db" by (simp_all add: put_row_ids subset_insertI)
qed

lemma ensure_project_frame:
  "ensure_project fault db i root now = (db', x) \<Longrightarrow> db_events db' = db_events db \<and> db_sessions db' = db_sessions db"
  by (auto simp: ensure_project_def split: if_splits)

text \<open>What the database holds of a record.\<close>

definition stored :: "database \<Rightarrow> journal_record \<Rightarrow> bool" where
  "stored db r \<longleftrightarrow> event_id (jr_event r) \<in> er_event_id ` set (db_events db) \<and> st_session_id (jr_state r) \<in> sr_id ` set (db_sessions db)"

lemma write_record_stored:
  assumes "write_record faults now db r = (db', True)"
  shows "stored db' r" and "stored db q \<Longrightarrow> stored db' q"
proof -
  obtain f1 f2 f3 where "faults = (f1, f2, f3)" by (cases faults) auto
  with assms obtain db1 db2 where steps: "db_events db1 = db_events db \<and> db_sessions db1 = db_sessions db"
    "save_event f2 db1 (jr_event r) = (db2, None)" "save_session f3 db2 (jr_state r) (jr_project_id r) = (db', None)"
    by (auto simp: write_record_def dest: ensure_project_frame split: prod.splits option.splits if_splits)
  note e = save_event_stored [OF steps(2)] and s = save_session_stored [OF steps(3)]
  show "stored db' r" using e(1) s(1,3) by (simp add: stored_def)
  show "stored db' q" if "stored db q" using that e(2,3) s(2,3) steps(1) by (auto simp: stored_def)
qed

lemma write_all_stored: "write_all faults now db rs = (db', True) \<Longrightarrow> (\<forall>r \<in> set rs. stored db' r) \<and> (\<forall>q. stored db q \<longrightarrow> stored db' q)"
proof (induction rs arbitrary: faults db)
  case (Cons r rs)
  from Cons.prems obtain db1 f where f: "write_record f now db r = (db1, True)" and rest: "write_all (tl faults) now db1 rs = (db', True)"
    by (auto split: prod.splits)
  note IH = Cons.IH [OF rest]
  show ?case
  proof (intro conjI ballI allI impI)
    show "stored db' q" if "q \<in> set (r # rs)" for q using that IH write_record_stored(1) [OF f] by auto
    show "stored db' q" if "stored db q" for q using that IH write_record_stored(2) [OF f] by blast
  qed
qed simp

text \<open>C24: stopping the journal loses nothing.  When it ends with the status that it stopped, every record that was waiting
  has its event and its session in the database.\<close>

theorem stopped_journal_holds_every_record:
  assumes "stop_journal faults now (a, db) = (b, db')" and "ap_queue a = Some rs" and "ap_journal_status b = status_stopped"
  shows "(\<forall>r \<in> set rs. event_id (jr_event r) \<in> er_event_id ` set (db_events db') \<and> st_session_id (jr_state r) \<in> sr_id ` set (db_sessions db')) \<and>
    ap_queue b = None"
proof -
  obtain db2 ok where w: "write_all faults now db rs = (db2, ok)" by (cases "write_all faults now db rs")
  with assms have "ok" "db2 = db'" "ap_queue b = None" by (auto simp: stop_journal_def Let_def split: if_splits)
  with write_all_stored [of faults now db rs db'] w show ?thesis by (simp add: stored_def)
qed


text \<open>The record of a diff result names it by the event it was computed for, with a prefix.  An accepted event with an
  identifier of more than 123 bytes has a diff record that the store refuses, and its counts are missing in a replay.\<close>

theorem diff_record_of_long_id_is_refused:
  assumes "123 < length (rs_key res)"
  shows "\<exists>err. save_event fault db (diff_event now res) = (db, Some (Invalid_stored err))"
proof -
  have "(''event_id'', event_id (diff_event now res), 128) \<in> set (string_fields (diff_event now res))"
    by (simp add: string_fields_def)
  then have "validate (diff_event now res) \<noteq> None"
    using assms validate_NoneD(8) [of "diff_event now res" "''event_id''" "event_id (diff_event now res)" 128]
    by (auto simp: diff_event_def)
  then show ?thesis by (auto simp: save_event_def)
qed

text \<open>A diff event from an adapter passes live like any event without a focus.  Without the number of an access it makes
  every later moment of the session impossible to replay.\<close>

theorem adapter_diff_event_blocks_replay:
  assumes "e \<in> set (canonical_events es)" and "event_type e = Diff_calculated"
    and "metadata_int (ev_metadata e) ''access_sequence'' = None" and "\<forall>f \<in> set es. validate f = None" and "idle \<le> int64_max"
    and "sessions E (session_id e) = Some s" and "session_id e \<noteq> []"
  shows "(\<exists>x. reconstruct es (int (length es)) idle = Inl x) \<and> (\<exists>F. engine_apply E e = (F, Inr s))"
proof -
  have blocks: "\<exists>x. replay_steps E t at fs = Inl x" if "e \<in> set fs" for E t at fs
    using that
  proof (induction fs arbitrary: E t at)
    case (Cons f fs)
    show ?case
    proof (cases "f = e")
      case True
      with assms(2,3) show ?thesis by (simp add: replay_event_def apply_diff_def)
    next
      case False
      with Cons show ?thesis by (auto simp: Let_def split: prod.split sum.split)
    qed
  qed simp
  have len: "length (canonical_events es) \<le> length es"
    using length_keep_first [of event_id "{}" es] by (simp add: canonical_events_def)
  have "apply_session idle' s e = s" if "focus_priority e = None" for idle'
    using that assms(2) by (auto simp: apply_session_def Let_def follow_rename_def)
  then have "\<exists>F. engine_apply E e = (F, Inr s)"
    using assms(2,6,7) by (simp add: engine_apply_def put_session_def focus_priority_def)
  moreover have "\<exists>x. reconstruct es (int (length es)) idle = Inl x"
  proof -
    have ne: "canonical_events es \<noteq> []" using assms(1) by auto
    obtain x where "replay_steps (new_engine idle) zero_state 0 (canonical_events es) = Inl x" using blocks [OF assms(1)] by blast
    with reconstruct_steps [OF assms(4) ne _ assms(5), of "int (length es)"] len show ?thesis by simp
  qed
  ultimately show ?thesis by blast
qed

text \<open>An event that comes late is not applied live, and its record is applied in its place when the session is replayed.\<close>

definition late_events :: "event list" where
  "late_events = [demo_start, demo_read_normal, demo_read_normal\<lparr>event_id := ''e2'', timestamp := 4, ev_path := ''m''\<rparr>]"

definition live_state_of :: "event list \<Rightarrow> string \<Rightarrow> state option" where
  "live_state_of es i = sessions (fold (\<lambda>e E. fst (engine_apply E e)) es (new_engine app_timeout)) i"

theorem late_event_replays_differently:
  "map_option (\<lambda>s. map iv_path (st_intervals s)) (live_state_of late_events ''s'') = Some [''l''] \<and>
   (case reconstruct late_events 2 app_timeout of Inl _ \<Rightarrow> False | Inr sn \<Rightarrow> map iv_path (st_intervals (sn_state sn)) = [''m'', ''l''])"
  by code_simp


section \<open>Examples\<close>

lemma demo_steps:
  assumes "P demo_fs demo_start" and "P demo_fs demo_read"
  shows "app_run demo_app_env P demo_app demo_run"
  unfolding demo_run_def demo_begun_def
  by (rule app_run.step [OF app_run.step [OF app_run.init app_step.publish] app_step.publish]) (rule assms)+

lemma demo_cwd: "fs_cwd demo_fs = Some wd \<Longrightarrow> is_abs wd"
  unfolding demo_fs_def by (rule table_fs_cwd)

theorem sessions_stay_in_project_witness: "''l'' \<in> state_paths demo_reading \<and> (''l'' = [] \<or> confined ''l'')"
proof -
  have l: "''l'' \<in> state_paths demo_reading" by code_simp
  have "app_run demo_app_env (\<lambda>fs e. fs = demo_fs) demo_app demo_run" by (rule demo_steps) simp_all
  from sessions_stay_in_project [OF this _ demo_fields(6) _ l, of "''s''"] demo_cwd l show ?thesis
    by (auto simp: demo_run_facts)
qed

lemma demo_write_record:
  "write_record (False, False, False) 9 empty_database \<lparr>jr_event = demo_start, jr_state = demo_started, jr_project_id = ''/p''\<rparr> =
     (fst (write_record (False, False, False) 9 empty_database \<lparr>jr_event = demo_start, jr_state = demo_started, jr_project_id = ''/p''\<rparr>), True)"
proof -
  have l: "label [] n = []" for n by (simp add: label_Nil)
  have v: "validate demo_start = None" by code_simp
  have t: "json_time_ok 3" "json_time_ok 0" by code_simp+
  have "sanitize_event demo_start = demo_start"
    by (simp add: sanitize_event_def l sanitize_metadata_def List.map_filter_simps demo_start_def zero_event_def)
  moreover have "marshal_event demo_start \<noteq> None" using t by (simp add: marshal_event_def demo_start_def zero_event_def)
  moreover have "marshal_state demo_started \<noteq> None"
    using t by (simp add: marshal_state_def state_times_def demo_started_def start_session_def zero_state_def demo_start_def)
  moreover have "trim_space ''/p'' = ''/p''" by code_simp
  ultimately show ?thesis
    using v by (auto simp: write_record_def ensure_project_def save_event_def save_session_def empty_database_def null_string_def)
qed

theorem stopped_journal_holds_every_record_witness:
  "event_id demo_start \<in> er_event_id ` set (db_events (snd (stop_journal [] 9 (demo_begun, empty_database))))"
proof -
  let ?r = "stop_journal [] 9 (demo_begun, empty_database)"
  have "ap_journal_status (fst ?r) = status_stopped"
    using demo_write_record by (auto simp: stop_journal_def demo_begun_facts Let_def split: prod.splits)
  from stopped_journal_holds_every_record [OF _ demo_begun_facts(3) this] show ?thesis by auto
qed

text \<open>A write that goes through the diff pipeline.\<close>

definition demo_write :: event where
  "demo_write = demo_read\<lparr>event_type := File_modified, lines_added := Some 3, lines_deleted := Some 0\<rparr>"

definition demo_write_normal :: event where
  "demo_write_normal = demo_write\<lparr>project_root := ''/p'', ev_path := ''l''\<rparr>"

definition demo_writing :: state where "demo_writing = apply_session app_timeout demo_started demo_write_normal"

definition demo_request :: request where
  "demo_request = diff_request ''/p'' demo_write_normal (open_interval zero_state demo_write_normal)"

definition demo_result :: result where
  "demo_result = new_result demo_request (Some 3) (Some 0) status_known source_structured_patch Conf_exact"

definition demo_wrote :: "unit app" where
  "demo_wrote = fst (publish_event demo_app_env demo_fs False demo_begun demo_write)"

lemma demo_write_normalized: "normalize_event demo_fs demo_write ''/p'' = Inr demo_write_normal"
proof -
  have l: "label [] n = []" for n by (simp add: label_Nil)
  have "validate demo_write = None" by code_simp
  moreover have "normalize_project_path demo_fs ''/p'' ''./d/../l'' = Inr ''l''" by code_simp
  moreover have "path_abs demo_fs ''/p'' = Some ''/p''" by code_simp
  ultimately show ?thesis
    by (simp add: normalize_event_def sanitize_event_def l Let_def secondary_strings_def sanitize_metadata_def
        List.map_filter_simps normalize_optional_def demo_write_def demo_write_normal_def demo_read_def sample_read_def zero_event_def)
qed


lemma submit_diff_diffs:
  "diff_interval e s = Some iv \<Longrightarrow>
   ap_diffs (fst (submit_diff refuse a e s)) = fst (offer_request refuse (ap_diffs a) (diff_request (ap_root a) e iv))"
  by (simp add: submit_diff_def Let_def split: prod.split sum.split)

lemma demo_wrote_diffs: "ap_diffs demo_wrote = fst (offer_request False (new_pipeline 64 16) demo_request)"
proof -
  have fields: "ev_metadata demo_write_normal = []" "session_id demo_write_normal = ''s''" "event_type demo_write_normal = File_modified"
    "ev_path demo_write_normal = ''l''" "ev_node_id demo_write_normal = []"
    by (simp_all add: demo_write_normal_def demo_write_def demo_read_def sample_read_def zero_event_def)
  have node: "demo_write_normal\<lparr>ev_node_id := []\<rparr> = demo_write_normal" using fields(5) by simp
  have ap: "engine_apply (ap_focus demo_begun) demo_write_normal = ((new_engine app_timeout)\<lparr>sessions := [''s'' \<mapsto> demo_writing]\<rparr>, Inr demo_writing)"
    by (simp add: engine_apply_def put_session_def demo_begun_facts fields demo_writing_def)
  obtain iv where iv: "diff_interval demo_write_normal demo_writing = Some iv" "iv_sequence iv = 1"
  proof -
    have "map_option iv_sequence (diff_interval demo_write_normal demo_writing) = Some 1" by code_simp
    then show thesis using that by auto
  qed
  let ?a = "demo_begun\<lparr>ap_focus := (new_engine app_timeout)\<lparr>sessions := [''s'' \<mapsto> demo_writing]\<rparr>\<rparr>"
  have "ap_identity demo_begun = Some (apply_identity_lifecycle (ae_identity demo_app_env) demo_write_normal (new_registry ''/p'' False))"
    by (simp add: apply_identity_lifecycle_def fields demo_begun_facts)
  then have a: "demo_begun\<lparr>ap_identity := Some (apply_identity_lifecycle (ae_identity demo_app_env) demo_write_normal (new_registry ''/p'' False))\<rparr> = demo_begun"
    by simp
  have "ap_diffs demo_wrote = ap_diffs (fst (submit_diff False ?a demo_write_normal demo_writing))"
    unfolding demo_wrote_def publish_event_def demo_begun_facts(5,7) demo_write_normalized option.case sum.case Let_def a
    by (simp add: fields node demo_unknown_node demo_begun_facts with_secondary_paths_def ap [unfolded demo_begun_facts] split: prod.split)
  moreover have "diff_request ''/p'' demo_write_normal iv = demo_request"
    using iv(2) by (simp add: diff_request_def demo_request_def open_interval_def zero_state_def)
  ultimately show ?thesis by (simp add: submit_diff_diffs [OF iv(1)] demo_begun_facts)
qed


definition demo_queued :: pipeline where
  "demo_queued = fst (offer_request False (new_pipeline 64 16) demo_request)"

definition demo_answered :: "unit app" where
  "demo_answered = demo_wrote\<lparr>ap_diffs := publish_send (demo_queued\<lparr>pl_queue := [], pl_worker := W_publish [demo_result]\<rparr>) demo_result []\<rparr>"

lemma demo_queued_facts: "pl_queue demo_queued = [demo_request]" "pl_worker demo_queued = W_idle" "pl_offering demo_queued = []"
  "pl_dropping demo_queued = []" "pl_results demo_queued = []" "pl_capacity demo_queued = 64"
  by (simp_all add: demo_queued_def offer_request_def offer_begin_def new_pipeline_def offer_count_def offer_enqueue_def queue_full_def
      Let_def demo_request_def diff_request_def copy_slice_def demo_write_normal_def demo_write_def demo_read_def sample_read_def)

lemma demo_processed: "process runner h (git_groups h [demo_request]) [demo_request] = [demo_result]"
proof -
  have "resolve_direct demo_request = Some demo_result" by code_simp
  then show ?thesis by (simp add: process_def git_groups_def direct_result_def List.map_filter_simps)
qed

theorem diff_result_finds_its_access_witness:
  "\<exists>E s. engine_set_work_result (ap_focus demo_answered) ''s'' 1 (Some 3) (Some 0) status_known source_structured_patch Conf_exact = (E, Inr s) \<and>
    1 \<in> set (sequences s)"
proof -
  let ?P = "\<lambda>fs e. True"
  let ?p1 = "demo_queued\<lparr>pl_queue := [], pl_worker := W_collect [demo_request]\<rparr>"
  let ?p2 = "demo_queued\<lparr>pl_queue := [], pl_worker := W_publish [demo_result]\<rparr>"
  have "app_run demo_app_env ?P demo_app demo_wrote"
    unfolding demo_wrote_def demo_begun_def
    by (rule app_run.step [OF app_run.step [OF app_run.init app_step.publish] app_step.publish]) simp_all
  then have "app_run demo_app_env ?P demo_app (demo_wrote\<lparr>ap_diffs := ?p1\<rparr>)"
    by (rule app_run.step, intro app_step.worker)
      (use pipeline_step.receive [of demo_queued demo_request "[]"] in \<open>simp_all add: demo_wrote_diffs [folded demo_queued_def] demo_queued_facts\<close>)
  moreover have "app_step demo_app_env ?P (demo_wrote\<lparr>ap_diffs := ?p1\<rparr>) ((demo_wrote\<lparr>ap_diffs := ?p1\<rparr>)\<lparr>ap_diffs := ?p2\<rparr>)"
    using pipeline_step.process [of ?p1 "[demo_request]" "git_groups False [demo_request]" False "\<lambda>_ _. None"]
    by (intro app_step.worker) (simp_all add: demo_queued_facts demo_processed)
  ultimately have "app_run demo_app_env ?P demo_app (demo_wrote\<lparr>ap_diffs := ?p2\<rparr>)" by (auto intro: app_run.step)
  moreover have "app_step demo_app_env ?P (demo_wrote\<lparr>ap_diffs := ?p2\<rparr>) demo_answered"
    using app_step.worker [of "demo_wrote\<lparr>ap_diffs := ?p2\<rparr>" "publish_send ?p2 demo_result []" demo_app_env ?P]
      pipeline_step.publish [of ?p2 demo_result "[]"]
    by (simp add: demo_answered_def demo_queued_facts publish_send_def)
  ultimately have run: "app_run demo_app_env ?P demo_app demo_answered" by (rule app_run.step)
  have res: "pl_results (ap_diffs demo_answered) = [demo_result]"
    by (simp add: demo_answered_def publish_send_def demo_queued_facts)
  have "pending_work (ap_diffs demo_app) = {}" by (simp add: demo_fields pending_work_def new_pipeline_def Let_def)
  moreover have "rs_session_id demo_result = ''s''" "rs_sequence demo_result = 1" "rs_added demo_result = Some 3" "rs_deleted demo_result = Some 0"
    "rs_status demo_result = status_known" "rs_source demo_result = source_structured_patch" "rs_confidence demo_result = Conf_exact"
    by code_simp+
  ultimately show ?thesis using diff_result_finds_its_access [OF run _ res] by simp
qed

end
