(* ===== verification/Git_Evidence.thy ===== *)
theory Git_Evidence
  imports Go_Text Paths Diff_Pipeline
begin

text \<open>
  What the program reads from the output of Git: \<^verbatim>\<open>internal/adapters/filesystem/git.go\<close> (the porcelain status and the numstat of the
  wrapper's observer, both separated by zero bytes) and \<^verbatim>\<open>internal/diff/git.go\<close> (the line-based numstat of the diff pipeline).  The outputs
  themselves are parameters: a text, or \<^const>\<open>None\<close> when the command failed.
\<close>

section \<open>The evidence of the observer\<close>

record git_status =
  gs_index :: char
  gs_worktree :: char

text \<open>The renames are iterated over later on, so their map is an association list; the order is that of the iteration.\<close>

record git_evidence =
  ge_status :: "string \<rightharpoonup> git_status"
  ge_renames :: "(string \<times> string) list"
  ge_deltas :: "string \<rightharpoonup> git_delta"

definition no_evidence :: git_evidence where
  "no_evidence = \<lparr>ge_status = Map.empty, ge_renames = [], ge_deltas = Map.empty\<rparr>"

definition relative_paths :: "string \<Rightarrow> string list \<Rightarrow> string list" where
  "relative_paths root paths =
     keep_first (\<lambda>p. p) {}
       (List.map_filter (\<lambda>p. case path_rel root p of
           None \<Rightarrow> None
         | Some relative \<Rightarrow> if relative = ''.'' \<or> has_prefix relative ''../'' then None else Some relative) paths)"

text \<open>\<^verbatim>\<open>parseStatus\<close>: the loop over the records; the name before a rename is a record of its own and is skipped over.\<close>

type_synonym status_maps = "(string \<rightharpoonup> git_status) \<times> (string \<times> string) list"

definition short_record :: "string \<Rightarrow> bool" where
  "short_record r \<longleftrightarrow> length r < 4 \<or> r ! 2 \<noteq> CHR '' ''"

definition renamed_record :: "string \<Rightarrow> bool" where
  "renamed_record r \<longleftrightarrow> r ! 0 = CHR ''R'' \<or> r ! 1 = CHR ''R''"

definition put_status :: "string \<Rightarrow> status_maps \<Rightarrow> status_maps" where
  "put_status r m = ((fst m)(drop 3 r \<mapsto> \<lparr>gs_index = r ! 0, gs_worktree = r ! 1\<rparr>), snd m)"

definition put_rename :: "string \<Rightarrow> string \<Rightarrow> status_maps \<Rightarrow> status_maps" where
  "put_rename previous r m = (if previous = [] then m else (fst m, AList.update previous (drop 3 r) (snd m)))"

fun status_loop :: "string list \<Rightarrow> status_maps \<Rightarrow> status_maps" where
  "status_loop [] m = m"
| "status_loop [r] m = (if short_record r then m else put_status r m)"
| "status_loop (r # previous # rs) m =
     (if short_record r then status_loop (previous # rs) m
      else if renamed_record r then status_loop rs (put_rename previous r (put_status r m))
      else status_loop (previous # rs) (put_status r m))"

definition parse_status :: "string \<Rightarrow> status_maps \<Rightarrow> status_maps" where
  "parse_status output m = status_loop (split_char (CHR 0x00) output) m"

text \<open>One record of a numstat: the path and its counts.\<close>

definition numstat_fields :: "string \<Rightarrow> string \<Rightarrow> string \<Rightarrow> (string \<times> git_delta) option" where
  "numstat_fields a d path =
     (if a = ''-'' \<or> d = ''-'' then Some (path, \<lparr>gd_added = 0, gd_deleted = 0, gd_binary = True\<rparr>)
      else if snd (parse_int a) \<and> snd (parse_int d)
      then Some (path, \<lparr>gd_added = fst (parse_int a), gd_deleted = fst (parse_int d), gd_binary = False\<rparr>)
      else None)"

definition numstat_record :: "string \<Rightarrow> (string \<times> git_delta) option" where
  "numstat_record r =
     (case split_n (CHR 0x09) 3 r of [a, d, path] \<Rightarrow> if path = [] then None else numstat_fields a d path | _ \<Rightarrow> None)"

definition put_delta :: "(string \<times> git_delta) option \<Rightarrow> (string \<rightharpoonup> git_delta) \<Rightarrow> (string \<rightharpoonup> git_delta)" where
  "put_delta x m = (case x of None \<Rightarrow> m | Some (path, d) \<Rightarrow> m(path \<mapsto> d))"

definition parse_numstat :: "string \<Rightarrow> (string \<rightharpoonup> git_delta) \<Rightarrow> (string \<rightharpoonup> git_delta)" where
  "parse_numstat output m = fold (\<lambda>r. put_delta (numstat_record r)) (split_char (CHR 0x00) output) m"

text \<open>\<^verbatim>\<open>Inspect\<close>: the evidence and whether an error is returned with it.  The functions give the outputs of the two commands for the paths asked
  about.\<close>

definition inspect :: "(string \<Rightarrow> string list \<Rightarrow> string option) \<Rightarrow> (string \<Rightarrow> string list \<Rightarrow> string option) \<Rightarrow>
    string \<Rightarrow> string list \<Rightarrow> git_evidence \<times> bool" where
  "inspect status_output diff_output root paths =
     (let relative = relative_paths root paths in
      case status_output root relative of
        None \<Rightarrow> (no_evidence, True)
      | Some out \<Rightarrow>
          let m = parse_status out (Map.empty, []); ev = \<lparr>ge_status = fst m, ge_renames = snd m, ge_deltas = Map.empty\<rparr> in
          (case diff_output root relative of
             None \<Rightarrow> (ev, True)
           | Some out2 \<Rightarrow> (ev\<lparr>ge_deltas := parse_numstat out2 Map.empty\<rparr>, False)))"

section \<open>The numstat of the diff pipeline\<close>

text \<open>The lines of \<^verbatim>\<open>bufio.Scanner\<close> up to one that does not fit its buffer, and whether there is such a line.\<close>

definition max_scan_token :: nat where "max_scan_token = 65536"

definition numstat_lines :: "string \<Rightarrow> string list \<times> bool" where
  "numstat_lines text =
     (let ls = split_char (CHR 0x0A) text; ls' = (if last ls = [] then butlast ls else ls);
          fits = takeWhile (\<lambda>l. length l < max_scan_token) ls'
      in (map (\<lambda>l. if l \<noteq> [] \<and> last l = CHR 0x0D then butlast l else l) fits, length fits < length ls'))"

text \<open>\<^verbatim>\<open>strings.Trim\<close> with one double quote as its set.\<close>

definition trim_quotes :: "string \<Rightarrow> string" where
  "trim_quotes s = rev (dropWhile (\<lambda>c. c = CHR 0x22) (rev (dropWhile (\<lambda>c. c = CHR 0x22) s)))"

definition numstat_line :: "string \<Rightarrow> (string \<times> git_delta) option" where
  "numstat_line l = (case split_n (CHR 0x09) 3 l of [a, d, path] \<Rightarrow> numstat_fields a d (trim_quotes path) | _ \<Rightarrow> None)"

definition numstat :: "(string \<Rightarrow> string list \<Rightarrow> string option) \<Rightarrow> runner" where
  "numstat diff_output root paths =
     (case diff_output root paths of
        None \<Rightarrow> None
      | Some output \<Rightarrow>
          (case numstat_lines output of (ls, too_long) \<Rightarrow>
             if too_long then None else Some (fold (\<lambda>l. put_delta (numstat_line l)) ls Map.empty)))"

section \<open>Reading back what Git prints\<close>

text \<open>A record of the porcelain status: two letters, the path and, for a rename, the path before.\<close>

record status_entry =
  se_index :: char
  se_worktree :: char
  se_path :: string
  se_previous :: string

definition entry_renamed :: "status_entry \<Rightarrow> bool" where
  "entry_renamed e \<longleftrightarrow> se_index e = CHR ''R'' \<or> se_worktree e = CHR ''R''"

definition entry_text :: "status_entry \<Rightarrow> string" where
  "entry_text e = [se_index e, se_worktree e, CHR '' ''] @ se_path e @ [CHR 0x00] @
     (if entry_renamed e then se_previous e @ [CHR 0x00] else [])"

definition status_entry_ok :: "status_entry \<Rightarrow> bool" where
  "status_entry_ok e \<longleftrightarrow> se_path e \<noteq> [] \<and> CHR 0x00 \<notin> set ([se_index e, se_worktree e] @ se_path e @ se_previous e) \<and>
     (entry_renamed e \<longrightarrow> se_previous e \<noteq> [])"

definition entry_maps :: "status_entry \<Rightarrow> status_maps \<Rightarrow> status_maps" where
  "entry_maps e m =
     ((fst m)(se_path e \<mapsto> \<lparr>gs_index = se_index e, gs_worktree = se_worktree e\<rparr>),
      if entry_renamed e then AList.update (se_previous e) (se_path e) (snd m) else snd m)"

lemma status_loop_entry:
  assumes "status_entry_ok e" and "rs \<noteq> []"
  shows "status_loop ([se_index e # se_worktree e # CHR '' '' # se_path e] @ (if entry_renamed e then [se_previous e] else []) @ rs) m =
    status_loop rs (entry_maps e m)"
proof -
  let ?r = "se_index e # se_worktree e # CHR '' '' # se_path e"
  have r: "\<not> short_record ?r" "renamed_record ?r = entry_renamed e" "put_status ?r m = (fst (entry_maps e m), snd m)"
    "drop 3 ?r = se_path e"
    using assms(1) by (cases "se_path e") (auto simp: short_record_def renamed_record_def entry_renamed_def put_status_def entry_maps_def status_entry_ok_def
        nth_Cons' eval_nat_numeral)
  show ?thesis
  proof (cases "entry_renamed e")
    case True
    then have "se_previous e \<noteq> []" using assms(1) by (simp add: status_entry_ok_def)
    then have "put_rename (se_previous e) ?r (put_status ?r m) = entry_maps e m"
      using True r(3,4) by (simp add: put_rename_def entry_maps_def)
    with True r show ?thesis by simp
  next
    case False
    with assms(2) obtain x xs where rs: "rs = x # xs" by (cases rs) auto
    have "put_status ?r m = entry_maps e m" using False r(3) by (simp add: entry_maps_def)
    with False r rs show ?thesis by simp
  qed
qed

lemma split_status_entry:
  assumes "status_entry_ok e"
  shows "split_char (CHR 0x00) (entry_text e @ rest) =
    [se_index e # se_worktree e # CHR '' '' # se_path e] @ (if entry_renamed e then [se_previous e] else []) @ split_char (CHR 0x00) rest"
proof -
  have n: "CHR 0x00 \<notin> set (se_index e # se_worktree e # CHR '' '' # se_path e)" "CHR 0x00 \<notin> set (se_previous e)"
    using assms by (auto simp: status_entry_ok_def)
  show ?thesis
    using split_char_append [OF n(1), of "(if entry_renamed e then se_previous e @ [CHR 0x00] else []) @ rest"]
      split_char_append [OF n(2), of rest]
    by (simp add: entry_text_def)
qed

text \<open>The porcelain status of Git is read back.  For every list of entries, printed as \<^verbatim>\<open>git status --porcelain=v1 -z\<close> does, the maps hold the
  letters of every path (the last entry of a path counts) and the new path of every renamed one.\<close>

theorem status_read_back:
  assumes "list_all status_entry_ok es"
  shows "parse_status (concat (map entry_text es)) m = fold entry_maps es m"
  using assms
proof (induction es arbitrary: m)
  case Nil
  show ?case by (simp add: parse_status_def short_record_def)
next
  case (Cons e es)
  then have ok: "status_entry_ok e" by simp
  have "parse_status (concat (map entry_text (e # es))) m =
      status_loop ([se_index e # se_worktree e # CHR '' '' # se_path e] @ (if entry_renamed e then [se_previous e] else []) @
        split_char (CHR 0x00) (concat (map entry_text es))) m"
    using split_status_entry [OF ok] by (simp add: parse_status_def)
  also have "\<dots> = parse_status (concat (map entry_text es)) (entry_maps e m)"
    unfolding parse_status_def by (rule status_loop_entry [OF ok]) simp
  finally show ?case using Cons by simp
qed

section \<open>Names Git quotes\<close>

text \<open>A name with bytes outside ASCII, as \<^verbatim>\<open>git diff --numstat\<close> prints it without \<^verbatim>\<open>-z\<close>: in quotes, with the bytes in octal.\<close>

definition quoted_output :: string where
  "quoted_output = ''3'' @ [CHR 0x09] @ ''1'' @ [CHR 0x09, CHR 0x22] @ ''caf'' @ [CHR 0x5C] @ ''303'' @ [CHR 0x5C] @ ''251.go'' @ [CHR 0x22, CHR 0x0A]"

definition accented_name :: string where
  "accented_name = ''caf'' @ [CHR 0xC3, CHR 0xA9] @ ''.go''"

text \<open>The pipeline trims the quotes but does not undo the quoting, so the counts of such a file are never found, whatever the output says of it.\<close>

theorem quoted_name_has_no_counts:
  "(\<exists>m. numstat (\<lambda>_ _. Some quoted_output) root [accented_name] = Some m \<and> m accented_name = None \<and> m \<noteq> Map.empty)"
proof -
  let ?d = "\<lparr>gd_added = 3, gd_deleted = 1, gd_binary = False\<rparr>"
  let ?p = "''caf'' @ [CHR 0x5C] @ ''303'' @ [CHR 0x5C] @ ''251.go''"
  have "numstat_lines quoted_output = ([butlast quoted_output], False)"
    by (simp add: numstat_lines_def quoted_output_def max_scan_token_def)
  moreover have "numstat_line (butlast quoted_output) = Some (?p, ?d)" by code_simp
  ultimately have "numstat (\<lambda>_ _. Some quoted_output) root [accented_name] = Some [?p \<mapsto> ?d]"
    by (simp add: numstat_def put_delta_def)
  then show ?thesis by (simp add: accented_name_def)
qed

section \<open>Example\<close>

definition demo_entries :: "status_entry list" where
  "demo_entries = [\<lparr>se_index = CHR ''R'', se_worktree = CHR ''M'', se_path = ''b.go'', se_previous = ''a.go''\<rparr>,
     \<lparr>se_index = CHR '' '', se_worktree = CHR ''M'', se_path = ''c d.go'', se_previous = []\<rparr>]"

theorem status_read_back_witness:
  "snd (parse_status (concat (map entry_text demo_entries)) (Map.empty, [])) = [(''a.go'', ''b.go'')]"
proof -
  have "list_all status_entry_ok demo_entries" by (simp add: demo_entries_def status_entry_ok_def entry_renamed_def)
  from status_read_back [OF this, of "(Map.empty, [])"] show ?thesis
    by (simp add: demo_entries_def entry_maps_def entry_renamed_def)
qed

end
