(* ===== verification/Adapter_Contract.thy ===== *)
theory Adapter_Contract
  imports Protocol
begin

text \<open>
  \<^verbatim>\<open>adapter/go/adapter.go\<close>: the public contract of an adapter.  An adapter describes itself (\<open>descriptor\<close>) and hands its
  events to an emitter, which must never block nor fail; \<open>bounded_emitter\<close> is the emitter the package provides, with a
  goroutine for every batch in flight and a bound on their number.
\<close>

section \<open>Descriptors\<close>

datatype capability =
    Cap_session_lifecycle | Cap_agent_lifecycle | Cap_tool_lifecycle | Cap_file_read | Cap_file_write | Cap_file_move
  | Cap_file_delete | Cap_command_lifecycle | Cap_structured_patch | Cap_work_delta | Cap_other string

fun valid_capability :: "capability \<Rightarrow> bool" where
  "valid_capability (Cap_other _) = False"
| "valid_capability _ = True"

record descriptor =
  ds_id :: string
  ds_version :: string
  ds_protocol_version :: string
  ds_capabilities :: "capability list"

datatype descriptor_error =
    Id_required | Version_required | Unsupported_protocol string | Unsupported_capability capability
  | Duplicate_capability capability

fun check_capabilities :: "capability set \<Rightarrow> capability list \<Rightarrow> descriptor_error option" where
  "check_capabilities seen [] = None"
| "check_capabilities seen (c # cs) =
     (if \<not> valid_capability c then Some (Unsupported_capability c)
      else if c \<in> seen then Some (Duplicate_capability c)
      else check_capabilities (insert c seen) cs)"

definition validate_descriptor :: "descriptor \<Rightarrow> descriptor_error option" where
  "validate_descriptor d =
     (if ds_id d = [] then Some Id_required
      else if ds_version d = [] then Some Version_required
      else if ds_protocol_version d \<noteq> schema_version_const then Some (Unsupported_protocol (ds_protocol_version d))
      else check_capabilities {} (ds_capabilities d))"

definition sdk_version :: string where "sdk_version = ''1.0''"

lemma check_capabilities_None:
  "check_capabilities seen cs = None \<longleftrightarrow> list_all valid_capability cs \<and> distinct cs \<and> set cs \<inter> seen = {}"
  by (induction seen cs rule: check_capabilities.induct) auto

text \<open>A descriptor is accepted exactly when it names itself, speaks this version of the protocol and lists known capabilities
  without repetition.\<close>

lemma validate_descriptor_None:
  "validate_descriptor d = None \<longleftrightarrow> ds_id d \<noteq> [] \<and> ds_version d \<noteq> [] \<and> ds_protocol_version d = schema_version_const \<and>
     list_all valid_capability (ds_capabilities d) \<and> distinct (ds_capabilities d)"
  by (simp add: validate_descriptor_def check_capabilities_None)

section \<open>Batches\<close>

definition default_max_in_flight :: nat where "default_max_in_flight = 4"
definition default_max_events :: nat where "default_max_events = 128"
definition default_emitter_deadline :: duration where "default_emitter_deadline = 75 * millisecond"

definition valid_batch :: "event list \<Rightarrow> nat \<Rightarrow> event list" where
  "valid_batch es limit = filter (\<lambda>e. validate e = None) (take limit es)"

lemma valid_batch_bounds:
  "length (valid_batch es n) \<le> n" "set (valid_batch es n) \<subseteq> set es" "list_all (\<lambda>e. validate e = None) (valid_batch es n)"
  "mset (valid_batch es n) \<subseteq># mset es"
proof -
  have "length (valid_batch es n) \<le> length (take n es)" unfolding valid_batch_def by (rule length_filter_le)
  then show "length (valid_batch es n) \<le> n" by simp
  show "set (valid_batch es n) \<subseteq> set es" by (auto simp: valid_batch_def dest: in_set_takeD)
  show "list_all (\<lambda>e. validate e = None) (valid_batch es n)" by (simp add: valid_batch_def list_all_iff)
  have "mset (take n es) \<subseteq># mset es" by (metis append_take_drop_id mset_append mset_subset_eq_add_left)
  then show "mset (valid_batch es n) \<subseteq># mset es"
    unfolding valid_batch_def mset_filter by (meson multiset_filter_subset subset_mset.order_trans)
qed

text \<open>When every event is valid and there are not too many, the batch is passed on as it is.\<close>

lemma valid_batch_id: "length es \<le> n \<Longrightarrow> list_all (\<lambda>e. validate e = None) es \<Longrightarrow> valid_batch es n = es"
  by (simp add: valid_batch_def list_all_iff)

section \<open>Emitters\<close>

text \<open>What a caller of \<^verbatim>\<open>Emitter.Emit\<close> may rely on: an emission only adds to what the emitter has taken, entries of a given kind.\<close>

locale event_sink =
  fixes emit :: "event list \<Rightarrow> 's \<Rightarrow> 's" and taken :: "'s \<Rightarrow> 'e list" and fine :: "'e \<Rightarrow> bool"
  assumes emit_grows: "\<exists>xs. taken (emit es s) = taken s @ xs \<and> list_all fine xs"
begin

lemma emits_grow: "\<exists>xs. taken (foldl (\<lambda>s es. emit es s) s outs) = taken s @ xs \<and> list_all fine xs"
proof (induction outs arbitrary: s)
  case (Cons es outs)
  obtain xs where xs: "taken (emit es s) = taken s @ xs" "list_all fine xs" using emit_grows by blast
  from Cons [of "emit es s"] obtain ys where
    "taken (foldl (\<lambda>s es. emit es s) (emit es s) outs) = taken (emit es s) @ ys" "list_all fine ys" by blast
  with xs show ?case by simp
qed simp

lemma emits_keep: "list_all fine (taken s) \<Longrightarrow> list_all fine (taken (foldl (\<lambda>s es. emit es s) s outs))"
  using emits_grow [of s outs] by auto

end

section \<open>The bounded emitter\<close>

record bounded_emitter =
  em_collector :: bool
  em_max_events :: nat
  em_slots :: nat
  em_flying :: "event list list"
  em_sent :: "event list list"

definition new_bounded_emitter :: "bool \<Rightarrow> int \<Rightarrow> int \<Rightarrow> bounded_emitter" where
  "new_bounded_emitter collector max_in_flight max_events =
     \<lparr>em_collector = collector,
      em_max_events = (if max_events \<le> 0 then default_max_events else nat max_events),
      em_slots = (if max_in_flight \<le> 0 then default_max_in_flight else nat max_in_flight),
      em_flying = [], em_sent = []\<rparr>"

text \<open>\<^verbatim>\<open>Emit\<close> takes a slot or drops the batch; the goroutine it starts calls the collector and frees the slot.\<close>

definition bounded_emit :: "event list \<Rightarrow> bounded_emitter \<Rightarrow> bounded_emitter" where
  "bounded_emit es b =
     (let batch = valid_batch es (em_max_events b) in
      if \<not> em_collector b \<or> batch = [] \<or> em_slots b \<le> length (em_flying b) then b
      else b\<lparr>em_flying := em_flying b @ [batch]\<rparr>)"

definition flight_sends :: "event list \<Rightarrow> bounded_emitter \<Rightarrow> bounded_emitter" where
  "flight_sends batch b = b\<lparr>em_flying := remove1 batch (em_flying b), em_sent := em_sent b @ [batch]\<rparr>"

inductive emitter_reachable :: "bounded_emitter \<Rightarrow> bool" where
  init: "emitter_reachable (new_bounded_emitter collector max_in_flight max_events)"
| emit: "emitter_reachable b \<Longrightarrow> emitter_reachable (bounded_emit es b)"
| sends: "emitter_reachable b \<Longrightarrow> batch \<in> set (em_flying b) \<Longrightarrow> emitter_reachable (flight_sends batch b)"

definition batch_ok :: "nat \<Rightarrow> event list \<Rightarrow> bool" where
  "batch_ok n es \<longleftrightarrow> es \<noteq> [] \<and> length es \<le> n \<and> list_all (\<lambda>e. validate e = None) es"

lemma valid_batch_ok: "valid_batch es n \<noteq> [] \<Longrightarrow> batch_ok n (valid_batch es n)"
  using valid_batch_bounds [of es n] by (simp add: batch_ok_def)

interpretation bounded_sink: event_sink bounded_emit em_flying "\<lambda>batch. batch \<noteq> [] \<and> list_all (\<lambda>e. validate e = None) batch"
  by unfold_locales (auto simp: bounded_emit_def Let_def valid_batch_bounds)

text \<open>The emitter never has more calls in flight than slots, and the collector only sees non-empty batches of valid events within
  the limit.\<close>

lemma emitter_bounded:
  "emitter_reachable b \<Longrightarrow> length (em_flying b) \<le> em_slots b \<and> list_all (batch_ok (em_max_events b)) (em_flying b @ em_sent b)"
proof (induction rule: emitter_reachable.induct)
  case (emit b es)
  then show ?case using valid_batch_ok [of es "em_max_events b"] by (auto simp: bounded_emit_def Let_def)
next
  case (sends b batch)
  then show ?case
    by (auto simp: flight_sends_def list_all_iff length_remove1 dest!: subsetD [OF set_remove1_subset])
qed (simp add: new_bounded_emitter_def)

end
