(* ===== verification/Wrapper.thy ===== *)
theory Wrapper
  imports Adapter_Contract Event_Fields Security Path_Normalize Session_Inv Go_Text
begin

text \<open>
  The generic wrapper of \<^verbatim>\<open>adapter/go/wrapper\<close>: the delivery to the collector (\<^verbatim>\<open>delivery.go\<close>), the events that mark the start and
  the end of the wrapped command (\<^verbatim>\<open>lifecycle.go\<close>), the defaults of a run (\<^verbatim>\<open>prepareConfig\<close> in \<^verbatim>\<open>wrapper.go\<close>) and the exit
  status handed on (\<^verbatim>\<open>processResult\<close> in \<^verbatim>\<open>process_unix.go\<close>).  Starting the process, relaying signals and the deadlines of the
  \<^verbatim>\<open>select\<close> statements are not modelled.
\<close>

section \<open>Delivery\<close>

text \<open>A batch in the queue carries whether somebody waits for it.  Callers and the worker interleave freely; \<open>dl_accepted\<close> records the batches that
  entered the queue and \<open>dl_served\<close> those the worker has sent.\<close>

record delivery =
  dl_collector :: bool
  dl_capacity :: nat
  dl_queue :: "(event list \<times> bool) list"
  dl_busy :: "(event list \<times> bool) option"
  dl_aside :: "event list list"
  dl_acked :: bool
  dl_stopped :: bool
  dl_returned :: bool
  dl_sent :: "event list list"
  dl_accepted :: "(event list \<times> bool) list"
  dl_served :: "(event list \<times> bool) list"

definition new_dispatcher :: "bool \<Rightarrow> nat \<Rightarrow> delivery" where
  "new_dispatcher collector capacity =
     \<lparr>dl_collector = collector, dl_capacity = capacity, dl_queue = [], dl_busy = None, dl_aside = [], dl_acked = False,
      dl_stopped = False, dl_returned = False, dl_sent = [], dl_accepted = [], dl_served = []\<rparr>"

definition valid_events :: "event list \<Rightarrow> event list" where
  "valid_events es = filter (\<lambda>e. validate e = None) (take default_max_events es)"

definition offer_batch :: "event list \<times> bool \<Rightarrow> delivery \<Rightarrow> delivery \<times> bool" where
  "offer_batch b d =
     (if fst b = [] then (d, False)
      else if length (dl_queue d) < dl_capacity d
      then (d\<lparr>dl_queue := dl_queue d @ [b], dl_accepted := dl_accepted d @ [b]\<rparr>, True)
      else (d, False))"

definition emit_events :: "event list \<Rightarrow> delivery \<Rightarrow> delivery" where
  "emit_events es d = fst (offer_batch (valid_events es, False) d)"

text \<open>A final batch that finds no place in the queue is sent by a goroutine of its own.\<close>

definition emit_final :: "event list \<Rightarrow> delivery \<Rightarrow> delivery" where
  "emit_final es d =
     (let b = (valid_events es, True) in
      case offer_batch b d of (d', queued) \<Rightarrow> if queued then d' else d'\<lparr>dl_aside := dl_aside d' @ [fst b]\<rparr>)"

definition send_events :: "event list \<Rightarrow> delivery \<Rightarrow> delivery" where
  "send_events es d = (if \<not> dl_collector d \<or> es = [] then d else d\<lparr>dl_sent := dl_sent d @ [es]\<rparr>)"

definition dispatch_receive :: "delivery \<Rightarrow> delivery" where
  "dispatch_receive d = (case dl_queue d of [] \<Rightarrow> d | b # bs \<Rightarrow> d\<lparr>dl_queue := bs, dl_busy := Some b\<rparr>)"

definition dispatch_send :: "event list \<times> bool \<Rightarrow> delivery \<Rightarrow> delivery" where
  "dispatch_send b d =
     (send_events (fst b) d)\<lparr>dl_busy := None, dl_acked := dl_acked d \<or> snd b, dl_served := dl_served d @ [b]\<rparr>"

definition aside_send :: "event list \<Rightarrow> delivery \<Rightarrow> delivery" where
  "aside_send es d = (send_events es d)\<lparr>dl_aside := remove1 es (dl_aside d), dl_acked := True\<rparr>"

inductive delivery_step :: "delivery \<Rightarrow> delivery \<Rightarrow> bool" where
  emit: "delivery_step d (emit_events es d)"
| final: "delivery_step d (emit_final es d)"
| receive: "dl_busy d = None \<Longrightarrow> \<not> dl_returned d \<Longrightarrow> delivery_step d (dispatch_receive d)"
| send: "dl_busy d = Some b \<Longrightarrow> delivery_step d (dispatch_send b d)"
| aside: "es \<in> set (dl_aside d) \<Longrightarrow> delivery_step d (aside_send es d)"
| stop: "delivery_step d (d\<lparr>dl_stopped := True\<rparr>)"
| return: "dl_stopped d \<Longrightarrow> dl_busy d = None \<Longrightarrow> delivery_step d (d\<lparr>dl_returned := True\<rparr>)"

inductive delivery_reachable :: "bool \<Rightarrow> nat \<Rightarrow> delivery \<Rightarrow> bool" for collector capacity where
  init: "delivery_reachable collector capacity (new_dispatcher collector capacity)"
| step: "delivery_reachable collector capacity d \<Longrightarrow> delivery_step d d' \<Longrightarrow> delivery_reachable collector capacity d'"

lemma valid_events_batch: "valid_events es = valid_batch es default_max_events"
  by (simp add: valid_events_def valid_batch_def)

definition delivery_ok :: "delivery \<Rightarrow> bool" where
  "delivery_ok d \<longleftrightarrow>
     dl_accepted d = dl_served d @ (case dl_busy d of None \<Rightarrow> [] | Some b \<Rightarrow> [b]) @ dl_queue d \<and>
     length (dl_queue d) \<le> dl_capacity d \<and>
     list_all (\<lambda>b. batch_ok default_max_events (fst b)) (dl_accepted d) \<and>
     list_all (\<lambda>es. es = [] \<or> batch_ok default_max_events es) (dl_aside d) \<and>
     list_all (batch_ok default_max_events) (dl_sent d) \<and>
     (dl_collector d \<longrightarrow> set (map fst (dl_served d)) \<subseteq> set (dl_sent d))"

lemma batch_ok_Nil [simp]: "\<not> batch_ok n []"
  by (simp add: batch_ok_def)

lemma valid_events_ok: "valid_events es = [] \<or> batch_ok default_max_events (valid_events es)"
  using valid_batch_ok [of es default_max_events] by (auto simp: valid_events_batch)

lemma delivery_step_ok: "delivery_step d d' \<Longrightarrow> delivery_ok d \<Longrightarrow> delivery_ok d' \<and> dl_collector d' = dl_collector d"
proof (induction rule: delivery_step.induct)
  case (emit d es)
  then show ?case using valid_events_ok [of es] by (auto simp: emit_events_def offer_batch_def delivery_ok_def)
next
  case (final d es)
  then show ?case
    using valid_events_ok [of es] by (auto simp: emit_final_def offer_batch_def delivery_ok_def Let_def)
next
  case (receive d)
  then show ?case by (auto simp: dispatch_receive_def delivery_ok_def split: list.splits)
next
  case (send d b)
  then show ?case by (auto simp: dispatch_send_def send_events_def delivery_ok_def)
next
  case (aside es d)
  have "set (remove1 es (dl_aside d)) \<subseteq> set (dl_aside d)" by (rule set_remove1_subset)
  with aside show ?case by (auto simp: aside_send_def send_events_def delivery_ok_def list_all_iff)
qed (auto simp: delivery_ok_def)

lemma delivery_reachable_ok: "delivery_reachable collector capacity d \<Longrightarrow> delivery_ok d \<and> dl_collector d = collector"
proof (induction rule: delivery_reachable.induct)
  case init
  show ?case by (simp add: new_dispatcher_def delivery_ok_def)
qed (use delivery_step_ok in blast)

interpretation delivery_sink: event_sink emit_events dl_accepted "\<lambda>b. batch_ok default_max_events (fst b) \<and> \<not> snd b"
proof
  fix es d
  show "\<exists>xs. dl_accepted (emit_events es d) = dl_accepted d @ xs \<and> list_all (\<lambda>b. batch_ok default_max_events (fst b) \<and> \<not> snd b) xs"
    using valid_events_ok [of es] by (auto simp: emit_events_def offer_batch_def)
qed

text \<open>The batches the worker has sent are a prefix of those that entered the queue, each of them reached the collector, and everything the
  collector sees is a non-empty batch of at most 128 valid events.\<close>

theorem delivery_in_order:
  assumes "delivery_reachable True capacity d"
  shows "prefix (dl_served d) (dl_accepted d) \<and> set (map fst (dl_served d)) \<subseteq> set (dl_sent d) \<and>
    list_all (batch_ok default_max_events) (dl_sent d)"
  using delivery_reachable_ok [OF assms] by (auto simp: delivery_ok_def prefix_def)

section \<open>Lifecycle events\<close>

record observation =
  ob_session_id :: string
  ob_project_root :: string
  ob_agent_type :: string
  ob_process_id :: int

record run_result =
  rr_exit_code :: int
  rr_signal :: string
  rr_start_failed :: bool

definition wrapper_adapter_id :: string where "wrapper_adapter_id = ''generic-wrapper''"

definition wrapper_descriptor :: descriptor where
  "wrapper_descriptor =
     \<lparr>ds_id = wrapper_adapter_id, ds_version = sdk_version, ds_protocol_version = schema_version_const,
      ds_capabilities = [Cap_session_lifecycle, Cap_command_lifecycle, Cap_file_write, Cap_file_move, Cap_file_delete]\<rparr>"

definition wrapper_command_label :: "string \<Rightarrow> string" where
  "wrapper_command_label command = command_label command 128"

definition wrapper_base_event :: "observation \<Rightarrow> string \<Rightarrow> event_type \<Rightarrow> gotime \<Rightarrow> string \<Rightarrow> event" where
  "wrapper_base_event obs eid typ at lbl =
     zero_event\<lparr>schema_version := schema_version_const, event_id := eid, session_id := ob_session_id obs,
       agent_type := ob_agent_type obs, adapter_id := wrapper_adapter_id, adapter_version := sdk_version,
       source_type := Source_wrapper, source_confidence := Conf_exact, event_type := typ, timestamp := at,
       process_id := ob_process_id obs, project_root := ob_project_root obs, action_label := lbl\<rparr>"

definition lifecycle_started :: "observation \<Rightarrow> string \<Rightarrow> gotime \<Rightarrow> event list" where
  "lifecycle_started obs command at =
     (let lbl = wrapper_command_label command; sid = ob_session_id obs @ '':session-started'';
          cid = ob_session_id obs @ '':command-started''
      in [wrapper_base_event obs sid Session_started at lbl,
          (wrapper_base_event obs cid Command_started at lbl)
            \<lparr>ev_operation := ''execute'', ev_status := ''running'', parent_event_id := sid,
             correlation_id := ob_session_id obs @ '':command''\<rparr>])"

text \<open>\<^verbatim>\<open>Milliseconds\<close> truncates toward zero; a negative duration counts as none.\<close>

definition run_duration :: "gotime \<Rightarrow> gotime \<Rightarrow> int" where
  "run_duration started stopped = (let d = time_sub stopped started in if d < 0 then 0 else d div millisecond)"

definition result_status :: "run_result \<Rightarrow> string" where
  "result_status r = (if rr_signal r \<noteq> [] then ''signaled'' else if rr_exit_code r \<noteq> 0 then ''failed'' else ''completed'')"

definition result_metadata :: "run_result \<Rightarrow> metadata" where
  "result_metadata r =
     (''exit_code'', MInt (rr_exit_code r)) # (if rr_signal r \<noteq> [] then [(''signal'', MString (rr_signal r))] else [])"

definition lifecycle_stopped :: "observation \<Rightarrow> string \<Rightarrow> gotime \<Rightarrow> gotime \<Rightarrow> run_result \<Rightarrow> event list" where
  "lifecycle_stopped obs command started stopped r =
     (let lbl = wrapper_command_label command; duration = run_duration started stopped;
          status = result_status r; md = result_metadata r;
          cid = ob_session_id obs @ '':command-completed''; sid = ob_session_id obs @ '':session-stopped''
      in [(wrapper_base_event obs cid Command_completed stopped lbl)
            \<lparr>ev_operation := ''execute'', ev_status := status, parent_event_id := ob_session_id obs @ '':command-started'',
             correlation_id := ob_session_id obs @ '':command'', duration_ms := Some duration, ev_metadata := md\<rparr>,
          (wrapper_base_event obs sid Session_stopped stopped lbl)
            \<lparr>ev_status := status, parent_event_id := ob_session_id obs @ '':session-started'',
             duration_ms := Some duration, ev_metadata := md\<rparr>])"

section \<open>The result of the process\<close>

text \<open>What \<^verbatim>\<open>command.Wait\<close> returned, what is known of the process, and the name of a signal.\<close>

datatype process_state = Unknown_process | Exited int | Killed_by nat

definition process_result :: "(nat \<Rightarrow> string) \<Rightarrow> bool \<Rightarrow> process_state \<Rightarrow> run_result" where
  "process_result signal_name wait_failed st =
     (if \<not> wait_failed then \<lparr>rr_exit_code = 0, rr_signal = [], rr_start_failed = False\<rparr>
      else case st of
        Unknown_process \<Rightarrow> \<lparr>rr_exit_code = 127, rr_signal = [], rr_start_failed = True\<rparr>
      | Killed_by n \<Rightarrow> \<lparr>rr_exit_code = 128 + int n, rr_signal = signal_name n, rr_start_failed = False\<rparr>
      | Exited n \<Rightarrow> \<lparr>rr_exit_code = n, rr_signal = [], rr_start_failed = False\<rparr>)"

section \<open>Defaults of a run\<close>

record run_config =
  rc_command :: string
  rc_dir :: string
  rc_project_root :: string
  rc_session_id :: string
  rc_agent_type :: string
  rc_delivery_queue :: int
  rc_send_deadline :: duration
  rc_parser_queue :: int
  rc_parser_drain :: duration
  rc_fallback_drain :: duration
  rc_evidence_queue :: int
  rc_evidence_window :: duration

datatype config_error = Command_required | Bad_working_directory | Bad_project_root

definition or_default :: "int \<Rightarrow> int \<Rightarrow> int" where
  "or_default fallback x = (if x \<le> 0 then fallback else x)"

text \<open>\<^verbatim>\<open>UnixNano\<close>: nanoseconds since 1970, in 64 bits.\<close>

definition unix_nano :: "gotime \<Rightarrow> int" where
  "unix_nano t = wrap64 (t - 62135596800 * second)"

definition new_wrapper_session_id :: "string option \<Rightarrow> gotime \<Rightarrow> int \<Rightarrow> string" where
  "new_wrapper_session_id random_hex now pid =
     (case random_hex of
        Some h \<Rightarrow> ''wrapper-'' @ h
      | None \<Rightarrow> ''wrapper-'' @ int_str (unix_nano now) @ ''-'' @ int_str pid)"

definition prepare_config :: "filesystem \<Rightarrow> string \<Rightarrow> run_config \<Rightarrow> config_error + run_config" where
  "prepare_config fs fresh_id c =
     (if trim_space (rc_command c) = [] then Inl Command_required
      else
        let c1 = c\<lparr>rc_session_id := (if rc_session_id c = [] then fresh_id else rc_session_id c),
                   rc_agent_type := (if rc_agent_type c = [] then ''generic'' else rc_agent_type c)\<rparr> in
        case (if rc_dir c1 = [] then fs_cwd fs else Some (rc_dir c1)) of
          None \<Rightarrow> Inl Bad_working_directory
        | Some dir0 \<Rightarrow>
            (case path_abs fs dir0 of
               None \<Rightarrow> Inl Bad_working_directory
             | Some dir \<Rightarrow>
                 (case path_abs fs (if rc_project_root c1 = [] then dir else rc_project_root c1) of
                    None \<Rightarrow> Inl Bad_project_root
                  | Some root \<Rightarrow>
                      Inr (c1\<lparr>rc_dir := dir, rc_project_root := root,
                        rc_delivery_queue := or_default 64 (rc_delivery_queue c1),
                        rc_send_deadline := or_default (75 * millisecond) (rc_send_deadline c1),
                        rc_parser_queue := or_default 64 (rc_parser_queue c1),
                        rc_parser_drain := or_default (25 * millisecond) (rc_parser_drain c1),
                        rc_fallback_drain := or_default (25 * millisecond) (rc_fallback_drain c1),
                        rc_evidence_queue := or_default 128 (rc_evidence_queue c1),
                        rc_evidence_window := or_default (100 * millisecond) (rc_evidence_window c1)\<rparr>))))"

lemma or_default_pos: "0 < d \<Longrightarrow> 0 < or_default d x"
  by (simp add: or_default_def)

text \<open>A prepared configuration has a command, an absolute working directory and project root, and positive bounds; prepared again, it stays as
  it is.\<close>

lemma prepared_config:
  assumes "prepare_config fs fresh c = Inr c'" and "fresh \<noteq> []"
  shows "trim_space (rc_command c') \<noteq> []" and "rc_session_id c' \<noteq> []" and "rc_agent_type c' \<noteq> []"
    and "0 < rc_delivery_queue c'" and "0 < rc_parser_queue c'" and "0 < rc_evidence_queue c'" and "0 < rc_evidence_window c'"
proof -
  have ne: "trim_space (rc_command c) \<noteq> []" using assms(1) by (cases "trim_space (rc_command c) = []") (simp_all add: prepare_config_def)
  obtain dir root where c': "c' = c\<lparr>rc_session_id := (if rc_session_id c = [] then fresh else rc_session_id c),
      rc_agent_type := (if rc_agent_type c = [] then ''generic'' else rc_agent_type c), rc_dir := dir, rc_project_root := root,
      rc_delivery_queue := or_default 64 (rc_delivery_queue c), rc_send_deadline := or_default (75 * millisecond) (rc_send_deadline c),
      rc_parser_queue := or_default 64 (rc_parser_queue c), rc_parser_drain := or_default (25 * millisecond) (rc_parser_drain c),
      rc_fallback_drain := or_default (25 * millisecond) (rc_fallback_drain c), rc_evidence_queue := or_default 128 (rc_evidence_queue c),
      rc_evidence_window := or_default (100 * millisecond) (rc_evidence_window c)\<rparr>"
    using assms(1) ne by (auto simp: prepare_config_def Let_def simp del: split_paired_Ex split: option.splits split del: if_split)
  with ne show "trim_space (rc_command c') \<noteq> []" and "rc_session_id c' \<noteq> []" and "rc_agent_type c' \<noteq> []"
    and "0 < rc_delivery_queue c'" and "0 < rc_parser_queue c'" and "0 < rc_evidence_queue c'" and "0 < rc_evidence_window c'"
    using assms(2) by (simp_all add: or_default_pos)
qed

section \<open>Properties\<close>

lemma text_ok_append: "text_ok s n \<Longrightarrow> text_ok t m \<Longrightarrow> n + m \<le> k \<Longrightarrow> text_ok (s @ t) k"
  by (simp add: text_ok_def nul_free_def utf8_valid_append)

lemma text_ok_mono: "text_ok s n \<Longrightarrow> n \<le> m \<Longrightarrow> text_ok s m"
  by (simp add: text_ok_def)

text \<open>Plain text is accepted up to its length.\<close>

lemma text_ok_ascii: "list_all (\<lambda>c. 0 < byte c \<and> byte c < 128) s \<Longrightarrow> length s \<le> n \<Longrightarrow> text_ok s n"
  by (induction s arbitrary: n) (auto simp: text_ok_def nul_free_def byte_def split: nat.splits)

lemma wrapper_label_ok: "text_ok (wrapper_command_label command) 256"
proof -
  have "text_ok (label (path_base (trim_space command)) 128) 256"
    using label_text [of "path_base (trim_space command)" 128] by (auto simp: text_ok_def nul_free_def printable_def byte_def)
  moreover have "text_ok ''command'' 256" by (rule text_ok_ascii) (simp_all add: byte_def)
  ultimately show ?thesis by (simp add: wrapper_command_label_def command_label_def Let_def)
qed

text \<open>A signal name is a short text, and an exit code has few digits.\<close>

definition result_ok :: "run_result \<Rightarrow> bool" where
  "result_ok r \<longleftrightarrow> length (int_str (rr_exit_code r)) \<le> 1000 \<and> length (rr_signal r) \<le> 160"

lemma result_metadata_ok:
  assumes "result_ok r"
  shows "validate_metadata (result_metadata r) = None"
proof (rule flat_metadata_ok)
  have keys: "text_ok ''exit_code'' 128" "text_ok ''signal'' 128" by (rule text_ok_ascii; simp add: byte_def)+
  show "list_all scalar_ok (result_metadata r)"
    using assms keys length_json_chars [of "rr_signal r"] by (auto simp: result_metadata_def scalar_ok_def result_ok_def json_string_def)
qed (simp add: result_metadata_def)

definition observation_ok :: "observation \<Rightarrow> bool" where
  "observation_ok obs \<longleftrightarrow> text_ok (ob_session_id obs) 110 \<and> text_ok (ob_agent_type obs) 64 \<and>
     text_ok (ob_project_root obs) 4096 \<and> 0 \<le> ob_process_id obs"

lemma lifecycle_texts [simp]:
  "text_ok wrapper_adapter_id 128" "text_ok sdk_version 64" "text_ok ''execute'' 64" "text_ok ''running'' 64" "text_ok [] n"
  "text_ok (result_status r) 64"
  by (auto simp: wrapper_adapter_id_def sdk_version_def result_status_def byte_def intro!: text_ok_ascii)

lemma session_suffix_ok:
  assumes "observation_ok obs"
  shows "text_ok (ob_session_id obs @ '':session-started'') 128" "text_ok (ob_session_id obs @ '':command-started'') 128"
    "text_ok (ob_session_id obs @ '':command-completed'') 128" "text_ok (ob_session_id obs @ '':session-stopped'') 128"
    "text_ok (ob_session_id obs @ '':command'') 128" "text_ok (ob_session_id obs) 128"
proof -
  have s: "text_ok (ob_session_id obs @ t) 128" if "list_all (\<lambda>c. 0 < byte c \<and> byte c < 128) t" "length t \<le> 18" for t
    by (rule text_ok_append [of _ 110 _ 18]) (use assms that text_ok_ascii in \<open>auto simp: observation_ok_def\<close>)
  show "text_ok (ob_session_id obs @ '':session-started'') 128" "text_ok (ob_session_id obs @ '':command-started'') 128"
    "text_ok (ob_session_id obs @ '':command-completed'') 128" "text_ok (ob_session_id obs @ '':session-stopped'') 128"
    "text_ok (ob_session_id obs @ '':command'') 128" "text_ok (ob_session_id obs) 128"
    using assms by (auto simp: byte_def observation_ok_def intro!: s intro: text_ok_mono)
qed

lemma run_duration_nonneg: "0 \<le> run_duration started stopped"
  by (simp add: run_duration_def Let_def pos_imp_zdiv_nonneg_iff not_less)

lemma lifecycle_started_valid:
  assumes "observation_ok obs" and "at \<noteq> 0"
  shows "list_all (\<lambda>e. validate e = None) (lifecycle_started obs command at)"
  using assms session_suffix_ok [OF assms(1)] wrapper_label_ok [of command]
  by (auto simp: lifecycle_started_def Let_def wrapper_base_event_def zero_event_def fields_ok_def string_fields_def number_fields_def
      observation_ok_def validate_metadata_def intro!: validate_fields)

lemma lifecycle_stopped_valid:
  assumes "observation_ok obs" and "stopped \<noteq> 0" and "result_ok r"
  shows "list_all (\<lambda>e. validate e = None) (lifecycle_stopped obs command started stopped r)"
  using assms session_suffix_ok [OF assms(1)] wrapper_label_ok [of command] run_duration_nonneg [of started stopped]
    result_metadata_ok [OF assms(3)]
  by (auto simp: lifecycle_stopped_def Let_def wrapper_base_event_def zero_event_def fields_ok_def string_fields_def number_fields_def
      observation_ok_def intro!: validate_fields)


text \<open>The descriptor of the wrapper is one the contract accepts.\<close>

lemma wrapper_descriptor_valid: "validate_descriptor wrapper_descriptor = None"
  by (simp add: validate_descriptor_None wrapper_descriptor_def wrapper_adapter_id_def sdk_version_def)

text \<open>The exit status of the command is handed on: its exit code, or 128 and the number of the signal that ended it, with the name of the
  signal in the events.\<close>

lemma process_result_cases:
  "process_result sig failed (Exited n) = \<lparr>rr_exit_code = (if failed then n else 0), rr_signal = [], rr_start_failed = False\<rparr>"
  "process_result sig True (Killed_by k) = \<lparr>rr_exit_code = 128 + int k, rr_signal = sig k, rr_start_failed = False\<rparr>"
  "process_result sig True Unknown_process = \<lparr>rr_exit_code = 127, rr_signal = [], rr_start_failed = True\<rparr>"
  by (simp_all add: process_result_def)

text \<open>The events of a run reach the queue whole.  For a session identifier of at most 110 bytes all four are valid, so the delivery drops none of
  them, and their identifiers differ.\<close>

theorem lifecycle_survives_delivery:
  assumes "observation_ok obs" and "started \<noteq> 0" and "stopped \<noteq> 0" and "result_ok r"
  shows "valid_events (lifecycle_started obs command started) = lifecycle_started obs command started \<and>
    valid_events (lifecycle_stopped obs command started stopped r) = lifecycle_stopped obs command started stopped r \<and>
    distinct (map event_id (lifecycle_started obs command started @ lifecycle_stopped obs command started stopped r))"
proof -
  have v: "valid_events (lifecycle_started obs command started) = lifecycle_started obs command started"
      "valid_events (lifecycle_stopped obs command started stopped r) = lifecycle_stopped obs command started stopped r"
    using lifecycle_started_valid [OF assms(1,2), of command] lifecycle_stopped_valid [OF assms(1,3,4), of command started]
    by (auto simp: valid_events_batch lifecycle_started_def lifecycle_stopped_def default_max_events_def Let_def intro!: valid_batch_id)
  then show ?thesis
    by (simp add: lifecycle_started_def lifecycle_stopped_def Let_def wrapper_base_event_def)
qed

text \<open>A longer identifier, which the protocol accepts for a session, makes the wrapper silent about it: the derived identifiers exceed the limit of
  128 bytes and the events are dropped without a trace.\<close>

theorem long_session_id_is_never_started:
  assumes "112 < length (ob_session_id obs)"
  shows "\<forall>e \<in> set (valid_events (lifecycle_started obs command at)). event_type e \<noteq> Session_started"
proof -
  let ?e = "wrapper_base_event obs (ob_session_id obs @ '':session-started'') Session_started at (wrapper_command_label command)"
  have "validate ?e \<noteq> None"
    using assms by (auto simp: validate_None string_fields_def wrapper_base_event_def zero_event_def)
  then show ?thesis
    by (auto simp: valid_events_def lifecycle_started_def Let_def wrapper_base_event_def default_max_events_def split: if_splits)
qed

section \<open>The session of a run\<close>

definition engine_feed :: "engine \<Rightarrow> event list \<Rightarrow> engine" where
  "engine_feed E es = foldl (\<lambda>E e. fst (engine_apply E e)) E es"

lemma close_current_stamp [simp]:
  "st_current_timestamp (close_current idle s t) = st_current_timestamp s" "st_stopped_at (close_current idle s t) = st_stopped_at s"
  by (simp_all add: close_current_def set_current_def Let_def split: option.splits)

lemma closed_current: "\<forall>iv. current (close_current idle s t) = Some iv \<longrightarrow> iv_ended_at iv \<noteq> None"
  by (auto simp: close_current_def Let_def set_current_def current_def split: option.splits if_splits)

lemma apply_command_event:
  assumes "event_type e \<in> {Command_started, Command_completed}"
  shows "apply_session idle s e = s"
  using assms by (auto simp: apply_session_def follow_rename_def focus_priority_def Let_def)

lemma apply_stop_event:
  "event_type e = Session_stopped \<Longrightarrow> st_current_timestamp s \<le> timestamp e \<Longrightarrow>
   apply_session idle s e = (close_current idle s (timestamp e))\<lparr>st_stopped_at := Some (timestamp e)\<rparr>"
  by (simp add: apply_session_def)

text \<open>The events of a run open and close its session.  The first two open a session that has no accesses yet; whatever happened in between, the last two
  end it at the time the command ended, with its last access closed, provided nothing in the session is later.\<close>

theorem run_opens_and_closes_session:
  assumes "ob_session_id obs \<noteq> []" and "sessions E (ob_session_id obs) = None"
    and "sessions F (ob_session_id obs) = Some s" and "st_current_timestamp s \<le> stopped"
  shows "sessions (engine_feed E (lifecycle_started obs command started)) (ob_session_id obs) =
      Some (zero_state\<lparr>st_session_id := ob_session_id obs, st_started_at := started, st_current_timestamp := started\<rparr>) \<and>
    (\<exists>s'. sessions (engine_feed F (lifecycle_stopped obs command started stopped r)) (ob_session_id obs) = Some s' \<and>
       st_stopped_at s' = Some stopped \<and> (\<nexists>iv. current s' = Some iv \<and> iv_ended_at iv = None))"
proof
  show "sessions (engine_feed E (lifecycle_started obs command started)) (ob_session_id obs) =
      Some (zero_state\<lparr>st_session_id := ob_session_id obs, st_started_at := started, st_current_timestamp := started\<rparr>)"
    using assms(1,2)
    by (simp add: engine_feed_def lifecycle_started_def Let_def engine_apply_def put_session_def wrapper_base_event_def zero_event_def
        start_session_def apply_command_event)
  have c: "current (close_current idle s t\<lparr>st_stopped_at := x\<rparr>) = current (close_current idle s t)" for idle t x
    by (simp add: current_def)
  have "sessions (engine_feed F (lifecycle_stopped obs command started stopped r)) (ob_session_id obs) =
      Some ((close_current (idle_timeout F) s stopped)\<lparr>st_stopped_at := Some stopped\<rparr>)"
    using assms(1,3,4)
    by (simp add: engine_feed_def lifecycle_stopped_def Let_def engine_apply_def put_session_def wrapper_base_event_def zero_event_def
        apply_command_event apply_stop_event)
  with closed_current c show "\<exists>s'. sessions (engine_feed F (lifecycle_stopped obs command started stopped r)) (ob_session_id obs) = Some s' \<and>
      st_stopped_at s' = Some stopped \<and> (\<nexists>iv. current s' = Some iv \<and> iv_ended_at iv = None)"
    by auto
qed

section \<open>Example\<close>

definition demo_observation :: observation where
  "demo_observation = \<lparr>ob_session_id = ''run'', ob_project_root = ''/p'', ob_agent_type = ''generic'', ob_process_id = 7\<rparr>"

definition signaled_result :: run_result where
  "signaled_result = process_result (\<lambda>_. ''killed'') True (Killed_by 9)"

lemma demo_run_ok: "observation_ok demo_observation" "result_ok signaled_result"
  by (auto simp: observation_ok_def demo_observation_def signaled_result_def result_ok_def process_result_def int_str_def nat_str.simps byte_def
      intro!: text_ok_ascii)

theorem lifecycle_survives_delivery_witness:
  "map event_id (valid_events (lifecycle_stopped demo_observation ''/bin/go'' 5 9 signaled_result)) =
   [''run:command-completed'', ''run:session-stopped'']"
  using lifecycle_survives_delivery [OF demo_run_ok(1) _ _ demo_run_ok(2), of 5 9 "''/bin/go''"]
  by (simp add: lifecycle_stopped_def Let_def wrapper_base_event_def demo_observation_def)

theorem run_opens_and_closes_session_witness:
  "\<exists>s'. sessions (engine_feed ((new_engine 60)\<lparr>sessions := [''run'' \<mapsto> zero_state]\<rparr>)
      (lifecycle_stopped demo_observation ''go'' 5 9 signaled_result)) ''run'' = Some s' \<and> st_stopped_at s' = Some 9"
  using run_opens_and_closes_session [of demo_observation "new_engine 60" "(new_engine 60)\<lparr>sessions := [''run'' \<mapsto> zero_state]\<rparr>" zero_state 9
      "''go''" 5 signaled_result]
  by (auto simp: demo_observation_def new_engine_def zero_state_def)

end
