(* ===== verification/Fs_Observer.thy ===== *)
theory Fs_Observer
  imports Git_Evidence Project_Scan Path_Normalize Wrapper
begin

text \<open>
  \<^verbatim>\<open>internal/adapters/filesystem/observer.go\<close>: the observer that derives events from notifications of the file system while a wrapped
  command runs.  Notifications are queued, folded into one pending change per path, and after a quiet time sent in batches, with renames
  recognised from Git or from equal fingerprints.

  Notifications arrive concurrently with the observer's loop, so both are steps of one relation.  What the disk shows when a change is looked
  at, the output of Git and the clock are parameters of the step.  The counter of lost notifications keeps its 64 bits.
\<close>

section \<open>States and changes\<close>

unbundle bit_operations_syntax

type_synonym fs_op = "8 word"

definition op_create :: fs_op where "op_create = 1"
definition op_write :: fs_op where "op_write = 2"
definition op_remove :: fs_op where "op_remove = 4"
definition op_rename :: fs_op where "op_rename = 8"
definition op_chmod :: fs_op where "op_chmod = 16"

definition has_op :: "fs_op \<Rightarrow> fs_op \<Rightarrow> bool" where
  "has_op op bits \<longleftrightarrow> op AND bits \<noteq> 0"

record file_state =
  fl_exists :: bool
  fl_directory :: bool
  fl_size :: int
  fl_mod_time :: int

definition no_file :: file_state where
  "no_file = \<lparr>fl_exists = False, fl_directory = False, fl_size = 0, fl_mod_time = 0\<rparr>"

record pending_change =
  pc_path :: string
  pc_op :: fs_op
  pc_before :: file_state
  pc_after :: file_state
  pc_first :: gotime
  pc_last :: gotime
  pc_count :: int

record fs_change =
  ch_path :: string
  ch_op :: fs_op

text \<open>\<^verbatim>\<open>forward\<close> in \<^verbatim>\<open>source.go\<close>: the bits of a notification; one without any is not passed on.\<close>

record notification =
  nt_name :: string
  nt_create :: bool
  nt_write :: bool
  nt_remove :: bool
  nt_rename :: bool
  nt_chmod :: bool

definition forward :: "notification \<Rightarrow> fs_change option" where
  "forward n =
     (let op = (if nt_create n then op_create else 0) OR (if nt_write n then op_write else 0) OR
          (if nt_remove n then op_remove else 0) OR (if nt_rename n then op_rename else 0) OR (if nt_chmod n then op_chmod else 0)
      in if op = 0 then None else Some \<lparr>ch_path = nt_name n, ch_op = op\<rparr>)"

text \<open>What \<^verbatim>\<open>os.Lstat\<close> says of a path and whether it is a symbolic link, the tree below a path, and whether a directory can be watched.\<close>

record disk =
  dk_stat :: "string \<Rightarrow> (file_state \<times> bool) option"
  dk_tree :: "string \<Rightarrow> entry option"
  dk_watch :: "string \<Rightarrow> bool"

definition stat_state :: "disk \<Rightarrow> string \<Rightarrow> file_state" where
  "stat_state d p = (case dk_stat d p of None \<Rightarrow> no_file | Some (s, link) \<Rightarrow> s)"

definition is_symlink :: "disk \<Rightarrow> string \<Rightarrow> bool" where
  "is_symlink d p = (case dk_stat d p of None \<Rightarrow> False | Some (s, link) \<Rightarrow> link)"

definition state_from_info :: "bool \<Rightarrow> entry_info \<Rightarrow> file_state" where
  "state_from_info is_dir i = \<lparr>fl_exists = True, fl_directory = is_dir, fl_size = ei_size i, fl_mod_time = ei_mod_time i\<rparr>"

text \<open>\<^verbatim>\<open>watchTree\<close>: the states of a tree without the ignored parts; \<^const>\<open>None\<close> is the error that ends the walk.\<close>

fun watch_entry :: "ignore_matcher \<Rightarrow> (string \<Rightarrow> bool) \<Rightarrow> string \<Rightarrow> string \<Rightarrow> entry \<Rightarrow> (string \<times> file_state) list option"
  and watch_entries :: "ignore_matcher \<Rightarrow> (string \<Rightarrow> bool) \<Rightarrow> string \<Rightarrow> string \<Rightarrow> entry list \<Rightarrow> (string \<times> file_state) list option"
where
  "watch_entry m watch root path (Entry name is_dir info readable kids) =
     (case (if path = root then Some False else map_option (matcher_ignored m) (path_rel root path)) of
        None \<Rightarrow> None
      | Some True \<Rightarrow> Some []
      | Some False \<Rightarrow>
          (case info of
             None \<Rightarrow> None
           | Some i \<Rightarrow>
               if ei_symlink i then Some []
               else let here = (path_clean path, state_from_info is_dir i) in
                 if \<not> is_dir then Some [here]
                 else if \<not> watch (path_clean path) \<or> \<not> readable then None
                 else map_option (\<lambda>below. here # below) (watch_entries m watch root path kids)))"
| "watch_entries m watch root dir [] = Some []"
| "watch_entries m watch root dir (Entry name is_dir info readable kids # es) =
     (case watch_entry m watch root (path_join [dir, name]) (Entry name is_dir info readable kids) of
        None \<Rightarrow> None
      | Some xs \<Rightarrow> map_option (\<lambda>ys. xs @ ys) (watch_entries m watch root dir es))"

definition watch_tree :: "disk \<Rightarrow> ignore_matcher \<Rightarrow> string \<Rightarrow> string \<Rightarrow> (string \<times> file_state) list option" where
  "watch_tree d m root start =
     (case dk_tree d start of None \<Rightarrow> None | Some e \<Rightarrow> watch_entry m (dk_watch d) root start e)"

section \<open>The observer\<close>

record fs_observer =
  fo_root :: string
  fo_queue_size :: nat
  fo_max_pending :: nat
  fo_batch_size :: nat
  fo_debounce :: duration
  fo_rename_window :: duration
  fo_matcher :: ignore_matcher
  fo_states :: "string \<rightharpoonup> file_state"
  fo_pending :: "(string \<times> pending_change) list"
  fo_raw :: "(fs_change \<times> gotime) list"
  fo_dropped :: u64
  fo_sequence :: nat
  fo_emitted :: "event list list"
  fo_done :: bool

record observer_config =
  oc_queue_size :: int
  oc_max_pending :: int
  oc_batch_size :: int
  oc_debounce :: duration
  oc_rename_window :: duration

definition new_observer :: "observer_config \<Rightarrow> observer_config" where
  "new_observer c =
     \<lparr>oc_queue_size = or_default 1024 (oc_queue_size c), oc_max_pending = or_default 512 (oc_max_pending c),
      oc_batch_size = or_default 128 (oc_batch_size c), oc_debounce = or_default (75 * millisecond) (oc_debounce c),
      oc_rename_window = or_default (150 * millisecond) (oc_rename_window c)\<rparr>"

text \<open>The state when the loop of \<^verbatim>\<open>Observe\<close> starts; \<^const>\<open>None\<close> when the tree cannot be walked.\<close>

definition start_observer :: "observer_config \<Rightarrow> disk \<Rightarrow> ignore_matcher \<Rightarrow> string \<Rightarrow> fs_observer option" where
  "start_observer c0 d m root =
     (case watch_tree d m root root of
        None \<Rightarrow> None
      | Some xs \<Rightarrow>
          let c = new_observer c0 in
          Some \<lparr>fo_root = root, fo_queue_size = nat (oc_queue_size c), fo_max_pending = nat (oc_max_pending c),
            fo_batch_size = nat (oc_batch_size c), fo_debounce = oc_debounce c, fo_rename_window = oc_rename_window c,
            fo_matcher = m, fo_states = map_of (rev xs), fo_pending = [], fo_raw = [], fo_dropped = 0, fo_sequence = 0,
            fo_emitted = [], fo_done = False\<rparr>)"

definition count_lost :: "fs_observer \<Rightarrow> fs_observer" where
  "count_lost o1 = o1\<lparr>fo_dropped := fo_dropped o1 + 1\<rparr>"

text \<open>\<^verbatim>\<open>drainSource\<close>: a notification goes to the raw queue or is counted as lost, and so is an error of the source.\<close>

definition drain_change :: "fs_change \<Rightarrow> gotime \<Rightarrow> fs_observer \<Rightarrow> fs_observer" where
  "drain_change c at o1 =
     (if length (fo_raw o1) < fo_queue_size o1 then o1\<lparr>fo_raw := fo_raw o1 @ [(c, at)]\<rparr> else count_lost o1)"

definition observed_path :: "filesystem \<Rightarrow> string \<Rightarrow> ignore_matcher \<Rightarrow> string \<Rightarrow> string option" where
  "observed_path fs root m candidate =
     (case path_abs fs candidate of
        None \<Rightarrow> None
      | Some p0 \<Rightarrow>
          let p = path_clean p0 in
          (case path_rel root p of
             None \<Rightarrow> None
           | Some relative \<Rightarrow>
               if relative = ''..'' \<or> has_prefix relative ''../'' then None
               else if relative = ''.'' \<or> matcher_ignored m relative then None
               else Some p))"

definition delete_state_tree :: "(string \<rightharpoonup> file_state) \<Rightarrow> string \<Rightarrow> bool \<Rightarrow> (string \<rightharpoonup> file_state)" where
  "delete_state_tree states p directory =
     (\<lambda>q. if q = p \<or> (directory \<and> has_prefix q (p @ ''/'')) then None else states q)"

definition is_ignore_file :: "string \<Rightarrow> bool" where
  "is_ignore_file p \<longleftrightarrow> path_base p = ''.gitignore'' \<or> path_base p = ''.aavignore''"

definition state_at :: "(string \<rightharpoonup> file_state) \<Rightarrow> string \<Rightarrow> file_state" where
  "state_at states p = (case states p of None \<Rightarrow> no_file | Some s \<Rightarrow> s)"

text \<open>The last part of \<^verbatim>\<open>acceptChange\<close>: the change is folded into the pending one of its path, or lost when there are too many.\<close>

definition note_pending :: "string \<Rightarrow> fs_op \<Rightarrow> gotime \<Rightarrow> file_state \<Rightarrow> file_state \<Rightarrow> fs_observer \<Rightarrow> fs_observer" where
  "note_pending p op at before after o1 =
     (case map_of (fo_pending o1) p of
        Some c \<Rightarrow> o1\<lparr>fo_pending := AList.update p
          (c\<lparr>pc_op := pc_op c OR op, pc_after := after, pc_last := at, pc_count := pc_count c + 1\<rparr>) (fo_pending o1)\<rparr>
      | None \<Rightarrow>
          if fo_max_pending o1 \<le> length (fo_pending o1) then count_lost o1
          else o1\<lparr>fo_pending := fo_pending o1 @ [(p, \<lparr>pc_path = p, pc_op = op, pc_before = before, pc_after = after,
            pc_first = at, pc_last = at, pc_count = 1\<rparr>)]\<rparr>)"

definition accept_change :: "filesystem \<Rightarrow> disk \<Rightarrow> fs_change \<Rightarrow> gotime \<Rightarrow> fs_observer \<Rightarrow> fs_observer" where
  "accept_change fs d c at o1 =
     (case observed_path fs (fo_root o1) (fo_matcher o1) (ch_path c) of
        None \<Rightarrow> o1
      | Some p \<Rightarrow>
          let before = state_at (fo_states o1) p; after = stat_state d p in
          if fl_exists after \<and> is_symlink d p then o1
          else
            let added = (if has_op (ch_op c) op_create \<and> fl_directory after
                  then (case watch_tree d (fo_matcher o1) (fo_root o1) p of None \<Rightarrow> [] | Some xs \<Rightarrow> xs) else []);
                states1 = fo_states o1 ++ map_of (rev added);
                states2 = (if fl_exists after then states1(p \<mapsto> after) else delete_state_tree states1 p (fl_directory before))
            in note_pending p (ch_op c) at before after (o1\<lparr>fo_states := states2\<rparr>))"

section \<open>Batches\<close>

definition needs_rename_window :: "pending_change \<Rightarrow> bool" where
  "needs_rename_window c \<longleftrightarrow> has_op (pc_op c) (op_rename OR op_remove) \<or> has_op (pc_op c) op_create \<and> \<not> fl_exists (pc_before c)"

definition latest_rename :: "(string \<times> pending_change) list \<Rightarrow> gotime" where
  "latest_rename pending =
     foldl (\<lambda>t (k, c). if needs_rename_window c \<and> t < pc_last c then pc_last c else t) 0 pending"

definition change_due :: "gotime \<Rightarrow> duration \<Rightarrow> duration \<Rightarrow> gotime \<Rightarrow> pending_change \<Rightarrow> bool" where
  "change_due now debounce window latest c \<longleftrightarrow>
     (if needs_rename_window c then max debounce window \<le> time_sub now latest else debounce \<le> time_sub now (pc_last c))"

definition ready_changes :: "(string \<times> pending_change) list \<Rightarrow> gotime \<Rightarrow> duration \<Rightarrow> duration \<Rightarrow> bool \<Rightarrow> nat \<Rightarrow>
    pending_change list \<times> (string \<times> pending_change) list" where
  "ready_changes pending now debounce window every limit =
     (let latest = latest_rename pending;
          keys = take limit (sort_strings (map fst (filter (\<lambda>(k, c). every \<or> change_due now debounce window latest c) pending)))
      in (map (\<lambda>k. the (map_of pending k)) keys, delete_where (\<lambda>k c. k \<in> set keys) pending))"

record rename_pair =
  rp_old :: pending_change
  rp_new :: pending_change

definition same_fingerprint :: "file_state \<Rightarrow> file_state \<Rightarrow> bool" where
  "same_fingerprint l r \<longleftrightarrow> fl_exists l \<and> fl_exists r \<and> fl_directory l = fl_directory r \<and> fl_size l = fl_size r \<and>
     fl_mod_time l = fl_mod_time r"

text \<open>\<^verbatim>\<open>relative, _ := filepath.Rel(root, path)\<close>\<close>

definition rel_or_empty :: "string \<Rightarrow> string \<Rightarrow> string" where
  "rel_or_empty root p = (case path_rel root p of None \<Rightarrow> [] | Some r \<Rightarrow> r)"

text \<open>The pairs found so far and the paths they consume.\<close>

type_synonym pairing = "rename_pair list \<times> string set"

definition add_pair :: "pending_change \<Rightarrow> pending_change \<Rightarrow> pairing \<Rightarrow> pairing" where
  "add_pair old new st = (fst st @ [\<lparr>rp_old = old, rp_new = new\<rparr>], insert (pc_path old) (insert (pc_path new) (snd st)))"

text \<open>The change found under a relative path; the map is written in the order of the batch, so the last one counts.\<close>

definition by_relative :: "string \<Rightarrow> pending_change list \<Rightarrow> string \<Rightarrow> pending_change option" where
  "by_relative root batch relative = List.find (\<lambda>c. rel_or_empty root (pc_path c) = relative) (rev batch)"

definition pair_from_git :: "string \<Rightarrow> pending_change list \<Rightarrow> string \<times> string \<Rightarrow> pairing \<Rightarrow> pairing" where
  "pair_from_git root batch r st =
     (case (by_relative root batch (fst r), by_relative root batch (snd r)) of
        (Some old, Some new) \<Rightarrow> if pc_path old \<notin> snd st \<and> pc_path new \<notin> snd st then add_pair old new st else st
      | _ \<Rightarrow> st)"

text \<open>The search for the only candidate: a second one ends it without a match.\<close>

fun only_match :: "('a \<Rightarrow> bool) \<Rightarrow> 'a option \<Rightarrow> 'a list \<Rightarrow> 'a option" where
  "only_match P found [] = found"
| "only_match P found (c # cs) =
     (if \<not> P c then only_match P found cs
      else if found \<noteq> None then None
      else only_match P (Some c) cs)"

definition pair_by_fingerprint :: "pending_change list \<Rightarrow> pending_change \<Rightarrow> pairing \<Rightarrow> pairing" where
  "pair_by_fingerprint creates old st =
     (if pc_path old \<in> snd st \<or> fl_directory (pc_before old) then st
      else case only_match (\<lambda>c. pc_path c \<notin> snd st \<and> same_fingerprint (pc_before old) (pc_after c)) None creates of
        None \<Rightarrow> st
      | Some new \<Rightarrow> add_pair old new st)"

definition created_changes :: "pending_change list \<Rightarrow> pending_change list" where
  "created_changes batch = filter (\<lambda>c. fl_exists (pc_after c) \<and> has_op (pc_op c) op_create) batch"

definition renamed_changes :: "pending_change list \<Rightarrow> pending_change list" where
  "renamed_changes batch = filter (\<lambda>c. \<not> fl_exists (pc_after c) \<and> has_op (pc_op c) op_rename) batch"

definition pair_less :: "rename_pair \<Rightarrow> rename_pair \<Rightarrow> bool" where
  "pair_less a b \<longleftrightarrow> pc_path (rp_old a) < pc_path (rp_old b)"

interpretation pair_sort: keyed_less pair_less "\<lambda>r. pc_path (rp_old r)"
  by unfold_locales (simp add: pair_less_def)

definition correlate_renames :: "string \<Rightarrow> pending_change list \<Rightarrow> git_evidence \<Rightarrow> pairing" where
  "correlate_renames root batch ev =
     (let st1 = fold (pair_from_git root batch) (ge_renames ev) ([], {});
          st2 = fold (pair_by_fingerprint (created_changes batch)) (renamed_changes batch) st1
      in (sort_slice pair_less (fst st2), snd st2))"

section \<open>Events\<close>

definition fs_base_event :: "observation \<Rightarrow> event_type \<Rightarrow> string \<Rightarrow> string \<Rightarrow> gotime \<Rightarrow> bool \<Rightarrow> event" where
  "fs_base_event obs typ op p at directory =
     zero_event\<lparr>schema_version := schema_version_const, session_id := ob_session_id obs, agent_type := ob_agent_type obs,
       adapter_id := wrapper_adapter_id, adapter_version := sdk_version, source_type := Source_filesystem,
       source_confidence := Conf_observed, event_type := typ, ev_operation := op, timestamp := at,
       process_id := ob_process_id obs, project_root := ob_project_root obs, ev_path := p, is_directory := Some directory\<rparr>"

definition byte_count :: "file_state \<Rightarrow> int option" where
  "byte_count s = (if \<not> fl_exists s \<or> fl_directory s then None else Some (fl_size s))"

text \<open>What became of a path between the first and the last notification: the type of the event and its operation.\<close>

definition change_kind :: "pending_change \<Rightarrow> (event_type \<times> string) option" where
  "change_kind c =
     (let dir = (if fl_exists (pc_after c) then fl_directory (pc_after c) else fl_directory (pc_before c)) in
      if fl_exists (pc_after c) \<and> \<not> fl_exists (pc_before c)
      then Some (if dir then Directory_created else File_created, ''create'')
      else if \<not> fl_exists (pc_after c) \<and> fl_exists (pc_before c)
      then Some (if dir then Directory_deleted else File_deleted, ''delete'')
      else if fl_exists (pc_after c) \<and> has_op (pc_op c) (op_write OR op_create)
      then (if dir then None else Some (File_modified, ''modify''))
      else None)"

definition change_event :: "observation \<Rightarrow> string \<Rightarrow> git_evidence \<Rightarrow> pending_change \<Rightarrow> event option" where
  "change_event obs root ev c =
     (case change_kind c of
        None \<Rightarrow> None
      | Some (typ, op) \<Rightarrow>
          let dir = (if fl_exists (pc_after c) then fl_directory (pc_after c) else fl_directory (pc_before c));
              relative = rel_or_empty root (pc_path c);
              git_md = (case ge_status ev relative of None \<Rightarrow> []
                | Some s \<Rightarrow> [(''git_status'', MString [gs_index s, gs_worktree s])]);
              delta = (if dir then None else ge_deltas ev relative);
              work_md = (if delta = None then [] else
                [(''work_source'', MString ''git_numstat''), (''work_confidence'', MString ''correlated'')]);
              e = (fs_base_event obs typ op (pc_path c) (pc_last c) dir)
                \<lparr>bytes_before := byte_count (pc_before c), bytes_after := byte_count (pc_after c),
                 ev_metadata := [(''coalesced_events'', MInt (pc_count c)), (''evidence'', MString ''filesystem_notification'')] @
                   git_md @ work_md\<rparr>
          in Some (case delta of
               None \<Rightarrow> e
             | Some d \<Rightarrow> if gd_binary d then e\<lparr>is_binary := Some True\<rparr>
                 else e\<lparr>lines_added := Some (gd_added d), lines_deleted := Some (gd_deleted d)\<rparr>))"

definition rename_event :: "observation \<Rightarrow> rename_pair \<Rightarrow> event" where
  "rename_event obs r =
     (let dir = fl_directory (pc_before (rp_old r));
          typ = (if dir then Directory_renamed
                 else if path_dir (pc_path (rp_old r)) \<noteq> path_dir (pc_path (rp_new r)) then File_moved else File_renamed)
      in (fs_base_event obs typ ''rename'' (pc_path (rp_new r)) (pc_last (rp_new r)) dir)
        \<lparr>previous_path := pc_path (rp_old r), bytes_before := byte_count (pc_before (rp_old r)),
         bytes_after := byte_count (pc_after (rp_new r)), source_confidence := Conf_correlated,
         ev_metadata := [(''evidence'', MString ''unique_filesystem_or_git_correlation'')]\<rparr>)"

definition dropped_event :: "observation \<Rightarrow> gotime \<Rightarrow> u64 \<Rightarrow> event" where
  "dropped_event obs at lost =
     (fs_base_event obs Event_dropped_or_coalesced ''drop'' [] at False)
       \<lparr>source_confidence := Conf_inferred, is_directory := None,
        ev_metadata := [(''dropped_events'', MSized (uint lost)), (''reason'', MString ''filesystem_queue_or_pending_capacity'')]\<rparr>"

text \<open>\<^verbatim>\<open>fmt.Sprintf("%s:filesystem:%08d", ...)\<close>\<close>

definition pad8 :: "nat \<Rightarrow> string" where
  "pad8 n = replicate (8 - length (nat_str n)) (CHR ''0'') @ nat_str n"

definition fs_event_id :: "string \<Rightarrow> nat \<Rightarrow> string" where
  "fs_event_id sid n = sid @ '':filesystem:'' @ pad8 n"

fun number_events :: "string \<Rightarrow> nat \<Rightarrow> event list \<Rightarrow> event list" where
  "number_events sid n [] = []"
| "number_events sid n (e # es) = e\<lparr>event_id := fs_event_id sid (n + 1)\<rparr> # number_events sid (n + 1) es"

definition events_for_batch :: "(string \<Rightarrow> string list \<Rightarrow> git_evidence) \<Rightarrow> observation \<Rightarrow> string \<Rightarrow> pending_change list \<Rightarrow> event list" where
  "events_for_batch git obs root batch =
     (if batch = [] then []
      else
        let ev = git root (map pc_path batch); (pairs, consumed) = correlate_renames root batch ev in
        map (rename_event obs) pairs @
        List.map_filter (change_event obs root ev) (filter (\<lambda>c. pc_path c \<notin> consumed) batch))"

definition flush_observer :: "(string \<Rightarrow> string list \<Rightarrow> git_evidence) \<Rightarrow> observation \<Rightarrow> gotime \<Rightarrow> bool \<Rightarrow> fs_observer \<Rightarrow> fs_observer" where
  "flush_observer git obs now every o1 =
     (case ready_changes (fo_pending o1) now (fo_debounce o1) (fo_rename_window o1) every (fo_batch_size o1) of
        (ready, rest) \<Rightarrow>
          if ready = [] \<and> fo_dropped o1 = 0 then o1
          else
            let events = events_for_batch git obs (fo_root o1) ready;
                all = events @ (if 0 < fo_dropped o1 then [dropped_event obs now (fo_dropped o1)] else [])
            in o1\<lparr>fo_pending := rest, fo_dropped := 0, fo_sequence := fo_sequence o1 + length all,
                 fo_emitted := fo_emitted o1 @ [number_events (ob_session_id obs) (fo_sequence o1) all]\<rparr>)"

text \<open>The rest of \<^verbatim>\<open>Observe\<close>: a raw change is accepted, and when it concerns an ignore file the patterns are read again.\<close>

definition take_raw :: "filesystem \<Rightarrow> disk \<Rightarrow> string option \<times> string option \<Rightarrow> fs_observer \<Rightarrow> fs_observer" where
  "take_raw fs d ignore_files o1 =
     (case fo_raw o1 of
        [] \<Rightarrow> o1
      | (c, at) # rest \<Rightarrow>
          let o2 = accept_change fs d c at (o1\<lparr>fo_raw := rest\<rparr>) in
          if is_ignore_file (ch_path c)
          then o2\<lparr>fo_matcher := reload_matcher (fo_matcher o2) (fst ignore_files) (snd ignore_files)\<rparr> else o2)"

inductive observer_step :: "observation \<Rightarrow> fs_observer \<Rightarrow> fs_observer \<Rightarrow> bool" for obs where
  change: "observer_step obs o1 (drain_change c at o1)"
| error: "observer_step obs o1 (count_lost o1)"
| accept: "\<not> fo_done o1 \<Longrightarrow> observer_step obs o1 (take_raw fs d ignore_files o1)"
| tick: "\<not> fo_done o1 \<Longrightarrow> observer_step obs o1 (flush_observer git obs now False o1)"
| finish: "\<not> fo_done o1 \<Longrightarrow> observer_step obs o1 ((flush_observer git obs now True o1)\<lparr>fo_done := True\<rparr>)"

inductive observer_reachable :: "observation \<Rightarrow> fs_observer \<Rightarrow> bool" for obs where
  init: "start_observer c d m root = Some o1 \<Longrightarrow> observer_reachable obs o1"
| step: "observer_reachable obs o1 \<Longrightarrow> observer_step obs o1 o2 \<Longrightarrow> observer_reachable obs o2"

end
