(* ===== verification/Evidence_Gate.thy ===== *)
theory Evidence_Gate
  imports Paths Protocol
begin

text \<open>
  \<^verbatim>\<open>adapter/go/wrapper/evidence.go\<close>: the gate between the observers of a wrapped command and the
  delivery to the collector.  Events seen by a hook, an editor or the wrapper itself (strong evidence) pass at
  once; events derived from the file system or from Git (fallback evidence) wait for a window of time, so that
  a strong event about the same change can replace them.

  Callers of \<^verbatim>\<open>Emit\<close> and the goroutine \<^verbatim>\<open>run\<close> work concurrently: a caller tests \<^verbatim>\<open>stopped\<close>,
  then offers its batch to the queue, then perhaps hands it to the target itself, and the worker processes a
  batch one event at a time.  Each of these is a step of its own.  \<open>gt_accepted\<close> and \<open>gt_seen\<close> record the
  events of all callers that passed the test and the strong events the worker has processed; the code has no such fields.
  The clock only advances; the time of a tick may be an older reading, because a tick can wait in its channel.
\<close>

section \<open>What an event is evidence of\<close>

fun event_family :: "event_type \<Rightarrow> string" where
  "event_family File_modified = ''file_write''"
| "event_family File_patched = ''file_write''"
| "event_family File_created = ''file_create''"
| "event_family File_deleted = ''file_delete''"
| "event_family File_renamed = ''file_move''"
| "event_family File_moved = ''file_move''"
| "event_family Directory_created = ''directory_create''"
| "event_family Directory_deleted = ''directory_delete''"
| "event_family Directory_renamed = ''directory_move''"
| "event_family _ = []"

definition canonical_evidence_path :: "string \<Rightarrow> string \<Rightarrow> string" where
  "canonical_evidence_path root p =
     (if p = [] then []
      else path_clean (if \<not> is_abs p \<and> root \<noteq> [] then path_join [root, p] else p))"

definition evidence_key :: "event \<Rightarrow> string" where
  "evidence_key e =
     (if event_family (event_type e) = [] \<or> ev_path e = [] then []
      else join_str [CHR 0x00]
        [session_id e, event_family (event_type e), canonical_evidence_path (project_root e) (ev_path e),
         canonical_evidence_path (project_root e) (previous_path e)])"

definition is_fallback :: "event \<Rightarrow> bool" where
  "is_fallback e \<longleftrightarrow> source_type e = Source_filesystem \<or> source_type e = Source_git"

section \<open>Sorting the keys\<close>

text \<open>\<^verbatim>\<open>sortStrings\<close>: every value sinks from the end of the sorted part to its place; the sorted part is
  kept in reverse.\<close>

fun sink :: "string \<Rightarrow> string list \<Rightarrow> string list" where
  "sink x [] = [x]"
| "sink x (y # ys) = (if x < y then y # sink x ys else x # y # ys)"

definition sort_values :: "string list \<Rightarrow> string list" where
  "sort_values xs = rev (fold sink xs [])"

lemma mset_sink [simp]: "mset (sink x ys) = add_mset x (mset ys)"
  by (induction ys) auto

lemma sorted_sink: "sorted (rev ys) \<Longrightarrow> sorted (rev (sink x ys))"
proof (induction ys)
  case (Cons y ys)
  have "set (sink x ys) = insert x (set ys)" using mset_sink [of x ys] by (metis set_mset_add_mset_insert set_mset_mset)
  with Cons show ?case by (auto simp: sorted_append)
qed simp

lemma fold_sink: "sorted (rev ys) \<Longrightarrow> sorted (rev (fold sink xs ys)) \<and> mset (fold sink xs ys) = mset xs + mset ys"
  by (induction xs arbitrary: ys) (simp_all add: sorted_sink)

lemma sort_values_sort [simp]: "sort_values xs = sort xs"
  using fold_sink [of "[]" xs] properties_for_sort [of "sort_values xs" xs] by (simp add: sort_values_def)

section \<open>State\<close>

record pending_evidence =
  pe_event :: event
  pe_expires :: gotime

datatype gate_phase = Gate_selecting | Gate_processing bool gotime "event list" | Gate_draining | Gate_returned

record gate =
  gt_window :: duration
  gt_capacity :: nat
  gt_queue :: "event list list"
  gt_stopped :: bool
  gt_pending :: "(string \<times> pending_evidence) list"
  gt_strong :: "(string \<times> gotime) list"
  gt_phase :: gate_phase
  gt_emitting :: "event list list"
  gt_direct :: "event list list"
  gt_out :: "event list list"
  gt_clock :: gotime
  gt_accepted :: "event list"
  gt_seen :: "(string \<times> gotime) list"

definition default_evidence_queue :: int where "default_evidence_queue = 128"
definition default_evidence_window :: duration where "default_evidence_window = 100 * millisecond"

definition new_gate :: "int \<Rightarrow> duration \<Rightarrow> gotime \<Rightarrow> gate" where
  "new_gate capacity window clock =
     \<lparr>gt_window = (if window \<le> 0 then default_evidence_window else window),
      gt_capacity = nat (if capacity \<le> 0 then default_evidence_queue else capacity),
      gt_queue = [], gt_stopped = False, gt_pending = [], gt_strong = [], gt_phase = Gate_selecting,
      gt_emitting = [], gt_direct = [], gt_out = [], gt_clock = clock, gt_accepted = [], gt_seen = []\<rparr>"

definition send_target :: "event list \<Rightarrow> gate \<Rightarrow> gate" where
  "send_target es g = g\<lparr>gt_out := gt_out g @ [es]\<rparr>"

section \<open>Callers\<close>

text \<open>\<^verbatim>\<open>Emit\<close> up to the copy of the batch, the offer to the queue, and the hand-over when the queue is full.\<close>

definition emit_begin :: "event list \<Rightarrow> gate \<Rightarrow> gate" where
  "emit_begin batch g =
     (if gt_stopped g \<or> batch = [] then g
      else g\<lparr>gt_emitting := gt_emitting g @ [batch], gt_accepted := gt_accepted g @ batch\<rparr>)"

definition emit_offer :: "event list \<Rightarrow> gate \<Rightarrow> gate" where
  "emit_offer batch g =
     (let h = g\<lparr>gt_emitting := remove1 batch (gt_emitting g)\<rparr> in
      if length (gt_queue g) < gt_capacity g then h\<lparr>gt_queue := gt_queue g @ [batch]\<rparr>
      else h\<lparr>gt_direct := gt_direct g @ [filter (\<lambda>e. \<not> is_fallback e) batch]\<rparr>)"

definition emit_direct :: "event list \<Rightarrow> gate \<Rightarrow> gate" where
  "emit_direct batch g = send_target batch (g\<lparr>gt_direct := remove1 batch (gt_direct g)\<rparr>)"

section \<open>The worker\<close>

definition hold :: "gotime \<Rightarrow> string \<Rightarrow> event \<Rightarrow> gate \<Rightarrow> gate" where
  "hold now key e g =
     (if gt_capacity g \<le> length (gt_pending g) \<and> map_of (gt_pending g) key = None then g
      else g\<lparr>gt_pending := AList.update key \<lparr>pe_event = e, pe_expires = now + gt_window g\<rparr> (gt_pending g)\<rparr>)"

definition process_event :: "gotime \<Rightarrow> event \<Rightarrow> gate \<Rightarrow> gate" where
  "process_event now e g =
     (let key = evidence_key e in
      if key = [] then send_target [e] g
      else if is_fallback e then
        (case map_of (gt_strong g) key of
           Some seen \<Rightarrow> if time_sub now seen \<le> gt_window g then g else hold now key e g
         | None \<Rightarrow> hold now key e g)
      else send_target [e]
        (g\<lparr>gt_pending := AList.delete key (gt_pending g), gt_strong := AList.update key now (gt_strong g),
           gt_seen := gt_seen g @ [(key, now)]\<rparr>))"

definition flush_evidence :: "gotime \<Rightarrow> bool \<Rightarrow> gate \<Rightarrow> gate" where
  "flush_evidence now every g =
     (let keys = sort_values (map fst (filter (\<lambda>(k, p). every \<or> \<not> now < pe_expires p) (gt_pending g))) in
      if keys = [] then g
      else send_target (map (\<lambda>k. pe_event (the (map_of (gt_pending g) k))) keys)
        (g\<lparr>gt_pending := delete_where (\<lambda>k p. k \<in> set keys) (gt_pending g)\<rparr>))"

definition prune_strong :: "gotime \<Rightarrow> gate \<Rightarrow> gate" where
  "prune_strong now g =
     g\<lparr>gt_strong := delete_where (\<lambda>k seen. dur_mul 2 (gt_window g) < time_sub now seen) (gt_strong g)\<rparr>"

definition gate_tick :: "gotime \<Rightarrow> gate \<Rightarrow> gate" where
  "gate_tick now g = prune_strong now (flush_evidence now False g)"

text \<open>One turn of the worker's loop at the time the clock shows, for the branches other than the tick.\<close>

definition worker_turn :: "gate \<Rightarrow> gate" where
  "worker_turn g =
     (case gt_phase g of
        Gate_selecting \<Rightarrow>
          (case gt_queue g of [] \<Rightarrow> g
           | b # bs \<Rightarrow> g\<lparr>gt_queue := bs, gt_phase := Gate_processing False (gt_clock g) b\<rparr>)
      | Gate_processing draining now [] \<Rightarrow> g\<lparr>gt_phase := if draining then Gate_draining else Gate_selecting\<rparr>
      | Gate_processing draining now (e # es) \<Rightarrow> process_event now e (g\<lparr>gt_phase := Gate_processing draining now es\<rparr>)
      | Gate_draining \<Rightarrow>
          (case gt_queue g of [] \<Rightarrow> (flush_evidence (gt_clock g) True g)\<lparr>gt_phase := Gate_returned\<rparr>
           | b # bs \<Rightarrow> g\<lparr>gt_queue := bs, gt_phase := Gate_processing True (gt_clock g) b\<rparr>)
      | Gate_returned \<Rightarrow> g)"

inductive gate_step :: "gate \<Rightarrow> gate \<Rightarrow> bool" where
  emit: "gate_step g (emit_begin batch g)"
| offer: "batch \<in> set (gt_emitting g) \<Longrightarrow> gate_step g (emit_offer batch g)"
| direct: "batch \<in> set (gt_direct g) \<Longrightarrow> gate_step g (emit_direct batch g)"
| turn: "gate_step g (worker_turn g)"
| tick: "gt_phase g = Gate_selecting \<Longrightarrow> now \<le> gt_clock g \<Longrightarrow> gate_step g (gate_tick now g)"
| stop: "gate_step g (g\<lparr>gt_stopped := True\<rparr>)"
| stopping: "gt_phase g = Gate_selecting \<Longrightarrow> gt_stopped g \<Longrightarrow> gate_step g (g\<lparr>gt_phase := Gate_draining\<rparr>)"
| clock: "gt_clock g \<le> now \<Longrightarrow> gate_step g (g\<lparr>gt_clock := now\<rparr>)"

inductive gate_reachable :: "int \<Rightarrow> duration \<Rightarrow> gate \<Rightarrow> bool" for capacity window where
  init: "gate_reachable capacity window (new_gate capacity window clock)"
| step: "gate_reachable capacity window g \<Longrightarrow> gate_step g g' \<Longrightarrow> gate_reachable capacity window g'"

section \<open>Events are neither invented nor repeated, and strong ones are kept\<close>

definition working :: "gate \<Rightarrow> event list" where
  "working g = (case gt_phase g of Gate_processing _ _ es \<Rightarrow> es | _ \<Rightarrow> [])"

text \<open>The events the gate or one of its callers still has in hand, apart from the held ones.\<close>

definition on_the_way :: "gate \<Rightarrow> event multiset" where
  "on_the_way g = mset (concat (gt_queue g)) + mset (working g) + mset (concat (gt_emitting g)) + mset (concat (gt_direct g))"

definition delivered :: "gate \<Rightarrow> event multiset" where
  "delivered g = mset (concat (gt_out g))"

definition held :: "gate \<Rightarrow> event multiset" where
  "held g = mset (map (pe_event \<circ> snd) (gt_pending g))"

abbreviation strong_part :: "event multiset \<Rightarrow> event multiset" where
  "strong_part M \<equiv> filter_mset (\<lambda>e. \<not> is_fallback e) M"

definition pending_ok :: "gate \<Rightarrow> bool" where
  "pending_ok g \<longleftrightarrow> distinct (map fst (gt_pending g)) \<and> length (gt_pending g) \<le> gt_capacity g \<and>
     length (gt_queue g) \<le> gt_capacity g \<and>
     (\<forall>(k, p) \<in> set (gt_pending g). is_fallback (pe_event p) \<and> evidence_key (pe_event p) = k)"

definition conserved :: "gate \<Rightarrow> bool" where
  "conserved g \<longleftrightarrow> delivered g + on_the_way g + held g \<subseteq># mset (gt_accepted g) \<and>
     strong_part (delivered g + on_the_way g) = strong_part (mset (gt_accepted g))"

lemma mset_concat_remove1: "b \<in> set bs \<Longrightarrow> mset (concat bs) = mset b + mset (concat (remove1 b bs))"
  by (induction bs) (auto simp: ac_simps)

lemma send_target_simps [simp]:
  "delivered (send_target es g) = delivered g + mset es" "on_the_way (send_target es g) = on_the_way g"
  "held (send_target es g) = held g" "pending_ok (send_target es g) = pending_ok g"
  "gt_accepted (send_target es g) = gt_accepted g" "gt_seen (send_target es g) = gt_seen g"
  "gt_strong (send_target es g) = gt_strong g" "gt_pending (send_target es g) = gt_pending g"
  "gt_phase (send_target es g) = gt_phase g" "gt_clock (send_target es g) = gt_clock g"
  "gt_window (send_target es g) = gt_window g" "gt_queue (send_target es g) = gt_queue g"
  by (simp_all add: send_target_def delivered_def on_the_way_def held_def pending_ok_def working_def)

lemma mset_update_delete:
  "distinct (map fst m) \<Longrightarrow> mset (AList.update k v m) = add_mset (k, v) (mset (AList.delete k m))"
proof (induction m)
  case (Cons a m)
  then have "fst a = k \<Longrightarrow> AList.delete k m = m" by (auto simp: AList.delete_eq filter_id_conv image_iff)
  with Cons show ?case by (cases a) (auto simp: AList.delete_eq)
qed simp

lemma mset_map_update:
  "distinct (map fst m) \<Longrightarrow> mset (map f (AList.update k v m)) = add_mset (f (k, v)) (mset (map f (AList.delete k m)))"
  by (simp add: mset_update_delete)

lemma mset_delete_le: "mset (AList.delete k m) \<subseteq># mset m"
  by (simp add: AList.delete_eq)

lemma length_update_le: "length (AList.update k v m) = (if map_of m k = None then Suc (length m) else length m)"
  by (induction m) auto

lemma in_update: "x \<in> set (AList.update k v m) \<Longrightarrow> x = (k, v) \<or> x \<in> set m"
  by (induction m) (auto split: if_splits)

lemma hold_ok:
  assumes "pending_ok g" and "is_fallback e" and "evidence_key e = k" 
  shows "pending_ok (hold now k e g)"
    and "held (hold now k e g) \<subseteq># add_mset e (held g)"
    and "delivered (hold now k e g) = delivered g" "on_the_way (hold now k e g) = on_the_way g"
    and "gt_accepted (hold now k e g) = gt_accepted g"
proof -
  have d: "distinct (map fst (gt_pending g))" using assms(1) by (simp add: pending_ok_def)
  show "pending_ok (hold now k e g)"
    using assms d by (auto simp: hold_def pending_ok_def distinct_update length_update_le
        dest!: in_update split: if_splits)
  have "mset (map (pe_event \<circ> snd) (AList.delete k (gt_pending g))) \<subseteq># held g"
    unfolding held_def mset_map by (intro image_mset_subseteq_mono mset_delete_le)
  then show "held (hold now k e g) \<subseteq># add_mset e (held g)"
    using d by (auto simp: hold_def held_def mset_map_update simp del: mset_map)
qed (simp_all add: hold_def delivered_def on_the_way_def working_def)


lemma process_event_ok:
  assumes "pending_ok g"
  shows "pending_ok (process_event now e g)"
    and "delivered (process_event now e g) + held (process_event now e g) \<subseteq># delivered g + add_mset e (held g)"
    and "strong_part (delivered (process_event now e g)) = strong_part (delivered g + {#e#})"
    and "on_the_way (process_event now e g) = on_the_way g"
    and "gt_accepted (process_event now e g) = gt_accepted g"
proof -
  let ?k = "evidence_key e"
  let ?g = "g\<lparr>gt_pending := AList.delete ?k (gt_pending g), gt_strong := AList.update ?k now (gt_strong g),
    gt_seen := gt_seen g @ [(?k, now)]\<rparr>"
  have "pending_ok (process_event now e g) \<and>
    delivered (process_event now e g) + held (process_event now e g) \<subseteq># delivered g + add_mset e (held g) \<and>
    strong_part (delivered (process_event now e g)) = strong_part (delivered g + {#e#}) \<and>
    on_the_way (process_event now e g) = on_the_way g \<and> gt_accepted (process_event now e g) = gt_accepted g"
  proof (cases "?k = [] \<or> \<not> is_fallback e")
    case True
    have "held ?g \<subseteq># held g"
      unfolding held_def mset_map by (auto intro: image_mset_subseteq_mono mset_delete_le)
    moreover have "length (AList.delete ?k (gt_pending g)) \<le> length (gt_pending g)"
        "set (AList.delete ?k (gt_pending g)) \<subseteq> set (gt_pending g)"
      by (auto simp: AList.delete_eq)
    ultimately have "pending_ok ?g" "held ?g \<subseteq># held g" "delivered ?g = delivered g" "on_the_way ?g = on_the_way g"
      using assms by (auto simp: pending_ok_def distinct_delete delivered_def on_the_way_def working_def)
    with True assms show ?thesis by (auto simp: process_event_def Let_def)
  next
    case False
    with hold_ok [OF assms, of e ?k now] assms show ?thesis
      by (auto simp: process_event_def Let_def split: option.splits)
  qed
  then show "pending_ok (process_event now e g)"
    and "delivered (process_event now e g) + held (process_event now e g) \<subseteq># delivered g + add_mset e (held g)"
    and "strong_part (delivered (process_event now e g)) = strong_part (delivered g + {#e#})"
    and "on_the_way (process_event now e g) = on_the_way g"
    and "gt_accepted (process_event now e g) = gt_accepted g"
    by blast+
qed

lemma flush_evidence_cases:
  assumes "pending_ok g"
  obtains (none) "flush_evidence now every g = g"
  | (some) es rest where "flush_evidence now every g = send_target es (g\<lparr>gt_pending := rest\<rparr>)"
      "set rest \<subseteq> set (gt_pending g)" "pending_ok (g\<lparr>gt_pending := rest\<rparr>)"
      "mset es + held (g\<lparr>gt_pending := rest\<rparr>) = held g"
      "\<And>e. e \<in> set es \<Longrightarrow> \<exists>k p. (k, p) \<in> set (gt_pending g) \<and> pe_event p = e \<and> (every \<or> \<not> now < pe_expires p)"
proof -
  define due where "due = filter (\<lambda>(k, p). every \<or> \<not> now < pe_expires p) (gt_pending g)"
  define keys where "keys = sort_values (map fst due)"
  define es where "es = map (\<lambda>k. pe_event (the (map_of (gt_pending g) k))) keys"
  define rest where "rest = delete_where (\<lambda>k p. k \<in> set keys) (gt_pending g)"
  have d: "distinct (map fst (gt_pending g))" using assms by (simp add: pending_ok_def)
  have at: "map_of (gt_pending g) k = Some p" if "(k, p) \<in> set (gt_pending g)" for k p
    using d that by simp
  have "mset es = image_mset (\<lambda>k. pe_event (the (map_of (gt_pending g) k))) (mset (map fst due))"
    by (simp add: es_def keys_def)
  also have "\<dots> = image_mset (pe_event \<circ> snd) (mset due)"
    unfolding mset_map multiset.map_comp by (rule image_mset_cong) (auto simp: due_def at)
  finally have es: "mset es = image_mset (pe_event \<circ> snd) (mset due)" .
  have keys: "k \<in> set keys \<longleftrightarrow> (k, p) \<in> set due" if "(k, p) \<in> set (gt_pending g)" for k p
    using that at by (auto simp: keys_def due_def image_iff) (metis option.inject)
  have "rest = filter (\<lambda>x. x \<notin> set due) (gt_pending g)"
    unfolding rest_def delete_where_def by (rule filter_cong) (auto simp: keys)
  moreover have "due = filter (\<lambda>x. x \<in> set due) (gt_pending g)"
    unfolding due_def by (rule filter_cong) auto
  ultimately have "mset (gt_pending g) = mset due + mset rest"
    by (metis mset_filter multiset_partition)
  with es have h: "mset es + held (g\<lparr>gt_pending := rest\<rparr>) = held g"
    by (simp add: held_def)
  have r: "set rest \<subseteq> set (gt_pending g)" "length rest \<le> length (gt_pending g)"
    by (auto simp: rest_def) (simp add: delete_where_def)
  have p: "pending_ok (g\<lparr>gt_pending := rest\<rparr>)"
    using assms r distinct_delete_where [OF d] by (auto simp: pending_ok_def rest_def)
  have m: "\<exists>k p. (k, p) \<in> set (gt_pending g) \<and> pe_event p = e \<and> (every \<or> \<not> now < pe_expires p)" if "e \<in> set es" for e
  proof -
    from that have "e \<in># image_mset (pe_event \<circ> snd) (mset due)" using es by (metis set_mset_mset)
    then show ?thesis by (auto simp: due_def) blast+
  qed
  have eq: "flush_evidence now every g = (if keys = [] then g else send_target es (g\<lparr>gt_pending := rest\<rparr>))"
    by (simp only: flush_evidence_def Let_def keys_def due_def es_def rest_def)
  show thesis
  proof (cases "keys = []")
    case True
    with eq show thesis by (intro that(1)) simp
  next
    case False
    with eq h r p m show thesis by (intro that(2) [of es rest]) simp_all
  qed
qed


lemma flush_evidence_ok:
  assumes "pending_ok g"
  shows "pending_ok (flush_evidence now every g)"
    and "delivered (flush_evidence now every g) + held (flush_evidence now every g) = delivered g + held g"
    and "strong_part (delivered (flush_evidence now every g)) = strong_part (delivered g)"
    and "on_the_way (flush_evidence now every g) = on_the_way g"
    and "gt_accepted (flush_evidence now every g) = gt_accepted g"
proof -
  have "pending_ok (flush_evidence now every g) \<and>
    delivered (flush_evidence now every g) + held (flush_evidence now every g) = delivered g + held g \<and>
    strong_part (delivered (flush_evidence now every g)) = strong_part (delivered g) \<and>
    on_the_way (flush_evidence now every g) = on_the_way g \<and> gt_accepted (flush_evidence now every g) = gt_accepted g"
    using assms
  proof (cases rule: flush_evidence_cases [where now = now and every = every])
    case (some es rest)
    have "is_fallback e" if "e \<in> set es" for e
      using some(5) [OF that] assms by (auto simp: pending_ok_def)
    then have "strong_part (mset es) = {#}" by (simp add: filter_mset_eq_conv)
    with some show ?thesis
      by (simp add: ac_simps) (simp add: delivered_def on_the_way_def working_def)
  qed (use assms in simp)
  then show "pending_ok (flush_evidence now every g)"
    and "delivered (flush_evidence now every g) + held (flush_evidence now every g) = delivered g + held g"
    and "strong_part (delivered (flush_evidence now every g)) = strong_part (delivered g)"
    and "on_the_way (flush_evidence now every g) = on_the_way g"
    and "gt_accepted (flush_evidence now every g) = gt_accepted g"
    by blast+
qed

text \<open>The parts a step leaves alone.\<close>

lemma gate_frame:
  "delivered (g\<lparr>gt_phase := ph, gt_queue := q\<rparr>) = delivered g" "held (g\<lparr>gt_phase := ph, gt_queue := q\<rparr>) = held g"
  "delivered (g\<lparr>gt_phase := ph\<rparr>) = delivered g" "held (g\<lparr>gt_phase := ph\<rparr>) = held g"
  "delivered (g\<lparr>gt_strong := st\<rparr>) = delivered g" "held (g\<lparr>gt_strong := st\<rparr>) = held g"
  "on_the_way (g\<lparr>gt_strong := st\<rparr>) = on_the_way g" "pending_ok (g\<lparr>gt_strong := st\<rparr>) = pending_ok g"
  "pending_ok (g\<lparr>gt_phase := ph\<rparr>) = pending_ok g"
  by (simp_all add: delivered_def held_def on_the_way_def working_def pending_ok_def)

lemma conserved_process:
  assumes "pending_ok g" and "conserved g" and "gt_phase g = Gate_processing draining now (e # es)"
  shows "conserved (process_event now e (g\<lparr>gt_phase := Gate_processing draining now es\<rparr>)) \<and>
    pending_ok (process_event now e (g\<lparr>gt_phase := Gate_processing draining now es\<rparr>))"
proof -
  let ?g = "g\<lparr>gt_phase := Gate_processing draining now es\<rparr>"
  let ?h = "process_event now e ?g"
  have ok: "pending_ok ?g" using assms(1) by (simp add: gate_frame)
  note p = process_event_ok [OF ok, of now e]
  have way: "on_the_way g = add_mset e (on_the_way ?g)"
    using assms(3) by (simp add: on_the_way_def working_def)
  have same: "delivered ?g = delivered g" "held ?g = held g" "gt_accepted ?g = gt_accepted g" by (simp_all add: gate_frame)
  have "delivered ?h + on_the_way ?h + held ?h = (delivered ?h + held ?h) + on_the_way ?g"
    using p(4) by (simp add: ac_simps)
  also have "\<dots> \<subseteq># (delivered g + add_mset e (held g)) + on_the_way ?g"
    using p(2) same by (simp add: subset_mset.add_right_mono)
  also have "\<dots> = delivered g + on_the_way g + held g" using way by (simp add: ac_simps)
  also have "\<dots> \<subseteq># mset (gt_accepted ?h)" using assms(2) p(5) same by (simp add: conserved_def)
  finally have "delivered ?h + on_the_way ?h + held ?h \<subseteq># mset (gt_accepted ?h)" .
  moreover have "strong_part (delivered ?h + on_the_way ?h) = strong_part (delivered g + on_the_way g)"
    using p(3,4) same way by simp
  ultimately show ?thesis using assms(2) p(1,5) same by (simp add: conserved_def)
qed

lemma conserved_flush:
  assumes "pending_ok g" and "conserved g"
  shows "conserved (flush_evidence now every g) \<and> pending_ok (flush_evidence now every g)"
proof -
  note f = flush_evidence_ok [OF assms(1), of now every]
  have "delivered (flush_evidence now every g) + on_the_way (flush_evidence now every g) + held (flush_evidence now every g) =
      delivered g + on_the_way g + held g"
    using f(2,4) by (metis add.commute add.assoc)
  then have "delivered (flush_evidence now every g) + on_the_way (flush_evidence now every g) + held (flush_evidence now every g)
      \<subseteq># mset (gt_accepted (flush_evidence now every g))"
    using assms(2) f(5) by (simp only: conserved_def)
  with f assms(2) show ?thesis by (simp add: conserved_def)
qed


lemma conserved_turn:
  assumes "pending_ok g" and "conserved g"
  shows "conserved (worker_turn g) \<and> pending_ok (worker_turn g)"
proof (cases "gt_phase g")
  case (Gate_processing draining now es)
  show ?thesis
  proof (cases es)
    case Nil
    with Gate_processing assms show ?thesis
      by (auto simp: worker_turn_def conserved_def pending_ok_def on_the_way_def working_def delivered_def held_def)
  next
    case (Cons e es')
    with conserved_process [OF assms] Gate_processing show ?thesis by (simp add: worker_turn_def)
  qed
next
  case Gate_draining
  show ?thesis
  proof (cases "gt_queue g")
    case Nil
    let ?f = "flush_evidence (gt_clock g) True g"
    have "gt_phase ?f = gt_phase g"
      using assms(1) by (cases rule: flush_evidence_cases [where now = "gt_clock g" and every = True]) simp_all
    then have "on_the_way (?f\<lparr>gt_phase := Gate_returned\<rparr>) = on_the_way ?f"
      using Gate_draining by (simp add: on_the_way_def working_def)
    with conserved_flush [OF assms, of "gt_clock g" True] Nil Gate_draining show ?thesis
      by (simp add: worker_turn_def conserved_def gate_frame)
  qed (use Gate_draining assms in \<open>auto simp: worker_turn_def conserved_def pending_ok_def on_the_way_def working_def delivered_def held_def ac_simps\<close>)
qed (use assms in \<open>auto simp: worker_turn_def conserved_def pending_ok_def on_the_way_def working_def delivered_def held_def ac_simps split: list.splits\<close>)

lemma conserved_offer:
  assumes "pending_ok g" and "conserved g" and "b \<in> set (gt_emitting g)"
  shows "conserved (emit_offer b g) \<and> pending_ok (emit_offer b g)"
proof -
  note m = mset_concat_remove1 [OF assms(3)]
  have sub: "strong_part (mset b) \<subseteq># mset b" by simp
  let ?o = "emit_offer b g"
  have same: "delivered ?o = delivered g" "held ?o = held g" "gt_accepted ?o = gt_accepted g"
    by (simp_all add: emit_offer_def Let_def delivered_def held_def)
  have way: "on_the_way ?o \<subseteq># on_the_way g"
    using m sub by (auto simp: emit_offer_def Let_def on_the_way_def working_def ac_simps)
  have twice: "strong_part (strong_part M) = strong_part M" for M by (simp add: multiset_eq_iff)
  have strong: "strong_part (on_the_way ?o) = strong_part (on_the_way g)"
    using m twice by (simp add: emit_offer_def Let_def on_the_way_def working_def ac_simps)
  have "delivered ?o + on_the_way ?o + held ?o \<subseteq># delivered g + on_the_way g + held g"
    using way same by simp
  also have "\<dots> \<subseteq># mset (gt_accepted ?o)" using assms(2) same by (simp add: conserved_def)
  finally have "delivered ?o + on_the_way ?o + held ?o \<subseteq># mset (gt_accepted ?o)" .
  moreover have "pending_ok ?o" using assms(1) by (simp add: pending_ok_def emit_offer_def Let_def)
  ultimately show ?thesis using assms(2) same strong by (simp add: conserved_def)
qed

lemma gate_step_conserved: "gate_step g g' \<Longrightarrow> pending_ok g \<Longrightarrow> conserved g \<Longrightarrow> pending_ok g' \<and> conserved g'"
proof (induction rule: gate_step.induct)
  case (emit g batch)
  then show ?case
    by (auto simp: emit_begin_def pending_ok_def conserved_def on_the_way_def working_def delivered_def held_def ac_simps)
next
  case (offer batch g)
  with conserved_offer show ?case by blast
next
  case (direct batch g)
  note m = mset_concat_remove1 [OF direct(1)]
  let ?g = "g\<lparr>gt_direct := remove1 batch (gt_direct g)\<rparr>"
  have "on_the_way g = on_the_way ?g + mset batch" using m by (simp add: on_the_way_def working_def ac_simps)
  moreover have "delivered ?g = delivered g" "held ?g = held g" "pending_ok ?g = pending_ok g"
    by (simp_all add: delivered_def held_def pending_ok_def)
  ultimately show ?case using direct(2,3) by (simp add: emit_direct_def conserved_def ac_simps)
next
  case (turn g)
  with conserved_turn show ?case by blast
next
  case (tick g now)
  have "conserved (prune_strong now h) \<longleftrightarrow> conserved h" "pending_ok (prune_strong now h) \<longleftrightarrow> pending_ok h" for h
    by (simp_all add: prune_strong_def conserved_def gate_frame)
  with conserved_flush tick(3,4) show ?case by (simp add: gate_tick_def)
qed (auto simp: conserved_def pending_ok_def on_the_way_def working_def delivered_def held_def)

lemma gate_reachable_conserved: "gate_reachable capacity window g \<Longrightarrow> pending_ok g \<and> conserved g"
proof (induction rule: gate_reachable.induct)
  case (init clock)
  show ?case by (simp add: new_gate_def conserved_def pending_ok_def on_the_way_def working_def delivered_def held_def)
qed (use gate_step_conserved in blast)


section \<open>Fallback evidence gives way to strong evidence\<close>

text \<open>The time at which the worker's next event counts as seen.\<close>

definition gate_now :: "gate \<Rightarrow> gotime" where
  "gate_now g = (case gt_phase g of Gate_processing _ now _ \<Rightarrow> now | _ \<Rightarrow> gt_clock g)"

lemma gate_now_simps [simp]:
  "gate_now (g\<lparr>gt_queue := q\<rparr>) = gate_now g" "gate_now (g\<lparr>gt_emitting := em\<rparr>) = gate_now g"
  "gate_now (g\<lparr>gt_direct := di\<rparr>) = gate_now g" "gate_now (g\<lparr>gt_out := out\<rparr>) = gate_now g"
  "gate_now (g\<lparr>gt_stopped := st\<rparr>) = gate_now g" "gate_now (g\<lparr>gt_accepted := ac\<rparr>) = gate_now g"
  "gate_now (g\<lparr>gt_pending := pe\<rparr>) = gate_now g" "gate_now (g\<lparr>gt_strong := sr\<rparr>) = gate_now g"
  "gate_now (send_target es g) = gate_now g"
  by (simp_all add: gate_now_def send_target_def split: gate_phase.split)

text \<open>A strong event the worker has seen is either remembered, perhaps as a later one, or older than the window.\<close>

definition remembered_at :: "gate \<Rightarrow> gotime \<Rightarrow> bool" where
  "remembered_at g now \<longleftrightarrow> (\<forall>(k, s) \<in> set (gt_seen g). s \<le> now \<and>
     ((\<exists>s'. map_of (gt_strong g) k = Some s' \<and> s \<le> s' \<and> s' \<le> now) \<or> gt_window g < time_sub now s))"

text \<open>A held event was more than the window later than every strong event with its key.\<close>

definition not_replaced :: "gate \<Rightarrow> bool" where
  "not_replaced g \<longleftrightarrow> (\<forall>(k, p) \<in> set (gt_pending g). \<forall>s. (k, s) \<in> set (gt_seen g) \<longrightarrow>
     gt_window g < time_sub (pe_expires p - gt_window g) s)"

definition gate_times_ok :: "gate \<Rightarrow> bool" where
  "gate_times_ok g \<longleftrightarrow> distinct (map fst (gt_strong g)) \<and> gate_now g \<le> gt_clock g \<and> remembered_at g (gate_now g) \<and> not_replaced g"

lemma time_sub_anti: "s \<le> s' \<Longrightarrow> time_sub t s' \<le> time_sub t s"
  by (auto simp: time_sub_def)

lemma remembered_later: "remembered_at g now \<Longrightarrow> now \<le> now' \<Longrightarrow> remembered_at g now'"
  by (fastforce simp: remembered_at_def dest: order_trans less_le_trans [OF _ time_sub_mono])

lemma sent_times [simp]:
  "remembered_at (send_target es g) now = remembered_at g now" "not_replaced (send_target es g) = not_replaced g"
  "remembered_at (g\<lparr>gt_pending := pe\<rparr>) now = remembered_at g now"
  by (simp_all add: remembered_at_def not_replaced_def)

lemma hold_replaced:
  assumes "remembered_at g now" and "not_replaced g"
    and "case map_of (gt_strong g) k of Some seen \<Rightarrow> \<not> time_sub now seen \<le> gt_window g | None \<Rightarrow> True"
  shows "not_replaced (hold now k e g)"
proof -
  have "gt_window g < time_sub now s" if s: "(k, s) \<in> set (gt_seen g)" for s
  proof -
    from assms(1) s have "(\<exists>s'. map_of (gt_strong g) k = Some s' \<and> s \<le> s' \<and> s' \<le> now) \<or> gt_window g < time_sub now s"
      by (auto simp: remembered_at_def)
    then show ?thesis
    proof
      assume "\<exists>s'. map_of (gt_strong g) k = Some s' \<and> s \<le> s' \<and> s' \<le> now"
      then obtain s' where "map_of (gt_strong g) k = Some s'" "s \<le> s'" by blast
      with assms(3) time_sub_anti [of s s' now] show ?thesis by simp
    qed
  qed
  with assms(2) show ?thesis by (fastforce simp: hold_def not_replaced_def dest!: in_update)
qed

lemma hold_simps [simp]:
  "gt_strong (hold now k e g) = gt_strong g" "gt_seen (hold now k e g) = gt_seen g" "gt_window (hold now k e g) = gt_window g"
  "gt_clock (hold now k e g) = gt_clock g" "gt_phase (hold now k e g) = gt_phase g" "gt_out (hold now k e g) = gt_out g"
  by (simp_all add: hold_def)

lemma process_event_simps [simp]:
  "gt_window (process_event now e g) = gt_window g" "gt_clock (process_event now e g) = gt_clock g"
  "gt_phase (process_event now e g) = gt_phase g"
  by (simp_all add: process_event_def Let_def split: option.splits)

lemma process_event_times:
  assumes "distinct (map fst (gt_strong g))" and "remembered_at g now" and "not_replaced g"
  shows "distinct (map fst (gt_strong (process_event now e g))) \<and> remembered_at (process_event now e g) now \<and>
    not_replaced (process_event now e g)"
proof -
  let ?k = "evidence_key e"
  let ?g = "g\<lparr>gt_pending := AList.delete ?k (gt_pending g), gt_strong := AList.update ?k now (gt_strong g),
    gt_seen := gt_seen g @ [(?k, now)]\<rparr>"
  consider (through) "?k = []" | (fall) "?k \<noteq> []" "is_fallback e" | (strong) "?k \<noteq> []" "\<not> is_fallback e" by blast
  then show ?thesis
  proof cases
    case through
    with assms show ?thesis by (simp add: process_event_def)
  next
    case fall
    have "remembered_at (hold now ?k e g) now" using assms(2) by (simp add: remembered_at_def)
    with fall assms hold_replaced [OF assms(2,3), of ?k e] show ?thesis
      by (auto simp: process_event_def Let_def split: option.splits)
  next
    case strong
    have "remembered_at ?g now"
      using assms(2) by (auto simp: remembered_at_def update_conv') 
    moreover have "not_replaced ?g"
      using assms(3) by (auto simp: not_replaced_def AList.delete_eq)
    moreover have "distinct (map fst (gt_strong ?g))" using assms(1) by (simp add: distinct_update)
    ultimately show ?thesis using strong by (simp add: process_event_def Let_def)
  qed
qed


lemma flush_times:
  assumes "pending_ok g" and "gate_times_ok g"
  shows "gate_times_ok (flush_evidence now every g) \<and> gt_phase (flush_evidence now every g) = gt_phase g \<and>
    gt_clock (flush_evidence now every g) = gt_clock g \<and> gt_window (flush_evidence now every g) = gt_window g"
  using assms(1)
proof (cases rule: flush_evidence_cases [where now = now and every = every])
  case (some es rest)
  have "not_replaced (g\<lparr>gt_pending := rest\<rparr>)"
    using assms(2) some(2) by (auto simp: gate_times_ok_def not_replaced_def dest!: bspec)
  with some(1) assms(2) show ?thesis
    by (simp add: gate_times_ok_def)
qed (use assms in simp_all)

lemma prune_times:
  assumes "gate_times_ok g" and "now \<le> gate_now g" and "0 \<le> gt_window g" and "2 * gt_window g \<le> int64_max"
  shows "gate_times_ok (prune_strong now g)"
proof -
  have d: "distinct (map fst (gt_strong g))" using assms(1) by (simp add: gate_times_ok_def)
  have w: "dur_mul 2 (gt_window g) = 2 * gt_window g" using assms(3,4) by (simp add: dur_mul_exact)
  have "remembered_at (prune_strong now g) (gate_now g)"
    unfolding remembered_at_def
  proof (intro ballI, clarify)
    fix k s
    assume "(k, s) \<in> set (gt_seen (prune_strong now g))"
    then have "(k, s) \<in> set (gt_seen g)" by (simp add: prune_strong_def)
    with assms(1) have s: "s \<le> gate_now g" and "(\<exists>s'. map_of (gt_strong g) k = Some s' \<and> s \<le> s' \<and> s' \<le> gate_now g) \<or>
        gt_window g < time_sub (gate_now g) s"
      by (auto simp: gate_times_ok_def remembered_at_def)
    then consider (old) "gt_window g < time_sub (gate_now g) s"
      | (kept) s' where "map_of (gt_strong g) k = Some s'" "s \<le> s'" "s' \<le> gate_now g" by blast
    then show "s \<le> gate_now g \<and> ((\<exists>s'. map_of (gt_strong (prune_strong now g)) k = Some s' \<and> s \<le> s' \<and> s' \<le> gate_now g) \<or>
        gt_window (prune_strong now g) < time_sub (gate_now g) s)"
    proof cases
      case old
      with s show ?thesis by (simp add: prune_strong_def)
    next
      case kept
      have "gt_window g < time_sub (gate_now g) s" if "dur_mul 2 (gt_window g) < time_sub now s'"
        using that w assms(2,3) kept(2) time_sub_mono [of now "gate_now g" s'] time_sub_anti [of s s' "gate_now g"] by linarith
      with kept s d show ?thesis by (auto simp: prune_strong_def map_of_delete_where)
    qed
  qed
  moreover have "gate_now (prune_strong now g) = gate_now g" "gt_clock (prune_strong now g) = gt_clock g"
      "not_replaced (prune_strong now g) = not_replaced g" "distinct (map fst (gt_strong (prune_strong now g)))"
    using distinct_delete_where [OF d]
    by (simp_all add: prune_strong_def not_replaced_def)
  ultimately show ?thesis using assms(1) by (simp add: gate_times_ok_def)
qed

lemma gate_frame_times:
  "gate_times_ok (g\<lparr>gt_queue := q, gt_emitting := em, gt_direct := di\<rparr>) = gate_times_ok g"
  "gate_times_ok (g\<lparr>gt_emitting := em, gt_accepted := ac\<rparr>) = gate_times_ok g"
  "gate_times_ok (g\<lparr>gt_direct := di, gt_out := out\<rparr>) = gate_times_ok g"
  "gate_times_ok (g\<lparr>gt_emitting := em, gt_queue := q\<rparr>) = gate_times_ok g"
  "gate_times_ok (g\<lparr>gt_emitting := em, gt_direct := di\<rparr>) = gate_times_ok g"
  "gate_times_ok (g\<lparr>gt_stopped := st\<rparr>) = gate_times_ok g"
  by (simp_all add: gate_times_ok_def remembered_at_def not_replaced_def)

text \<open>A change of phase keeps the time of the worker or moves it to the clock.\<close>

lemma phase_times:
  assumes "gate_times_ok g" and "gate_now g \<le> gate_now (g\<lparr>gt_queue := q, gt_phase := ph, gt_clock := c\<rparr>)"
    and "gate_now (g\<lparr>gt_queue := q, gt_phase := ph, gt_clock := c\<rparr>) \<le> c"
  shows "gate_times_ok (g\<lparr>gt_queue := q, gt_phase := ph, gt_clock := c\<rparr>)"
proof -
  have "remembered_at g (gate_now (g\<lparr>gt_queue := q, gt_phase := ph, gt_clock := c\<rparr>))"
    using assms(1,2) remembered_later by (auto simp: gate_times_ok_def)
  with assms(1,3) show ?thesis by (simp add: gate_times_ok_def remembered_at_def not_replaced_def)
qed


lemma turn_times:
  assumes "pending_ok g" and "gate_times_ok g"
  shows "gate_times_ok (worker_turn g)"
proof -
  have le: "gate_now g \<le> gt_clock g" using assms(2) by (simp add: gate_times_ok_def)
  have phase: "gate_times_ok (g\<lparr>gt_queue := q, gt_phase := ph\<rparr>)"
    if "gate_now g \<le> gate_now (g\<lparr>gt_queue := q, gt_phase := ph\<rparr>)" "gate_now (g\<lparr>gt_queue := q, gt_phase := ph\<rparr>) \<le> gt_clock g" for q ph
    using phase_times [OF assms(2), of "gt_clock g" ph q] that by simp
  have phase_only: "gate_times_ok (g\<lparr>gt_phase := ph\<rparr>)"
    if "gate_now g \<le> gate_now (g\<lparr>gt_phase := ph\<rparr>)" "gate_now (g\<lparr>gt_phase := ph\<rparr>) \<le> gt_clock g" for ph
    using phase [of ph "gt_queue g"] that by simp
  show ?thesis
  proof (cases "gt_phase g")
    case (Gate_processing draining now es)
    show ?thesis
    proof (cases es)
      case Nil
      with Gate_processing le show ?thesis by (auto simp: worker_turn_def gate_now_def intro!: phase_only)
    next
      case (Cons e es')
      let ?g = "g\<lparr>gt_phase := Gate_processing draining now es'\<rparr>"
      have "gate_times_ok ?g" using Gate_processing le by (intro phase_only) (simp_all add: gate_now_def)
      moreover have n: "gate_now ?g = now" by (simp add: gate_now_def)
      ultimately have "gate_times_ok (process_event now e ?g)"
        using process_event_times [of ?g now e] by (simp add: gate_times_ok_def gate_now_def)
      with Gate_processing Cons show ?thesis by (simp add: worker_turn_def)
    qed
  next
    case Gate_draining
    show ?thesis
    proof (cases "gt_queue g")
      case Nil
      let ?f = "flush_evidence (gt_clock g) True g"
      have f: "gate_times_ok ?f" "gt_phase ?f = Gate_draining" "gt_clock ?f = gt_clock g"
        using flush_times [OF assms, of "gt_clock g" True] Gate_draining by simp_all
      have "gate_times_ok (?f\<lparr>gt_queue := gt_queue ?f, gt_phase := Gate_returned, gt_clock := gt_clock ?f\<rparr>)"
        by (rule phase_times) (use f in \<open>simp_all add: gate_now_def\<close>)
      with Gate_draining Nil show ?thesis by (simp add: worker_turn_def)
    next
      case (Cons b bs)
      with Gate_draining le show ?thesis by (auto simp: worker_turn_def gate_now_def intro!: phase)
    qed
  next
    case Gate_selecting
    with le show ?thesis by (cases "gt_queue g") (auto simp: worker_turn_def gate_now_def assms intro!: phase)
  qed (use assms in \<open>simp add: worker_turn_def\<close>)
qed

lemma gate_step_times:
  "gate_step g g' \<Longrightarrow> pending_ok g \<Longrightarrow> gate_times_ok g \<Longrightarrow> 0 \<le> gt_window g \<Longrightarrow> 2 * gt_window g \<le> int64_max \<Longrightarrow>
   gate_times_ok g' \<and> gt_window g' = gt_window g"
proof (induction rule: gate_step.induct)
  case (emit g batch)
  then show ?case by (simp add: emit_begin_def gate_frame_times)
next
  case (offer batch g)
  then show ?case by (simp add: emit_offer_def Let_def gate_frame_times)
next
  case (direct batch g)
  then show ?case by (simp add: emit_direct_def send_target_def gate_frame_times)
next
  case (turn g)
  have "gt_window (worker_turn g) = gt_window g"
    using flush_times [OF turn(1,2), of "gt_clock g" True]
    by (auto simp: worker_turn_def split: gate_phase.split list.split)
  with turn turn_times show ?case by simp
next
  case (tick g now)
  let ?f = "flush_evidence now False g"
  note f = flush_times [OF tick(3,4), of now False]
  then have "gate_now ?f = gt_clock g" using tick(1) by (simp add: gate_now_def)
  with f tick have "gate_times_ok (prune_strong now ?f)" by (intro prune_times) simp_all
  with f show ?case by (simp add: gate_tick_def) (simp add: prune_strong_def)
next
  case (stop g)
  then show ?case by (simp add: gate_frame_times)
next
  case (stopping g)
  have "gate_times_ok (g\<lparr>gt_queue := gt_queue g, gt_phase := Gate_draining, gt_clock := gt_clock g\<rparr>)"
    by (rule phase_times) (use stopping in \<open>simp_all add: gate_now_def\<close>)
  then show ?case by simp
next
  case (clock g now)
  have "gate_times_ok (g\<lparr>gt_queue := gt_queue g, gt_phase := gt_phase g, gt_clock := now\<rparr>)"
    by (rule phase_times) (use clock in \<open>auto simp: gate_now_def gate_times_ok_def split: gate_phase.splits\<close>)
  then show ?case by simp
qed

lemma new_gate_window: "2 * window \<le> int64_max \<Longrightarrow> 0 \<le> gt_window (new_gate capacity window c) \<and>
    2 * gt_window (new_gate capacity window c) \<le> int64_max"
  by (simp add: new_gate_def default_evidence_window_def)

lemma gate_reachable_times:
  assumes "gate_reachable capacity window g" and "2 * window \<le> int64_max"
  shows "gate_times_ok g \<and> 0 \<le> gt_window g \<and> 2 * gt_window g \<le> int64_max"
  using assms(1)
proof (induction rule: gate_reachable.induct)
  case (init c)
  have "gate_times_ok (new_gate capacity window c)"
    by (simp add: new_gate_def gate_times_ok_def gate_now_def remembered_at_def not_replaced_def)
  with new_gate_window [OF assms(2)] show ?case by blast
next
  case (step g g')
  with gate_step_times [OF step(2)] gate_reachable_conserved [OF step(1)] show ?case by simp
qed


text \<open>What a full queue hands to the target directly is strong.\<close>

lemma direct_simps [simp]:
  "gt_direct (send_target es g) = gt_direct g" "gt_direct (hold now k e g) = gt_direct g"
  "gt_direct (process_event now e g) = gt_direct g" "gt_direct (flush_evidence now every g) = gt_direct g"
  "gt_direct (worker_turn g) = gt_direct g" "gt_direct (gate_tick now g) = gt_direct g"
  by (simp_all add: send_target_def hold_def process_event_def flush_evidence_def gate_tick_def prune_strong_def worker_turn_def Let_def
      split: option.splits gate_phase.splits list.splits)

lemma gate_step_direct:
  "gate_step g g' \<Longrightarrow> \<forall>b \<in> set (gt_direct g). \<forall>e \<in> set b. \<not> is_fallback e \<Longrightarrow> \<forall>b \<in> set (gt_direct g'). \<forall>e \<in> set b. \<not> is_fallback e"
  by (induction rule: gate_step.induct)
    (auto simp: emit_begin_def emit_offer_def emit_direct_def Let_def dest: notin_set_remove1 split: if_splits)

lemma gate_reachable_direct: "gate_reachable capacity window g \<Longrightarrow> \<forall>b \<in> set (gt_direct g). \<forall>e \<in> set b. \<not> is_fallback e"
proof (induction rule: gate_reachable.induct)
  case (init c)
  show ?case by (simp add: new_gate_def)
qed (use gate_step_direct in blast)

lemma flush_sends:
  assumes "pending_ok g" and "gt_out (flush_evidence now every g) = gt_out g @ [es]" and "e \<in> set es"
  shows "\<exists>p. map_of (gt_pending g) (evidence_key e) = Some p \<and> pe_event p = e \<and> (every \<or> pe_expires p \<le> now)"
  using assms(1)
proof (cases rule: flush_evidence_cases [where now = now and every = every])
  case none
  with assms(2) show ?thesis by simp
next
  case (some es' rest)
  with assms(2) have "es' = es" by (simp add: send_target_def)
  with some(5) [of e] assms(3) obtain k p where p: "(k, p) \<in> set (gt_pending g)" "pe_event p = e" "every \<or> pe_expires p \<le> now"
    by (auto simp: not_less)
  with assms(1) have "evidence_key e = k" "distinct (map fst (gt_pending g))" by (auto simp: pending_ok_def)
  with p show ?thesis by auto
qed

section \<open>Properties\<close>

text \<open>C28: Strong evidence passes.  In every reachable state of the gate and its callers, a strong event that a caller was
  allowed to emit has been delivered or is still in hand (queued, being processed, or with its caller), each exactly once; and nothing is delivered
  that was not emitted, nor twice.  What a caller queues after the worker has returned stays in the queue.\<close>

theorem gate_keeps_strong_evidence:
  assumes "gate_reachable capacity window g"
  shows "strong_part (mset (gt_accepted g)) = strong_part (delivered g + on_the_way g) \<and> delivered g \<subseteq># mset (gt_accepted g)"
proof -
  have c: "conserved g" using gate_reachable_conserved [OF assms] by blast
  then have "delivered g + (on_the_way g + held g) \<subseteq># mset (gt_accepted g)" by (simp add: conserved_def add.assoc)
  then have "delivered g \<subseteq># mset (gt_accepted g)" by (rule mset_subset_eq_add_left [THEN subset_mset.order_trans])
  with c show ?thesis by (simp add: conserved_def)
qed

text \<open>The gate stays within its bounds: never more batches queued than the capacity, never more events held, and at most one for
  each change.\<close>

theorem gate_bounded:
  assumes "gate_reachable capacity window g"
  shows "length (gt_queue g) \<le> gt_capacity g \<and> length (gt_pending g) \<le> gt_capacity g \<and> distinct (map fst (gt_pending g))"
  using gate_reachable_conserved [OF assms] by (simp add: pending_ok_def)

text \<open>C30: Fallback evidence gives way to the strong evidence the worker sees.  When a fallback event about a file leaves the gate, it has
  waited for the window, unless the gate is being stopped, and the worker has processed no strong event about the same change during
  the window before the fallback came nor since.  A strong event that found the queue full went past the worker and does not count:
  see \<open>full_queue_doubles_a_change\<close>.\<close>

theorem fallback_gives_way:
  assumes "gate_reachable capacity window g" and "2 * window \<le> int64_max" and "gate_step g g'"
    and "gt_out g' = gt_out g @ [es]" and "e \<in> set es" and "is_fallback e" and "evidence_key e \<noteq> []"
  shows "\<exists>p. map_of (gt_pending g) (evidence_key e) = Some p \<and> pe_event p = e \<and>
    (gt_phase g = Gate_draining \<or> pe_expires p \<le> gt_clock g) \<and>
    (\<forall>s. (evidence_key e, s) \<in> set (gt_seen g) \<longrightarrow> gt_window g < time_sub (pe_expires p - gt_window g) s)"
proof -
  have ok: "pending_ok g" "not_replaced g"
    using gate_reachable_conserved [OF assms(1)] gate_reachable_times [OF assms(1,2)] by (simp_all add: gate_times_ok_def)
  have "\<exists>p. map_of (gt_pending g) (evidence_key e) = Some p \<and> pe_event p = e \<and> (gt_phase g = Gate_draining \<or> pe_expires p \<le> gt_clock g)"
    using assms(3)
  proof cases
    case (direct batch)
    with assms(4-6) gate_reachable_direct [OF assms(1)] show ?thesis by (auto simp: emit_direct_def send_target_def)
  next
    case turn
    show ?thesis
    proof (cases "gt_phase g = Gate_draining \<and> gt_queue g = []")
      case True
      with turn assms(4) have "gt_out (flush_evidence (gt_clock g) True g) = gt_out g @ [es]" by (simp add: worker_turn_def)
      from flush_sends [OF ok(1) this assms(5)] True show ?thesis by blast
    next
      case False
      with turn assms(4-7) show ?thesis
        by (auto simp: worker_turn_def process_event_def send_target_def Let_def split: gate_phase.splits list.splits if_splits option.splits)
    qed
  next
    case (tick now)
    with assms(4) have "gt_out (flush_evidence now False g) = gt_out g @ [es]" by (simp add: gate_tick_def prune_strong_def)
    from flush_sends [OF ok(1) this assms(5)] tick(3) show ?thesis by (auto intro: order_trans)
  qed (use assms(4) in \<open>auto simp: emit_begin_def emit_offer_def Let_def split: if_splits\<close>)
  then obtain p where p: "map_of (gt_pending g) (evidence_key e) = Some p" "pe_event p = e"
    "gt_phase g = Gate_draining \<or> pe_expires p \<le> gt_clock g" by blast
  then have "(evidence_key e, p) \<in> set (gt_pending g)" by (simp add: map_of_SomeD)
  with ok(2) have "\<forall>s. (evidence_key e, s) \<in> set (gt_seen g) \<longrightarrow> gt_window g < time_sub (pe_expires p - gt_window g) s"
    by (auto simp: not_replaced_def dest!: bspec)
  with p show ?thesis by blast
qed


section \<open>Example: a full queue\<close>

text \<open>One change of a file, seen by the file system first and reported by a hook while the queue is full.\<close>

definition seen_change :: "source_type \<Rightarrow> event" where
  "seen_change src = zero_event\<lparr>session_id := ''s'', event_type := File_modified, source_type := src, ev_path := ''/p/a.go''\<rparr>"

abbreviation fallback_change :: event where "fallback_change \<equiv> seen_change Source_filesystem"
abbreviation hook_change :: event where "hook_change \<equiv> seen_change Source_native_hook"
abbreviation other_event :: event where "other_event \<equiv> zero_event\<lparr>source_type := Source_native_hook\<rparr>"

definition change_key :: string where
  "change_key = ''s'' @ [CHR 0x00] @ ''file_write'' @ [CHR 0x00] @ ''/p/a.go'' @ [CHR 0x00]"

lemma seen_change_key [simp]: "evidence_key (seen_change src) = change_key"
proof -
  have "canonical_evidence_path [] ''/p/a.go'' = ''/p/a.go''" by code_simp
  then show ?thesis
    by (simp add: evidence_key_def seen_change_def zero_event_def change_key_def) (simp add: canonical_evidence_path_def)
qed

lemma change_simps [simp]:
  "is_fallback fallback_change" "\<not> is_fallback hook_change" "\<not> is_fallback other_event" "change_key \<noteq> []"
  by (simp_all add: is_fallback_def seen_change_def zero_event_def change_key_def)

text \<open>The gate holds the fallback event; its window of 10 has passed and the worker is about to tick.\<close>

definition waiting_gate :: gate where
  "waiting_gate = worker_turn (worker_turn (worker_turn
     (emit_offer [fallback_change] (emit_begin [fallback_change] (new_gate 1 10 0)))))"

definition crowded_gate :: gate where
  "crowded_gate = (let g = emit_offer [hook_change] (emit_begin [hook_change]
     (emit_offer [other_event] (emit_begin [other_event] waiting_gate)))
   in (emit_direct [hook_change] g)\<lparr>gt_clock := 10\<rparr>)"

lemma waiting_gate_eq: "waiting_gate =
  (new_gate 1 10 0)\<lparr>gt_pending := [(change_key, \<lparr>pe_event = fallback_change, pe_expires = 10\<rparr>)], gt_accepted := [fallback_change]\<rparr>"
  by (simp add: waiting_gate_def new_gate_def emit_begin_def emit_offer_def worker_turn_def process_event_def hold_def Let_def)

lemma waiting_gate_reachable: "gate_reachable 1 10 waiting_gate"
proof -
  let ?a = "emit_begin [fallback_change] (new_gate 1 10 0)"
  have "gate_reachable 1 10 ?a" by (rule gate_reachable.step [OF gate_reachable.init gate_step.emit])
  then have "gate_reachable 1 10 (emit_offer [fallback_change] ?a)"
    by (rule gate_reachable.step) (rule gate_step.offer, simp add: emit_begin_def new_gate_def)
  then show ?thesis unfolding waiting_gate_def by (intro gate_reachable.step [OF _ gate_step.turn])
qed

lemma crowded_gate_eq: "crowded_gate =
  waiting_gate\<lparr>gt_queue := [[other_event]], gt_out := [[hook_change]], gt_clock := 10,
    gt_accepted := [fallback_change, other_event, hook_change]\<rparr>"
  by (simp add: crowded_gate_def waiting_gate_eq new_gate_def emit_begin_def emit_offer_def emit_direct_def send_target_def Let_def)

lemma crowded_gate_reachable: "gate_reachable 1 10 crowded_gate"
proof -
  let ?a = "emit_begin [other_event] waiting_gate"
  let ?b = "emit_begin [hook_change] (emit_offer [other_event] ?a)"
  let ?c = "emit_offer [hook_change] ?b"
  have "gate_reachable 1 10 ?a" by (rule gate_reachable.step [OF waiting_gate_reachable gate_step.emit])
  then have "gate_reachable 1 10 (emit_offer [other_event] ?a)"
    by (rule gate_reachable.step) (rule gate_step.offer, simp add: emit_begin_def waiting_gate_eq new_gate_def)
  then have "gate_reachable 1 10 ?b" by (rule gate_reachable.step [OF _ gate_step.emit])
  then have "gate_reachable 1 10 ?c"
    by (rule gate_reachable.step)
      (rule gate_step.offer, simp add: emit_begin_def emit_offer_def waiting_gate_eq new_gate_def Let_def)
  then have "gate_reachable 1 10 (emit_direct [hook_change] ?c)"
    by (rule gate_reachable.step)
      (rule gate_step.direct, simp add: emit_begin_def emit_offer_def waiting_gate_eq new_gate_def Let_def)
  then show ?thesis
    unfolding crowded_gate_def Let_def
    by (rule gate_reachable.step)
      (rule gate_step.clock, simp add: emit_begin_def emit_offer_def emit_direct_def send_target_def waiting_gate_eq new_gate_def Let_def)
qed

lemma crowded_tick: "gt_out (gate_tick 10 crowded_gate) = [[hook_change], [fallback_change]]"
  by (simp add: gate_tick_def flush_evidence_def prune_strong_def send_target_def crowded_gate_eq waiting_gate_eq new_gate_def Let_def)

text \<open>A strong event that goes around the full queue is not noted by the worker: the fallback event about the same change is delivered
  as well, although the strong one came within its window.\<close>

theorem full_queue_doubles_a_change:
  "\<exists>g. gate_reachable 1 10 g \<and> gt_out g = [[hook_change], [fallback_change]] \<and> evidence_key hook_change = evidence_key fallback_change"
proof (intro exI conjI)
  show "gate_reachable 1 10 (gate_tick 10 crowded_gate)"
    by (rule gate_reachable.step [OF crowded_gate_reachable]) (rule gate_step.tick, simp_all add: crowded_gate_eq waiting_gate_eq new_gate_def)
qed (simp_all add: crowded_tick)

theorem gate_keeps_strong_evidence_witness:
  "strong_part (mset (gt_accepted crowded_gate)) = strong_part (delivered crowded_gate + on_the_way crowded_gate) \<and>
   delivered crowded_gate \<subseteq># mset (gt_accepted crowded_gate)"
  by (rule gate_keeps_strong_evidence [OF crowded_gate_reachable])

theorem fallback_gives_way_witness:
  "\<exists>p. map_of (gt_pending crowded_gate) change_key = Some p \<and> pe_event p = fallback_change \<and> pe_expires p \<le> gt_clock crowded_gate"
proof -
  have now: "gt_phase crowded_gate = Gate_selecting" "(10::int) \<le> gt_clock crowded_gate" "gt_out crowded_gate = [[hook_change]]"
    by (simp_all add: crowded_gate_eq waiting_gate_eq new_gate_def)
  then have out: "gt_out (gate_tick 10 crowded_gate) = gt_out crowded_gate @ [[fallback_change]]"
    by (simp add: crowded_tick)
  obtain p where "map_of (gt_pending crowded_gate) (evidence_key fallback_change) = Some p" "pe_event p = fallback_change"
      "gt_phase crowded_gate = Gate_draining \<or> pe_expires p \<le> gt_clock crowded_gate"
    using fallback_gives_way [OF crowded_gate_reachable _ gate_step.tick [OF now(1,2)] out, of fallback_change]
    by (simp del: seen_change_key) (simp, blast)
  with now(1) show ?thesis by auto
qed

end
