(* ===== verification/Fs_Observer_Props.thy ===== *)
theory Fs_Observer_Props
  imports Fs_Observer Evidence_Gate
begin

text \<open>
  Properties of the observer of \<^verbatim>\<open>Fs_Observer\<close>: its bounds, that every change of a batch is reported once, that the events are valid and
  carry different identifiers.
\<close>

section \<open>Only one candidate\<close>

lemma only_match_Some:
  "only_match P found cs = Some c \<longleftrightarrow> (found = None \<and> filter P cs = [c]) \<or> (found = Some c \<and> filter P cs = [])"
  by (induction P found cs rule: only_match.induct) auto

lemma filter_singleton: "filter P xs = [c] \<Longrightarrow> c \<in> set xs \<and> P c"
  by (metis list.set_intros(1) mem_Collect_eq set_filter)

section \<open>Pairs\<close>

definition pair_paths :: "rename_pair \<Rightarrow> string list" where
  "pair_paths r = [pc_path (rp_old r), pc_path (rp_new r)]"

definition pairing_ok :: "pending_change list \<Rightarrow> pairing \<Rightarrow> bool" where
  "pairing_ok batch st \<longleftrightarrow> snd st = set (concat (map pair_paths (fst st))) \<and> snd st \<subseteq> pc_path ` set batch \<and>
     length (fst st) \<le> card (snd st) \<and> (\<forall>r \<in> set (fst st). rp_old r \<in> set batch \<and> rp_new r \<in> set batch)"

definition pairs_distinct :: "pairing \<Rightarrow> bool" where
  "pairs_distinct st \<longleftrightarrow> distinct (concat (map pair_paths (fst st)))"

lemma add_pair_ok:
  assumes "pairing_ok batch st" and "old \<in> set batch" and "new \<in> set batch" and "pc_path old \<notin> snd st"
  shows "pairing_ok batch (add_pair old new st)"
proof -
  have fin: "finite (snd st)" using assms(1) by (simp add: pairing_ok_def)
  then have "card (snd st) < card (insert (pc_path old) (insert (pc_path new) (snd st)))"
    using assms(4) by (auto intro!: psubset_card_mono)
  with assms show ?thesis by (auto simp: pairing_ok_def add_pair_def pair_paths_def)
qed

lemma add_pair_distinct:
  assumes "pairing_ok batch st" and "pairs_distinct st" and "pc_path old \<notin> snd st" and "pc_path new \<notin> snd st"
    and "pc_path old \<noteq> pc_path new"
  shows "pairs_distinct (add_pair old new st)"
  using assms by (auto simp: pairs_distinct_def add_pair_def pair_paths_def pairing_ok_def)

lemma by_relative_Some: "by_relative root batch r = Some c \<Longrightarrow> c \<in> set batch \<and> rel_or_empty root (pc_path c) = r"
  unfolding by_relative_def find_Some_iff by (metis nth_mem set_rev)

lemma pair_from_git_ok:
  "pairing_ok batch st \<Longrightarrow> pairing_ok batch (pair_from_git root batch r st)"
  by (auto simp: pair_from_git_def intro!: add_pair_ok dest!: by_relative_Some split: option.splits)

lemma pair_from_git_distinct:
  assumes "pairing_ok batch st" and "pairs_distinct st" and "fst r \<noteq> snd r"
  shows "pairs_distinct (pair_from_git root batch r st)"
  using assms by (fastforce simp: pair_from_git_def dest: by_relative_Some intro: add_pair_distinct split: option.splits)

lemma pair_by_fingerprint_cases:
  assumes "pair_by_fingerprint creates old st \<noteq> st"
  obtains new where "pair_by_fingerprint creates old st = add_pair old new st" "pc_path old \<notin> snd st" "pc_path new \<notin> snd st"
    "filter (\<lambda>c. pc_path c \<notin> snd st \<and> same_fingerprint (pc_before old) (pc_after c)) creates = [new]"
proof -
  let ?P = "\<lambda>c. pc_path c \<notin> snd st \<and> same_fingerprint (pc_before old) (pc_after c)"
  from assms obtain new where n: "only_match ?P None creates = Some new" "pc_path old \<notin> snd st"
      "pair_by_fingerprint creates old st = add_pair old new st"
    by (auto simp: pair_by_fingerprint_def split: if_splits option.splits)
  then have f: "filter ?P creates = [new]" by (simp add: only_match_Some)
  from filter_singleton [OF f] n f show thesis by (intro that) auto
qed

lemma pair_by_fingerprint_ok:
  assumes "pairing_ok batch st" and "old \<in> set (renamed_changes batch)"
  shows "pairing_ok batch (pair_by_fingerprint (created_changes batch) old st)"
proof (cases "pair_by_fingerprint (created_changes batch) old st = st")
  case False
  then obtain new where n: "pair_by_fingerprint (created_changes batch) old st = add_pair old new st" "pc_path old \<notin> snd st"
      "filter (\<lambda>c. pc_path c \<notin> snd st \<and> same_fingerprint (pc_before old) (pc_after c)) (created_changes batch) = [new]"
    by (rule pair_by_fingerprint_cases) blast
  then have "new \<in> set (created_changes batch)" using filter_singleton [OF n(3)] by simp
  with n assms show ?thesis by (auto simp: created_changes_def renamed_changes_def intro: add_pair_ok)
qed (use assms in simp)

lemma pair_by_fingerprint_distinct:
  assumes "pairing_ok batch st" and "pairs_distinct st" and "old \<in> set (renamed_changes batch)" and "distinct (map pc_path batch)"
  shows "pairs_distinct (pair_by_fingerprint (created_changes batch) old st)"
proof (cases "pair_by_fingerprint (created_changes batch) old st = st")
  case False
  then obtain new where n: "pair_by_fingerprint (created_changes batch) old st = add_pair old new st" "pc_path old \<notin> snd st"
      "pc_path new \<notin> snd st"
      "filter (\<lambda>c. pc_path c \<notin> snd st \<and> same_fingerprint (pc_before old) (pc_after c)) (created_changes batch) = [new]"
    by (rule pair_by_fingerprint_cases)
  then have new: "new \<in> set (created_changes batch)" using filter_singleton [OF n(4)] by simp
  then have "new \<noteq> old" using assms(3) by (auto simp: created_changes_def renamed_changes_def)
  moreover have "new \<in> set batch" "old \<in> set batch" using new assms(3) by (auto simp: created_changes_def renamed_changes_def)
  ultimately have "pc_path old \<noteq> pc_path new" using assms(4) by (auto simp: distinct_map inj_on_def)
  with n assms(1,2) show ?thesis by (auto intro: add_pair_distinct)
qed (use assms in simp)

lemma mset_concat_map: "mset xs = mset ys \<Longrightarrow> mset (concat (map f xs)) = mset (concat (map f ys))"
  unfolding mset_concat map_map by (metis mset_map sum_mset_sum_list)

lemma fold_invariant: "P s \<Longrightarrow> (\<And>x s. x \<in> set xs \<Longrightarrow> P s \<Longrightarrow> P (f x s)) \<Longrightarrow> P (fold f xs s)"
  by (induction xs arbitrary: s) auto

lemma correlate_ok:
  assumes "correlate_renames root batch ev = (pairs, consumed)"
  shows "pairing_ok batch (pairs, consumed)"
    and "distinct (map pc_path batch) \<Longrightarrow> list_all (\<lambda>(a, b). a \<noteq> b) (ge_renames ev) \<Longrightarrow> pairs_distinct (pairs, consumed)"
proof -
  define st1 where "st1 = fold (pair_from_git root batch) (ge_renames ev) ([], {})"
  define st2 where "st2 = fold (pair_by_fingerprint (created_changes batch)) (renamed_changes batch) st1"
  have eq: "pairs = sort_slice pair_less (fst st2)" "consumed = snd st2"
    using assms by (simp_all add: correlate_renames_def Let_def st1_def st2_def)
  have ok1: "pairing_ok batch st1"
    unfolding st1_def by (rule fold_invariant) (simp_all add: pairing_ok_def[of _ "([], {})"] pair_from_git_ok)
  have ok2: "pairing_ok batch st2"
    unfolding st2_def by (rule fold_invariant) (simp_all add: ok1 pair_by_fingerprint_ok)
  then show "pairing_ok batch (pairs, consumed)" by (auto simp: pairing_ok_def eq)
  assume d: "distinct (map pc_path batch)" and self: "list_all (\<lambda>(a, b). a \<noteq> b) (ge_renames ev)"
  have "pairing_ok batch st1 \<and> pairs_distinct st1"
    unfolding st1_def by (rule fold_invariant)
      (use self in \<open>auto simp: pairing_ok_def[of _ "([], {})"] pairs_distinct_def[of "([], {})"] pair_from_git_ok list_all_iff intro!: pair_from_git_distinct\<close>)
  then have "pairing_ok batch st2 \<and> pairs_distinct st2"
    unfolding st2_def by (rule fold_invariant) (auto simp: d pair_by_fingerprint_ok pair_by_fingerprint_distinct)
  moreover have "mset (concat (map pair_paths pairs)) = mset (concat (map pair_paths (fst st2)))"
    by (rule mset_concat_map) (simp add: eq)
  ultimately show "pairs_distinct (pairs, consumed)"
    by (simp add: pairs_distinct_def) (metis mset_eq_imp_distinct_iff)
qed

text \<open>C32: Every change of a batch is told once.  Each change belongs to exactly one rename or is reported on its own, so nothing is reported twice and
  nothing is forgotten, for batches with one change per path and evidence of Git that renames no path to itself.\<close>

theorem each_change_told_once:
  assumes "correlate_renames root batch ev = (pairs, consumed)"
    and "distinct (map pc_path batch)" and "list_all (\<lambda>(a, b). a \<noteq> b) (ge_renames ev)"
  shows "mset (concat (map pair_paths pairs) @ map pc_path (filter (\<lambda>c. pc_path c \<notin> consumed) batch)) = mset (map pc_path batch)"
proof -
  have d: "distinct (concat (map pair_paths pairs))" and c: "consumed = set (concat (map pair_paths pairs))"
    "consumed \<subseteq> pc_path ` set batch"
    using correlate_ok(1) [OF assms(1)] correlate_ok(2) [OF assms] by (auto simp: pairing_ok_def pairs_distinct_def)
  let ?rest = "map pc_path (filter (\<lambda>c. pc_path c \<notin> consumed) batch)"
  have "distinct ?rest" using assms(2) by (simp add: distinct_map_filter)
  moreover have "set ?rest = pc_path ` set batch - consumed" by auto
  ultimately have "distinct (concat (map pair_paths pairs) @ ?rest)"
      "set (concat (map pair_paths pairs) @ ?rest) = set (map pc_path batch)"
    using d c by (auto simp del: set_concat)
  then show ?thesis using assms(2) set_eq_iff_mset_eq_distinct by blast
qed


lemma length_map_filter_le: "length (List.map_filter f xs) \<le> length xs"
  by (simp add: List.map_filter_def)

text \<open>A batch leads to at most one event for each of its changes.\<close>

lemma events_for_batch_bound:
  assumes "distinct (map pc_path batch)"
  shows "length (events_for_batch git obs root batch) \<le> length batch"
proof (cases "batch = []")
  case False
  define ev where "ev = git root (map pc_path batch)"
  obtain pairs consumed where c: "correlate_renames root batch ev = (pairs, consumed)" by fastforce
  let ?rest = "filter (\<lambda>c. pc_path c \<notin> consumed) batch"
  have ok: "length pairs \<le> card consumed" "consumed \<subseteq> pc_path ` set batch"
    using correlate_ok(1) [OF c] by (auto simp: pairing_ok_def)
  have "distinct (map pc_path ?rest)" using assms by (simp add: distinct_map_filter)
  then have "length ?rest = card (set (map pc_path ?rest))" by (simp only: distinct_card length_map)
  also have "set (map pc_path ?rest) = pc_path ` set batch - consumed" by auto
  also have "card (pc_path ` set batch - consumed) = card (pc_path ` set batch) - card consumed"
    using ok(2) by (simp add: card_Diff_subset finite_subset)
  also have "\<dots> = length batch - card consumed"
    using distinct_card [OF assms] by simp
  finally have "length ?rest = length batch - card consumed" .
  moreover have "card consumed \<le> length batch"
    using card_mono [OF _ ok(2)] distinct_card [OF assms] by simp
  ultimately have "length pairs + length ?rest \<le> length batch" using ok(1) by linarith
  moreover have "events_for_batch git obs root batch =
      map (rename_event obs) pairs @ List.map_filter (change_event obs root ev) ?rest"
    using False c by (simp add: events_for_batch_def Let_def ev_def)
  ultimately show ?thesis using length_map_filter_le [of "change_event obs root ev" ?rest] by simp
qed (simp add: events_for_batch_def)

section \<open>Bounds of the observer\<close>

definition observer_ok :: "fs_observer \<Rightarrow> bool" where
  "observer_ok o1 \<longleftrightarrow> distinct (map fst (fo_pending o1)) \<and> (\<forall>(p, c) \<in> set (fo_pending o1). pc_path c = p) \<and>
     length (fo_pending o1) \<le> fo_max_pending o1 \<and> length (fo_raw o1) \<le> fo_queue_size o1 \<and>
     list_all (\<lambda>es. length es \<le> fo_batch_size o1 + 1) (fo_emitted o1)"

lemma ready_changes_split:
  assumes "distinct (map fst pending)" and "\<forall>(p, c) \<in> set pending. pc_path c = p"
    and "ready_changes pending now debounce window every limit = (ready, rest)"
  shows "mset (map snd pending) = mset ready + mset (map snd rest)" and "distinct (map pc_path ready)"
    and "sorted (map pc_path ready)" and "length ready \<le> limit" and "set ready \<subseteq> snd ` set pending"
    and "set rest \<subseteq> set pending" and "distinct (map fst rest)" and "length rest \<le> length pending"
    and "every \<Longrightarrow> length ready = min limit (length pending)"
proof -
  define due where "due = map fst (filter (\<lambda>(k, c). every \<or> change_due now debounce window (latest_rename pending) c) pending)"
  define keys where "keys = take limit (sort due)"
  have ready: "ready = map (\<lambda>k. the (map_of pending k)) keys" and rest: "rest = delete_where (\<lambda>k c. k \<in> set keys) pending"
    using assms(3) by (simp_all add: ready_changes_def Let_def keys_def due_def sort_strings_sort)
  have d: "distinct due" "set due \<subseteq> fst ` set pending"
    using assms(1) by (auto simp: due_def distinct_map_filter)
  have "set keys \<subseteq> set due" by (auto simp: keys_def dest!: in_set_takeD)
  with d have k: "distinct keys" "sorted keys" "set keys \<subseteq> fst ` set pending"
    by (auto simp: keys_def sorted_wrt_take)
  have at: "(k, the (map_of pending k)) \<in> set pending" if "k \<in> set keys" for k
    using that k(3) assms(1) by (auto simp: map_of_eq_Some_iff)
  have path: "pc_path (the (map_of pending k)) = k" if "k \<in> set keys" for k
    using at [OF that] assms(2) by auto
  then have paths: "map pc_path ready = keys" by (simp add: ready map_idI)
  then show "distinct (map pc_path ready)" "sorted (map pc_path ready)" using k by simp_all
  show "length ready \<le> limit" by (simp add: ready keys_def)
  show "set ready \<subseteq> snd ` set pending" using at by (auto simp: ready image_iff) force
  show "set rest \<subseteq> set pending" "distinct (map fst rest)" using distinct_delete_where [OF assms(1)] by (auto simp: rest)
  show "length rest \<le> length pending" by (simp add: rest delete_where_def)
  show "every \<Longrightarrow> length ready = min limit (length pending)" by (simp add: ready keys_def due_def case_prod_beta' min.commute)
  have rest': "rest = filter (\<lambda>x. fst x \<notin> set keys) pending"
    unfolding rest delete_where_def by (rule filter_cong) auto
  have "mset ready = mset (map snd (filter (\<lambda>x. fst x \<in> set keys) pending))"
  proof -
    let ?f = "filter (\<lambda>x. fst x \<in> set keys) pending"
    have "set (map fst ?f) = set keys" using k(3) by auto
    moreover have "distinct (map fst ?f)" using assms(1) by (simp add: distinct_map_filter)
    ultimately have "mset (map fst ?f) = mset keys" using k(1) set_eq_iff_mset_eq_distinct by blast
    moreover have "map snd ?f = map (\<lambda>k. the (map_of pending k)) (map fst ?f)" using assms(1) by auto
    ultimately show ?thesis by (simp only: ready mset_map)
  qed
  moreover have part: "mset pending = mset (filter (\<lambda>x. fst x \<in> set keys) pending) + mset rest"
    using multiset_partition [of "mset pending" "\<lambda>x. fst x \<in> set keys"] by (simp add: rest')
  from arg_cong [OF this, of "image_mset snd"]
  have "mset (map snd pending) = mset (map snd (filter (\<lambda>x. fst x \<in> set keys) pending)) + mset (map snd rest)"
    by (simp only: image_mset_union mset_map)
  ultimately show "mset (map snd pending) = mset ready + mset (map snd rest)" by simp
qed


lemma length_number_events [simp]: "length (number_events sid n es) = length es"
  by (induction sid n es rule: number_events.induct) auto

lemma observer_ok_count [simp]: "observer_ok (count_lost o1) = observer_ok o1"
  by (simp add: observer_ok_def count_lost_def)

lemma note_pending_ok: "observer_ok o1 \<Longrightarrow> observer_ok (note_pending p op at before after o1)"
proof (cases "map_of (fo_pending o1) p")
  case None
  then have "p \<notin> fst ` set (fo_pending o1)" by (simp add: map_of_eq_None_iff)
  moreover assume "observer_ok o1"
  ultimately show ?thesis using None by (auto simp: note_pending_def observer_ok_def count_lost_def)
next
  case (Some c)
  assume ok: "observer_ok o1"
  let ?c = "c\<lparr>pc_op := pc_op c OR op, pc_after := after, pc_last := at, pc_count := pc_count c + 1\<rparr>"
  have "pc_path ?c = p" using ok map_of_SomeD [OF Some] by (auto simp: observer_ok_def)
  then have "\<forall>(q, d) \<in> set (AList.update p ?c (fo_pending o1)). pc_path d = q"
    using ok by (auto simp: observer_ok_def dest!: in_update)
  moreover have "length (AList.update p ?c (fo_pending o1)) = length (fo_pending o1)" using Some by (simp add: length_update_le)
  ultimately show ?thesis using ok Some by (auto simp: note_pending_def observer_ok_def distinct_update)
qed

lemma accept_change_ok: "observer_ok o1 \<Longrightarrow> observer_ok (accept_change fs d c at o1)"
proof -
  assume ok: "observer_ok o1"
  have "observer_ok (note_pending p op at before after (o1\<lparr>fo_states := st\<rparr>))" for p op before after st
    by (rule note_pending_ok) (use ok in \<open>simp add: observer_ok_def\<close>)
  with ok show ?thesis by (simp add: accept_change_def Let_def split: option.split)
qed

lemma flush_observer_cases:
  obtains (idle) "flush_observer git obs now every o1 = o1" "fo_dropped o1 = 0"
      "fst (ready_changes (fo_pending o1) now (fo_debounce o1) (fo_rename_window o1) every (fo_batch_size o1)) = []"
  | (sent) ready rest es where
      "ready_changes (fo_pending o1) now (fo_debounce o1) (fo_rename_window o1) every (fo_batch_size o1) = (ready, rest)"
      "es = events_for_batch git obs (fo_root o1) ready @ (if 0 < fo_dropped o1 then [dropped_event obs now (fo_dropped o1)] else [])"
      "flush_observer git obs now every o1 = o1\<lparr>fo_pending := rest, fo_dropped := 0, fo_sequence := fo_sequence o1 + length es,
         fo_emitted := fo_emitted o1 @ [number_events (ob_session_id obs) (fo_sequence o1) es]\<rparr>"
proof -
  obtain ready rest where r: "ready_changes (fo_pending o1) now (fo_debounce o1) (fo_rename_window o1) every (fo_batch_size o1) = (ready, rest)"
    by fastforce
  show thesis
  proof (cases "ready = [] \<and> fo_dropped o1 = 0")
    case True
    with r show thesis by (intro idle) (simp_all add: flush_observer_def)
  next
    case False
    show thesis by (rule sent [OF r refl]) (simp only: flush_observer_def r prod.case False if_False Let_def)
  qed
qed

lemma flush_observer_ok:
  assumes "observer_ok o1"
  shows "observer_ok (flush_observer git obs now every o1)"
proof -
  obtain ready rest where r: "ready_changes (fo_pending o1) now (fo_debounce o1) (fo_rename_window o1) every (fo_batch_size o1) = (ready, rest)"
    by fastforce
  have p: "distinct (map fst (fo_pending o1))" "\<forall>(p, c) \<in> set (fo_pending o1). pc_path c = p" using assms by (simp_all add: observer_ok_def)
  note s = ready_changes_split [OF p r]
  have "length (events_for_batch git obs (fo_root o1) ready) \<le> fo_batch_size o1"
    using events_for_batch_bound [OF s(2)] s(4) le_trans by blast
  with assms s(6-8) r show ?thesis by (auto simp: flush_observer_def observer_ok_def Let_def)
qed

lemma observer_step_ok: "observer_step obs o1 o2 \<Longrightarrow> observer_ok o1 \<Longrightarrow> observer_ok o2"
proof (induction rule: observer_step.induct)
  case (change c at o1)
  then show ?case by (auto simp: drain_change_def observer_ok_def count_lost_def)
next
  case (accept o1 fs d ig)
  show ?case
  proof (cases "fo_raw o1")
    case (Cons x rest)
    have "observer_ok (o1\<lparr>fo_raw := rest\<rparr>)" using accept(2) Cons by (simp add: observer_ok_def)
    from accept_change_ok [OF this] Cons show ?thesis by (cases x) (simp add: take_raw_def Let_def observer_ok_def)
  qed (use accept in \<open>simp add: take_raw_def\<close>)
next
  case (finish o1 git now)
  from flush_observer_ok [OF finish(2), of git obs now True] show ?case by (simp add: observer_ok_def)
qed (simp_all add: flush_observer_ok)

lemma observer_reachable_ok: "observer_reachable obs o1 \<Longrightarrow> observer_ok o1"
proof (induction rule: observer_reachable.induct)
  case (init c d m root o1)
  then show ?case by (auto simp: start_observer_def observer_ok_def Let_def split: option.splits)
qed (use observer_step_ok in blast)

section \<open>Identifiers\<close>

lemma digits_value_append: "digits_value (s @ t) = digits_value s * 10 ^ length t + digits_value t"
proof -
  have shift: "foldl (\<lambda>n c. n * 10 + (byte c - 48)) a t = a * 10 ^ length t + foldl (\<lambda>n c. n * 10 + (byte c - 48)) 0 t" for a
  proof (induction t rule: rev_induct)
    case (snoc c t)
    show ?case using snoc by (simp add: algebra_simps)
  qed simp
  show ?thesis unfolding digits_value_def foldl_append by (rule shift)
qed

lemma digits_value_zeros: "digits_value (replicate n (CHR ''0'')) = 0"
  by (induction n) (simp_all add: digits_value_def byte_def)

lemma pad8_value [simp]: "digits_value (pad8 n) = n"
  using digits_value_nat_str [of n] by (simp add: pad8_def digits_value_append digits_value_zeros)

lemma fs_event_id_inj: "fs_event_id sid m = fs_event_id sid n \<longleftrightarrow> m = n"
  by (auto simp: fs_event_id_def dest: arg_cong [where f = digits_value])

lemma number_events_ids: "map event_id (number_events sid n es) = map (fs_event_id sid) [n + 1..<n + 1 + length es]"
proof (induction sid n es rule: number_events.induct)
  case (2 sid n e es)
  then show ?case by (simp add: upt_conv_Cons del: upt_Suc)
qed simp

definition ids_ok :: "observation \<Rightarrow> fs_observer \<Rightarrow> bool" where
  "ids_ok obs o1 \<longleftrightarrow> map event_id (concat (fo_emitted o1)) = map (fs_event_id (ob_session_id obs)) [1..<fo_sequence o1 + 1]"

text \<open>What a step other than a flush leaves alone.\<close>

lemma emitted_frame [simp]:
  "fo_emitted (count_lost o1) = fo_emitted o1" "fo_sequence (count_lost o1) = fo_sequence o1"
  "fo_emitted (note_pending p op at b a o1) = fo_emitted o1" "fo_sequence (note_pending p op at b a o1) = fo_sequence o1"
  "fo_emitted (accept_change fs d c at o1) = fo_emitted o1" "fo_sequence (accept_change fs d c at o1) = fo_sequence o1"
  "fo_emitted (take_raw fs d ig o1) = fo_emitted o1" "fo_sequence (take_raw fs d ig o1) = fo_sequence o1"
  "fo_emitted (drain_change c at o1) = fo_emitted o1" "fo_sequence (drain_change c at o1) = fo_sequence o1"
  by (simp_all add: count_lost_def note_pending_def accept_change_def take_raw_def drain_change_def Let_def split: option.split list.split)

lemma flush_ids: "ids_ok obs o1 \<Longrightarrow> ids_ok obs (flush_observer git obs now every o1)"
proof -
  assume ok: "ids_ok obs o1"
  let ?f = "fs_event_id (ob_session_id obs)" and ?n = "fo_sequence o1"
  have all: "ids_ok obs (o1\<lparr>fo_pending := r, fo_dropped := 0, fo_sequence := ?n + length es,
      fo_emitted := fo_emitted o1 @ [number_events (ob_session_id obs) ?n es]\<rparr>)" for r es
  proof -
    have "[1..<?n + length es + 1] = [1..<?n + 1] @ [?n + 1..<?n + 1 + length es]"
      using upt_add_eq_append [of 1 "?n + 1" "length es"] by (simp add: ac_simps del: upt_Suc)
    then have "map ?f [1..<?n + length es + 1] = map ?f [1..<?n + 1] @ map ?f [?n + 1..<?n + 1 + length es]"
      by (simp only: map_append)
    also have "\<dots> = map event_id (concat (fo_emitted o1)) @ map event_id (number_events (ob_session_id obs) ?n es)"
      using ok unfolding ids_ok_def number_events_ids by (simp only:)
    finally show ?thesis unfolding ids_ok_def by (simp del: upt_Suc)
  qed
  show ?thesis
  proof (cases rule: flush_observer_cases [where git = git and obs = obs and now = now and every = every and ?o1.0 = o1])
    case (sent ready rest es)
    show ?thesis unfolding sent(3) by (rule all)
  qed (simp add: ok)
qed

lemma observer_step_ids: "observer_step obs o1 o2 \<Longrightarrow> ids_ok obs o1 \<Longrightarrow> ids_ok obs o2"
proof (induction rule: observer_step.induct)
  case (finish o1 git now)
  from flush_ids [OF finish(2), of git now True] show ?case by (simp add: ids_ok_def)
qed (simp_all add: flush_ids, simp_all add: ids_ok_def)

lemma observer_reachable_ids: "observer_reachable obs o1 \<Longrightarrow> ids_ok obs o1"
proof (induction rule: observer_reachable.induct)
  case (init c d m root o1)
  then show ?case by (auto simp: start_observer_def ids_ok_def Let_def split: option.splits)
qed (use observer_step_ids in blast)

end
