(* ===== verification/Fs_Observer_Reports.thy ===== *)
theory Fs_Observer_Reports
  imports Fs_Observer_Props
begin

text \<open>
  What the observer of \<^verbatim>\<open>Fs_Observer\<close> reports: the events of a batch are accepted by the protocol and count as fallback evidence for the
  gate of the wrapper, and every notification is waiting, told of in a batch, passed over or reported as lost; what is still waiting
  beyond one batch when the command ends is never told of.
\<close>

section \<open>Lost notifications\<close>

definition loss_of :: "event \<Rightarrow> u64" where
  "loss_of e = (case map_of (ev_metadata e) ''dropped_events'' of Some (MSized n) \<Rightarrow> word_of_int n | _ \<Rightarrow> 0)"

lemma loss_of_number [simp]: "map loss_of (number_events sid n es) = map loss_of es"
  by (induction sid n es rule: number_events.induct) (simp_all add: loss_of_def)

lemma loss_of_rename [simp]: "loss_of (rename_event obs r) = 0"
  by (simp add: loss_of_def rename_event_def Let_def)

lemma loss_of_change: "change_event obs root ev c = Some e \<Longrightarrow> loss_of e = 0"
  by (auto simp: loss_of_def change_event_def Let_def split: option.splits split del: if_split) (simp_all split: if_splits)

lemma loss_of_dropped [simp]: "loss_of (dropped_event obs at lost) = lost"
  by (simp add: loss_of_def dropped_event_def)

lemma events_for_batch_cases:
  assumes "e \<in> set (events_for_batch git obs root batch)"
  obtains (rename) r where "e = rename_event obs r" "rp_old r \<in> set batch" "rp_new r \<in> set batch"
  | (single) c where "change_event obs root (git root (map pc_path batch)) c = Some e" "c \<in> set batch"
proof -
  obtain pairs consumed where c: "correlate_renames root batch (git root (map pc_path batch)) = (pairs, consumed)" by fastforce
  have "e \<in> rename_event obs ` set pairs \<or>
      e \<in> set (List.map_filter (change_event obs root (git root (map pc_path batch))) (filter (\<lambda>c. pc_path c \<notin> consumed) batch))"
    using assms c by (auto simp: events_for_batch_def Let_def split: if_splits)
  then show thesis
  proof
    assume "e \<in> rename_event obs ` set pairs"
    then obtain r where "e = rename_event obs r" "r \<in> set pairs" by blast
    with correlate_ok(1) [OF c] show thesis by (intro rename [of r]) (auto simp: pairing_ok_def)
  next
    assume "e \<in> set (List.map_filter (change_event obs root (git root (map pc_path batch))) (filter (\<lambda>c. pc_path c \<notin> consumed) batch))"
    then obtain x where "x \<in> set batch" "change_event obs root (git root (map pc_path batch)) x = Some e"
      by (auto simp: List.map_filter_def)
    then show thesis by (intro single)
  qed
qed

lemma loss_of_batch: "sum_list (map (\<lambda>e. uint (loss_of e)) (events_for_batch git obs root batch)) = 0"
proof -
  have "\<forall>e \<in> set (events_for_batch git obs root batch). loss_of e = 0"
    by (auto elim!: events_for_batch_cases simp: loss_of_change)
  then show ?thesis by (simp add: sum_list_eq_0_iff cong: map_cong)
qed

lemma loss_of_numbered: "sum_list (map (\<lambda>e. uint (loss_of e)) (number_events sid n es)) = sum_list (map (\<lambda>e. uint (loss_of e)) es)"
  by (induction sid n es rule: number_events.induct) (simp_all add: loss_of_def)

text \<open>What an onlooker counts beside the observer: the notifications and errors that came from the source, the notifications passed over
  because their path is ignored, outside of the project or a link, and the notifications behind the changes of the batches that were sent.\<close>

record tally =
  ta_arrived :: int
  ta_passed :: int
  ta_batched :: int

definition no_tally :: tally where
  "no_tally = \<lparr>ta_arrived = 0, ta_passed = 0, ta_batched = 0\<rparr>"

definition passed_over :: "filesystem \<Rightarrow> disk \<Rightarrow> fs_observer \<Rightarrow> bool" where
  "passed_over fs d o1 \<longleftrightarrow> (case fo_raw o1 of [] \<Rightarrow> False | (c, at) # rest \<Rightarrow>
     (case observed_path fs (fo_root o1) (fo_matcher o1) (ch_path c) of None \<Rightarrow> True | Some p \<Rightarrow> fl_exists (stat_state d p) \<and> is_symlink d p))"

definition notifications_of :: "pending_change list \<Rightarrow> int" where
  "notifications_of cs = sum_list (map pc_count cs)"

definition batch_of :: "gotime \<Rightarrow> bool \<Rightarrow> fs_observer \<Rightarrow> pending_change list" where
  "batch_of now every o1 = fst (ready_changes (fo_pending o1) now (fo_debounce o1) (fo_rename_window o1) every (fo_batch_size o1))"

text \<open>The runs of the observer, with the onlooker.\<close>

inductive observer_run :: "observation \<Rightarrow> tally \<Rightarrow> fs_observer \<Rightarrow> bool" for obs where
  init: "start_observer c d m root = Some o1 \<Longrightarrow> observer_run obs no_tally o1"
| change: "observer_run obs t o1 \<Longrightarrow> observer_run obs (t\<lparr>ta_arrived := ta_arrived t + 1\<rparr>) (drain_change c at o1)"
| error: "observer_run obs t o1 \<Longrightarrow> observer_run obs (t\<lparr>ta_arrived := ta_arrived t + 1\<rparr>) (count_lost o1)"
| accept: "observer_run obs t o1 \<Longrightarrow> \<not> fo_done o1 \<Longrightarrow>
    observer_run obs (t\<lparr>ta_passed := ta_passed t + (if passed_over fs d o1 then 1 else 0)\<rparr>) (take_raw fs d ignore_files o1)"
| tick: "observer_run obs t o1 \<Longrightarrow> \<not> fo_done o1 \<Longrightarrow>
    observer_run obs (t\<lparr>ta_batched := ta_batched t + notifications_of (batch_of now False o1)\<rparr>) (flush_observer git obs now False o1)"
| finish: "observer_run obs t o1 \<Longrightarrow> \<not> fo_done o1 \<Longrightarrow>
    observer_run obs (t\<lparr>ta_batched := ta_batched t + notifications_of (batch_of now True o1)\<rparr>)
      ((flush_observer git obs now True o1)\<lparr>fo_done := True\<rparr>)"

text \<open>The onlooker does not restrict the runs.\<close>

lemma observer_run_reachable: "observer_reachable obs o1 \<longleftrightarrow> (\<exists>t. observer_run obs t o1)"
proof
  show "\<exists>t. observer_run obs t o1" if "observer_reachable obs o1"
    using that
  proof (induction rule: observer_reachable.induct)
    case (step o1 o2)
    then show ?case by (auto elim!: observer_step.cases intro: observer_run.intros)
  qed (blast intro: observer_run.intros)
  show "observer_reachable obs o1" if "\<exists>t. observer_run obs t o1"
  proof -
    from that obtain t where "observer_run obs t o1" by blast
    then show ?thesis
      by (induction rule: observer_run.induct) (blast intro: observer_reachable.intros observer_step.intros)+
  qed
qed

definition reported_losses :: "fs_observer \<Rightarrow> int" where
  "reported_losses o1 = sum_list (map (\<lambda>e. uint (loss_of e)) (concat (fo_emitted o1)))"

text \<open>Where the notifications are.\<close>

definition accounted :: "fs_observer \<Rightarrow> int" where
  "accounted o1 = int (length (fo_raw o1)) + notifications_of (map snd (fo_pending o1)) + reported_losses o1 + uint (fo_dropped o1)"

definition tally_ok :: "tally \<Rightarrow> fs_observer \<Rightarrow> bool" where
  "tally_ok t o1 \<longleftrightarrow> observer_ok o1 \<and> list_all (\<lambda>(p, c). 0 \<le> pc_count c) (fo_pending o1) \<and> 0 \<le> ta_passed t \<and> 0 \<le> ta_batched t \<and>
     ta_arrived t = accounted o1 + ta_passed t + ta_batched t"

lemma accounted_count_lost: "uint (fo_dropped o1) + 1 < 2 ^ 64 \<Longrightarrow> accounted (count_lost o1) = accounted o1 + 1"
  by (simp add: accounted_def count_lost_def reported_losses_def uint_word_ariths)

lemma notifications_update:
  assumes "distinct (map fst pending)" and "map_of pending p = Some c"
  shows "notifications_of (map snd (AList.update p c' pending)) = notifications_of (map snd pending) + pc_count c' - pc_count c"
  using assms by (induction pending) (auto simp: notifications_of_def)

lemma accounted_note:
  assumes "distinct (map fst (fo_pending o1))" and "uint (fo_dropped o1) + 1 < 2 ^ 64"
  shows "accounted (note_pending p op at before after o1) = accounted o1 + 1"
proof (cases "map_of (fo_pending o1) p")
  case None
  with accounted_count_lost [OF assms(2)] show ?thesis
    by (auto simp: note_pending_def accounted_def reported_losses_def notifications_of_def)
next
  case (Some c)
  with notifications_update [OF assms(1) Some] show ?thesis
    by (simp add: note_pending_def accounted_def reported_losses_def)
qed

lemma accounted_flush:
  assumes "observer_ok o1"
  shows "accounted (flush_observer git obs now every o1) = accounted o1 - notifications_of (batch_of now every o1)"
proof (cases rule: flush_observer_cases [where git = git and obs = obs and now = now and every = every and ?o1.0 = o1])
  case idle
  then show ?thesis by (simp add: batch_of_def notifications_of_def)
next
  case (sent ready rest es)
  have "distinct (map fst (fo_pending o1))" "\<forall>(p, c) \<in> set (fo_pending o1). pc_path c = p"
    using assms by (simp_all add: observer_ok_def)
  from ready_changes_split(1) [OF this sent(1)]
  have "sum_mset (image_mset pc_count (mset (map snd (fo_pending o1)))) =
      sum_mset (image_mset pc_count (mset ready)) + sum_mset (image_mset pc_count (mset (map snd rest)))" by simp
  then have split: "notifications_of (map snd (fo_pending o1)) = notifications_of ready + notifications_of (map snd rest)"
    by (simp add: notifications_of_def flip: mset_map sum_mset_sum_list)
  have "sum_list (map (\<lambda>e. uint (loss_of e)) es) = uint (fo_dropped o1)"
    by (simp add: sent(2) loss_of_batch word_gt_0)
  with split sent(1) show ?thesis unfolding sent(3)
    by (simp add: accounted_def reported_losses_def loss_of_numbered batch_of_def)
qed

lemma accounted_take:
  assumes "observer_ok o1" and "uint (fo_dropped o1) + 1 < 2 ^ 64"
  shows "accounted (take_raw fs d ig o1) = accounted o1 - (if passed_over fs d o1 then 1 else 0)"
proof (cases "fo_raw o1")
  case (Cons x rest)
  obtain c at where x: "x = (c, at)" by fastforce
  have matcher: "accounted (o2\<lparr>fo_matcher := m\<rparr>) = accounted o2" for o2 m by (simp add: accounted_def reported_losses_def)
  have raw: "accounted (o1\<lparr>fo_raw := rest\<rparr>) = accounted o1 - 1" using Cons by (simp add: accounted_def reported_losses_def)
  have "accounted (note_pending p op at before after (o1\<lparr>fo_raw := rest, fo_states := st\<rparr>)) = accounted o1" for p op before after st
    using assms raw by (subst accounted_note) (simp_all add: observer_ok_def accounted_def reported_losses_def)
  then have "accounted (accept_change fs d c at (o1\<lparr>fo_raw := rest\<rparr>)) = accounted o1 - (if passed_over fs d o1 then 1 else 0)"
    using raw Cons x by (auto simp: accept_change_def passed_over_def Let_def split: option.split)
  with Cons x show ?thesis by (simp add: take_raw_def Let_def matcher)
qed (simp add: take_raw_def passed_over_def)

lemma counts_nonneg:
  assumes "list_all (\<lambda>(p, c). 0 \<le> pc_count c) (fo_pending o1)"
  shows "list_all (\<lambda>(p, c). 0 \<le> pc_count c) (fo_pending (note_pending q op at before after o1))"
proof (cases "map_of (fo_pending o1) q")
  case (Some c)
  with assms have "0 \<le> pc_count c" by (auto simp: list_all_iff dest: map_of_SomeD)
  with assms Some show ?thesis by (auto simp: note_pending_def list_all_iff dest!: in_update)
qed (use assms in \<open>auto simp: note_pending_def count_lost_def\<close>)

lemma counts_nonneg_take:
  assumes "list_all (\<lambda>(p, c). 0 \<le> pc_count c) (fo_pending o1)"
  shows "list_all (\<lambda>(p, c). 0 \<le> pc_count c) (fo_pending (take_raw fs d ig o1))"
proof (cases "fo_raw o1")
  case (Cons x rest)
  then show ?thesis using assms
    by (cases x) (auto simp: take_raw_def accept_change_def Let_def intro!: counts_nonneg split: option.split)
qed (use assms in \<open>simp add: take_raw_def\<close>)

lemma counts_nonneg_flush:
  assumes "observer_ok o1" and "list_all (\<lambda>(p, c). 0 \<le> pc_count c) (fo_pending o1)"
  shows "list_all (\<lambda>(p, c). 0 \<le> pc_count c) (fo_pending (flush_observer git obs now every o1)) \<and> 0 \<le> notifications_of (batch_of now every o1)"
proof -
  obtain ready rest where r: "ready_changes (fo_pending o1) now (fo_debounce o1) (fo_rename_window o1) every (fo_batch_size o1) = (ready, rest)"
    by fastforce
  have "distinct (map fst (fo_pending o1))" "\<forall>(p, c) \<in> set (fo_pending o1). pc_path c = p"
    using assms(1) by (simp_all add: observer_ok_def)
  note s = ready_changes_split(5,6) [OF this r]
  then have "0 \<le> notifications_of ready" using assms(2) by (fastforce simp: notifications_of_def list_all_iff intro!: sum_list_nonneg)
  moreover have "list_all (\<lambda>(p, c). 0 \<le> pc_count c) rest" using s(2) assms(2) by (auto simp: list_all_iff)
  ultimately show ?thesis using r assms(2) by (auto simp: batch_of_def flush_observer_def Let_def)
qed

lemma tally_nonneg:
  assumes "tally_ok t o1"
  shows "0 \<le> notifications_of (map snd (fo_pending o1))" and "0 \<le> reported_losses o1"
  using assms by (fastforce simp: tally_ok_def notifications_of_def list_all_iff intro!: sum_list_nonneg)
    (auto simp: reported_losses_def intro!: sum_list_nonneg)

lemma tally_bound:
  assumes "tally_ok t o1" and "ta_arrived t < 2 ^ 64"
  shows "uint (fo_dropped o1) + int (length (fo_raw o1)) < 2 ^ 64"
proof -
  note tally_nonneg [OF assms(1)]
  with assms show ?thesis by (simp add: tally_ok_def accounted_def)
qed

lemma tally_count_lost:
  assumes "tally_ok t o1" and "ta_arrived t + 1 < 2 ^ 64"
  shows "tally_ok (t\<lparr>ta_arrived := ta_arrived t + 1\<rparr>) (count_lost o1)"
proof -
  note tally_nonneg [OF assms(1)]
  then have "uint (fo_dropped o1) + 1 < 2 ^ 64" using assms by (simp add: tally_ok_def accounted_def)
  from accounted_count_lost [OF this] assms(1) show ?thesis by (auto simp: tally_ok_def) (simp add: count_lost_def)
qed

lemma observer_run_tally: "observer_run obs t o1 \<Longrightarrow> ta_arrived t < 2 ^ 64 \<Longrightarrow> tally_ok t o1"
proof (induction rule: observer_run.induct)
  case (init c d m root o1)
  then have "observer_ok o1" by (intro observer_reachable_ok [OF observer_reachable.init])
  with init show ?case
    by (auto simp: start_observer_def tally_ok_def no_tally_def accounted_def reported_losses_def notifications_of_def Let_def split: option.splits)
next
  case (change t o1 c at)
  then have ok: "tally_ok t o1" by simp
  have "observer_ok (drain_change c at o1)"
    using ok observer_step_ok [OF observer_step.change] by (simp add: tally_ok_def)
  with ok tally_count_lost [OF ok] change(3) show ?case
    by (auto simp: drain_change_def tally_ok_def accounted_def reported_losses_def)
next
  case (error t o1)
  then show ?case by (intro tally_count_lost) simp_all
next
  case (accept t o1 fs d ig)
  then have ok: "tally_ok t o1" "observer_ok o1" "ta_arrived t < 2 ^ 64" by (simp_all add: tally_ok_def)
  have "accounted (take_raw fs d ig o1) = accounted o1 - (if passed_over fs d o1 then 1 else 0)"
  proof (cases "fo_raw o1")
    case (Cons x rest)
    then show ?thesis using tally_bound [OF ok(1,3)] ok(2) by (intro accounted_take) auto
  qed (simp add: take_raw_def passed_over_def)
  moreover have "observer_ok (take_raw fs d ig o1)" using ok(2) observer_step_ok [OF observer_step.accept [OF accept(2)]] by blast
  ultimately show ?case using ok(1) counts_nonneg_take by (auto simp: tally_ok_def)
next
  case (tick t o1 now git)
  then have "tally_ok t o1" by simp
  with accounted_flush [of o1 git obs now False] counts_nonneg_flush [of o1 git obs now False] flush_observer_ok [of o1 git obs now False]
  show ?case by (simp add: tally_ok_def)
next
  case (finish t o1 now git)
  then have ok: "tally_ok t o1" by simp
  have "observer_ok ((flush_observer git obs now True o1)\<lparr>fo_done := True\<rparr>)" "accounted (o2\<lparr>fo_done := True\<rparr>) = accounted o2" for o2
    using ok observer_step_ok [OF observer_step.finish [OF finish(2)]] by (simp_all add: tally_ok_def accounted_def reported_losses_def)
  with ok accounted_flush [of o1 git obs now True] counts_nonneg_flush [of o1 git obs now True] show ?case by (simp add: tally_ok_def)
qed

text \<open>C33: No notification disappears without being counted while the observer runs.  In every run, and at every moment of it, the notifications and
  errors that came from the source are those waiting in the raw queue, those behind the pending changes, those behind the changes of the batches that
  were sent, those passed over because of their path, and the losses: the sum of the numbers in the loss events that were sent and of the counter
  the next flush reports.  What still waits when the run is over stays there: see \<open>last_flush_forgets_changes\<close>.\<close>

theorem losses_are_reported:
  assumes "observer_run obs t o1" and "ta_arrived t < 2 ^ 64"
  shows "ta_arrived t = int (length (fo_raw o1)) + notifications_of (map snd (fo_pending o1)) + ta_batched t + ta_passed t +
    reported_losses o1 + uint (fo_dropped o1)"
  using observer_run_tally [OF assms] by (simp add: tally_ok_def accounted_def)

text \<open>C34: The observer stays within its bounds: pending changes, queued notifications and the events of a batch never exceed their limits, and no two
  events of a run carry the same identifier.\<close>

theorem observer_bounded:
  assumes "observer_reachable obs o1"
  shows "length (fo_pending o1) \<le> fo_max_pending o1 \<and> length (fo_raw o1) \<le> fo_queue_size o1 \<and>
    list_all (\<lambda>es. length es \<le> fo_batch_size o1 + 1) (fo_emitted o1) \<and> distinct (map event_id (concat (fo_emitted o1)))"
proof -
  have "distinct (map (fs_event_id (ob_session_id obs)) [1..<fo_sequence o1 + 1])"
    by (simp add: distinct_map inj_on_def fs_event_id_inj)
  with observer_reachable_ids [OF assms] observer_reachable_ok [OF assms] show ?thesis
    by (simp add: ids_ok_def observer_ok_def)
qed

section \<open>Fallback evidence\<close>

lemma change_kind_family: "change_kind c = Some (kind, name) \<Longrightarrow> event_family kind \<noteq> []"
  by (auto simp: change_kind_def Let_def split: if_splits)

lemma change_event_shape:
  assumes "change_event obs root ev c = Some e"
  shows "source_type e = Source_filesystem" "ev_path e = pc_path c" "event_family (event_type e) \<noteq> []"
    "session_id e = ob_session_id obs" "project_root e = ob_project_root obs"
proof -
  obtain kind name where k: "change_kind c = Some (kind, name)" using assms by (auto simp: change_event_def split: option.splits)
  have "source_type e = Source_filesystem \<and> ev_path e = pc_path c \<and> event_type e = kind \<and> session_id e = ob_session_id obs \<and>
      project_root e = ob_project_root obs"
    using assms unfolding change_event_def k option.case prod.case Let_def option.inject
    by (auto simp: fs_base_event_def split: option.split)
  with change_kind_family [OF k] show "source_type e = Source_filesystem" "ev_path e = pc_path c" "event_family (event_type e) \<noteq> []"
    "session_id e = ob_session_id obs" "project_root e = ob_project_root obs"
    by simp_all
qed

lemma rename_event_shape:
  "source_type (rename_event obs r) = Source_filesystem" "ev_path (rename_event obs r) = pc_path (rp_new r)"
  "event_family (event_type (rename_event obs r)) \<noteq> []" "session_id (rename_event obs r) = ob_session_id obs"
  "project_root (rename_event obs r) = ob_project_root obs"
  by (auto simp: rename_event_def fs_base_event_def Let_def)

text \<open>Whatever the observer says of a change is fallback evidence with a key, so the gate holds it back.\<close>

lemma batch_is_fallback:
  assumes "e \<in> set (events_for_batch git obs root batch)" and "\<forall>c \<in> set batch. pc_path c \<noteq> []" and "ob_session_id obs \<noteq> []"
  shows "is_fallback e \<and> evidence_key e \<noteq> []"
  using assms(1)
proof (cases rule: events_for_batch_cases)
  case (rename r)
  with assms show ?thesis by (simp add: is_fallback_def evidence_key_def rename_event_shape)
next
  case (single c)
  with assms show ?thesis by (auto simp: is_fallback_def evidence_key_def change_event_shape [OF single(1)])
qed

section \<open>Validity\<close>

lemma nat_str_length: "n < 10 ^ k \<Longrightarrow> 0 < k \<Longrightarrow> length (nat_str n) \<le> k"
proof (induction n arbitrary: k rule: nat_str.induct)
  case (1 n)
  show ?case
  proof (cases "n < 10")
    case True
    with 1(3) show ?thesis by (simp add: nat_str.simps [of n])
  next
    case False
    from 1(3) obtain j where k: "k = Suc j" by (cases k) auto
    with False 1(2) have j: "k = Suc j" "0 < j" by (cases j; simp)+
    with 1(2) have "n div 10 < 10 ^ j" by (simp add: less_mult_imp_div_less ac_simps)
    from 1(1) [OF False this j(2)] False j(1) show ?thesis by (simp add: nat_str.simps [of n])
  qed
qed

lemma text_ok_nat_str: "text_ok (nat_str n) (length (nat_str n))"
  using digits_value_nat_str [of n] by (intro text_ok_ascii) (auto simp: list_all_iff is_digit_def)

lemma text_ok_event_id:
  assumes "text_ok sid 100" and "n < 10 ^ 16"
  shows "text_ok (fs_event_id sid n) 128"
proof -
  have "length (nat_str n) \<le> 16" by (rule nat_str_length) (use assms(2) in simp_all)
  moreover have "text_ok (replicate (8 - length (nat_str n)) (CHR ''0'')) (8 - length (nat_str n))"
    by (rule text_ok_ascii) (auto simp: list_all_iff byte_def)
  ultimately have "text_ok (pad8 n) 16"
    unfolding pad8_def by (intro text_ok_append [OF _ text_ok_nat_str]) auto
  moreover have "text_ok '':filesystem:'' 12" by (rule text_ok_ascii) (simp_all add: byte_def)
  ultimately have "text_ok ('':filesystem:'' @ pad8 n) 28" by (intro text_ok_append [of _ 12 _ 16]) simp_all
  from text_ok_append [OF assms(1) this, of 128] show ?thesis by (simp add: fs_event_id_def)
qed

definition change_ok :: "pending_change \<Rightarrow> bool" where
  "change_ok c \<longleftrightarrow> text_ok (pc_path c) 4096 \<and> pc_last c \<noteq> 0 \<and> 0 \<le> fl_size (pc_before c) \<and> 0 \<le> fl_size (pc_after c) \<and>
     0 \<le> pc_count c \<and> pc_count c < 2 ^ 63"

definition deltas_ok :: "git_evidence \<Rightarrow> bool" where
  "deltas_ok ev \<longleftrightarrow> (\<forall>d \<in> ran (ge_deltas ev). 0 \<le> gd_added d \<and> 0 \<le> gd_deleted d)"

text \<open>An event that lacks nothing but its identifier.\<close>

definition nearly_valid :: "event \<Rightarrow> bool" where
  "nearly_valid e \<longleftrightarrow> fields_ok e \<and> timestamp e \<noteq> 0 \<and> validate_metadata (ev_metadata e) = None"

lemma nearly_valid_id: "nearly_valid e \<Longrightarrow> text_ok i 128 \<Longrightarrow> i \<noteq> [] \<Longrightarrow> validate (e\<lparr>event_id := i\<rparr>) = None"
  by (rule validate_fields) (auto simp: nearly_valid_def fields_ok_def string_fields_def number_fields_def)

lemma short_texts [simp]:
  "text_ok ''create'' 64" "text_ok ''delete'' 64" "text_ok ''modify'' 64" "text_ok ''rename'' 64" "text_ok ''drop'' 64"
  "text_ok ''coalesced_events'' 128" "text_ok ''evidence'' 128" "text_ok ''git_status'' 128" "text_ok ''work_source'' 128"
  "text_ok ''work_confidence'' 128" "text_ok ''dropped_events'' 128" "text_ok ''reason'' 128"
  by (rule text_ok_ascii; simp add: byte_def)+

lemma scalar_string: "text_ok k 128 \<Longrightarrow> length s \<le> 100 \<Longrightarrow> scalar_ok (k, MString s)"
  using length_json_chars [of s] by (auto simp: scalar_ok_def json_string_def)

lemma int_str_short: "0 \<le> i \<Longrightarrow> i < 2 ^ 64 \<Longrightarrow> length (int_str i) \<le> 20"
  using nat_str_length [of "nat i" 20] by (simp add: int_str_def nat_less_iff)

lemma scalar_number: "text_ok k 128 \<Longrightarrow> 0 \<le> i \<Longrightarrow> i < 2 ^ 64 \<Longrightarrow> scalar_ok (k, MInt i) \<and> scalar_ok (k, MSized i)"
  using int_str_short [of i] by (auto simp: scalar_ok_def)

lemmas fs_event_fields = fs_base_event_def zero_event_def fields_ok_def string_fields_def number_fields_def

lemma byte_count_nonneg: "0 \<le> fl_size s \<Longrightarrow> byte_count s = Some n \<Longrightarrow> 0 \<le> n"
  by (auto simp: byte_count_def split: if_splits)

lemma fs_base_fields:
  assumes "observation_ok obs" and "text_ok op 64" and "text_ok p 4096" and "valid_event_type typ"
  shows "fields_ok (fs_base_event obs typ op p at dir)"
  using assms session_suffix_ok(6) [OF assms(1)] by (auto simp: fs_event_fields observation_ok_def)

lemma rename_event_valid:
  assumes "observation_ok obs" and "change_ok (rp_old r)" and "change_ok (rp_new r)"
  shows "nearly_valid (rename_event obs r)"
proof -
  define dir where "dir = fl_directory (pc_before (rp_old r))"
  define kind where "kind = (if dir then Directory_renamed
    else if path_dir (pc_path (rp_old r)) \<noteq> path_dir (pc_path (rp_new r)) then File_moved else File_renamed)"
  define md where "md = [(''evidence'', MString ''unique_filesystem_or_git_correlation'')]"
  let ?b = "fs_base_event obs kind ''rename'' (pc_path (rp_new r)) (pc_last (rp_new r)) dir"
  have e: "rename_event obs r = ?b\<lparr>previous_path := pc_path (rp_old r), bytes_before := byte_count (pc_before (rp_old r)),
      bytes_after := byte_count (pc_after (rp_new r)), source_confidence := Conf_correlated, ev_metadata := md\<rparr>"
    by (simp only: rename_event_def Let_def kind_def dir_def md_def)
  have "fields_ok ?b"
    by (rule fs_base_fields) (use assms in \<open>auto simp: change_ok_def kind_def\<close>)
  moreover have "validate_metadata md = None"
    unfolding md_def by (rule flat_metadata_ok) (simp_all add: scalar_string)
  moreover have "timestamp ?b = pc_last (rp_new r)" by (simp add: fs_base_event_def)
  ultimately show ?thesis
    using assms byte_count_nonneg unfolding e
    by (auto simp: nearly_valid_def fields_ok_def string_fields_def number_fields_def change_ok_def)
qed


lemma change_metadata_ok:
  assumes "0 \<le> n" and "n < 2 ^ 63"
  shows "validate_metadata ([(''coalesced_events'', MInt n), (''evidence'', MString ''filesystem_notification'')] @
    (case st of None \<Rightarrow> [] | Some s \<Rightarrow> [(''git_status'', MString [gs_index s, gs_worktree s])]) @
    (if no_delta then [] else [(''work_source'', MString ''git_numstat''), (''work_confidence'', MString ''correlated'')])) = None"
  by (rule flat_metadata_ok) (use assms in \<open>auto simp: scalar_string scalar_number split: option.split\<close>)

lemma change_event_valid:
  assumes "observation_ok obs" and "change_ok c" and "deltas_ok ev" and "change_event obs root ev c = Some e"
  shows "nearly_valid e"
proof -
  define dir where "dir = (if fl_exists (pc_after c) then fl_directory (pc_after c) else fl_directory (pc_before c))"
  define rel where "rel = rel_or_empty root (pc_path c)"
  define delta where "delta = (if dir then None else ge_deltas ev rel)"
  define md where "md = [(''coalesced_events'', MInt (pc_count c)), (''evidence'', MString ''filesystem_notification'')] @
    (case ge_status ev rel of None \<Rightarrow> [] | Some s \<Rightarrow> [(''git_status'', MString [gs_index s, gs_worktree s])]) @
    (if delta = None then [] else [(''work_source'', MString ''git_numstat''), (''work_confidence'', MString ''correlated'')])"
  obtain kind op where k: "change_kind c = Some (kind, op)" using assms(4) by (cases "change_kind c") (auto simp: change_event_def)
  let ?b = "fs_base_event obs kind op (pc_path c) (pc_last c) dir"
  let ?e = "?b\<lparr>bytes_before := byte_count (pc_before c), bytes_after := byte_count (pc_after c), ev_metadata := md\<rparr>"
  have "Some e = Some (case delta of None \<Rightarrow> ?e
      | Some d \<Rightarrow> if gd_binary d then ?e\<lparr>is_binary := Some True\<rparr>
          else ?e\<lparr>lines_added := Some (gd_added d), lines_deleted := Some (gd_deleted d)\<rparr>)"
    unfolding assms(4) [symmetric] md_def delta_def rel_def dir_def by (simp only: change_event_def k option.case prod.case Let_def)
  then have e: "e = (case delta of None \<Rightarrow> ?e
      | Some d \<Rightarrow> if gd_binary d then ?e\<lparr>is_binary := Some True\<rparr>
          else ?e\<lparr>lines_added := Some (gd_added d), lines_deleted := Some (gd_deleted d)\<rparr>)"
    by (simp only: option.inject)
  have "fields_ok ?b"
    by (rule fs_base_fields) (use assms k in \<open>auto simp: change_ok_def change_kind_def Let_def split: if_splits\<close>)
  moreover have "validate_metadata md = None"
    unfolding md_def by (rule change_metadata_ok) (use assms(2) in \<open>simp_all add: change_ok_def\<close>)
  moreover have "timestamp ?b = pc_last c" by (simp add: fs_base_event_def)
  ultimately have ok: "nearly_valid ?e"
    using assms(2) byte_count_nonneg by (auto simp: nearly_valid_def fields_ok_def string_fields_def number_fields_def change_ok_def)
  have d: "0 \<le> gd_added d \<and> 0 \<le> gd_deleted d" if "delta = Some d" for d
    using that assms(3) by (auto simp: deltas_ok_def delta_def ran_def split: if_splits)
  show ?thesis
  proof (cases delta)
    case None
    with ok e show ?thesis by simp
  next
    case (Some x)
    with ok d [OF Some] show ?thesis unfolding e
      by (auto simp: nearly_valid_def fields_ok_def string_fields_def number_fields_def)
  qed
qed

lemma dropped_event_valid:
  assumes "observation_ok obs" and "at \<noteq> 0"
  shows "nearly_valid (dropped_event obs at lost)"
proof -
  have "fields_ok (fs_base_event obs Event_dropped_or_coalesced ''drop'' [] at False)"
    by (rule fs_base_fields) (use assms in simp_all)
  moreover have "scalar_ok (''dropped_events'', MSized (uint lost))"
    using scalar_number [of "''dropped_events''" "uint lost"] uint_lt2p [of lost] by simp
  then have "validate_metadata [(''dropped_events'', MSized (uint lost)), (''reason'', MString ''filesystem_queue_or_pending_capacity'')] = None"
    by (intro flat_metadata_ok) (simp_all add: scalar_string)
  ultimately show ?thesis
    using assms(2) by (auto simp: nearly_valid_def dropped_event_def fields_ok_def string_fields_def number_fields_def fs_base_event_def zero_event_def)
qed

text \<open>Every event of a batch is one the protocol accepts, for a session identifier of at most 100 bytes, paths that are valid text, Git counts that are
  not negative and fewer than 10 to the 16 events in the run.\<close>

theorem batch_events_valid:
  assumes "observation_ok obs" and "text_ok (ob_session_id obs) 100" and "list_all change_ok batch"
    and "deltas_ok (git root (map pc_path batch))" and "n + length (events_for_batch git obs root batch) < 10 ^ 16"
  shows "list_all (\<lambda>e. validate e = None) (number_events (ob_session_id obs) n (events_for_batch git obs root batch))"
proof -
  have "nearly_valid e" if "e \<in> set (events_for_batch git obs root batch)" for e
    using that
  proof (cases rule: events_for_batch_cases)
    case (rename r)
    with assms(1,3) show ?thesis by (auto simp: list_all_iff intro!: rename_event_valid)
  next
    case (single c)
    with assms(1,3,4) show ?thesis by (auto simp: list_all_iff intro: change_event_valid)
  qed
  then have "list_all nearly_valid (events_for_batch git obs root batch)" by (simp add: list_all_iff)
  moreover have "list_all nearly_valid es \<Longrightarrow> m + length es < 10 ^ 16 \<Longrightarrow>
      list_all (\<lambda>e. validate e = None) (number_events (ob_session_id obs) m es)" for m es
  proof (induction "ob_session_id obs" m es rule: number_events.induct)
    case (2 m e es)
    have "validate (e\<lparr>event_id := fs_event_id (ob_session_id obs) (m + 1)\<rparr>) = None"
      by (rule nearly_valid_id) (use 2(2,3) text_ok_event_id [OF assms(2), of "m + 1"] in \<open>auto simp: fs_event_id_def\<close>)
    with 2 show ?case by simp
  qed simp
  ultimately show ?thesis using assms(5) by blast
qed


section \<open>The end of a run\<close>

text \<open>The last flush sends one batch like any other: what is pending beyond the size of a batch stays behind.\<close>

lemma last_flush_leaves:
  assumes "observer_reachable obs o1"
  shows "length (fo_pending (flush_observer git obs now True o1)) = length (fo_pending o1) - fo_batch_size o1"
proof -
  have ok: "distinct (map fst (fo_pending o1))" "\<forall>(p, c) \<in> set (fo_pending o1). pc_path c = p"
    using observer_reachable_ok [OF assms] by (simp_all add: observer_ok_def)
  obtain ready rest where r: "ready_changes (fo_pending o1) now (fo_debounce o1) (fo_rename_window o1) True (fo_batch_size o1) = (ready, rest)"
    by fastforce
  note s = ready_changes_split [OF ok r]
  have "length (fo_pending o1) = length ready + length rest" using arg_cong [OF s(1), of size] by simp
  with s(9) have len: "length rest = length (fo_pending o1) - fo_batch_size o1" by simp
  have "fo_pending (flush_observer git obs now True o1) = rest \<or> ready = [] \<and> fo_pending (flush_observer git obs now True o1) = fo_pending o1"
    using r by (simp add: flush_observer_def Let_def)
  moreover have "ready = [] \<Longrightarrow> length rest = length (fo_pending o1)" using \<open>length (fo_pending o1) = length ready + length rest\<close> by simp
  ultimately show ?thesis using len by auto
qed

lemma after_the_end:
  "(observer_step obs)\<^sup>*\<^sup>* o1 o2 \<Longrightarrow> fo_done o1 \<Longrightarrow> fo_done o2 \<and> fo_pending o2 = fo_pending o1 \<and> fo_emitted o2 = fo_emitted o1"
proof (induction rule: rtranclp_induct)
  case (step o2 o3)
  then show ?case by (auto elim!: observer_step.cases simp: drain_change_def count_lost_def)
qed simp

section \<open>Example\<close>

text \<open>Two files are created in an empty project while the command ends; the observer sends batches of one change.\<close>

definition small_config :: observer_config where
  "small_config = \<lparr>oc_queue_size = 0, oc_max_pending = 0, oc_batch_size = 1, oc_debounce = 0, oc_rename_window = 0\<rparr>"

definition no_patterns :: ignore_matcher where
  "no_patterns = \<lparr>im_defaults = [], im_patterns = []\<rparr>"

definition new_file :: file_state where
  "new_file = \<lparr>fl_exists = True, fl_directory = False, fl_size = 3, fl_mod_time = 1\<rparr>"

definition small_disk :: disk where
  "small_disk = \<lparr>dk_stat = (\<lambda>_. Some (new_file, False)),
     dk_tree = (\<lambda>_. Some (Entry ''p'' True (Some \<lparr>ei_size = 0, ei_mod_time = 1, ei_symlink = False\<rparr>) True [])), dk_watch = (\<lambda>_. True)\<rparr>"

definition root_fs :: filesystem where
  "root_fs = \<lparr>fs_cwd = None, fs_lstat = (\<lambda>_. Plain), fs_eval = Some\<rparr>"

definition created :: "string \<Rightarrow> fs_change" where
  "created p = \<lparr>ch_path = p, ch_op = op_create\<rparr>"

definition born :: "string \<Rightarrow> pending_change" where
  "born p = \<lparr>pc_path = p, pc_op = op_create, pc_before = no_file, pc_after = new_file, pc_first = 5, pc_last = 5, pc_count = 1\<rparr>"

definition idle_observer :: fs_observer where
  "idle_observer = \<lparr>fo_root = ''/p'', fo_queue_size = 1024, fo_max_pending = 512, fo_batch_size = 1, fo_debounce = 75 * millisecond,
     fo_rename_window = 150 * millisecond, fo_matcher = no_patterns,
     fo_states = [''/p'' \<mapsto> \<lparr>fl_exists = True, fl_directory = True, fl_size = 0, fl_mod_time = 1\<rparr>], fo_pending = [], fo_raw = [], fo_dropped = 0,
     fo_sequence = 0, fo_emitted = [], fo_done = False\<rparr>"

definition busy_observer :: fs_observer where
  "busy_observer = take_raw root_fs small_disk (None, None) (take_raw root_fs small_disk (None, None)
     (drain_change (created ''/p/b'') 5 (drain_change (created ''/p/a'') 5 idle_observer)))"

lemma idle_observer_start: "start_observer small_config small_disk no_patterns ''/p'' = Some idle_observer"
proof -
  have "path_clean ''/p'' = ''/p''" by code_simp
  then show ?thesis
    by (simp add: start_observer_def watch_tree_def small_disk_def small_config_def new_observer_def or_default_def idle_observer_def
        state_from_info_def Let_def)
qed

lemma small_paths:
  "observed_path root_fs ''/p'' no_patterns ''/p/a'' = Some ''/p/a''" "observed_path root_fs ''/p'' no_patterns ''/p/b'' = Some ''/p/b''"
  "is_ignore_file ''/p/a'' = False" "is_ignore_file ''/p/b'' = False"
  by code_simp+

lemma busy_observer_eq: "busy_observer = idle_observer\<lparr>fo_states := fo_states idle_observer ++ [''/p/a'' \<mapsto> new_file, ''/p/b'' \<mapsto> new_file],
    fo_pending := [(''/p/a'', born ''/p/a''), (''/p/b'', born ''/p/b'')]\<rparr>"
proof -
  have stat: "stat_state small_disk p = new_file" "is_symlink small_disk p = False" for p
    by (simp_all add: stat_state_def is_symlink_def small_disk_def)
  have dir: "fl_directory new_file = False" "fl_exists new_file" by (simp_all add: new_file_def)
  show ?thesis
    by (simp add: busy_observer_def drain_change_def take_raw_def idle_observer_def created_def accept_change_def small_paths stat dir
        note_pending_def state_at_def born_def Let_def)
qed

lemma busy_observer_reachable: "observer_reachable demo_observation busy_observer"
proof -
  note step = observer_reachable.step
  let ?o = "drain_change (created ''/p/b'') 5 (drain_change (created ''/p/a'') 5 idle_observer)"
  have "observer_reachable demo_observation ?o"
    by (rule step [OF step [OF observer_reachable.init [OF idle_observer_start] observer_step.change] observer_step.change])
  moreover have "\<not> fo_done ?o" by (simp add: drain_change_def idle_observer_def)
  ultimately have "observer_reachable demo_observation (take_raw root_fs small_disk (None, None) ?o)"
    by (rule step [OF _ observer_step.accept])
  moreover have "\<not> fo_done (take_raw root_fs small_disk (None, None) ?o)"
    by (simp add: drain_change_def idle_observer_def take_raw_def created_def accept_change_def small_paths note_pending_def Let_def)
  ultimately show ?thesis unfolding busy_observer_def by (rule step [OF _ observer_step.accept])
qed

text \<open>The observer after its last step.\<close>

definition ended :: "(string \<Rightarrow> string list \<Rightarrow> git_evidence) \<Rightarrow> observation \<Rightarrow> gotime \<Rightarrow> fs_observer \<Rightarrow> fs_observer" where
  "ended git obs now o1 = (flush_observer git obs now True o1)\<lparr>fo_done := True\<rparr>"

text \<open>C35: Changes are forgotten at the end.  When a command ends while more paths have changed than one batch holds, the last flush sends one
  batch: of the pending changes, all beyond the size of a batch are pending for ever, whatever comes.  No event tells of them, since nothing is
  sent any more, and they are not counted as lost: the last batch reports the losses before them, and the counter is 0.\<close>

theorem last_flush_forgets_changes:
  assumes "observer_reachable obs o1" and "\<not> fo_done o1" and "fo_batch_size o1 < length (fo_pending o1)"
  shows "observer_step obs o1 (ended git obs now o1) \<and> fo_dropped (ended git obs now o1) = 0 \<and>
    (\<forall>o2. (observer_step obs)\<^sup>*\<^sup>* (ended git obs now o1) o2 \<longrightarrow>
      length (fo_pending o2) = length (fo_pending o1) - fo_batch_size o1 \<and> fo_pending o2 \<noteq> [] \<and>
      fo_emitted o2 = fo_emitted (ended git obs now o1))"
proof (intro conjI allI impI)
  let ?e = "ended git obs now o1"
  show "observer_step obs o1 ?e" unfolding ended_def by (rule observer_step.finish [OF assms(2)])
  show "fo_dropped ?e = 0" unfolding ended_def by (simp add: flush_observer_def Let_def split: prod.split)
  fix o2 assume "(observer_step obs)\<^sup>*\<^sup>* ?e o2"
  from after_the_end [OF this] have o2: "fo_pending o2 = fo_pending ?e" "fo_emitted o2 = fo_emitted ?e" by (simp_all add: ended_def)
  show "length (fo_pending o2) = length (fo_pending o1) - fo_batch_size o1" "fo_emitted o2 = fo_emitted ?e"
    using o2 last_flush_leaves [OF assms(1)] by (simp_all add: ended_def)
  with assms(3) show "fo_pending o2 \<noteq> []" by auto
qed

theorem last_flush_forgets_changes_witness:
  "length (fo_pending (ended (\<lambda>_ _. no_evidence) demo_observation 6 busy_observer)) = 1 \<and>
   fo_dropped (ended (\<lambda>_ _. no_evidence) demo_observation 6 busy_observer) = 0"
  using last_flush_forgets_changes [OF busy_observer_reachable, of "\<lambda>_ _. no_evidence" 6] by (simp add: busy_observer_eq idle_observer_def)

text \<open>An observer with room for one notification: the second one is lost, and so is an error of the source.\<close>

definition tight_observer :: fs_observer where
  "tight_observer = count_lost (drain_change (created ''/p/b'') 5 (drain_change (created ''/p/a'') 5 (idle_observer\<lparr>fo_queue_size := 1\<rparr>)))"

lemma tight_observer_run: "observer_run demo_observation \<lparr>ta_arrived = 3, ta_passed = 0, ta_batched = 0\<rparr> tight_observer"
proof -
  have "path_clean ''/p'' = ''/p''" by code_simp
  then have "start_observer (small_config\<lparr>oc_queue_size := 1\<rparr>) small_disk no_patterns ''/p'' = Some (idle_observer\<lparr>fo_queue_size := 1\<rparr>)"
    by (simp add: start_observer_def watch_tree_def small_disk_def small_config_def new_observer_def or_default_def idle_observer_def
        state_from_info_def Let_def)
  from observer_run.error [OF observer_run.change [OF observer_run.change [OF observer_run.init [OF this]]]]
  show ?thesis by (simp add: tight_observer_def no_tally_def)
qed

theorem losses_are_reported_witness: "reported_losses tight_observer + uint (fo_dropped tight_observer) = 2"
  using losses_are_reported [OF tight_observer_run]
  by (simp add: tight_observer_def drain_change_def count_lost_def idle_observer_def notifications_of_def)

theorem observer_bounded_witness: "length (fo_pending busy_observer) \<le> 512"
  using observer_bounded [OF busy_observer_reachable] by (simp add: busy_observer_eq idle_observer_def)

text \<open>A file was renamed while another was created.\<close>

definition gone :: pending_change where
  "gone = (born ''/p/old'')\<lparr>pc_op := op_rename, pc_before := new_file, pc_after := no_file\<rparr>"

lemma fingerprint_pairs:
  "correlate_renames ''/p'' [gone, born ''/p/new'', (born ''/p/z'')\<lparr>pc_after := new_file\<lparr>fl_size := 9\<rparr>\<rparr>] no_evidence =
   ([\<lparr>rp_old = gone, rp_new = born ''/p/new''\<rparr>], {''/p/old'', ''/p/new''})"
  by (simp add: correlate_renames_def no_evidence_def created_changes_def renamed_changes_def gone_def born_def new_file_def no_file_def
      has_op_def op_create_def op_rename_def pair_by_fingerprint_def same_fingerprint_def add_pair_def Let_def)

theorem each_change_told_once_witness:
  "mset [''/p/old'', ''/p/new'', ''/p/z''] =
   mset (map pc_path [gone, born ''/p/new'', (born ''/p/z'')\<lparr>pc_after := new_file\<lparr>fl_size := 9\<rparr>\<rparr>])"
  using each_change_told_once [OF fingerprint_pairs] by (simp add: pair_paths_def gone_def born_def no_evidence_def)

theorem batch_events_valid_witness:
  "list_all (\<lambda>e. validate e = None)
     (number_events (ob_session_id demo_observation) 0 (events_for_batch (\<lambda>_ _. no_evidence) demo_observation ''/p'' [born ''/p/a'']))"
proof (rule batch_events_valid)
  show "observation_ok demo_observation" by (rule demo_run_ok)
  show "text_ok (ob_session_id demo_observation) 100" by (rule text_ok_ascii) (simp_all add: demo_observation_def byte_def)
  have "text_ok ''/p/a'' 4096" by (rule text_ok_ascii) (simp_all add: byte_def)
  then show "list_all change_ok [born ''/p/a'']" by (simp add: change_ok_def born_def new_file_def no_file_def)
  show "deltas_ok no_evidence" by (simp add: deltas_ok_def no_evidence_def)
  have "length (events_for_batch (\<lambda>_ _. no_evidence) demo_observation ''/p'' [born ''/p/a'']) \<le> 1"
    using events_for_batch_bound [of "[born ''/p/a'']" "\<lambda>_ _. no_evidence"] by simp
  then show "0 + length (events_for_batch (\<lambda>_ _. no_evidence) demo_observation ''/p'' [born ''/p/a'']) < 10 ^ 16" by simp
qed

end
