(* ===== verification/Evidence_Stop.thy ===== *)
theory Evidence_Stop
  imports Evidence_Gate
begin

text \<open>
  The end of the evidence gate of \<^verbatim>\<open>adapter/go/wrapper/evidence.go\<close>: once a stop is requested and no caller is inside \<^verbatim>\<open>Emit\<close>, the worker
  can always run to its return, and has then forwarded everything it kept.
\<close>

text \<open>What the steps of the worker leave alone.\<close>

definition same_callers :: "gate \<Rightarrow> gate \<Rightarrow> bool" where
  "same_callers g h \<longleftrightarrow> gt_emitting h = gt_emitting g \<and> gt_direct h = gt_direct g \<and> gt_accepted h = gt_accepted g \<and>
     gt_stopped h = gt_stopped g"

lemma same_callers_trans: "same_callers g h \<Longrightarrow> same_callers h k \<Longrightarrow> same_callers g k"
  by (simp add: same_callers_def)

lemma process_event_callers:
  "same_callers g (process_event now e g)" "gt_queue (process_event now e g) = gt_queue g" "gt_phase (process_event now e g) = gt_phase g"
  by (auto simp: process_event_def hold_def send_target_def same_callers_def Let_def split: option.splits)

lemma finish_batch:
  "gt_phase g = Gate_processing draining now es \<Longrightarrow>
   \<exists>h. gate_step\<^sup>*\<^sup>* g h \<and> gt_phase h = (if draining then Gate_draining else Gate_selecting) \<and> gt_queue h = gt_queue g \<and> same_callers g h"
proof (induction es arbitrary: g)
  case Nil
  then have "worker_turn g = g\<lparr>gt_phase := if draining then Gate_draining else Gate_selecting\<rparr>" by (simp add: worker_turn_def)
  with gate_step.turn [of g] show ?case by (intro exI [of _ "worker_turn g"]) (auto simp: same_callers_def)
next
  case (Cons e es)
  let ?g = "g\<lparr>gt_phase := Gate_processing draining now es\<rparr>"
  have turn: "worker_turn g = process_event now e ?g" using Cons.prems by (simp add: worker_turn_def)
  obtain h where h: "gate_step\<^sup>*\<^sup>* (worker_turn g) h" "gt_phase h = (if draining then Gate_draining else Gate_selecting)"
      "gt_queue h = gt_queue (worker_turn g)" "same_callers (worker_turn g) h"
    using Cons.IH [of "worker_turn g"] by (auto simp: turn process_event_callers)
  have "same_callers g (worker_turn g)" "gt_queue (worker_turn g) = gt_queue g"
    using process_event_callers(1) [of ?g now e] by (simp_all add: turn process_event_callers same_callers_def)
  with h gate_step.turn [of g] show ?case
    by (intro exI [of _ h]) (auto intro: converse_rtranclp_into_rtranclp same_callers_trans)
qed

lemma last_flush: "gt_pending (flush_evidence now True g) = [] \<and> same_callers g (flush_evidence now True g) \<and>
    gt_queue (flush_evidence now True g) = gt_queue g"
proof (cases "gt_pending g = []")
  case False
  have "delete_where (\<lambda>k p. k \<in> fst ` set (gt_pending g)) (gt_pending g) = []"
    by (auto simp: delete_where_def filter_empty_conv image_iff)
  moreover have "sort (map fst (gt_pending g)) \<noteq> []" using False by (metis map_is_Nil_conv set_empty set_sort)
  ultimately show ?thesis by (simp add: flush_evidence_def Let_def send_target_def same_callers_def)
qed (simp add: flush_evidence_def Let_def same_callers_def)

lemma drain_to_return:
  "gt_phase g = Gate_draining \<Longrightarrow>
   \<exists>h. gate_step\<^sup>*\<^sup>* g h \<and> gt_phase h = Gate_returned \<and> gt_queue h = [] \<and> gt_pending h = [] \<and> same_callers g h"
proof (induction "length (gt_queue g)" arbitrary: g)
  case 0
  then have "worker_turn g = (flush_evidence (gt_clock g) True g)\<lparr>gt_phase := Gate_returned\<rparr>" by (simp add: worker_turn_def)
  with 0 last_flush [of "gt_clock g" g] gate_step.turn [of g] show ?case
    by (intro exI [of _ "worker_turn g"]) (auto simp: same_callers_def)
next
  case (Suc n)
  then obtain b bs where q: "gt_queue g = b # bs" by (cases "gt_queue g") simp_all
  let ?g = "g\<lparr>gt_queue := bs, gt_phase := Gate_processing True (gt_clock g) b\<rparr>"
  have "worker_turn g = ?g" using Suc.prems q by (simp add: worker_turn_def)
  then have start: "gate_step g ?g" using gate_step.turn [of g] by simp
  obtain h where h: "gate_step\<^sup>*\<^sup>* ?g h" "gt_phase h = Gate_draining" "gt_queue h = bs" "same_callers ?g h"
    using finish_batch [of ?g True "gt_clock g" b] by auto
  then obtain k where k: "gate_step\<^sup>*\<^sup>* h k" "gt_phase k = Gate_returned" "gt_queue k = []" "gt_pending k = []" "same_callers h k"
    using Suc.hyps(1) [of h] Suc.hyps(2) q by auto
  have "same_callers g k" using same_callers_trans [OF h(4) k(5)] by (simp add: same_callers_def)
  moreover have "gate_step\<^sup>*\<^sup>* g k" using start h(1) k(1) by (meson converse_rtranclp_into_rtranclp rtranclp_trans)
  ultimately show ?case using k by blast
qed

lemma reach_return:
  assumes "gt_stopped g" and "gt_phase g \<noteq> Gate_returned"
  shows "\<exists>h. gate_step\<^sup>*\<^sup>* g h \<and> gt_phase h = Gate_returned \<and> gt_queue h = [] \<and> gt_pending h = [] \<and> same_callers g h"
proof -
  have selecting: "\<exists>h. gate_step\<^sup>*\<^sup>* d h \<and> gt_phase h = Gate_returned \<and> gt_queue h = [] \<and> gt_pending h = [] \<and> same_callers d h"
    if "gt_phase d = Gate_selecting" "gt_stopped d" for d
    using drain_to_return [of "d\<lparr>gt_phase := Gate_draining\<rparr>"] gate_step.stopping [OF that]
    by (auto simp: same_callers_def intro: converse_rtranclp_into_rtranclp)
  show ?thesis
  proof (cases "gt_phase g")
    case (Gate_processing draining now es)
    from finish_batch [OF this] obtain h where h: "gate_step\<^sup>*\<^sup>* g h" "same_callers g h"
        "gt_phase h = (if draining then Gate_draining else Gate_selecting)" by blast
    obtain k where "gate_step\<^sup>*\<^sup>* h k" "gt_phase k = Gate_returned \<and> gt_queue k = [] \<and> gt_pending k = []" "same_callers h k"
      using selecting [of h] drain_to_return [of h] h(2,3) assms(1) by (cases draining) (auto simp: same_callers_def)
    with h show ?thesis by (meson rtranclp_trans same_callers_trans)
  qed (use assms selecting drain_to_return in auto)
qed

lemma gate_steps_reachable: "gate_step\<^sup>*\<^sup>* g h \<Longrightarrow> gate_reachable capacity window g \<Longrightarrow> gate_reachable capacity window h"
  by (induction rule: rtranclp_induct) (auto intro: gate_reachable.step)

text \<open>C29: Stopping loses no strong event.  From every reachable state in which a stop is requested and no caller is inside \<^verbatim>\<open>Emit\<close>, the worker can
  run to its return; then nothing is queued or held any more, and every strong event that was accepted has been forwarded, once.\<close>

theorem stop_forwards_strong_evidence:
  assumes "gate_reachable capacity window g" and "gt_stopped g" and "gt_phase g \<noteq> Gate_returned"
    and "gt_emitting g = []" and "gt_direct g = []"
  shows "\<exists>h. gate_step\<^sup>*\<^sup>* g h \<and> gt_phase h = Gate_returned \<and> gt_pending h = [] \<and>
    strong_part (delivered h) = strong_part (mset (gt_accepted g))"
proof -
  obtain h where h: "gate_step\<^sup>*\<^sup>* g h" "gt_phase h = Gate_returned" "gt_queue h = []" "gt_pending h = []" "same_callers g h"
    using reach_return [OF assms(2,3)] by blast
  have "conserved h" using gate_reachable_conserved [OF gate_steps_reachable [OF h(1) assms(1)]] by blast
  moreover have "on_the_way h = {#}" using h assms(4,5) by (simp add: on_the_way_def working_def same_callers_def)
  ultimately have "strong_part (delivered h) = strong_part (mset (gt_accepted g))"
    using h(5) by (simp add: conserved_def same_callers_def)
  with h show ?thesis by blast
qed

section \<open>Example\<close>

definition stopping_gate :: gate where
  "stopping_gate = crowded_gate\<lparr>gt_stopped := True\<rparr>"

theorem stop_forwards_strong_evidence_witness:
  "\<exists>h. gate_step\<^sup>*\<^sup>* stopping_gate h \<and> gt_pending h = [] \<and> strong_part (delivered h) = strong_part (mset (gt_accepted stopping_gate))"
proof -
  have "gate_reachable 1 10 stopping_gate"
    unfolding stopping_gate_def by (rule gate_reachable.step [OF crowded_gate_reachable gate_step.stop])
  moreover have "gt_stopped stopping_gate" "gt_phase stopping_gate \<noteq> Gate_returned" "gt_emitting stopping_gate = []" "gt_direct stopping_gate = []"
    by (simp_all add: stopping_gate_def crowded_gate_eq waiting_gate_eq new_gate_def)
  ultimately show ?thesis using stop_forwards_strong_evidence by blast
qed

end
