(* ===== verification/Stream_Tap.thy ===== *)
theory Stream_Tap
  imports Protocol
begin

text \<open>
  \<^verbatim>\<open>adapter/go/wrapper/stream.go\<close>: copies of the output of a wrapped command go through a bounded queue to a parser of structured
  streams.  The two goroutines of \<^verbatim>\<open>os/exec\<close> that copy standard output and standard error call \<^verbatim>\<open>offer\<close> concurrently; numbering a
  chunk and sending it are two steps, so chunks can enter the queue out of order.  A full queue drops the chunk; the reader notices the gap
  in the numbers and tells the parser.

  \<open>tp_taken\<close> and \<open>tp_written\<close> record the numbered chunks and the bytes written to each stream; the code has no such fields.  The
  number of a chunk is a \<^verbatim>\<open>uint64\<close> counter of chunks in the code and a natural number here.
\<close>

datatype stream = Stdout | Stderr

record stream_chunk =
  ck_stream :: stream
  ck_data :: string
  ck_sequence :: nat
  ck_dropped_before :: bool
  ck_eof :: bool

datatype tap_phase = Tap_waiting | Tap_reading | Tap_ended | Tap_cancelled

record stream_tap =
  tp_capacity :: nat
  tp_queue :: "stream_chunk list"
  tp_sequence :: nat
  tp_finished :: bool
  tp_rest :: "stream \<Rightarrow> string"
  tp_hand :: "stream \<Rightarrow> stream_chunk option"
  tp_started :: bool
  tp_phase :: tap_phase
  tp_last :: nat
  tp_parsed :: "stream_chunk list"
  tp_taken :: "stream_chunk list"
  tp_written :: "stream \<Rightarrow> string"

definition max_stream_chunk_bytes :: nat where "max_stream_chunk_bytes = 32768"

definition new_stream_tap :: "nat \<Rightarrow> stream_tap" where
  "new_stream_tap capacity =
     \<lparr>tp_capacity = capacity, tp_queue = [], tp_sequence = 0, tp_finished = False, tp_rest = (\<lambda>_. []), tp_hand = (\<lambda>_. None),
      tp_started = False, tp_phase = Tap_waiting, tp_last = 0, tp_parsed = [], tp_taken = [], tp_written = (\<lambda>_. [])\<rparr>"

section \<open>Writers\<close>

text \<open>\<^verbatim>\<open>tapWriter.Write\<close> offers what it has written; \<^verbatim>\<open>offer\<close> numbers a chunk, then tries to send it, until nothing is left.\<close>

definition writer_idle :: "stream_tap \<Rightarrow> stream \<Rightarrow> bool" where
  "writer_idle t s \<longleftrightarrow> tp_rest t s = [] \<and> tp_hand t s = None"

definition tap_write :: "stream \<Rightarrow> string \<Rightarrow> stream_tap \<Rightarrow> stream_tap" where
  "tap_write s data t =
     (if tp_finished t then t
      else t\<lparr>tp_rest := (tp_rest t)(s := data), tp_written := (tp_written t)(s := tp_written t s @ data)\<rparr>)"

definition tap_take :: "stream \<Rightarrow> stream_tap \<Rightarrow> stream_tap" where
  "tap_take s t =
     (let data = tp_rest t s; size = min (length data) max_stream_chunk_bytes; number = tp_sequence t + 1;
          chunk = \<lparr>ck_stream = s, ck_data = take size data, ck_sequence = number, ck_dropped_before = False, ck_eof = False\<rparr>
      in t\<lparr>tp_sequence := number, tp_hand := (tp_hand t)(s := Some chunk), tp_rest := (tp_rest t)(s := drop size data),
           tp_taken := tp_taken t @ [chunk]\<rparr>)"

definition tap_send :: "stream \<Rightarrow> stream_chunk \<Rightarrow> stream_tap \<Rightarrow> stream_tap" where
  "tap_send s chunk t =
     (let u = t\<lparr>tp_hand := (tp_hand t)(s := None)\<rparr> in
      if length (tp_queue t) < tp_capacity t then u\<lparr>tp_queue := tp_queue t @ [chunk]\<rparr> else u)"

section \<open>The reader\<close>

definition tap_read :: "stream_tap \<Rightarrow> stream_tap" where
  "tap_read t =
     (case tp_queue t of
        [] \<Rightarrow> t
      | chunk # rest \<Rightarrow>
          let last = tp_last t;
              dropped = (last \<noteq> 0 \<and> ck_sequence chunk \<noteq> last + 1) \<or> (last = 0 \<and> 1 < ck_sequence chunk)
          in t\<lparr>tp_queue := rest, tp_last := ck_sequence chunk, tp_parsed := tp_parsed t @ [chunk\<lparr>ck_dropped_before := dropped\<rparr>]\<rparr>)"

definition tap_end :: "stream_tap \<Rightarrow> stream_tap" where
  "tap_end t =
     t\<lparr>tp_phase := Tap_ended,
       tp_parsed := tp_parsed t @
         [\<lparr>ck_stream = Stdout, ck_data = [], ck_sequence = tp_sequence t + 1, ck_dropped_before = (tp_sequence t \<noteq> tp_last t), ck_eof = True\<rparr>,
          \<lparr>ck_stream = Stderr, ck_data = [], ck_sequence = tp_sequence t + 2, ck_dropped_before = False, ck_eof = True\<rparr>]\<rparr>"

text \<open>\<^verbatim>\<open>finish\<close> is called after \<^verbatim>\<open>command.Wait\<close>, which waits for the goroutines that copy the streams.\<close>

inductive tap_step :: "stream_tap \<Rightarrow> stream_tap \<Rightarrow> bool" where
  writes: "writer_idle t s \<Longrightarrow> tap_step t (tap_write s data t)"
| takes: "tp_rest t s \<noteq> [] \<Longrightarrow> tp_hand t s = None \<Longrightarrow> tap_step t (tap_take s t)"
| sends: "tp_hand t s = Some chunk \<Longrightarrow> tap_step t (tap_send s chunk t)"
| start: "tap_step t (t\<lparr>tp_started := True\<rparr>)"
| run: "tp_phase t = Tap_waiting \<Longrightarrow> tp_started t \<Longrightarrow> tap_step t (t\<lparr>tp_phase := Tap_reading\<rparr>)"
| cancelled: "tp_phase t = Tap_waiting \<Longrightarrow> tap_step t (t\<lparr>tp_phase := Tap_cancelled\<rparr>)"
| reads: "tp_phase t = Tap_reading \<Longrightarrow> tap_step t (tap_read t)"
| finish: "writer_idle t Stdout \<Longrightarrow> writer_idle t Stderr \<Longrightarrow> tap_step t (t\<lparr>tp_finished := True, tp_started := True\<rparr>)"
| ends: "tp_phase t = Tap_reading \<Longrightarrow> tp_finished t \<Longrightarrow> tp_queue t = [] \<Longrightarrow> tap_step t (tap_end t)"

inductive tap_reachable :: "nat \<Rightarrow> stream_tap \<Rightarrow> bool" for capacity where
  init: "tap_reachable capacity (new_stream_tap capacity)"
| step: "tap_reachable capacity t \<Longrightarrow> tap_step t t' \<Longrightarrow> tap_reachable capacity t'"

section \<open>Numbering\<close>

definition stream_data :: "stream \<Rightarrow> stream_chunk list \<Rightarrow> string" where
  "stream_data s cs = concat (map ck_data (filter (\<lambda>c. ck_stream c = s) cs))"

lemma stream_data_simps [simp]:
  "stream_data s [] = []" "stream_data s (cs @ ds) = stream_data s cs @ stream_data s ds"
  "stream_data s [c] = (if ck_stream c = s then ck_data c else [])"
  "stream_data s (c # cs) = (if ck_stream c = s then ck_data c else []) @ stream_data s cs"
  by (simp_all add: stream_data_def)

text \<open>The chunk with number \<open>n\<close> is the \<open>n\<close>th that was taken.\<close>

definition numbered :: "stream_chunk list \<Rightarrow> stream_chunk \<Rightarrow> bool" where
  "numbered cs c \<longleftrightarrow> 0 < ck_sequence c \<and> ck_sequence c \<le> length cs \<and> cs ! (ck_sequence c - 1) = c"

definition numbering_ok :: "stream_tap \<Rightarrow> bool" where
  "numbering_ok t \<longleftrightarrow> tp_sequence t = length (tp_taken t) \<and>
     (\<forall>s. stream_data s (tp_taken t) @ tp_rest t s = tp_written t s) \<and>
     list_all (numbered (tp_taken t)) (tp_queue t) \<and> (\<forall>s c. tp_hand t s = Some c \<longrightarrow> numbered (tp_taken t) c) \<and>
     list_all (\<lambda>c. ck_data c \<noteq> [] \<and> length (ck_data c) \<le> max_stream_chunk_bytes \<and> \<not> ck_dropped_before c) (tp_taken t)"

text \<open>As long as no gap was reported, the parser has seen the chunks one after the other.\<close>

definition reading_ok :: "stream_tap \<Rightarrow> bool" where
  "reading_ok t \<longleftrightarrow>
     (case tp_phase t of
        Tap_ended \<Rightarrow> tp_finished t \<and> writer_idle t Stdout \<and> writer_idle t Stderr \<and>
          (\<exists>cs e. tp_parsed t = cs @ e \<and> length e = 2 \<and> (\<forall>s. stream_data s e = []) \<and>
             (list_all (\<lambda>c. \<not> ck_dropped_before c) (tp_parsed t) \<longrightarrow> cs = tp_taken t))
      | Tap_reading \<Rightarrow> (tp_finished t \<longrightarrow> writer_idle t Stdout \<and> writer_idle t Stderr) \<and>
          (list_all (\<lambda>c. \<not> ck_dropped_before c) (tp_parsed t) \<longrightarrow>
             tp_last t \<le> length (tp_taken t) \<and> tp_parsed t = take (tp_last t) (tp_taken t))
      | _ \<Rightarrow> (tp_finished t \<longrightarrow> writer_idle t Stdout \<and> writer_idle t Stderr) \<and> tp_parsed t = [] \<and> tp_last t = 0)"

lemma numbered_more: "numbered cs c \<Longrightarrow> numbered (cs @ ds) c"
  by (auto simp: numbered_def nth_append)

lemma tap_take_numbering: "tp_rest t s \<noteq> [] \<Longrightarrow> numbering_ok t \<Longrightarrow> numbering_ok (tap_take s t)"
proof -
  assume r: "tp_rest t s \<noteq> []" and ok: "numbering_ok t"
  let ?n = "min (length (tp_rest t s)) max_stream_chunk_bytes"
  define chunk where "chunk = \<lparr>ck_stream = s, ck_data = take ?n (tp_rest t s), ck_sequence = tp_sequence t + 1,
    ck_dropped_before = False, ck_eof = False\<rparr>"
  have t: "tap_take s t = t\<lparr>tp_sequence := tp_sequence t + 1, tp_hand := (tp_hand t)(s := Some chunk),
      tp_rest := (tp_rest t)(s := drop ?n (tp_rest t s)), tp_taken := tp_taken t @ [chunk]\<rparr>"
    by (simp only: tap_take_def Let_def chunk_def)
  have new: "numbered (tp_taken t @ [chunk]) chunk" using ok by (simp add: numbered_def numbering_ok_def chunk_def)
  have "?n \<noteq> 0" "?n \<le> max_stream_chunk_bytes" using r by (simp_all add: max_stream_chunk_bytes_def)
  then have c: "ck_data chunk \<noteq> []" "length (ck_data chunk) \<le> max_stream_chunk_bytes" "\<not> ck_dropped_before chunk"
    using r by (auto simp: chunk_def)
  have d: "ck_stream chunk = s" "ck_data chunk @ drop ?n (tp_rest t s) = tp_rest t s" by (simp_all add: chunk_def)
  have "list_all (numbered (tp_taken t @ [chunk])) (tp_queue t)"
    using ok numbered_more by (auto simp: numbering_ok_def list_all_iff)
  moreover have "numbered (tp_taken t @ [chunk]) c" if "((tp_hand t)(s := Some chunk)) r = Some c" for r c
    using that ok new numbered_more by (auto simp: numbering_ok_def split: if_splits)
  moreover have "stream_data r (tp_taken t @ [chunk]) @ ((tp_rest t)(s := drop ?n (tp_rest t s))) r = tp_written t r" for r
    using ok d by (auto simp: numbering_ok_def)
  ultimately show ?thesis using ok c unfolding t by (simp add: numbering_ok_def)
qed

lemma tap_send_numbering: "tp_hand t s = Some c \<Longrightarrow> numbering_ok t \<Longrightarrow> numbering_ok (tap_send s c t)"
  by (auto simp: numbering_ok_def tap_send_def Let_def)

lemma tap_write_numbering: "writer_idle t s \<Longrightarrow> numbering_ok t \<Longrightarrow> numbering_ok (tap_write s data t)"
  by (simp add: numbering_ok_def tap_write_def writer_idle_def)
    (metis append_Nil2)

lemma tap_read_numbering: "numbering_ok t \<Longrightarrow> numbering_ok (tap_read t)"
  by (cases "tp_queue t") (simp_all add: numbering_ok_def tap_read_def Let_def)

lemma numbering_frame:
  "numbering_ok (t\<lparr>tp_started := st\<rparr>) = numbering_ok t" "numbering_ok (t\<lparr>tp_phase := ph\<rparr>) = numbering_ok t"
  "numbering_ok (t\<lparr>tp_finished := fi\<rparr>) = numbering_ok t"
  "numbering_ok (t\<lparr>tp_finished := fi, tp_started := st\<rparr>) = numbering_ok t" "numbering_ok (tap_end t) = numbering_ok t"
  by (simp_all add: numbering_ok_def tap_end_def)

lemma tap_step_numbering: "tap_step t t' \<Longrightarrow> numbering_ok t \<Longrightarrow> numbering_ok t'"
  by (induction rule: tap_step.induct)
    (simp_all add: tap_take_numbering tap_send_numbering tap_write_numbering tap_read_numbering numbering_frame)

lemma tap_read_ok:
  assumes "tp_phase t = Tap_reading" and "numbering_ok t" and "reading_ok t"
  shows "reading_ok (tap_read t)"
proof (cases "tp_queue t")
  case (Cons c cs)
  define d where "d = ((tp_last t \<noteq> 0 \<and> ck_sequence c \<noteq> tp_last t + 1) \<or> (tp_last t = 0 \<and> 1 < ck_sequence c))"
  have t: "tap_read t = t\<lparr>tp_queue := cs, tp_last := ck_sequence c, tp_parsed := tp_parsed t @ [c\<lparr>ck_dropped_before := d\<rparr>]\<rparr>"
    using Cons by (simp add: tap_read_def d_def Let_def)
  have n: "numbered (tp_taken t) c" "list_all (\<lambda>c. \<not> ck_dropped_before c) (tp_taken t)"
    using assms(2) Cons by (auto simp: numbering_ok_def list_all_iff)
  show ?thesis
  proof (cases "list_all (\<lambda>c. \<not> ck_dropped_before c) (tp_parsed t) \<and> \<not> d")
    case True
    with assms(1,3) have p: "tp_last t \<le> length (tp_taken t)" "tp_parsed t = take (tp_last t) (tp_taken t)"
      by (simp_all add: reading_ok_def)
    from True n(1) have s: "ck_sequence c = tp_last t + 1" by (auto simp: d_def numbered_def)
    with n(1) have l: "tp_last t < length (tp_taken t)" "tp_taken t ! tp_last t = c" by (simp_all add: numbered_def)
    then have "\<not> ck_dropped_before c" using n(2) by (auto simp: list_all_iff)
    then have "c\<lparr>ck_dropped_before := d\<rparr> = c" using True by simp
    with p s l assms(1,3) show ?thesis by (simp add: t reading_ok_def take_Suc_conv_app_nth writer_idle_def)
  next
    case False
    with assms(1,3) show ?thesis by (auto simp: t reading_ok_def writer_idle_def)
  qed
qed (use assms in \<open>simp add: tap_read_def\<close>)


lemma tap_end_ok:
  assumes "tp_phase t = Tap_reading" and "tp_finished t" and "numbering_ok t" and "reading_ok t"
  shows "reading_ok (tap_end t)"
proof -
  define e where "e = [\<lparr>ck_stream = Stdout, ck_data = [], ck_sequence = tp_sequence t + 1,
      ck_dropped_before = (tp_sequence t \<noteq> tp_last t), ck_eof = True\<rparr>,
    \<lparr>ck_stream = Stderr, ck_data = [], ck_sequence = tp_sequence t + 2, ck_dropped_before = False, ck_eof = True\<rparr>]"
  have "tp_parsed t = tp_taken t" if "list_all (\<lambda>c. \<not> ck_dropped_before c) (tp_parsed t @ e)"
    using that assms(1,3,4) by (simp add: e_def reading_ok_def numbering_ok_def)
  moreover have "\<forall>s. stream_data s e = []" "length e = 2" by (simp_all add: e_def)
  moreover have "tp_parsed (tap_end t) = tp_parsed t @ e" "tp_taken (tap_end t) = tp_taken t"
    "tp_phase (tap_end t) = Tap_ended" "tp_finished (tap_end t)" "writer_idle (tap_end t) s = writer_idle t s" for s
    using assms(2) by (simp_all add: tap_end_def e_def writer_idle_def)
  ultimately show ?thesis using assms(1,2,4) by (auto simp: reading_ok_def)
qed

text \<open>A writer that is at work has the stream open.\<close>

lemma working_open: "reading_ok t \<Longrightarrow> \<not> writer_idle t s \<Longrightarrow> \<not> tp_finished t \<and> tp_phase t \<noteq> Tap_ended"
  by (cases s; cases "tp_phase t") (auto simp: reading_ok_def)

lemma reading_frame:
  assumes "reading_ok t" and "\<not> tp_finished t'" and "tp_phase t' = tp_phase t" and "tp_phase t \<noteq> Tap_ended"
    and "tp_parsed t' = tp_parsed t" and "tp_last t' = tp_last t" and "tp_taken t' = tp_taken t @ cs"
  shows "reading_ok t'"
proof (cases "tp_phase t")
  case Tap_reading
  have "tp_parsed t' = take (tp_last t') (tp_taken t') \<and> tp_last t' \<le> length (tp_taken t')"
    if "tp_parsed t = take (tp_last t) (tp_taken t)" "tp_last t \<le> length (tp_taken t)"
    using that assms(5-7) by simp
  with Tap_reading assms(1-3,5) show ?thesis by (simp add: reading_ok_def)
qed (use assms in \<open>simp_all add: reading_ok_def\<close>)

lemma tap_step_reading: "tap_step t t' \<Longrightarrow> numbering_ok t \<Longrightarrow> reading_ok t \<Longrightarrow> reading_ok t'"
proof (induction rule: tap_step.induct)
  case (writes t s data)
  show ?case
  proof (cases "tp_finished t")
    case False
    have "tp_phase t \<noteq> Tap_ended" using False writes(3) by (auto simp: reading_ok_def)
    with False writes(3) show ?thesis
      by (intro reading_frame [OF writes(3), where cs = "[]"]) (simp_all add: tap_write_def)
  qed (use writes in \<open>simp add: tap_write_def\<close>)
next
  case (takes t s)
  then have "\<not> writer_idle t s" by (simp add: writer_idle_def)
  with takes(4) working_open have "\<not> tp_finished t" "tp_phase t \<noteq> Tap_ended" by blast+
  then show ?case by (intro reading_frame [OF takes(4)]) (simp_all add: tap_take_def Let_def)
next
  case (sends t s chunk)
  then have "\<not> writer_idle t s" by (simp add: writer_idle_def)
  with sends(3) working_open have "\<not> tp_finished t" "tp_phase t \<noteq> Tap_ended" by blast+
  then show ?case by (intro reading_frame [OF sends(3), where cs = "[]"]) (simp_all add: tap_send_def Let_def)
next
  case (reads t)
  with tap_read_ok show ?case by blast
next
  case (ends t)
  with tap_end_ok show ?case by blast
next
  case (finish t)
  then show ?case by (cases "tp_phase t") (auto simp: reading_ok_def writer_idle_def)
next
  case (start t)
  then show ?case by (cases "tp_phase t") (simp_all add: reading_ok_def writer_idle_def)
qed (simp_all add: reading_ok_def writer_idle_def)

lemma tap_reachable_ok: "tap_reachable capacity t \<Longrightarrow> numbering_ok t \<and> reading_ok t"
proof (induction rule: tap_reachable.induct)
  case init
  show ?case by (simp add: new_stream_tap_def numbering_ok_def reading_ok_def writer_idle_def)
qed (use tap_step_numbering tap_step_reading in blast)

section \<open>Property\<close>

text \<open>C31: Nothing is lost silently.  When the parser has been given the end of the streams and was never told of a gap, the pieces it was given for
  a stream are, in order, exactly what the command wrote to that stream, however the two streams were interleaved.\<close>

theorem unreported_streams_are_whole:
  assumes "tap_reachable capacity t" and "tp_phase t = Tap_ended" and "list_all (\<lambda>c. \<not> ck_dropped_before c) (tp_parsed t)"
  shows "stream_data s (tp_parsed t) = tp_written t s"
proof -
  note ok = tap_reachable_ok [OF assms(1)]
  with assms(2,3) obtain e where e: "tp_parsed t = tp_taken t @ e" "\<forall>s. stream_data s e = []"
    and idle: "writer_idle t Stdout" "writer_idle t Stderr"
    by (auto simp: reading_ok_def)
  then have "tp_rest t s = []" by (cases s) (auto simp: writer_idle_def)
  moreover have "stream_data s (tp_taken t) @ tp_rest t s = tp_written t s" using ok by (simp add: numbering_ok_def)
  ultimately show ?thesis using e by simp
qed

section \<open>Example\<close>

text \<open>Both streams hold a numbered piece at the same time.\<close>

definition demo_chunk :: "stream \<Rightarrow> string \<Rightarrow> nat \<Rightarrow> stream_chunk" where
  "demo_chunk s d n = \<lparr>ck_stream = s, ck_data = d, ck_sequence = n, ck_dropped_before = False, ck_eof = False\<rparr>"

definition holding_tap :: stream_tap where
  "holding_tap = tap_take Stderr (tap_take Stdout (tap_write Stderr ''e'' (tap_write Stdout ''ab'' (new_stream_tap 4))))"

definition queued_tap :: stream_tap where
  "queued_tap = (tap_send Stderr (demo_chunk Stderr ''e'' 2) (tap_send Stdout (demo_chunk Stdout ''ab'' 1) holding_tap))
     \<lparr>tp_finished := True, tp_started := True\<rparr>"

definition ended_tap :: stream_tap where
  "ended_tap = tap_end (tap_read (tap_read (queued_tap\<lparr>tp_phase := Tap_reading\<rparr>)))"

lemma holding_tap_eq: "holding_tap = (new_stream_tap 4)\<lparr>tp_sequence := 2, tp_rest := (\<lambda>_. []),
    tp_hand := [Stdout \<mapsto> demo_chunk Stdout ''ab'' 1, Stderr \<mapsto> demo_chunk Stderr ''e'' 2],
    tp_taken := [demo_chunk Stdout ''ab'' 1, demo_chunk Stderr ''e'' 2],
    tp_written := (\<lambda>_. [])(Stdout := ''ab'', Stderr := ''e'')\<rparr>"
  by (simp add: holding_tap_def tap_write_def tap_take_def new_stream_tap_def max_stream_chunk_bytes_def demo_chunk_def Let_def)
    (auto simp: fun_eq_iff split: if_splits)

lemma queued_tap_eq: "queued_tap = holding_tap\<lparr>tp_hand := (\<lambda>_. None),
    tp_queue := [demo_chunk Stdout ''ab'' 1, demo_chunk Stderr ''e'' 2], tp_finished := True, tp_started := True\<rparr>"
  by (simp add: queued_tap_def holding_tap_eq tap_send_def new_stream_tap_def Let_def fun_eq_iff)

lemma ended_tap_eq: "tp_phase ended_tap = Tap_ended" "tp_written ended_tap = (\<lambda>_. [])(Stdout := ''ab'', Stderr := ''e'')"
    "list_all (\<lambda>c. \<not> ck_dropped_before c) (tp_parsed ended_tap)"
  by (simp_all add: ended_tap_def queued_tap_eq holding_tap_eq tap_read_def tap_end_def new_stream_tap_def demo_chunk_def Let_def)

lemma holding_tap_reachable: "tap_reachable 4 holding_tap"
proof -
  let ?a = "tap_write Stdout ''ab'' (new_stream_tap 4)"
  let ?t = "tap_write Stderr ''e'' ?a"
  note step = tap_reachable.step and defs = tap_write_def tap_take_def new_stream_tap_def max_stream_chunk_bytes_def writer_idle_def Let_def
  have "tap_reachable 4 ?a" by (rule step [OF tap_reachable.init]) (rule tap_step.writes, simp add: defs)
  then have "tap_reachable 4 ?t" by (rule step) (rule tap_step.writes, simp add: defs)
  then have "tap_reachable 4 (tap_take Stdout ?t)" by (rule step) (rule tap_step.takes; simp add: defs)
  then show ?thesis unfolding holding_tap_def by (rule step) (rule tap_step.takes; simp add: defs)
qed

lemma queued_tap_reachable: "tap_reachable 4 queued_tap"
proof -
  note step = tap_reachable.step and defs = holding_tap_eq tap_send_def new_stream_tap_def writer_idle_def Let_def
  have "tap_reachable 4 (tap_send Stdout (demo_chunk Stdout ''ab'' 1) holding_tap)"
    by (rule step [OF holding_tap_reachable]) (rule tap_step.sends, simp add: holding_tap_eq)
  then have "tap_reachable 4 (tap_send Stderr (demo_chunk Stderr ''e'' 2) (tap_send Stdout (demo_chunk Stdout ''ab'' 1) holding_tap))"
    by (rule step) (rule tap_step.sends, simp add: defs)
  then show ?thesis unfolding queued_tap_def by (rule step) (rule tap_step.finish; simp add: defs)
qed

lemma ended_tap_reachable: "tap_reachable 4 ended_tap"
proof -
  note step = tap_reachable.step and defs = queued_tap_eq holding_tap_eq tap_read_def new_stream_tap_def Let_def
  have "tap_reachable 4 (queued_tap\<lparr>tp_phase := Tap_reading\<rparr>)"
    by (rule step [OF queued_tap_reachable]) (rule tap_step.run; simp add: defs)
  then have "tap_reachable 4 (tap_read (queued_tap\<lparr>tp_phase := Tap_reading\<rparr>))" by (rule step) (rule tap_step.reads, simp)
  then have "tap_reachable 4 (tap_read (tap_read (queued_tap\<lparr>tp_phase := Tap_reading\<rparr>)))"
    by (rule step) (rule tap_step.reads, simp add: defs)
  then show ?thesis unfolding ended_tap_def by (rule step) (rule tap_step.ends; simp add: defs)
qed

theorem unreported_streams_are_whole_witness:
  "stream_data Stdout (tp_parsed ended_tap) = ''ab'' \<and> stream_data Stderr (tp_parsed ended_tap) = ''e''"
  using unreported_streams_are_whole [OF ended_tap_reachable ended_tap_eq(1,3)]
  by (simp add: ended_tap_eq(2))

end
