(* ===== verification/Wrapper_Run.thy ===== *)
theory Wrapper_Run
  imports Wrapper Stream_Tap Evidence_Gate
begin

text \<open>
  \<^verbatim>\<open>Run\<close> of \<^verbatim>\<open>adapter/go/wrapper/wrapper.go\<close>: one run of a wrapped command, put together from the stream tap, the evidence gate and the
  delivery.  The goroutine of \<^verbatim>\<open>Run\<close> takes its steps in order, all the others interleave with it.  Every wait of \<^verbatim>\<open>Run\<close> ends with
  a deadline, so it may go on at any time; only \<^verbatim>\<open>command.Wait\<close> waits for the copies of the output streams.  Starting the process, its
  signals and what parser and observer make of their input are not decided here: they may do anything.
\<close>

section \<open>State and steps\<close>

datatype run_phase = Starting | Start_failed | Started | Announced | Watching | Exited_child | Tap_finished | Gate_stopped | Reported | Finished

record wrapper_run =
  wr_phase :: run_phase
  wr_started_at :: gotime
  wr_stopped_at :: gotime
  wr_tap :: stream_tap
  wr_gate :: gate
  wr_delivery :: delivery
  wr_result :: "run_result option"
  wr_quiet :: bool

text \<open>\<open>wr_quiet\<close> records that the evidence gate had been emptied in time when the last events were handed over; the code has no such field.\<close>

definition new_run :: "run_config \<Rightarrow> bool \<Rightarrow> gotime \<Rightarrow> wrapper_run" where
  "new_run c collector clock =
     \<lparr>wr_phase = Starting, wr_started_at = 0, wr_stopped_at = 0, wr_tap = new_stream_tap (nat (rc_parser_queue c)),
      wr_gate = new_gate (rc_evidence_queue c) (rc_evidence_window c) clock,
      wr_delivery = new_dispatcher collector (nat (rc_delivery_queue c)), wr_result = None, wr_quiet = False\<rparr>"

definition refused_run :: run_result where
  "refused_run = \<lparr>rr_exit_code = 127, rr_signal = [], rr_start_failed = True\<rparr>"

definition announce :: "observation \<Rightarrow> string \<Rightarrow> wrapper_run \<Rightarrow> wrapper_run" where
  "announce obs command r =
     r\<lparr>wr_phase := Announced, wr_delivery := emit_events (lifecycle_started obs command (wr_started_at r)) (wr_delivery r)\<rparr>"

definition finish_tap :: "stream_tap \<Rightarrow> stream_tap" where
  "finish_tap t = t\<lparr>tp_finished := True, tp_started := True\<rparr>"

text \<open>The gate has handed over all it will ever hand over.\<close>

definition gate_silent :: "gate \<Rightarrow> bool" where
  "gate_silent g \<longleftrightarrow> gt_stopped g \<and> gt_phase g = Gate_returned \<and> gt_emitting g = [] \<and> gt_direct g = []"

definition report :: "observation \<Rightarrow> string \<Rightarrow> gotime \<Rightarrow> run_result \<Rightarrow> wrapper_run \<Rightarrow> wrapper_run" where
  "report obs command stopped res r =
     r\<lparr>wr_phase := Reported, wr_stopped_at := stopped, wr_result := Some res, wr_quiet := gate_silent (wr_gate r),
       wr_delivery := emit_final (lifecycle_stopped obs command (wr_started_at r) stopped res) (wr_delivery r)\<rparr>"

text \<open>The target of the gate is the delivery: what a step of the gate hands over is emitted there.\<close>

definition hand_over :: "gate \<Rightarrow> event list list \<Rightarrow> wrapper_run \<Rightarrow> wrapper_run" where
  "hand_over g outs r = r\<lparr>wr_gate := g, wr_delivery := foldl (\<lambda>d es. emit_events es d) (wr_delivery r) outs\<rparr>"

inductive run_step :: "observation \<Rightarrow> string \<Rightarrow> wrapper_run \<Rightarrow> wrapper_run \<Rightarrow> bool" for obs command where
  fail: "wr_phase r = Starting \<Longrightarrow>
    run_step obs command r (r\<lparr>wr_phase := Start_failed, wr_tap := finish_tap (wr_tap r), wr_result := Some refused_run\<rparr>)"
| start: "wr_phase r = Starting \<Longrightarrow> run_step obs command r (r\<lparr>wr_phase := Started, wr_started_at := now\<rparr>)"
| announce: "wr_phase r = Started \<Longrightarrow> run_step obs command r (announce obs command r)"
| watch: "wr_phase r = Announced \<Longrightarrow>
    run_step obs command r (r\<lparr>wr_phase := Watching, wr_tap := (wr_tap r)\<lparr>tp_started := True\<rparr>\<rparr>)"
| exit: "wr_phase r = Watching \<Longrightarrow> writer_idle (wr_tap r) Stdout \<Longrightarrow> writer_idle (wr_tap r) Stderr \<Longrightarrow>
    run_step obs command r (r\<lparr>wr_phase := Exited_child\<rparr>)"
| tap_end: "wr_phase r = Exited_child \<Longrightarrow>
    run_step obs command r (r\<lparr>wr_phase := Tap_finished, wr_tap := finish_tap (wr_tap r)\<rparr>)"
| gate_end: "wr_phase r = Tap_finished \<Longrightarrow>
    run_step obs command r (r\<lparr>wr_phase := Gate_stopped, wr_gate := (wr_gate r)\<lparr>gt_stopped := True\<rparr>\<rparr>)"
| fail_end: "wr_phase r = Start_failed \<Longrightarrow>
    run_step obs command r (r\<lparr>wr_gate := (wr_gate r)\<lparr>gt_stopped := True\<rparr>, wr_delivery := (wr_delivery r)\<lparr>dl_stopped := True\<rparr>\<rparr>)"
| report: "wr_phase r = Gate_stopped \<Longrightarrow>
    run_step obs command r (report obs command stopped (process_result signal_name wait_failed st) r)"
| return: "wr_phase r = Reported \<Longrightarrow>
    run_step obs command r (r\<lparr>wr_phase := Finished, wr_delivery := (wr_delivery r)\<lparr>dl_stopped := True\<rparr>\<rparr>)"
| tap: "tap_step (wr_tap r) t \<Longrightarrow> tp_started t = tp_started (wr_tap r) \<Longrightarrow> tp_finished t = tp_finished (wr_tap r) \<Longrightarrow>
    tp_written t = tp_written (wr_tap r) \<or> wr_phase r \<in> {Started, Announced, Watching} \<Longrightarrow>
    tp_parsed t = tp_parsed (wr_tap r) @ chunks \<Longrightarrow> length batches = length chunks \<Longrightarrow>
    run_step obs command r (r\<lparr>wr_tap := t, wr_gate := foldl (\<lambda>g es. emit_begin es g) (wr_gate r) batches\<rparr>)"
| observe: "wr_phase r \<in> {Watching, Exited_child, Tap_finished, Gate_stopped, Reported, Finished} \<Longrightarrow>
    run_step obs command r (r\<lparr>wr_gate := emit_begin es (wr_gate r)\<rparr>)"
| gate: "gate_step (wr_gate r) g \<Longrightarrow> gt_accepted g = gt_accepted (wr_gate r) \<Longrightarrow> gt_stopped g = gt_stopped (wr_gate r) \<Longrightarrow>
    gt_out g = gt_out (wr_gate r) @ outs \<Longrightarrow> run_step obs command r (hand_over g outs r)"
| delivery: "delivery_step (wr_delivery r) d \<Longrightarrow> dl_accepted d = dl_accepted (wr_delivery r) \<Longrightarrow>
    dl_stopped d = dl_stopped (wr_delivery r) \<Longrightarrow> length (dl_aside d) \<le> length (dl_aside (wr_delivery r)) \<Longrightarrow>
    run_step obs command r (r\<lparr>wr_delivery := d\<rparr>)"

inductive run_reachable :: "observation \<Rightarrow> string \<Rightarrow> run_config \<Rightarrow> bool \<Rightarrow> wrapper_run \<Rightarrow> bool" for obs command c collector where
  init: "run_reachable obs command c collector (new_run c collector clock)"
| step: "run_reachable obs command c collector r \<Longrightarrow> run_step obs command r r' \<Longrightarrow> run_reachable obs command c collector r'"

section \<open>Before the announcement\<close>

text \<open>A gate and a tap that nothing has reached yet.\<close>

definition gate_fresh :: "gate \<Rightarrow> bool" where
  "gate_fresh g \<longleftrightarrow> gt_accepted g = [] \<and> gt_emitting g = [] \<and> gt_direct g = [] \<and> gt_queue g = [] \<and> gt_pending g = [] \<and>
     gt_phase g = Gate_selecting \<and> \<not> gt_stopped g"

definition tap_fresh :: "stream_tap \<Rightarrow> bool" where
  "tap_fresh t \<longleftrightarrow> \<not> tp_started t \<and> tp_phase t \<in> {Tap_waiting, Tap_cancelled} \<and> tp_parsed t = []"

lemma gate_fresh_step:
  assumes "gate_step g g'" and "gate_fresh g" and "gt_accepted g' = gt_accepted g" and "gt_stopped g' = gt_stopped g"
  shows "gate_fresh g' \<and> gt_out g' = gt_out g"
  using assms(1)
proof cases
  case (emit batch)
  with assms(2,3) show ?thesis by (auto simp: emit_begin_def gate_fresh_def split: if_splits)
next
  case turn
  with assms(2) show ?thesis by (simp add: worker_turn_def gate_fresh_def)
next
  case (tick now)
  with assms(2) show ?thesis by (simp add: gate_tick_def flush_evidence_def prune_strong_def gate_fresh_def sort_values_def)
qed (use assms in \<open>auto simp: gate_fresh_def\<close>)

lemma tap_fresh_step:
  assumes "tap_step t t'" and "tap_fresh t" and "tp_started t' = tp_started t"
  shows "tap_fresh t' \<and> tp_parsed t' = tp_parsed t"
  using assms(1)
proof cases
  case (writes s data)
  with assms(2) show ?thesis by (auto simp: tap_write_def tap_fresh_def)
next
  case (takes s)
  with assms(2) show ?thesis by (auto simp: tap_take_def tap_fresh_def Let_def)
next
  case (sends s chunk)
  with assms(2) show ?thesis by (auto simp: tap_send_def tap_fresh_def Let_def)
qed (use assms in \<open>auto simp: tap_fresh_def\<close>)

text \<open>A silent gate stays silent.\<close>

lemma emit_begin_silent: "gate_silent g \<Longrightarrow> emit_begin es g = g"
  by (simp add: emit_begin_def gate_silent_def)

lemma gate_silent_step:
  assumes "gate_step g g'" and "gate_silent g"
  shows "gate_silent g' \<and> gt_out g' = gt_out g"
  using assms(1)
proof cases
  case turn
  with assms(2) show ?thesis by (simp add: worker_turn_def gate_silent_def)
qed (use assms in \<open>auto simp: gate_silent_def emit_begin_def\<close>)

section \<open>What the queue takes\<close>

lemma emit_final_grows:
  "\<exists>xs. dl_accepted (emit_final es d) = dl_accepted d @ xs \<and> (xs = [] \<or> xs = [(valid_events es, True)])"
  by (auto simp: emit_final_def offer_batch_def Let_def)

lemma emit_capacity [simp]: "dl_capacity (emit_events es d) = dl_capacity d" "dl_capacity (emit_final es d) = dl_capacity d"
  by (simp_all add: emit_events_def emit_final_def offer_batch_def Let_def)

lemma emit_all_capacity [simp]: "dl_capacity (foldl (\<lambda>d es. emit_events es d) d outs) = dl_capacity d"
  by (induction outs arbitrary: d) simp_all

lemma delivery_own_step:
  assumes "delivery_step d d'" and "dl_accepted d' = dl_accepted d"
  shows "dl_capacity d' = dl_capacity d \<and> (dl_queue d = [] \<longrightarrow> dl_queue d' = [])"
  using assms(1)
proof cases
  case (emit es)
  with assms(2) show ?thesis by (auto simp: emit_events_def offer_batch_def)
next
  case (final es)
  with assms(2) show ?thesis by (auto simp: emit_final_def offer_batch_def Let_def split: if_splits)
next
  case receive
  then show ?thesis by (simp add: dispatch_receive_def split: list.splits)
qed (auto simp: dispatch_send_def aside_send_def send_events_def)

section \<open>The order of a run\<close>

abbreviation announced :: "observation \<Rightarrow> string \<Rightarrow> wrapper_run \<Rightarrow> event list" where
  "announced obs command r \<equiv> valid_events (lifecycle_started obs command (wr_started_at r))"

abbreviation reported :: "observation \<Rightarrow> string \<Rightarrow> wrapper_run \<Rightarrow> event list" where
  "reported obs command r \<equiv> valid_events (lifecycle_stopped obs command (wr_started_at r) (wr_stopped_at r) (the (wr_result r)))"

definition before_ok :: "wrapper_run \<Rightarrow> bool" where
  "before_ok r \<longleftrightarrow> (wr_phase r \<in> {Starting, Started, Announced} \<longrightarrow> gate_fresh (wr_gate r) \<and> tap_fresh (wr_tap r)) \<and>
     (wr_phase r \<in> {Starting, Started} \<longrightarrow> dl_accepted (wr_delivery r) = [] \<and> dl_queue (wr_delivery r) = []) \<and>
     0 < dl_capacity (wr_delivery r)"

definition order_ok :: "observation \<Rightarrow> string \<Rightarrow> wrapper_run \<Rightarrow> bool" where
  "order_ok obs command r \<longleftrightarrow>
     (wr_phase r \<notin> {Starting, Started, Start_failed} \<longrightarrow> announced obs command r \<noteq> [] \<longrightarrow>
        (\<exists>xs. dl_accepted (wr_delivery r) = (announced obs command r, False) # xs)) \<and>
     (wr_phase r \<notin> {Reported, Finished} \<longrightarrow> list_all (\<lambda>b. \<not> snd b) (dl_accepted (wr_delivery r)) \<and> \<not> wr_quiet r) \<and>
     (wr_quiet r \<longrightarrow> gate_silent (wr_gate r) \<and>
        (\<exists>xs ys. dl_accepted (wr_delivery r) = xs @ ys \<and> list_all (\<lambda>b. \<not> snd b) xs \<and> (ys = [] \<or> ys = [(reported obs command r, True)])))"

lemma before_step: "run_step obs command r r' \<Longrightarrow> before_ok r \<Longrightarrow> before_ok r'"
proof (induction rule: run_step.induct)
  case (announce r)
  then show ?case by (simp add: before_ok_def announce_def)
next
  case (tap r t chunks batches)
  show ?case
  proof (cases "wr_phase r \<in> {Starting, Started, Announced}")
    case True
    with tap have "tap_fresh t \<and> tp_parsed t = tp_parsed (wr_tap r)" by (intro tap_fresh_step) (auto simp: before_ok_def)
    with tap have "tap_fresh t" "batches = []" by simp_all
    with tap.prems show ?thesis by (simp add: before_ok_def)
  qed (use tap.prems in \<open>simp add: before_ok_def\<close>)
next
  case (gate r g outs)
  show ?case
  proof (cases "wr_phase r \<in> {Starting, Started, Announced}")
    case True
    with gate have "gate_fresh g \<and> gt_out g = gt_out (wr_gate r)" by (intro gate_fresh_step) (auto simp: before_ok_def)
    with gate have "gate_fresh g" "outs = []" by simp_all
    with gate.prems show ?thesis by (simp add: before_ok_def hand_over_def)
  qed (use gate.prems in \<open>simp add: before_ok_def hand_over_def\<close>)
next
  case (delivery r d)
  then show ?case using delivery_own_step [of "wr_delivery r" d] by (auto simp: before_ok_def)
qed (auto simp: before_ok_def report_def)

lemma emit_all_silent: "gate_silent g \<Longrightarrow> foldl (\<lambda>g es. emit_begin es g) g batches = g"
  by (induction batches) (simp_all add: emit_begin_silent)

lemma order_announce:
  assumes "wr_phase r = Started" and "before_ok r" and "order_ok obs command r"
  shows "order_ok obs command (announce obs command r)"
  using assms by (auto simp: order_ok_def before_ok_def announce_def emit_events_def offer_batch_def)

lemma order_report:
  assumes "wr_phase r = Gate_stopped" and "order_ok obs command r"
  shows "order_ok obs command (report obs command stopped res r)"
proof -
  let ?es = "lifecycle_stopped obs command (wr_started_at r) stopped res"
  obtain ys where ys: "dl_accepted (emit_final ?es (wr_delivery r)) = dl_accepted (wr_delivery r) @ ys"
      "ys = [] \<or> ys = [(valid_events ?es, True)]"
    using emit_final_grows by blast
  have "list_all (\<lambda>b. \<not> snd b) (dl_accepted (wr_delivery r))" using assms by (simp add: order_ok_def)
  with assms ys show ?thesis by (auto simp: order_ok_def report_def)
qed

lemma order_grows:
  assumes "order_ok obs command r" and "dl_accepted d = dl_accepted (wr_delivery r) @ xs" and "list_all (\<lambda>b. \<not> snd b) xs"
    and "wr_phase r \<in> {Starting, Started} \<longrightarrow> xs = []" and "wr_quiet r \<longrightarrow> gate_silent g \<and> xs = []"
  shows "order_ok obs command (r\<lparr>wr_gate := g, wr_delivery := d\<rparr>)"
  using assms by (auto simp: order_ok_def)

lemma order_step: "run_step obs command r r' \<Longrightarrow> before_ok r \<Longrightarrow> order_ok obs command r \<Longrightarrow> order_ok obs command r'"
proof (induction rule: run_step.induct)
  case (announce r)
  then show ?case by (intro order_announce)
next
  case (report r stopped sig failed st)
  then show ?case by (intro order_report)
next
  case (tap r t chunks batches)
  then show ?case by (auto simp: order_ok_def emit_all_silent)
next
  case (observe r es)
  then show ?case by (auto simp: order_ok_def emit_begin_silent)
next
  case (gate r g outs)
  obtain xs where xs: "dl_accepted (foldl (\<lambda>d es. emit_events es d) (wr_delivery r) outs) = dl_accepted (wr_delivery r) @ xs"
      "list_all (\<lambda>b. \<not> snd b) xs"
    using delivery_sink.emits_grow [of "wr_delivery r" outs] by (auto simp: list_all_iff)
  have "outs = []" if "wr_phase r \<in> {Starting, Started}"
    using gate_fresh_step [OF gate(1)] gate(2-5) that by (auto simp: before_ok_def)
  moreover have "gate_silent g \<and> outs = []" if "wr_quiet r"
    using gate_silent_step [OF gate(1)] gate(4,6) that by (auto simp: order_ok_def)
  ultimately show ?case using gate.prems(2) xs unfolding hand_over_def by (intro order_grows [OF _ xs]) auto
next
  case (delivery r d)
  then show ?case by (auto simp: order_ok_def)
qed (auto simp: order_ok_def gate_silent_def)

lemma run_reachable_ok:
  assumes "run_reachable obs command c collector r" and "0 < rc_delivery_queue c"
  shows "before_ok r \<and> order_ok obs command r"
  using assms(1)
proof (induction rule: run_reachable.induct)
  case (init clock)
  show ?case using assms(2)
    by (simp add: before_ok_def order_ok_def new_run_def gate_fresh_def tap_fresh_def new_gate_def new_stream_tap_def new_dispatcher_def)
qed (use before_step order_step in blast)

text \<open>C36: A run whose opening events pass the protocol is told in order: they are the first batch the delivery accepts, whatever the command,
  the parser and the observer do, and when the evidence gate was emptied in time, the closing events are the last batch it
  accepts, if they enter its queue at all.  A session identifier that is too long leaves nothing to open the run with
  (\<open>long_session_id_is_never_started\<close>), and closing events that find the queue full are sent aside.\<close>

theorem run_told_in_order:
  assumes "run_reachable obs command c collector r" and "0 < rc_delivery_queue c" and "wr_phase r \<noteq> Start_failed"
    and "announced obs command r \<noteq> []" and "dl_accepted (wr_delivery r) \<noteq> []"
  shows "hd (dl_accepted (wr_delivery r)) = (announced obs command r, False) \<and>
    (wr_quiet r \<longrightarrow> (\<forall>b \<in> set (dl_accepted (wr_delivery r)). snd b \<longrightarrow>
       b = (reported obs command r, True) \<and> last (dl_accepted (wr_delivery r)) = b))"
proof
  have ok: "before_ok r" "order_ok obs command r" using run_reachable_ok [OF assms(1,2)] by simp_all
  with assms(3-5) show "hd (dl_accepted (wr_delivery r)) = (announced obs command r, False)"
    by (auto simp: before_ok_def order_ok_def)
  show "wr_quiet r \<longrightarrow> (\<forall>b \<in> set (dl_accepted (wr_delivery r)). snd b \<longrightarrow>
       b = (reported obs command r, True) \<and> last (dl_accepted (wr_delivery r)) = b)"
  proof (intro impI ballI)
    fix b assume b: "wr_quiet r" "b \<in> set (dl_accepted (wr_delivery r))" "snd b"
    with ok obtain xs ys where "dl_accepted (wr_delivery r) = xs @ ys" "list_all (\<lambda>b. \<not> snd b) xs"
        "ys = [] \<or> ys = [(reported obs command r, True)]"
      by (auto simp: order_ok_def)
    with b show "b = (reported obs command r, True) \<and> last (dl_accepted (wr_delivery r)) = b" by (auto simp: list_all_iff)
  qed
qed

section \<open>Example\<close>

definition small_config :: run_config where
  "small_config = \<lparr>rc_command = ''go'', rc_dir = ''/p'', rc_project_root = ''/p'', rc_session_id = ''run'', rc_agent_type = ''generic'',
     rc_delivery_queue = 1, rc_send_deadline = 5, rc_parser_queue = 1, rc_parser_drain = 5, rc_fallback_drain = 5,
     rc_evidence_queue = 1, rc_evidence_window = 10\<rparr>"

abbreviation first_events :: "event list" where "first_events \<equiv> lifecycle_started demo_observation ''go'' 5"
abbreviation last_events :: "event list" where "last_events \<equiv> lifecycle_stopped demo_observation ''go'' 5 9 signaled_result"

lemma demo_events_pass: "valid_events first_events = first_events" "valid_events last_events = last_events"
    "first_events \<noteq> []" "last_events \<noteq> []"
proof -
  have v: "list_all (\<lambda>e. validate e = None) first_events" "list_all (\<lambda>e. validate e = None) last_events"
    by (rule lifecycle_started_valid lifecycle_stopped_valid, simp_all add: demo_run_ok)+
  show n: "first_events \<noteq> []" "last_events \<noteq> []" by (simp_all add: lifecycle_started_def lifecycle_stopped_def Let_def)
  have "length first_events \<le> 2" "length last_events \<le> 2" by (simp_all add: lifecycle_started_def lifecycle_stopped_def Let_def)
  with v show "valid_events first_events = first_events" "valid_events last_events = last_events"
    by (simp_all add: valid_events_def default_max_events_def filter_id_conv list_all_iff)
qed

text \<open>A command that ends before the delivery has taken the first batch from its queue of one place.\<close>

definition reporting_run :: wrapper_run where
  "reporting_run = (new_run small_config True 0)
     \<lparr>wr_phase := Reported, wr_started_at := 5, wr_stopped_at := 9, wr_result := Some signaled_result, wr_tap := finish_tap (new_stream_tap 1),
      wr_gate := (new_gate 1 10 0)\<lparr>gt_stopped := True\<rparr>,
      wr_delivery := (new_dispatcher True 1)\<lparr>dl_queue := [(first_events, False)], dl_aside := [last_events], dl_accepted := [(first_events, False)]\<rparr>\<rparr>"

lemma reporting_run_reachable: "run_reachable demo_observation ''go'' small_config True reporting_run"
proof -
  let ?reach = "run_reachable demo_observation ''go'' small_config True"
  note next_step = run_reachable.step
  let ?r0 = "new_run small_config True 0"
  have "?reach (?r0\<lparr>wr_phase := Started, wr_started_at := 5\<rparr>)"
    by (rule next_step [OF run_reachable.init run_step.start]) (simp add: new_run_def)
  from next_step [OF this run_step.announce]
  have "?reach (announce demo_observation ''go'' (?r0\<lparr>wr_phase := Started, wr_started_at := 5\<rparr>))" by simp
  from next_step [OF this run_step.watch] obtain r1 where
    "?reach r1" and r1: "r1 = (announce demo_observation ''go'' (?r0\<lparr>wr_phase := Started, wr_started_at := 5\<rparr>))
       \<lparr>wr_phase := Watching, wr_tap := (wr_tap ?r0)\<lparr>tp_started := True\<rparr>\<rparr>"
    by (auto simp: announce_def)
  from next_step [OF this(1) run_step.exit] r1 obtain r2 where "?reach r2" and r2: "r2 = r1\<lparr>wr_phase := Exited_child\<rparr>"
    by (auto simp: announce_def new_run_def new_stream_tap_def writer_idle_def)
  from next_step [OF this(1) run_step.tap_end] r1 r2 obtain r3 where
    "?reach r3" and r3: "r3 = r2\<lparr>wr_phase := Tap_finished, wr_tap := finish_tap (wr_tap r2)\<rparr>" by auto
  from next_step [OF this(1) run_step.gate_end] r3 obtain r4 where
    "?reach r4" and r4: "r4 = r3\<lparr>wr_phase := Gate_stopped, wr_gate := (wr_gate r3)\<lparr>gt_stopped := True\<rparr>\<rparr>" by auto
  from next_step [OF this(1) run_step.report [where stopped = 9 and signal_name = "\<lambda>_. ''killed''" and wait_failed = True and st = "Killed_by 9"]] r4
  have "?reach (report demo_observation ''go'' 9 signaled_result r4)" by (simp add: signaled_result_def)
  moreover have "report demo_observation ''go'' 9 signaled_result r4 = reporting_run"
    unfolding r4 r3 r2 r1
    by (simp add: reporting_run_def report_def announce_def new_run_def small_config_def emit_events_def emit_final_def offer_batch_def Let_def
        demo_events_pass gate_silent_def new_dispatcher_def new_gate_def finish_tap_def)
  ultimately show ?thesis by simp
qed

text \<open>Then the goroutine of \<^verbatim>\<open>emitFinal\<close> may send the last events before the worker sends the first ones.  The collector refuses
  the end of a session it does not know, opens the session afterwards, and never sees it end.\<close>

theorem last_events_overtake_first:
  "\<exists>r s. run_reachable demo_observation ''go'' small_config True r \<and> dl_sent (wr_delivery r) = [last_events, first_events] \<and>
     sessions (engine_feed (new_engine 60) (concat (dl_sent (wr_delivery r)))) ''run'' = Some s \<and> st_stopped_at s = None"
proof -
  let ?d = "wr_delivery reporting_run"
  let ?d1 = "aside_send last_events ?d"
  let ?d2 = "dispatch_receive ?d1"
  let ?d3 = "dispatch_send (first_events, False) ?d2"
  let ?reach = "run_reachable demo_observation ''go'' small_config True"
  note deliver = run_reachable.step [OF _ run_step.delivery]
  have 1: "?reach (reporting_run\<lparr>wr_delivery := ?d1\<rparr>)"
    by (rule deliver [OF reporting_run_reachable delivery_step.aside])
      (simp_all add: reporting_run_def aside_send_def send_events_def new_dispatcher_def)
  have 2: "?reach (reporting_run\<lparr>wr_delivery := ?d2\<rparr>)"
    using deliver [OF 1, of ?d2] delivery_step.receive [of ?d1]
    by (simp add: reporting_run_def aside_send_def dispatch_receive_def send_events_def new_dispatcher_def)
  have 3: "?reach (reporting_run\<lparr>wr_delivery := ?d3\<rparr>)"
    using deliver [OF 2, of ?d3] delivery_step.send [of ?d2 "(first_events, False)"]
    by (simp add: reporting_run_def aside_send_def dispatch_receive_def dispatch_send_def send_events_def new_dispatcher_def)
  have sent: "dl_sent ?d3 = [last_events, first_events]"
    by (simp add: reporting_run_def aside_send_def dispatch_receive_def dispatch_send_def send_events_def new_dispatcher_def demo_events_pass)
  have "sessions (engine_feed (new_engine 60) (last_events @ first_events)) ''run'' =
      Some (zero_state\<lparr>st_session_id := ''run'', st_started_at := 5, st_current_timestamp := 5\<rparr>)"
    by (simp add: engine_feed_def lifecycle_started_def lifecycle_stopped_def Let_def engine_apply_def put_session_def wrapper_base_event_def
        zero_event_def start_session_def apply_command_event new_engine_def demo_observation_def)
  with 3 sent show ?thesis
    by (intro exI [of _ "reporting_run\<lparr>wr_delivery := ?d3\<rparr>"]) (simp add: zero_state_def)
qed

theorem run_told_in_order_witness: "hd (dl_accepted (wr_delivery reporting_run)) = (first_events, False)"
  using run_told_in_order [OF reporting_run_reachable]
  by (simp add: reporting_run_def new_run_def small_config_def demo_events_pass)

end
