(* ===== verification/Ipc.thy ===== *)
theory Ipc
  imports Codex_Props Ingest_Collector Store
begin

text \<open>
  The local transport between adapters and the collector, \<^verbatim>\<open>internal/ipc/transport.go\<close>: the frame (a length in four bytes and a JSON
  document), the client that sends a batch and waits for the acknowledgement, the handler of one connection and the server with its
  connections.  The JSON encoder and decoder and the results of the system's writes are parameters; a deadline shows as a write that fails or
  as bytes that do not arrive.
\<close>

unbundle bit_operations_syntax

definition max_payload_bytes :: nat where "max_payload_bytes = 262144"
definition max_batch_events :: nat where "max_batch_events = 128"
definition max_connections :: nat where "max_connections = 32"
definition ack :: string where "ack = [CHR 0x06]"

section \<open>Frames\<close>

definition put_uint32 :: "32 word \<Rightarrow> string" where
  "put_uint32 w = map (\<lambda>k. char_of (unat (drop_bit k w))) [24, 16, 8, 0]"

fun get_uint32 :: "string \<Rightarrow> 32 word" where
  "get_uint32 [a, b, c, d] = of_char d OR push_bit 8 (of_char c) OR push_bit 16 (of_char b) OR push_bit 24 (of_char a)"
| "get_uint32 bs = 0"

lemma of_char_char_of_word: "of_char (char_of (unat x)) = take_bit 8 x" for x :: "32 word"
proof -
  have "(of_char (char_of (unat x)) :: 32 word) = of_nat (of_char (char_of (unat x)))" by (simp only: of_nat_of_char)
  also have "\<dots> = of_nat (take_bit 8 (unat x))" by (simp add: take_bit_eq_mod)
  also have "\<dots> = take_bit 8 x" by (simp flip: take_bit_of_nat)
  finally show ?thesis .
qed

lemma get_put_uint32 [simp]: "get_uint32 (put_uint32 w) = w"
proof (rule bit_word_eqI)
  fix n assume "n < LENGTH(32)"
  then have "n - 24 < 8" by simp
  then show "bit (get_uint32 (put_uint32 w)) n = bit w n"
    by (cases "n < 8"; cases "n < 16"; cases "n < 24") (auto simp: put_uint32_def of_char_char_of_word bit_simps)
qed

lemma length_put_uint32 [simp]: "length (put_uint32 w) = 4"
  by (simp add: put_uint32_def)

section \<open>The client\<close>

datatype write_error = Write_failed | Short_write

text \<open>\<^verbatim>\<open>writeAll\<close>: each call of \<^verbatim>\<open>Write\<close> takes the next of the given results, the number of bytes written (at most those it was given)
  and whether it failed; when they are used up the connection is dead.  The result has the bytes that went out and the results left over.\<close>

fun write_bytes :: "(nat \<times> bool) list \<Rightarrow> string \<Rightarrow> string \<times> write_error option \<times> (nat \<times> bool) list" where
  "write_bytes results [] = ([], None, results)"
| "write_bytes [] payload = ([], Some Write_failed, [])"
| "write_bytes ((written, failed) # results) payload =
     (if failed then (take written payload, Some Write_failed, results)
      else if written = 0 then ([], Some Short_write, results)
      else (case write_bytes results (drop written payload) of (out, err, left) \<Rightarrow> (take written payload @ out, err, left)))"

datatype send_error =
    Invalid_batch_size | Refused_event verror | Not_encodable | Payload_too_large | No_collector | Not_written write_error | No_response | Rejected

definition frame :: "string \<Rightarrow> string" where
  "frame payload = put_uint32 (of_nat (length payload)) @ payload"

text \<open>\<^verbatim>\<open>Client.Send\<close>.  \<open>dial\<close> tells whether the connection was made, \<open>peer\<close> what comes back for the bytes that went out.  The second part of the
  result is what went out.\<close>

definition client_send :: "(event list \<Rightarrow> string option) \<Rightarrow> bool \<Rightarrow> (nat \<times> bool) list \<Rightarrow> (string \<Rightarrow> string) \<Rightarrow> event list \<Rightarrow>
    send_error option \<times> string" where
  "client_send marshal dial results peer events =
     (if events = [] \<or> max_batch_events < length events then (Some Invalid_batch_size, [])
      else case first_error (map validate events) of
        Some err \<Rightarrow> (Some (Refused_event err), [])
      | None \<Rightarrow>
          (case marshal events of
             None \<Rightarrow> (Some Not_encodable, [])
           | Some payload \<Rightarrow>
               if max_payload_bytes < length payload then (Some Payload_too_large, [])
               else if \<not> dial then (Some No_collector, [])
               else (case write_bytes results (put_uint32 (of_nat (length payload))) of
                   (out, Some err, left) \<Rightarrow> (Some (Not_written err), out)
                 | (out, None, left) \<Rightarrow>
                     (case write_bytes left payload of
                        (out', Some err, _) \<Rightarrow> (Some (Not_written err), out @ out')
                      | (out', None, _) \<Rightarrow>
                          (case peer (out @ out') of
                             [] \<Rightarrow> (Some No_response, out @ out')
                           | r # _ \<Rightarrow> (if [r] \<noteq> ack then Some Rejected else None, out @ out'))))))"

section \<open>The handler of a connection\<close>

text \<open>\<^verbatim>\<open>Server.handle\<close> up to the first submission: the events to submit for the bytes that arrived before the connection was closed or the
  deadline passed.  \<open>unmarshal\<close> gives the version and the events of a document.\<close>

definition incoming_batch :: "(string \<Rightarrow> (string \<times> event list) option) \<Rightarrow> string \<Rightarrow> event list option" where
  "incoming_batch unmarshal input =
     (if length input < 4 then None
      else let size = get_uint32 (take 4 input); payload = take (unat size) (drop 4 input) in
        if size = 0 \<or> of_nat max_payload_bytes < size then None
        else if length payload < unat size then None
        else (case unmarshal payload of
            None \<Rightarrow> None
          | Some (version, events) \<Rightarrow>
              if version \<noteq> ''1'' \<or> events = [] \<or> max_batch_events < length events then None
              else if \<exists>e \<in> set events. validate e \<noteq> None then None
              else Some events))"

text \<open>The whole handler, with the state \<open>submit\<close> works on and the bytes written back.\<close>

definition handle_connection :: "(string \<Rightarrow> (string \<times> event list) option) \<Rightarrow> ('s \<Rightarrow> event \<Rightarrow> 's) option \<Rightarrow> string \<Rightarrow> 's \<Rightarrow> 's \<times> string" where
  "handle_connection unmarshal submit input s =
     (case incoming_batch unmarshal input of
        None \<Rightarrow> (s, [])
      | Some events \<Rightarrow> ((case submit of None \<Rightarrow> s | Some f \<Rightarrow> foldl f s events), ack))"

section \<open>All or nothing\<close>

lemma write_bytes_prefix:
  "write_bytes results payload = (out, err, left) \<Longrightarrow> prefix out payload \<and> (err = None \<longrightarrow> out = payload)"
proof (induction results payload arbitrary: out err left rule: write_bytes.induct)
  case (3 written failed results b bs)
  show ?case
  proof (cases "failed \<or> written = 0")
    case True
    with 3(2) show ?thesis by (cases failed) (auto simp: take_is_prefix)
  next
    case False
    then obtain out' where r: "write_bytes results (drop written (b # bs)) = (out', err, left)" and o: "out = take written (b # bs) @ out'"
      using 3(2) by (auto split: prod.splits)
    from 3(1) [OF _ _ r] False have "prefix out' (drop written (b # bs))" "err = None \<longrightarrow> out' = drop written (b # bs)" by auto
    then show ?thesis unfolding o by (metis append_take_drop_id same_prefix_prefix)
  qed
qed auto

lemma frame_size:
  assumes "length payload \<le> max_payload_bytes"
  shows "unat (of_nat (length payload) :: 32 word) = length payload"
  using assms by (simp add: max_payload_bytes_def unat_of_nat take_bit_eq_mod)

lemma incoming_frame:
  assumes "length payload \<le> max_payload_bytes" and "payload \<noteq> []"
  shows "incoming_batch unmarshal (frame payload) = (case unmarshal payload of
      None \<Rightarrow> None
    | Some (version, events) \<Rightarrow>
        if version \<noteq> ''1'' \<or> events = [] \<or> max_batch_events < length events then None
        else if \<exists>e \<in> set events. validate e \<noteq> None then None else Some events)"
proof -
  have "(of_nat (length payload) :: 32 word) \<noteq> 0" using frame_size [OF assms(1)] assms(2) by fastforce
  moreover have "\<not> (of_nat max_payload_bytes :: 32 word) < of_nat (length payload)"
    using frame_size [OF assms(1)] assms(1) by (simp add: word_less_nat_alt max_payload_bytes_def)
  ultimately show ?thesis using frame_size [OF assms(1)]
    by (simp add: incoming_batch_def frame_def Let_def split: option.splits prod.splits)
qed

lemma incoming_empty_frame: "incoming_batch unmarshal (frame []) = None"
  by (simp add: incoming_batch_def frame_def)

lemma incoming_cut:
  assumes "length payload \<le> max_payload_bytes" and "strict_prefix input (frame payload)"
  shows "incoming_batch unmarshal input = None"
proof (cases "length input < 4")
  case False
  obtain rest where f: "frame payload = input @ rest" "rest \<noteq> []" using assms(2) by (auto simp: strict_prefix_def prefix_def)
  then have "take 4 (input @ rest) = put_uint32 (of_nat (length payload))" by (simp flip: f add: frame_def)
  with False have "take 4 input = put_uint32 (of_nat (length payload))" by simp
  moreover have "length input < 4 + length payload" using arg_cong [OF f(1), of length] f(2) by (simp add: frame_def)
  ultimately show ?thesis using frame_size [OF assms(1)] False by (auto simp: incoming_batch_def Let_def)
qed (simp add: incoming_batch_def)

text \<open>What a codec that behaves as \<^verbatim>\<open>encoding/json\<close> gives for a batch: every event as it is read back from its JSON text, its numbers
  as floats.\<close>

definition json_batch :: "event list \<Rightarrow> event list option" where
  "json_batch events = (if None \<in> set (map marshal_event events) then None else Some (map (the \<circ> marshal_event) events))"

definition without_metadata :: "event \<Rightarrow> event" where
  "without_metadata e = e\<lparr>ev_metadata := []\<rparr>"

lemma json_batch_same:
  assumes "json_batch events = Some decoded"
  shows "map without_metadata decoded = map without_metadata events"
proof -
  have "without_metadata d = without_metadata e" if "marshal_event e = Some d" for e d
    using that by (auto simp: marshal_event_def without_metadata_def split: if_splits)
  then have "without_metadata (the (marshal_event e)) = without_metadata e" if "marshal_event e \<noteq> None" for e
    using that by fastforce
  with assms show ?thesis by (force simp: json_batch_def split: if_splits)
qed

lemma json_batch_types:
  assumes "json_batch events = Some decoded"
  shows "map event_type decoded = map event_type events"
proof -
  have "event_type (without_metadata e) = event_type e" for e by (simp add: without_metadata_def)
  then show ?thesis using arg_cong [OF json_batch_same [OF assms], of "map event_type"] by (simp add: comp_def)
qed

lemma sent_frame:
  assumes "client_send marshal dial results peer events = (err, out)" and "out \<noteq> []"
  shows "\<exists>payload. events \<noteq> [] \<and> length events \<le> max_batch_events \<and> marshal events = Some payload \<and>
    length payload \<le> max_payload_bytes \<and> prefix out (frame payload)"
  using assms by (cases "marshal events")
    (auto simp: client_send_def frame_def split: if_splits option.splits prod.splits list.splits dest!: write_bytes_prefix)

lemma whole_batch:
  assumes "\<And>payload. marshal events = Some payload \<Longrightarrow> unmarshal payload = Some (''1'', decoded)"
    and "\<And>input. prefix (peer input) (snd (handle_connection unmarshal (Some submit) input s))"
    and "client_send marshal dial results peer events = (err, out)"
  shows "fst (handle_connection unmarshal (Some submit) out s) \<in> {s, foldl submit s decoded}"
    and "err = None \<Longrightarrow> fst (handle_connection unmarshal (Some submit) out s) = foldl submit s decoded \<and> marshal events \<noteq> None"
proof -
  have whole: "incoming_batch unmarshal out = None \<or> incoming_batch unmarshal out = Some decoded"
  proof (cases "out = []")
    case False
    then obtain payload where m: "marshal events = Some payload" "length payload \<le> max_payload_bytes" "prefix out (frame payload)"
      using sent_frame [OF assms(3)] by blast
    show ?thesis
    proof (cases "out = frame payload")
      case True
      with m assms(1) show ?thesis
        by (cases "payload = []") (auto simp: incoming_frame incoming_empty_frame)
    next
      case False
      with m show ?thesis using incoming_cut [of payload out unmarshal] by (simp add: strict_prefix_def)
    qed
  qed (simp add: incoming_batch_def)
  then show "fst (handle_connection unmarshal (Some submit) out s) \<in> {s, foldl submit s decoded}"
    by (auto simp: handle_connection_def)
  assume ok: "err = None"
  have "incoming_batch unmarshal out \<noteq> None"
  proof
    assume "incoming_batch unmarshal out = None"
    then have "peer out = []" using assms(2) [of out] by (simp add: handle_connection_def)
    with ok assms(3) show False
      by (auto simp: client_send_def split: if_splits option.splits prod.splits list.splits)
  qed
  moreover have "marshal events \<noteq> None"
    using ok assms(3) by (auto simp: client_send_def split: if_splits option.splits)
  ultimately show "fst (handle_connection unmarshal (Some submit) out s) = foldl submit s decoded \<and> marshal events \<noteq> None"
    using whole by (auto simp: handle_connection_def)
qed

lemma intact_batch:
  assumes "unmarshal payload = Some (''1'', decoded)" and "length payload \<le> max_payload_bytes" and "payload \<noteq> []"
    and "decoded \<noteq> []" and "length decoded \<le> max_batch_events" and "\<forall>e \<in> set decoded. validate e = None"
  shows "handle_connection unmarshal (Some submit) (frame payload) s = (foldl submit s decoded, ack)"
  using assms by (auto simp: handle_connection_def incoming_frame)

text \<open>C37: A batch is submitted whole or not at all, whatever the writes do and wherever the response is cut; when \<^verbatim>\<open>Send\<close> reports success
  the whole batch has been submitted, in order; and a frame that went out whole is submitted and acknowledged when the events are still
  valid as decoded.  What is submitted is each event as its JSON text is read back: the same in everything but the metadata, whose numbers
  have become floats.  The codec is assumed to do just this with the batch.  Submitted means offered: what the queue does with an event, a
  refusal included, changes neither the acknowledgement nor the success of \<^verbatim>\<open>Send\<close>.\<close>

theorem batch_submitted_whole:
  assumes "\<And>payload. marshal events = Some payload \<Longrightarrow> payload \<noteq> [] \<and> json_batch events = Some decoded \<and> unmarshal payload = Some (''1'', decoded)"
    and "\<And>input. prefix (peer input) (snd (handle_connection unmarshal (Some submit) input s))"
    and "client_send marshal dial results peer events = (err, out)"
  shows "fst (handle_connection unmarshal (Some submit) out s) \<in> {s, foldl submit s decoded} \<and>
    (err = None \<longrightarrow> fst (handle_connection unmarshal (Some submit) out s) = foldl submit s decoded \<and>
      map without_metadata decoded = map without_metadata events) \<and>
    (\<forall>payload. marshal events = Some payload \<and> out = frame payload \<and> (\<forall>e \<in> set decoded. validate e = None) \<longrightarrow>
      handle_connection unmarshal (Some submit) out s = (foldl submit s decoded, ack))"
proof (intro conjI allI impI; (elim conjE)?)
  have codec: "\<And>payload. marshal events = Some payload \<Longrightarrow> unmarshal payload = Some (''1'', decoded)" using assms(1) by blast
  show "fst (handle_connection unmarshal (Some submit) out s) \<in> {s, foldl submit s decoded}"
    by (rule whole_batch(1) [OF codec assms(2,3)])
  show "fst (handle_connection unmarshal (Some submit) out s) = foldl submit s decoded"
    "map without_metadata decoded = map without_metadata events" if "err = None"
    using whole_batch(2) [OF codec assms(2,3) that] assms(1) json_batch_same by blast+
  show "handle_connection unmarshal (Some submit) out s = (foldl submit s decoded, ack)"
    if m: "marshal events = Some payload" "out = frame payload" and v: "\<forall>e \<in> set decoded. validate e = None" for payload
  proof -
    have "length out = 4 + length payload" using m(2) by (simp add: frame_def)
    then have "out \<noteq> []" by auto
    then have b: "events \<noteq> []" "length events \<le> max_batch_events" "length payload \<le> max_payload_bytes"
      using sent_frame [OF assms(3)] m(1) by auto
    have "length decoded = length events" using json_batch_same assms(1) [OF m(1)] map_eq_imp_length_eq by blast
    with b have "decoded \<noteq> []" "length decoded \<le> max_batch_events" by auto
    then show ?thesis
      unfolding m(2) using intact_batch [of unmarshal payload decoded] assms(1) [OF m(1)] b(3) v by simp
  qed
qed

section \<open>What connections can do\<close>

text \<open>The contract between the server and what it submits to: an invariant that every valid event keeps.\<close>

locale submit_target =
  fixes submit :: "'s \<Rightarrow> event \<Rightarrow> 's" and good :: "'s \<Rightarrow> bool"
  assumes submit_good: "good s \<Longrightarrow> validate e = None \<Longrightarrow> good (submit s e)"
begin

lemma batch_good: "good s \<Longrightarrow> list_all (\<lambda>e. validate e = None) es \<Longrightarrow> good (foldl submit s es)"
  by (induction es arbitrary: s) (simp_all add: submit_good)

lemma connection_good: "good s \<Longrightarrow> good (fst (handle_connection unmarshal (Some submit) input s))"
  by (auto simp: handle_connection_def incoming_batch_def Let_def list_all_iff intro!: batch_good split: option.splits if_splits)

lemma connections_good: "good s \<Longrightarrow> good (foldl (\<lambda>s input. fst (handle_connection unmarshal (Some submit) input s)) s inputs)"
  by (induction inputs arbitrary: s) (simp_all add: connection_good)

end

text \<open>\<^verbatim>\<open>Collector.Submit\<close> is what the application gives to the server.\<close>

definition collector_submit :: "collector \<Rightarrow> event \<Rightarrow> collector" where
  "collector_submit c e = (let d = submit_offer c e in if c_signals c < c_signals d then submit_signal d else d)"

definition holds_valid :: "collector \<Rightarrow> bool" where
  "holds_valid c \<longleftrightarrow> list_all (\<lambda>e. validate e = None) (q_items (c_queue c) @ c_handled c)"

lemma offer_items: "set (q_items (fst (offer q e))) \<subseteq> insert e (set (q_items q))"
  by (cases rule: offer_cases [where q = q and e = e])
    (auto simp: count_coalesced_def count_dropped_def count_accepted_def push_back_def dest: set_update_subset_insert [THEN subsetD])

lemma collector_submit_reachable:
  assumes "collector_reachable capacity c"
  shows "collector_reachable capacity (collector_submit c e)"
proof -
  have r: "collector_reachable capacity (submit_offer c e)"
    by (rule collector_reachable.step [OF assms collector_step.offer])
  show ?thesis
  proof (cases "c_signals c < c_signals (submit_offer c e)")
    case True
    with r show ?thesis
      by (auto simp: collector_submit_def Let_def intro!: collector_reachable.step [OF r] collector_step.signal)
  qed (simp add: collector_submit_def Let_def r)
qed

lemma collector_submit_valid:
  assumes "holds_valid c" and "validate e = None"
  shows "holds_valid (collector_submit c e)"
  using assms offer_items [of "c_queue c" e]
  by (auto simp: holds_valid_def collector_submit_def submit_offer_def submit_signal_def Let_def list_all_iff split: prod.splits)

interpretation collector_target: submit_target collector_submit "\<lambda>c. collector_reachable capacity c \<and> holds_valid c"
  by unfold_locales (simp add: collector_submit_reachable collector_submit_valid)

lemma drain_round_capacity: "q_capacity (c_queue (drain_round after c)) = q_capacity (c_queue c)"
  using pop_step [of "c_queue c"] by (auto simp: drain_round_def)

lemma loop_step_capacity: "loop_step c c' \<Longrightarrow> q_capacity (c_queue c') = q_capacity (c_queue c)"
  by (induction rule: loop_step.induct) (simp_all add: drain_round_capacity)

lemma collector_step_capacity: "collector_step c c' \<Longrightarrow> q_capacity (c_queue c') = q_capacity (c_queue c)"
proof (induction rule: collector_step.induct)
  case (offer c e)
  have "c_queue (submit_offer c e) = fst (offer (c_queue c) e)" by (simp add: submit_offer_def split: prod.splits)
  then show ?case by simp
qed (simp_all add: loop_step_capacity submit_signal_def request_stop_def)

lemma reachable_capacity: "collector_reachable capacity c \<Longrightarrow> q_capacity (c_queue c) = max 1 capacity"
  by (induction rule: collector_reachable.induct) (auto simp: new_collector_def new_queue_def collector_step_capacity)

text \<open>C38: Whatever bytes arrive on any number of connections, the collector stays in a state it can reach by itself, with at most its capacity
  of events queued, all of them valid.\<close>

theorem connections_keep_collector:
  assumes "collector_reachable capacity c" and "holds_valid c"
  shows "let d = foldl (\<lambda>c input. fst (handle_connection unmarshal (Some collector_submit) input c)) c inputs in
    collector_reachable capacity d \<and> holds_valid d \<and> int (length (q_items (c_queue d))) \<le> max 1 capacity"
proof -
  let ?d = "foldl (\<lambda>c input. fst (handle_connection unmarshal (Some collector_submit) input c)) c inputs"
  have "collector_reachable capacity ?d \<and> holds_valid ?d"
    using collector_target.connections_good [of capacity c unmarshal inputs] assms by blast
  with reachable_wakeable [of capacity ?d] reachable_capacity [of capacity ?d] show ?thesis by (simp add: Let_def wakeable_def queue_ok_def)
qed

section \<open>From the client to the handler of the collector\<close>

lemma submit_fits:
  assumes "int (length (q_items (c_queue c))) < q_capacity (c_queue c)" and "\<not> is_coalescible (event_type e)"
  shows "q_items (c_queue (collector_submit c e)) = q_items (c_queue c) @ [e]" "c_wake (collector_submit c e)"
    "q_capacity (c_queue (collector_submit c e)) = q_capacity (c_queue c)" "c_phase (collector_submit c e) = c_phase c"
    "c_handled (collector_submit c e) = c_handled c"
proof -
  have "offer (c_queue c) e = (push_back (c_queue c) e, True)" using assms by (simp add: offer_def)
  then show "q_items (c_queue (collector_submit c e)) = q_items (c_queue c) @ [e]" "c_wake (collector_submit c e)"
    "q_capacity (c_queue (collector_submit c e)) = q_capacity (c_queue c)" "c_phase (collector_submit c e) = c_phase c"
    "c_handled (collector_submit c e) = c_handled c"
    by (simp_all add: collector_submit_def submit_offer_def submit_signal_def Let_def)
qed

lemma submit_all_fits:
  assumes "int (length (q_items (c_queue c)) + length es) \<le> q_capacity (c_queue c)" and "\<forall>e \<in> set es. \<not> is_coalescible (event_type e)"
  shows "q_items (c_queue (foldl collector_submit c es)) = q_items (c_queue c) @ es \<and> c_phase (foldl collector_submit c es) = c_phase c \<and>
    c_handled (foldl collector_submit c es) = c_handled c \<and> (es \<noteq> [] \<longrightarrow> c_wake (foldl collector_submit c es))"
  using assms
proof (induction es arbitrary: c)
  case (Cons e es)
  then have "int (length (q_items (c_queue c))) < q_capacity (c_queue c)" "\<not> is_coalescible (event_type e)" by auto
  note one = submit_fits [OF this]
  with Cons show ?case by (cases "es = []") (simp_all add: algebra_simps)
qed simp

text \<open>Nothing waits without a wake-up, and nothing is left behind by a loop that returned.\<close>

definition attended :: "collector \<Rightarrow> bool" where
  "attended c \<longleftrightarrow> (c_phase c = Selecting \<and> q_items (c_queue c) \<noteq> [] \<longrightarrow> c_wake c) \<and>
     (c_phase c = Returned \<longrightarrow> q_items (c_queue c) = [])"

lemma loop_step_attended: "loop_step c c' \<Longrightarrow> attended c \<Longrightarrow> attended c'"
proof (induction rule: loop_step.induct)
  case (drain c)
  then show ?case
    by (cases "q_items (c_queue c)") (simp_all add: attended_def drain_round_empty drain_round_event)
next
  case (final c)
  then show ?case
    by (cases "q_items (c_queue c)") (simp_all add: attended_def drain_round_empty drain_round_event)
qed (simp_all add: attended_def)

lemma attended_stuck:
  assumes "attended c" and "\<And>d. \<not> loop_step c d"
  shows "q_items (c_queue c) = []"
proof (cases "c_phase c")
  case Draining
  then show ?thesis using assms(2) loop_step.drain by blast
next
  case Selecting
  then show ?thesis using assms loop_step.wake by (auto simp: attended_def)
next
  case Final_drain
  then show ?thesis using assms(2) loop_step.final by blast
next
  case Returned
  then show ?thesis using assms(1) by (simp add: attended_def)
qed

lemma attended_run:
  assumes "loop_step\<^sup>*\<^sup>* c d" and "attended c"
  shows "attended d \<and> told d = told c"
  using assms by (induction rule: rtranclp_induct) (auto simp: loop_step_told intro: loop_step_attended)

text \<open>C40: The way of a batch: when \<^verbatim>\<open>Send\<close> reports success against the collector of a running application whose queue has room for the
  whole batch, and no event of the batch is a read or a change of focus, which a later one may replace in the queue, then in every run of the
  loop that follows, with no other client, the events handled and still queued are those handled before, those that waited and the events of
  the batch as decoded, in order; the run has at most five steps more than the queue is then long; and where the loop has no step left
  the queue is empty and all of them are handled.  Without room the queue may refuse an event, and \<^verbatim>\<open>Send\<close> succeeds all the same.\<close>

theorem sent_batch_is_handled:
  assumes "\<And>payload. marshal events = Some payload \<Longrightarrow> json_batch events = Some decoded \<and> unmarshal payload = Some (''1'', decoded)"
    and "client_send marshal dial results (\<lambda>input. snd (handle_connection unmarshal (Some collector_submit) input c)) events = (None, out)"
    and "c_phase c \<in> {Draining, Selecting}" and "int (length (q_items (c_queue c)) + length events) \<le> q_capacity (c_queue c)"
    and "\<forall>e \<in> set events. \<not> is_coalescible (event_type e)"
    and "(loop_step ^^ n) (fst (handle_connection unmarshal (Some collector_submit) out c)) d"
  shows "c_handled d @ q_items (c_queue d) = c_handled c @ q_items (c_queue c) @ decoded \<and>
    n \<le> length (q_items (c_queue c)) + length events + 5 \<and>
    ((\<forall>x. \<not> loop_step d x) \<longrightarrow> q_items (c_queue d) = [] \<and> c_handled d = c_handled c @ q_items (c_queue c) @ decoded)"
proof (intro conjI impI)
  let ?c = "foldl collector_submit c decoded"
  have codec: "\<And>payload. marshal events = Some payload \<Longrightarrow> unmarshal payload = Some (''1'', decoded)" using assms(1) by blast
  have b: "fst (handle_connection unmarshal (Some collector_submit) out c) = ?c" and "marshal events \<noteq> None"
    using whole_batch(2) [where submit = collector_submit and s = c, OF codec _ assms(2)] by auto
  then have j: "json_batch events = Some decoded" using assms(1) by blast
  have len: "length decoded = length events" using json_batch_same [OF j] map_eq_imp_length_eq by blast
  have plain: "\<forall>e \<in> set decoded. \<not> is_coalescible (event_type e)"
    using json_batch_types [OF j] assms(5) by (metis (mono_tags) imageE list.set_map image_eqI)
  have "decoded \<noteq> []" using assms(2) len by (auto simp: client_send_def)
  with submit_all_fits [of c decoded] assms(4) plain len
  have c: "q_items (c_queue ?c) = q_items (c_queue c) @ decoded" "c_phase ?c = c_phase c" "c_handled ?c = c_handled c" "c_wake ?c"
    by auto
  then have "attended ?c" using assms(3) by (auto simp: attended_def)
  moreover have run: "(loop_step ^^ n) ?c d" using assms(6) b by simp
  ultimately have d: "attended d" "told d = told ?c" using attended_run [OF relpowp_imp_rtranclp] by blast+
  then show told: "c_handled d @ q_items (c_queue d) = c_handled c @ q_items (c_queue c) @ decoded"
    using c by (simp add: told_def)
  show "n \<le> length (q_items (c_queue c)) + length events + 5"
    using loop_run_left [OF run] loop_left_le [of ?c] c(1) len by simp
  show "q_items (c_queue d) = []" "c_handled d = c_handled c @ q_items (c_queue c) @ decoded" if "\<forall>x. \<not> loop_step d x"
    using attended_stuck [OF d(1)] that told by simp_all
qed

section \<open>The server\<close>

text \<open>The goroutine of \<^verbatim>\<open>serve\<close>, the handlers and the callers of \<^verbatim>\<open>Close\<close>.  A handler that ends frees its slot before it reports to the wait
  group; \<open>sv_leaving\<close> counts those in between.\<close>

datatype serve_phase = Serving | Awaiting_handlers | Served

record server =
  sv_phase :: serve_phase
  sv_stopping :: bool
  sv_closed :: bool
  sv_slots :: nat
  sv_handling :: nat
  sv_leaving :: nat
  sv_refused :: nat

definition new_server :: server where
  "new_server = \<lparr>sv_phase = Serving, sv_stopping = False, sv_closed = False, sv_slots = 0, sv_handling = 0, sv_leaving = 0, sv_refused = 0\<rparr>"

definition accept_connection :: "server \<Rightarrow> server" where
  "accept_connection s =
     (if sv_slots s < max_connections then s\<lparr>sv_slots := sv_slots s + 1, sv_handling := sv_handling s + 1\<rparr>
      else s\<lparr>sv_refused := sv_refused s + 1\<rparr>)"

definition accept_fails :: "server \<Rightarrow> server" where
  "accept_fails s = (if sv_stopping s then s\<lparr>sv_phase := Awaiting_handlers\<rparr> else s)"

inductive server_step :: "server \<Rightarrow> server \<Rightarrow> bool" where
  accept: "sv_phase s = Serving \<Longrightarrow> \<not> sv_closed s \<Longrightarrow> server_step s (accept_connection s)"
| fails: "sv_phase s = Serving \<Longrightarrow> server_step s (accept_fails s)"
| release: "0 < sv_handling s \<Longrightarrow>
    server_step s (s\<lparr>sv_handling := sv_handling s - 1, sv_leaving := sv_leaving s + 1, sv_slots := sv_slots s - 1\<rparr>)"
| worker_done: "0 < sv_leaving s \<Longrightarrow> server_step s (s\<lparr>sv_leaving := sv_leaving s - 1\<rparr>)"
| served: "sv_phase s = Awaiting_handlers \<Longrightarrow> sv_handling s = 0 \<Longrightarrow> sv_leaving s = 0 \<Longrightarrow> server_step s (s\<lparr>sv_phase := Served\<rparr>)"
| stop: "server_step s (s\<lparr>sv_stopping := True\<rparr>)"
| close: "sv_stopping s \<Longrightarrow> server_step s (s\<lparr>sv_closed := True\<rparr>)"

inductive server_reachable :: "server \<Rightarrow> bool" where
  init: "server_reachable new_server"
| step: "server_reachable s \<Longrightarrow> server_step s s' \<Longrightarrow> server_reachable s'"

definition server_ok :: "server \<Rightarrow> bool" where
  "server_ok s \<longleftrightarrow> sv_slots s = sv_handling s \<and> sv_slots s \<le> max_connections \<and> (sv_phase s \<noteq> Serving \<longrightarrow> sv_stopping s) \<and>
     (sv_phase s = Served \<longrightarrow> sv_handling s = 0 \<and> sv_leaving s = 0)"

lemma server_step_ok: "server_step s s' \<Longrightarrow> server_ok s \<Longrightarrow> server_ok s' \<and> (sv_phase s = Served \<longrightarrow> sv_phase s' = Served)"
  by (induction rule: server_step.induct) (auto simp: server_ok_def accept_connection_def accept_fails_def split: if_splits)

lemma server_reachable_ok: "server_reachable s \<Longrightarrow> server_ok s"
proof (induction rule: server_reachable.induct)
  case init
  show ?case by (simp add: server_ok_def new_server_def)
qed (use server_step_ok in blast)

text \<open>There are never more than 32 handlers, and once \<^verbatim>\<open>Close\<close> has returned there is none, now or later.\<close>

theorem closed_server_handles_nothing:
  assumes "server_reachable s"
  shows "sv_handling s \<le> 32 \<and> (sv_phase s = Served \<longrightarrow> sv_handling s = 0 \<and>
    (\<forall>s'. server_step\<^sup>*\<^sup>* s s' \<longrightarrow> sv_phase s' = Served \<and> sv_handling s' = 0))"
proof (intro conjI impI allI)
  fix s' assume "server_step\<^sup>*\<^sup>* s s'" and "sv_phase s = Served"
  then have "server_ok s' \<and> sv_phase s' = Served"
    using server_reachable_ok [OF assms] by (induction rule: rtranclp_induct) (use server_step_ok in blast)+
  then show "sv_phase s' = Served" "sv_handling s' = 0" by (simp_all add: server_ok_def)
qed (use server_reachable_ok [OF assms] in \<open>auto simp: server_ok_def max_connections_def\<close>)

section \<open>From the hook to the server\<close>

text \<open>The client never turns away what a hook reports because of its number of events or because an event is invalid.\<close>

lemma client_refuses_no_hook:
  assumes "hook_nul_free i" and "nul_free version" and "at \<noteq> 0" and "\<And>t. text_ok (''codex:'' @ hash t) 128"
    and "translate hash version i at \<noteq> []"
    and "client_send marshal dial results peer (translate hash version i at) = (err, out)"
  shows "err \<noteq> Some Invalid_batch_size \<and> (\<forall>v. err \<noteq> Some (Refused_event v))"
proof -
  have "length (translate hash version i at) \<le> max_batch_events"
    using translate_bounded by (simp add: max_batch_events_def max_events_per_hook_def)
  moreover have "first_error (map validate (translate hash version i at)) = None"
    using translate_events_valid [OF assms(1-4)] by (auto simp: first_error_None list_all_iff)
  ultimately show ?thesis using assms(5,6)
    by (auto simp: client_send_def split: if_splits option.splits prod.splits list.splits)
qed

section \<open>Example\<close>

definition small_event :: event where
  "small_event = zero_event\<lparr>schema_version := ''1.0'', event_id := ''e0'', session_id := ''s'', source_type := Source_wrapper,
     source_confidence := Conf_exact, event_type := Session_started, timestamp := 3\<rparr>"

text \<open>An event with a number in its metadata, as it is sent and as it is read back.\<close>

definition exit_event :: event where
  "exit_event = small_event\<lparr>ev_metadata := [(''n'', MInt 1)]\<rparr>"

definition exit_event_read :: event where
  "exit_event_read = small_event\<lparr>ev_metadata := [(''n'', MFloat64 (FNum False 1 0))]\<rparr>"

lemma number_metadata_ok:
  assumes "v = MInt 1 \<or> v = MFloat64 (FNum False 1 0)"
  shows "validate_metadata [(''n'', v)] = None"
proof -
  have n: "utf8_valid ''n''" by code_simp
  then have tree: "json_tree (MMap [(''n'', v)]) = JObj [(''n'', JLeaf)]"
    using assms by (auto simp: json_repaired_id)
  have digit: "digit_char (Suc 0) = CHR ''1''" by code_simp
  then have one: "json_encode v = Some ''1''"
    using assms digit by (auto simp: int_str_def json_float_def nat_str.simps Let_def)
  have "json_chars ''n'' = ''n''" by code_simp
  then have j: "json_encode (MMap [(''n'', v)]) = Some ([CHR ''{'', CHR 0x22] @ ''n'' @ [CHR 0x22, CHR '':'', CHR ''1'', CHR ''}''])"
    using one by (simp add: join_opt_def bracket_def json_string_def)
  show ?thesis unfolding validate_metadata_None tree j
    using n by (simp add: max_metadata_bytes_def max_nesting_def max_metadata_depth_def max_metadata_entries_def keys_ok_def validate_string_None)
qed

lemma exit_event_valid: "validate exit_event = None" "validate exit_event_read = None"
proof -
  have "validate small_event = None" by code_simp
  then have "validate (small_event\<lparr>ev_metadata := md\<rparr>) = None" if "validate_metadata md = None" for md
    using that by (simp add: validate_None string_fields_def number_fields_def)
  then show "validate exit_event = None" "validate exit_event_read = None"
    using number_metadata_ok by (simp_all add: exit_event_def exit_event_read_def)
qed

lemma exit_event_json: "json_batch [exit_event] = Some [exit_event_read]"
proof -
  have "json_repaired ''n'' = ''n''" by (rule json_repaired_id) code_simp
  moreover have "int_float 1 = FNum False 1 0" by (simp add: int_float_def strip_zeros.simps)
  moreover have "json_encode (MMap [(''n'', MInt 1)]) \<noteq> None" by code_simp
  ultimately show ?thesis
    by (simp add: json_batch_def marshal_event_def exit_event_def exit_event_read_def small_event_def zero_event_def json_time_ok_def
        del: json_encode.simps)
qed

abbreviation one_codec :: "string \<Rightarrow> (string \<times> event list) option" where
  "one_codec \<equiv> \<lambda>_. Some (''1'', [exit_event_read])"

lemma exit_frame: "incoming_batch one_codec (frame ''{b}'') = Some [exit_event_read]"
  using incoming_frame [of "''{b}''" one_codec] exit_event_valid by (simp add: max_payload_bytes_def max_batch_events_def)

text \<open>A codec for one batch, a connection that takes three bytes, then one, then the rest, and a collector that answers.\<close>

theorem batch_submitted_whole_witness:
  "client_send (\<lambda>_. Some ''{b}'') True [(3, False), (9, False), (9, False)]
     (\<lambda>input. snd (handle_connection one_codec (Some (\<lambda>n e. n + (1::nat))) input 0)) [exit_event] = (None, frame ''{b}'') \<and>
   handle_connection one_codec (Some (\<lambda>n e. n + (1::nat))) (frame ''{b}'') 0 = (1, ack)"
proof -
  let ?f = "\<lambda>n e. n + (1::nat)"
  let ?peer = "\<lambda>input. snd (handle_connection one_codec (Some ?f) input 0)"
  have p: "?peer (frame ''{b}'') = ack" by (simp add: handle_connection_def exit_frame)
  have w: "write_bytes [(3, False), (9, False), (9, False)] (put_uint32 3) = (put_uint32 3, None, [(9, False)])"
    by (simp add: put_uint32_def)
  have send: "client_send (\<lambda>_. Some ''{b}'') True [(3, False), (9, False), (9, False)] ?peer [exit_event] = (None, frame ''{b}'')"
    using exit_event_valid w p by (simp add: client_send_def max_batch_events_def max_payload_bytes_def frame_def ack_def)
  note whole = batch_submitted_whole [OF _ _ send, of "[exit_event_read]" one_codec ?f 0]
  have "handle_connection one_codec (Some ?f) (frame ''{b}'') 0 = (foldl ?f 0 [exit_event_read], ack)"
    using whole by (simp add: exit_event_json exit_event_valid)
  moreover have "fst (handle_connection one_codec (Some ?f) (frame ''{b}'') 0) = foldl ?f 0 [exit_event_read]"
    using whole by (simp add: exit_event_json)
  ultimately show ?thesis using send by simp
qed

theorem connections_keep_collector_witness:
  "int (length (q_items (c_queue (foldl (\<lambda>c input. fst (handle_connection (\<lambda>_. Some (''1'', [small_event])) (Some collector_submit) input c))
     (new_collector 2) [''junk'', frame ''{b}''])))) \<le> 2"
proof -
  let ?d = "foldl (\<lambda>c input. fst (handle_connection (\<lambda>_. Some (''1'', [small_event])) (Some collector_submit) input c)) (new_collector 2) [''junk'', frame ''{b}'']"
  have "holds_valid (new_collector 2)" by (simp add: holds_valid_def new_collector_def new_queue_def)
  from connections_keep_collector [OF collector_reachable.init this, of "\<lambda>_. Some (''1'', [small_event])" "[''junk'', frame ''{b}'']"]
  show ?thesis by (simp add: Let_def)
qed

theorem closed_server_handles_nothing_witness: "sv_handling new_server \<le> 32"
  using closed_server_handles_nothing [OF server_reachable.init] by blast

text \<open>The same batch, sent to a fresh collector.\<close>

lemma one_event_run:
  assumes "q_items (c_queue b) = [e]" and "c_phase b = Draining" and "c_wake b" and "\<not> c_stop b"
  shows "\<exists>d. (loop_step ^^ 4) b d \<and> (\<forall>x. \<not> loop_step d x)"
proof -
  let ?b1 = "b\<lparr>c_queue := (c_queue b)\<lparr>q_items := []\<rparr>, c_handled := c_handled b @ [e]\<rparr>"
  let ?b2 = "?b1\<lparr>c_phase := Selecting\<rparr>"
  let ?b3 = "?b2\<lparr>c_phase := Draining, c_wake := False\<rparr>"
  let ?b4 = "?b3\<lparr>c_phase := Selecting\<rparr>"
  have "loop_step b ?b1" using loop_step.drain [of b] assms drain_round_event [of b e "[]"] by simp
  moreover have "loop_step ?b1 ?b2" using loop_step.drain [of ?b1] assms drain_round_empty [of ?b1 Selecting] by simp
  moreover have "loop_step ?b2 ?b3" using loop_step.wake [of ?b2] assms by simp
  moreover have "loop_step ?b3 ?b4" using loop_step.drain [of ?b3] drain_round_empty [of ?b3 Selecting] by simp
  ultimately have "(loop_step ^^ 4) b ?b4" by (auto simp: numeral_eq_Suc)
  moreover have "\<not> loop_step ?b4 x" for x using assms(4) by (auto elim: loop_stepE)
  ultimately show ?thesis by blast
qed

theorem sent_batch_is_handled_witness:
  "\<exists>d. (loop_step ^^ 4) (fst (handle_connection one_codec (Some collector_submit) (frame ''{b}'') (new_collector 2))) d \<and>
     q_items (c_queue d) = [] \<and> c_handled d = [exit_event_read]"
proof -
  let ?peer = "\<lambda>input. snd (handle_connection one_codec (Some collector_submit) input (new_collector 2))"
  let ?b = "collector_submit (new_collector 2) exit_event_read"
  have p: "?peer (frame ''{b}'') = ack" by (simp add: handle_connection_def exit_frame)
  have "write_bytes [(4, False), (9, False)] (put_uint32 3) = (put_uint32 3, None, [(9, False)])"
    by (simp add: put_uint32_def)
  with p have send: "client_send (\<lambda>_. Some ''{b}'') True [(4, False), (9, False)] ?peer [exit_event] = (None, frame ''{b}'')"
    using exit_event_valid by (simp add: client_send_def max_batch_events_def max_payload_bytes_def frame_def ack_def)
  have plain: "\<not> is_coalescible (event_type exit_event_read)" "\<not> is_coalescible (event_type exit_event)"
    by (simp_all add: exit_event_def exit_event_read_def small_event_def is_coalescible_def)
  have n: "q_items (c_queue (new_collector 2)) = []" "q_capacity (c_queue (new_collector 2)) = 2" "c_phase (new_collector 2) = Draining"
    "c_handled (new_collector 2) = []" "\<not> c_stop (new_collector 2)"
    by (simp_all add: new_collector_def new_queue_def)
  have b: "fst (handle_connection one_codec (Some collector_submit) (frame ''{b}'') (new_collector 2)) = ?b"
    by (simp add: handle_connection_def exit_frame)
  have "\<not> c_stop ?b" using n(5) by (simp add: collector_submit_def submit_offer_def submit_signal_def Let_def split: prod.splits)
  then obtain d where d: "(loop_step ^^ 4) ?b d" "\<forall>x. \<not> loop_step d x"
    using one_event_run [of ?b exit_event_read] submit_fits [of "new_collector 2" exit_event_read] plain n by auto
  have "q_items (c_queue d) = [] \<and> c_handled d = c_handled (new_collector 2) @ q_items (c_queue (new_collector 2)) @ [exit_event_read]"
    by (rule sent_batch_is_handled [OF _ send, where n = 4, THEN conjunct2, THEN conjunct2, THEN mp])
      (use n plain d b in \<open>simp_all add: exit_event_json\<close>)
  then show ?thesis using d(1) b n by auto
qed

end
