(* ===== verification/Commands.thy ===== *)
theory Commands
  imports Ipc Wrapper Installer_Props
begin

text \<open>
  The command line programs: the flags of both (Go's package \<^verbatim>\<open>flag\<close>), \<^verbatim>\<open>cmd/aav-wrapper/main.go\<close> up to the start of the
  run, \<^verbatim>\<open>cmd/aav/main.go\<close> with its exit codes, and the check of an installed hook, \<^verbatim>\<open>internal/adapters/codex/install/probe.go\<close>.
  The texts the programs print are not modelled, except that a diagnostic is one short line.
\<close>

section \<open>Flags\<close>

text \<open>One argument as \<^verbatim>\<open>FlagSet.parseOne\<close> reads it.\<close>

datatype argument = Plain | Terminator | Malformed | Flag string "string option"

definition read_argument :: "string \<Rightarrow> argument" where
  "read_argument s =
     (if length s < 2 \<or> hd s \<noteq> CHR ''-'' then Plain
      else if s = ''--'' then Terminator
      else let body = (if s ! 1 = CHR ''-'' then drop 2 s else drop 1 s) in
        if body = [] \<or> hd body = CHR ''-'' \<or> hd body = CHR ''='' then Malformed
        else Flag (takeWhile (\<lambda>c. c \<noteq> CHR ''='') body)
          (if CHR ''='' \<in> set body then Some (tl (dropWhile (\<lambda>c. c \<noteq> CHR ''='') body)) else None))"

datatype flag_kind = Text_flag | Switch

definition parse_bool :: "string \<Rightarrow> bool option" where
  "parse_bool s =
     (if s \<in> {''1'', ''t'', ''T'', ''true'', ''TRUE'', ''True''} then Some True
      else if s \<in> {''0'', ''f'', ''F'', ''false'', ''FALSE'', ''False''} then Some False else None)"

text \<open>\<^verbatim>\<open>FlagSet.Parse\<close>: the settings in order and the arguments left over, or nothing after an error (or a request for help).\<close>

fun parse_flags :: "(string \<Rightarrow> flag_kind option) \<Rightarrow> string list \<Rightarrow> ((string \<times> string) list \<times> string list) option" where
  "parse_flags kinds [] = Some ([], [])"
| "parse_flags kinds (a # rest) =
     (case read_argument a of
        Plain \<Rightarrow> Some ([], a # rest)
      | Terminator \<Rightarrow> Some ([], rest)
      | Malformed \<Rightarrow> None
      | Flag name given \<Rightarrow>
          (case kinds name of
             None \<Rightarrow> None
           | Some Switch \<Rightarrow>
               (let v = (case given of None \<Rightarrow> ''true'' | Some v \<Rightarrow> v) in
                if parse_bool v = None then None else map_option (apfst ((#) (name, v))) (parse_flags kinds rest))
           | Some Text_flag \<Rightarrow>
               (case given of
                  Some v \<Rightarrow> map_option (apfst ((#) (name, v))) (parse_flags kinds rest)
                | None \<Rightarrow> (case rest of [] \<Rightarrow> None | v # rest' \<Rightarrow> map_option (apfst ((#) (name, v))) (parse_flags kinds rest')))))"

text \<open>A flag set twice has the later value.\<close>

definition flag_text :: "(string \<times> string) list \<Rightarrow> string \<Rightarrow> string \<Rightarrow> string" where
  "flag_text settings name fallback = (case map_of (rev settings) name of None \<Rightarrow> fallback | Some v \<Rightarrow> v)"

definition flag_switch :: "(string \<times> string) list \<Rightarrow> string \<Rightarrow> bool \<Rightarrow> bool" where
  "flag_switch settings name fallback =
     (case map_of (rev settings) name of None \<Rightarrow> fallback | Some v \<Rightarrow> parse_bool v = Some True)"

section \<open>The wrapper\<close>

definition wrapper_flags :: "string \<Rightarrow> flag_kind option" where
  "wrapper_flags name =
     (if name \<in> {''project-root'', ''session-id'', ''agent-type'', ''endpoint''} then Some Text_flag
      else if name = ''filesystem-fallback'' then Some Switch else None)"

record wrapper_call =
  wc_config :: run_config
  wc_args :: "string list"
  wc_endpoint :: string
  wc_fallback :: bool

text \<open>\<^verbatim>\<open>run\<close> of \<^verbatim>\<open>cmd/aav-wrapper\<close>: nothing stands for exit code 2.\<close>

definition wrapper_command :: "string \<Rightarrow> string list \<Rightarrow> wrapper_call option" where
  "wrapper_command default_endpoint args =
     (case parse_flags wrapper_flags args of
        None \<Rightarrow> None
      | Some (fs, []) \<Rightarrow> None
      | Some (fs, command # rest) \<Rightarrow> Some
          \<lparr>wc_config = \<lparr>rc_command = command, rc_dir = [], rc_project_root = flag_text fs ''project-root'' [],
             rc_session_id = flag_text fs ''session-id'' [], rc_agent_type = trim_space (flag_text fs ''agent-type'' ''generic''),
             rc_delivery_queue = 0, rc_send_deadline = 0, rc_parser_queue = 0, rc_parser_drain = 0, rc_fallback_drain = 0,
             rc_evidence_queue = 0, rc_evidence_window = 0\<rparr>,
           wc_args = rest, wc_endpoint = flag_text fs ''endpoint'' default_endpoint,
           wc_fallback = flag_switch fs ''filesystem-fallback'' True\<rparr>)"

section \<open>Diagnostics\<close>

definition one_line :: "string \<Rightarrow> string" where
  "one_line s = map (\<lambda>c. if c = CHR 0x0D \<or> c = CHR 0x0A then CHR '' '' else c) s"

definition sanitize_diagnostic :: "string \<Rightarrow> string" where
  "sanitize_diagnostic s = (let m = one_line s in if 500 < length m then take 500 m @ ''...'' else m)"

section \<open>The command for Codex\<close>

definition lower_ascii :: "string \<Rightarrow> string" where
  "lower_ascii s = map (\<lambda>c. if 65 \<le> byte c \<and> byte c \<le> 90 then char_of (byte c + 32) else c) s"

text \<open>Outside ASCII no letter becomes one of the two scopes in lower case, so such a scope stays another one.\<close>

definition scope_named :: "string \<Rightarrow> scope" where
  "scope_named s = (if s = ''project'' then Scope_project else if s = ''user'' then Scope_user else Scope_other s)"

definition codex_flags :: "string \<Rightarrow> flag_kind option" where
  "codex_flags name =
     (if name \<in> {''scope'', ''project'', ''codex-home'', ''hook-binary''} then Some Text_flag
      else if name = ''dry-run'' then Some Switch else None)"

definition adjacent_hook_binary :: "string option \<Rightarrow> bool \<Rightarrow> string" where
  "adjacent_hook_binary executable windows =
     (let name = ''aav-codex-hook'' @ (if windows then ''.exe'' else []) in
      case executable of None \<Rightarrow> name | Some p \<Rightarrow> path_join [path_dir p, name])"

definition codex_options :: "string \<Rightarrow> string \<Rightarrow> (string \<times> string) list \<Rightarrow> install_options" where
  "codex_options adjacent action fs =
     (let binary = flag_text fs ''hook-binary'' [] in
      \<lparr>op_scope = scope_named (lower_ascii (trim_space (flag_text fs ''scope'' ''project''))),
       op_project_root = flag_text fs ''project'' [], op_codex_home = flag_text fs ''codex-home'' [],
       op_hook_binary = (if action = ''install'' \<and> binary = [] then adjacent else binary),
       op_dry_run = flag_switch fs ''dry-run'' False\<rparr>)"

definition codex_call :: "installer_env \<Rightarrow> unit io \<Rightarrow> string \<Rightarrow> install_options \<Rightarrow> install_result io" where
  "codex_call env probe action opts =
     (if action = ''install'' then install env opts
      else if action = ''uninstall'' then uninstall env opts
      else if action = ''status'' then install_status_of env opts
      else install_test env probe opts)"

text \<open>\<^verbatim>\<open>runCodex\<close>: the exit code.\<close>

definition run_codex :: "installer_env \<Rightarrow> unit io \<Rightarrow> string \<Rightarrow> string list \<Rightarrow> nat io" where
  "run_codex env probe adjacent args =
     (case args of
        [] \<Rightarrow> io_return 2
      | action # rest \<Rightarrow>
          if action \<notin> {''install'', ''uninstall'', ''status'', ''test''} then io_return 2
          else (case parse_flags codex_flags rest of
              None \<Rightarrow> io_return 2
            | Some (fs, left) \<Rightarrow>
                if left \<noteq> [] then io_return 2
                else if action \<in> {''status'', ''test''} \<and> flag_switch fs ''dry-run'' False then io_return 2
                else io_bind (io_try (codex_call env probe action (codex_options adjacent action fs)))
                  (\<lambda>r. io_return (case r of Inl _ \<Rightarrow> 1 | Inr _ \<Rightarrow> 0))))"

text \<open>\<^verbatim>\<open>runMockEvent\<close>: \<open>open_file\<close> gives the content of a file that can be opened, \<open>decode\<close> the first JSON value of a text.\<close>

definition run_mock_event :: "(string \<Rightarrow> event option) \<Rightarrow> (event \<Rightarrow> string option) \<Rightarrow> (string \<Rightarrow> string option) \<Rightarrow> string \<Rightarrow> string list \<Rightarrow>
    nat \<times> string option" where
  "run_mock_event decode encode open_file stdin args =
     (if 1 < length args then (2, None)
      else case (case args of [] \<Rightarrow> Some stdin | p # _ \<Rightarrow> if p = ''-'' then Some stdin else open_file p) of
        None \<Rightarrow> (2, None)
      | Some content \<Rightarrow>
          (case decode (take 1048576 content) of
             None \<Rightarrow> (2, None)
           | Some e \<Rightarrow>
               if validate e \<noteq> None then (2, None)
               else (case encode e of None \<Rightarrow> (2, None) | Some out \<Rightarrow> (0, Some out))))"

section \<open>The check of an installed hook\<close>

datatype probe_error = Hook_failed | Unexpected_output | Unexpected_event event_type | Not_reached

text \<open>The channel of one place keeps the first event.\<close>

definition probe_submit :: "event option \<Rightarrow> event \<Rightarrow> event option" where
  "probe_submit received e = (case received of None \<Rightarrow> Some e | Some f \<Rightarrow> Some f)"

definition probe_input :: "string \<Rightarrow> hook_input" where
  "probe_input binary_path = \<lparr>hi_session_id = ''aav-installer-test'', hi_cwd = path_dir binary_path, hi_event_name = ''SessionStart'',
     hi_source = ''startup'', hi_reason = [], hi_turn_id = [], hi_agent_id = [], hi_agent_type = [], hi_tool_name = [],
     hi_tool_use_id = [], hi_tool_input = None\<rparr>"

definition probe_verdict :: "bool \<Rightarrow> string \<Rightarrow> string \<Rightarrow> event option \<Rightarrow> probe_error option" where
  "probe_verdict exited_well out err received =
     (if \<not> exited_well then Some Hook_failed
      else if out \<noteq> [] \<or> err \<noteq> [] then Some Unexpected_output
      else case received of
        None \<Rightarrow> Some Not_reached
      | Some e \<Rightarrow> if event_type e \<noteq> Session_started then Some (Unexpected_event (event_type e)) else None)"

section \<open>What the flags leave alone\<close>

definition written_flag :: "string \<times> string \<Rightarrow> string" where
  "written_flag = (\<lambda>(name, v). ''--'' @ name @ ''='' @ v)"

definition flag_ok :: "(string \<Rightarrow> flag_kind option) \<Rightarrow> string \<times> string \<Rightarrow> bool" where
  "flag_ok kinds = (\<lambda>(name, v). name \<noteq> [] \<and> hd name \<noteq> CHR ''-'' \<and> CHR ''='' \<notin> set name \<and>
     (case kinds name of None \<Rightarrow> False | Some Switch \<Rightarrow> parse_bool v \<noteq> None | Some Text_flag \<Rightarrow> True))"

lemma read_written_flag:
  assumes "name \<noteq> []" and "hd name \<noteq> CHR ''-''" and "CHR ''='' \<notin> set name"
  shows "read_argument (''--'' @ name @ ''='' @ v) = Flag name (Some v)"
proof -
  have "takeWhile (\<lambda>c. c \<noteq> CHR ''='') (name @ ''='' @ v) = name" "dropWhile (\<lambda>c. c \<noteq> CHR ''='') (name @ ''='' @ v) = ''='' @ v"
    using assms(3) by (induction name) auto
  moreover have "hd (name @ ''='' @ v) \<noteq> CHR ''-''" "hd (name @ ''='' @ v) \<noteq> CHR ''=''"
    using assms by (cases name; auto)+
  ultimately show ?thesis using assms(1) by (simp add: read_argument_def Let_def)
qed

lemma parse_written_flags:
  "list_all (flag_ok kinds) fs \<Longrightarrow> parse_flags kinds (map written_flag fs @ rest) = map_option (apfst ((@) fs)) (parse_flags kinds rest)"
proof (induction fs)
  case (Cons f fs)
  obtain name v where f: "f = (name, v)" by (cases f)
  with Cons have "read_argument (''--'' @ name @ ''='' @ v) = Flag name (Some v)" by (intro read_written_flag) (simp_all add: flag_ok_def)
  with Cons f show ?case
    by (auto simp: flag_ok_def written_flag_def Let_def option.map_comp split: option.splits flag_kind.splits intro!: option.map_cong)
qed (simp add: option.map_id apfst_def map_prod_def id_def [symmetric])

text \<open>The command to wrap and its arguments are taken as they are, however much they look like flags, and the flags before them are read back as
  they were written.\<close>

theorem wrapped_command_untouched:
  assumes "list_all (flag_ok wrapper_flags) fs"
  shows "\<exists>call. wrapper_command endpoint (map written_flag fs @ ''--'' # command # args) = Some call \<and>
    rc_command (wc_config call) = command \<and> wc_args call = args \<and>
    rc_session_id (wc_config call) = flag_text fs ''session-id'' [] \<and> rc_project_root (wc_config call) = flag_text fs ''project-root'' []"
  using parse_written_flags [OF assms, of "''--'' # command # args"] by (simp add: wrapper_command_def read_argument_def)

section \<open>What the commands leave alone\<close>

lemma sanitized_line:
  "CHR 0x0A \<notin> set (sanitize_diagnostic s) \<and> CHR 0x0D \<notin> set (sanitize_diagnostic s) \<and> length (sanitize_diagnostic s) \<le> 503"
  by (auto simp: sanitize_diagnostic_def one_line_def Let_def dest: in_set_takeD)

definition asks_only :: "string list \<Rightarrow> bool" where
  "asks_only args \<longleftrightarrow> (case args of [] \<Rightarrow> True | action # rest \<Rightarrow> action \<in> {''status'', ''test''} \<or>
     (case parse_flags codex_flags rest of None \<Rightarrow> True | Some (fs, left) \<Rightarrow> flag_switch fs ''dry-run'' False))"

lemma codex_call_read_only:
  assumes "read_only probe" and "action \<in> {''status'', ''test''} \<or> op_dry_run opts"
  shows "read_only (codex_call env probe action opts)"
proof -
  have "read_only (install env opts)" "read_only (uninstall env opts)" if "op_dry_run opts"
  proof -
    from that have "opts = opts\<lparr>op_dry_run := True\<rparr>" by simp
    then show "read_only (install env opts)" "read_only (uninstall env opts)" by (metis dry_run_read_only(1), metis dry_run_read_only(2))
  qed
  moreover have "read_only (install_test env probe opts)"
    by (auto simp: install_test_def assms(1) dry_run_read_only intro!: read_only_bind)
  ultimately show ?thesis using assms(2) by (auto simp: codex_call_def dry_run_read_only)
qed

lemma run_codex_cases:
  obtains (misuse) "run_codex env probe adjacent args = io_return 2"
  | (call) action rest fs where "args = action # rest" "parse_flags codex_flags rest = Some (fs, [])"
      "run_codex env probe adjacent args = io_bind (io_try (codex_call env probe action (codex_options adjacent action fs)))
         (\<lambda>r. io_return (case r of Inl _ \<Rightarrow> 1 | Inr _ \<Rightarrow> 0))"
proof (cases args)
  case (Cons action rest)
  show thesis
  proof (cases "parse_flags codex_flags rest")
    case (Some r)
    obtain fs left where r: "r = (fs, left)" by (cases r)
    show thesis
    proof (cases "run_codex env probe adjacent args = io_return 2")
      case False
      with Some r have "left = []" by (auto simp: run_codex_def Cons)
      with False Some r show thesis by (intro call [of action rest fs]) (auto simp: run_codex_def Cons)
    qed (rule misuse)
  qed (auto simp: run_codex_def Cons intro: misuse)
qed (auto simp: run_codex_def intro: misuse)

text \<open>A call that ends with the exit code for misuse has done nothing; asking for the status, testing and a dry run change no file.\<close>

theorem asking_changes_nothing:
  assumes "read_only probe"
  shows "(asks_only args \<longrightarrow> w_files (snd (run_codex env probe adjacent args w)) = w_files w) \<and>
    (fst (run_codex env probe adjacent args w) = Io_value 2 \<longrightarrow> snd (run_codex env probe adjacent args w) = w)"
proof (cases rule: run_codex_cases [of env probe adjacent args])
  case misuse
  then show ?thesis by (simp add: io_return_def)
next
  case (call action rest fs)
  let ?m = "codex_call env probe action (codex_options adjacent action fs)"
  have "fst (run_codex env probe adjacent args w) \<noteq> Io_value 2"
    unfolding call(3) by (auto simp: io_bind_def io_try_def io_return_def split: prod.splits io_result.splits sum.splits)
  moreover have "read_only (run_codex env probe adjacent args)" if "asks_only args"
  proof -
    have "read_only ?m"
      using that call(1,2) by (intro codex_call_read_only assms) (simp add: asks_only_def codex_options_def Let_def)
    then show ?thesis unfolding call(3) by (intro read_only_bind read_only_try) simp_all
  qed
  ultimately show ?thesis by (simp add: read_only_def)
qed

section \<open>The hook, the client and the server together\<close>

lemma probe_hook_events:
  assumes "document \<noteq> []" and "length document \<le> max_hook_input_bytes" and "parse document = Some (probe_input binary_path)"
  shows "\<exists>e. run_hook hash version parse (Some document) True now = [e] \<and> event_type e = Session_started"
  using assms
  by (simp add: run_hook_def decode_hook_def probe_input_def translate_def raw_events_def identify_def Let_def)

text \<open>C39: An installed hook that works passes the check of the installer: it reports the start of a session, the client sends it in two writes, the
  server acknowledges it, and the check accepts what the server received.\<close>

theorem probe_passes_own_hook:
  assumes "events = run_hook hash version parse (Some document) True now"
    and "document \<noteq> []" and "length document \<le> max_hook_input_bytes" and "parse document = Some (probe_input binary_path)"
    and "nul_free version" and "now \<noteq> 0" and "\<And>t. text_ok (''codex:'' @ hash t) 128"
    and "marshal events = Some payload" and "unmarshal payload = Some (''1'', events)" and "payload \<noteq> []" and "length payload \<le> max_payload_bytes"
  shows "client_send marshal True [(4, False), (length payload, False)]
      (\<lambda>input. snd (handle_connection unmarshal (Some probe_submit) input None)) events = (None, frame payload) \<and>
    probe_verdict True [] [] (fst (handle_connection unmarshal (Some probe_submit) (frame payload) None)) = None"
proof -
  obtain e where e: "events = [e]" "event_type e = Session_started" unfolding assms(1) using assms(2-4) probe_hook_events [of document parse binary_path] by blast
  have "events = translate hash version (probe_input binary_path) now"
    using assms(2-4) by (simp add: assms(1) run_hook_def decode_hook_def probe_input_def)
  moreover have "hook_nul_free (probe_input binary_path)"
    by (simp add: hook_nul_free_def probe_input_def nul_free_def)
  ultimately have "list_all (\<lambda>e. validate e = None) events" using translate_events_valid [OF _ assms(5-7)] by simp
  with e have v: "validate e = None" by simp
  have "incoming_batch unmarshal (frame payload) = Some [e]"
    using incoming_frame [OF assms(11,10), of unmarshal] assms(9) e v by (simp add: max_batch_events_def)
  then have h: "handle_connection unmarshal (Some probe_submit) (frame payload) None = (Some e, ack)"
    by (simp add: handle_connection_def probe_submit_def)
  obtain b bs where p: "payload = b # bs" using assms(10) by (cases payload) simp_all
  have header: "write_bytes [(4, False), (length payload, False)] (put_uint32 (of_nat (length payload))) =
      (put_uint32 (of_nat (length payload)), None, [(length payload, False)])"
    by (cases "put_uint32 (of_nat (length payload))") (simp_all flip: length_0_conv add: put_uint32_def)
  have body: "write_bytes [(length payload, False)] payload = (payload, None, [])" by (simp add: p)
  have "client_send marshal True [(4, False), (length payload, False)]
      (\<lambda>input. snd (handle_connection unmarshal (Some probe_submit) input None)) events = (None, frame payload)"
    using assms(8,11) header body h e v by (simp add: client_send_def max_batch_events_def frame_def ack_def)
  with h e show ?thesis by (simp add: probe_verdict_def)
qed

section \<open>Example\<close>

theorem wrapped_command_untouched_witness:
  "\<exists>call. wrapper_command ''e'' [''--session-id=s'', ''--filesystem-fallback=0'', ''--'', ''go'', ''--session-id=t'', ''--''] = Some call \<and>
     rc_command (wc_config call) = ''go'' \<and> wc_args call = [''--session-id=t'', ''--''] \<and> rc_session_id (wc_config call) = ''s''"
proof -
  let ?fs = "[(''session-id'', ''s''), (''filesystem-fallback'', ''0'')]"
  have "list_all (flag_ok wrapper_flags) ?fs"
    by (simp add: flag_ok_def wrapper_flags_def parse_bool_def ex_bool_eq)
  then obtain call where
    "wrapper_command ''e'' (map written_flag ?fs @ ''--'' # ''go'' # [''--session-id=t'', ''--'']) = Some call"
    "rc_command (wc_config call) = ''go''" "wc_args call = [''--session-id=t'', ''--'']"
    "rc_session_id (wc_config call) = flag_text ?fs ''session-id'' []"
    using wrapped_command_untouched by blast
  then show ?thesis by (intro exI [of _ call]) (simp add: written_flag_def flag_text_def)
qed

theorem asking_changes_nothing_witness:
  "\<forall>env adjacent w. w_files (snd (run_codex env (io_return ()) adjacent [''status''] w)) = w_files w"
  using asking_changes_nothing [of "io_return ()" "[''status'']"] by (simp add: asks_only_def)

theorem probe_passes_own_hook_witness:
  "let events = run_hook (\<lambda>_. ''0a'') ''1'' (\<lambda>_. Some (probe_input ''/b/h'')) (Some ''{}'') True 5 in
   probe_verdict True [] [] (fst (handle_connection (\<lambda>_. Some (''1'', events)) (Some probe_submit) (frame ''{b}'') None)) = None"
proof -
  have "text_ok (''codex:'' @ ''0a'') 128" by (simp add: text_ok_def nul_free_def, code_simp)
  then show ?thesis
    using probe_passes_own_hook [of _ "\<lambda>_. ''0a''" "''1''" "\<lambda>_. Some (probe_input ''/b/h'')" "''{}''" 5 "''/b/h''" "\<lambda>_. Some ''{b}''" "''{b}''"
        "\<lambda>_. Some (''1'', run_hook (\<lambda>_. ''0a'') ''1'' (\<lambda>_. Some (probe_input ''/b/h'')) (Some ''{}'') True 5)", OF refl]
    by (simp add: nul_free_def max_hook_input_bytes_def max_payload_bytes_def Let_def)
qed

end
