(* ===== verification/Spec2Isabelle.thy ===== *)
theory Spec2Isabelle
  imports Session_Focus Replay_Props Ingest_Collector Ingest_Dedupe Diff_Pipeline Ingest_Normalize Graph_Identity Graph_Client Activity
    Store Store_Recovery Codex_Props Installer_Recovery App_Errors Fs_Observer_Reports Evidence_Stop Wrapper_Run Commands
begin

text \<open>
  A verification development for the agent action visualizer, a local desktop program that shows as a graph what coding agents do to the
  files of a project.  It follows the Go code of the repository; each definition carries the name of the function, method or type it
  translates, in the spelling of Isabelle.

  \<^bold>\<open>The program and its flow of data.\<close>  Adapters observe an agent and turn what they see into events of one protocol: the Codex hook
  (\<^verbatim>\<open>internal/adapters/codex\<close>), started by the agent itself, and the generic wrapper (\<^verbatim>\<open>adapter/go/wrapper\<close>), which runs a
  command, reads its output through a parser and watches the project with the file observer (\<^verbatim>\<open>internal/adapters/filesystem\<close>).  Events
  travel over a local socket (\<^verbatim>\<open>internal/ipc\<close>) into the collector and its bounded queue (\<^verbatim>\<open>internal/ingest\<close>).  The desktop
  application (\<^verbatim>\<open>apps/desktop/app.go\<close>) normalizes each event, drops duplicates, keeps the identity of renamed files
  (\<^verbatim>\<open>internal/graph\<close>), feeds the session engine (\<^verbatim>\<open>internal/session\<close>), asks the diff pipeline (\<^verbatim>\<open>internal/diff\<close>)
  for line counts, and records all of it in a journal (\<^verbatim>\<open>internal/store\<close>) from which sessions are replayed (\<^verbatim>\<open>internal/replay\<close>).
  The installer (\<^verbatim>\<open>internal/adapters/codex/install\<close>) enters the hook into the configuration of Codex.

  \<^bold>\<open>Conventions.\<close>  A Go string is the list of its bytes.  Integers that are compared or counted near their limits are words or carry their
  wrap-around (\<^verbatim>\<open>wrap64\<close>, saturating differences of instants); an instant is its number of nanoseconds.  A map that is only looked up is a
  function, one that is iterated an association list, and a result that depends on the order of an iteration is stated for every order.  Errors
  and panics are values of sums and options.  Goroutines are step relations: one step is one channel operation, one section under a
  mutex or one branch of a \<^verbatim>\<open>select\<close>, and a property of reachable states holds for every interleaving.  Fields that record history and do
  not exist in the code are named as such where they are declared.  File systems, the output of git, SQLite, JSON, SHA-256, the notification
  library and Unicode case folding are parameters or given data; what is assumed of them is a hypothesis of the theorem that needs it.

  \<^bold>\<open>Foundations.\<close>
  \<^item> \<open>Prelude\<close>: Go's strings, instants and sorting; the locale \<open>keyed_less\<close> of a comparison by a key, under which sorting has one result, is
    interpreted for every comparison the program sorts with.
  \<^item> \<open>Utf8\<close>, \<open>Regex\<close>, \<open>Paths\<close>, \<open>Glob\<close>, \<open>Go_Text\<close>, \<open>Go_Time\<close>: the parts of Go's library the code uses.
  \<^item> \<open>Metadata\<close>, \<open>Protocol\<close>, \<open>Event_Fields\<close>: the event record and \<^verbatim>\<open>Validate\<close> (\<^verbatim>\<open>protocol/go/event.go\<close>), and when the
    events an adapter builds pass it.

  \<^bold>\<open>Sessions and replay.\<close>
  \<^item> \<open>Session\<close>, \<open>Session_Inv\<close>, \<open>Session_Live\<close>, \<open>Session_Focus\<close>: the engine of \<^verbatim>\<open>internal/session/engine.go\<close>; its invariant, the
    accounting of observed time, and the trail as an abstraction of the focus history for events in any order but without renames and moves.
  \<^item> \<open>Event_Order\<close>, \<open>Replay\<close>, \<open>Replay_Props\<close>: the canonical order and \<^verbatim>\<open>Reconstruct\<close>; a replay depends on the set of events only.

  \<^bold>\<open>From the wire to the engine.\<close>
  \<^item> \<open>Ipc\<close>: frames, client, handler and server of \<^verbatim>\<open>internal/ipc/transport.go\<close>; a batch is submitted whole or not at all, as its
    JSON text is read back; a batch for which the queue has room is handled in order after a successful \<^verbatim>\<open>Send\<close>, which also succeeds when
    the queue refuses events; and no input breaks the collector (locale \<open>submit_target\<close>, interpreted for \<^verbatim>\<open>Collector.Submit\<close>).
  \<^item> \<open>Ingest_Queue\<close>, \<open>Ingest_Collector\<close>, \<open>Ingest_Dedupe\<close>, \<open>Ingest_Normalize\<close>: bounds, priorities and order of the queue (locale
    \<open>fifo\<close>), no lost wake-up, the drain on stop, the deduplicator as a bounded memory that answers like an unbounded one, and the
    confinement of every path.
  \<^item> \<open>Security\<close>, \<open>Path_Normalize\<close>: what sanitizing leaves of an event, what the redaction of labels removes and what it misses, and paths that stay inside the project behind symbolic links.

  \<^bold>\<open>The desktop application.\<close>
  \<^item> \<open>App\<close>: the state of \<^verbatim>\<open>App\<close> and the operations that change it, composed from the components above and below.
  \<^item> \<open>App_Props\<close>, \<open>App_Replay\<close>, \<open>App_Work\<close>, \<open>App_Errors\<close>: the invariant of a run; live and replayed sessions agree while the journal is
    ready, for valid events that come in order and without diff results of adapters; every diff result finds its access; and the places
    where it is otherwise.
  \<^item> \<open>Diff_Lines\<close>, \<open>Diff_Pipeline\<close>: line counts against a longest common subsequence, and the pipeline with its window of remembered keys.
  \<^item> \<open>Project_Scan\<close>, \<open>Graph_Identity\<close>, \<open>Graph_Layout\<close>, \<open>Activity\<close>: ignore rules and scan, the identity of nodes (locale
    \<open>path_registry\<close>), layouts and their patches, and the history read from git.
  \<^item> \<open>Graph_Client\<close>: the other end of a patch, \<^verbatim>\<open>applyGraphPatch\<close> of the renderer (\<^verbatim>\<open>apps/desktop/frontend/src/graph/patch.ts\<close>), which
    takes it from one layout to the next when some node was removed, and fails on \<^verbatim>\<open>null\<close> when none was.
  \<^item> \<open>Store\<close>, \<open>Store_Recovery\<close>: journal, sessions and projects as lists of rows, recovery after a crash, migrations and quarantine.

  \<^bold>\<open>Adapters.\<close>
  \<^item> \<open>Codex_Hook\<close>, \<open>Codex_Props\<close>: the hook program, the reader of patches, and the translation to valid events with different
    identifiers.
  \<^item> \<open>Adapter_Contract\<close>: descriptors and the bounded emitter (\<^verbatim>\<open>adapter/go/adapter.go\<close>), with the interface of emitters (locale
    \<open>event_sink\<close>, interpreted for the bounded emitter and the delivery of the wrapper).
  \<^item> \<open>Evidence_Gate\<close>, \<open>Evidence_Stop\<close>, \<open>Stream_Tap\<close>, \<open>Wrapper\<close>, \<open>Wrapper_Run\<close>: the three concurrent parts of the wrapper, each as a step relation with
    its own invariant, the events of a run's lifecycle, and \<^verbatim>\<open>Run\<close> as their composition, with the order in which a run is told.
  \<^item> \<open>Git_Evidence\<close>, \<open>Fs_Observer\<close>, \<open>Fs_Observer_Props\<close>, \<open>Fs_Observer_Reports\<close>: the readers of git's output and the file
    observer; every change of a batch is told once, every notification is waiting, told of in a batch, passed over or
    counted as lost, what waits beyond the last batch is never told of, and what it emits is valid.
  \<^item> \<open>Install_Files\<close>, \<open>Install_Config\<close>, \<open>Installer\<close>, \<open>Installer_Props\<close>, \<open>Installer_Recovery\<close>: file replacement as a script of
    system calls of which each may work, fail or be the last, the merge of the configuration, that installations, repeated
    or interrupted anywhere, keep the original configuration, and that uninstalling restores it where it has hooks.
  \<^item> \<open>Commands\<close>: flags and exit codes of the programs, and the check of an installed hook, which ties hook, client, server and installer
    together.

  \<^bold>\<open>Bounds and fuel.\<close>  Limits of the code (queues, batches, payloads, counts of metadata) are the constants of the code.  Loops are structural
  recursions or carry a measure; two have fuel.  \<open>drain\<close> takes the number of queued items, which \<open>drain_all\<close> shows to be enough.
  The search for a quarantine name takes one more than the number of files, and \<open>quarantine_target_found\<close> shows that it ends with a free one.

  \<^bold>\<open>Not modelled.\<close>  The user interface, the native dialogs and the start of the desktop program; the creation of sockets and named pipes, of
  processes and process groups, and the relaying of signals, which are calls of the operating system; the Windows variants of files split by
  platform; the floating-point positions of the layout; file modes and the creation and removal of directories by the installer; printed
  texts; the generator of review projects and the fixtures for tests, which have no logic of their own.  Deadlines are modelled where they decide
  what happens next, as a choice the environment may make at any time.
\<close>

end
